(* ===== verification/Prelude.thy ===== *)
theory Prelude
  imports Main "HOL-Library.Word"
begin

text \<open>
  The vocabulary the component theories share: the fixed-width integer types of
  \<^verbatim>\<open>ginclude/gba/types.h\<close>, the collections the proofs of the development draw on,
  and generic lemmas on words, bits, lists and loops.

  A C integer of width \<open>w\<close> is a \<open>w word\<close>; \<open>ucast\<close> is the conversion the compiler
  inserts for an unsigned operand, \<open>scast\<close> the one for a signed operand, and \<open>sint\<close>
  reads a word as the signed value it stands for.
\<close>

unbundle bit_operations_syntax

section \<open>Integer types\<close>

type_synonym u8 = "8 word"
type_synonym u16 = "16 word"
type_synonym u32 = "32 word"
type_synonym s8 = "8 word"
type_synonym s16 = "16 word"
type_synonym s32 = "32 word"
type_synonym bool8 = "8 word"

text \<open>The constants \<^verbatim>\<open>TRUE\<close> and \<^verbatim>\<open>FALSE\<close> of \<^verbatim>\<open>ginclude/gba/defines.h\<close>.\<close>

abbreviation TRUE8 :: bool8 where "TRUE8 \<equiv> 1"
abbreviation FALSE8 :: bool8 where "FALSE8 \<equiv> 0"

section \<open>Collections\<close>

named_theorems io_defs "unfolding rules of the register and bus accessors"
named_theorems op_defs "definitions of the library's operations"
named_theorems frame_simps "what an operation leaves unchanged"

section \<open>Lists and folds\<close>

lemma fold_append_trace:
  assumes "\<And>x s. h (f x s) = h s @ g x"
  shows "h (fold f xs s) = h s @ concat (map g xs)"
  by (induction xs arbitrary: s) (simp_all add: assms)

lemma fold_keeps:
  assumes "\<And>x s. p (f x s) = p s"
  shows "p (fold f xs s) = p s"
  by (induction xs arbitrary: s) (simp_all add: assms)

section \<open>Words\<close>

lemma and_one_cases: "(w :: 'a::len word) AND 1 = (if bit w 0 then 1 else 0)"
  by (simp add: and_one_eq odd_iff_mod_2_eq_one bit_0)

lemma all_less_8:
  "(\<forall>n<8. P n) \<longleftrightarrow> P 0 \<and> P 1 \<and> P 2 \<and> P 3 \<and> P 4 \<and> P 5 \<and> P 6 \<and> P (7::nat)"
  by (simp add: numeral_eq_Suc All_less_Suc) auto

text \<open>Equality of bytes bit by bit: with \<open>bit_simps\<close> it decides equations between masks
  and shifts of bytes.\<close>

lemma u8_eq_iff:
  "(a :: u8) = b \<longleftrightarrow> bit a 0 = bit b 0 \<and> bit a 1 = bit b 1 \<and> bit a 2 = bit b 2 \<and> bit a 3 = bit b 3
     \<and> bit a 4 = bit b 4 \<and> bit a 5 = bit b 5 \<and> bit a 6 = bit b 6 \<and> bit a 7 = bit b 7"
proof -
  have "a = b \<longleftrightarrow> (\<forall>n<8. bit a n = bit b n)"
    by (auto simp: bit_eq_iff dest: bit_imp_le_length)
  then show ?thesis by (simp only: all_less_8)
qed

lemma u8_less_4: "(x :: u8) < 4 \<longleftrightarrow> x \<in> {0, 1, 2, 3}"
proof -
  have "unat x < 4 \<longleftrightarrow> unat x = 0 \<or> unat x = 1 \<or> unat x = 2 \<or> unat x = 3" by arith
  then show ?thesis by (simp add: word_less_nat_alt word_unat_eq_iff)
qed

lemma drop_bit_and_one:
  "drop_bit n (w :: 'a::len word) AND 1 = (if bit w n then 1 else 0)"
  by (simp add: and_one_cases bit_drop_bit_eq)

lemma ucast_u16_u32_0: "(ucast (q :: u16) :: u32) = 0 \<longleftrightarrow> q = 0"
  by transfer simp

lemma u8_and_FF: "(0xFF :: u8) AND x = x"
proof -
  have "(0xFF :: u8) = - 1" by simp
  then show ?thesis by (simp only: and.left_neutral)
qed

lemma join_bytes:
  fixes h l :: u8
  shows "(push_bit 8 (ucast h) OR ucast l :: u16) = push_bit 8 (ucast h') OR ucast l' \<longleftrightarrow> h = h' \<and> l = l'"
proof -
  have lo: "ucast (push_bit 8 (ucast h) OR ucast l :: u16) = l" for h l :: u8
    by (rule bit_word_eqI) (simp add: bit_simps)
  have hi: "ucast (drop_bit 8 (push_bit 8 (ucast h) OR ucast l :: u16)) = h" for h l :: u8
    by (rule bit_word_eqI) (auto simp: bit_simps dest: bit_imp_le_length)
  show ?thesis by (metis lo hi)
qed

lemma bits_beyond:
  "\<not> bit (x :: u8) (8 + n)" "\<not> bit (x :: u8) (16 + n)" "\<not> bit (x :: u8) (24 + n)"
  "\<not> bit (y :: u16) (16 + n)" "\<not> bit (y :: u16) (24 + n)"
  by (auto dest: bit_imp_le_length)

section \<open>Little-endian loads and stores\<close>

definition ld32 :: "(u32 \<Rightarrow> u8) \<Rightarrow> u32 \<Rightarrow> u32" where
  "ld32 m a = ucast (m a) OR push_bit 8 (ucast (m (a + 1)))
     OR push_bit 16 (ucast (m (a + 2))) OR push_bit 24 (ucast (m (a + 3)))"

lemma bit_ld32:
  assumes "k < 32"
  shows "bit (ld32 m c) k \<longleftrightarrow> (if k < 8 then bit (m c) k else if k < 16 then bit (m (c + 1)) (k - 8)
    else if k < 24 then bit (m (c + 2)) (k - 16) else bit (m (c + 3)) (k - 24))"
  unfolding ld32_def using assms by (auto simp: bit_simps dest: bit_imp_le_length)

definition st32 :: "u32 \<Rightarrow> u32 \<Rightarrow> (u32 \<Rightarrow> u8) \<Rightarrow> (u32 \<Rightarrow> u8)" where
  "st32 a w m = m(a := ucast w, a + 1 := ucast (drop_bit 8 w),
     a + 2 := ucast (drop_bit 16 w), a + 3 := ucast (drop_bit 24 w))"

lemma ld32_bytes:
  "ucast (ld32 m a) = m a" "ucast (drop_bit 8 (ld32 m a)) = m (a + 1)"
  "ucast (drop_bit 16 (ld32 m a)) = m (a + 2)" "ucast (drop_bit 24 (ld32 m a)) = m (a + 3)"
  by (auto intro!: bit_word_eqI simp: bit_simps bit_ld32)

lemma ld32_eq_iff:
  "ld32 m a = ld32 n b \<longleftrightarrow> m a = n b \<and> m (a + 1) = n (b + 1) \<and> m (a + 2) = n (b + 2) \<and> m (a + 3) = n (b + 3)"
  by (metis ld32_bytes ld32_def)

end
