(* ===== verification/Siirtc.thy ===== *)
theory Siirtc
  imports Prelude
begin

text \<open>
  The driver of the cartridge's real-time clock, \<^verbatim>\<open>src/siirtc/siirtc.c\<close>: an S-3511A
  chip behind three pins of the GPIO port (SCK bit 0, SIO bit 1, CS bit 2), driven by
  writing one 16-bit register.

  The state of the driver is the lock byte \<open>sLocked\<close> and the chronological list of
  accesses to the volatile GPIO registers. The chip is not part of the repository: it is
  the parameter \<open>port_in\<close> of the model, the value a read of the data register returns
  as a function of every access so far. The two reads of uninitialised storage in the
  source are parameters as well (\<open>stack_byte\<close> for \<open>value\<close> of \<open>ReadData\<close>,
  \<open>stack_info\<close> for the local structs of \<open>SiiRtcProbe\<close> and \<open>SiiRtcReset\<close>).

  The theorems are stated against the wire protocol: \<open>wire\<close> is the sequence of chip
  selects, clocked-in bits and clocked-out bits that a chip sees in a list of accesses.
\<close>

unbundle bit_operations_syntax

section \<open>Data\<close>

record SiiRtcInfo =
  year :: u8
  month :: u8
  day :: u8
  dayOfWeek :: u8
  hour :: u8
  minute :: u8
  second :: u8
  status :: u8
  alarmHour :: u8
  alarmMinute :: u8

text \<open>\<^verbatim>\<open>GPIOPortDirection\<close> is an external symbol of its own in the source.\<close>

datatype gpio_event =
    WrData u16
  | WrDirection u16
  | WrDirectionSym u16
  | WrReadEnable u16
  | RdData u16

record rtc_state =
  sLocked :: bool8
  gpio :: "gpio_event list"

record rtc_env =
  port_in :: "gpio_event list \<Rightarrow> u16"
  stack_byte :: "gpio_event list \<Rightarrow> u8"
  stack_info :: SiiRtcInfo

definition SIIRTCINFO_INTFE :: u8 where "SIIRTCINFO_INTFE = 0x01"
definition SIIRTCINFO_INTME :: u8 where "SIIRTCINFO_INTME = 0x02"
definition SIIRTCINFO_INTAE :: u8 where "SIIRTCINFO_INTAE = 0x04"
definition SIIRTCINFO_24HOUR :: u8 where "SIIRTCINFO_24HOUR = 0x40"
definition SIIRTCINFO_POWER :: u8 where "SIIRTCINFO_POWER = 0x80"

definition STATUS_INTFE :: u8 where "STATUS_INTFE = 0x02"
definition STATUS_INTME :: u8 where "STATUS_INTME = 0x08"
definition STATUS_INTAE :: u8 where "STATUS_INTAE = 0x20"
definition STATUS_24HOUR :: u8 where "STATUS_24HOUR = 0x40"
definition STATUS_POWER :: u8 where "STATUS_POWER = 0x80"

definition TEST_MODE :: u8 where "TEST_MODE = 0x80"
definition ALARM_AM :: u8 where "ALARM_AM = 0x00"
definition ALARM_PM :: u8 where "ALARM_PM = 0x80"

lemmas rtc_consts =
  SIIRTCINFO_INTFE_def SIIRTCINFO_INTME_def SIIRTCINFO_INTAE_def SIIRTCINFO_24HOUR_def
  SIIRTCINFO_POWER_def STATUS_INTFE_def STATUS_INTME_def STATUS_INTAE_def STATUS_24HOUR_def
  STATUS_POWER_def TEST_MODE_def ALARM_AM_def ALARM_PM_def

text \<open>The struct is read and written as a byte array through \<^verbatim>\<open>INFO_BUF\<close>.\<close>

definition OFFSET_YEAR :: nat where "OFFSET_YEAR = 0"
definition OFFSET_HOUR :: nat where "OFFSET_HOUR = 4"
definition OFFSET_SECOND :: nat where "OFFSET_SECOND = 6"
definition DATETIME_BUF_LEN :: nat where "DATETIME_BUF_LEN = OFFSET_SECOND - OFFSET_YEAR + 1"
definition TIME_BUF_LEN :: nat where "TIME_BUF_LEN = OFFSET_SECOND - OFFSET_HOUR + 1"

lemmas rtc_offsets =
  OFFSET_YEAR_def OFFSET_HOUR_def OFFSET_SECOND_def DATETIME_BUF_LEN_def TIME_BUF_LEN_def

definition info_bytes :: "SiiRtcInfo \<Rightarrow> u8 list" where
  "info_bytes r = [year r, month r, day r, dayOfWeek r, hour r, minute r, second r,
     status r, alarmHour r, alarmMinute r]"

definition INFO_BUF :: "SiiRtcInfo \<Rightarrow> nat \<Rightarrow> u8" where
  "INFO_BUF r i = (if i < 10 then info_bytes r ! i else 0)"

definition INFO_BUF_set :: "nat \<Rightarrow> u8 \<Rightarrow> SiiRtcInfo \<Rightarrow> SiiRtcInfo" where
  "INFO_BUF_set i v r =
     (if i = 0 then r\<lparr>year := v\<rparr>
      else if i = 1 then r\<lparr>month := v\<rparr>
      else if i = 2 then r\<lparr>day := v\<rparr>
      else if i = 3 then r\<lparr>dayOfWeek := v\<rparr>
      else if i = 4 then r\<lparr>hour := v\<rparr>
      else if i = 5 then r\<lparr>minute := v\<rparr>
      else if i = 6 then r\<lparr>second := v\<rparr>
      else if i = 7 then r\<lparr>status := v\<rparr>
      else if i = 8 then r\<lparr>alarmHour := v\<rparr>
      else if i = 9 then r\<lparr>alarmMinute := v\<rparr>
      else r)"

definition WR :: u8 where "WR = 0"
definition RD :: u8 where "RD = 1"
definition CMD :: "u8 \<Rightarrow> u8" where "CMD n = 0x60 OR push_bit 1 n"
definition CMD_RESET :: u8 where "CMD_RESET = CMD 0"
definition CMD_STATUS :: u8 where "CMD_STATUS = CMD 1"
definition CMD_DATETIME :: u8 where "CMD_DATETIME = CMD 2"
definition CMD_TIME :: u8 where "CMD_TIME = CMD 3"
definition CMD_ALARM :: u8 where "CMD_ALARM = CMD 4"

lemmas rtc_cmds =
  WR_def RD_def CMD_def CMD_RESET_def CMD_STATUS_def CMD_DATETIME_def CMD_TIME_def CMD_ALARM_def

section \<open>Bit-level transfers\<close>

definition gpio_emit :: "gpio_event \<Rightarrow> rtc_state \<Rightarrow> rtc_state" where
  "gpio_emit e s = s\<lparr>gpio := gpio s @ [e]\<rparr>"

abbreviation GPIO_PORT_DATA_write :: "u16 \<Rightarrow> rtc_state \<Rightarrow> rtc_state" where
  "GPIO_PORT_DATA_write v \<equiv> gpio_emit (WrData v)"

abbreviation GPIO_PORT_DIRECTION_write :: "u16 \<Rightarrow> rtc_state \<Rightarrow> rtc_state" where
  "GPIO_PORT_DIRECTION_write v \<equiv> gpio_emit (WrDirection v)"

definition GPIO_PORT_DATA_read :: "rtc_env \<Rightarrow> rtc_state \<Rightarrow> u16 \<times> rtc_state" where
  "GPIO_PORT_DATA_read env s = (let v = port_in env (gpio s) in (v, gpio_emit (RdData v) s))"

definition EnableGpioPortRead :: "rtc_state \<Rightarrow> rtc_state" where
  "EnableGpioPortRead s = gpio_emit (WrReadEnable 1) s"

definition DisableGpioPortRead :: "rtc_state \<Rightarrow> rtc_state" where
  "DisableGpioPortRead s = gpio_emit (WrReadEnable 0) s"

text \<open>One bit out: three writes with the clock low, one with the clock high.\<close>

definition write_bit :: "u8 \<Rightarrow> rtc_state \<Rightarrow> rtc_state" where
  "write_bit temp s =
     (let s = GPIO_PORT_DATA_write (push_bit 1 (ucast temp) OR 4) s;
          s = GPIO_PORT_DATA_write (push_bit 1 (ucast temp) OR 4) s;
          s = GPIO_PORT_DATA_write (push_bit 1 (ucast temp) OR 4) s
      in GPIO_PORT_DATA_write (push_bit 1 (ucast temp) OR 5) s)"

definition WriteCommand :: "u8 \<Rightarrow> rtc_state \<Rightarrow> rtc_state" where
  "WriteCommand value s = fold (\<lambda>i s. write_bit (drop_bit (7 - i) value AND 1) s) [0..<8] s"

definition WriteData :: "u8 \<Rightarrow> rtc_state \<Rightarrow> rtc_state" where
  "WriteData value s = fold (\<lambda>i s. write_bit (drop_bit i value AND 1) s) [0..<8] s"

definition read_bit :: "rtc_env \<Rightarrow> u8 \<times> rtc_state \<Rightarrow> u8 \<times> rtc_state" where
  "read_bit env vs =
     (let (value, s) = vs;
          s = GPIO_PORT_DATA_write 4 s;
          s = GPIO_PORT_DATA_write 4 s;
          s = GPIO_PORT_DATA_write 4 s;
          s = GPIO_PORT_DATA_write 4 s;
          s = GPIO_PORT_DATA_write 4 s;
          s = GPIO_PORT_DATA_write 5 s;
          (p, s) = GPIO_PORT_DATA_read env s;
          temp = ucast (drop_bit 1 (p AND 2)) :: u8;
          value = drop_bit 1 value OR push_bit 7 temp
      in (value, s))"

definition ReadData :: "rtc_env \<Rightarrow> rtc_state \<Rightarrow> u8 \<times> rtc_state" where
  "ReadData env s = fold (\<lambda>_. read_bit env) [0..<8::nat] (stack_byte env (gpio s), s)"

text \<open>The loops over the bytes of a buffer.\<close>

definition WriteBuf :: "(nat \<Rightarrow> u8) \<Rightarrow> nat \<Rightarrow> rtc_state \<Rightarrow> rtc_state" where
  "WriteBuf buf n s = fold (\<lambda>i s. WriteData (buf i) s) [0..<n] s"

definition ReadBuf ::
  "rtc_env \<Rightarrow> nat \<Rightarrow> nat \<Rightarrow> SiiRtcInfo \<times> rtc_state \<Rightarrow> SiiRtcInfo \<times> rtc_state" where
  "ReadBuf env off n rs =
     fold (\<lambda>i (rtc, s). let (v, s) = ReadData env s in (INFO_BUF_set (off + i) v rtc, s)) [0..<n] rs"

section \<open>The interface\<close>

definition SiiRtcUnprotect :: "rtc_state \<Rightarrow> rtc_state" where
  "SiiRtcUnprotect s = (EnableGpioPortRead s)\<lparr>sLocked := FALSE8\<rparr>"

definition SiiRtcProtect :: "rtc_state \<Rightarrow> rtc_state" where
  "SiiRtcProtect s = (DisableGpioPortRead s)\<lparr>sLocked := TRUE8\<rparr>"

definition SiiRtcGetStatus ::
  "rtc_env \<Rightarrow> SiiRtcInfo \<Rightarrow> rtc_state \<Rightarrow> (bool8 \<times> SiiRtcInfo) \<times> rtc_state" where
  "SiiRtcGetStatus env rtc s =
     (if sLocked s = TRUE8 then ((FALSE8, rtc), s)
      else
        let s = s\<lparr>sLocked := TRUE8\<rparr>;
            s = GPIO_PORT_DATA_write 1 s;
            s = GPIO_PORT_DATA_write 5 s;
            s = GPIO_PORT_DIRECTION_write 7 s;
            s = WriteCommand (CMD_STATUS OR RD) s;
            s = GPIO_PORT_DIRECTION_write 5 s;
            (statusData, s) = ReadData env s;
            rtc = rtc\<lparr>status := (statusData AND (STATUS_POWER OR STATUS_24HOUR))
                     OR drop_bit 3 (statusData AND STATUS_INTAE)
                     OR drop_bit 2 (statusData AND STATUS_INTME)
                     OR drop_bit 1 (statusData AND STATUS_INTFE)\<rparr>;
            s = GPIO_PORT_DATA_write 1 s;
            s = GPIO_PORT_DATA_write 1 s;
            s = s\<lparr>sLocked := FALSE8\<rparr>
        in ((TRUE8, rtc), s))"

definition SiiRtcSetStatus :: "SiiRtcInfo \<Rightarrow> rtc_state \<Rightarrow> bool8 \<times> rtc_state" where
  "SiiRtcSetStatus rtc s =
     (if sLocked s = TRUE8 then (FALSE8, s)
      else
        let s = s\<lparr>sLocked := TRUE8\<rparr>;
            s = GPIO_PORT_DATA_write 1 s;
            s = GPIO_PORT_DATA_write 5 s;
            statusData = STATUS_24HOUR
              OR push_bit 3 (status rtc AND SIIRTCINFO_INTAE)
              OR push_bit 2 (status rtc AND SIIRTCINFO_INTME)
              OR push_bit 1 (status rtc AND SIIRTCINFO_INTFE);
            s = GPIO_PORT_DIRECTION_write 7 s;
            s = WriteCommand (CMD_STATUS OR WR) s;
            s = WriteData statusData s;
            s = GPIO_PORT_DATA_write 1 s;
            s = GPIO_PORT_DATA_write 1 s;
            s = s\<lparr>sLocked := FALSE8\<rparr>
        in (TRUE8, s))"

definition SiiRtcReset :: "rtc_env \<Rightarrow> rtc_state \<Rightarrow> bool8 \<times> rtc_state" where
  "SiiRtcReset env s =
     (if sLocked s = TRUE8 then (FALSE8, s)
      else
        let s = s\<lparr>sLocked := TRUE8\<rparr>;
            s = GPIO_PORT_DATA_write 1 s;
            s = GPIO_PORT_DATA_write 5 s;
            s = GPIO_PORT_DIRECTION_write 7 s;
            s = WriteCommand (CMD_RESET OR WR) s;
            s = GPIO_PORT_DATA_write 1 s;
            s = GPIO_PORT_DATA_write 1 s;
            s = s\<lparr>sLocked := FALSE8\<rparr>;
            rtc = (stack_info env)\<lparr>status := SIIRTCINFO_24HOUR\<rparr>
        in SiiRtcSetStatus rtc s)"

definition SiiRtcGetDateTime ::
  "rtc_env \<Rightarrow> SiiRtcInfo \<Rightarrow> rtc_state \<Rightarrow> (bool8 \<times> SiiRtcInfo) \<times> rtc_state" where
  "SiiRtcGetDateTime env rtc s =
     (if sLocked s = TRUE8 then ((FALSE8, rtc), s)
      else
        let s = s\<lparr>sLocked := TRUE8\<rparr>;
            s = GPIO_PORT_DATA_write 1 s;
            s = GPIO_PORT_DATA_write 5 s;
            s = GPIO_PORT_DIRECTION_write 7 s;
            s = WriteCommand (CMD_DATETIME OR RD) s;
            s = GPIO_PORT_DIRECTION_write 5 s;
            (rtc, s) = ReadBuf env OFFSET_YEAR DATETIME_BUF_LEN (rtc, s);
            rtc = INFO_BUF_set OFFSET_HOUR (INFO_BUF rtc OFFSET_HOUR AND 0x7F) rtc;
            s = GPIO_PORT_DATA_write 1 s;
            s = GPIO_PORT_DATA_write 1 s;
            s = s\<lparr>sLocked := FALSE8\<rparr>
        in ((TRUE8, rtc), s))"

definition SiiRtcSetDateTime :: "SiiRtcInfo \<Rightarrow> rtc_state \<Rightarrow> bool8 \<times> rtc_state" where
  "SiiRtcSetDateTime rtc s =
     (if sLocked s = TRUE8 then (FALSE8, s)
      else
        let s = s\<lparr>sLocked := TRUE8\<rparr>;
            s = GPIO_PORT_DATA_write 1 s;
            s = GPIO_PORT_DATA_write 5 s;
            s = GPIO_PORT_DIRECTION_write 7 s;
            s = WriteCommand (CMD_DATETIME OR WR) s;
            s = WriteBuf (\<lambda>i. INFO_BUF rtc (OFFSET_YEAR + i)) DATETIME_BUF_LEN s;
            s = GPIO_PORT_DATA_write 1 s;
            s = GPIO_PORT_DATA_write 1 s;
            s = s\<lparr>sLocked := FALSE8\<rparr>
        in (TRUE8, s))"

definition SiiRtcGetTime ::
  "rtc_env \<Rightarrow> SiiRtcInfo \<Rightarrow> rtc_state \<Rightarrow> (bool8 \<times> SiiRtcInfo) \<times> rtc_state" where
  "SiiRtcGetTime env rtc s =
     (if sLocked s = TRUE8 then ((FALSE8, rtc), s)
      else
        let s = s\<lparr>sLocked := TRUE8\<rparr>;
            s = GPIO_PORT_DATA_write 1 s;
            s = GPIO_PORT_DATA_write 5 s;
            s = GPIO_PORT_DIRECTION_write 7 s;
            s = WriteCommand (CMD_TIME OR RD) s;
            s = GPIO_PORT_DIRECTION_write 5 s;
            (rtc, s) = ReadBuf env OFFSET_HOUR TIME_BUF_LEN (rtc, s);
            rtc = INFO_BUF_set OFFSET_HOUR (INFO_BUF rtc OFFSET_HOUR AND 0x7F) rtc;
            s = GPIO_PORT_DATA_write 1 s;
            s = GPIO_PORT_DATA_write 1 s;
            s = s\<lparr>sLocked := FALSE8\<rparr>
        in ((TRUE8, rtc), s))"

definition SiiRtcSetTime :: "SiiRtcInfo \<Rightarrow> rtc_state \<Rightarrow> bool8 \<times> rtc_state" where
  "SiiRtcSetTime rtc s =
     (if sLocked s = TRUE8 then (FALSE8, s)
      else
        let s = s\<lparr>sLocked := TRUE8\<rparr>;
            s = GPIO_PORT_DATA_write 1 s;
            s = GPIO_PORT_DATA_write 5 s;
            s = GPIO_PORT_DIRECTION_write 7 s;
            s = WriteCommand (CMD_TIME OR WR) s;
            s = WriteBuf (\<lambda>i. INFO_BUF rtc (OFFSET_HOUR + i)) TIME_BUF_LEN s;
            s = GPIO_PORT_DATA_write 1 s;
            s = GPIO_PORT_DATA_write 1 s;
            s = s\<lparr>sLocked := FALSE8\<rparr>
        in (TRUE8, s))"

definition SiiRtcSetAlarm :: "SiiRtcInfo \<Rightarrow> rtc_state \<Rightarrow> bool8 \<times> rtc_state" where
  "SiiRtcSetAlarm rtc s =
     (if sLocked s = TRUE8 then (FALSE8, s)
      else
        let s = s\<lparr>sLocked := TRUE8\<rparr>;
            alarmData0 = (alarmHour rtc AND 0xF) + 10 * (drop_bit 4 (alarmHour rtc) AND 0xF);
            alarmData0 = (if alarmData0 < 12 then alarmHour rtc OR ALARM_AM
                          else alarmHour rtc OR ALARM_PM);
            alarmData1 = alarmMinute rtc;
            s = GPIO_PORT_DATA_write 1 s;
            s = GPIO_PORT_DATA_write 5 s;
            s = gpio_emit (WrDirectionSym 7) s;
            s = WriteCommand (CMD_ALARM OR WR) s;
            s = WriteBuf (\<lambda>i. [alarmData0, alarmData1] ! i) 2 s;
            s = GPIO_PORT_DATA_write 1 s;
            s = GPIO_PORT_DATA_write 1 s;
            s = s\<lparr>sLocked := FALSE8\<rparr>
        in (TRUE8, s))"

definition SiiRtcProbe :: "rtc_env \<Rightarrow> rtc_state \<Rightarrow> u8 \<times> rtc_state" where
  "SiiRtcProbe env s =
     (let ((ok, rtc), s) = SiiRtcGetStatus env (stack_info env) s
      in if ok = 0 then (0, s)
         else
           let errorCode = (0 :: u8);
               mode = status rtc AND (SIIRTCINFO_POWER OR SIIRTCINFO_24HOUR);
               h12 = (mode = SIIRTCINFO_POWER \<or> mode = 0);
               (r, s) = (if h12 then SiiRtcReset env s else (TRUE8, s))
           in if h12 \<and> r = 0 then (0, s)
              else
                let errorCode = (if h12 then errorCode + 1 else errorCode);
                    ((_, rtc), s) = SiiRtcGetTime env rtc s
                in if second rtc AND TEST_MODE \<noteq> 0
                   then let (r, s) = SiiRtcReset env s
                        in if r = 0 then (push_bit 4 errorCode AND 0xF0, s)
                           else (push_bit 4 (errorCode + 1) OR 1, s)
                   else (push_bit 4 errorCode OR 1, s))"

section \<open>The wire protocol\<close>

text \<open>
  What a chip on the three pins observes: a rising CS starts a frame and a falling CS ends
  it; on a rising SCK within a frame the chip takes the SIO level as the next bit when the
  port drives that pin, and has shifted out the next bit when the pin is an input. The
  external symbol \<^verbatim>\<open>GPIOPortDirection\<close> is taken to be the direction register.
\<close>

datatype wire_sym = Start | Bit bool | Clk | Stop

record wire_state =
  w_cs :: bool
  w_sck :: bool
  w_out :: bool

fun wire_next :: "wire_state \<Rightarrow> gpio_event \<Rightarrow> wire_state" where
  "wire_next st (WrData w) = st\<lparr>w_cs := bit w 2, w_sck := bit w 0\<rparr>"
| "wire_next st (WrDirection w) = st\<lparr>w_out := bit w 1\<rparr>"
| "wire_next st (WrDirectionSym w) = st\<lparr>w_out := bit w 1\<rparr>"
| "wire_next st _ = st"

fun wire_out :: "wire_state \<Rightarrow> gpio_event \<Rightarrow> wire_sym list" where
  "wire_out st (WrData w) =
     (if \<not> w_cs st \<and> bit w 2 then [Start]
      else if w_cs st \<and> \<not> bit w 2 then [Stop]
      else if w_cs st \<and> \<not> w_sck st \<and> bit w 0
           then [if w_out st then Bit (bit w 1) else Clk]
      else [])"
| "wire_out st _ = []"

fun wire :: "wire_state \<Rightarrow> gpio_event list \<Rightarrow> wire_sym list" where
  "wire st [] = []"
| "wire st (e # es) = wire_out st e @ wire (wire_next st e) es"

definition wire_end :: "wire_state \<Rightarrow> gpio_event list \<Rightarrow> wire_state" where
  "wire_end st es = foldl wire_next st es"

definition bits_msb :: "u8 \<Rightarrow> bool list" where
  "bits_msb v = map (\<lambda>i. bit v (7 - i)) [0..<8]"

definition bits_lsb :: "u8 \<Rightarrow> bool list" where
  "bits_lsb v = map (bit v) [0..<8]"

definition byte_lsb :: "bool list \<Rightarrow> u8" where
  "byte_lsb bs = horner_sum of_bool 2 bs"

lemma wire_append [simp]: "wire st (xs @ ys) = wire st xs @ wire (wire_end st xs) ys"
  by (induction xs arbitrary: st) (simp_all add: wire_end_def)

lemma wire_end_simps [simp]:
  "wire_end st [] = st"
  "wire_end st (e # es) = wire_end (wire_next st e) es"
  "wire_end st (xs @ ys) = wire_end (wire_end st xs) ys"
  by (simp_all add: wire_end_def)

lemma length_bits [simp]: "length (bits_msb v) = 8" "length (bits_lsb v) = 8"
  by (simp_all add: bits_msb_def bits_lsb_def)

lemma byte_lsb_bits_lsb [simp]: "byte_lsb (bits_lsb v) = v"
  by (rule bit_word_eqI) (simp add: byte_lsb_def bits_lsb_def bit_horner_sum_bit_word_iff)

section \<open>Transfers as traces\<close>

definition pulse :: "bool \<Rightarrow> gpio_event list" where
  "pulse b = (let w = (if b then 6 else 4) in [WrData w, WrData w, WrData w, WrData (w OR 1)])"

definition clock_low_high :: "gpio_event list" where
  "clock_low_high = replicate 5 (WrData 4) @ [WrData 5]"

definition rpulse :: "u16 \<Rightarrow> gpio_event list" where
  "rpulse p = clock_low_high @ [RdData p]"

primrec clock_in :: "rtc_env \<Rightarrow> nat \<Rightarrow> gpio_event list \<Rightarrow> u16 list" where
  "clock_in env 0 h = []"
| "clock_in env (Suc n) h =
     (let p = port_in env (h @ clock_low_high) in p # clock_in env n (h @ rpulse p))"

definition shift_in :: "bool list \<Rightarrow> u8 \<Rightarrow> u8" where
  "shift_in bs v = fold (\<lambda>b v. drop_bit 1 v OR push_bit 7 (of_bool b)) bs v"

lemma length_clock_in [simp]: "length (clock_in env n h) = n"
  by (induction n arbitrary: h) (simp_all add: Let_def)

lemma gpio_emit_eq [io_defs]: "gpio_emit e s = s\<lparr>gpio := gpio s @ [e]\<rparr>"
  by (simp add: gpio_emit_def)

lemma write_bit_eq: "write_bit (of_bool b) s = s\<lparr>gpio := gpio s @ pulse b\<rparr>"
  by (simp add: write_bit_def pulse_def io_defs Let_def)

lemma drop_bit_and_one_of_bool: "drop_bit n (v :: u8) AND 1 = of_bool (bit v n)"
  by (simp add: drop_bit_and_one)

lemma fold_write_bit:
  "fold (\<lambda>i s. write_bit (drop_bit (f i) v AND 1) s) xs s
   = s\<lparr>gpio := gpio s @ concat (map (\<lambda>i. pulse (bit v (f i))) xs)\<rparr>"
  by (induction xs arbitrary: s) (simp_all add: drop_bit_and_one_of_bool write_bit_eq)

lemma WriteCommand_eq:
  "WriteCommand v s = s\<lparr>gpio := gpio s @ concat (map pulse (bits_msb v))\<rparr>"
  by (simp add: WriteCommand_def fold_write_bit bits_msb_def comp_def)

lemma WriteData_eq:
  "WriteData v s = s\<lparr>gpio := gpio s @ concat (map pulse (bits_lsb v))\<rparr>"
  using fold_write_bit [of "\<lambda>i. i" v "[0..<8]" s]
  by (simp add: WriteData_def bits_lsb_def comp_def)

lemma WriteBuf_eq:
  "WriteBuf buf n s
   = s\<lparr>gpio := gpio s @ concat (map pulse (concat (map (\<lambda>i. bits_lsb (buf i)) [0..<n])))\<rparr>"
  by (induction n) (simp_all add: WriteBuf_def WriteData_eq)

lemma port_bit: "ucast (drop_bit (Suc 0) (p :: u16) AND 1) = (of_bool (bit p (Suc 0)) :: u8)"
  by (simp add: drop_bit_and_one)

lemma read_bit_eq:
  "read_bit env (v, s) =
     (let p = port_in env (gpio s @ clock_low_high)
      in (shift_in [bit p 1] v, s\<lparr>gpio := gpio s @ rpulse p\<rparr>))"
  by (simp add: read_bit_def io_defs GPIO_PORT_DATA_read_def Let_def clock_low_high_def
      rpulse_def shift_in_def port_bit numeral_eq_Suc)

lemma shift_in_append: "shift_in (xs @ ys) v = shift_in ys (shift_in xs v)"
  by (simp add: shift_in_def)

lemma fold_read_bit:
  "fold (\<lambda>_. read_bit env) xs (v, s) =
     (let ps = clock_in env (length xs) (gpio s)
      in (shift_in (map (\<lambda>p. bit p 1) ps) v, s\<lparr>gpio := gpio s @ concat (map rpulse ps)\<rparr>))"
  by (induction xs arbitrary: v s)
    (simp_all add: Let_def read_bit_eq shift_in_def)

lemma bit_shift_in:
  "length bs \<le> 8 \<Longrightarrow> n < 8 \<Longrightarrow>
   bit (shift_in bs v) n =
     (if n + length bs < 8 then bit v (n + length bs) else bs ! (n + length bs - 8))"
proof (induction bs arbitrary: v)
  case Nil
  then show ?case by (simp add: shift_in_def)
next
  case (Cons b bs)
  define w where "w = drop_bit 1 v OR push_bit 7 (of_bool b)"
  have step: "shift_in (b # bs) v = shift_in bs w"
    by (simp add: shift_in_def w_def)
  have "bit w m = (if m < 7 then bit v (Suc m) else b)" if "m < 8" for m
    unfolding w_def using that by (auto simp: bit_simps dest: bit_imp_le_length)
  then show ?case
    using Cons.prems Cons.IH [of w] by (auto simp: step nth_Cons' not_less)
qed

lemma shift_in_full: "length bs = 8 \<Longrightarrow> shift_in bs v = byte_lsb bs"
  by (rule bit_word_eqI) (simp add: bit_shift_in byte_lsb_def bit_horner_sum_bit_word_iff)

lemma ReadData_eq:
  "ReadData env s =
     (let ps = clock_in env 8 (gpio s)
      in (byte_lsb (map (\<lambda>p. bit p 1) ps), s\<lparr>gpio := gpio s @ concat (map rpulse ps)\<rparr>))"
  by (simp add: ReadData_def fold_read_bit Let_def shift_in_full)

lemma clock_in_add:
  "clock_in env (m + n) h =
     clock_in env m h @ clock_in env n (h @ concat (map rpulse (clock_in env m h)))"
  by (induction m arbitrary: h) (simp_all add: Let_def)

definition nth_byte :: "bool list \<Rightarrow> nat \<Rightarrow> u8" where
  "nth_byte bs i = byte_lsb (take 8 (drop (8 * i) bs))"

lemma nth_byte_append [simp]:
  "8 * i + 8 \<le> length xs \<Longrightarrow> nth_byte (xs @ ys) i = nth_byte xs i"
  "length xs = 8 * i \<Longrightarrow> length ys = 8 \<Longrightarrow> nth_byte (xs @ ys) i = byte_lsb ys"
  by (simp_all add: nth_byte_def)

lemma nth_byte_concat: "i < length bs \<Longrightarrow> nth_byte (concat (map bits_lsb bs)) i = bs ! i"
proof (induction bs arbitrary: i)
  case (Cons b bs)
  then show ?case
    by (cases i) (simp_all add: nth_byte_def)
qed simp

lemma ReadBuf_eq:
  "ReadBuf env off n (rtc, s) =
     (let ps = clock_in env (8 * n) (gpio s); bs = map (\<lambda>p. bit p 1) ps
      in (fold (\<lambda>i. INFO_BUF_set (off + i) (nth_byte bs i)) [0..<n] rtc,
          s\<lparr>gpio := gpio s @ concat (map rpulse ps)\<rparr>))"
proof (induction n)
  case 0
  then show ?case by (simp add: ReadBuf_def)
next
  case (Suc n)
  have split: "clock_in env (8 + 8 * n) h =
      clock_in env (8 * n) h @ clock_in env 8 (h @ concat (map rpulse (clock_in env (8 * n) h)))" for h
    using clock_in_add [of env "8 * n" 8 h] by (simp add: add.commute)
  have "ReadBuf env off (Suc n) (rtc, s) =
      (let (rtc, s) = ReadBuf env off n (rtc, s); (v, s) = ReadData env s
       in (INFO_BUF_set (off + n) v rtc, s))"
    by (simp add: ReadBuf_def Let_def split_def)
  then show ?case
    by (auto simp: Suc.IH ReadData_eq Let_def split intro!: arg_cong2 [where f = INFO_BUF_set]
        arg_cong [where f = "INFO_BUF_set _ _"] fold_cong)
qed

section \<open>Operations as frames\<close>

definition wr_header :: "gpio_event \<Rightarrow> u8 \<Rightarrow> gpio_event list" where
  "wr_header d c = [WrData 1, WrData 5, d] @ concat (map pulse (bits_msb c))"

definition frame_end :: "gpio_event list" where
  "frame_end = [WrData 1, WrData 1]"

definition wr_frame :: "gpio_event \<Rightarrow> u8 \<Rightarrow> u8 list \<Rightarrow> gpio_event list" where
  "wr_frame d c ds =
     wr_header d c @ concat (map pulse (concat (map bits_lsb ds))) @ frame_end"

definition rd_header :: "u8 \<Rightarrow> gpio_event list" where
  "rd_header c = wr_header (WrDirection 7) c @ [WrDirection 5]"

definition rd_frame :: "u8 \<Rightarrow> u16 list \<Rightarrow> gpio_event list" where
  "rd_frame c ps = rd_header c @ concat (map rpulse ps) @ frame_end"

lemmas frame_defs = wr_header_def frame_end_def wr_frame_def rd_header_def rd_frame_def

definition transmit :: "gpio_event list \<Rightarrow> rtc_state \<Rightarrow> rtc_state" where
  "transmit es s = s\<lparr>sLocked := FALSE8, gpio := gpio s @ es\<rparr>"

definition status_from_chip :: "u8 \<Rightarrow> u8" where
  "status_from_chip d =
     (d AND (STATUS_POWER OR STATUS_24HOUR)) OR drop_bit 3 (d AND STATUS_INTAE)
     OR drop_bit 2 (d AND STATUS_INTME) OR drop_bit 1 (d AND STATUS_INTFE)"

definition status_to_chip :: "u8 \<Rightarrow> u8" where
  "status_to_chip d =
     STATUS_24HOUR OR push_bit 3 (d AND SIIRTCINFO_INTAE)
     OR push_bit 2 (d AND SIIRTCINFO_INTME) OR push_bit 1 (d AND SIIRTCINFO_INTFE)"

definition alarm_byte :: "u8 \<Rightarrow> u8" where
  "alarm_byte h = (if (h AND 0xF) + 10 * (drop_bit 4 h AND 0xF) < 12 then h OR ALARM_AM
     else h OR ALARM_PM)"

lemmas transfer_eqs = WriteCommand_eq WriteData_eq WriteBuf_eq ReadData_eq ReadBuf_eq

lemma SiiRtcSetStatus_frame:
  "SiiRtcSetStatus rtc s =
     (if sLocked s = TRUE8 then (FALSE8, s)
      else (TRUE8, transmit (wr_frame (WrDirection 7) (CMD_STATUS OR WR)
                               [status_to_chip (status rtc)]) s))"
  by (simp add: SiiRtcSetStatus_def transfer_eqs io_defs frame_defs transmit_def Let_def
      status_to_chip_def)

lemma SiiRtcReset_frame:
  "SiiRtcReset env s =
     (if sLocked s = TRUE8 then (FALSE8, s)
      else (TRUE8, transmit (wr_frame (WrDirection 7) (CMD_RESET OR WR) []
              @ wr_frame (WrDirection 7) (CMD_STATUS OR WR) [status_to_chip SIIRTCINFO_24HOUR]) s))"
  by (simp add: SiiRtcReset_def SiiRtcSetStatus_frame transfer_eqs io_defs frame_defs
      transmit_def Let_def)

lemma SiiRtcSetDateTime_frame:
  "SiiRtcSetDateTime rtc s =
     (if sLocked s = TRUE8 then (FALSE8, s)
      else (TRUE8, transmit (wr_frame (WrDirection 7) (CMD_DATETIME OR WR)
              [year rtc, month rtc, day rtc, dayOfWeek rtc, hour rtc, minute rtc, second rtc]) s))"
  by (simp add: SiiRtcSetDateTime_def transfer_eqs io_defs frame_defs transmit_def Let_def
      rtc_offsets upt_rec INFO_BUF_def info_bytes_def nth_Cons')

lemma SiiRtcSetTime_frame:
  "SiiRtcSetTime rtc s =
     (if sLocked s = TRUE8 then (FALSE8, s)
      else (TRUE8, transmit (wr_frame (WrDirection 7) (CMD_TIME OR WR)
              [hour rtc, minute rtc, second rtc]) s))"
  by (simp add: SiiRtcSetTime_def transfer_eqs io_defs frame_defs transmit_def Let_def
      rtc_offsets upt_rec INFO_BUF_def info_bytes_def nth_Cons')

lemma SiiRtcSetAlarm_frame:
  "SiiRtcSetAlarm rtc s =
     (if sLocked s = TRUE8 then (FALSE8, s)
      else (TRUE8, transmit (wr_frame (WrDirectionSym 7) (CMD_ALARM OR WR)
              [alarm_byte (alarmHour rtc), alarmMinute rtc]) s))"
  by (simp add: SiiRtcSetAlarm_def transfer_eqs io_defs frame_defs transmit_def Let_def
      upt_rec alarm_byte_def)

lemma SiiRtcGetStatus_frame:
  "SiiRtcGetStatus env rtc s =
     (if sLocked s = TRUE8 then ((FALSE8, rtc), s)
      else let ps = clock_in env 8 (gpio s @ rd_header (CMD_STATUS OR RD));
               d = byte_lsb (map (\<lambda>p. bit p 1) ps)
           in ((TRUE8, rtc\<lparr>status := status_from_chip d\<rparr>),
               transmit (rd_frame (CMD_STATUS OR RD) ps) s))"
  by (simp add: SiiRtcGetStatus_def transfer_eqs io_defs frame_defs transmit_def Let_def
      status_from_chip_def)

lemma upt_numerals: "[0..<7] = [0, 1, 2, 3, 4, 5, 6]" "[0..<3] = [0, 1, 2]"
  by code_simp+

lemma INFO_BUF_set_simps:
  "INFO_BUF_set 0 v r = r\<lparr>year := v\<rparr>" "INFO_BUF_set (Suc 0) v r = r\<lparr>month := v\<rparr>"
  "INFO_BUF_set 2 v r = r\<lparr>day := v\<rparr>" "INFO_BUF_set 3 v r = r\<lparr>dayOfWeek := v\<rparr>"
  "INFO_BUF_set 4 v r = r\<lparr>hour := v\<rparr>" "INFO_BUF_set 5 v r = r\<lparr>minute := v\<rparr>"
  "INFO_BUF_set 6 v r = r\<lparr>second := v\<rparr>"
  by (simp_all add: INFO_BUF_set_def)

lemma INFO_BUF_hour: "INFO_BUF r 4 = hour r"
  by (simp add: INFO_BUF_def info_bytes_def)

lemmas info_buf_eqs = INFO_BUF_set_simps INFO_BUF_hour

lemma SiiRtcGetDateTime_frame:
  "SiiRtcGetDateTime env rtc s =
     (if sLocked s = TRUE8 then ((FALSE8, rtc), s)
      else let ps = clock_in env 56 (gpio s @ rd_header (CMD_DATETIME OR RD));
               b = nth_byte (map (\<lambda>p. bit p 1) ps)
           in ((TRUE8, rtc\<lparr>year := b 0, month := b 1, day := b 2, dayOfWeek := b 3,
                  hour := b 4 AND 0x7F, minute := b 5, second := b 6\<rparr>),
               transmit (rd_frame (CMD_DATETIME OR RD) ps) s))"
  by (simp add: SiiRtcGetDateTime_def transfer_eqs io_defs frame_defs transmit_def Let_def
      rtc_offsets upt_numerals info_buf_eqs)

lemma SiiRtcGetTime_frame:
  "SiiRtcGetTime env rtc s =
     (if sLocked s = TRUE8 then ((FALSE8, rtc), s)
      else let ps = clock_in env 24 (gpio s @ rd_header (CMD_TIME OR RD));
               b = nth_byte (map (\<lambda>p. bit p 1) ps)
           in ((TRUE8, rtc\<lparr>minute := b 1, second := b 2, hour := b 0 AND 0x7F\<rparr>),
               transmit (rd_frame (CMD_TIME OR RD) ps) s))"
  by (simp add: SiiRtcGetTime_def transfer_eqs io_defs frame_defs transmit_def Let_def
      rtc_offsets upt_numerals info_buf_eqs)

section \<open>Frames on the wire\<close>

definition wire_reset :: wire_state where
  "wire_reset = \<lparr>w_cs = False, w_sck = False, w_out = False\<rparr>"

definition is_frame :: "wire_sym list \<Rightarrow> bool" where
  "is_frame f \<longleftrightarrow>
     (\<exists>bs n. f = Start # map Bit bs @ replicate (8 * n) Clk @ [Stop]
        \<and> 8 \<le> length bs \<and> 8 dvd length bs \<and> take 4 bs = [False, True, True, False])"

definition complete_frames :: "wire_sym list \<Rightarrow> bool" where
  "complete_frames ws \<longleftrightarrow> (\<exists>fs. ws = concat fs \<and> list_all is_frame fs)"

lemma complete_frames_Nil [simp]: "complete_frames []"
  unfolding complete_frames_def by (rule exI [of _ "[]"]) simp

lemma complete_frames_append [intro]:
  "complete_frames xs \<Longrightarrow> complete_frames ys \<Longrightarrow> complete_frames (xs @ ys)"
  unfolding complete_frames_def by (metis concat_append list_all_append)

lemma complete_frames_single: "is_frame f \<Longrightarrow> complete_frames f"
  unfolding complete_frames_def by (rule exI [of _ "[f]"]) simp

abbreviation selected :: "bool \<Rightarrow> wire_state" where
  "selected out \<equiv> \<lparr>w_cs = True, w_sck = True, w_out = out\<rparr>"

abbreviation deselected :: "bool \<Rightarrow> wire_state" where
  "deselected out \<equiv> \<lparr>w_cs = False, w_sck = True, w_out = out\<rparr>"

lemma pulse_wire:
  "wire (selected True) (pulse b) = [Bit b]" "wire_end (selected True) (pulse b) = selected True"
  by (simp_all add: pulse_def Let_def)

lemma pulses_wire [simp]:
  "wire (selected True) (concat (map pulse bs)) = map Bit bs"
  "wire_end (selected True) (concat (map pulse bs)) = selected True"
  by (induction bs) (simp_all add: pulse_wire)

lemma rpulse_wire:
  "wire (selected False) (rpulse p) = [Clk]"
  "wire_end (selected False) (rpulse p) = selected False"
  by (simp_all add: rpulse_def clock_low_high_def numeral_eq_Suc)

lemma rpulses_wire [simp]:
  "wire (selected False) (concat (map rpulse ps)) = replicate (length ps) Clk"
  "wire_end (selected False) (concat (map rpulse ps)) = selected False"
  by (induction ps) (simp_all add: rpulse_wire)

definition drives_sio :: "gpio_event \<Rightarrow> bool" where
  "drives_sio d \<longleftrightarrow> d = WrDirection 7 \<or> d = WrDirectionSym 7"

lemma header_wire:
  assumes "\<not> w_cs st" "drives_sio d"
  shows "wire st (wr_header d c) = Start # map Bit (bits_msb c)"
    and "wire_end st (wr_header d c) = selected True"
  using assms by (cases st; auto simp: wr_header_def drives_sio_def)+

lemma wr_frame_wire:
  assumes "\<not> w_cs st" "drives_sio d"
  shows "wire st (wr_frame d c ds)
         = Start # map Bit (bits_msb c @ concat (map bits_lsb ds)) @ [Stop]"
    and "wire_end st (wr_frame d c ds) = deselected True"
  by (simp_all add: wr_frame_def frame_end_def header_wire [OF assms])

lemma rd_frame_wire:
  assumes "\<not> w_cs st"
  shows "wire st (rd_frame c ps)
         = Start # map Bit (bits_msb c) @ replicate (length ps) Clk @ [Stop]"
    and "wire_end st (rd_frame c ps) = deselected False"
  using assms header_wire [of st "WrDirection 7" c]
  by (simp_all add: rd_frame_def rd_header_def frame_end_def drives_sio_def)

definition is_command :: "u8 \<Rightarrow> bool" where
  "is_command c \<longleftrightarrow> take 4 (bits_msb c) = [False, True, True, False]"

lemma commands [simp]:
  "is_command (CMD_RESET OR WR)" "is_command (CMD_STATUS OR WR)" "is_command (CMD_STATUS OR RD)"
  "is_command (CMD_DATETIME OR WR)" "is_command (CMD_DATETIME OR RD)"
  "is_command (CMD_TIME OR WR)" "is_command (CMD_TIME OR RD)" "is_command (CMD_ALARM OR WR)"
  by (simp_all add: is_command_def bits_msb_def rtc_cmds upt_rec)

lemma length_concat_bits [simp]: "length (concat (map bits_lsb ds)) = 8 * length ds"
  by (induction ds) simp_all

lemma wr_frame_complete:
  assumes "\<not> w_cs st" "drives_sio d" "is_command c"
  shows "complete_frames (wire st (wr_frame d c ds))"
proof (rule complete_frames_single)
  show "is_frame (wire st (wr_frame d c ds))"
    unfolding is_frame_def
    by (rule exI [of _ "bits_msb c @ concat (map bits_lsb ds)"], rule exI [of _ 0])
      (use assms in \<open>simp add: wr_frame_wire is_command_def\<close>)
qed

lemma rd_frame_complete:
  assumes "\<not> w_cs st" "is_command c" "length ps = 8 * n"
  shows "complete_frames (wire st (rd_frame c ps))"
proof (rule complete_frames_single)
  show "is_frame (wire st (rd_frame c ps))"
    unfolding is_frame_def
    by (rule exI [of _ "bits_msb c"], rule exI [of _ n])
      (use assms in \<open>simp add: rd_frame_wire is_command_def\<close>)
qed

section \<open>The contract of a driver operation\<close>

text \<open>
  Every operation that talks to the chip is guarded by \<open>sLocked\<close>: refused without any
  access while the lock is set, and otherwise one or more complete frames, after which the
  lock is free again.
\<close>

definition frames_only :: "gpio_event list \<Rightarrow> bool" where
  "frames_only es \<longleftrightarrow>
     (\<forall>st. \<not> w_cs st \<longrightarrow> complete_frames (wire st es) \<and> \<not> w_cs (wire_end st es))"

definition rtc_inv :: "rtc_state \<Rightarrow> bool" where
  "rtc_inv s \<longleftrightarrow> sLocked s \<in> {FALSE8, TRUE8}
     \<and> \<not> w_cs (wire_end wire_reset (gpio s)) \<and> complete_frames (wire wire_reset (gpio s))"

lemma frames_only_append [intro]:
  "frames_only xs \<Longrightarrow> frames_only ys \<Longrightarrow> frames_only (xs @ ys)"
  by (auto simp: frames_only_def)

lemma frames_only_wr [intro]: "drives_sio d \<Longrightarrow> is_command c \<Longrightarrow> frames_only (wr_frame d c ds)"
  by (auto simp: frames_only_def wr_frame_wire(2) intro: wr_frame_complete)

lemma frames_only_rd [intro]: "is_command c \<Longrightarrow> length ps = 8 * n \<Longrightarrow> frames_only (rd_frame c ps)"
  by (auto simp: frames_only_def rd_frame_wire(2) intro: rd_frame_complete)

lemma rtc_inv_transmit: "rtc_inv s \<Longrightarrow> frames_only es \<Longrightarrow> rtc_inv (transmit es s)"
  by (auto simp: rtc_inv_def transmit_def frames_only_def)

locale rtc_operation =
  fixes op :: "rtc_state \<Rightarrow> 'r \<times> rtc_state"
    and ok :: "'r \<Rightarrow> bool8"
    and tr :: "rtc_state \<Rightarrow> gpio_event list"
  assumes refused: "sLocked s = TRUE8 \<Longrightarrow> ok (fst (op s)) = FALSE8 \<and> snd (op s) = s"
    and performed: "sLocked s \<noteq> TRUE8 \<Longrightarrow> ok (fst (op s)) = TRUE8 \<and> snd (op s) = transmit (tr s) s"
    and framed: "frames_only (tr s)"
begin

lemma op_result: "ok (fst (op s)) = (if sLocked s = TRUE8 then FALSE8 else TRUE8)"
  using refused performed by simp

lemma op_inv: "rtc_inv s \<Longrightarrow> rtc_inv (snd (op s))"
  using refused [of s] performed [of s] rtc_inv_transmit [OF _ framed] by metis

lemma op_lock: "sLocked (snd (op s)) = (if sLocked s = TRUE8 then TRUE8 else FALSE8)"
  using refused performed by (simp add: transmit_def)

lemma op_gpio: "gpio (snd (op s)) = gpio s @ (if sLocked s = TRUE8 then [] else tr s)"
  using refused performed by (simp add: transmit_def)

end

lemma drives_sio_simps [simp]: "drives_sio (WrDirection 7)" "drives_sio (WrDirectionSym 7)"
  by (simp_all add: drives_sio_def)

interpretation set_status: rtc_operation "SiiRtcSetStatus rtc" "\<lambda>r. r"
  "\<lambda>s. wr_frame (WrDirection 7) (CMD_STATUS OR WR) [status_to_chip (status rtc)]" for rtc
  by unfold_locales (auto simp: SiiRtcSetStatus_frame)

interpretation reset: rtc_operation "SiiRtcReset env" "\<lambda>r. r"
  "\<lambda>s. wr_frame (WrDirection 7) (CMD_RESET OR WR) []
     @ wr_frame (WrDirection 7) (CMD_STATUS OR WR) [status_to_chip SIIRTCINFO_24HOUR]" for env
  by unfold_locales (auto simp: SiiRtcReset_frame intro!: frames_only_append frames_only_wr)

interpretation set_date_time: rtc_operation "SiiRtcSetDateTime rtc" "\<lambda>r. r"
  "\<lambda>s. wr_frame (WrDirection 7) (CMD_DATETIME OR WR)
     [year rtc, month rtc, day rtc, dayOfWeek rtc, hour rtc, minute rtc, second rtc]" for rtc
  by unfold_locales (auto simp: SiiRtcSetDateTime_frame)

interpretation set_time: rtc_operation "SiiRtcSetTime rtc" "\<lambda>r. r"
  "\<lambda>s. wr_frame (WrDirection 7) (CMD_TIME OR WR) [hour rtc, minute rtc, second rtc]" for rtc
  by unfold_locales (auto simp: SiiRtcSetTime_frame)

interpretation set_alarm: rtc_operation "SiiRtcSetAlarm rtc" "\<lambda>r. r"
  "\<lambda>s. wr_frame (WrDirectionSym 7) (CMD_ALARM OR WR)
     [alarm_byte (alarmHour rtc), alarmMinute rtc]" for rtc
  by unfold_locales (auto simp: SiiRtcSetAlarm_frame)

interpretation get_status: rtc_operation "SiiRtcGetStatus env rtc" fst
  "\<lambda>s. rd_frame (CMD_STATUS OR RD) (clock_in env 8 (gpio s @ rd_header (CMD_STATUS OR RD)))"
  for env rtc
  by unfold_locales
    (auto simp: SiiRtcGetStatus_frame Let_def intro!: frames_only_rd [where n = 1])

interpretation get_date_time: rtc_operation "SiiRtcGetDateTime env rtc" fst
  "\<lambda>s. rd_frame (CMD_DATETIME OR RD) (clock_in env 56 (gpio s @ rd_header (CMD_DATETIME OR RD)))"
  for env rtc
  by unfold_locales
    (auto simp: SiiRtcGetDateTime_frame Let_def intro!: frames_only_rd [where n = 7])

interpretation get_time: rtc_operation "SiiRtcGetTime env rtc" fst
  "\<lambda>s. rd_frame (CMD_TIME OR RD) (clock_in env 24 (gpio s @ rd_header (CMD_TIME OR RD)))"
  for env rtc
  by unfold_locales
    (auto simp: SiiRtcGetTime_frame Let_def intro!: frames_only_rd [where n = 3])

section \<open>Runs of the driver\<close>

definition rtc_init :: rtc_state where
  "rtc_init = \<lparr>sLocked = FALSE8, gpio = []\<rparr>"

inductive rtc_step :: "rtc_env \<Rightarrow> rtc_state \<Rightarrow> rtc_state \<Rightarrow> bool" for env where
  Unprotect: "rtc_step env s (SiiRtcUnprotect s)"
| Protect: "rtc_step env s (SiiRtcProtect s)"
| Probe: "rtc_step env s (snd (SiiRtcProbe env s))"
| Reset: "rtc_step env s (snd (SiiRtcReset env s))"
| GetStatus: "rtc_step env s (snd (SiiRtcGetStatus env rtc s))"
| SetStatus: "rtc_step env s (snd (SiiRtcSetStatus rtc s))"
| GetDateTime: "rtc_step env s (snd (SiiRtcGetDateTime env rtc s))"
| SetDateTime: "rtc_step env s (snd (SiiRtcSetDateTime rtc s))"
| GetTime: "rtc_step env s (snd (SiiRtcGetTime env rtc s))"
| SetTime: "rtc_step env s (snd (SiiRtcSetTime rtc s))"
| SetAlarm: "rtc_step env s (snd (SiiRtcSetAlarm rtc s))"

lemmas op_invs =
  set_status.op_inv reset.op_inv set_date_time.op_inv set_time.op_inv set_alarm.op_inv
  get_status.op_inv get_date_time.op_inv get_time.op_inv

lemma protect_inv: "rtc_inv s \<Longrightarrow> rtc_inv (SiiRtcUnprotect s)" "rtc_inv s \<Longrightarrow> rtc_inv (SiiRtcProtect s)"
  by (simp_all add: SiiRtcUnprotect_def SiiRtcProtect_def EnableGpioPortRead_def
      DisableGpioPortRead_def io_defs rtc_inv_def)

lemma probe_inv: "rtc_inv s \<Longrightarrow> rtc_inv (snd (SiiRtcProbe env s))"
  by (simp add: SiiRtcProbe_def Let_def split_def op_invs)

lemma rtc_step_inv: "rtc_step env s t \<Longrightarrow> rtc_inv s \<Longrightarrow> rtc_inv t"
  by (induction rule: rtc_step.induct) (auto intro: op_invs protect_inv probe_inv)

lemma rtc_inv_init: "rtc_inv rtc_init"
  by (simp add: rtc_inv_def rtc_init_def wire_reset_def)

section \<open>Chips\<close>

text \<open>
  What the driver relies on of the chip: clocked after a read command, it shifts out the
  bytes of the addressed register, least significant bit first.
\<close>

definition answers :: "rtc_env \<Rightarrow> gpio_event list \<Rightarrow> u8 list \<Rightarrow> bool" where
  "answers env h bs \<longleftrightarrow>
     map (\<lambda>p. bit p 1) (clock_in env (8 * length bs) h) = concat (map bits_lsb bs)"

text \<open>A register that was written is read back as it was written.\<close>

definition recalls :: "rtc_env \<Rightarrow> u8 \<Rightarrow> u8 list \<Rightarrow> gpio_event list \<Rightarrow> bool" where
  "recalls env c ds h \<longleftrightarrow>
     answers env (h @ wr_frame (WrDirection 7) (c OR WR) ds @ rd_header (c OR RD)) ds"

lemma answers_byte:
  "answers env h [b] \<Longrightarrow> byte_lsb (map (\<lambda>p. bit p (Suc 0)) (clock_in env 8 h)) = b"
  by (simp add: answers_def)

lemma answers_nth:
  "answers env h bs \<Longrightarrow> i < length bs \<Longrightarrow>
   nth_byte (map (\<lambda>p. bit p (Suc 0)) (clock_in env (8 * length bs) h)) i = bs ! i"
  by (simp add: answers_def nth_byte_concat)

text \<open>A chip that answers a fixed bit sequence, whatever it is asked.\<close>

fun is_read :: "gpio_event \<Rightarrow> bool" where
  "is_read (RdData _) = True"
| "is_read _ = False"

definition scripted_chip :: "u8 list \<Rightarrow> rtc_env" where
  "scripted_chip bs =
     \<lparr>port_in = (\<lambda>h. if concat (map bits_lsb bs) ! length (filter is_read h) then 2 else 0),
      stack_byte = (\<lambda>_. 0xA5), stack_info = \<lparr>year = 1, month = 2, day = 3, dayOfWeek = 4, hour = 5,
      minute = 6, second = 7, status = 8, alarmHour = 9, alarmMinute = 10\<rparr>\<rparr>"

lemma scripted_clock_in:
  "map (\<lambda>p. bit p (Suc 0)) (clock_in (scripted_chip bs) n h) =
     map (\<lambda>i. concat (map bits_lsb bs) ! (length (filter is_read h) + i)) [0..<n]"
proof (induction n arbitrary: h)
  case (Suc n)
  have reads: "length (filter is_read (h @ rpulse p)) = Suc (length (filter is_read h))"
    "filter is_read (h @ clock_low_high) = filter is_read h" for p
    by (simp_all add: rpulse_def clock_low_high_def)
  have port: "bit (port_in (scripted_chip bs) g) (Suc 0)
      = concat (map bits_lsb bs) ! length (filter is_read g)" for g
    by (simp add: scripted_chip_def bit_Suc)
  show ?case
    by (simp add: Let_def Suc.IH reads port map_upt_Suc del: upt_Suc filter_append)
qed simp

lemma scripted_answers: "filter is_read h = [] \<Longrightarrow> answers (scripted_chip bs) h bs"
  using map_nth [of "concat (map bits_lsb bs)"] by (simp add: answers_def scripted_clock_in)

lemma filter_is_read_frames [simp]:
  "filter is_read (concat (map pulse bs)) = []" "drives_sio d \<Longrightarrow> filter is_read (wr_header d c) = []"
  "drives_sio d \<Longrightarrow> filter is_read (wr_frame d c ds) = []" "filter is_read (rd_header c) = []"
  by (auto simp: frame_defs drives_sio_def filter_concat pulse_def Let_def comp_def filter_empty_conv)

section \<open>Properties\<close>

text \<open>
  C1. Whatever sequence of driver calls is made, and whatever the chip answers, the chip
  only ever sees complete frames: chip select rises, a command byte with the fixed code
  0110 in its high nibble and whole data bytes are clocked, and chip select falls. Between
  calls the chip is deselected and the lock byte is 0 or 1.
\<close>
theorem rtc_only_complete_frames:
  assumes "(rtc_step env)\<^sup>*\<^sup>* rtc_init s"
  shows "complete_frames (wire wire_reset (gpio s))
    \<and> \<not> w_cs (wire_end wire_reset (gpio s)) \<and> sLocked s \<in> {FALSE8, TRUE8}"
proof -
  from assms have "rtc_inv s"
    by (induction rule: rtranclp_induct) (auto intro: rtc_inv_init rtc_step_inv)
  then show ?thesis by (simp add: rtc_inv_def)
qed

theorem rtc_only_complete_frames_witness:
  "complete_frames (wire wire_reset (gpio (SiiRtcProtect rtc_init)))
    \<and> \<not> w_cs (wire_end wire_reset (gpio (SiiRtcProtect rtc_init)))
    \<and> sLocked (SiiRtcProtect rtc_init) \<in> {FALSE8, TRUE8}"
  by (rule rtc_only_complete_frames [of "scripted_chip []"]) (rule r_into_rtranclp, rule Protect)

text \<open>
  While the lock is set every operation is refused: it returns \<^verbatim>\<open>FALSE\<close> (the probe
  returns 0), accesses no register and leaves the caller's struct as it was.
\<close>
theorem rtc_locked_refuses:
  assumes "sLocked s = TRUE8"
  shows "SiiRtcReset env s = (FALSE8, s) \<and> SiiRtcProbe env s = (0, s)
    \<and> SiiRtcGetStatus env rtc s = ((FALSE8, rtc), s) \<and> SiiRtcSetStatus rtc s = (FALSE8, s)
    \<and> SiiRtcGetDateTime env rtc s = ((FALSE8, rtc), s) \<and> SiiRtcSetDateTime rtc s = (FALSE8, s)
    \<and> SiiRtcGetTime env rtc s = ((FALSE8, rtc), s) \<and> SiiRtcSetTime rtc s = (FALSE8, s)
    \<and> SiiRtcSetAlarm rtc s = (FALSE8, s)"
proof -
  have get: "SiiRtcGetStatus env r s = ((FALSE8, r), s)" for r
    by (simp add: SiiRtcGetStatus_frame assms)
  show ?thesis
    by (simp add: assms get SiiRtcReset_frame SiiRtcSetStatus_frame SiiRtcGetDateTime_frame
        SiiRtcSetDateTime_frame SiiRtcGetTime_frame SiiRtcSetTime_frame SiiRtcSetAlarm_frame
        SiiRtcProbe_def)
qed

theorem rtc_locked_refuses_witness:
  "SiiRtcProbe (scripted_chip []) (SiiRtcProtect rtc_init) = (0, SiiRtcProtect rtc_init)"
  by (rule rtc_locked_refuses [THEN conjunct2, THEN conjunct1]) (simp add: SiiRtcProtect_def)

text \<open>
  What the setters put on the wire, from a deselected chip: the command byte of the
  register most significant bit first (0x62 status, 0x64 date and time, 0x66 time), then
  each field of the struct in order, least significant bit first.
\<close>
theorem rtc_setters_on_the_wire:
  assumes "sLocked s \<noteq> TRUE8" "\<not> w_cs (wire_end wire_reset (gpio s))"
  shows "wire wire_reset (gpio (snd (SiiRtcSetStatus rtc s))) = wire wire_reset (gpio s)
      @ Start # map Bit (bits_msb 0x62 @ bits_lsb (status_to_chip (status rtc))) @ [Stop]
    \<and> wire wire_reset (gpio (snd (SiiRtcSetDateTime rtc s))) = wire wire_reset (gpio s)
      @ Start # map Bit (bits_msb 0x64 @ concat (map bits_lsb [year rtc, month rtc, day rtc,
          dayOfWeek rtc, hour rtc, minute rtc, second rtc])) @ [Stop]
    \<and> wire wire_reset (gpio (snd (SiiRtcSetTime rtc s))) = wire wire_reset (gpio s)
      @ Start # map Bit (bits_msb 0x66 @ concat (map bits_lsb [hour rtc, minute rtc, second rtc]))
      @ [Stop]"
  using assms
  by (simp add: set_status.op_gpio set_date_time.op_gpio set_time.op_gpio wr_frame_wire rtc_cmds)

theorem rtc_setters_on_the_wire_witness:
  "wire wire_reset (gpio (snd (SiiRtcSetTime (stack_info (scripted_chip [])) rtc_init))) =
     Start # map Bit (bits_msb 0x66 @ concat (map bits_lsb [5, 6, 7])) @ [Stop]"
  using rtc_setters_on_the_wire [of rtc_init "stack_info (scripted_chip [])"]
  by (simp add: rtc_init_def wire_reset_def scripted_chip_def)

text \<open>
  Reading the date and time assembles the seven bytes the chip shifts out, whatever the
  uninitialised accumulator of \<open>ReadData\<close> held, and drops the AM/PM flag from the hour.
\<close>
theorem SiiRtcGetDateTime_decodes:
  assumes "sLocked s \<noteq> TRUE8"
    and "answers env (gpio s @ rd_header (CMD_DATETIME OR RD)) [y, mo, d, wd, h, mi, sec]"
  shows "fst (SiiRtcGetDateTime env rtc s) =
    (TRUE8, rtc\<lparr>year := y, month := mo, day := d, dayOfWeek := wd, hour := h AND 0x7F,
       minute := mi, second := sec\<rparr>)"
  using assms(1) answers_nth [OF assms(2), of 0] answers_nth [OF assms(2), of 1]
    answers_nth [OF assms(2), of 2] answers_nth [OF assms(2), of 3]
    answers_nth [OF assms(2), of 4] answers_nth [OF assms(2), of 5]
    answers_nth [OF assms(2), of 6]
  by (simp add: SiiRtcGetDateTime_frame Let_def)

theorem SiiRtcGetDateTime_decodes_witness:
  "fst (SiiRtcGetDateTime (scripted_chip [0x24, 0x12, 0x31, 2, 0x92, 0x59, 0x58])
      (stack_info (scripted_chip [])) rtc_init) =
    (TRUE8, (stack_info (scripted_chip []))\<lparr>year := 0x24, month := 0x12, day := 0x31,
       dayOfWeek := 2, hour := 0x92 AND 0x7F, minute := 0x59, second := 0x58\<rparr>)"
  by (rule SiiRtcGetDateTime_decodes) (simp_all add: rtc_init_def scripted_answers)

lemma transmit_simps [simp]:
  "sLocked (transmit es s) = FALSE8" "gpio (transmit es s) = gpio s @ es"
  by (simp_all add: transmit_def)

text \<open>
  C6. Date and time round trip. With a chip that reads a register back as it was written,
  \<open>SiiRtcGetDateTime\<close> after \<open>SiiRtcSetDateTime\<close> returns every field that was set, up
  to the AM/PM flag of the hour.
\<close>
theorem rtc_date_time_roundtrip:
  assumes "sLocked s \<noteq> TRUE8"
    and "recalls env CMD_DATETIME [year rtc, month rtc, day rtc, dayOfWeek rtc, hour rtc,
           minute rtc, second rtc] (gpio s)"
  shows "fst (SiiRtcGetDateTime env r (snd (SiiRtcSetDateTime rtc s))) =
    (TRUE8, r\<lparr>year := year rtc, month := month rtc, day := day rtc, dayOfWeek := dayOfWeek rtc,
       hour := hour rtc AND 0x7F, minute := minute rtc, second := second rtc\<rparr>)"
proof -
  let ?t = "snd (SiiRtcSetDateTime rtc s)"
  have "answers env (gpio ?t @ rd_header (CMD_DATETIME OR RD)) [year rtc, month rtc, day rtc,
      dayOfWeek rtc, hour rtc, minute rtc, second rtc]"
    using assms by (simp add: recalls_def SiiRtcSetDateTime_frame)
  note ans = answers_nth [OF this]
  show ?thesis
    using assms(1) ans [of 0] ans [of 1] ans [of 2] ans [of 3] ans [of 4] ans [of 5] ans [of 6]
    by (simp add: SiiRtcGetDateTime_frame SiiRtcSetDateTime_frame Let_def)
qed

theorem rtc_date_time_roundtrip_witness:
  "fst (SiiRtcGetDateTime (scripted_chip [1, 2, 3, 4, 5, 6, 7]) (stack_info (scripted_chip []))
      (snd (SiiRtcSetDateTime (stack_info (scripted_chip [])) rtc_init))) =
    (TRUE8, stack_info (scripted_chip []))"
proof -
  let ?r = "stack_info (scripted_chip [])"
  have "recalls (scripted_chip [1, 2, 3, 4, 5, 6, 7]) CMD_DATETIME [year ?r, month ?r, day ?r,
      dayOfWeek ?r, hour ?r, minute ?r, second ?r] (gpio rtc_init)"
    unfolding recalls_def
    using scripted_answers [of "gpio rtc_init @ wr_frame (WrDirection 7) (CMD_DATETIME OR WR)
        [1, 2, 3, 4, 5, 6, 7] @ rd_header (CMD_DATETIME OR RD)" "[1, 2, 3, 4, 5, 6, 7]"]
    by (simp add: rtc_init_def scripted_chip_def [of "[]"])
  then have "fst (SiiRtcGetDateTime (scripted_chip [1, 2, 3, 4, 5, 6, 7]) ?r
      (snd (SiiRtcSetDateTime ?r rtc_init))) =
    (TRUE8, ?r\<lparr>year := year ?r, month := month ?r, day := day ?r, dayOfWeek := dayOfWeek ?r,
       hour := hour ?r AND 0x7F, minute := minute ?r, second := second ?r\<rparr>)"
    by (intro rtc_date_time_roundtrip) (simp_all add: rtc_init_def)
  then show ?thesis by (simp add: scripted_chip_def [of "[]"])
qed

lemma status_convert: "status_from_chip (status_to_chip d) = (d AND 7) OR 0x40"
  by (simp add: status_from_chip_def status_to_chip_def rtc_consts u8_eq_iff bit_simps
      bit_double_iff mult.commute [of d 2])

text \<open>
  Status round trip. The chip's layout of the status register differs from the
  library's; what is read after it was written has the three interrupt enables that were
  set, 24-hour mode on and the power flag clear.
\<close>
theorem rtc_status_roundtrip:
  assumes "sLocked s \<noteq> TRUE8"
    and "recalls env CMD_STATUS [status_to_chip (status rtc)] (gpio s)"
  shows "fst (SiiRtcGetStatus env r (snd (SiiRtcSetStatus rtc s))) =
    (TRUE8, r\<lparr>status := (status rtc AND 7) OR SIIRTCINFO_24HOUR\<rparr>)"
  using assms answers_byte [of env _ "status_to_chip (status rtc)"]
  by (simp add: recalls_def SiiRtcGetStatus_frame SiiRtcSetStatus_frame Let_def status_convert
      SIIRTCINFO_24HOUR_def)

theorem rtc_status_roundtrip_witness:
  "fst (SiiRtcGetStatus (scripted_chip [0x62]) (stack_info (scripted_chip []))
      (snd (SiiRtcSetStatus ((stack_info (scripted_chip []))\<lparr>status := 0x85\<rparr>) rtc_init))) =
    (TRUE8, (stack_info (scripted_chip []))\<lparr>status := 0x45\<rparr>)"
proof -
  let ?r = "(stack_info (scripted_chip []))\<lparr>status := 0x85\<rparr>"
  have chip: "status_to_chip (status ?r) = 0x62"
    by (simp add: status_to_chip_def rtc_consts)
  have "recalls (scripted_chip [0x62]) CMD_STATUS [status_to_chip (status ?r)] (gpio rtc_init)"
    unfolding recalls_def chip by (rule scripted_answers) (simp add: rtc_init_def)
  then show ?thesis
    using rtc_status_roundtrip [of rtc_init "scripted_chip [0x62]" ?r "stack_info (scripted_chip [])"]
    by (simp add: rtc_init_def SIIRTCINFO_24HOUR_def)
qed

definition probe_status :: "rtc_env \<Rightarrow> rtc_state \<Rightarrow> u8" where
  "probe_status env s = status (snd (fst (SiiRtcGetStatus env (stack_info env) s)))"

definition probe_second :: "rtc_env \<Rightarrow> rtc_state \<Rightarrow> u8" where
  "probe_second env s =
     (let ((_, rtc), t) = SiiRtcGetStatus env (stack_info env) s;
          t = (if bit (status rtc) 6 then t else snd (SiiRtcReset env t))
      in second (snd (fst (SiiRtcGetTime env rtc t))))"

lemma hour_mode_test:
  "(st AND (SIIRTCINFO_POWER OR SIIRTCINFO_24HOUR) = SIIRTCINFO_POWER
    \<or> st AND (SIIRTCINFO_POWER OR SIIRTCINFO_24HOUR) = 0) \<longleftrightarrow> \<not> bit st 6"
  by (auto simp: rtc_consts u8_eq_iff bit_simps)

lemma test_mode_bit: "(x AND TEST_MODE \<noteq> 0) = bit x 7"
  by (simp add: rtc_consts u8_eq_iff bit_simps)

text \<open>
  Probing an unlocked driver never reports a failure: the result has low nibble 1 and
  its high nibble counts the resets made. The first reset happens exactly when the chip is
  in 12-hour mode, whatever its power flag, the second exactly when the time register shows
  the test mode.
\<close>
theorem SiiRtcProbe_result:
  assumes "sLocked s \<noteq> TRUE8"
  shows "fst (SiiRtcProbe env s) =
    push_bit 4 (of_bool (\<not> bit (probe_status env s) 6) + of_bool (bit (probe_second env s) 7)) OR 1"
proof -
  obtain rtc t where g: "SiiRtcGetStatus env (stack_info env) s = ((TRUE8, rtc), t)"
    and t: "sLocked t = FALSE8"
    using assms by (simp add: SiiRtcGetStatus_frame Let_def)
  have reset: "fst (SiiRtcReset env u) = TRUE8"
    "sLocked (snd (SiiRtcReset env u)) = FALSE8" if "sLocked u = FALSE8" for u
    using that by (simp_all add: SiiRtcReset_frame)
  define t' where "t' = (if bit (status rtc) 6 then t else snd (SiiRtcReset env t))"
  have t': "sLocked t' = FALSE8"
    using t reset(2) by (simp add: t'_def)
  obtain rtc' u where gt: "SiiRtcGetTime env rtc t' = ((TRUE8, rtc'), u)" and u: "sLocked u = FALSE8"
    using t' by (simp add: SiiRtcGetTime_frame Let_def)
  have st: "probe_status env s = status rtc" and sec: "probe_second env s = second rtc'"
    using gt by (simp_all add: probe_status_def probe_second_def g t'_def)
  show ?thesis
    using gt [unfolded t'_def] reset(1) [OF t] reset(1) [OF u]
    by (cases "bit (status rtc) 6"; cases "bit (second rtc') 7")
      (simp_all add: SiiRtcProbe_def g Let_def hour_mode_test test_mode_bit st sec split_def)
qed

theorem SiiRtcProbe_result_witness:
  "fst (SiiRtcProbe (scripted_chip [0x02, 0x23, 0x59, 0x80]) rtc_init) \<in> {0x01, 0x11, 0x21}"
  using SiiRtcProbe_result [of rtc_init "scripted_chip [0x02, 0x23, 0x59, 0x80]"]
  by (auto simp: rtc_init_def)

definition bcd :: "nat \<Rightarrow> u8" where
  "bcd n = of_nat (16 * (n div 10) + n mod 10)"

lemma alarm_byte_bcd: "n < 24 \<Longrightarrow> alarm_byte (bcd n) = bcd n OR (if n < 12 then 0 else 0x80)"
proof -
  have "list_all (\<lambda>n. alarm_byte (bcd n) = bcd n OR (if n < 12 then 0 else 0x80)) [0..<24]"
    by code_simp
  then show "n < 24 \<Longrightarrow> ?thesis" by (simp add: list_all_iff)
qed

text \<open>
  The alarm. For every hour of the day given in BCD, the byte sent carries that BCD
  hour in its low seven bits and the PM flag exactly from noon on; it is followed by the
  minute as given, in a frame with command 0x68.
\<close>
theorem SiiRtcSetAlarm_on_the_wire:
  assumes "sLocked s \<noteq> TRUE8" "\<not> w_cs (wire_end wire_reset (gpio s))"
    and "n < 24" "alarmHour rtc = bcd n"
  shows "wire wire_reset (gpio (snd (SiiRtcSetAlarm rtc s))) = wire wire_reset (gpio s)
    @ Start # map Bit (bits_msb 0x68 @ bits_lsb (bcd n OR (if n < 12 then 0 else 0x80))
        @ bits_lsb (alarmMinute rtc)) @ [Stop]"
  using assms by (simp add: set_alarm.op_gpio wr_frame_wire rtc_cmds alarm_byte_bcd)

theorem SiiRtcSetAlarm_on_the_wire_witness:
  "wire wire_reset (gpio (snd (SiiRtcSetAlarm
      ((stack_info (scripted_chip []))\<lparr>alarmHour := bcd 19, alarmMinute := 0x30\<rparr>) rtc_init))) =
    Start # map Bit (bits_msb 0x68 @ bits_lsb (bcd 19 OR 0x80) @ bits_lsb 0x30) @ [Stop]"
  using SiiRtcSetAlarm_on_the_wire [of rtc_init 19
      "(stack_info (scripted_chip []))\<lparr>alarmHour := bcd 19, alarmMinute := 0x30\<rparr>"]
  by (simp add: rtc_init_def wire_reset_def)

end
