(* ===== verification/GbaIo.thy ===== *)
theory GbaIo
  imports Prelude
begin

text \<open>
  The I/O registers and bit fields of \<^verbatim>\<open>src/ginclude/gba/io_reg.h\<close> that the drivers
  use: addresses of the timer, serial, interrupt and wait-state registers, and the masks
  written to them.
\<close>

unbundle bit_operations_syntax

definition REG_ADDR_TMCNT :: u32 where "REG_ADDR_TMCNT = 0x4000100"
definition REG_ADDR_SIODATA32 :: u32 where "REG_ADDR_SIODATA32 = 0x4000120"
definition REG_ADDR_SIOCNT :: u32 where "REG_ADDR_SIOCNT = 0x4000128"
definition REG_ADDR_RCNT :: u32 where "REG_ADDR_RCNT = 0x4000134"
definition REG_ADDR_IE :: u32 where "REG_ADDR_IE = 0x4000200"
definition REG_ADDR_IF :: u32 where "REG_ADDR_IF = 0x4000202"
definition REG_ADDR_WAITCNT :: u32 where "REG_ADDR_WAITCNT = 0x4000204"
definition REG_ADDR_IME :: u32 where "REG_ADDR_IME = 0x4000208"

lemmas reg_addrs =
  REG_ADDR_TMCNT_def REG_ADDR_SIODATA32_def REG_ADDR_SIOCNT_def REG_ADDR_RCNT_def REG_ADDR_IE_def REG_ADDR_IF_def
  REG_ADDR_WAITCNT_def REG_ADDR_IME_def

text \<open>Timer \<open>n\<close> has its counter at \<open>TMCNT_L n\<close> and its control word at \<open>TMCNT_H n\<close>.\<close>

definition REG_TMCNT_L :: "u8 \<Rightarrow> u32" where "REG_TMCNT_L n = REG_ADDR_TMCNT + ucast n * 4"
definition REG_TMCNT_H :: "u8 \<Rightarrow> u32" where "REG_TMCNT_H n = REG_ADDR_TMCNT + 2 + ucast n * 4"

definition TIMER_256CLK :: u16 where "TIMER_256CLK = 0x02"
definition TIMER_1024CLK :: u16 where "TIMER_1024CLK = 0x03"
definition TIMER_INTR_ENABLE :: u16 where "TIMER_INTR_ENABLE = 0x40"
definition TIMER_ENABLE :: u16 where "TIMER_ENABLE = 0x80"
definition SIO_115200_BPS :: u16 where "SIO_115200_BPS = 0x0003"
definition SIO_MULTI_BUSY :: u16 where "SIO_MULTI_BUSY = 0x0080"
definition SIO_32BIT_MODE :: u16 where "SIO_32BIT_MODE = 0x1000"
definition SIO_INTR_ENABLE :: u16 where "SIO_INTR_ENABLE = 0x4000"
definition INTR_FLAG_TIMER0 :: u16 where "INTR_FLAG_TIMER0 = 0x08"
definition INTR_FLAG_SERIAL :: u16 where "INTR_FLAG_SERIAL = 0x80"
definition WAITCNT_SRAM_8 :: u16 where "WAITCNT_SRAM_8 = 3"
definition WAITCNT_SRAM_MASK :: u16 where "WAITCNT_SRAM_MASK = 3"
definition WSCNT_DATA :: u16 where "WSCNT_DATA = 0x1800"

section \<open>Sound, DMA and display registers\<close>

definition REG_ADDR_VCOUNT :: u32 where "REG_ADDR_VCOUNT = 0x4000006"
definition REG_ADDR_NR12 :: u32 where "REG_ADDR_NR12 = 0x4000063"
definition REG_ADDR_NR14 :: u32 where "REG_ADDR_NR14 = 0x4000065"
definition REG_ADDR_NR22 :: u32 where "REG_ADDR_NR22 = 0x4000069"
definition REG_ADDR_NR24 :: u32 where "REG_ADDR_NR24 = 0x400006D"
definition REG_ADDR_NR30 :: u32 where "REG_ADDR_NR30 = 0x4000070"
definition REG_ADDR_NR42 :: u32 where "REG_ADDR_NR42 = 0x4000079"
definition REG_ADDR_NR44 :: u32 where "REG_ADDR_NR44 = 0x400007D"
definition REG_ADDR_SOUNDCNT_L :: u32 where "REG_ADDR_SOUNDCNT_L = 0x4000080"
definition REG_ADDR_NR50 :: u32 where "REG_ADDR_NR50 = 0x4000080"
definition REG_ADDR_SOUNDCNT_H :: u32 where "REG_ADDR_SOUNDCNT_H = 0x4000082"
definition REG_ADDR_SOUNDCNT_X :: u32 where "REG_ADDR_SOUNDCNT_X = 0x4000084"
definition REG_ADDR_SOUNDBIAS_H :: u32 where "REG_ADDR_SOUNDBIAS_H = 0x4000089"
definition REG_ADDR_FIFO_A :: u32 where "REG_ADDR_FIFO_A = 0x40000A0"
definition REG_ADDR_FIFO_B :: u32 where "REG_ADDR_FIFO_B = 0x40000A4"
definition REG_ADDR_DMA1SAD :: u32 where "REG_ADDR_DMA1SAD = 0x40000BC"
definition REG_ADDR_DMA1DAD :: u32 where "REG_ADDR_DMA1DAD = 0x40000C0"
definition REG_ADDR_DMA1CNT :: u32 where "REG_ADDR_DMA1CNT = 0x40000C4"
definition REG_ADDR_DMA1CNT_H :: u32 where "REG_ADDR_DMA1CNT_H = 0x40000C6"
definition REG_ADDR_DMA2SAD :: u32 where "REG_ADDR_DMA2SAD = 0x40000C8"
definition REG_ADDR_DMA2DAD :: u32 where "REG_ADDR_DMA2DAD = 0x40000CC"
definition REG_ADDR_DMA2CNT :: u32 where "REG_ADDR_DMA2CNT = 0x40000D0"
definition REG_ADDR_DMA2CNT_H :: u32 where "REG_ADDR_DMA2CNT_H = 0x40000D2"
definition REG_ADDR_TM0CNT_L :: u32 where "REG_ADDR_TM0CNT_L = 0x4000100"
definition REG_ADDR_TM0CNT_H :: u32 where "REG_ADDR_TM0CNT_H = 0x4000102"

definition SOUND_CGB_MIX_FULL :: u16 where "SOUND_CGB_MIX_FULL = 0x0002"
definition SOUND_A_MIX_HALF :: u16 where "SOUND_A_MIX_HALF = 0x0000"
definition SOUND_B_MIX_HALF :: u16 where "SOUND_B_MIX_HALF = 0x0000"
definition SOUND_ALL_MIX_FULL :: u16 where "SOUND_ALL_MIX_FULL = 0x000E"
definition SOUND_A_RIGHT_OUTPUT :: u16 where "SOUND_A_RIGHT_OUTPUT = 0x0100"
definition SOUND_A_LEFT_OUTPUT :: u16 where "SOUND_A_LEFT_OUTPUT = 0x0200"
definition SOUND_A_TIMER_0 :: u16 where "SOUND_A_TIMER_0 = 0x0000"
definition SOUND_A_FIFO_RESET :: u16 where "SOUND_A_FIFO_RESET = 0x0800"
definition SOUND_B_RIGHT_OUTPUT :: u16 where "SOUND_B_RIGHT_OUTPUT = 0x1000"
definition SOUND_B_LEFT_OUTPUT :: u16 where "SOUND_B_LEFT_OUTPUT = 0x2000"
definition SOUND_B_TIMER_0 :: u16 where "SOUND_B_TIMER_0 = 0x0000"
definition SOUND_B_FIFO_RESET :: u16 where "SOUND_B_FIFO_RESET = 0x8000"
definition SOUND_1_ON :: u16 where "SOUND_1_ON = 0x0001"
definition SOUND_2_ON :: u16 where "SOUND_2_ON = 0x0002"
definition SOUND_3_ON :: u16 where "SOUND_3_ON = 0x0004"
definition SOUND_4_ON :: u16 where "SOUND_4_ON = 0x0008"
definition SOUND_MASTER_ENABLE :: u16 where "SOUND_MASTER_ENABLE = 0x0080"
definition DMA_DEST_FIXED :: u16 where "DMA_DEST_FIXED = 0x0040"
definition DMA_SRC_INC :: u16 where "DMA_SRC_INC = 0x0000"
definition DMA_REPEAT :: u16 where "DMA_REPEAT = 0x0200"
definition DMA_32BIT :: u16 where "DMA_32BIT = 0x0400"
definition DMA_START_NOW :: u16 where "DMA_START_NOW = 0x0000"
definition DMA_START_SPECIAL :: u16 where "DMA_START_SPECIAL = 0x3000"
definition DMA_ENABLE :: u16 where "DMA_ENABLE = 0x8000"
definition TIMER_1CLK :: u16 where "TIMER_1CLK = 0x0000"

end
