(* ===== verification/AgbFlash.thy ===== *)
theory AgbFlash
  imports GbaIo "HOL-Library.Monad_Syntax"
begin

text \<open>
  The driver of the cartridge's flash memory, \<^verbatim>\<open>src/agb_flash/\<close>: the timer that bounds
  a write, identification of the chip, reading, verifying, erasing and programming.

  The state holds the library's static variables, the 16-bit I/O registers as a memory
  \<open>io\<close>, the caller's memory as \<open>ram\<close>, and the chronological list \<open>bus\<close> of accesses to
  the flash chip. The chip is a parameter: \<open>chip\<close> gives the byte a read returns as a
  function of everything that happened on the bus. So is the timer: \<open>irqs\<close> is the number
  of timer interrupts served between two polls of the chip. The Thumb code that the library
  copies into a local buffer before it calls it (flash cannot be read while code runs from
  it) is a parameter too, the list of halfwords of each such function.

  An operation returns \<open>None\<close> when the C code does not return: a call through a pointer
  that was never set, a copy past the end of a local buffer, or a poll loop that does not
  end.
\<close>

unbundle bit_operations_syntax

section \<open>Data\<close>

record FlashSector =
  sec_size :: u32
  sec_shift :: u8
  sec_count :: u16
  sec_top :: u16

record FlashType =
  romSize :: u32
  sector :: FlashSector
  wait0 :: u16
  wait1 :: u16
  makerId :: u8
  deviceId :: u8

text \<open>The functions the library's pointers can point to.\<close>

datatype flash_fn =
    ProgramFlashByte_MX_fn
  | ProgramFlashSector_MX_fn
  | EraseFlashChip_MX_fn
  | EraseFlashSector_MX_fn
  | WaitForFlashWrite_Common_fn
  | FlashTimerIntr_fn

record FlashSetupInfo =
  programFlashByte :: flash_fn
  programFlashSector :: flash_fn
  eraseFlashChip :: flash_fn
  eraseFlashSector :: flash_fn
  waitForFlashWrite :: flash_fn
  maxTime :: "u16 list"
  flashType :: FlashType


definition mxMaxTime :: "u16 list" where
  "mxMaxTime =
     [10, 65469, TIMER_ENABLE OR TIMER_INTR_ENABLE OR TIMER_256CLK,
      10, 65469, TIMER_ENABLE OR TIMER_INTR_ENABLE OR TIMER_256CLK,
      2000, 65469, TIMER_ENABLE OR TIMER_INTR_ENABLE OR TIMER_256CLK,
      2000, 65469, TIMER_ENABLE OR TIMER_INTR_ENABLE OR TIMER_256CLK]"

definition leMaxTime :: "u16 list" where
  "leMaxTime =
     [10, 65469, TIMER_ENABLE OR TIMER_INTR_ENABLE OR TIMER_256CLK,
      10, 65469, TIMER_ENABLE OR TIMER_INTR_ENABLE OR TIMER_256CLK,
      2000, 65469, TIMER_ENABLE OR TIMER_INTR_ENABLE OR TIMER_256CLK,
      2000, 65469, TIMER_ENABLE OR TIMER_INTR_ENABLE OR TIMER_256CLK]"

definition MX29L010 :: FlashSetupInfo where
  "MX29L010 = \<lparr>programFlashByte = ProgramFlashByte_MX_fn,
     programFlashSector = ProgramFlashSector_MX_fn, eraseFlashChip = EraseFlashChip_MX_fn,
     eraseFlashSector = EraseFlashSector_MX_fn, waitForFlashWrite = WaitForFlashWrite_Common_fn,
     maxTime = mxMaxTime,
     flashType = \<lparr>romSize = 131072,
       sector = \<lparr>sec_size = 4096, sec_shift = 12, sec_count = 32, sec_top = 0\<rparr>,
       wait0 = 3, wait1 = 1, makerId = 0xC2, deviceId = 0x09\<rparr>\<rparr>"

definition DefaultFlash :: FlashSetupInfo where
  "DefaultFlash = \<lparr>programFlashByte = ProgramFlashByte_MX_fn,
     programFlashSector = ProgramFlashSector_MX_fn, eraseFlashChip = EraseFlashChip_MX_fn,
     eraseFlashSector = EraseFlashSector_MX_fn, waitForFlashWrite = WaitForFlashWrite_Common_fn,
     maxTime = mxMaxTime,
     flashType = \<lparr>romSize = 131072,
       sector = \<lparr>sec_size = 4096, sec_shift = 12, sec_count = 32, sec_top = 0\<rparr>,
       wait0 = 3, wait1 = 1, makerId = 0x00, deviceId = 0x00\<rparr>\<rparr>"

definition LE26FV10N1TS :: FlashSetupInfo where
  "LE26FV10N1TS = \<lparr>programFlashByte = ProgramFlashByte_MX_fn,
     programFlashSector = ProgramFlashSector_MX_fn, eraseFlashChip = EraseFlashChip_MX_fn,
     eraseFlashSector = EraseFlashSector_MX_fn, waitForFlashWrite = WaitForFlashWrite_Common_fn,
     maxTime = leMaxTime,
     flashType = \<lparr>romSize = 131072,
       sector = \<lparr>sec_size = 4096, sec_shift = 12, sec_count = 32, sec_top = 0\<rparr>,
       wait0 = 3, wait1 = 1, makerId = 0x62, deviceId = 0x13\<rparr>\<rparr>"

definition sSetupInfos :: "FlashSetupInfo list" where
  "sSetupInfos = [MX29L010, LE26FV10N1TS, DefaultFlash]"

definition FLASH_BASE :: u32 where "FLASH_BASE = 0xE000000"
definition FLASH_ROM_SIZE_1M :: u32 where "FLASH_ROM_SIZE_1M = 131072"
definition SECTORS_PER_BANK :: u16 where "SECTORS_PER_BANK = 16"

datatype flash_event =
    FlWrite u32 u8
  | FlRead u32 u8
  | FlDelay
  | FlTimerIrq

record flash_env =
  chip :: "flash_event list \<Rightarrow> u32 \<Rightarrow> u8"
  irqs :: "flash_event list \<Rightarrow> nat"
  code_ReadFlash1 :: "u16 list"
  code_ReadFlash_Core :: "u16 list"
  code_VerifyFlashSector_Core :: "u16 list"

record flash_state =
  sTimerNum :: u8
  sTimerCount :: u16
  sTimerReg :: u32
  sSavedIme :: u16
  gFlashTimeoutFlag :: u8
  PollFlashStatus :: "u16 list option"
  gFlash :: "FlashType option"
  gFlashNumRemainingBytes :: u16
  gFlashMaxTime :: "u16 list option"
  ProgramFlashByte :: "flash_fn option"
  ProgramFlashSector :: "flash_fn option"
  EraseFlashChip :: "flash_fn option"
  EraseFlashSector :: "flash_fn option"
  WaitForFlashWrite :: "flash_fn option"
  io :: "u32 \<Rightarrow> u16"
  ram :: "u32 \<Rightarrow> u8"
  bus :: "flash_event list"

section \<open>Accesses\<close>

definition reg_write :: "u32 \<Rightarrow> u16 \<Rightarrow> flash_state \<Rightarrow> flash_state" where
  "reg_write a v s = s\<lparr>io := (io s)(a := v)\<rparr>"

definition bus_emit :: "flash_event \<Rightarrow> flash_state \<Rightarrow> flash_state" where
  "bus_emit e s = s\<lparr>bus := bus s @ [e]\<rparr>"

definition flash_poke :: "u32 \<Rightarrow> u8 \<Rightarrow> flash_state \<Rightarrow> flash_state" where
  "flash_poke a v s = bus_emit (FlWrite a v) s"

definition FLASH_WRITE :: "u32 \<Rightarrow> u8 \<Rightarrow> flash_state \<Rightarrow> flash_state" where
  "FLASH_WRITE off v s = flash_poke (FLASH_BASE + off) v s"

definition ReadFlash1 :: "flash_env \<Rightarrow> u32 \<Rightarrow> flash_state \<Rightarrow> u8 \<times> flash_state" where
  "ReadFlash1 env a s = (let v = chip env (bus s) a in (v, bus_emit (FlRead a v) s))"

definition set_wait :: "u16 \<Rightarrow> flash_state \<Rightarrow> flash_state" where
  "set_wait w s =
     reg_write REG_ADDR_WAITCNT ((io s REG_ADDR_WAITCNT AND NOT WAITCNT_SRAM_MASK) OR w) s"

text \<open>
  The loop that copies the halfwords of a function into a local buffer; \<open>None\<close> when
  the code is longer than the buffer, which the C code would overrun.
\<close>

fun copy_code :: "u16 list \<Rightarrow> u16 list \<Rightarrow> u16 list option" where
  "copy_code [] buf = Some buf"
| "copy_code (c # cs) [] = None"
| "copy_code (c # cs) (_ # buf) = map_option (Cons c) (copy_code cs buf)"

definition local_buffer :: "nat \<Rightarrow> u16 list" where
  "local_buffer n = replicate n 0"

definition SetReadFlash1 :: "flash_env \<Rightarrow> u16 list \<Rightarrow> flash_state \<Rightarrow> flash_state option" where
  "SetReadFlash1 env dest s =
     map_option (\<lambda>code. s\<lparr>PollFlashStatus := Some code\<rparr>) (copy_code (code_ReadFlash1 env) dest)"

text \<open>
  The buffer \<open>PollFlashStatus\<close> points into is a local array: when the function that owns
  it returns, the pointer dangles, which the model records as \<open>None\<close>.
\<close>

definition leave_scope :: "flash_state \<Rightarrow> flash_state" where
  "leave_scope s = s\<lparr>PollFlashStatus := None\<rparr>"

text \<open>Calling the copy runs \<open>ReadFlash1\<close> as long as the copy is intact.\<close>

definition call_PollFlashStatus ::
  "flash_env \<Rightarrow> u32 \<Rightarrow> flash_state \<Rightarrow> (u8 \<times> flash_state) option" where
  "call_PollFlashStatus env a s =
     (case PollFlashStatus s of
        None \<Rightarrow> None
      | Some code \<Rightarrow>
          if take (length (code_ReadFlash1 env)) code = code_ReadFlash1 env
          then Some (ReadFlash1 env a s) else None)"

section \<open>Bank switching and identification\<close>

definition SwitchFlashBank :: "u8 \<Rightarrow> flash_state \<Rightarrow> flash_state" where
  "SwitchFlashBank bankNum s =
     (let s = FLASH_WRITE 0x5555 0xAA s;
          s = FLASH_WRITE 0x2AAA 0x55 s;
          s = FLASH_WRITE 0x5555 0xB0 s
      in FLASH_WRITE 0x0000 bankNum s)"

definition DELAY :: "flash_state \<Rightarrow> flash_state" where
  "DELAY s = bus_emit FlDelay s"

definition ReadFlashId :: "flash_env \<Rightarrow> flash_state \<Rightarrow> (u16 \<times> flash_state) option" where
  "ReadFlashId env s = do {
     s \<leftarrow> SetReadFlash1 env (local_buffer 0x20) s;
     let s = FLASH_WRITE 0x5555 0xAA s;
     let s = FLASH_WRITE 0x2AAA 0x55 s;
     let s = FLASH_WRITE 0x5555 0x90 s;
     let s = DELAY s;
     let (hi, s) = ReadFlash1 env (FLASH_BASE + 1) s;
     let flashId = (push_bit 8 (ucast hi) :: u16);
     let (lo, s) = ReadFlash1 env FLASH_BASE s;
     let flashId = flashId OR ucast lo;
     let s = FLASH_WRITE 0x5555 0xAA s;
     let s = FLASH_WRITE 0x2AAA 0x55 s;
     let s = FLASH_WRITE 0x5555 0xF0 s;
     let s = FLASH_WRITE 0x5555 0xF0 s;
     let s = DELAY s;
     Some (flashId, leave_scope s)
   }"

section \<open>The timer\<close>

definition FlashTimerIntr :: "flash_state \<Rightarrow> flash_state" where
  "FlashTimerIntr s =
     (if sTimerCount s \<noteq> 0
      then let s = s\<lparr>sTimerCount := sTimerCount s - 1\<rparr>
           in if sTimerCount s = 0 then s\<lparr>gFlashTimeoutFlag := 1\<rparr> else s
      else s)"

text \<open>The second component of the result is what is stored through \<open>intrFunc\<close>.\<close>

definition SetFlashTimerIntr :: "u8 \<Rightarrow> flash_state \<Rightarrow> (u16 \<times> flash_fn option) \<times> flash_state" where
  "SetFlashTimerIntr timerNum s =
     (if timerNum \<ge> 4 then ((1, None), s)
      else let s = s\<lparr>sTimerNum := timerNum\<rparr>;
               s = s\<lparr>sTimerReg := REG_TMCNT_L (sTimerNum s)\<rparr>
           in ((0, Some FlashTimerIntr_fn), s))"

definition timer_flag :: "flash_state \<Rightarrow> u16" where
  "timer_flag s = push_bit (unat (sTimerNum s)) INTR_FLAG_TIMER0"

definition StartFlashTimer :: "u8 \<Rightarrow> flash_state \<Rightarrow> flash_state option" where
  "StartFlashTimer phase s =
     (case gFlashMaxTime s of
        None \<Rightarrow> None
      | Some tab \<Rightarrow>
          let k = unat phase * 3
          in if length tab < k + 3 \<or> sTimerReg s = 0 then None
             else
               let s = s\<lparr>sSavedIme := io s REG_ADDR_IME\<rparr>;
                   s = reg_write REG_ADDR_IME 0 s;
                   s = reg_write (sTimerReg s + 2) 0 s;
                   s = reg_write REG_ADDR_IE (io s REG_ADDR_IE OR timer_flag s) s;
                   s = s\<lparr>gFlashTimeoutFlag := 0\<rparr>;
                   s = s\<lparr>sTimerCount := tab ! k\<rparr>;
                   s = reg_write (sTimerReg s) (tab ! (k + 1)) s;
                   s = reg_write (sTimerReg s + 2) (tab ! (k + 2)) s;
                   s = reg_write REG_ADDR_IF (timer_flag s) s
               in Some (reg_write REG_ADDR_IME 1 s))"

definition StopFlashTimer :: "flash_state \<Rightarrow> flash_state" where
  "StopFlashTimer s =
     (let s = reg_write REG_ADDR_IME 0 s;
          s = reg_write (sTimerReg s) 0 s;
          s = reg_write (sTimerReg s + 2) 0 s;
          s = reg_write REG_ADDR_IE (io s REG_ADDR_IE AND NOT (timer_flag s)) s
      in reg_write REG_ADDR_IME (sSavedIme s) s)"

text \<open>
  Interrupts are served between a poll and the test of the timeout flag, the only place
  where the interrupt handler's effect is read; they are served only while the master
  enable and the timer's enable bit are set.
\<close>

definition serve_irqs :: "flash_env \<Rightarrow> flash_state \<Rightarrow> flash_state" where
  "serve_irqs env s =
     (if io s REG_ADDR_IME AND 1 = 1 \<and> io s REG_ADDR_IE AND timer_flag s \<noteq> 0
      then ((\<lambda>s. bus_emit FlTimerIrq (FlashTimerIntr s)) ^^ irqs env (bus s)) s
      else s)"

section \<open>Waiting for a write to finish\<close>

partial_function (option) wait_loop ::
  "flash_env \<Rightarrow> u8 \<Rightarrow> u32 \<Rightarrow> u8 \<Rightarrow> flash_state \<Rightarrow> (u16 \<times> flash_state) option" where
  [code]: "wait_loop env phase addr lastData s = do {
     (status, s) \<leftarrow> call_PollFlashStatus env addr s;
     if status = lastData then Some (0, s)
     else do {
       let s = serve_irqs env s;
       if status AND 0x20 \<noteq> 0 then do {
         (status, s) \<leftarrow> call_PollFlashStatus env addr s;
         if status = lastData then Some (0, s)
         else Some (ucast phase OR 0xA000, FLASH_WRITE 0x5555 0xF0 s)
       }
       else if gFlashTimeoutFlag s \<noteq> 0 then do {
         (status, s) \<leftarrow> call_PollFlashStatus env addr s;
         if status = lastData then Some (0, s)
         else Some (ucast phase OR 0xC000, FLASH_WRITE 0x5555 0xF0 s)
       }
       else wait_loop env phase addr lastData s
     }
   }"

definition WaitForFlashWrite_Common ::
  "flash_env \<Rightarrow> u8 \<Rightarrow> u32 \<Rightarrow> u8 \<Rightarrow> flash_state \<Rightarrow> (u16 \<times> flash_state) option" where
  "WaitForFlashWrite_Common env phase addr lastData s = do {
     s \<leftarrow> StartFlashTimer phase s;
     (result, s) \<leftarrow> wait_loop env phase addr lastData s;
     Some (result, StopFlashTimer s)
   }"

definition call_WaitForFlashWrite ::
  "flash_env \<Rightarrow> u8 \<Rightarrow> u32 \<Rightarrow> u8 \<Rightarrow> flash_state \<Rightarrow> (u16 \<times> flash_state) option" where
  "call_WaitForFlashWrite env phase addr lastData s =
     (if WaitForFlashWrite s = Some WaitForFlashWrite_Common_fn
      then WaitForFlashWrite_Common env phase addr lastData s else None)"

section \<open>Erasing and programming\<close>

text \<open>\<open>sectorNum << gFlash->sector.shift\<close> within a bank.\<close>

definition sector_addr :: "FlashType \<Rightarrow> u16 \<Rightarrow> u32" where
  "sector_addr ft sectorNum = FLASH_BASE + push_bit (unat (sec_shift (sector ft))) (ucast sectorNum)"

definition EraseFlashChip_MX :: "flash_env \<Rightarrow> flash_state \<Rightarrow> (u16 \<times> flash_state) option" where
  "EraseFlashChip_MX env s = do {
     ft \<leftarrow> gFlash s;
     let s = set_wait (wait0 ft) s;
     let s = FLASH_WRITE 0x5555 0xAA s;
     let s = FLASH_WRITE 0x2AAA 0x55 s;
     let s = FLASH_WRITE 0x5555 0x80 s;
     let s = FLASH_WRITE 0x5555 0xAA s;
     let s = FLASH_WRITE 0x2AAA 0x55 s;
     let s = FLASH_WRITE 0x5555 0x10 s;
     s \<leftarrow> SetReadFlash1 env (local_buffer 0x20) s;
     (result, s) \<leftarrow> call_WaitForFlashWrite env 3 FLASH_BASE 0xFF s;
     let s = set_wait WAITCNT_SRAM_8 s;
     Some (result, leave_scope s)
   }"

text \<open>The body between the labels \<^verbatim>\<open>try_erase\<close> and \<^verbatim>\<open>done\<close>.\<close>

partial_function (option) try_erase ::
  "flash_env \<Rightarrow> FlashType \<Rightarrow> u16 \<Rightarrow> u16 \<Rightarrow> flash_state \<Rightarrow> (u16 \<times> flash_state) option" where
  [code]: "try_erase env ft sectorNum numTries s = do {
     let s = set_wait (wait0 ft) s;
     let addr = sector_addr ft sectorNum;
     let s = FLASH_WRITE 0x5555 0xAA s;
     let s = FLASH_WRITE 0x2AAA 0x55 s;
     let s = FLASH_WRITE 0x5555 0x80 s;
     let s = FLASH_WRITE 0x5555 0xAA s;
     let s = FLASH_WRITE 0x2AAA 0x55 s;
     let s = flash_poke addr 0x30 s;
     s \<leftarrow> SetReadFlash1 env (local_buffer 0x20) s;
     (result, s) \<leftarrow> call_WaitForFlashWrite env 2 addr 0xFF s;
     if result AND 0xA000 = 0 \<or> numTries > 3 then Some (result, s)
     else try_erase env ft sectorNum (numTries + 1) s
   }"

definition EraseFlashSector_MX ::
  "flash_env \<Rightarrow> u16 \<Rightarrow> flash_state \<Rightarrow> (u16 \<times> flash_state) option" where
  "EraseFlashSector_MX env sectorNum s = do {
     ft \<leftarrow> gFlash s;
     if sectorNum \<ge> sec_count (sector ft) then Some (0x80FF, s)
     else do {
       let s = SwitchFlashBank (ucast (sectorNum div SECTORS_PER_BANK)) s;
       let sectorNum = sectorNum mod SECTORS_PER_BANK;
       (result, s) \<leftarrow> try_erase env ft sectorNum 0 s;
       let s = set_wait WAITCNT_SRAM_8 s;
       Some (result, leave_scope s)
     }
   }"

definition ProgramFlashByte_MX ::
  "flash_env \<Rightarrow> u16 \<Rightarrow> u32 \<Rightarrow> u8 \<Rightarrow> flash_state \<Rightarrow> (u16 \<times> flash_state) option" where
  "ProgramFlashByte_MX env sectorNum offset data s = do {
     ft \<leftarrow> gFlash s;
     if offset \<ge> sec_size (sector ft) then Some (0x8000, s)
     else do {
       let s = SwitchFlashBank (ucast (sectorNum div SECTORS_PER_BANK)) s;
       let sectorNum = sectorNum mod SECTORS_PER_BANK;
       let addr = sector_addr ft sectorNum + offset;
       s \<leftarrow> SetReadFlash1 env (local_buffer 0x20) s;
       let s = set_wait (wait0 ft) s;
       let s = FLASH_WRITE 0x5555 0xAA s;
       let s = FLASH_WRITE 0x2AAA 0x55 s;
       let s = FLASH_WRITE 0x5555 0xA0 s;
       let s = flash_poke addr data s;
       (result, s) \<leftarrow> call_WaitForFlashWrite env 1 addr data s;
       Some (result, leave_scope s)
     }
   }"

definition ProgramByte ::
  "flash_env \<Rightarrow> u32 \<Rightarrow> u32 \<Rightarrow> flash_state \<Rightarrow> (u16 \<times> flash_state) option" where
  "ProgramByte env src dest s =
     (let s = FLASH_WRITE 0x5555 0xAA s;
          s = FLASH_WRITE 0x2AAA 0x55 s;
          s = FLASH_WRITE 0x5555 0xA0 s;
          s = flash_poke dest (ram s src) s
      in call_WaitForFlashWrite env 1 dest (ram s src) s)"

text \<open>
  The loop of \<open>ProgramFlashSector_MX\<close>; \<open>n\<close> is the value of
  \<open>gFlashNumRemainingBytes\<close>, which the state carries as well.
\<close>

fun program_loop ::
  "flash_env \<Rightarrow> nat \<Rightarrow> u32 \<Rightarrow> u32 \<Rightarrow> flash_state \<Rightarrow> (u16 \<times> flash_state) option" where
  "program_loop env 0 src dest s = Some (0, s)"
| "program_loop env (Suc n) src dest s = do {
     (result, s) \<leftarrow> ProgramByte env src dest s;
     if result \<noteq> 0 then Some (result, s)
     else program_loop env n (src + 1) (dest + 1)
            (s\<lparr>gFlashNumRemainingBytes := gFlashNumRemainingBytes s - 1\<rparr>)
   }"

definition ProgramFlashSector_MX ::
  "flash_env \<Rightarrow> u16 \<Rightarrow> u32 \<Rightarrow> flash_state \<Rightarrow> (u16 \<times> flash_state) option" where
  "ProgramFlashSector_MX env sectorNum src s = do {
     ft \<leftarrow> gFlash s;
     if sectorNum \<ge> sec_count (sector ft) then Some (0x80FF, s)
     else do {
       (result, s) \<leftarrow> EraseFlashSector_MX env sectorNum s;
       if result \<noteq> 0 then Some (result, s)
       else do {
         let s = SwitchFlashBank (ucast (sectorNum div SECTORS_PER_BANK)) s;
         let sectorNum = sectorNum mod SECTORS_PER_BANK;
         s \<leftarrow> SetReadFlash1 env (local_buffer 0x20) s;
         let s = set_wait (wait0 ft) s;
         let s = s\<lparr>gFlashNumRemainingBytes := ucast (sec_size (sector ft))\<rparr>;
         let dest = sector_addr ft sectorNum;
         (result, s) \<leftarrow> program_loop env (unat (gFlashNumRemainingBytes s)) src dest s;
         Some (result, leave_scope s)
       }
     }
   }"

section \<open>Reading and verifying\<close>

fun ReadFlash_Core :: "flash_env \<Rightarrow> u32 \<Rightarrow> u32 \<Rightarrow> nat \<Rightarrow> flash_state \<Rightarrow> flash_state" where
  "ReadFlash_Core env src dest 0 s = s"
| "ReadFlash_Core env src dest (Suc sz) s =
     (let (v, s) = ReadFlash1 env src s
      in ReadFlash_Core env (src + 1) (dest + 1) sz (s\<lparr>ram := (ram s)(dest := v)\<rparr>))"

definition select_sector :: "FlashType \<Rightarrow> u16 \<Rightarrow> flash_state \<Rightarrow> u16 \<times> flash_state" where
  "select_sector ft sectorNum s =
     (if romSize ft = FLASH_ROM_SIZE_1M
      then (sectorNum mod SECTORS_PER_BANK,
            SwitchFlashBank (ucast (sectorNum div SECTORS_PER_BANK)) s)
      else (sectorNum, s))"

definition ReadFlash ::
  "flash_env \<Rightarrow> u16 \<Rightarrow> u32 \<Rightarrow> u32 \<Rightarrow> u32 \<Rightarrow> flash_state \<Rightarrow> flash_state option" where
  "ReadFlash env sectorNum offset dest sz s = do {
     ft \<leftarrow> gFlash s;
     let s = set_wait WAITCNT_SRAM_8 s;
     let (sectorNum, s) = select_sector ft sectorNum s;
     _ \<leftarrow> copy_code (code_ReadFlash_Core env) (local_buffer 0x40);
     let src = sector_addr ft sectorNum + offset;
     Some (ReadFlash_Core env src dest (unat sz) s)
   }"

fun VerifyFlashSector_Core ::
  "flash_env \<Rightarrow> u32 \<Rightarrow> u32 \<Rightarrow> nat \<Rightarrow> flash_state \<Rightarrow> u32 \<times> flash_state" where
  "VerifyFlashSector_Core env src tgt 0 s = (0, s)"
| "VerifyFlashSector_Core env src tgt (Suc sz) s =
     (let (v, s) = ReadFlash1 env tgt s
      in if v \<noteq> ram s src then (tgt, s)
         else VerifyFlashSector_Core env (src + 1) (tgt + 1) sz s)"

definition VerifyFlashSector ::
  "flash_env \<Rightarrow> u16 \<Rightarrow> u32 \<Rightarrow> flash_state \<Rightarrow> (u32 \<times> flash_state) option" where
  "VerifyFlashSector env sectorNum src s = do {
     ft \<leftarrow> gFlash s;
     let s = set_wait WAITCNT_SRAM_8 s;
     let (sectorNum, s) = select_sector ft sectorNum s;
     _ \<leftarrow> copy_code (code_VerifyFlashSector_Core env) (local_buffer 0x80);
     let tgt = sector_addr ft sectorNum;
     let sz = (ucast (sec_size (sector ft)) :: u16);
     Some (VerifyFlashSector_Core env src tgt (unat sz) s)
   }"

definition VerifyFlashSectorNBytes ::
  "flash_env \<Rightarrow> u16 \<Rightarrow> u32 \<Rightarrow> u32 \<Rightarrow> flash_state \<Rightarrow> (u32 \<times> flash_state) option" where
  "VerifyFlashSectorNBytes env sectorNum src n s = do {
     ft \<leftarrow> gFlash s;
     let (sectorNum, s) = select_sector ft sectorNum s;
     let s = set_wait WAITCNT_SRAM_8 s;
     _ \<leftarrow> copy_code (code_VerifyFlashSector_Core env) (local_buffer 0x80);
     let tgt = sector_addr ft sectorNum;
     Some (VerifyFlashSector_Core env src tgt (unat n) s)
   }"

definition call_ProgramFlashSector ::
  "flash_env \<Rightarrow> u16 \<Rightarrow> u32 \<Rightarrow> flash_state \<Rightarrow> (u16 \<times> flash_state) option" where
  "call_ProgramFlashSector env sectorNum src s =
     (if ProgramFlashSector s = Some ProgramFlashSector_MX_fn
      then ProgramFlashSector_MX env sectorNum src s else None)"

text \<open>
  The loop \<^verbatim>\<open>for (i = 0; i < 3; i++)\<close> that the two write-and-verify functions share;
  \<open>n\<close> is the number of rounds left and \<open>result\<close> the value it has so far.
\<close>

fun write_verify_loop ::
  "(flash_state \<Rightarrow> (u16 \<times> flash_state) option) \<Rightarrow> (flash_state \<Rightarrow> (u32 \<times> flash_state) option)
   \<Rightarrow> nat \<Rightarrow> u32 \<Rightarrow> flash_state \<Rightarrow> (u32 \<times> flash_state) option" where
  "write_verify_loop prog verify 0 result s = Some (result, s)"
| "write_verify_loop prog verify (Suc n) result s = do {
     (r, s) \<leftarrow> prog s;
     if r \<noteq> 0 then write_verify_loop prog verify n (ucast r) s
     else do {
       (result, s) \<leftarrow> verify s;
       if result = 0 then Some (result, s) else write_verify_loop prog verify n result s
     }
   }"

definition ProgramFlashSectorAndVerify ::
  "flash_env \<Rightarrow> u16 \<Rightarrow> u32 \<Rightarrow> flash_state \<Rightarrow> (u32 \<times> flash_state) option" where
  "ProgramFlashSectorAndVerify env sectorNum src s =
     write_verify_loop (call_ProgramFlashSector env sectorNum src)
       (VerifyFlashSector env sectorNum src) 3 0 s"

definition ProgramFlashSectorAndVerifyNBytes ::
  "flash_env \<Rightarrow> u16 \<Rightarrow> u32 \<Rightarrow> u32 \<Rightarrow> flash_state \<Rightarrow> (u32 \<times> flash_state) option" where
  "ProgramFlashSectorAndVerifyNBytes env sectorNum src n s =
     write_verify_loop (call_ProgramFlashSector env sectorNum src)
       (VerifyFlashSectorNBytes env sectorNum src n) 3 0 s"

section \<open>Identification\<close>

definition joined_id :: "FlashType \<Rightarrow> u16" where
  "joined_id ft = push_bit 8 (ucast (deviceId ft)) OR ucast (makerId ft)"

fun find_setup :: "u16 \<Rightarrow> FlashSetupInfo list \<Rightarrow> (u16 \<times> FlashSetupInfo) option" where
  "find_setup flashId [] = None"
| "find_setup flashId (x # xs) =
     (if makerId (flashType x) = 0 then Some (1, x)
      else if flashId = joined_id (flashType x) then Some (0, x)
      else find_setup flashId xs)"

definition IdentifyFlash :: "flash_env \<Rightarrow> flash_state \<Rightarrow> (u32 \<times> flash_state) option" where
  "IdentifyFlash env s = do {
     let s = set_wait WAITCNT_SRAM_8 s;
     (flashId, s) \<leftarrow> ReadFlashId env s;
     (result, x) \<leftarrow> find_setup flashId sSetupInfos;
     Some (ucast result, s\<lparr>ProgramFlashByte := Some (programFlashByte x),
       ProgramFlashSector := Some (programFlashSector x),
       EraseFlashChip := Some (eraseFlashChip x),
       EraseFlashSector := Some (eraseFlashSector x),
       WaitForFlashWrite := Some (waitForFlashWrite x),
       gFlashMaxTime := Some (maxTime x),
       gFlash := Some (flashType x)\<rparr>)
   }"
end
