(* ===== verification/FlashProtocol.thy ===== *)
theory FlashProtocol
  imports AgbFlash
begin

text \<open>
  Correctness of the flash driver against the command protocol of the chip. The reference
  machine \<open>chip_step\<close> reads the bytes written to the bus as JEDEC commands (bank select,
  byte program, sector erase, chip erase, identification, reset) and keeps the contents of
  the memory array: an erase sets bytes to 0xFF, programming can only clear bits. What the
  driver achieves is stated as the contents of that array after the accesses it made, for
  every behaviour of the chip's read side and of the timer.
\<close>

unbundle bit_operations_syntax

section \<open>The command protocol\<close>

datatype decode_state = Idle | Unlock1 | Unlock2 | ExpectBank | ExpectProgram | Erase0 | Erase1 | Erase2

record chip_mem =
  dst :: decode_state
  bank :: u8
  cells :: "u8 \<Rightarrow> u32 \<Rightarrow> u8"

definition A5555 :: u32 where "A5555 = FLASH_BASE + 0x5555"
definition A2AAA :: u32 where "A2AAA = FLASH_BASE + 0x2AAA"

text \<open>The base address of the 4096-byte sector of an address.\<close>

definition sector_of :: "u32 \<Rightarrow> u32" where
  "sector_of a = a AND NOT 0xFFF"

definition erase_sector :: "u32 \<Rightarrow> chip_mem \<Rightarrow> chip_mem" where
  "erase_sector a c = c\<lparr>cells := (cells c)(bank c :=
     (\<lambda>x. if sector_of x = sector_of a then 0xFF else cells c (bank c) x))\<rparr>"

definition program_byte :: "u32 \<Rightarrow> u8 \<Rightarrow> chip_mem \<Rightarrow> chip_mem" where
  "program_byte a d c = c\<lparr>cells := (cells c)(bank c :=
     (cells c (bank c))(a := cells c (bank c) a AND d))\<rparr>"

definition erase_chip :: "chip_mem \<Rightarrow> chip_mem" where
  "erase_chip c = c\<lparr>cells := (\<lambda>_ _. 0xFF)\<rparr>"

definition chip_write :: "u32 \<Rightarrow> u8 \<Rightarrow> chip_mem \<Rightarrow> chip_mem" where
  "chip_write a v c =
     (case dst c of
        Idle \<Rightarrow> c\<lparr>dst := (if a = A5555 \<and> v = 0xAA then Unlock1 else Idle)\<rparr>
      | Unlock1 \<Rightarrow> c\<lparr>dst := (if a = A2AAA \<and> v = 0x55 then Unlock2 else Idle)\<rparr>
      | Unlock2 \<Rightarrow> c\<lparr>dst := (if a \<noteq> A5555 then Idle else if v = 0xB0 then ExpectBank
           else if v = 0xA0 then ExpectProgram else if v = 0x80 then Erase0 else Idle)\<rparr>
      | ExpectBank \<Rightarrow> c\<lparr>dst := Idle, bank := (if a = FLASH_BASE then v else bank c)\<rparr>
      | ExpectProgram \<Rightarrow> (program_byte a v c)\<lparr>dst := Idle\<rparr>
      | Erase0 \<Rightarrow> c\<lparr>dst := (if a = A5555 \<and> v = 0xAA then Erase1 else Idle)\<rparr>
      | Erase1 \<Rightarrow> c\<lparr>dst := (if a = A2AAA \<and> v = 0x55 then Erase2 else Idle)\<rparr>
      | Erase2 \<Rightarrow>
          (if a = A5555 \<and> v = 0x10 then (erase_chip c)\<lparr>dst := Idle\<rparr>
           else if v = 0x30 then (erase_sector a c)\<lparr>dst := Idle\<rparr>
           else c\<lparr>dst := Idle\<rparr>))"

fun chip_step :: "chip_mem \<Rightarrow> flash_event \<Rightarrow> chip_mem" where
  "chip_step c (FlWrite a v) = chip_write a v c"
| "chip_step c _ = c"

definition chip_run :: "chip_mem \<Rightarrow> flash_event list \<Rightarrow> chip_mem" where
  "chip_run c es = foldl chip_step c es"

lemma chip_run_simps [simp]:
  "chip_run c [] = c"
  "chip_run c (e # es) = chip_run (chip_step c e) es"
  "chip_run c (xs @ ys) = chip_run (chip_run c xs) ys"
  by (simp_all add: chip_run_def)

section \<open>What an operation adds to the bus\<close>

definition config where
  "config s = (gFlash s, gFlashMaxTime s, ProgramFlashSector s, WaitForFlashWrite s, sTimerNum s,
     sTimerReg s, ram s)"

definition ext :: "flash_event list \<Rightarrow> flash_state \<Rightarrow> flash_state \<Rightarrow> bool" where
  "ext es s s' \<longleftrightarrow> bus s' = bus s @ es \<and> config s' = config s"

lemma ext_refl [simp, intro]: "ext [] s s"
  by (simp add: ext_def)

lemma ext_trans [trans]: "ext xs s t \<Longrightarrow> ext ys t u \<Longrightarrow> ext (xs @ ys) s u"
  by (simp add: ext_def)

text \<open>Accesses that leave an idle chip as it is: reads, delays, interrupts and resets.\<close>

fun quiet_event :: "flash_event \<Rightarrow> bool" where
  "quiet_event (FlWrite a v) = (a = A5555 \<and> v = 0xF0)"
| "quiet_event _ = True"

abbreviation quiet :: "flash_event list \<Rightarrow> bool" where
  "quiet \<equiv> list_all quiet_event"

lemma dst_idle [simp]: "dst c = Idle \<Longrightarrow> c\<lparr>dst := Idle\<rparr> = c"
  by (cases c) simp

lemma quiet_run: "quiet es \<Longrightarrow> dst c = Idle \<Longrightarrow> chip_run c es = c"
proof (induction es)
  case (Cons e es)
  then show ?case by (cases e) (simp_all add: chip_write_def)
qed simp

lemma access_simps [io_defs]:
  "bus_emit e s = s\<lparr>bus := bus s @ [e]\<rparr>"
  "flash_poke a v s = s\<lparr>bus := bus s @ [FlWrite a v]\<rparr>"
  "FLASH_WRITE off v s = s\<lparr>bus := bus s @ [FlWrite (FLASH_BASE + off) v]\<rparr>"
  "reg_write a w s = s\<lparr>io := (io s)(a := w)\<rparr>"
  by (simp_all add: bus_emit_def flash_poke_def FLASH_WRITE_def reg_write_def)

lemma call_Poll_SomeD:
  "call_PollFlashStatus env a s = Some (v, s') \<Longrightarrow>
   v = chip env (bus s) a \<and> s' = s\<lparr>bus := bus s @ [FlRead a v]\<rparr>"
  by (auto simp: call_PollFlashStatus_def ReadFlash1_def Let_def io_defs split: option.splits if_splits)

lemma FlashTimerIntr_eq:
  "FlashTimerIntr s = s\<lparr>sTimerCount := sTimerCount s - of_bool (sTimerCount s \<noteq> 0),
     gFlashTimeoutFlag := (if sTimerCount s = 1 then 1 else gFlashTimeoutFlag s)\<rparr>"
  by (auto simp: FlashTimerIntr_def Let_def)

definition after_irqs :: "nat \<Rightarrow> flash_state \<Rightarrow> flash_state" where
  "after_irqs n s =
     (let k = unat (sTimerCount s)
      in s\<lparr>sTimerCount := of_nat (k - n), gFlashTimeoutFlag := (if 0 < k \<and> k \<le> n then 1 else gFlashTimeoutFlag s),
           bus := bus s @ replicate n FlTimerIrq\<rparr>)"

lemma unat_minus_one_nz: "(x :: 'a::len word) \<noteq> 0 \<Longrightarrow> unat (x - 1) = unat x - 1"
  by (metis unat_minus_one)

lemma funpow_irqs:
  "((\<lambda>s. bus_emit FlTimerIrq (FlashTimerIntr s)) ^^ n) s = after_irqs n s"
proof (induction n arbitrary: s)
  case 0
  then show ?case by (auto simp: after_irqs_def Let_def)
next
  case (Suc n)
  have "after_irqs n (bus_emit FlTimerIrq (FlashTimerIntr s)) = after_irqs (Suc n) s"
  proof (cases "sTimerCount s = 0")
    case True
    then show ?thesis
      by (simp add: after_irqs_def Let_def FlashTimerIntr_eq io_defs replicate_append_same)
  next
    case False
    then have k: "unat (sTimerCount s - 1) = unat (sTimerCount s) - 1" "0 < unat (sTimerCount s)"
      by (simp_all add: unat_minus_one_nz unat_gt_0)
    have one: "sTimerCount s = 1 \<longleftrightarrow> unat (sTimerCount s) = 1"
      by (simp add: word_unat_eq_iff)
    from k False show ?thesis
      by (auto simp: after_irqs_def Let_def FlashTimerIntr_eq io_defs replicate_append_same one)
  qed
  then show ?case by (simp add: funpow_Suc_right Suc.IH del: funpow.simps)
qed

lemma serve_irqs_eq:
  "serve_irqs env s =
     (if io s REG_ADDR_IME AND 1 = 1 \<and> io s REG_ADDR_IE AND timer_flag s \<noteq> 0
      then after_irqs (irqs env (bus s)) s else s)"
  by (simp add: serve_irqs_def funpow_irqs)

text \<open>While it waits the driver changes no register and no saved state either.\<close>

definition ioconf where
  "ioconf s = (io s, sSavedIme s, PollFlashStatus s)"

definition qext :: "flash_event list \<Rightarrow> flash_state \<Rightarrow> flash_state \<Rightarrow> bool" where
  "qext es s s' \<longleftrightarrow> ext es s s' \<and> ioconf s' = ioconf s"

lemmas ext_defs = qext_def ioconf_def ext_def config_def

lemma qext_refl [simp, intro]: "qext [] s s"
  by (simp add: qext_def)

lemma qext_trans: "qext xs s t \<Longrightarrow> qext ys t u \<Longrightarrow> qext (xs @ ys) s u"
  by (auto simp: qext_def intro: ext_trans)

lemma after_irqs_ext: "qext (replicate n FlTimerIrq) s (after_irqs n s)"
  by (simp add: ext_defs after_irqs_def Let_def)

lemma serve_irqs_ext: "\<exists>es. quiet es \<and> qext es s (serve_irqs env s)"
proof (cases "serve_irqs env s = after_irqs (irqs env (bus s)) s")
  case True
  then show ?thesis
    using after_irqs_ext by (intro exI [of _ "replicate (irqs env (bus s)) FlTimerIrq"]) (simp add: list_all_iff)
next
  case False
  then have "serve_irqs env s = s"
    by (auto simp: serve_irqs_eq split: if_splits)
  then show ?thesis
    by (intro exI [of _ "[]"]) simp
qed

section \<open>Waiting\<close>

definition wait_result :: "u8 \<Rightarrow> u32 \<Rightarrow> u8 \<Rightarrow> flash_event list \<Rightarrow> u16 \<Rightarrow> bool" where
  "wait_result phase addr lastData es r \<longleftrightarrow>
     (r = 0 \<and> es \<noteq> [] \<and> last es = FlRead addr lastData
      \<or> r \<in> {ucast phase OR 0xA000, ucast phase OR 0xC000} \<and> es \<noteq> [] \<and> last es = FlWrite A5555 0xF0)"

lemma poll_ext:
  "call_PollFlashStatus env a s = Some (v, t) \<Longrightarrow> qext [FlRead a v] s t"
  by (drule call_Poll_SomeD) (simp add: ext_defs)

lemma final_poll:
  assumes "(do { (status, s) \<leftarrow> call_PollFlashStatus env addr s;
      if status = lastData then Some (0, s) else Some (code, FLASH_WRITE 0x5555 0xF0 s) }) = Some (r, t)"
    and "code \<in> {ucast phase OR 0xA000, ucast phase OR 0xC000}"
  shows "\<exists>es. quiet es \<and> qext es s t \<and> wait_result phase addr lastData es r"
proof -
  obtain v u where p: "call_PollFlashStatus env addr s = Some (v, u)"
    using assms(1) by (cases "call_PollFlashStatus env addr s") auto
  note pe = call_Poll_SomeD [OF p]
  show ?thesis
  proof (cases "v = lastData")
    case True
    then show ?thesis
      using assms(1) p pe
      by (intro exI [of _ "[FlRead addr lastData]"]) (auto simp: wait_result_def ext_defs)
  next
    case False
    then show ?thesis
      using assms p pe
      by (intro exI [of _ "[FlRead addr v, FlWrite A5555 0xF0]"])
        (auto simp: wait_result_def ext_defs io_defs A5555_def)
  qed
qed

lemma quiet_chain:
  "quiet xs \<Longrightarrow> qext xs s t \<Longrightarrow> \<exists>es. quiet es \<and> qext es t u \<and> wait_result ph a d es r \<Longrightarrow>
   \<exists>es. quiet es \<and> qext es s u \<and> wait_result ph a d es r"
proof -
  assume "quiet xs" "qext xs s t" "\<exists>es. quiet es \<and> qext es t u \<and> wait_result ph a d es r"
  then obtain es where "quiet es" "qext es t u" "wait_result ph a d es r" by blast
  then show ?thesis
    using \<open>quiet xs\<close> qext_trans [OF \<open>qext xs s t\<close>]
    by (intro exI [of _ "xs @ es"]) (auto simp: wait_result_def)
qed

lemma wait_loop_ext:
  assumes "wait_loop env phase addr lastData s = Some rt"
  shows "\<exists>es. quiet es \<and> qext es s (snd rt) \<and> wait_result phase addr lastData es (fst rt)"
proof (rule wait_loop.raw_induct [where P = "\<lambda>env phase addr lastData s rt. \<exists>es. quiet es
      \<and> qext es s (snd rt) \<and> wait_result phase addr lastData es (fst rt)", OF _ assms])
  fix f :: "flash_env \<Rightarrow> u8 \<Rightarrow> u32 \<Rightarrow> u8 \<Rightarrow> flash_state \<Rightarrow> (u16 \<times> flash_state) option"
    and env phase addr lastData s rt
  assume IH: "\<And>env phase addr lastData s rt. f env phase addr lastData s = Some rt \<Longrightarrow>
      \<exists>es. quiet es \<and> qext es s (snd rt) \<and> wait_result phase addr lastData es (fst rt)"
    and eq: "(do { (status, s) \<leftarrow> call_PollFlashStatus env addr s;
       if status = lastData then Some (0, s)
       else do {
         let s = serve_irqs env s;
         if status AND 0x20 \<noteq> 0 then do {
           (status, s) \<leftarrow> call_PollFlashStatus env addr s;
           if status = lastData then Some (0, s)
           else Some (ucast phase OR 0xA000, FLASH_WRITE 0x5555 0xF0 s) }
         else if gFlashTimeoutFlag s \<noteq> 0 then do {
           (status, s) \<leftarrow> call_PollFlashStatus env addr s;
           if status = lastData then Some (0, s)
           else Some (ucast phase OR 0xC000, FLASH_WRITE 0x5555 0xF0 s) }
         else f env phase addr lastData s } }) = Some rt"
  obtain v t where p: "call_PollFlashStatus env addr s = Some (v, t)"
    using eq by (cases "call_PollFlashStatus env addr s") auto
  let ?u = "serve_irqs env t"
  obtain xs where xs: "quiet xs" "qext xs t ?u" using serve_irqs_ext by blast
  have su: "quiet (FlRead addr v # xs)" "qext (FlRead addr v # xs) s ?u"
    using xs poll_ext [OF p] qext_trans [of "[FlRead addr v]" s t xs ?u] by simp_all
  show "\<exists>es. quiet es \<and> qext es s (snd rt) \<and> wait_result phase addr lastData es (fst rt)"
  proof (cases "v = lastData")
    case True
    then show ?thesis
      using eq p poll_ext [OF p]
      by (intro exI [of _ "[FlRead addr v]"]) (auto simp: wait_result_def)
  next
    case False
    show ?thesis
    proof (rule quiet_chain [OF su])
      show "\<exists>es. quiet es \<and> qext es ?u (snd rt) \<and> wait_result phase addr lastData es (fst rt)"
        using eq False final_poll [of env addr ?u lastData _ "fst rt" "snd rt" phase] IH
        by (auto simp: p Let_def split: if_splits)
    qed
  qed
qed

section \<open>The timer bounds the wait\<close>

definition timer_running :: "flash_state \<Rightarrow> bool" where
  "timer_running s \<longleftrightarrow> io s REG_ADDR_IME AND 1 = 1 \<and> io s REG_ADDR_IE AND timer_flag s \<noteq> 0"

definition poll_ready :: "flash_env \<Rightarrow> flash_state \<Rightarrow> bool" where
  "poll_ready env s \<longleftrightarrow>
     (\<exists>code. PollFlashStatus s = Some code \<and> take (length (code_ReadFlash1 env)) code = code_ReadFlash1 env)"

lemma poll_ready_Some:
  "poll_ready env s \<Longrightarrow> call_PollFlashStatus env a s = Some (ReadFlash1 env a s)"
  by (auto simp: poll_ready_def call_PollFlashStatus_def)

lemma poll_ready_after [simp]: "poll_ready env (s\<lparr>bus := b\<rparr>) = poll_ready env s"
  "poll_ready env (after_irqs n s) = poll_ready env s"
  by (simp_all add: poll_ready_def after_irqs_def Let_def)

text \<open>
  The timer as the game's hardware has it: it fires periodically, and its period is at most the time of \<open>P\<close> polls, for some
  number \<open>P\<close> that depends on the console and the code. Nothing is said of when it fires within that time, nor how often.
\<close>

definition fires_within :: "flash_env \<Rightarrow> u32 \<Rightarrow> nat \<Rightarrow> flash_event list \<Rightarrow> bool" where
  "fires_within env a P h \<longleftrightarrow> (\<forall>vs. length vs = P \<longrightarrow> (\<exists>k\<le>P. 0 < irqs env (h @ map (FlRead a) (take k vs))))"

definition timer_ticks :: "flash_env \<Rightarrow> bool" where
  "timer_ticks env \<longleftrightarrow> (\<exists>P. \<forall>h a. fires_within env a P h)"

lemma fires_within_0: "fires_within env a 0 h \<longleftrightarrow> 0 < irqs env h"
  by (simp add: fires_within_def)

lemma fires_within_Suc:
  assumes "fires_within env a (Suc P) h" "irqs env h = 0"
  shows "fires_within env a P (h @ [FlRead a v])"
  unfolding fires_within_def
proof (intro allI impI)
  fix vs :: "u8 list"
  assume "length vs = P"
  then obtain k where k: "k \<le> Suc P" "0 < irqs env (h @ map (FlRead a) (take k (v # vs)))"
    using assms(1) by (auto simp: fires_within_def dest: spec [of _ "v # vs"])
  then obtain j where "k = Suc j" using assms(2) by (cases k) auto
  with k show "\<exists>k\<le>P. 0 < irqs env ((h @ [FlRead a v]) @ map (FlRead a) (take k vs))" by auto
qed

text \<open>One turn of the loop: a poll, and the timer interrupts after it.\<close>

definition wait_next :: "flash_env \<Rightarrow> u32 \<Rightarrow> flash_state \<Rightarrow> flash_state" where
  "wait_next env addr s =
     (let h = bus s @ [FlRead addr (chip env (bus s) addr)] in after_irqs (irqs env h) (s\<lparr>bus := h\<rparr>))"

lemma wait_next_kept:
  "timer_running s \<Longrightarrow> timer_running (wait_next env addr s)" "poll_ready env s \<Longrightarrow> poll_ready env (wait_next env addr s)"
  by (simp_all add: wait_next_def timer_running_def after_irqs_def Let_def timer_flag_def poll_ready_def)

lemma wait_loop_unfold:
  assumes "timer_running s" "poll_ready env s"
  shows "wait_loop env phase addr lastData s =
       (let v = chip env (bus s) addr; u = wait_next env addr s in
        if v = lastData then Some (0, s\<lparr>bus := bus s @ [FlRead addr v]\<rparr>)
        else if v AND 0x20 \<noteq> 0 \<or> gFlashTimeoutFlag u \<noteq> 0 then
          Some (if chip env (bus u) addr = lastData then (0, u\<lparr>bus := bus u @ [FlRead addr lastData]\<rparr>)
                else (ucast phase OR (if v AND 0x20 \<noteq> 0 then 0xA000 else 0xC000),
                  FLASH_WRITE 0x5555 0xF0 (u\<lparr>bus := bus u @ [FlRead addr (chip env (bus u) addr)]\<rparr>)))
        else wait_loop env phase addr lastData u)"
proof -
  define t where "t = s\<lparr>bus := bus s @ [FlRead addr (chip env (bus s) addr)]\<rparr>"
  have poll: "call_PollFlashStatus env addr s = Some (chip env (bus s) addr, t)"
    using poll_ready_Some [OF assms(2)] by (simp add: ReadFlash1_def Let_def io_defs t_def)
  have irq: "serve_irqs env t = wait_next env addr s"
    using assms(1) by (simp add: serve_irqs_eq timer_running_def t_def wait_next_def timer_flag_def Let_def)
  show ?thesis
    by (subst wait_loop.simps)
      (simp add: poll irq Let_def poll_ready_Some [OF wait_next_kept(2) [OF assms(2)]] ReadFlash1_def access_simps, simp add: t_def)
qed

lemma after_irqs_count:
  "unat (sTimerCount (after_irqs n s)) = unat (sTimerCount s) - n"
  "gFlashTimeoutFlag (after_irqs n s) = (if sTimerCount s \<noteq> 0 \<and> unat (sTimerCount s) \<le> n then 1 else gFlashTimeoutFlag s)"
  "bus (after_irqs n s) = bus s @ replicate n FlTimerIrq"
  using unsigned_less [of "sTimerCount s", where ?'a = nat]
  by (auto simp: after_irqs_def Let_def unsigned_of_nat take_bit_nat_eq_self unat_gt_0 simp del: of_nat_diff)

definition waiting :: "flash_env \<Rightarrow> flash_state \<Rightarrow> bool" where
  "waiting env s \<longleftrightarrow> timer_running s \<and> poll_ready env s \<and> (sTimerCount s \<noteq> 0 \<or> gFlashTimeoutFlag s \<noteq> 0)"

lemma waiting_next: "waiting env s \<Longrightarrow> waiting env (wait_next env addr s)"
  using wait_next_kept
  by (auto simp: waiting_def wait_next_def Let_def after_irqs_count unat_gt_0 [symmetric] not_le)

text \<open>Induction along a wait: each tick of the timer brings the timeout nearer, and the next tick is never more than \<open>P\<close> polls away.\<close>

lemma wait_induct [consumes 2, case_names step]:
  assumes "timer_ticks env" "waiting env s"
    and step: "\<And>x. waiting env x \<Longrightarrow> (gFlashTimeoutFlag (wait_next env addr x) = 0 \<Longrightarrow> Q (wait_next env addr x)) \<Longrightarrow> Q x"
  shows "Q s"
  using assms(2)
proof (induction "unat (sTimerCount s)" arbitrary: s rule: less_induct)
  case less
  obtain P where P: "\<And>h. fires_within env addr P h" using assms(1) by (auto simp: timer_ticks_def)
  let ?polled = "\<lambda>x. bus x @ [FlRead addr (chip env (bus x) addr)]"
  have tick: "Q x" if x: "waiting env x" "sTimerCount x = sTimerCount s" "0 < irqs env (?polled x)" for x
  proof (rule step [OF x(1)])
    assume "gFlashTimeoutFlag (wait_next env addr x) = 0"
    then have "irqs env (?polled x) < unat (sTimerCount s)"
      using x(1,2) by (auto simp: wait_next_def Let_def after_irqs_count waiting_def split: if_splits)
    then show "Q (wait_next env addr x)"
      using x waiting_next by (intro less.hyps) (auto simp: wait_next_def Let_def after_irqs_count)
  qed
  have "Q x" if "fires_within env addr j (?polled x)" "waiting env x" "sTimerCount x = sTimerCount s" for j x
    using that
  proof (induction j arbitrary: x)
    case (0 x)
    then show ?case using tick by (simp add: fires_within_0)
  next
    case (Suc j x)
    show ?case
    proof (cases "irqs env (?polled x) = 0")
      case True
      then have nx: "sTimerCount (wait_next env addr x) = sTimerCount x" "bus (wait_next env addr x) = ?polled x"
        by (simp_all add: wait_next_def Let_def after_irqs_def)
      have "Q (wait_next env addr x)"
        by (rule Suc.IH) (use nx Suc.prems waiting_next fires_within_Suc [OF Suc.prems(1) True] in auto)
      then show ?thesis using step Suc.prems(2) by blast
    next
      case False
      then show ?thesis using tick Suc.prems by simp
    qed
  qed
  then show ?case using P less.prems by blast
qed

lemma wait_loop_returns:
  assumes "timer_ticks env" "waiting env s"
  shows "\<exists>rt. wait_loop env phase addr lastData s = Some rt"
  using assms
proof (induction rule: wait_induct [where addr = addr])
  case (step x)
  then show ?case by (subst wait_loop_unfold) (auto simp: waiting_def Let_def)
qed

section \<open>A started timer\<close>

definition geometry_ok :: "FlashType \<Rightarrow> bool" where
  "geometry_ok ft \<longleftrightarrow> sec_size (sector ft) = 4096 \<and> sec_shift (sector ft) = 12
     \<and> sec_count (sector ft) = 32 \<and> romSize ft = FLASH_ROM_SIZE_1M"

text \<open>The state after a successful set-up: chip identified, interrupt handler installed.\<close>

definition timer_set :: "flash_state \<Rightarrow> bool" where
  "timer_set s \<longleftrightarrow> sTimerNum s < 4 \<and> sTimerReg s = REG_TMCNT_L (sTimerNum s)"

definition ready :: "flash_state \<Rightarrow> bool" where
  "ready s \<longleftrightarrow> (\<exists>x \<in> set sSetupInfos. gFlash s = Some (flashType x) \<and> gFlashMaxTime s = Some (maxTime x))
     \<and> ProgramFlashSector s = Some ProgramFlashSector_MX_fn
     \<and> WaitForFlashWrite s = Some WaitForFlashWrite_Common_fn \<and> timer_set s"

lemma setup_geometry: "x \<in> set sSetupInfos \<Longrightarrow> geometry_ok (flashType x)"
  by (auto simp: sSetupInfos_def MX29L010_def LE26FV10N1TS_def DefaultFlash_def geometry_ok_def
      FLASH_ROM_SIZE_1M_def)

text \<open>The number of timer interrupts each phase may take: the same in all tables of the library.\<close>

definition wait_limit :: "u8 \<Rightarrow> nat" where
  "wait_limit phase = (if phase < 2 then 10 else 2000)"

lemma wait_limit_pos [simp]: "0 < wait_limit phase"
  by (simp add: wait_limit_def)

lemma setup_times:
  fixes phase :: u8
  assumes x: "x \<in> set sSetupInfos" and "phase < 4"
  shows "unat phase * 3 + 3 \<le> length (maxTime x) \<and> unat (maxTime x ! (unat phase * 3)) = wait_limit phase"
proof -
  have "phase = 0 \<or> phase = 1 \<or> phase = 2 \<or> phase = 3"
    using assms(2) by (simp add: u8_less_4)
  with x show ?thesis
    by (auto simp: sSetupInfos_def MX29L010_def LE26FV10N1TS_def DefaultFlash_def mxMaxTime_def
        leMaxTime_def wait_limit_def)
qed

lemma config_ready: "config s' = config s \<Longrightarrow> ready s' = ready s"
  by (simp add: config_def ready_def timer_set_def)

lemma ext_ready: "ext es s s' \<Longrightarrow> ready s \<Longrightarrow> ready s'"
  by (simp add: ext_def config_ready [of s' s])

lemma timer_addrs:
  assumes "timer_set s"
  shows "sTimerReg s \<noteq> 0" "sTimerReg s \<noteq> REG_ADDR_IME" "sTimerReg s + 2 \<noteq> REG_ADDR_IME"
    "sTimerReg s \<noteq> REG_ADDR_IE" "sTimerReg s + 2 \<noteq> REG_ADDR_IE" "timer_flag s \<noteq> 0"
proof -
  have reg: "sTimerReg s = REG_TMCNT_L (sTimerNum s)"
    and num: "sTimerNum s = 0 \<or> sTimerNum s = 1 \<or> sTimerNum s = 2 \<or> sTimerNum s = 3"
    using assms by (simp_all add: timer_set_def u8_less_4)
  show "timer_flag s \<noteq> 0"
    using num by (elim disjE) (simp_all add: timer_flag_def INTR_FLAG_TIMER0_def)
  show "sTimerReg s \<noteq> 0" "sTimerReg s \<noteq> REG_ADDR_IME" "sTimerReg s + 2 \<noteq> REG_ADDR_IME"
    "sTimerReg s \<noteq> REG_ADDR_IE" "sTimerReg s + 2 \<noteq> REG_ADDR_IE"
    unfolding reg using num by (elim disjE; simp add: REG_TMCNT_L_def reg_addrs)+
qed

text \<open>What a started timer looks like, and the state the wait loop starts from.\<close>

definition started :: "u8 \<Rightarrow> flash_state \<Rightarrow> flash_state \<Rightarrow> bool" where
  "started phase s t \<longleftrightarrow> ext [] s t \<and> unat (sTimerCount t) = wait_limit phase \<and> gFlashTimeoutFlag t = 0 \<and> PollFlashStatus t = PollFlashStatus s
     \<and> sSavedIme t = io s REG_ADDR_IME \<and> io t REG_ADDR_IE = io s REG_ADDR_IE OR timer_flag s
     \<and> io t REG_ADDR_IME = 1 \<and> sTimerNum t = sTimerNum s"

lemma StartFlashTimer_ready:
  assumes "ready s" "phase < 4"
  shows "\<exists>t. StartFlashTimer phase s = Some t \<and> started phase s t"
proof -
  obtain x where x: "x \<in> set sSetupInfos" "gFlashMaxTime s = Some (maxTime x)" and ts: "timer_set s"
    using assms(1) by (auto simp: ready_def)
  note tm = setup_times [OF x(1) assms(2)]
  have regs: "REG_ADDR_IF \<noteq> REG_ADDR_IE" "REG_ADDR_IME \<noteq> REG_ADDR_IE" "REG_ADDR_IE \<noteq> REG_ADDR_IME"
    by (simp_all add: reg_addrs)
  have guard: "\<not> (length (maxTime x) < unat phase * 3 + 3 \<or> sTimerReg s = 0)"
    using tm timer_addrs(1) [OF ts] by linarith
  show ?thesis
    unfolding StartFlashTimer_def
    using tm timer_addrs [OF ts] regs
    by (simp only: x option.case Let_def guard if_False option.inject ex_simps simp_thms)
      (simp add: started_def io_defs ext_def config_def timer_flag_def)
qed

lemma StopFlashTimer_ext: "ext [] s (StopFlashTimer s)"
  by (simp add: StopFlashTimer_def Let_def io_defs ext_def config_def)

lemma StartFlashTimer_ext:
  "StartFlashTimer phase s = Some t \<Longrightarrow> ext [] s t \<and> PollFlashStatus t = PollFlashStatus s"
  by (auto simp: StartFlashTimer_def Let_def io_defs ext_def config_def split: option.splits if_splits)

lemma StopFlashTimer_poll [simp]: "PollFlashStatus (StopFlashTimer s) = PollFlashStatus s"
  by (simp add: StopFlashTimer_def Let_def io_defs)

lemma WaitForFlashWrite_Common_ext:
  assumes "WaitForFlashWrite_Common env phase addr d s = Some (r, t)"
  shows "\<exists>es. quiet es \<and> ext es s t \<and> wait_result phase addr d es r
    \<and> PollFlashStatus t = PollFlashStatus s"
proof -
  obtain u v where u: "StartFlashTimer phase s = Some u"
    and v: "wait_loop env phase addr d u = Some (r, v)" and t: "t = StopFlashTimer v"
    using assms by (auto simp: WaitForFlashWrite_Common_def bind_eq_Some_conv)
  obtain es where es: "quiet es" "qext es u v" "wait_result phase addr d es r"
    using wait_loop_ext [OF v] by auto
  have "ext es s t"
    using ext_trans [OF ext_trans [OF conjunct1 [OF StartFlashTimer_ext [OF u]]] StopFlashTimer_ext] es t
    by (auto simp: qext_def)
  then show ?thesis
    using es t StartFlashTimer_ext [OF u] by (auto simp: qext_def ioconf_def)
qed

lemma call_WaitForFlashWrite_ext:
  assumes "call_WaitForFlashWrite env phase addr d s = Some (r, t)"
  shows "\<exists>es. quiet es \<and> ext es s t \<and> wait_result phase addr d es r
    \<and> PollFlashStatus t = PollFlashStatus s"
  using assms WaitForFlashWrite_Common_ext
  by (auto simp: call_WaitForFlashWrite_def split: if_splits)

lemma started_waiting:
  assumes "ready s" "poll_ready env s" "started phase s t"
  shows "waiting env t"
proof -
  have "timer_set s" using assms(1) by (simp add: ready_def)
  then have "(w OR timer_flag s) AND timer_flag s \<noteq> 0" for w
    using timer_addrs(6) by (simp add: bit.conj_disj_distrib2)
  moreover have "sTimerCount t \<noteq> 0"
    using assms(3) wait_limit_pos [of phase] by (auto simp: started_def simp del: wait_limit_pos)
  ultimately show ?thesis
    using assms(2,3) by (simp add: waiting_def timer_running_def started_def timer_flag_def poll_ready_def)
qed

lemma WaitForFlashWrite_Common_some:
  assumes "timer_ticks env" "ready s" "phase < 4" "poll_ready env s"
  shows "\<exists>r t. WaitForFlashWrite_Common env phase addr d s = Some (r, t)
    \<and> io t REG_ADDR_IME = io s REG_ADDR_IME
    \<and> io t REG_ADDR_IE = io s REG_ADDR_IE AND NOT (timer_flag s)
    \<and> io t (sTimerReg s + 2) = 0"
proof -
  obtain u where u: "StartFlashTimer phase s = Some u" "started phase s u"
    using StartFlashTimer_ready [OF assms(2,3)] by blast
  have ts: "timer_set s" using assms(2) by (simp add: ready_def)
  obtain r v where v: "wait_loop env phase addr d u = Some (r, v)"
    using wait_loop_returns [OF assms(1) started_waiting [OF assms(2,4) u(2)], of phase addr d] by fastforce
  have uv: "io v = io u" "sSavedIme v = sSavedIme u" "sTimerReg v = sTimerReg s" "sTimerNum v = sTimerNum s"
    using wait_loop_ext [OF v] u(2) by (auto simp: ext_defs started_def)
  have regs: "REG_ADDR_IME \<noteq> REG_ADDR_IE" "REG_ADDR_IE \<noteq> REG_ADDR_IME"
    by (simp_all add: reg_addrs)
  have ie: "(w OR f) AND NOT f = w AND NOT f" for w f :: u16
    by (simp add: bit.conj_disj_distrib2)
  show ?thesis
    using u v uv regs timer_addrs [OF ts]
    by (simp add: WaitForFlashWrite_Common_def StopFlashTimer_def Let_def io_defs started_def
        timer_flag_def ie)
qed

section \<open>What a command sequence does\<close>

lemma flash_offsets [simp]:
  "FLASH_BASE + 0x5555 = A5555" "FLASH_BASE + 0x2AAA = A2AAA" "FLASH_BASE + 0 = FLASH_BASE"
  by (simp_all add: A5555_def A2AAA_def)

lemma command_bank:
  "dst c = Idle \<Longrightarrow> chip_run c [FlWrite A5555 0xAA, FlWrite A2AAA 0x55, FlWrite A5555 0xB0,
     FlWrite FLASH_BASE b] = c\<lparr>bank := b\<rparr>"
  by (cases c) (simp add: chip_write_def)

lemma command_program:
  "dst c = Idle \<Longrightarrow> chip_run c [FlWrite A5555 0xAA, FlWrite A2AAA 0x55, FlWrite A5555 0xA0,
     FlWrite a d] = program_byte a d c"
  by (cases c) (simp add: chip_write_def program_byte_def)

lemma command_erase:
  "dst c = Idle \<Longrightarrow> chip_run c [FlWrite A5555 0xAA, FlWrite A2AAA 0x55, FlWrite A5555 0x80,
     FlWrite A5555 0xAA, FlWrite A2AAA 0x55, FlWrite a 0x30] = erase_sector a c"
  by (cases c) (simp add: chip_write_def erase_sector_def cong: if_cong)

lemma command_erase_chip:
  "dst c = Idle \<Longrightarrow> chip_run c [FlWrite A5555 0xAA, FlWrite A2AAA 0x55, FlWrite A5555 0x80,
     FlWrite A5555 0xAA, FlWrite A2AAA 0x55, FlWrite A5555 0x10] = erase_chip c"
  by (cases c) (simp add: chip_write_def erase_chip_def)

lemma dst_effects [simp]:
  "dst (program_byte a d c) = dst c" "dst (erase_sector a c) = dst c" "dst (erase_chip c) = dst c"
  "bank (program_byte a d c) = bank c" "bank (erase_sector a c) = bank c"
  by (simp_all add: program_byte_def erase_sector_def erase_chip_def)

lemma erase_sector_idem: "erase_sector a (erase_sector a c) = erase_sector a c"
  by (simp add: erase_sector_def fun_eq_iff cong: if_cong)

text \<open>The effect \<open>f\<close> on the memory array of everything written to the bus by a step.\<close>

definition effect :: "(chip_mem \<Rightarrow> chip_mem) \<Rightarrow> flash_state \<Rightarrow> flash_state \<Rightarrow> bool" where
  "effect f s t \<longleftrightarrow> config t = config s
     \<and> (\<exists>es. bus t = bus s @ es \<and> (\<forall>c. dst c = Idle \<longrightarrow> chip_run c es = f c \<and> dst (f c) = Idle))"

lemma effect_trans: "effect f s t \<Longrightarrow> effect g t u \<Longrightarrow> effect (g \<circ> f) s u"
  unfolding effect_def by (elim conjE exE) (simp add: exI [of _ "_ @ _"])

lemma effect_refl: "effect id s s"
  by (auto simp: effect_def)

lemma effect_ext:
  "ext es s t \<Longrightarrow> (\<And>c. dst c = Idle \<Longrightarrow> chip_run c es = f c \<and> dst (f c) = Idle) \<Longrightarrow> effect f s t"
  by (auto simp: effect_def ext_def)

lemma effect_quiet: "quiet es \<Longrightarrow> ext es s t \<Longrightarrow> effect id s t"
  by (rule effect_ext) (auto simp: quiet_run)

lemma effect_ready: "effect f s t \<Longrightarrow> ready s \<Longrightarrow> ready t"
  by (simp add: effect_def config_ready [of t s])

lemma effect_silent: "bus t = bus s \<Longrightarrow> config t = config s \<Longrightarrow> effect id s t"
  by (auto simp: effect_def)

lemma set_wait_effect: "effect id s (set_wait w s)"
  by (rule effect_silent) (simp_all add: set_wait_def io_defs config_def)

lemma leave_scope_effect: "effect id s (leave_scope s)"
  by (rule effect_silent) (simp_all add: leave_scope_def config_def)

lemma SetReadFlash1_effect: "SetReadFlash1 env b s = Some t \<Longrightarrow> effect id s t"
  by (rule effect_silent) (auto simp: SetReadFlash1_def config_def)

lemma SwitchFlashBank_effect: "effect (\<lambda>c. c\<lparr>bank := b\<rparr>) s (SwitchFlashBank b s)"
  by (rule effect_ext [of "[FlWrite A5555 0xAA, FlWrite A2AAA 0x55, FlWrite A5555 0xB0,
        FlWrite FLASH_BASE b]"])
    (simp_all only: command_bank, simp_all add: SwitchFlashBank_def Let_def io_defs ext_def config_def)

lemma call_WaitForFlashWrite_effect:
  "call_WaitForFlashWrite env phase addr d s = Some (r, t) \<Longrightarrow> effect id s t"
  using call_WaitForFlashWrite_ext effect_quiet by blast

lemma effect_trans_id: "effect id s t \<Longrightarrow> effect g t u \<Longrightarrow> effect g s u"
  "effect f s t \<Longrightarrow> effect id t u \<Longrightarrow> effect f s u"
  using effect_trans [of id s t g u] effect_trans [of f s t id u] by simp_all

lemma program_writes_effect:
  "effect (program_byte dest d) s
     (flash_poke dest d (FLASH_WRITE 0x5555 0xA0 (FLASH_WRITE 0x2AAA 0x55 (FLASH_WRITE 0x5555 0xAA s))))"
  by (rule effect_ext [of "[FlWrite A5555 0xAA, FlWrite A2AAA 0x55, FlWrite A5555 0xA0, FlWrite dest d]"])
    (simp_all only: command_program, simp_all add: io_defs ext_def config_def)

lemma erase_writes_effect:
  "effect (erase_sector a) s
     (flash_poke a 0x30 (FLASH_WRITE 0x2AAA 0x55 (FLASH_WRITE 0x5555 0xAA
       (FLASH_WRITE 0x5555 0x80 (FLASH_WRITE 0x2AAA 0x55 (FLASH_WRITE 0x5555 0xAA s))))))"
  by (rule effect_ext [of "[FlWrite A5555 0xAA, FlWrite A2AAA 0x55, FlWrite A5555 0x80,
        FlWrite A5555 0xAA, FlWrite A2AAA 0x55, FlWrite a 0x30]"])
    (simp_all only: command_erase, simp_all add: io_defs ext_def config_def)

lemma erase_chip_writes_effect:
  "effect erase_chip s
     (FLASH_WRITE 0x5555 0x10 (FLASH_WRITE 0x2AAA 0x55 (FLASH_WRITE 0x5555 0xAA
       (FLASH_WRITE 0x5555 0x80 (FLASH_WRITE 0x2AAA 0x55 (FLASH_WRITE 0x5555 0xAA s))))))"
  by (rule effect_ext [of "[FlWrite A5555 0xAA, FlWrite A2AAA 0x55, FlWrite A5555 0x80,
        FlWrite A5555 0xAA, FlWrite A2AAA 0x55, FlWrite A5555 0x10]"])
    (simp_all only: command_erase_chip, simp_all add: io_defs ext_def config_def)

lemma ProgramByte_effect:
  assumes "ProgramByte env src dest s = Some (r, t)"
  shows "effect (program_byte dest (ram s src)) s t" "PollFlashStatus t = PollFlashStatus s"
proof -
  define u where "u = flash_poke dest (ram s src)
    (FLASH_WRITE 0x5555 0xA0 (FLASH_WRITE 0x2AAA 0x55 (FLASH_WRITE 0x5555 0xAA s)))"
  have ram: "ram (FLASH_WRITE a v x) = ram x" "ram (flash_poke a v x) = ram x" for a v x
    by (simp_all add: io_defs)
  have call: "call_WaitForFlashWrite env 1 dest (ram s src) u = Some (r, t)"
    using assms by (simp add: ProgramByte_def Let_def ram u_def)
  show "effect (program_byte dest (ram s src)) s t"
    using effect_trans_id(2) [OF program_writes_effect] call_WaitForFlashWrite_effect [OF call]
    unfolding u_def .
  show "PollFlashStatus t = PollFlashStatus s"
    using call_WaitForFlashWrite_ext [OF call] by (auto simp: u_def io_defs)
qed

text \<open>Programming \<open>n\<close> consecutive bytes.\<close>

fun program_bytes :: "(u32 \<Rightarrow> u8) \<Rightarrow> nat \<Rightarrow> u32 \<Rightarrow> u32 \<Rightarrow> chip_mem \<Rightarrow> chip_mem" where
  "program_bytes m 0 src dest c = c"
| "program_bytes m (Suc n) src dest c =
     program_bytes m n (src + 1) (dest + 1) (program_byte dest (m src) c)"

lemma program_bytes_fun:
  "program_bytes m 0 src dest = id"
  "program_bytes m (Suc n) src dest = program_bytes m n (src + 1) (dest + 1) \<circ> program_byte dest (m src)"
  by (simp_all add: fun_eq_iff)

lemma effect_id_update:
  "effect id s (s\<lparr>gFlashNumRemainingBytes := w\<rparr>)"
  by (rule effect_silent) (simp_all add: config_def)

lemma program_loop_effect:
  "program_loop env n src dest s = Some (r, t) \<Longrightarrow>
   \<exists>k \<le> n. effect (program_bytes (ram s) k src dest) s t \<and> (r = 0 \<longrightarrow> k = n)"
proof (induction n arbitrary: src dest s)
  case 0
  then show ?case using effect_refl by (auto simp: program_bytes_fun)
next
  case (Suc n)
  obtain q u where p: "ProgramByte env src dest s = Some (q, u)"
    using Suc.prems by (auto simp: bind_eq_Some_conv)
  note eff = ProgramByte_effect(1) [OF p]
  show ?case
  proof (cases "q = 0")
    case False
    then show ?thesis
      using Suc.prems p eff by (intro exI [of _ "Suc 0"]) (auto simp: program_bytes_fun)
  next
    case True
    let ?u = "u\<lparr>gFlashNumRemainingBytes := gFlashNumRemainingBytes u - 1\<rparr>"
    have e1: "effect (program_byte dest (ram s src)) s ?u"
      by (rule effect_trans_id(2) [OF eff effect_id_update])
    then have "ram ?u = ram s" by (simp add: effect_def config_def)
    then obtain k where k: "k \<le> n" "effect (program_bytes (ram s) k (src + 1) (dest + 1)) ?u t"
        "r = 0 \<longrightarrow> k = n"
      using Suc.IH [of "src + 1" "dest + 1" ?u] Suc.prems p True by auto
    have "effect (program_bytes (ram s) (Suc k) src dest) s t"
      unfolding program_bytes_fun by (rule effect_trans [OF e1 k(2)])
    with k show ?thesis
      by (intro exI [of _ "Suc k"]) (simp del: program_bytes.simps)
  qed
qed

lemma try_erase_effect:
  assumes "try_erase env ft n k s = Some rt"
  shows "effect (erase_sector (sector_addr ft n)) s (snd rt)"
proof (rule try_erase.raw_induct [where P = "\<lambda>env ft n k s rt.
      effect (erase_sector (sector_addr ft n)) s (snd rt)", OF _ assms])
  fix f :: "flash_env \<Rightarrow> FlashType \<Rightarrow> u16 \<Rightarrow> u16 \<Rightarrow> flash_state \<Rightarrow> (u16 \<times> flash_state) option"
    and env ft n k s rt
  assume IH: "\<And>env ft n k s rt. f env ft n k s = Some rt \<Longrightarrow>
      effect (erase_sector (sector_addr ft n)) s (snd rt)"
    and eq: "(do {
     let s = set_wait (wait0 ft) s;
     let addr = sector_addr ft n;
     let s = FLASH_WRITE 0x5555 0xAA s;
     let s = FLASH_WRITE 0x2AAA 0x55 s;
     let s = FLASH_WRITE 0x5555 0x80 s;
     let s = FLASH_WRITE 0x5555 0xAA s;
     let s = FLASH_WRITE 0x2AAA 0x55 s;
     let s = flash_poke addr 0x30 s;
     s \<leftarrow> SetReadFlash1 env (local_buffer 0x20) s;
     (result, s) \<leftarrow> call_WaitForFlashWrite env 2 addr 0xFF s;
     if result AND 0xA000 = 0 \<or> k > 3 then Some (result, s)
     else f env ft n (k + 1) s }) = Some rt"
  let ?E = "erase_sector (sector_addr ft n)"
  define u where "u = flash_poke (sector_addr ft n) 0x30 (FLASH_WRITE 0x2AAA 0x55 (FLASH_WRITE 0x5555 0xAA
       (FLASH_WRITE 0x5555 0x80 (FLASH_WRITE 0x2AAA 0x55 (FLASH_WRITE 0x5555 0xAA (set_wait (wait0 ft) s))))))"
  obtain v r w where v: "SetReadFlash1 env (local_buffer 0x20) u = Some v"
    and w: "call_WaitForFlashWrite env 2 (sector_addr ft n) 0xFF v = Some (r, w)"
    and cont: "(if r AND 0xA000 = 0 \<or> k > 3 then Some (r, w) else f env ft n (k + 1) w) = Some rt"
    using eq by (auto simp: u_def Let_def bind_eq_Some_conv)
  have "effect ?E s u"
    unfolding u_def by (rule effect_trans_id(1) [OF set_wait_effect erase_writes_effect])
  then have sw: "effect ?E s w"
    by (rule effect_trans_id(2) [OF effect_trans_id(2) [OF _ SetReadFlash1_effect [OF v]]
        call_WaitForFlashWrite_effect [OF w]])
  show "effect ?E s (snd rt)"
  proof (cases "r AND 0xA000 = 0 \<or> k > 3")
    case True
    then show ?thesis using cont sw by auto
  next
    case False
    then have "effect ?E w (snd rt)" using cont IH by auto
    from effect_trans [OF sw this] show ?thesis
      by (simp add: comp_def erase_sector_idem)
  qed
qed

text \<open>
  The sector's bank and base address, and the effect of erasing and of programming it.
\<close>

definition bank_of :: "u16 \<Rightarrow> u8" where
  "bank_of n = ucast (n div SECTORS_PER_BANK)"

definition base_of :: "u16 \<Rightarrow> u32" where
  "base_of n = FLASH_BASE + push_bit 12 (ucast (n mod SECTORS_PER_BANK))"

definition erased :: "u16 \<Rightarrow> chip_mem \<Rightarrow> chip_mem" where
  "erased n c = erase_sector (base_of n) (c\<lparr>bank := bank_of n\<rparr>)"

lemma ready_geometry: "ready s \<Longrightarrow> gFlash s = Some ft \<Longrightarrow> geometry_ok ft"
  using setup_geometry by (auto simp: ready_def)

lemma ready_gFlash: "ready s \<Longrightarrow> \<exists>ft. gFlash s = Some ft \<and> geometry_ok ft"
  using setup_geometry by (auto simp: ready_def)

lemma geometry_addr: "geometry_ok ft \<Longrightarrow> sector_addr ft (n mod SECTORS_PER_BANK) = base_of n"
  by (simp add: geometry_ok_def sector_addr_def base_of_def)

lemma EraseFlashSector_MX_effect:
  assumes "ready s" "EraseFlashSector_MX env n s = Some (r, t)"
  shows "if n \<ge> 32 then r = 0x80FF \<and> t = s else effect (erased n) s t"
proof -
  obtain ft where ft: "gFlash s = Some ft" "geometry_ok ft" using ready_gFlash [OF assms(1)] by blast
  show ?thesis
  proof (cases "n \<ge> 32")
    case True
    then show ?thesis using assms(2) ft by (simp add: EraseFlashSector_MX_def geometry_ok_def)
  next
    case False
    let ?b = "SwitchFlashBank (ucast (n div SECTORS_PER_BANK)) s"
    obtain u where u: "try_erase env ft (n mod SECTORS_PER_BANK) 0 ?b = Some (r, u)"
      and t: "t = leave_scope (set_wait WAITCNT_SRAM_8 u)"
      using assms(2) ft False
      by (auto simp: EraseFlashSector_MX_def geometry_ok_def Let_def bind_eq_Some_conv)
    have "effect (erase_sector (base_of n) \<circ> (\<lambda>c. c\<lparr>bank := bank_of n\<rparr>)) s u"
      using effect_trans [OF SwitchFlashBank_effect try_erase_effect [OF u]]
      by (simp add: geometry_addr [OF ft(2)] bank_of_def)
    moreover have "erase_sector (base_of n) \<circ> (\<lambda>c. c\<lparr>bank := bank_of n\<rparr>) = erased n"
      by (simp add: fun_eq_iff erased_def)
    ultimately have "effect (erased n) s u" by simp
    then show ?thesis
      using False t effect_trans_id(2) [OF effect_trans_id(2) [OF _ set_wait_effect] leave_scope_effect]
      by simp
  qed
qed

lemma ProgramFlashSector_MX_effect:
  assumes "ready s" "ProgramFlashSector_MX env n src s = Some (r, t)"
  shows "if n \<ge> 32 then r = 0x80FF \<and> t = s
    else \<exists>k \<le> 4096. effect (program_bytes (ram s) k src (base_of n) \<circ> erased n) s t \<and> (r = 0 \<longrightarrow> k = 4096)"
proof -
  obtain ft where ft: "gFlash s = Some ft" "geometry_ok ft" using ready_gFlash [OF assms(1)] by blast
  show ?thesis
  proof (cases "n \<ge> 32")
    case True
    then show ?thesis using assms(2) ft by (simp add: ProgramFlashSector_MX_def geometry_ok_def)
  next
    case n: False
    obtain q u where e: "EraseFlashSector_MX env n s = Some (q, u)"
      using assms(2) ft n by (auto simp: ProgramFlashSector_MX_def geometry_ok_def bind_eq_Some_conv)
    have eff: "effect (erased n) s u" using EraseFlashSector_MX_effect [OF assms(1) e] n by simp
    show ?thesis
    proof (cases "q = 0")
      case False
      then have "r \<noteq> 0 \<and> t = u"
        using assms(2) ft n e by (simp add: ProgramFlashSector_MX_def geometry_ok_def)
      then show ?thesis using eff n by (auto simp: program_bytes_fun intro!: exI [of _ 0])
    next
      case True
      let ?b = "SwitchFlashBank (ucast (n div SECTORS_PER_BANK)) u"
      obtain v w where v: "SetReadFlash1 env (local_buffer 0x20) ?b = Some v"
        and w: "program_loop env 4096 src (base_of n)
             ((set_wait (wait0 ft) v)\<lparr>gFlashNumRemainingBytes := 4096\<rparr>) = Some (r, w)"
        and t: "t = leave_scope w"
        using assms(2) ft n e True
        by (auto simp: ProgramFlashSector_MX_def Let_def bind_eq_Some_conv
            geometry_addr geometry_ok_def [of ft])
      let ?v = "(set_wait (wait0 ft) v)\<lparr>gFlashNumRemainingBytes := 4096\<rparr>"
      have sv: "effect ((\<lambda>c. c\<lparr>bank := bank_of n\<rparr>) \<circ> erased n) s ?v"
        using effect_trans_id(2) [OF effect_trans_id(2) [OF effect_trans_id(2) [OF
          effect_trans [OF eff SwitchFlashBank_effect] SetReadFlash1_effect [OF v]] set_wait_effect]
          effect_id_update] by (simp add: bank_of_def)
      moreover have "(\<lambda>c. c\<lparr>bank := bank_of n\<rparr>) \<circ> erased n = erased n"
        by (simp add: fun_eq_iff erased_def erase_sector_def)
      ultimately have sv: "effect (erased n) s ?v" by simp
      then have ram: "ram ?v = ram s" by (simp add: effect_def config_def)
      obtain k where k: "k \<le> 4096" "effect (program_bytes (ram s) k src (base_of n)) ?v w"
          "r = 0 \<longrightarrow> k = 4096"
        using program_loop_effect [OF w] unfolding ram by blast
      have "effect (program_bytes (ram s) k src (base_of n) \<circ> erased n) s t"
        unfolding t by (rule effect_trans_id(2) [OF effect_trans [OF sv k(2)] leave_scope_effect])
      then show ?thesis using n k by auto
    qed
  qed
qed

section \<open>The memory array afterwards\<close>

lemma sector_arith:
  fixes m :: u32
  assumes "i < 4096"
  shows "sector_of (push_bit 12 m + of_nat i) = push_bit 12 m"
proof -
  have i: "of_nat i = (take_bit 12 (of_nat i) :: u32)"
    using assms by (simp add: take_bit_of_nat take_bit_nat_eq_self)
  have "push_bit 12 m + of_nat i = push_bit 12 m OR (of_nat i :: u32)"
    by (subst (1 2) i, rule disjunctive_add) (auto simp: bit_simps)
  moreover have "(push_bit 12 m OR (of_nat i :: u32)) AND NOT (mask 12) = push_bit 12 m"
    by (subst i, rule bit_word_eqI) (auto simp: bit_simps)
  ultimately show ?thesis by (simp add: sector_of_def mask_eq_exp_minus_1)
qed

lemma base_of_aligned:
  "base_of n = push_bit 12 (0xE000 + ucast (n mod SECTORS_PER_BANK))"
  by (simp add: base_of_def FLASH_BASE_def push_bit_eq_mult distrib_right mult.commute)

lemma sector_of_base: "i < 4096 \<Longrightarrow> sector_of (base_of n + of_nat i) = base_of n"
  unfolding base_of_aligned by (rule sector_arith)

lemma program_bytes_cells:
  "n \<le> 2 ^ 32 \<Longrightarrow> cells (program_bytes m n src dest c) b a =
     (if b = bank c \<and> unat (a - dest) < n then cells c b a AND m (src + (a - dest)) else cells c b a)"
proof (induction n arbitrary: src dest c)
  case (Suc n)
  have step: "unat (a - (dest + 1)) < n \<longleftrightarrow> unat (a - dest) < Suc n" if "a \<noteq> dest"
  proof -
    have "unat (a - dest - 1) = unat (a - dest) - 1"
      using that by (intro unat_minus_one_nz) simp
    moreover have "0 < unat (a - dest)" using that by (simp add: unat_gt_0)
    ultimately show ?thesis by (simp add: diff_diff_eq less_diff_conv2)
  qed
  have wrap: "\<not> unat (- 1 :: u32) < n"
    using Suc.prems by (simp add: unsigned_minus_1_eq_mask mask_eq_exp_minus_1)
  have src: "src + 1 + (a - (dest + 1)) = src + (a - dest)" by simp
  show ?case
    using Suc by (cases "a = dest") (simp_all add: step wrap src program_byte_def)
qed simp

lemma erased_cells:
  "cells (erased n c) b a =
     (if b = bank_of n \<and> sector_of a = base_of n then 0xFF else cells c b a)"
  using sector_of_base [of 0 n] by (simp add: erased_def erase_sector_def)

section \<open>Confinement\<close>

text \<open>
  A \<open>region\<close> is a set of (bank, address) pairs. A step stays within it when every cell
  outside keeps its value and the chip is idle again.
\<close>

definition within :: "(u8 \<times> u32) set \<Rightarrow> chip_mem \<Rightarrow> chip_mem \<Rightarrow> bool" where
  "within R c c' \<longleftrightarrow> dst c' = Idle \<and> (\<forall>b a. (b, a) \<notin> R \<longrightarrow> cells c' b a = cells c b a)"

definition touches :: "(u8 \<times> u32) set \<Rightarrow> flash_state \<Rightarrow> flash_state \<Rightarrow> bool" where
  "touches R s t \<longleftrightarrow> ready t
     \<and> (\<exists>es. bus t = bus s @ es \<and> (\<forall>c. dst c = Idle \<longrightarrow> within R c (chip_run c es)))"

definition sector_cells :: "u16 \<Rightarrow> (u8 \<times> u32) set" where
  "sector_cells n = {(b, a). b = bank_of n \<and> sector_of a = base_of n}"

lemma within_trans: "within R c d \<Longrightarrow> within S d e \<Longrightarrow> within (R \<union> S) c e"
  by (simp add: within_def)

lemma within_mono: "within R c d \<Longrightarrow> R \<subseteq> S \<Longrightarrow> within S c d"
  by (auto simp: within_def)

lemma touches_trans: "touches R s t \<Longrightarrow> touches S t u \<Longrightarrow> touches (R \<union> S) s u"
proof -
  assume "touches R s t" "touches S t u"
  then obtain xs ys where
    xs: "bus t = bus s @ xs" "\<And>c. dst c = Idle \<Longrightarrow> within R c (chip_run c xs)" and
    ys: "bus u = bus t @ ys" "\<And>c. dst c = Idle \<Longrightarrow> within S c (chip_run c ys)" and u: "ready u"
    unfolding touches_def by blast
  have "within (R \<union> S) c (chip_run c (xs @ ys))" if "dst c = Idle" for c
    using within_trans [OF xs(2) [OF that] ys(2)] xs(2) [OF that] by (simp add: within_def)
  then show ?thesis
    using xs(1) ys(1) u unfolding touches_def by (intro conjI exI [of _ "xs @ ys"]) simp_all
qed

lemma touches_mono: "touches R s t \<Longrightarrow> R \<subseteq> S \<Longrightarrow> touches S s t"
  unfolding touches_def using within_mono by blast

lemma touches_refl: "ready s \<Longrightarrow> touches {} s s"
  by (simp add: touches_def within_def)

lemma effect_touches:
  "effect f s t \<Longrightarrow> ready s \<Longrightarrow> (\<And>c b a. (b, a) \<notin> R \<Longrightarrow> cells (f c) b a = cells c b a) \<Longrightarrow> touches R s t"
  using effect_ready [of f s t] by (fastforce simp: touches_def effect_def within_def)

text \<open>
  The contract every flash operation meets: from a set-up driver and an idle chip it leaves
  the driver set up and the chip idle, and changes cells of its region only. What follows
  from it, for any sequence of calls, is proved once.
\<close>

locale flash_operation =
  fixes op :: "flash_state \<Rightarrow> ('r \<times> flash_state) option"
    and region :: "(u8 \<times> u32) set"
  assumes op_touches: "ready s \<Longrightarrow> op s = Some (r, t) \<Longrightarrow> touches region s t"
begin

lemma op_ready: "ready s \<Longrightarrow> op s = Some (r, t) \<Longrightarrow> ready t"
  using op_touches by (auto simp: touches_def)

lemma op_after: "touches R s t \<Longrightarrow> op t = Some (r, u) \<Longrightarrow> touches (R \<union> region) s u"
  using op_touches touches_trans by (auto simp: touches_def [of R])

lemma op_keeps_outside:
  assumes "ready s" "op s = Some (r, t)" "dst (chip_run c (bus s)) = Idle" "(b, a) \<notin> region"
  shows "cells (chip_run c (bus t)) b a = cells (chip_run c (bus s)) b a"
  using op_touches [OF assms(1,2)] assms(3,4) by (auto simp: touches_def within_def)

end

text \<open>Programming and verifying together: both operations, retried up to \<open>n\<close> times.\<close>

locale write_verify = prog: flash_operation prog region + verify: flash_operation verify "{}"
  for prog :: "flash_state \<Rightarrow> (u16 \<times> flash_state) option" and region
    and verify :: "flash_state \<Rightarrow> (u32 \<times> flash_state) option" +
  fixes written :: "(u32 \<Rightarrow> u8) \<Rightarrow> chip_mem \<Rightarrow> bool"
  assumes prog_writes: "ready s \<Longrightarrow> prog s = Some (0, t) \<Longrightarrow> dst (chip_run c (bus s)) = Idle \<Longrightarrow>
      written (ram s) (chip_run c (bus t))"
    and written_cells: "written m c \<Longrightarrow> cells c' = cells c \<Longrightarrow> written m c'"
    and prog_ram: "ready s \<Longrightarrow> prog s = Some (r, t) \<Longrightarrow> ram t = ram s"
    and verify_ram: "ready s \<Longrightarrow> verify s = Some (q, t) \<Longrightarrow> ram t = ram s"
begin

lemma loop_touches:
  "touches region s t \<Longrightarrow> write_verify_loop prog verify n res t = Some (r, u) \<Longrightarrow> touches region s u"
proof (induction n arbitrary: res t)
  case (Suc n)
  obtain q v where p: "prog t = Some (q, v)" using Suc.prems by (auto simp: bind_eq_Some_conv)
  have sv: "touches region s v" using prog.op_after [OF Suc.prems(1) p] by simp
  show ?case
  proof (cases "q = 0")
    case True
    then obtain q' w where w: "verify v = Some (q', w)"
      using Suc.prems p by (auto simp: bind_eq_Some_conv)
    then have "touches region s w" using verify.op_after [OF sv] by simp
    then show ?thesis using Suc p True w by (auto split: if_splits)
  qed (use Suc p sv in auto)
qed simp

text \<open>Success means that the last round wrote the sector and then verified it.\<close>

lemma loop_success:
  assumes "ready s" "dst (chip_run c (bus s)) = Idle"
    and "write_verify_loop prog verify n res s = Some (0, u)" "res \<noteq> 0 \<or> 0 < n"
  shows "written (ram s) (chip_run c (bus u)) \<and> (\<exists>v. verify v = Some (0, u) \<and> ram v = ram s \<and> ready v)"
  using assms
proof (induction n arbitrary: res s)
  case (Suc n)
  obtain q v where p: "prog s = Some (q, v)" using Suc.prems by (auto simp: bind_eq_Some_conv)
  have v: "ready v" "dst (chip_run c (bus v)) = Idle"
    using prog.op_touches [OF Suc.prems(1) p] Suc.prems(2) by (auto simp: touches_def within_def)
  have rv: "ram v = ram s" by (rule prog_ram [OF Suc.prems(1) p])
  show ?case
  proof (cases "q = 0")
    case False
    then have "(ucast q :: u32) \<noteq> 0" by (simp add: ucast_u16_u32_0)
    with False show ?thesis using Suc.IH [OF v, of "ucast q"] Suc.prems(3) p rv by simp
  next
    case True
    then obtain q' w where w: "verify v = Some (q', w)"
      using Suc.prems p by (auto simp: bind_eq_Some_conv)
    have tw: "touches {} v w" by (rule verify.op_touches [OF v(1) w])
    then have vw: "ready w" "dst (chip_run c (bus w)) = Idle" "cells (chip_run c (bus w)) = cells (chip_run c (bus v))"
      using v(2) by (auto simp: touches_def within_def fun_eq_iff)
    show ?thesis
    proof (cases "q' = 0")
      case True
      then have "u = w" using \<open>q = 0\<close> Suc.prems(3) p w by simp
      then show ?thesis
        using prog_writes [OF Suc.prems(1) _ Suc.prems(2)] p \<open>q = 0\<close> written_cells vw w True rv v(1) by blast
    next
      case False
      then show ?thesis using Suc.IH [OF vw(1,2), of q'] \<open>q = 0\<close> Suc.prems(3) p w rv verify_ram [OF v(1) w]
        by simp
    qed
  qed
qed simp

end

section \<open>The driver's operations meet the contract\<close>

lemma program_bytes_region:
  "k \<le> 4096 \<Longrightarrow> (b, a) \<notin> sector_cells n \<Longrightarrow>
   cells (program_bytes m k src (base_of n) (erased n c)) b a = cells c b a"
proof -
  assume k: "k \<le> 4096" and out: "(b, a) \<notin> sector_cells n"
  have "sector_of a = base_of n" if "unat (a - base_of n) < k"
    using sector_of_base [of "unat (a - base_of n)" n] that k by simp
  moreover have "bank (erased n c) = bank_of n" by (simp add: erased_def)
  ultimately show ?thesis
    using k out by (auto simp: program_bytes_cells erased_cells sector_cells_def)
qed

lemma programmed_cells:
  assumes "i < 4096"
  shows "cells (program_bytes m 4096 src (base_of n) (erased n c)) (bank_of n) (base_of n + of_nat i)
    = m (src + of_nat i)"
proof -
  have "unat (of_nat i :: u32) = i"
    using assms by (simp add: unsigned_of_nat take_bit_nat_eq_self)
  moreover have "bank (erased n c) = bank_of n" by (simp add: erased_def)
  ultimately show ?thesis
    using assms by (simp add: program_bytes_cells erased_cells sector_of_base u8_and_FF)
qed

definition sector_holds :: "u16 \<Rightarrow> u32 \<Rightarrow> (u32 \<Rightarrow> u8) \<Rightarrow> chip_mem \<Rightarrow> bool" where
  "sector_holds n src m c \<longleftrightarrow>
     (\<forall>i<4096. cells c (bank_of n) (base_of n + of_nat i) = m (src + of_nat i))"

lemma effect_run:
  "effect f s t \<Longrightarrow> dst (chip_run c (bus s)) = Idle \<Longrightarrow> chip_run c (bus t) = f (chip_run c (bus s))"
  by (auto simp: effect_def)

lemma effect_ram: "effect f s t \<Longrightarrow> ram t = ram s"
  by (simp add: effect_def config_def)

lemma EraseFlashSector_MX_touches:
  assumes "ready s" "EraseFlashSector_MX env n s = Some (r, t)"
  shows "touches (sector_cells n) s t"
proof (cases "n \<ge> 32")
  case True
  then show ?thesis
    using EraseFlashSector_MX_effect [OF assms] touches_mono [OF touches_refl [OF assms(1)]] by auto
next
  case False
  then have "effect (erased n) s t"
    using EraseFlashSector_MX_effect [OF assms] by simp
  then show ?thesis
    by (rule effect_touches [OF _ assms(1)]) (auto simp: erased_cells sector_cells_def)
qed

lemma ProgramFlashSector_MX_touches:
  assumes "ready s" "ProgramFlashSector_MX env n src s = Some (r, t)"
  shows "touches (sector_cells n) s t" "ram t = ram s"
    "r = 0 \<Longrightarrow> dst (chip_run c (bus s)) = Idle \<Longrightarrow> sector_holds n src (ram s) (chip_run c (bus t))"
proof -
  note pr = ProgramFlashSector_MX_effect [OF assms]
  consider "n \<ge> 32" "r = 0x80FF" "t = s"
    | k where "k \<le> 4096" "effect (program_bytes (ram s) k src (base_of n) \<circ> erased n) s t" "r = 0 \<longrightarrow> k = 4096"
    using pr by (auto split: if_splits)
  then have "touches (sector_cells n) s t \<and> ram t = ram s \<and>
    (r = 0 \<longrightarrow> dst (chip_run c (bus s)) = Idle \<longrightarrow> sector_holds n src (ram s) (chip_run c (bus t)))"
  proof cases
    case 1
    then show ?thesis using touches_mono [OF touches_refl [OF assms(1)]] by auto
  next
    case (2 k)
    have "touches (sector_cells n) s t"
      by (rule effect_touches [OF 2(2) assms(1)]) (simp add: program_bytes_region 2(1))
    then show ?thesis
      using effect_run [OF 2(2)] effect_ram [OF 2(2)] 2(3) by (auto simp: sector_holds_def programmed_cells)
  qed
  then show "touches (sector_cells n) s t" "ram t = ram s"
    "r = 0 \<Longrightarrow> dst (chip_run c (bus s)) = Idle \<Longrightarrow> sector_holds n src (ram s) (chip_run c (bus t))"
    by blast+
qed

lemma EraseFlashChip_MX_effect:
  assumes "EraseFlashChip_MX env s = Some (r, t)"
  shows "effect erase_chip s t"
proof -
  obtain ft where ft: "gFlash s = Some ft" using assms by (auto simp: EraseFlashChip_MX_def bind_eq_Some_conv)
  define u where "u = FLASH_WRITE 0x5555 0x10 (FLASH_WRITE 0x2AAA 0x55 (FLASH_WRITE 0x5555 0xAA
       (FLASH_WRITE 0x5555 0x80 (FLASH_WRITE 0x2AAA 0x55 (FLASH_WRITE 0x5555 0xAA (set_wait (wait0 ft) s))))))"
  obtain v w where v: "SetReadFlash1 env (local_buffer 0x20) u = Some v"
    and w: "call_WaitForFlashWrite env 3 FLASH_BASE 0xFF v = Some (r, w)"
    and t: "t = leave_scope (set_wait WAITCNT_SRAM_8 w)"
    using assms ft by (auto simp: EraseFlashChip_MX_def u_def Let_def bind_eq_Some_conv)
  have "effect erase_chip s u"
    unfolding u_def by (rule effect_trans_id(1) [OF set_wait_effect erase_chip_writes_effect])
  then show ?thesis
    unfolding t by (rule effect_trans_id(2) [OF effect_trans_id(2) [OF effect_trans_id(2) [OF
      effect_trans_id(2) [OF _ SetReadFlash1_effect [OF v]] call_WaitForFlashWrite_effect [OF w]]
      set_wait_effect] leave_scope_effect])
qed

lemma ProgramFlashByte_MX_effect:
  assumes "ready s" "ProgramFlashByte_MX env n off d s = Some (r, t)"
  shows "if off \<ge> 4096 then r = 0x8000 \<and> t = s
    else effect (program_byte (base_of n + off) d \<circ> (\<lambda>c. c\<lparr>bank := bank_of n\<rparr>)) s t"
proof -
  obtain ft where ft: "gFlash s = Some ft" "geometry_ok ft" using ready_gFlash [OF assms(1)] by blast
  show ?thesis
  proof (cases "off \<ge> 4096")
    case True
    then show ?thesis using assms(2) ft by (simp add: ProgramFlashByte_MX_def geometry_ok_def)
  next
    case False
    let ?b = "SwitchFlashBank (ucast (n div SECTORS_PER_BANK)) s"
    obtain v w where v: "SetReadFlash1 env (local_buffer 0x20) ?b = Some v"
      and w: "call_WaitForFlashWrite env 1 (base_of n + off) d (flash_poke (base_of n + off) d
         (FLASH_WRITE 0x5555 0xA0 (FLASH_WRITE 0x2AAA 0x55 (FLASH_WRITE 0x5555 0xAA
            (set_wait (wait0 ft) v))))) = Some (r, w)"
      and t: "t = leave_scope w"
      using assms(2) ft False
      by (auto simp: ProgramFlashByte_MX_def Let_def bind_eq_Some_conv geometry_addr geometry_ok_def [of ft])
    have "effect (\<lambda>c. c\<lparr>bank := bank_of n\<rparr>) s (set_wait (wait0 ft) v)"
      using effect_trans_id(2) [OF effect_trans_id(2) [OF SwitchFlashBank_effect SetReadFlash1_effect [OF v]]
          set_wait_effect] by (simp add: bank_of_def)
    from effect_trans [OF this program_writes_effect]
    have "effect (program_byte (base_of n + off) d \<circ> (\<lambda>c. c\<lparr>bank := bank_of n\<rparr>)) s t"
      unfolding t by (rule effect_trans_id(2) [OF effect_trans_id(2) [OF _
        call_WaitForFlashWrite_effect [OF w]] leave_scope_effect])
    then show ?thesis using False by auto
  qed
qed

lemma bank_effect_touches:
  "effect (\<lambda>c. c\<lparr>bank := b\<rparr>) s t \<Longrightarrow> ready s \<Longrightarrow> touches {} s t"
  by (erule effect_touches) simp_all

lemma select_sector_ready:
  assumes "geometry_ok ft"
  shows "select_sector ft n s = (n mod SECTORS_PER_BANK, SwitchFlashBank (bank_of n) s)"
  using assms by (simp add: select_sector_def geometry_ok_def bank_of_def)

text \<open>What the comparison loop reads, up to the first byte that differs.\<close>

definition matching_reads :: "u32 \<Rightarrow> u32 \<Rightarrow> (u32 \<Rightarrow> u8) \<Rightarrow> nat \<Rightarrow> flash_event list" where
  "matching_reads src tgt m k = map (\<lambda>i. FlRead (tgt + of_nat i) (m (src + of_nat i))) [0..<k]"

lemma matching_reads_Suc:
  "matching_reads src tgt m (Suc k) = FlRead tgt (m src) # matching_reads (src + 1) (tgt + 1) m k"
  by (simp add: matching_reads_def map_upt_Suc add.assoc del: upt_Suc)

lemma matching_reads_quiet: "quiet (matching_reads src tgt m k)"
  by (simp add: matching_reads_def list_all_iff)

definition compared :: "u32 \<Rightarrow> u32 \<Rightarrow> nat \<Rightarrow> (u32 \<Rightarrow> u8) \<Rightarrow> flash_event list \<Rightarrow> u32 \<Rightarrow> bool" where
  "compared src tgt n m es r \<longleftrightarrow>
     r = 0 \<and> es = matching_reads src tgt m n
     \<or> (\<exists>k v. k < n \<and> r = tgt + of_nat k \<and> v \<noteq> m (src + of_nat k)
          \<and> es = matching_reads src tgt m k @ [FlRead (tgt + of_nat k) v])"

lemma compared_Suc:
  "compared (src + 1) (tgt + 1) n m es r \<Longrightarrow> compared src tgt (Suc n) m (FlRead tgt (m src) # es) r"
proof -
  assume "compared (src + 1) (tgt + 1) n m es r"
  then consider "r = 0" "es = matching_reads (src + 1) (tgt + 1) m n"
    | k v where "k < n" "r = tgt + 1 + of_nat k" "v \<noteq> m (src + 1 + of_nat k)"
        "es = matching_reads (src + 1) (tgt + 1) m k @ [FlRead (tgt + 1 + of_nat k) v]"
    unfolding compared_def by blast
  then show ?thesis
  proof cases
    case (2 k v)
    then show ?thesis
      unfolding compared_def
      by (intro disjI2 exI [of _ "Suc k"] exI [of _ v]) (simp add: matching_reads_Suc add.assoc)
  qed (simp add: compared_def matching_reads_Suc)
qed

lemma VerifyFlashSector_Core_spec:
  "VerifyFlashSector_Core env src tgt n s = (r, t) \<Longrightarrow>
   \<exists>es. t = s\<lparr>bus := bus s @ es\<rparr> \<and> compared src tgt n (ram s) es r"
proof (induction n arbitrary: src tgt s)
  case 0
  then show ?case by (auto simp: compared_def matching_reads_def intro!: exI [of _ "[]"])
next
  case (Suc n)
  let ?v = "chip env (bus s) tgt"
  let ?s = "s\<lparr>bus := bus s @ [FlRead tgt ?v]\<rparr>"
  show ?case
  proof (cases "?v = ram s src")
    case False
    then show ?thesis
      using Suc.prems
      by (auto simp: compared_def ReadFlash1_def Let_def io_defs matching_reads_def
          intro!: exI [of _ "[FlRead tgt ?v]"])
  next
    case True
    then have "VerifyFlashSector_Core env (src + 1) (tgt + 1) n ?s = (r, t)"
      using Suc.prems by (simp add: ReadFlash1_def Let_def io_defs)
    from Suc.IH [OF this] obtain es where "t = s\<lparr>bus := bus s @ FlRead tgt ?v # es\<rparr>"
        "compared (src + 1) (tgt + 1) n (ram s) es r"
      by auto
    then show ?thesis
      using True compared_Suc by (intro exI [of _ "FlRead tgt ?v # es"]) auto
  qed
qed

lemma compared_quiet: "compared src tgt n m es r \<Longrightarrow> quiet es"
  using matching_reads_quiet by (auto simp: compared_def)

lemma set_wait_bus [simp]:
  "bus (set_wait w s) = bus s" "ram (set_wait w s) = ram s" "config (set_wait w s) = config s"
  by (simp_all add: set_wait_def io_defs config_def)

lemma SwitchFlashBank_ram [simp]: "ram (SwitchFlashBank b s) = ram s"
  by (simp add: SwitchFlashBank_def Let_def io_defs)

definition bank_switch :: "u8 \<Rightarrow> flash_event list" where
  "bank_switch b = [FlWrite A5555 0xAA, FlWrite A2AAA 0x55, FlWrite A5555 0xB0, FlWrite FLASH_BASE b]"

lemma SwitchFlashBank_bus [simp]: "bus (SwitchFlashBank b s) = bus s @ bank_switch b"
  by (simp add: SwitchFlashBank_def Let_def io_defs bank_switch_def)

lemma read_effect:
  "quiet es \<Longrightarrow> effect f s u \<Longrightarrow> effect f s (u\<lparr>bus := bus u @ es\<rparr>)"
  by (rule effect_trans_id(2) [OF _ effect_quiet [of es]]) (simp_all add: ext_def config_def)

lemma VerifyFlashSector_spec:
  assumes "ready s" "VerifyFlashSector env n src s = Some (r, t)"
  shows "(\<exists>es. bus t = bus s @ bank_switch (bank_of n) @ es \<and> compared src (base_of n) 4096 (ram s) es r)
    \<and> ram t = ram s \<and> touches {} s t"
proof -
  obtain ft where ft: "gFlash s = Some ft" "geometry_ok ft" using ready_gFlash [OF assms(1)] by blast
  let ?u = "SwitchFlashBank (bank_of n) (set_wait WAITCNT_SRAM_8 s)"
  have "VerifyFlashSector_Core env src (base_of n) 4096 ?u = (r, t)"
    using assms(2) ft by (auto simp: VerifyFlashSector_def select_sector_ready Let_def
        bind_eq_Some_conv geometry_addr geometry_ok_def [of ft])
  from VerifyFlashSector_Core_spec [OF this] obtain es where
    es: "t = ?u\<lparr>bus := bus ?u @ es\<rparr>" "compared src (base_of n) 4096 (ram s) es r"
    by auto
  have "effect (\<lambda>c. c\<lparr>bank := bank_of n\<rparr>) s t"
    unfolding es(1)
    by (rule read_effect [OF compared_quiet [OF es(2)] effect_trans_id(1) [OF set_wait_effect SwitchFlashBank_effect]])
  then show ?thesis using es bank_effect_touches [OF _ assms(1)] by auto
qed

lemma VerifyFlashSectorNBytes_spec:
  assumes "ready s" "VerifyFlashSectorNBytes env n src len s = Some (r, t)"
  shows "(\<exists>es. bus t = bus s @ bank_switch (bank_of n) @ es
      \<and> compared src (base_of n) (unat len) (ram s) es r) \<and> ram t = ram s \<and> touches {} s t"
proof -
  obtain ft where ft: "gFlash s = Some ft" "geometry_ok ft" using ready_gFlash [OF assms(1)] by blast
  let ?u = "set_wait WAITCNT_SRAM_8 (SwitchFlashBank (bank_of n) s)"
  have "VerifyFlashSector_Core env src (base_of n) (unat len) ?u = (r, t)"
    using assms(2) ft by (auto simp: VerifyFlashSectorNBytes_def select_sector_ready Let_def
        bind_eq_Some_conv geometry_addr)
  from VerifyFlashSector_Core_spec [OF this] obtain es where
    es: "t = ?u\<lparr>bus := bus ?u @ es\<rparr>" "compared src (base_of n) (unat len) (ram s) es r"
    by auto
  have "effect (\<lambda>c. c\<lparr>bank := bank_of n\<rparr>) s t"
    unfolding es(1)
    by (rule read_effect [OF compared_quiet [OF es(2)] effect_trans_id(2) [OF SwitchFlashBank_effect set_wait_effect]])
  then show ?thesis using es bank_effect_touches [OF _ assms(1)] by auto
qed

text \<open>What a read of \<open>n\<close> bytes does: the bytes \<open>vs\<close> that the chip returned, in memory.\<close>

definition stored :: "u32 \<Rightarrow> u8 list \<Rightarrow> (u32 \<Rightarrow> u8) \<Rightarrow> u32 \<Rightarrow> u8" where
  "stored dest vs m = (\<lambda>a. if unat (a - dest) < length vs then vs ! unat (a - dest) else m a)"

definition reads_from :: "u32 \<Rightarrow> u8 list \<Rightarrow> flash_event list" where
  "reads_from src vs = map (\<lambda>i. FlRead (src + of_nat i) (vs ! i)) [0..<length vs]"

lemma reads_from_Cons: "reads_from src (v # vs) = FlRead src v # reads_from (src + 1) vs"
  by (simp add: reads_from_def map_upt_Suc add.assoc del: upt_Suc)

lemma stored_Cons:
  assumes "Suc (length vs) < 2 ^ 32"
  shows "stored (dest + 1) vs (m(dest := v)) = stored dest (v # vs) m"
proof (rule ext)
  fix a
  have wrap: "\<not> unat (- 1 :: u32) < length vs"
    using assms by (simp add: unsigned_minus_1_eq_mask mask_eq_exp_minus_1)
  show "stored (dest + 1) vs (m(dest := v)) a = stored dest (v # vs) m a"
  proof (cases "a = dest")
    case False
    then have "unat (a - (dest + 1)) = unat (a - dest) - 1"
      using unat_minus_one_nz [of "a - dest"] by (simp add: diff_diff_eq)
    moreover have "0 < unat (a - dest)" using False by (simp add: unat_gt_0)
    ultimately show ?thesis using False by (auto simp: stored_def nth_Cons')
  qed (simp add: stored_def wrap)
qed

lemma ReadFlash_Core_spec:
  "n < 2 ^ 32 \<Longrightarrow> \<exists>vs. length vs = n \<and> ReadFlash_Core env src dest n s =
     s\<lparr>ram := stored dest vs (ram s), bus := bus s @ reads_from src vs\<rparr>
     \<and> (\<forall>i<n. vs ! i = chip env (bus s @ reads_from src (take i vs)) (src + of_nat i))"
proof (induction n arbitrary: src dest s)
  case 0
  show ?case by (simp add: stored_def reads_from_def)
next
  case (Suc n)
  let ?v = "chip env (bus s) src"
  let ?s = "s\<lparr>bus := bus s @ [FlRead src ?v], ram := (ram s)(dest := ?v)\<rparr>"
  obtain vs where vs: "length vs = n" "ReadFlash_Core env (src + 1) (dest + 1) n ?s =
     ?s\<lparr>ram := stored (dest + 1) vs (ram ?s), bus := bus ?s @ reads_from (src + 1) vs\<rparr>"
     "\<forall>i<n. vs ! i = chip env (bus ?s @ reads_from (src + 1) (take i vs)) (src + 1 + of_nat i)"
    using Suc.IH [OF Suc_lessD [OF Suc.prems], of "src + 1" "dest + 1" ?s] by blast
  have step: "ReadFlash_Core env src dest (Suc n) s = ReadFlash_Core env (src + 1) (dest + 1) n ?s"
    by (simp add: ReadFlash1_def Let_def io_defs)
  have chips: "(?v # vs) ! i = chip env (bus s @ reads_from src (take i (?v # vs))) (src + of_nat i)"
    if "i < Suc n" for i
    using vs(3) that by (cases i) (simp_all add: reads_from_Cons add.assoc, simp add: reads_from_def)
  show ?case
    using vs(1,2) stored_Cons [of vs dest "ram s" ?v] Suc.prems chips
    by (intro exI [of _ "?v # vs"]) (simp add: step reads_from_Cons del: ReadFlash_Core.simps)
qed

lemma reads_from_quiet: "quiet (reads_from src vs)"
  by (simp add: reads_from_def list_all_iff)

lemma ReadFlash_spec:
  assumes "ready s" "ReadFlash env n off dest sz s = Some t"
  shows "\<exists>vs. length vs = unat sz \<and> ram t = stored dest vs (ram s)
      \<and> bus t = bus s @ bank_switch (bank_of n) @ reads_from (base_of n + off) vs
      \<and> (\<forall>i < unat sz. vs ! i = chip env (bus s @ bank_switch (bank_of n)
            @ reads_from (base_of n + off) (take i vs)) (base_of n + off + of_nat i))
      \<and> touches {} s t"
proof -
  obtain ft where ft: "gFlash s = Some ft" "geometry_ok ft" using ready_gFlash [OF assms(1)] by blast
  let ?u = "SwitchFlashBank (bank_of n) (set_wait WAITCNT_SRAM_8 s)"
  have t: "t = ReadFlash_Core env (base_of n + off) dest (unat sz) ?u"
    using assms(2) ft by (auto simp: ReadFlash_def select_sector_ready Let_def
        bind_eq_Some_conv geometry_addr)
  have "unat sz < 2 ^ 32" using unsigned_less [of sz, where ?'a = nat] by simp
  from ReadFlash_Core_spec [OF this, of env "base_of n + off" dest ?u] obtain vs where
    vs: "length vs = unat sz" "t = ?u\<lparr>ram := stored dest vs (ram s),
        bus := bus ?u @ reads_from (base_of n + off) vs\<rparr>"
      "\<forall>i < unat sz. vs ! i = chip env (bus s @ bank_switch (bank_of n)
            @ reads_from (base_of n + off) (take i vs)) (base_of n + off + of_nat i)"
    unfolding t by auto
  let ?t = "?u\<lparr>bus := bus ?u @ reads_from (base_of n + off) vs\<rparr>"
  have eff: "effect (\<lambda>c. c\<lparr>bank := bank_of n\<rparr>) s ?t"
    by (rule read_effect [OF reads_from_quiet effect_trans_id(1) [OF set_wait_effect SwitchFlashBank_effect]])
  have "ready t = ready ?t" unfolding vs(2) by (simp add: ready_def timer_set_def)
  then have "touches {} s t"
    using bank_effect_touches [OF eff assms(1)] by (simp add: touches_def vs(2))
  then show ?thesis using vs by auto
qed

lemma call_ProgramFlashSector_ready:
  "ready s \<Longrightarrow> call_ProgramFlashSector env n src s = ProgramFlashSector_MX env n src s"
  by (simp add: call_ProgramFlashSector_def ready_def)

lemma sector_holds_cells:
  "sector_holds n src m c \<Longrightarrow> cells c' = cells c \<Longrightarrow> sector_holds n src m c'"
  by (simp add: sector_holds_def)

text \<open>A program byte's region, as a set of one cell.\<close>

lemma ProgramFlashByte_MX_touches:
  assumes "ready s" "ProgramFlashByte_MX env n off d s = Some (r, t)"
  shows "touches {(bank_of n, base_of n + off)} s t"
proof (cases "off \<ge> 4096")
  case True
  then show ?thesis
    using ProgramFlashByte_MX_effect [OF assms] touches_mono [OF touches_refl [OF assms(1)]] by auto
next
  case False
  then have "effect (program_byte (base_of n + off) d \<circ> (\<lambda>c. c\<lparr>bank := bank_of n\<rparr>)) s t"
    using ProgramFlashByte_MX_effect [OF assms] by simp
  then show ?thesis
    by (rule effect_touches [OF _ assms(1)]) (auto simp: program_byte_def)
qed

interpretation erase: flash_operation "EraseFlashSector_MX env n" "sector_cells n" for env n
  by unfold_locales (rule EraseFlashSector_MX_touches)

interpretation program: flash_operation "ProgramFlashSector_MX env n src" "sector_cells n" for env n src
  by unfold_locales (rule ProgramFlashSector_MX_touches(1))

interpretation program_byte: flash_operation "ProgramFlashByte_MX env n off d"
    "{(bank_of n, base_of n + off)}" for env n off d
  by unfold_locales (rule ProgramFlashByte_MX_touches)

interpretation erase_all: flash_operation "EraseFlashChip_MX env" UNIV for env
  by unfold_locales (rule effect_touches [OF EraseFlashChip_MX_effect], auto)

interpretation read: flash_operation "\<lambda>s. map_option (Pair ()) (ReadFlash env n off dest sz s)" "{}"
    for env n off dest sz
  by unfold_locales (use ReadFlash_spec in blast)

interpretation sector_write: write_verify "call_ProgramFlashSector env n src" "sector_cells n"
    "VerifyFlashSector env n src" "sector_holds n src" for env n src
  by unfold_locales
    (use ProgramFlashSector_MX_touches VerifyFlashSector_spec sector_holds_cells
      in \<open>auto simp: call_ProgramFlashSector_ready\<close>)

interpretation sector_write_n: write_verify "call_ProgramFlashSector env n src" "sector_cells n"
    "VerifyFlashSectorNBytes env n src len" "sector_holds n src" for env n src len
  by unfold_locales
    (use ProgramFlashSector_MX_touches VerifyFlashSectorNBytes_spec sector_holds_cells
      in \<open>auto simp: call_ProgramFlashSector_ready\<close>)

interpretation wv: flash_operation "ProgramFlashSectorAndVerify env n src" "sector_cells n" for env n src
  by unfold_locales
    (auto simp: ProgramFlashSectorAndVerify_def intro: sector_write.loop_touches
      touches_mono [OF touches_refl])

interpretation wvn: flash_operation "ProgramFlashSectorAndVerifyNBytes env n src len" "sector_cells n"
    for env n src len
  by unfold_locales
    (auto simp: ProgramFlashSectorAndVerifyNBytes_def intro: sector_write_n.loop_touches
      touches_mono [OF touches_refl])

section \<open>Sequences of calls\<close>

datatype flash_call =
    CallEraseChip
  | CallErase u16
  | CallProgram u16 u32
  | CallProgramByte u16 u32 u8
  | CallRead u16 u32 u32 u32
  | CallVerify u16 u32
  | CallVerifyN u16 u32 u32
  | CallWrite u16 u32
  | CallWriteN u16 u32 u32

fun do_call :: "flash_env \<Rightarrow> flash_call \<Rightarrow> flash_state \<Rightarrow> flash_state option" where
  "do_call env CallEraseChip s = map_option snd (EraseFlashChip_MX env s)"
| "do_call env (CallErase n) s = map_option snd (EraseFlashSector_MX env n s)"
| "do_call env (CallProgram n src) s = map_option snd (ProgramFlashSector_MX env n src s)"
| "do_call env (CallProgramByte n off d) s = map_option snd (ProgramFlashByte_MX env n off d s)"
| "do_call env (CallRead n off dest sz) s = ReadFlash env n off dest sz s"
| "do_call env (CallVerify n src) s = map_option snd (VerifyFlashSector env n src s)"
| "do_call env (CallVerifyN n src len) s = map_option snd (VerifyFlashSectorNBytes env n src len s)"
| "do_call env (CallWrite n src) s = map_option snd (ProgramFlashSectorAndVerify env n src s)"
| "do_call env (CallWriteN n src len) s = map_option snd (ProgramFlashSectorAndVerifyNBytes env n src len s)"

fun call_region :: "flash_call \<Rightarrow> (u8 \<times> u32) set" where
  "call_region CallEraseChip = UNIV"
| "call_region (CallErase n) = sector_cells n"
| "call_region (CallProgram n src) = sector_cells n"
| "call_region (CallProgramByte n off d) = {(bank_of n, base_of n + off)}"
| "call_region (CallWrite n src) = sector_cells n"
| "call_region (CallWriteN n src len) = sector_cells n"
| "call_region _ = {}"

fun do_calls :: "flash_env \<Rightarrow> flash_call list \<Rightarrow> flash_state \<Rightarrow> flash_state option" where
  "do_calls env [] s = Some s"
| "do_calls env (c # cs) s = Option.bind (do_call env c s) (do_calls env cs)"

lemma do_call_touches: "ready s \<Longrightarrow> do_call env c s = Some t \<Longrightarrow> touches (call_region c) s t"
  using erase_all.op_touches erase.op_touches program.op_touches program_byte.op_touches
    read.op_touches wv.op_touches wvn.op_touches VerifyFlashSector_spec VerifyFlashSectorNBytes_spec
  by (cases c) (auto simp: ReadFlash_spec)

lemma do_calls_touches:
  "ready s \<Longrightarrow> do_calls env cs s = Some t \<Longrightarrow> touches (\<Union> (call_region ` set cs)) s t"
proof (induction cs arbitrary: s)
  case Nil
  then show ?case using touches_refl by simp
next
  case (Cons c cs)
  then obtain u where u: "do_call env c s = Some u" "do_calls env cs u = Some t"
    by (auto simp: bind_eq_Some_conv)
  have su: "touches (call_region c) s u" by (rule do_call_touches [OF Cons.prems(1) u(1)])
  then have "ready u" by (simp add: touches_def)
  then have "touches (\<Union> (call_region ` set cs)) u t" by (rule Cons.IH [OF _ u(2)])
  from touches_trans [OF su this] show ?case by simp
qed

end
