(* ===== verification/FlashCorrect.thy ===== *)
theory FlashCorrect
  imports FlashProtocol
begin

text \<open>
  The guarantees of the flash driver to its callers: a write that reports success is in the
  memory array and nothing else changed, every call returns because the timer bounds it,
  interrupts are left as they were found, verification reports the first difference, and
  identification selects the right description of the chip.
\<close>

unbundle bit_operations_syntax

section \<open>Every operation returns\<close>

text \<open>
  The code copies fit their buffers: what the operations need of the build to return. Of the hardware they need that the timer
  fires (\<open>timer_ticks\<close>).
\<close>

definition code_fits :: "flash_env \<Rightarrow> bool" where
  "code_fits env \<longleftrightarrow> length (code_ReadFlash1 env) \<le> 0x20 \<and> length (code_ReadFlash_Core env) \<le> 0x40
     \<and> length (code_VerifyFlashSector_Core env) \<le> 0x80"

lemma copy_code_some:
  "length code \<le> length buf \<Longrightarrow>
   \<exists>r. copy_code code buf = Some r \<and> length r = length buf \<and> take (length code) r = code"
proof (induction code buf rule: copy_code.induct)
  case (3 c cs b buf)
  then obtain r where "copy_code cs buf = Some r" "length r = length buf" "take (length cs) r = cs" by auto
  then show ?case by simp
qed simp_all

lemma copy_code_none: "length buf < length code \<Longrightarrow> copy_code code buf = None"
  by (induction code buf rule: copy_code.induct) simp_all

lemma SetReadFlash1_some:
  assumes "code_fits env" "ready s"
  shows "\<exists>t. SetReadFlash1 env (local_buffer 0x20) s = Some t \<and> poll_ready env t \<and> ready t
    \<and> bus t = bus s \<and> ram t = ram s \<and> io t = io s"
proof -
  obtain r where "copy_code (code_ReadFlash1 env) (local_buffer 0x20) = Some r"
      "take (length (code_ReadFlash1 env)) r = code_ReadFlash1 env"
    using copy_code_some [of "code_ReadFlash1 env" "local_buffer 0x20"] assms(1)
    by (auto simp: code_fits_def local_buffer_def)
  then show ?thesis
    using assms(2) by (simp add: SetReadFlash1_def poll_ready_def ready_def timer_set_def)
qed

lemma call_WaitForFlashWrite_some:
  assumes "timer_ticks env" "ready s" "phase < 4" "poll_ready env s"
  shows "\<exists>r t. call_WaitForFlashWrite env phase addr d s = Some (r, t) \<and> ready t \<and> poll_ready env t"
proof -
  obtain r t where t: "call_WaitForFlashWrite env phase addr d s = Some (r, t)"
    using WaitForFlashWrite_Common_some [of env s phase addr d] assms
    by (auto simp: timer_ticks_def call_WaitForFlashWrite_def ready_def)
  obtain es where "ext es s t" "PollFlashStatus t = PollFlashStatus s"
    using call_WaitForFlashWrite_ext [OF t] by blast
  then show ?thesis
    using t ext_ready assms(2,4) by (auto simp: poll_ready_def)
qed

lemma ready_writes [simp]:
  "ready (FLASH_WRITE off v s) = ready s" "ready (flash_poke a v s) = ready s"
  "ready (set_wait w s) = ready s" "ready (SwitchFlashBank b s) = ready s" "ready (leave_scope s) = ready s"
  "ready (s\<lparr>gFlashNumRemainingBytes := k\<rparr>) = ready s"
  "poll_ready env (FLASH_WRITE off v s) = poll_ready env s"
  "poll_ready env (flash_poke a v s) = poll_ready env s"
  "poll_ready env (set_wait w s) = poll_ready env s"
  "poll_ready env (s\<lparr>gFlashNumRemainingBytes := k\<rparr>) = poll_ready env s"
  by (simp_all add: io_defs ready_def timer_set_def set_wait_def SwitchFlashBank_def Let_def
      leave_scope_def poll_ready_def)

lemma ProgramByte_some:
  assumes "timer_ticks env" "ready s" "poll_ready env s"
  shows "\<exists>r t. ProgramByte env src dest s = Some (r, t) \<and> ready t \<and> poll_ready env t"
  unfolding ProgramByte_def Let_def
  by (rule call_WaitForFlashWrite_some [OF assms(1)]) (simp_all add: assms)

lemma program_loop_some:
  assumes "timer_ticks env"
  shows "ready s \<Longrightarrow> poll_ready env s \<Longrightarrow> \<exists>r t. program_loop env n src dest s = Some (r, t)"
proof (induction n arbitrary: src dest s)
  case (Suc n)
  obtain r t where t: "ProgramByte env src dest s = Some (r, t)" "ready t" "poll_ready env t"
    using ProgramByte_some [OF assms Suc.prems] by blast
  then show ?case
    using Suc.IH [of "t\<lparr>gFlashNumRemainingBytes := gFlashNumRemainingBytes t - 1\<rparr>" "src + 1" "dest + 1"]
    by simp
qed simp

lemma try_erase_some:
  assumes "timer_ticks env" "code_fits env"
  shows "ready s \<Longrightarrow> \<exists>r t. try_erase env ft n k s = Some (r, t) \<and> ready t"
proof (induction "4 - unat k" arbitrary: k s rule: less_induct)
  case less
  define u where "u = flash_poke (sector_addr ft n) 0x30 (FLASH_WRITE 0x2AAA 0x55 (FLASH_WRITE 0x5555 0xAA
       (FLASH_WRITE 0x5555 0x80 (FLASH_WRITE 0x2AAA 0x55 (FLASH_WRITE 0x5555 0xAA (set_wait (wait0 ft) s))))))"
  have "ready u" using less.prems by (simp add: u_def)
  then obtain v where v: "SetReadFlash1 env (local_buffer 0x20) u = Some v" "poll_ready env v" "ready v"
    using SetReadFlash1_some [OF assms(2)] by blast
  obtain r w where w: "call_WaitForFlashWrite env 2 (sector_addr ft n) 0xFF v = Some (r, w)" "ready w"
    using call_WaitForFlashWrite_some [OF assms(1) v(3) _ v(2), where phase = 2
        and addr = "sector_addr ft n" and d = "0xFF"]
    by auto
  have eq: "try_erase env ft n k s =
      (if r AND 0xA000 = 0 \<or> k > 3 then Some (r, w) else try_erase env ft n (k + 1) w)"
    by (subst try_erase.simps) (use v w in \<open>simp add: u_def Let_def\<close>)
  show ?case
  proof (cases "k > 3")
    case False
    then have "unat (k + 1) = unat k + 1" "unat k \<le> 3"
      by (simp_all add: not_less word_le_nat_alt unat_word_ariths)
    then have "\<exists>r t. try_erase env ft n (k + 1) w = Some (r, t) \<and> ready t"
      by (intro less.hyps w) simp
    then show ?thesis using eq w by simp
  qed (use eq w in simp)
qed

lemma EraseFlashSector_MX_some:
  assumes "timer_ticks env" "code_fits env" "ready s"
  shows "\<exists>r t. EraseFlashSector_MX env n s = Some (r, t) \<and> ready t"
proof -
  obtain ft where ft: "gFlash s = Some ft" using ready_gFlash [OF assms(3)] by blast
  obtain r t where "try_erase env ft (n mod SECTORS_PER_BANK) 0
      (SwitchFlashBank (ucast (n div SECTORS_PER_BANK)) s) = Some (r, t)" "ready t"
    using try_erase_some [OF assms(1,2), of "SwitchFlashBank (ucast (n div SECTORS_PER_BANK)) s"] assms(3)
    by fastforce
  then show ?thesis
    using ft assms(3) by (simp add: EraseFlashSector_MX_def Let_def)
qed

lemma ProgramFlashSector_MX_some:
  assumes "timer_ticks env" "code_fits env" "ready s"
  shows "\<exists>r t. ProgramFlashSector_MX env n src s = Some (r, t)"
proof -
  obtain ft where ft: "gFlash s = Some ft" using ready_gFlash [OF assms(3)] by blast
  obtain q u where u: "EraseFlashSector_MX env n s = Some (q, u)" "ready u"
    using EraseFlashSector_MX_some [OF assms] by blast
  obtain v where v: "SetReadFlash1 env (local_buffer 0x20)
      (SwitchFlashBank (ucast (n div SECTORS_PER_BANK)) u) = Some v" "poll_ready env v" "ready v"
    using SetReadFlash1_some [OF assms(2), of "SwitchFlashBank (ucast (n div SECTORS_PER_BANK)) u"] u(2)
    by auto
  let ?v = "(set_wait (wait0 ft) v)\<lparr>gFlashNumRemainingBytes := ucast (sec_size (sector ft))\<rparr>"
  obtain r t where "program_loop env (unat (gFlashNumRemainingBytes ?v)) src
      (sector_addr ft (n mod SECTORS_PER_BANK)) ?v = Some (r, t)"
    using program_loop_some [OF assms(1), of ?v] v by fastforce
  then show ?thesis
    using ft u v by (simp add: ProgramFlashSector_MX_def Let_def)
qed

lemma ProgramFlashByte_MX_some:
  assumes "timer_ticks env" "code_fits env" "ready s"
  shows "\<exists>r t. ProgramFlashByte_MX env n off d s = Some (r, t)"
proof -
  obtain ft where ft: "gFlash s = Some ft" using ready_gFlash [OF assms(3)] by blast
  obtain v where v: "SetReadFlash1 env (local_buffer 0x20)
      (SwitchFlashBank (ucast (n div SECTORS_PER_BANK)) s) = Some v" "poll_ready env v" "ready v"
    using SetReadFlash1_some [OF assms(2), of "SwitchFlashBank (ucast (n div SECTORS_PER_BANK)) s"] assms(3)
    by auto
  let ?a = "sector_addr ft (n mod SECTORS_PER_BANK) + off"
  obtain r t where "call_WaitForFlashWrite env 1 ?a d (flash_poke ?a d (FLASH_WRITE 0x5555 0xA0
       (FLASH_WRITE 0x2AAA 0x55 (FLASH_WRITE 0x5555 0xAA (set_wait (wait0 ft) v))))) = Some (r, t)"
    using call_WaitForFlashWrite_some [OF assms(1), of "flash_poke ?a d (FLASH_WRITE 0x5555 0xA0
       (FLASH_WRITE 0x2AAA 0x55 (FLASH_WRITE 0x5555 0xAA (set_wait (wait0 ft) v))))" 1 ?a d] v
    by auto
  then show ?thesis using ft v by (simp add: ProgramFlashByte_MX_def Let_def)
qed

lemma EraseFlashChip_MX_some:
  assumes "timer_ticks env" "code_fits env" "ready s"
  shows "\<exists>r t. EraseFlashChip_MX env s = Some (r, t)"
proof -
  obtain ft where ft: "gFlash s = Some ft" using ready_gFlash [OF assms(3)] by blast
  define u where "u = FLASH_WRITE 0x5555 0x10 (FLASH_WRITE 0x2AAA 0x55 (FLASH_WRITE 0x5555 0xAA
       (FLASH_WRITE 0x5555 0x80 (FLASH_WRITE 0x2AAA 0x55 (FLASH_WRITE 0x5555 0xAA (set_wait (wait0 ft) s))))))"
  have "ready u" using assms(3) by (simp add: u_def)
  then obtain v where v: "SetReadFlash1 env (local_buffer 0x20) u = Some v" "poll_ready env v" "ready v"
    using SetReadFlash1_some [OF assms(2)] by blast
  then obtain r t where "call_WaitForFlashWrite env 3 FLASH_BASE 0xFF v = Some (r, t)"
    using call_WaitForFlashWrite_some [OF assms(1), of v 3 FLASH_BASE "0xFF"] by auto
  then show ?thesis using ft v(1) by (simp add: EraseFlashChip_MX_def Let_def u_def)
qed

lemma core_copies_some:
  "code_fits env \<Longrightarrow> \<exists>r. copy_code (code_ReadFlash_Core env) (local_buffer 0x40) = Some r"
  "code_fits env \<Longrightarrow> \<exists>r. copy_code (code_VerifyFlashSector_Core env) (local_buffer 0x80) = Some r"
  using copy_code_some [of "code_ReadFlash_Core env" "local_buffer 0x40"]
    copy_code_some [of "code_VerifyFlashSector_Core env" "local_buffer 0x80"]
  by (auto simp: code_fits_def local_buffer_def)

lemma reading_some:
  assumes "code_fits env" "ready s"
  shows "\<exists>t. ReadFlash env n off dest sz s = Some t"
    "\<exists>r. VerifyFlashSector env n src s = Some r" "\<exists>r. VerifyFlashSectorNBytes env n src len s = Some r"
  using core_copies_some [OF assms(1)] ready_gFlash [OF assms(2)]
  by (auto simp: ReadFlash_def VerifyFlashSector_def VerifyFlashSectorNBytes_def select_sector_ready Let_def)

lemma write_verify_loop_some:
  assumes "\<And>s. ready s \<Longrightarrow> \<exists>r t. prog s = Some (r, t) \<and> ready t"
    and "\<And>s. ready s \<Longrightarrow> \<exists>r t. verify s = Some (r, t) \<and> ready t"
  shows "ready s \<Longrightarrow> \<exists>r t. write_verify_loop prog verify n res s = Some (r, t)"
proof (induction n arbitrary: res s)
  case (Suc n)
  obtain r t where t: "prog s = Some (r, t)" "ready t" using assms(1) [OF Suc.prems] by blast
  moreover obtain q u where u: "verify t = Some (q, u)" "ready u" using assms(2) [OF t(2)] by blast
  ultimately show ?case using Suc.IH by simp
qed simp

lemma write_some:
  assumes "timer_ticks env" "code_fits env" "ready s"
  shows "\<exists>r t. ProgramFlashSectorAndVerify env n src s = Some (r, t)"
    "\<exists>r t. ProgramFlashSectorAndVerifyNBytes env n src len s = Some (r, t)"
proof -
  have prog: "\<exists>r t. call_ProgramFlashSector env n src s = Some (r, t) \<and> ready t" if "ready s" for s
    using ProgramFlashSector_MX_some [OF assms(1,2) that, of n src] program.op_ready that
    by (auto simp: call_ProgramFlashSector_ready)
  have "\<exists>r t. VerifyFlashSector env n src s = Some (r, t) \<and> ready t"
    "\<exists>r t. VerifyFlashSectorNBytes env n src len s = Some (r, t) \<and> ready t" if "ready s" for s
    using reading_some(2) [OF assms(2) that, of n src] reading_some(3) [OF assms(2) that, of n src len]
      VerifyFlashSector_spec [OF that] VerifyFlashSectorNBytes_spec [OF that]
    by (auto simp: touches_def)
  with prog assms(3) show "\<exists>r t. ProgramFlashSectorAndVerify env n src s = Some (r, t)"
    "\<exists>r t. ProgramFlashSectorAndVerifyNBytes env n src len s = Some (r, t)"
    unfolding ProgramFlashSectorAndVerify_def ProgramFlashSectorAndVerifyNBytes_def
    by (auto intro!: write_verify_loop_some)
qed

lemma do_call_some:
  assumes "timer_ticks env" "code_fits env" "ready s"
  shows "\<exists>t. do_call env c s = Some t"
proof (cases c)
  case CallEraseChip
  then show ?thesis using EraseFlashChip_MX_some [OF assms] by auto
next
  case (CallErase n)
  then show ?thesis using EraseFlashSector_MX_some [OF assms, of n] by auto
next
  case (CallProgram n src)
  then show ?thesis using ProgramFlashSector_MX_some [OF assms, of n src] by auto
next
  case (CallProgramByte n off d)
  then show ?thesis using ProgramFlashByte_MX_some [OF assms, of n off d] by auto
next
  case (CallRead n off dest sz)
  then show ?thesis using reading_some(1) [OF assms(2,3), of n off dest sz] by auto
next
  case (CallVerify n src)
  then show ?thesis using reading_some(2) [OF assms(2,3), of n src] by auto
next
  case (CallVerifyN n src len)
  then show ?thesis using reading_some(3) [OF assms(2,3), of n src len] by auto
next
  case (CallWrite n src)
  then show ?thesis using write_some(1) [OF assms, of n src] by auto
next
  case (CallWriteN n src len)
  then show ?thesis using write_some(2) [OF assms, of n src len] by auto
qed

lemma do_calls_some:
  assumes "timer_ticks env" "code_fits env"
  shows "ready s \<Longrightarrow> \<exists>t. do_calls env cs s = Some t"
proof (induction cs arbitrary: s)
  case (Cons c cs)
  obtain u where u: "do_call env c s = Some u" using do_call_some [OF assms Cons.prems] by blast
  then have "ready u" using do_call_touches [OF Cons.prems] by (simp add: touches_def)
  then show ?case using Cons.IH u by simp
qed simp

section \<open>A chip that works\<close>

text \<open>
  What the data sheets promise of a chip in working order. After the last write of a program or erase command the chip may be busy,
  for as long as \<open>busy\<close> says, but for fewer timer interrupts than the limits of the library. While it is busy a read of the address
  of the command shows the complement of bit 7 of the final byte (data polling) and no time-limit error in bit 5. A chip that is
  not busy returns the byte of the selected bank, and it is not busy after any other write.
\<close>

primrec no_write :: "flash_event \<Rightarrow> bool" where
  "no_write (FlWrite a v) = False"
| "no_write (FlRead a v) = True"
| "no_write FlDelay = True"
| "no_write FlTimerIrq = True"

definition ticks :: "flash_event list \<Rightarrow> nat" where
  "ticks es = count_list es FlTimerIrq"

definition time_limit :: "decode_state \<Rightarrow> nat" where
  "time_limit d = (if d = ExpectProgram then wait_limit 1 else if d = Erase2 then wait_limit 2 else 0)"

definition works :: "flash_env \<Rightarrow> (flash_event list \<Rightarrow> bool) \<Rightarrow> chip_mem \<Rightarrow> bool" where
  "works env busy c0 \<longleftrightarrow>
     (\<forall>h a. dst (chip_run c0 h) = Idle \<and> \<not> busy h \<longrightarrow>
        chip env h a = cells (chip_run c0 h) (bank (chip_run c0 h)) a)
   \<and> (\<forall>h a v es. list_all no_write es \<and> busy (h @ FlWrite a v # es) \<longrightarrow>
        ticks es < time_limit (dst (chip_run c0 h))
        \<and> chip env (h @ FlWrite a v # es) a AND 0x20 = 0
        \<and> bit (chip env (h @ FlWrite a v # es) a) 7
           \<noteq> bit (let c = chip_run c0 (h @ [FlWrite a v]) in cells c (bank c) a) 7)"

lemma works_idle:
  "works env busy c0 \<Longrightarrow> dst (chip_run c0 h) = Idle \<Longrightarrow> \<not> busy h \<Longrightarrow>
   chip env h a = cells (chip_run c0 h) (bank (chip_run c0 h)) a"
  by (simp add: works_def)

lemma works_busy:
  assumes "works env busy c0" "list_all no_write es" "busy (h @ FlWrite a v # es)"
  shows "ticks es < time_limit (dst (chip_run c0 h))" "chip env (h @ FlWrite a v # es) a AND 0x20 = 0"
    "bit (chip env (h @ FlWrite a v # es) a) 7 \<noteq> bit (let c = chip_run c0 (h @ [FlWrite a v]) in cells c (bank c) a) 7"
  using assms unfolding works_def by blast+

lemma no_write_run: "list_all no_write es \<Longrightarrow> chip_run c es = c"
proof (induction es)
  case (Cons e es)
  then show ?case by (cases e) simp_all
qed simp

text \<open>The chip was last written a byte that started no command, such as the number of a bank.\<close>

definition settled :: "chip_mem \<Rightarrow> flash_event list \<Rightarrow> bool" where
  "settled c0 h \<longleftrightarrow> dst (chip_run c0 h) = Idle
     \<and> (\<exists>g a v es. h = g @ FlWrite a v # es \<and> list_all no_write es \<and> dst (chip_run c0 g) \<notin> {ExpectProgram, Erase2})"

lemma settled_read:
  assumes "works env busy c0" "settled c0 h"
  shows "chip env h a = cells (chip_run c0 h) (bank (chip_run c0 h)) a"
proof -
  obtain g b v es where h: "h = g @ FlWrite b v # es" "list_all no_write es" "dst (chip_run c0 g) \<notin> {ExpectProgram, Erase2}"
    using assms(2) by (auto simp: settled_def)
  have "\<not> busy h" using works_busy(1) [OF assms(1) h(2), of g b v] h(1,3) by (auto simp: time_limit_def)
  then show ?thesis using works_idle [OF assms(1)] assms(2) by (simp add: settled_def)
qed

lemma settled_quiet:
  assumes "settled c0 h" "list_all no_write es"
  shows "settled c0 (h @ es)"
proof -
  obtain g a v fs where "h = g @ FlWrite a v # fs" "list_all no_write fs" "dst (chip_run c0 g) \<notin> {ExpectProgram, Erase2}"
    using assms(1) by (auto simp: settled_def)
  then show ?thesis
    using assms unfolding settled_def
    by (intro conjI exI [of _ g] exI [of _ a] exI [of _ v] exI [of _ "fs @ es"]) (simp_all add: no_write_run)
qed

lemma settled_bank:
  assumes "dst (chip_run c0 h) = Idle"
  shows "settled c0 (h @ bank_switch b)"
proof -
  have "h @ bank_switch b = (h @ [FlWrite A5555 0xAA, FlWrite A2AAA 0x55, FlWrite A5555 0xB0]) @ FlWrite FLASH_BASE b # []"
    by (simp add: bank_switch_def)
  moreover have "dst (chip_run c0 (h @ [FlWrite A5555 0xAA, FlWrite A2AAA 0x55, FlWrite A5555 0xB0])) = ExpectBank"
    using assms by (simp add: chip_write_def)
  moreover have "dst (chip_run c0 (h @ bank_switch b)) = Idle"
    using command_bank [OF assms] by (simp add: bank_switch_def assms)
  ultimately show ?thesis
    unfolding settled_def by (metis decode_state.distinct insert_iff empty_iff list.pred_inject(1))
qed

text \<open>
  The wait after such a command ends with success: the polls see a busy chip until the limit can not have passed, and then the
  expected byte.
\<close>

definition in_command ::
  "chip_mem \<Rightarrow> flash_event list \<Rightarrow> u32 \<Rightarrow> u8 \<Rightarrow> flash_state \<Rightarrow> bool" where
  "in_command c0 h a v s \<longleftrightarrow> (\<exists>es. bus s = h @ FlWrite a v # es \<and> list_all no_write es
     \<and> (gFlashTimeoutFlag s \<noteq> 0 \<longrightarrow> time_limit (dst (chip_run c0 h)) \<le> ticks es)
     \<and> time_limit (dst (chip_run c0 h)) \<le> unat (sTimerCount s) + ticks es)"

lemma in_command_next:
  assumes "in_command c0 h a v s"
  shows "in_command c0 h a v (wait_next env a s)"
proof -
  obtain es where es: "bus s = h @ FlWrite a v # es" "list_all no_write es"
      "gFlashTimeoutFlag s \<noteq> 0 \<longrightarrow> time_limit (dst (chip_run c0 h)) \<le> ticks es"
      "time_limit (dst (chip_run c0 h)) \<le> unat (sTimerCount s) + ticks es"
    using assms by (auto simp: in_command_def)
  define n where "n = irqs env (bus s @ [FlRead a (chip env (bus s) a)])"
  let ?fs = "es @ FlRead a (chip env (bus s) a) # replicate n FlTimerIrq"
  have "ticks ?fs = ticks es + n" by (simp add: ticks_def count_list_eq_length_filter)
  moreover have "list_all no_write ?fs" using es(2) by (auto simp: list_all_iff)
  moreover have "bus (wait_next env a s) = h @ FlWrite a v # ?fs"
    using es(1) by (simp add: wait_next_def Let_def after_irqs_count n_def)
  moreover have "unat (sTimerCount (wait_next env a s)) = unat (sTimerCount s) - n"
    "gFlashTimeoutFlag (wait_next env a s) \<noteq> 0 \<Longrightarrow> gFlashTimeoutFlag s \<noteq> 0 \<or> unat (sTimerCount s) \<le> n"
    by (simp_all add: wait_next_def Let_def after_irqs_count n_def split: if_splits)
  ultimately show ?thesis
    unfolding in_command_def using es(3,4) by (intro exI [of _ ?fs] conjI impI) (assumption | fastforce)+
qed

lemma in_command_read:
  assumes w: "works env busy c0" and s: "in_command c0 h a v s" and i: "dst (chip_run c0 (h @ [FlWrite a v])) = Idle"
    and d: "d = (let c = chip_run c0 (h @ [FlWrite a v]) in cells c (bank c) a)"
  shows "chip env (bus s) a = d \<or> (chip env (bus s) a AND 0x20 = 0 \<and> gFlashTimeoutFlag s = 0)"
proof -
  obtain es where es: "bus s = h @ FlWrite a v # es" "list_all no_write es"
      "gFlashTimeoutFlag s \<noteq> 0 \<longrightarrow> time_limit (dst (chip_run c0 h)) \<le> ticks es"
    using s by (auto simp: in_command_def)
  show ?thesis
  proof (cases "busy (bus s)")
    case True
    then show ?thesis using works_busy(1,2) [OF w es(2), of h a v] es by fastforce
  next
    case False
    then show ?thesis
      using works_idle [OF w _ False, of a] i no_write_run [OF es(2)] es(1) by (simp add: d Let_def)
  qed
qed

lemma wait_loop_done:
  assumes w: "works env busy c0" and i: "dst (chip_run c0 (h @ [FlWrite a v])) = Idle"
    and d: "d = (let c = chip_run c0 (h @ [FlWrite a v]) in cells c (bank c) a)"
    and t: "timer_ticks env" "waiting env s" and s: "in_command c0 h a v s"
  shows "\<exists>t. wait_loop env phase a d s = Some (0, t)"
  using t s
proof (induction rule: wait_induct [where addr = a])
  case (step x)
  note nx = in_command_next [OF step(3), of env]
  have "chip env (bus x) a = d \<or> chip env (bus x) a AND 0x20 = 0" using in_command_read [OF w step(3) i d] by blast
  moreover have "gFlashTimeoutFlag (wait_next env a x) \<noteq> 0 \<Longrightarrow> chip env (bus (wait_next env a x)) a = d"
    using in_command_read [OF w nx i d] by blast
  ultimately show ?case
    using step(1) step(2) [OF _ nx] by (subst wait_loop_unfold) (auto simp: waiting_def Let_def)
qed

lemma call_WaitForFlashWrite_done:
  assumes w: "works env busy c0" "timer_ticks env" and s: "ready s" "phase < 4" "poll_ready env s"
    and c: "bus s = h @ [FlWrite a v]" "dst (chip_run c0 (bus s)) = Idle" "time_limit (dst (chip_run c0 h)) \<le> wait_limit phase"
    and d: "d = (let c = chip_run c0 (bus s) in cells c (bank c) a)"
  shows "\<exists>t. call_WaitForFlashWrite env phase a d s = Some (0, t) \<and> poll_ready env t"
proof -
  obtain u where u: "StartFlashTimer phase s = Some u" "started phase s u"
    using StartFlashTimer_ready [OF s(1,2)] by blast
  have "in_command c0 h a v u"
    using u(2) c by (auto simp: in_command_def started_def ext_def ticks_def)
  then obtain t where "wait_loop env phase a d u = Some (0, t)"
    using wait_loop_done [OF w(1) _ _ w(2) started_waiting [OF s(1,3) u(2)]] c d by force
  then have "call_WaitForFlashWrite env phase a d s = Some (0, StopFlashTimer t)"
    using u(1) s(1) by (simp add: call_WaitForFlashWrite_def WaitForFlashWrite_Common_def ready_def)
  then show ?thesis
    using call_WaitForFlashWrite_ext s(3) by (fastforce simp: poll_ready_def)
qed

lemma time_limits: "time_limit d \<le> wait_limit 2" "time_limit ExpectProgram \<le> wait_limit 1"
  by (simp_all add: time_limit_def wait_limit_def)

lemma ProgramByte_done:
  assumes f: "works env busy c0" "timer_ticks env" and s: "ready s" "poll_ready env s" "dst (chip_run c0 (bus s)) = Idle"
    and blank: "cells (chip_run c0 (bus s)) (bank (chip_run c0 (bus s))) dest = 0xFF"
  shows "\<exists>t. ProgramByte env src dest s = Some (0, t) \<and> poll_ready env t"
proof -
  let ?h = "bus s @ [FlWrite A5555 0xAA, FlWrite A2AAA 0x55, FlWrite A5555 0xA0]"
  define u where "u = flash_poke dest (ram s src)
    (FLASH_WRITE 0x5555 0xA0 (FLASH_WRITE 0x2AAA 0x55 (FLASH_WRITE 0x5555 0xAA s)))"
  have run: "chip_run c0 (bus u) = program_byte dest (ram s src) (chip_run c0 (bus s))"
    using effect_run [OF program_writes_effect s(3)] by (simp add: u_def)
  have "bus u = ?h @ [FlWrite dest (ram s src)]" by (simp add: u_def io_defs)
  moreover have "dst (chip_run c0 ?h) = ExpectProgram" using s(3) by (simp add: chip_write_def)
  moreover have "ram s src = (let c = chip_run c0 (bus u) in cells c (bank c) dest)"
    using run blank by (simp add: program_byte_def u8_and_FF Let_def)
  moreover have "ready u" "poll_ready env u" using s(1,2) by (simp_all add: u_def)
  moreover have "dst (chip_run c0 (bus u)) = Idle" using s(3) unfolding run by simp
  ultimately have "\<exists>t. call_WaitForFlashWrite env 1 dest (ram s src) u = Some (0, t) \<and> poll_ready env t"
    using call_WaitForFlashWrite_done [OF f, of u 1 ?h dest "ram s src"] time_limits(2) by simp
  moreover have "ram (FLASH_WRITE a v x) = ram x" "ram (flash_poke a v x) = ram x" for a v x by (simp_all add: io_defs)
  ultimately show ?thesis by (simp add: ProgramByte_def Let_def u_def)
qed

definition blank_from :: "chip_mem \<Rightarrow> u32 \<Rightarrow> nat \<Rightarrow> bool" where
  "blank_from c dest n \<longleftrightarrow> (\<forall>i<n. cells c (bank c) (dest + of_nat i) = 0xFF)"

lemma blank_from_step:
  assumes "blank_from c dest (Suc n)" "Suc n < 2 ^ 32"
  shows "blank_from (program_byte dest d c) (dest + 1) n"
proof -
  have "dest + 1 + of_nat i \<noteq> dest" if "i < n" for i
  proof
    assume "dest + 1 + of_nat i = dest"
    then have "(of_nat (Suc i) :: u32) = 0" by (simp add: add.assoc)
    moreover have "unat (of_nat (Suc i) :: u32) = Suc i"
      using that assms(2) by (simp add: unsigned_of_nat take_bit_nat_eq_self del: of_nat_Suc)
    ultimately show False by simp
  qed
  moreover have "cells c (bank c) (dest + 1 + of_nat i) = 0xFF" if "i < n" for i
    using assms(1) that by (auto simp: blank_from_def add.assoc dest: spec [of _ "Suc i"])
  ultimately show ?thesis by (simp add: blank_from_def program_byte_def)
qed

lemma program_loop_done:
  assumes f: "works env busy c0" "timer_ticks env"
  shows "ready s \<Longrightarrow> poll_ready env s \<Longrightarrow> dst (chip_run c0 (bus s)) = Idle \<Longrightarrow>
    blank_from (chip_run c0 (bus s)) dest n \<Longrightarrow> n < 2 ^ 32 \<Longrightarrow>
    \<exists>t. program_loop env n src dest s = Some (0, t)"
proof (induction n arbitrary: src dest s)
  case (Suc n)
  let ?c = "chip_run c0 (bus s)"
  have "cells ?c (bank ?c) dest = 0xFF"
    using Suc.prems(4) by (auto simp: blank_from_def dest: spec [of _ 0])
  then obtain t where t: "ProgramByte env src dest s = Some (0, t)" "poll_ready env t"
    using ProgramByte_done [OF f Suc.prems(1-3)] by blast
  note eff = ProgramByte_effect(1) [OF t(1)]
  let ?t = "t\<lparr>gFlashNumRemainingBytes := gFlashNumRemainingBytes t - 1\<rparr>"
  have "chip_run c0 (bus ?t) = program_byte dest (ram s src) ?c"
    using effect_run [OF eff Suc.prems(3)] by simp
  then have "\<exists>t'. program_loop env n (src + 1) (dest + 1) ?t = Some (0, t')"
    using Suc.prems t effect_ready [OF eff Suc.prems(1)] blank_from_step [OF Suc.prems(4,5)]
    by (intro Suc.IH) simp_all
  then show ?case using t by simp
qed simp

lemma try_erase_done:
  assumes f: "works env busy c0" "timer_ticks env" and "code_fits env" "ready s" "dst (chip_run c0 (bus s)) = Idle"
  shows "\<exists>t. try_erase env ft n k s = Some (0, t)"
proof -
  let ?a = "sector_addr ft n"
  let ?h = "bus s @ [FlWrite A5555 0xAA, FlWrite A2AAA 0x55, FlWrite A5555 0x80, FlWrite A5555 0xAA, FlWrite A2AAA 0x55]"
  define u where "u = flash_poke ?a 0x30 (FLASH_WRITE 0x2AAA 0x55 (FLASH_WRITE 0x5555 0xAA
       (FLASH_WRITE 0x5555 0x80 (FLASH_WRITE 0x2AAA 0x55 (FLASH_WRITE 0x5555 0xAA (set_wait (wait0 ft) s))))))"
  have "ready u" using assms(4) by (simp add: u_def)
  then obtain v where v: "SetReadFlash1 env (local_buffer 0x20) u = Some v" "poll_ready env v" "ready v"
      "bus v = bus u"
    using SetReadFlash1_some [OF assms(3)] by blast
  have "effect (erase_sector ?a) s u"
    unfolding u_def by (rule effect_trans_id(1) [OF set_wait_effect erase_writes_effect])
  note run = effect_run [OF this assms(5)]
  have "bus v = ?h @ [FlWrite ?a 0x30]" by (simp add: v(4) u_def io_defs set_wait_def)
  moreover have "0xFF = (let c = chip_run c0 (bus v) in cells c (bank c) ?a)"
    unfolding v(4) run by (simp add: erase_sector_def)
  moreover have "dst (chip_run c0 (bus v)) = Idle" unfolding v(4) run using assms(5) by simp
  ultimately obtain w where "call_WaitForFlashWrite env 2 ?a 0xFF v = Some (0, w)"
    using call_WaitForFlashWrite_done [OF f v(3) _ v(2), of 2 ?h ?a "0x30" "0xFF"] time_limits(1) by auto
  then show ?thesis
    by (subst try_erase.simps) (use v(1) in \<open>simp add: u_def Let_def\<close>)
qed

lemma EraseFlashSector_MX_done:
  assumes f: "works env busy c0" "timer_ticks env" and fits: "code_fits env" and s: "ready s" "dst (chip_run c0 (bus s)) = Idle"
    and n: "n < 32"
  shows "\<exists>t. EraseFlashSector_MX env n s = Some (0, t) \<and> ready t
    \<and> chip_run c0 (bus t) = erased n (chip_run c0 (bus s))"
proof -
  obtain ft where ft: "gFlash s = Some ft" "geometry_ok ft" using ready_gFlash [OF s(1)] by blast
  let ?b = "SwitchFlashBank (ucast (n div SECTORS_PER_BANK)) s"
  have "dst (chip_run c0 (bus ?b)) = Idle"
    using effect_run [OF SwitchFlashBank_effect s(2)] s(2) by simp
  then obtain t where "try_erase env ft (n mod SECTORS_PER_BANK) 0 ?b = Some (0, t)"
    using try_erase_done [OF f fits, of ?b] s(1) by fastforce
  then have "\<exists>t. EraseFlashSector_MX env n s = Some (0, t)"
    using ft n by (simp add: EraseFlashSector_MX_def Let_def geometry_ok_def)
  then obtain t where t: "EraseFlashSector_MX env n s = Some (0, t)" ..
  then have eff: "effect (erased n) s t"
    using EraseFlashSector_MX_effect [OF s(1) t] n by (simp split: if_splits)
  show ?thesis using t effect_ready [OF eff s(1)] effect_run [OF eff s(2)] by blast
qed

lemma erased_blank: "blank_from (erased n c) (base_of n) 4096"
proof -
  have "bank (erased n c) = bank_of n" by (simp add: erased_def)
  then show ?thesis by (simp add: blank_from_def erased_cells sector_of_base)
qed

lemma ProgramFlashSector_MX_done:
  assumes f: "works env busy c0" "timer_ticks env" and fits: "code_fits env" and s: "ready s" "dst (chip_run c0 (bus s)) = Idle"
    and n: "n < 32"
  shows "\<exists>t. ProgramFlashSector_MX env n src s = Some (0, t)"
proof -
  obtain ft where ft: "gFlash s = Some ft" "geometry_ok ft" using ready_gFlash [OF s(1)] by blast
  obtain u where u: "EraseFlashSector_MX env n s = Some (0, u)" "ready u"
      "chip_run c0 (bus u) = erased n (chip_run c0 (bus s))"
    using EraseFlashSector_MX_done [OF f fits s n] by blast
  let ?b = "SwitchFlashBank (ucast (n div SECTORS_PER_BANK)) u"
  obtain v where v: "SetReadFlash1 env (local_buffer 0x20) ?b = Some v" "poll_ready env v" "ready v"
      "bus v = bus ?b"
    using SetReadFlash1_some [OF fits, of ?b] u(2) by auto
  let ?v = "(set_wait (wait0 ft) v)\<lparr>gFlashNumRemainingBytes := 4096\<rparr>"
  have idle: "dst (chip_run c0 (bus u)) = Idle" using u(3) s(2) by (simp add: erased_def)
  have "chip_run c0 (bus ?v) = (erased n (chip_run c0 (bus s)))\<lparr>bank := bank_of n\<rparr>"
    using effect_run [OF SwitchFlashBank_effect idle, of "bank_of n"] u(3) v(4) by (simp add: bank_of_def)
  then have run: "chip_run c0 (bus ?v) = erased n (chip_run c0 (bus s))"
    by (simp add: erased_def erase_sector_def)
  have "\<exists>t. program_loop env 4096 src (base_of n) ?v = Some (0, t)"
    by (rule program_loop_done [OF f, of ?v]) (use run erased_blank s(2) v in \<open>simp_all add: erased_def\<close>)
  then show ?thesis
    using ft u(1) v(1) n
    by (auto simp: ProgramFlashSector_MX_def Let_def geometry_addr geometry_ok_def [of ft])
qed

lemma VerifyFlashSector_Core_done:
  assumes f: "works env busy c0"
  shows "settled c0 (bus s) \<Longrightarrow>
    \<forall>i<n. cells (chip_run c0 (bus s)) (bank (chip_run c0 (bus s))) (tgt + of_nat i) = ram s (src + of_nat i) \<Longrightarrow>
    \<exists>t. VerifyFlashSector_Core env src tgt n s = (0, t)"
proof (induction n arbitrary: src tgt s)
  case (Suc n)
  let ?c = "chip_run c0 (bus s)"
  have v: "chip env (bus s) tgt = ram s src"
    using settled_read [OF f Suc.prems(1), of tgt] Suc.prems(2) by (auto dest: spec [of _ 0])
  let ?s = "s\<lparr>bus := bus s @ [FlRead tgt (ram s src)]\<rparr>"
  have "\<forall>i<n. cells ?c (bank ?c) (tgt + 1 + of_nat i) = ram s (src + 1 + of_nat i)"
    using Suc.prems(2) by (auto simp: add.assoc dest: spec [of _ "Suc _"])
  then have "\<exists>t. VerifyFlashSector_Core env (src + 1) (tgt + 1) n ?s = (0, t)"
    using settled_quiet [OF Suc.prems(1), of "[FlRead tgt (ram s src)]"] by (intro Suc.IH) simp_all
  then show ?case by (simp add: ReadFlash1_def Let_def io_defs v)
qed simp

lemma VerifyFlashSector_done:
  assumes f: "works env busy c0" "timer_ticks env" and fits: "code_fits env" and s: "ready s" "dst (chip_run c0 (bus s)) = Idle"
    and h: "sector_holds n src (ram s) (chip_run c0 (bus s))"
  shows "\<exists>t. VerifyFlashSector env n src s = Some (0, t)"
proof -
  obtain ft where ft: "gFlash s = Some ft" "geometry_ok ft" using ready_gFlash [OF s(1)] by blast
  let ?u = "SwitchFlashBank (bank_of n) (set_wait WAITCNT_SRAM_8 s)"
  have "chip_run c0 (bus ?u) = (chip_run c0 (bus s))\<lparr>bank := bank_of n\<rparr>"
    using command_bank [OF s(2)] by (simp add: bank_switch_def)
  then have "\<exists>t. VerifyFlashSector_Core env src (base_of n) 4096 ?u = (0, t)"
    using settled_bank [OF s(2), of "bank_of n"] h
    by (intro VerifyFlashSector_Core_done [OF f(1)]) (simp_all add: sector_holds_def bank_switch_def)
  then show ?thesis
    using ft core_copies_some(2) [OF fits]
    by (auto simp: VerifyFlashSector_def select_sector_ready Let_def geometry_addr geometry_ok_def [of ft])
qed

lemma ProgramFlashSectorAndVerify_done:
  assumes f: "works env busy c0" "timer_ticks env" and fits: "code_fits env" and s: "ready s" "dst (chip_run c0 (bus s)) = Idle"
    and n: "n < 32"
  shows "\<exists>t. ProgramFlashSectorAndVerify env n src s = Some (0, t)"
proof -
  obtain u where u: "ProgramFlashSector_MX env n src s = Some (0, u)"
    using ProgramFlashSector_MX_done [OF f fits s n] by blast
  have tu: "ready u" "dst (chip_run c0 (bus u)) = Idle"
    using ProgramFlashSector_MX_touches(1) [OF s(1) u] s(2) by (auto simp: touches_def within_def)
  have "sector_holds n src (ram u) (chip_run c0 (bus u))"
    using ProgramFlashSector_MX_touches(2,3) [OF s(1) u] s(2) by simp
  from VerifyFlashSector_done [OF f fits tu this] u show ?thesis
    by (auto simp: ProgramFlashSectorAndVerify_def call_ProgramFlashSector_ready [OF s(1)] numeral_3_eq_3)
qed

lemma reads_no_write: "list_all no_write (reads_from a vs)"
  by (simp add: reads_from_def list_all_iff)

lemma ReadFlash_done:
  assumes f: "works env busy c0" and s: "ready s" "dst (chip_run c0 (bus s)) = Idle"
    and r: "ReadFlash env n off dest sz s = Some t" and i: "i < unat sz"
  shows "ram t (dest + of_nat i) = cells (chip_run c0 (bus s)) (bank_of n) (base_of n + off + of_nat i)"
proof -
  obtain vs where vs: "length vs = unat sz" "ram t = stored dest vs (ram s)"
      "vs ! i = chip env (bus s @ bank_switch (bank_of n) @ reads_from (base_of n + off) (take i vs))
        (base_of n + off + of_nat i)"
    using ReadFlash_spec [OF s(1) r] i by blast
  have run: "chip_run c0 (bus s @ bank_switch (bank_of n) @ reads_from (base_of n + off) (take i vs))
      = (chip_run c0 (bus s))\<lparr>bank := bank_of n\<rparr>"
    using command_bank [OF s(2)] quiet_run [OF reads_from_quiet] s(2) by (simp add: bank_switch_def)
  have "unat (of_nat i :: u32) = i"
    using i unsigned_less [of sz, where ?'a = nat] by (simp add: unsigned_of_nat take_bit_nat_eq_self)
  then show ?thesis
    using vs i settled_read [OF f settled_quiet [OF settled_bank [OF s(2)]], of "reads_from (base_of n + off) (take i vs)"] run
    by (simp add: stored_def reads_no_write)
qed

section \<open>Identification\<close>

definition id_history :: "flash_state \<Rightarrow> flash_event list" where
  "id_history s = bus s @ [FlWrite A5555 0xAA, FlWrite A2AAA 0x55, FlWrite A5555 0x90, FlDelay]"

text \<open>The two bytes the chip answers with in identification mode.\<close>

definition device_read :: "flash_env \<Rightarrow> flash_state \<Rightarrow> u8" where
  "device_read env s = chip env (id_history s) (FLASH_BASE + 1)"

definition maker_read :: "flash_env \<Rightarrow> flash_state \<Rightarrow> u8" where
  "maker_read env s = chip env (id_history s @ [FlRead (FLASH_BASE + 1) (device_read env s)]) FLASH_BASE"

definition id_exchange :: "flash_env \<Rightarrow> flash_state \<Rightarrow> flash_event list" where
  "id_exchange env s = [FlWrite A5555 0xAA, FlWrite A2AAA 0x55, FlWrite A5555 0x90, FlDelay,
     FlRead (FLASH_BASE + 1) (device_read env s), FlRead FLASH_BASE (maker_read env s),
     FlWrite A5555 0xAA, FlWrite A2AAA 0x55, FlWrite A5555 0xF0, FlWrite A5555 0xF0, FlDelay]"

lemma ReadFlashId_some:
  assumes "code_fits env"
  shows "ReadFlashId env s = Some (push_bit 8 (ucast (device_read env s)) OR ucast (maker_read env s),
     s\<lparr>bus := bus s @ id_exchange env s, PollFlashStatus := None\<rparr>)"
proof -
  obtain r where "copy_code (code_ReadFlash1 env) (local_buffer 0x20) = Some r"
    using copy_code_some [of "code_ReadFlash1 env" "local_buffer 0x20"] assms
    by (auto simp: code_fits_def local_buffer_def)
  then show ?thesis
    by (simp add: ReadFlashId_def SetReadFlash1_def Let_def io_defs DELAY_def ReadFlash1_def
        leave_scope_def id_exchange_def device_read_def maker_read_def id_history_def)
qed

definition setup_for :: "u8 \<Rightarrow> u8 \<Rightarrow> FlashSetupInfo" where
  "setup_for maker device =
     (if maker = 0xC2 \<and> device = 0x09 then MX29L010
      else if maker = 0x62 \<and> device = 0x13 then LE26FV10N1TS else DefaultFlash)"

lemma find_setup_for:
  "find_setup (push_bit 8 (ucast device) OR ucast maker) sSetupInfos =
     Some (if setup_for maker device = DefaultFlash then 1 else 0, setup_for maker device)"
proof -
  have "MX29L010 \<noteq> DefaultFlash" "LE26FV10N1TS \<noteq> DefaultFlash"
    by (simp_all add: MX29L010_def LE26FV10N1TS_def DefaultFlash_def)
  moreover have "makerId (flashType MX29L010) = 0xC2" "deviceId (flashType MX29L010) = 0x09"
    "makerId (flashType LE26FV10N1TS) = 0x62" "deviceId (flashType LE26FV10N1TS) = 0x13"
    "makerId (flashType DefaultFlash) = 0"
    by (simp_all add: MX29L010_def LE26FV10N1TS_def DefaultFlash_def)
  moreover have "(push_bit 8 (ucast device) OR ucast maker :: u16) = joined_id ft
      \<longleftrightarrow> device = deviceId ft \<and> maker = makerId ft" for ft
    by (simp add: joined_id_def join_bytes)
  ultimately show ?thesis
    by (auto simp: sSetupInfos_def setup_for_def)
qed

lemma setup_functions:
  "x \<in> set sSetupInfos \<Longrightarrow> programFlashSector x = ProgramFlashSector_MX_fn
     \<and> waitForFlashWrite x = WaitForFlashWrite_Common_fn"
  by (auto simp: sSetupInfos_def MX29L010_def LE26FV10N1TS_def DefaultFlash_def)

lemma setup_for_mem: "setup_for maker device \<in> set sSetupInfos"
  by (simp add: setup_for_def sSetupInfos_def)

lemma base_of_unat: "unat (base_of n) = 0xE000000 + 4096 * (unat n mod 16)"
proof -
  have "unat (n mod 16) = unat n mod 16" by (simp add: unat_mod)
  then have "(ucast (n mod 16) :: u32) = of_nat (unat n mod 16)" by (metis of_nat_unat)
  then have "base_of n = of_nat (0xE000000 + 4096 * (unat n mod 16))"
    by (simp add: base_of_def FLASH_BASE_def SECTORS_PER_BANK_def push_bit_eq_mult mult.commute)
  moreover have "0xE000000 + 4096 * (unat n mod 16) < 2 ^ 32" by simp
  ultimately show ?thesis by (simp add: unsigned_of_nat take_bit_nat_eq_self del: of_nat_add of_nat_mult)
qed

lemma sector_address_nonzero: "k < 4096 \<Longrightarrow> base_of n + of_nat k \<noteq> 0"
  using sector_of_base [of k n] base_of_unat [of n] by (auto simp: sector_of_def)

lemma compared_zero:
  "compared src (base_of n) 4096 m es 0 \<longleftrightarrow> es = matching_reads src (base_of n) m 4096"
  using sector_address_nonzero by (auto simp: compared_def dest: sym)

section \<open>Attempts to erase\<close>

text \<open>
  The accesses of a sector erase as a list of attempts, each with its result \<open>r\<close> and what was on the bus while the driver waited:
  the next attempt is made only after one with an error bit in its result, and after the fifth there is none.
\<close>

definition erase_command :: "u32 \<Rightarrow> flash_event list" where
  "erase_command a = [FlWrite A5555 0xAA, FlWrite A2AAA 0x55, FlWrite A5555 0x80,
        FlWrite A5555 0xAA, FlWrite A2AAA 0x55, FlWrite a 0x30]"

fun attempts :: "u32 \<Rightarrow> nat \<Rightarrow> (u16 \<times> flash_event list) list \<Rightarrow> u16 \<Rightarrow> bool" where
  "attempts a k [] r = False"
| "attempts a k ((q, xs) # rest) r \<longleftrightarrow> quiet xs \<and> wait_result 2 a 0xFF xs q
     \<and> (if rest = [] then r = q \<and> (q AND 0xA000 = 0 \<or> k \<le> 1) else q AND 0xA000 \<noteq> 0 \<and> 1 < k \<and> attempts a (k - 1) rest r)"

definition attempt_events :: "u32 \<Rightarrow> (u16 \<times> flash_event list) list \<Rightarrow> flash_event list" where
  "attempt_events a as = concat (map (\<lambda>(r, xs). erase_command a @ xs) as)"

lemma attempts_length: "attempts a k as r \<Longrightarrow> 0 < k \<Longrightarrow> 0 < length as \<and> length as \<le> k"
proof (induction a k as r rule: attempts.induct)
  case (2 a k q xs rest r)
  then show ?case by (cases "rest = []") (auto split: if_splits)
qed simp

lemma try_erase_attempts:
  assumes "timer_ticks env" "code_fits env"
  shows "ready s \<Longrightarrow> k \<le> 4 \<Longrightarrow> \<exists>r t as. try_erase env ft n k s = Some (r, t)
    \<and> bus t = bus s @ attempt_events (sector_addr ft n) as \<and> attempts (sector_addr ft n) (5 - unat k) as r"
proof (induction "4 - unat k" arbitrary: k s rule: less_induct)
  case less
  let ?a = "sector_addr ft n"
  define u where "u = flash_poke ?a 0x30 (FLASH_WRITE 0x2AAA 0x55 (FLASH_WRITE 0x5555 0xAA
       (FLASH_WRITE 0x5555 0x80 (FLASH_WRITE 0x2AAA 0x55 (FLASH_WRITE 0x5555 0xAA (set_wait (wait0 ft) s))))))"
  have u: "ready u" using less.prems by (simp add: u_def)
  have ub: "bus u = bus s @ erase_command ?a" by (simp add: u_def erase_command_def io_defs)
  obtain v where v: "SetReadFlash1 env (local_buffer 0x20) u = Some v" "poll_ready env v" "ready v"
      "bus v = bus u"
    using SetReadFlash1_some [OF assms(2) u] by blast
  obtain r w where w: "call_WaitForFlashWrite env 2 ?a 0xFF v = Some (r, w)" "ready w"
    using call_WaitForFlashWrite_some [OF assms(1) v(3) _ v(2), where phase = 2
        and addr = "sector_addr ft n" and d = "0xFF"] by auto
  obtain xs where xs: "quiet xs" "bus w = bus v @ xs" "wait_result 2 ?a 0xFF xs r"
    using call_WaitForFlashWrite_ext [OF w(1)] by (auto simp: ext_def)
  have eq: "try_erase env ft n k s =
      (if r AND 0xA000 = 0 \<or> k > 3 then Some (r, w) else try_erase env ft n (k + 1) w)"
    by (subst try_erase.simps) (use v w in \<open>simp add: u_def Let_def\<close>)
  show ?case
  proof (cases "r AND 0xA000 = 0 \<or> k > 3")
    case True
    have "k > 3 \<Longrightarrow> unat k = 4" using less.prems(2) by (simp add: word_less_nat_alt word_le_nat_alt)
    with True show ?thesis
      using eq xs ub v(4) by (intro exI [of _ r] exI [of _ w] exI [of _ "[(r, xs)]"]) (auto simp: attempt_events_def)
  next
    case False
    then have k: "unat (k + 1) = unat k + 1" "unat k \<le> 3" "k + 1 \<le> 4"
      by (simp_all add: not_less word_le_nat_alt unat_word_ariths)
    then have "4 - unat (k + 1) < 4 - unat k" by linarith
    from less.hyps [OF this w(2) k(3)] obtain r' t as where t: "try_erase env ft n (k + 1) w = Some (r', t)"
        "bus t = bus w @ attempt_events ?a as" "attempts ?a (5 - unat (k + 1)) as r'"
      by blast
    then have "as \<noteq> []" by (auto split: list.splits)
    with False k t show ?thesis
      using eq xs ub v(4)
      by (intro exI [of _ r'] exI [of _ t] exI [of _ "(r, xs) # as"]) (auto simp: attempt_events_def)
  qed
qed

lemma bank_of_unat: "n < 32 \<Longrightarrow> unat (bank_of n) = unat n div 16"
  by (simp add: bank_of_def SECTORS_PER_BANK_def unsigned_ucast_eq take_bit_nat_eq_self unat_div
      word_less_nat_alt)

section \<open>Guarantees\<close>

text \<open>A set-up driver and a chip that reads back what it holds, for the concrete instances.\<close>

definition sample_chip :: chip_mem where
  "sample_chip = \<lparr>dst = Idle, bank = 0, cells = (\<lambda>_ _. 0x5A)\<rparr>"

text \<open>A chip that is busy for the first three accesses after each command, and a timer that fires after every third access.\<close>

fun after_write :: "chip_mem \<Rightarrow> flash_event list \<Rightarrow> decode_state \<times> nat" where
  "after_write c [] = (Idle, 0)"
| "after_write c (FlWrite a v # rest) = (dst (chip_run c (rev rest)), 0)"
| "after_write c (e # rest) = (let (d, n) = after_write c rest in (d, Suc n))"

definition sample_busy :: "flash_event list \<Rightarrow> bool" where
  "sample_busy h = (let (d, n) = after_write sample_chip (rev h) in (d = ExpectProgram \<or> d = Erase2) \<and> n < 3)"

definition sample_env :: flash_env where
  "sample_env = \<lparr>chip = (\<lambda>h a. let v = cells (chip_run sample_chip h) (bank (chip_run sample_chip h)) a in
       if sample_busy h then NOT v AND 0x80 else v),
     irqs = (\<lambda>h. if length h mod 3 = 0 then 1 else 0), code_ReadFlash1 = [0x7800, 0x4770], code_ReadFlash_Core = [0x4770],
     code_VerifyFlashSector_Core = [0x4770]\<rparr>"

lemma after_write_split:
  "list_all no_write es \<Longrightarrow> after_write c (es @ FlWrite a v # rest) = (dst (chip_run c (rev rest)), length es)"
proof (induction es)
  case (Cons e es)
  then show ?case by (cases e) simp_all
qed simp

lemma sample_busy_iff:
  "list_all no_write es \<Longrightarrow> sample_busy (h @ FlWrite a v # es) \<longleftrightarrow>
     dst (chip_run sample_chip h) \<in> {ExpectProgram, Erase2} \<and> length es < 3"
  using after_write_split [of "rev es" sample_chip a v "rev h"] by (simp add: sample_busy_def)

lemma sample_works: "works sample_env sample_busy sample_chip"
proof -
  have st: "(NOT v AND 0x80) AND 0x20 = 0" "bit (NOT v AND 0x80) 7 \<noteq> bit v 7" for v :: u8
  proof -
    have "(0x80 :: u8) AND 0x20 = 0" "bit (0x80 :: u8) 7" by simp_all
    then show "(NOT v AND 0x80) AND 0x20 = 0" "bit (NOT v AND 0x80) 7 \<noteq> bit v 7"
      by (simp_all only: and.assoc and_zero_eq bit_and_iff bit_not_iff) simp
  qed
  have "ticks es \<le> length es" for es by (simp add: ticks_def count_le_length)
  then have "ticks es < time_limit (dst (chip_run sample_chip h))"
    if "list_all no_write es" "sample_busy (h @ FlWrite a v # es)" for h a v es
    using that le_less_trans [of "ticks es" "length es" 3] by (auto simp: sample_busy_iff time_limit_def wait_limit_def)
  then show ?thesis
    unfolding works_def using st by (auto simp: sample_env_def Let_def no_write_run)
qed

lemma timer_ticks_chip [simp]: "timer_ticks (env\<lparr>chip := f\<rparr>) = timer_ticks env"
  by (simp add: timer_ticks_def fires_within_def)

lemma sample_ticks: "timer_ticks sample_env"
proof -
  have "fires_within sample_env a 3 h" for a h
  proof -
    have "\<exists>k\<le>3. (length h + k) mod 3 = 0"
      by (rule exI [of _ "(3 - length h mod 3)"]) presburger
    then show ?thesis by (auto simp: fires_within_def sample_env_def)
  qed
  then show ?thesis by (auto simp: timer_ticks_def)
qed

definition power_on :: flash_state where
  "power_on = \<lparr>sTimerNum = 0, sTimerCount = 0, sTimerReg = 0, sSavedIme = 0, gFlashTimeoutFlag = 0,
     PollFlashStatus = None, gFlash = None, gFlashNumRemainingBytes = 0, gFlashMaxTime = None,
     ProgramFlashByte = None, ProgramFlashSector = None, EraseFlashChip = None, EraseFlashSector = None,
     WaitForFlashWrite = None, io = (\<lambda>_. 0), ram = (\<lambda>a. ucast a), bus = []\<rparr>"

definition sample_state :: flash_state where
  "sample_state = power_on\<lparr>sTimerNum := 2, sTimerReg := REG_TMCNT_L 2, gFlash := Some (flashType MX29L010),
     gFlashMaxTime := Some (maxTime MX29L010), ProgramFlashSector := Some ProgramFlashSector_MX_fn,
     WaitForFlashWrite := Some WaitForFlashWrite_Common_fn\<rparr>"

lemma sample_facts:
  "ready sample_state" "timer_ticks sample_env" "code_fits sample_env" "works sample_env sample_busy sample_chip"
  "dst (chip_run sample_chip (bus sample_state)) = Idle" "timer_set sample_state"
  using sample_ticks sample_works
  by (simp_all add: sample_state_def power_on_def ready_def timer_set_def sSetupInfos_def sample_env_def code_fits_def
      sample_chip_def)

text \<open>
  C2. Writing a sector with verification always returns. When it reports success the 4096
  cells of the sector hold the caller's bytes, and the chip was read back byte by byte with
  every byte equal to the source. Whatever it reports, no cell outside the sector changed and
  the chip is idle.
\<close>
theorem ProgramFlashSectorAndVerify_correct:
  assumes "timer_ticks env" "code_fits env" "ready s" "dst (chip_run c (bus s)) = Idle"
  shows "\<exists>r t. ProgramFlashSectorAndVerify env n src s = Some (r, t)
    \<and> within (sector_cells n) (chip_run c (bus s)) (chip_run c (bus t)) \<and> ready t
    \<and> (r = 0 \<longrightarrow> sector_holds n src (ram s) (chip_run c (bus t))
         \<and> (\<exists>before. bus t = before @ matching_reads src (base_of n) (ram s) 4096))"
proof -
  obtain r t where t: "ProgramFlashSectorAndVerify env n src s = Some (r, t)"
    using write_some(1) [OF assms(1-3)] by blast
  have tw: "ready t" "within (sector_cells n) (chip_run c (bus s)) (chip_run c (bus t))"
    using wv.op_touches [OF assms(3) t] assms(4) by (auto simp: touches_def)
  have "sector_holds n src (ram s) (chip_run c (bus t))
      \<and> (\<exists>before. bus t = before @ matching_reads src (base_of n) (ram s) 4096)" if "r = 0"
  proof -
    have loop: "write_verify_loop (call_ProgramFlashSector env n src) (VerifyFlashSector env n src) 3 0 s
        = Some (0, t)" using t that by (simp add: ProgramFlashSectorAndVerify_def)
    obtain v where v: "sector_holds n src (ram s) (chip_run c (bus t))"
        "VerifyFlashSector env n src v = Some (0, t)" "ram v = ram s" "ready v"
      using sector_write.loop_success [OF assms(3,4) loop] by auto
    then show ?thesis using VerifyFlashSector_spec [OF v(4) v(2)] by (auto simp: compared_zero)
  qed
  with t tw show ?thesis by blast
qed
theorem ProgramFlashSectorAndVerify_correct_witness:
  "\<exists>r t. ProgramFlashSectorAndVerify sample_env 17 0x2000000 sample_state = Some (r, t)
    \<and> within (sector_cells 17) (chip_run sample_chip (bus sample_state)) (chip_run sample_chip (bus t)) \<and> ready t
    \<and> (r = 0 \<longrightarrow> sector_holds 17 0x2000000 (ram sample_state) (chip_run sample_chip (bus t))
         \<and> (\<exists>before. bus t = before @ matching_reads 0x2000000 (base_of 17) (ram sample_state) 4096))"
  by (rule ProgramFlashSectorAndVerify_correct [OF sample_facts(2,3,1,5)])

text \<open>
  C3. With a chip in working order, which is busy after each command for any time within the limits of the library, writing any of
  the 32 sectors succeeds, and reading any part of that sector afterwards returns the caller's bytes: what was saved is what is
  loaded.
\<close>
theorem flash_save_load:
  assumes "works env busy c" "timer_ticks env" "code_fits env" "ready s" "dst (chip_run c (bus s)) = Idle"
    and "n < 32" "unat off + unat sz \<le> 4096"
  shows "\<exists>t u. ProgramFlashSectorAndVerify env n src s = Some (0, t) \<and> ReadFlash env n off dest sz t = Some u
    \<and> (\<forall>i. i < unat sz \<longrightarrow> ram u (dest + of_nat i) = ram s (src + off + of_nat i))"
proof -
  obtain t where t: "ProgramFlashSectorAndVerify env n src s = Some (0, t)"
    using ProgramFlashSectorAndVerify_done [OF assms(1-6)] by blast
  then have holds: "sector_holds n src (ram s) (chip_run c (bus t))"
    using sector_write.loop_success [OF assms(4,5), of env n src 3 0 t]
    by (simp add: ProgramFlashSectorAndVerify_def)
  have tr: "ready t" "dst (chip_run c (bus t)) = Idle"
    using wv.op_touches [OF assms(4) t] assms(5) by (auto simp: touches_def within_def)
  obtain u where u: "ReadFlash env n off dest sz t = Some u"
    using reading_some(1) [OF assms(3) tr(1)] by blast
  have "ram u (dest + of_nat i) = ram s (src + off + of_nat i)" if "i < unat sz" for i
  proof -
    have "off + of_nat i = of_nat (unat off + i)" by simp
    moreover have "unat off + i < 4096" using assms(7) that by simp
    ultimately show ?thesis
      using ReadFlash_done [OF assms(1) tr u that] holds by (simp only: sector_holds_def add.assoc)
  qed
  with t u show ?thesis by blast
qed

theorem flash_save_load_witness:
  "\<exists>t u. ProgramFlashSectorAndVerify sample_env 17 0x2000000 sample_state = Some (0, t)
    \<and> ReadFlash sample_env 17 256 0x3000000 128 t = Some u
    \<and> (\<forall>i. i < unat (128 :: u32) \<longrightarrow> ram u (0x3000000 + of_nat i) = ram sample_state (0x2000000 + 256 + of_nat i))"
  by (rule flash_save_load [OF sample_facts(4,2,3,1,5)]) simp_all

text \<open>
  C4. Any sequence of calls to the driver returns, leaves it set up and the chip idle, and
  every cell outside the sectors and bytes that the calls name keeps its contents: a failed
  or retried write never damages another sector or the other bank.
\<close>
theorem flash_calls_isolated:
  assumes "timer_ticks env" "code_fits env" "ready s" "dst (chip_run c (bus s)) = Idle"
  shows "\<exists>t. do_calls env calls s = Some t \<and> ready t
    \<and> within (\<Union> (call_region ` set calls)) (chip_run c (bus s)) (chip_run c (bus t))"
proof -
  obtain t where t: "do_calls env calls s = Some t" using do_calls_some [OF assms(1-3)] by blast
  then show ?thesis using do_calls_touches [OF assms(3) t] assms(4) by (auto simp: touches_def)
qed

theorem flash_calls_isolated_witness:
  "\<exists>t. do_calls sample_env [CallWrite 3 0x2000000, CallErase 40, CallProgramByte 18 7 0xAB] sample_state = Some t
    \<and> ready t \<and> within (\<Union> (call_region ` set [CallWrite 3 0x2000000, CallErase 40, CallProgramByte 18 7 0xAB]))
         (chip_run sample_chip (bus sample_state)) (chip_run sample_chip (bus t))"
  by (rule flash_calls_isolated [OF sample_facts(2,3,1,5)])



text \<open>
  Verifying a sector returns 0 exactly when all 4096 bytes that the chip returned equal
  the source, and otherwise the address of the first byte that differs, where it stops
  reading. It changes neither the memory array nor the caller's memory.
\<close>
theorem VerifyFlashSector_first_difference:
  assumes "code_fits env" "ready s"
  shows "\<exists>r t es. VerifyFlashSector env n src s = Some (r, t)
    \<and> bus t = bus s @ bank_switch (bank_of n) @ es \<and> compared src (base_of n) 4096 (ram s) es r
    \<and> (r = 0 \<longleftrightarrow> es = matching_reads src (base_of n) (ram s) 4096) \<and> ram t = ram s \<and> touches {} s t"
proof -
  obtain r t where t: "VerifyFlashSector env n src s = Some (r, t)"
    using reading_some(2) [OF assms] by (metis surj_pair)
  obtain es where es: "bus t = bus s @ bank_switch (bank_of n) @ es" "ram t = ram s" "touches {} s t"
      "compared src (base_of n) 4096 (ram s) es r"
    using VerifyFlashSector_spec [OF assms(2) t] by blast
  have "r = 0" if "es = matching_reads src (base_of n) (ram s) 4096"
  proof (rule ccontr)
    assume "r \<noteq> 0"
    then obtain k v where "k < 4096" "es = matching_reads src (base_of n) (ram s) k @ [FlRead (base_of n + of_nat k) v]"
        "v \<noteq> ram s (src + of_nat k)"
      using es(4) by (auto simp: compared_def)
    then show False
      using that by (auto simp: matching_reads_def dest!: arg_cong [of _ _ "\<lambda>xs. xs ! k"] simp: nth_append)
  qed
  then have "r = 0 \<longleftrightarrow> es = matching_reads src (base_of n) (ram s) 4096"
    using es(4) compared_zero by blast
  with t es show ?thesis by blast
qed

theorem VerifyFlashSector_first_difference_witness:
  "\<exists>r t es. VerifyFlashSector sample_env 5 0x2000000 sample_state = Some (r, t)
    \<and> bus t = bus sample_state @ bank_switch (bank_of 5) @ es
    \<and> compared 0x2000000 (base_of 5) 4096 (ram sample_state) es r
    \<and> (r = 0 \<longleftrightarrow> es = matching_reads 0x2000000 (base_of 5) (ram sample_state) 4096)
    \<and> ram t = ram sample_state \<and> touches {} sample_state t"
  by (rule VerifyFlashSector_first_difference [OF sample_facts(3,1)])

text \<open>
  C7. Erasing a sector returns. For a sector number of the chip the accesses are the selection of the bank and one to five attempts,
  each the erase command for that sector and a wait. A further attempt is made exactly when the wait before it ended with an error
  bit, up to five; the result is that of the last attempt. The sector is blank afterwards. A number of 32 or more is refused
  with 0x80FF and without touching the chip.
\<close>
theorem EraseFlashSector_MX_correct:
  assumes "timer_ticks env" "code_fits env" "ready s" "dst (chip_run c (bus s)) = Idle"
  shows "\<exists>r t. EraseFlashSector_MX env n s = Some (r, t)
    \<and> (if n < 32 then (\<exists>as. bus t = bus s @ bank_switch (bank_of n) @ attempt_events (base_of n) as
          \<and> attempts (base_of n) 5 as r \<and> 0 < length as \<and> length as \<le> 5)
          \<and> chip_run c (bus t) = erased n (chip_run c (bus s))
        else r = 0x80FF \<and> t = s)"
proof (cases "n < 32")
  case False
  then show ?thesis
    using EraseFlashSector_MX_some [OF assms(1-3), of n] EraseFlashSector_MX_effect [OF assms(3)]
    by (auto simp: not_less)
next
  case True
  obtain ft where ft: "gFlash s = Some ft" "geometry_ok ft" using ready_gFlash [OF assms(3)] by blast
  let ?b = "SwitchFlashBank (ucast (n div SECTORS_PER_BANK)) s"
  obtain r t as where t: "try_erase env ft (n mod SECTORS_PER_BANK) 0 ?b = Some (r, t)"
      "bus t = bus ?b @ attempt_events (base_of n) as" "attempts (base_of n) 5 as r"
    using try_erase_attempts [OF assms(1,2), of ?b 0 ft "n mod SECTORS_PER_BANK"] assms(3)
    by (auto simp: geometry_addr [OF ft(2)])
  let ?t = "leave_scope (set_wait WAITCNT_SRAM_8 t)"
  have e: "EraseFlashSector_MX env n s = Some (r, ?t)"
    using t ft True by (auto simp: EraseFlashSector_MX_def Let_def geometry_ok_def dest: leD)
  then have "effect (erased n) s ?t"
    using EraseFlashSector_MX_effect [OF assms(3) e] True by (simp split: if_splits)
  note run = effect_run [OF this assms(4)]
  show ?thesis
    using e t run True attempts_length [OF t(3)]
    by (auto simp: leave_scope_def bank_of_def intro!: exI [of _ as])
qed

theorem EraseFlashSector_MX_correct_witness:
  "\<exists>r t as. EraseFlashSector_MX sample_env 31 sample_state = Some (r, t)
    \<and> bus t = bus sample_state @ bank_switch (bank_of 31) @ attempt_events (base_of 31) as
    \<and> attempts (base_of 31) 5 as r \<and> chip_run sample_chip (bus t) = erased 31 (chip_run sample_chip (bus sample_state))"
  using EraseFlashSector_MX_correct [OF sample_facts(2,3,1,5), of 31] by auto

text \<open>
  Identification returns. It reports 0 and installs the chip's own description exactly
  for the two chips the library knows (maker 0xC2 device 0x09, maker 0x62 device 0x13), and
  reports 1 with the default description for every other answer. The driver is set up
  afterwards, whichever was found, and the memory array is untouched.
\<close>
theorem IdentifyFlash_selects:
  assumes "code_fits env" "timer_set s"
  shows "\<exists>r t. IdentifyFlash env s = Some (r, t) \<and> ready t
    \<and> gFlash t = Some (flashType (setup_for (maker_read env s) (device_read env s)))
    \<and> (r = 0 \<longleftrightarrow> (maker_read env s, device_read env s) \<in> {(0xC2, 0x09), (0x62, 0x13)}) \<and> r \<in> {0, 1}
    \<and> bus t = bus s @ id_exchange env s
    \<and> (\<forall>c. dst c = Idle \<longrightarrow> chip_run c (id_exchange env s) = c)"
proof -
  let ?s = "set_wait WAITCNT_SRAM_8 s"
  let ?x = "setup_for (maker_read env s) (device_read env s)"
  have same: "maker_read env ?s = maker_read env s" "device_read env ?s = device_read env s"
    "id_exchange env ?s = id_exchange env s" "bus ?s = bus s" "sTimerNum ?s = sTimerNum s"
    "sTimerReg ?s = sTimerReg s"
    by (simp_all add: maker_read_def device_read_def id_history_def id_exchange_def set_wait_def io_defs)
  have quiet: "chip_run c (id_exchange env s) = c" if "dst c = Idle" for c
    using that by (cases c) (simp add: id_exchange_def chip_write_def)
  have codes: "?x = DefaultFlash \<longleftrightarrow> (maker_read env s, device_read env s) \<notin> {(0xC2, 0x09), (0x62, 0x13)}"
    by (auto simp: setup_for_def MX29L010_def LE26FV10N1TS_def DefaultFlash_def)
  show ?thesis
    using assms(2) quiet codes setup_functions [OF setup_for_mem] setup_for_mem
    by (simp add: IdentifyFlash_def ReadFlashId_some [OF assms(1)] find_setup_for same ready_def timer_set_def Let_def)
      blast
qed

theorem IdentifyFlash_selects_witness:
  "\<exists>r t. IdentifyFlash (sample_env\<lparr>chip := (\<lambda>h a. if a = FLASH_BASE then 0x62 else 0x13)\<rparr>) sample_state = Some (r, t)
    \<and> ready t \<and> gFlash t = Some (flashType LE26FV10N1TS) \<and> r = 0"
  using IdentifyFlash_selects [of "sample_env\<lparr>chip := (\<lambda>h a. if a = FLASH_BASE then 0x62 else 0x13)\<rparr>" sample_state]
    sample_facts
  by (auto simp: code_fits_def setup_for_def maker_read_def device_read_def FLASH_BASE_def)

text \<open>
  Calls with arguments out of range are refused with their error code and leave the whole
  state as it was, the bus included: a sector number of 32 or more for programming, an offset
  of 4096 or more for programming one byte, a timer number of 4 or more. A timer number below
  4 installs the handler and selects that timer's registers.
\<close>
theorem flash_argument_checks:
  assumes "ready s"
  shows "(32 \<le> n \<longrightarrow> ProgramFlashSector_MX env n src s = Some (0x80FF, s))
    \<and> (4096 \<le> off \<longrightarrow> ProgramFlashByte_MX env n off d s = Some (0x8000, s))
    \<and> SetFlashTimerIntr tn s = (if tn < 4 then ((0, Some FlashTimerIntr_fn),
           s\<lparr>sTimerNum := tn, sTimerReg := REG_TMCNT_L tn\<rparr>) else ((1, None), s))
    \<and> (tn < 4 \<longrightarrow> timer_set (snd (SetFlashTimerIntr tn s)))"
  using ready_gFlash [OF assms]
  by (auto simp: ProgramFlashSector_MX_def ProgramFlashByte_MX_def SetFlashTimerIntr_def geometry_ok_def
      Let_def timer_set_def not_le)

theorem flash_argument_checks_witness:
  "ProgramFlashSector_MX sample_env 40 0 sample_state = Some (0x80FF, sample_state)
    \<and> ProgramFlashByte_MX sample_env 40 5000 0 sample_state = Some (0x8000, sample_state)
    \<and> timer_set (snd (SetFlashTimerIntr 3 sample_state))"
  using flash_argument_checks [OF sample_facts(1), of 40 sample_env 0 5000 0 3]
  by (simp add: timer_set_def)

end
