(* ===== verification/Stwi.thy ===== *)
theory Stwi
  imports GbaIo "HOL-Library.Monad_Syntax"
begin

text \<open>
  The serial layer of the wireless adapter library, \<^verbatim>\<open>src/librfu/librfu_stwi.c\<close>: set-up,
  the requests, the retry logic driven by the timer interrupt and the soft reset.

  The state holds the driver's struct, the caller's interrupt struct with the packet buffers,
  the memory the requests read their arguments from, and the 16-bit I/O registers. \<open>wlog\<close>
  is the chronological list of register writes and callback calls. Code the library only
  calls is a parameter of \<open>stwi_env\<close>: the callback the game installs, the serial interrupt
  handler (assembly) as its machine code and as what it does to the state between two reads
  of the busy flag, and the hardware timer as the values it shows.

  An operation returns \<open>None\<close> when the C code has no defined result: it follows a packet
  pointer that was never set, writes past the end of a packet, or loops forever.
\<close>

unbundle bit_operations_syntax

section \<open>Data\<close>

definition RFU_RESET :: u8 where "RFU_RESET = 0x10"
definition RFU_LINK_STATUS :: u8 where "RFU_LINK_STATUS = 0x11"
definition RFU_VERSION_STATUS :: u8 where "RFU_VERSION_STATUS = 0x12"
definition RFU_SYSTEM_STATUS :: u8 where "RFU_SYSTEM_STATUS = 0x13"
definition RFU_SLOT_STATUS :: u8 where "RFU_SLOT_STATUS = 0x14"
definition RFU_CONFIG_STATUS :: u8 where "RFU_CONFIG_STATUS = 0x15"
definition RFU_GAME_CONFIG :: u8 where "RFU_GAME_CONFIG = 0x16"
definition RFU_SYSTEM_CONFIG :: u8 where "RFU_SYSTEM_CONFIG = 0x17"
definition RFU_SC_START :: u8 where "RFU_SC_START = 0x19"
definition RFU_SC_POLLING :: u8 where "RFU_SC_POLLING = 0x1A"
definition RFU_SC_END :: u8 where "RFU_SC_END = 0x1B"
definition RFU_SP_START :: u8 where "RFU_SP_START = 0x1C"
definition RFU_SP_POLLING :: u8 where "RFU_SP_POLLING = 0x1D"
definition RFU_SP_END :: u8 where "RFU_SP_END = 0x1E"
definition RFU_CP_START :: u8 where "RFU_CP_START = 0x1F"
definition RFU_CP_POLLING :: u8 where "RFU_CP_POLLING = 0x20"
definition RFU_CP_END :: u8 where "RFU_CP_END = 0x21"
definition RFU_DATA_TX :: u8 where "RFU_DATA_TX = 0x24"
definition RFU_DATA_TX_AND_CHANGE :: u8 where "RFU_DATA_TX_AND_CHANGE = 0x25"
definition RFU_DATA_RX :: u8 where "RFU_DATA_RX = 0x26"
definition RFU_MS_CHANGE :: u8 where "RFU_MS_CHANGE = 0x27"
definition RFU_DATA_READY_AND_CHANGE :: u8 where "RFU_DATA_READY_AND_CHANGE = 0x28"
definition RFU_DISCONNECTED_AND_CHANGE :: u8 where "RFU_DISCONNECTED_AND_CHANGE = 0x29"
definition RFU_DISCONNECT :: u8 where "RFU_DISCONNECT = 0x30"
definition RFU_TEST_MODE :: u8 where "RFU_TEST_MODE = 0x31"
definition RFU_CPR_START :: u8 where "RFU_CPR_START = 0x32"
definition RFU_CPR_POLLING :: u8 where "RFU_CPR_POLLING = 0x33"
definition RFU_CPR_END :: u8 where "RFU_CPR_END = 0x34"
definition RFU_UNK35 :: u8 where "RFU_UNK35 = 0x35"
definition RFU_RESUME_RETRANSMIT_AND_CHANGE :: u8 where "RFU_RESUME_RETRANSMIT_AND_CHANGE = 0x37"
definition RFU_STOP_MODE :: u8 where "RFU_STOP_MODE = 0x3D"

text \<open>The two packet buffers a packet pointer can point to.\<close>

datatype packet_ref = RxPacketAlloc | TxPacketAlloc

text \<open>\<open>None\<close> is the null pointer; a callback is the address it was installed with.\<close>

record RfuStruct =
  unk_0 :: s32
  txParams :: u8
  unk_5 :: u8
  activeCommand :: u8
  unk_7 :: u8
  unk_8 :: u8
  unk_9 :: u8
  timerSelect :: u8
  timerState :: s32
  timerActive :: u8
  unk_12 :: u16
  msMode :: u8
  unk_15 :: u8
  callbackM :: u32
  callbackS :: u32
  callbackID :: u32
  txPacket :: "packet_ref option"
  rxPacket :: "packet_ref option"
  unk_2c :: u8

record RfuIntrStruct =
  rxPacketAlloc :: "u8 list"
  txPacketAlloc :: "u8 list"
  block1 :: "u8 list"
  block2 :: "u8 list"

datatype rfu_block = Block1 | Block2

text \<open>What an entry of the interrupt table holds after set-up.\<close>

datatype intr_func = IntrSIO32_rom | IntrSIO32_ram rfu_block | STWI_intr_timer_fn

datatype stwi_event =
    W16 u32 u16
  | W32 u32 u32
  | CallbackM u8 u16

record stwi_state =
  gRfuState :: RfuStruct
  rfu_at :: rfu_block
  interruptStruct :: RfuIntrStruct
  sio_intr :: "intr_func option"
  timer_intr :: "intr_func option"
  argmem :: "u32 \<Rightarrow> u8"
  regs :: "u32 \<Rightarrow> u16"
  wlog :: "stwi_event list"

record stwi_env =
  code_IntrSIO32 :: "u8 list"
  run_callback :: "u32 \<Rightarrow> u8 \<Rightarrow> u16 \<Rightarrow> stwi_state \<Rightarrow> stwi_state"
  between_polls :: "stwi_state \<Rightarrow> stwi_state"
  timer_count :: "stwi_event list \<Rightarrow> u16"

section \<open>Accesses\<close>

definition rfu :: "(RfuStruct \<Rightarrow> RfuStruct) \<Rightarrow> stwi_state \<Rightarrow> stwi_state" where
  "rfu f s = s\<lparr>gRfuState := f (gRfuState s)\<rparr>"

definition w16 :: "u32 \<Rightarrow> u16 \<Rightarrow> stwi_state \<Rightarrow> stwi_state" where
  "w16 a v s = s\<lparr>regs := (regs s)(a := v), wlog := wlog s @ [W16 a v]\<rparr>"

definition w32 :: "u32 \<Rightarrow> u32 \<Rightarrow> stwi_state \<Rightarrow> stwi_state" where
  "w32 a v s = s\<lparr>regs := (regs s)(a := ucast v, a + 2 := ucast (drop_bit 16 v)),
     wlog := wlog s @ [W32 a v]\<rparr>"

definition IntrEnable :: "u16 \<Rightarrow> stwi_state \<Rightarrow> stwi_state" where
  "IntrEnable flags s =
     (let imeTemp = regs s REG_ADDR_IME;
          s = w16 REG_ADDR_IME 0 s;
          s = w16 REG_ADDR_IE (regs s REG_ADDR_IE OR flags) s
      in w16 REG_ADDR_IME imeTemp s)"

definition rfu_timer_flag :: "stwi_state \<Rightarrow> u16" where
  "rfu_timer_flag s = push_bit (unat (timerSelect (gRfuState s))) INTR_FLAG_TIMER0"

text \<open>\<^verbatim>\<open>if (gRfuState->callbackM) gRfuState->callbackM(request, status)\<close>\<close>

definition call_callbackM :: "stwi_env \<Rightarrow> u8 \<Rightarrow> u16 \<Rightarrow> stwi_state \<Rightarrow> stwi_state" where
  "call_callbackM env request st s =
     (let f = callbackM (gRfuState s)
      in if f \<noteq> 0 then run_callback env f request st (s\<lparr>wlog := wlog s @ [CallbackM request st]\<rparr>) else s)"

text \<open>Reading and writing bytes of the packet that \<open>txPacket\<close> points to.\<close>

definition put_bytes :: "nat \<Rightarrow> u8 list \<Rightarrow> u8 list \<Rightarrow> u8 list option" where
  "put_bytes off bs packet =
     (if off + length bs \<le> length packet
      then Some (take off packet @ bs @ drop (off + length bs) packet) else None)"

definition packet_put :: "nat \<Rightarrow> u8 list \<Rightarrow> stwi_state \<Rightarrow> stwi_state option" where
  "packet_put off bs s =
     (case txPacket (gRfuState s) of
        None \<Rightarrow> None
      | Some TxPacketAlloc \<Rightarrow> map_option (\<lambda>p. s\<lparr>interruptStruct := (interruptStruct s)\<lparr>txPacketAlloc := p\<rparr>\<rparr>)
          (put_bytes off bs (txPacketAlloc (interruptStruct s)))
      | Some RxPacketAlloc \<Rightarrow> map_option (\<lambda>p. s\<lparr>interruptStruct := (interruptStruct s)\<lparr>rxPacketAlloc := p\<rparr>\<rparr>)
          (put_bytes off bs (rxPacketAlloc (interruptStruct s))))"

definition packet_bytes :: "stwi_state \<Rightarrow> u8 list option" where
  "packet_bytes s =
     (case txPacket (gRfuState s) of
        None \<Rightarrow> None
      | Some TxPacketAlloc \<Rightarrow> Some (txPacketAlloc (interruptStruct s))
      | Some RxPacketAlloc \<Rightarrow> Some (rxPacketAlloc (interruptStruct s)))"

definition u16_bytes :: "u16 \<Rightarrow> u8 list" where
  "u16_bytes w = [ucast w, ucast (drop_bit 8 w)]"

definition u32_bytes :: "u32 \<Rightarrow> u8 list" where
  "u32_bytes w = [ucast w, ucast (drop_bit 8 w), ucast (drop_bit 16 w), ucast (drop_bit 24 w)]"

fun bytes_u32 :: "u8 list \<Rightarrow> u32" where
  "bytes_u32 (a # b # c # d # _) =
     ucast a OR push_bit 8 (ucast b) OR push_bit 16 (ucast c) OR push_bit 24 (ucast d)"
| "bytes_u32 _ = 0"

text \<open>\<open>n\<close> consecutive bytes of the caller's memory.\<close>

definition arg_bytes :: "stwi_state \<Rightarrow> u32 \<Rightarrow> nat \<Rightarrow> u8 list" where
  "arg_bytes s a n = map (\<lambda>i. argmem s (a + of_nat i)) [0..<n]"

section \<open>Set-up\<close>

definition STWI_set_Callback_M :: "u32 \<Rightarrow> stwi_state \<Rightarrow> stwi_state" where
  "STWI_set_Callback_M callback = rfu (\<lambda>r. r\<lparr>callbackM := callback\<rparr>)"

definition STWI_set_Callback_S :: "u32 \<Rightarrow> stwi_state \<Rightarrow> stwi_state" where
  "STWI_set_Callback_S callback = rfu (\<lambda>r. r\<lparr>callbackS := callback\<rparr>)"

definition STWI_init_Callback_M :: "stwi_state \<Rightarrow> stwi_state" where
  "STWI_init_Callback_M = STWI_set_Callback_M 0"

definition STWI_init_Callback_S :: "stwi_state \<Rightarrow> stwi_state" where
  "STWI_init_Callback_S = STWI_set_Callback_S 0"

definition STWI_set_Callback_ID :: "u32 \<Rightarrow> stwi_state \<Rightarrow> stwi_state" where
  "STWI_set_Callback_ID cid = rfu (\<lambda>r. r\<lparr>callbackID := cid\<rparr>)"

text \<open>The DMA transfer copies 0x960 bytes of the handler into \<open>block1\<close>.\<close>

definition STWI_init_all :: "stwi_env \<Rightarrow> bool8 \<Rightarrow> stwi_state \<Rightarrow> stwi_state" where
  "STWI_init_all env copyInterruptToRam s =
     (let s = (if copyInterruptToRam = TRUE8
               then s\<lparr>sio_intr := Some (IntrSIO32_ram Block1),
                      interruptStruct := (interruptStruct s)\<lparr>block1 := take 0x960 (code_IntrSIO32 env)\<rparr>,
                      rfu_at := Block2\<rparr>
               else s\<lparr>sio_intr := Some IntrSIO32_rom, rfu_at := Block1\<rparr>);
          s = rfu (\<lambda>r. r\<lparr>rxPacket := Some RxPacketAlloc, txPacket := Some TxPacketAlloc, msMode := 1,
                unk_0 := 0, txParams := 0, unk_5 := 0, unk_7 := 0, unk_8 := 0, unk_9 := 0,
                timerState := 0, timerActive := 0, unk_12 := 0, unk_15 := 0, unk_2c := 0\<rparr>) s;
          s = w16 REG_ADDR_RCNT 0x100 s;
          s = w16 REG_ADDR_SIOCNT (SIO_INTR_ENABLE OR SIO_32BIT_MODE OR SIO_115200_BPS) s;
          s = STWI_init_Callback_M s;
          s = STWI_init_Callback_S s
      in IntrEnable INTR_FLAG_SERIAL s)"

definition STWI_init_timer :: "u8 \<Rightarrow> stwi_state \<Rightarrow> stwi_state" where
  "STWI_init_timer timerSel s =
     (let s = s\<lparr>timer_intr := Some STWI_intr_timer_fn\<rparr>;
          s = rfu (\<lambda>r. r\<lparr>timerSelect := timerSel\<rparr>) s
      in IntrEnable (rfu_timer_flag s) s)"

definition STWI_set_MS_mode :: "u8 \<Rightarrow> stwi_state \<Rightarrow> stwi_state" where
  "STWI_set_MS_mode mode = rfu (\<lambda>r. r\<lparr>msMode := mode\<rparr>)"

definition STWI_read_status :: "u8 \<Rightarrow> stwi_state \<Rightarrow> u16" where
  "STWI_read_status index s =
     (if index = 0 then unk_12 (gRfuState s)
      else if index = 1 then ucast (msMode (gRfuState s))
      else if index = 2 then ucast (unk_0 (gRfuState s))
      else if index = 3 then ucast (activeCommand (gRfuState s))
      else 0xFFFF)"

partial_function (option) STWI_poll_CommandEnd ::
  "stwi_env \<Rightarrow> stwi_state \<Rightarrow> (u16 \<times> stwi_state) option" where
  [code]: "STWI_poll_CommandEnd env s =
     (if unk_2c (gRfuState s) = TRUE8 then STWI_poll_CommandEnd env (between_polls env s)
      else Some (unk_12 (gRfuState s), s))"

section \<open>Soft reset\<close>

partial_function (option) reset_pulse :: "stwi_env \<Rightarrow> stwi_state \<Rightarrow> stwi_state option" where
  [code]: "reset_pulse env s =
     (if timer_count env (wlog s) \<le> 0x11 then reset_pulse env (w16 REG_ADDR_RCNT 0x80A2 s) else Some s)"

definition AgbRFU_SoftReset :: "stwi_env \<Rightarrow> stwi_state \<Rightarrow> stwi_state option" where
  "AgbRFU_SoftReset env s = do {
     let s = w16 REG_ADDR_RCNT 0x8000 s;
     let s = w16 REG_ADDR_RCNT 0x80A0 s;
     let timerL = REG_TMCNT_L (timerSelect (gRfuState s));
     let timerH = REG_TMCNT_H (timerSelect (gRfuState s));
     let s = w16 timerH 0 s;
     let s = w16 timerL 0 s;
     let s = w16 timerH 0x83 s;
     s \<leftarrow> reset_pulse env s;
     let s = w16 timerH 3 s;
     let s = w16 REG_ADDR_RCNT 0x80A0 s;
     let s = w16 REG_ADDR_SIOCNT (SIO_INTR_ENABLE OR SIO_32BIT_MODE OR SIO_115200_BPS) s;
     Some (rfu (\<lambda>r. r\<lparr>unk_0 := 0, txParams := 0, unk_5 := 0, activeCommand := 0, unk_7 := 0, unk_8 := 0,
       unk_9 := 0, timerState := 0, timerActive := 0, unk_12 := 0, msMode := 1, unk_15 := 0, unk_2c := 0\<rparr>) s)
   }"

section \<open>Commands\<close>

text \<open>The first component is the return value: \<^verbatim>\<open>TRUE\<close> means that the request is refused.\<close>

definition STWI_init :: "stwi_env \<Rightarrow> u8 \<Rightarrow> stwi_state \<Rightarrow> u16 \<times> stwi_state" where
  "STWI_init env request s =
     (if regs s REG_ADDR_IME = 0 then
        let s = rfu (\<lambda>r. r\<lparr>unk_12 := 6\<rparr>) s
        in (1, call_callbackM env request (unk_12 (gRfuState s)) s)
      else if unk_2c (gRfuState s) = TRUE8 then
        let s = rfu (\<lambda>r. r\<lparr>unk_12 := 2, unk_2c := FALSE8\<rparr>) s
        in (1, call_callbackM env request (unk_12 (gRfuState s)) s)
      else if msMode (gRfuState s) = 0 then
        let s = rfu (\<lambda>r. r\<lparr>unk_12 := 4\<rparr>) s
        in (1, call_callbackM env request (unk_12 (gRfuState s)) s)
      else
        let s = rfu (\<lambda>r. r\<lparr>unk_2c := TRUE8, activeCommand := request, unk_0 := 0, txParams := 0,
                  unk_5 := 0, unk_7 := 0, unk_8 := 0, unk_9 := 0, timerState := 0, timerActive := 0,
                  unk_12 := 0, unk_15 := 0\<rparr>) s;
            s = w16 REG_ADDR_RCNT 0x100 s
        in (0, w16 REG_ADDR_SIOCNT (SIO_INTR_ENABLE OR SIO_32BIT_MODE OR SIO_115200_BPS) s))"

definition command_word :: "RfuStruct \<Rightarrow> u32" where
  "command_word r = 0x99660000 OR push_bit 8 (ucast (txParams r)) OR ucast (activeCommand r)"

definition STWI_start_Command :: "stwi_state \<Rightarrow> stwi_state option" where
  "STWI_start_Command s = do {
     s \<leftarrow> packet_put 0 (u32_bytes (command_word (gRfuState s))) s;
     packet \<leftarrow> packet_bytes s;
     let s = w32 REG_ADDR_SIODATA32 (bytes_u32 packet) s;
     let s = rfu (\<lambda>r. r\<lparr>unk_0 := 0, unk_5 := 1\<rparr>) s;
     let imeTemp = regs s REG_ADDR_IME;
     let s = w16 REG_ADDR_IME 0 s;
     let s = w16 REG_ADDR_IE (regs s REG_ADDR_IE OR rfu_timer_flag s) s;
     let s = w16 REG_ADDR_IE (regs s REG_ADDR_IE OR INTR_FLAG_SERIAL) s;
     let s = w16 REG_ADDR_IME imeTemp s;
     Some (w16 REG_ADDR_SIOCNT (SIO_INTR_ENABLE OR SIO_32BIT_MODE OR SIO_MULTI_BUSY OR SIO_115200_BPS) s)
   }"

definition STWI_restart_Command :: "stwi_env \<Rightarrow> stwi_state \<Rightarrow> stwi_state option" where
  "STWI_restart_Command env s =
     (if unk_15 (gRfuState s) \<le> 1
      then STWI_start_Command (rfu (\<lambda>r. r\<lparr>unk_15 := unk_15 r + 1\<rparr>) s)
      else
        let cmd = activeCommand (gRfuState s)
        in if cmd = RFU_MS_CHANGE \<or> cmd = RFU_DATA_TX_AND_CHANGE \<or> cmd = RFU_UNK35
              \<or> cmd = RFU_RESUME_RETRANSMIT_AND_CHANGE
           then
             let s = rfu (\<lambda>r. r\<lparr>unk_12 := 1, unk_2c := 0\<rparr>) s
             in Some (call_callbackM env (activeCommand (gRfuState s)) (unk_12 (gRfuState s)) s)
           else
             let s = rfu (\<lambda>r. r\<lparr>unk_12 := 1, unk_2c := 0\<rparr>) s;
                 s = call_callbackM env (activeCommand (gRfuState s)) (unk_12 (gRfuState s)) s
             in Some (rfu (\<lambda>r. r\<lparr>unk_0 := 4\<rparr>) s))"

definition STWI_reset_ClockCounter :: "stwi_state \<Rightarrow> stwi_state" where
  "STWI_reset_ClockCounter s =
     (let s = rfu (\<lambda>r. r\<lparr>unk_0 := 5, txParams := 0, unk_5 := 0\<rparr>) s;
          s = w32 REG_ADDR_SIODATA32 (push_bit 31 1) s;
          s = w16 REG_ADDR_SIOCNT 0 s;
          s = w16 REG_ADDR_SIOCNT (SIO_INTR_ENABLE OR SIO_32BIT_MODE OR SIO_115200_BPS) s
      in w16 REG_ADDR_SIOCNT ((SIO_INTR_ENABLE OR SIO_32BIT_MODE OR SIO_115200_BPS) + 0x7F) s)"

section \<open>The timer\<close>

definition STWI_set_timer :: "u8 \<Rightarrow> stwi_state \<Rightarrow> stwi_state" where
  "STWI_set_timer unk s =
     (let timerL = REG_TMCNT_L (timerSelect (gRfuState s));
          timerH = REG_TMCNT_H (timerSelect (gRfuState s));
          s = w16 REG_ADDR_IME 0 s;
          s = (if unk = 50 then rfu (\<lambda>r. r\<lparr>timerState := 1\<rparr>) (w16 timerL 0xFCCB s)
               else if unk = 80 then rfu (\<lambda>r. r\<lparr>timerState := 2\<rparr>) (w16 timerL 0xFAE0 s)
               else if unk = 100 then rfu (\<lambda>r. r\<lparr>timerState := 3\<rparr>) (w16 timerL 0xF996 s)
               else if unk = 130 then rfu (\<lambda>r. r\<lparr>timerState := 4\<rparr>) (w16 timerL 0xF7AD s)
               else s);
          s = w16 timerH (TIMER_ENABLE OR TIMER_INTR_ENABLE OR TIMER_1024CLK) s;
          s = w16 REG_ADDR_IF (rfu_timer_flag s) s
      in w16 REG_ADDR_IME 1 s)"

definition STWI_stop_timer :: "stwi_state \<Rightarrow> stwi_state" where
  "STWI_stop_timer s =
     (let s = rfu (\<lambda>r. r\<lparr>timerState := 0\<rparr>) s;
          s = w16 (REG_TMCNT_L (timerSelect (gRfuState s))) 0 s
      in w16 (REG_TMCNT_H (timerSelect (gRfuState s))) 0 s)"

definition STWI_intr_timer :: "stwi_env \<Rightarrow> stwi_state \<Rightarrow> stwi_state option" where
  "STWI_intr_timer env s =
     (let st = timerState (gRfuState s)
      in if st = 2 then Some (STWI_set_timer 50 (rfu (\<lambda>r. r\<lparr>timerActive := 1\<rparr>) s))
         else if st = 1 \<or> st = 4 then STWI_restart_Command env (STWI_stop_timer s)
         else if st = 3 then
           let s = rfu (\<lambda>r. r\<lparr>timerActive := 1\<rparr>) s;
               s = STWI_stop_timer s;
               s = STWI_reset_ClockCounter s
           in Some (call_callbackM env 255 0 s)
         else Some s)"

section \<open>Requests\<close>

text \<open>The shape the requests share: refused by \<open>STWI_init\<close>, or filled in and started.\<close>

definition send_with ::
  "stwi_env \<Rightarrow> u8 \<Rightarrow> (stwi_state \<Rightarrow> stwi_state option) \<Rightarrow> stwi_state \<Rightarrow> stwi_state option" where
  "send_with env request fill s =
     (let (refused, s) = STWI_init env request s
      in if refused = 0 then Option.bind (fill s) STWI_start_Command else Some s)"

definition set_txParams :: "u8 \<Rightarrow> stwi_state \<Rightarrow> stwi_state" where
  "set_txParams n = rfu (\<lambda>r. r\<lparr>txParams := n\<rparr>)"

definition STWI_send_ResetREQ :: "stwi_env \<Rightarrow> stwi_state \<Rightarrow> stwi_state option" where
  "STWI_send_ResetREQ env = send_with env RFU_RESET (\<lambda>s. Some (set_txParams 0 s))"

definition STWI_send_LinkStatusREQ :: "stwi_env \<Rightarrow> stwi_state \<Rightarrow> stwi_state option" where
  "STWI_send_LinkStatusREQ env = send_with env RFU_LINK_STATUS (\<lambda>s. Some (set_txParams 0 s))"

definition STWI_send_VersionStatusREQ :: "stwi_env \<Rightarrow> stwi_state \<Rightarrow> stwi_state option" where
  "STWI_send_VersionStatusREQ env = send_with env RFU_VERSION_STATUS (\<lambda>s. Some (set_txParams 0 s))"

definition STWI_send_SystemStatusREQ :: "stwi_env \<Rightarrow> stwi_state \<Rightarrow> stwi_state option" where
  "STWI_send_SystemStatusREQ env = send_with env RFU_SYSTEM_STATUS (\<lambda>s. Some (set_txParams 0 s))"

definition STWI_send_SlotStatusREQ :: "stwi_env \<Rightarrow> stwi_state \<Rightarrow> stwi_state option" where
  "STWI_send_SlotStatusREQ env = send_with env RFU_SLOT_STATUS (\<lambda>s. Some (set_txParams 0 s))"

definition STWI_send_ConfigStatusREQ :: "stwi_env \<Rightarrow> stwi_state \<Rightarrow> stwi_state option" where
  "STWI_send_ConfigStatusREQ env = send_with env RFU_CONFIG_STATUS (\<lambda>s. Some (set_txParams 0 s))"

text \<open>The packet's data starts four bytes into the buffer, after the command word.\<close>

definition STWI_send_GameConfigREQ :: "stwi_env \<Rightarrow> u32 \<Rightarrow> u32 \<Rightarrow> stwi_state \<Rightarrow> stwi_state option" where
  "STWI_send_GameConfigREQ env unk1 data = send_with env RFU_GAME_CONFIG (\<lambda>s. do {
     let s = set_txParams 6 s;
     s \<leftarrow> packet_put 4 (arg_bytes s unk1 2) s;
     s \<leftarrow> packet_put 6 (arg_bytes s (unk1 + 2) 14) s;
     packet_put 20 (arg_bytes s data 8) s })"

definition STWI_send_SystemConfigREQ ::
  "stwi_env \<Rightarrow> u16 \<Rightarrow> u8 \<Rightarrow> u8 \<Rightarrow> stwi_state \<Rightarrow> stwi_state option" where
  "STWI_send_SystemConfigREQ env unk1 unk2 unk3 = send_with env RFU_SYSTEM_CONFIG (\<lambda>s. do {
     let s = set_txParams 1 s;
     s \<leftarrow> packet_put 4 [unk3] s;
     s \<leftarrow> packet_put 5 [unk2] s;
     packet_put 6 (u16_bytes unk1) s })"

definition STWI_send_SC_StartREQ :: "stwi_env \<Rightarrow> stwi_state \<Rightarrow> stwi_state option" where
  "STWI_send_SC_StartREQ env = send_with env RFU_SC_START (\<lambda>s. Some (set_txParams 0 s))"

definition STWI_send_SC_PollingREQ :: "stwi_env \<Rightarrow> stwi_state \<Rightarrow> stwi_state option" where
  "STWI_send_SC_PollingREQ env = send_with env RFU_SC_POLLING (\<lambda>s. Some (set_txParams 0 s))"

definition STWI_send_SC_EndREQ :: "stwi_env \<Rightarrow> stwi_state \<Rightarrow> stwi_state option" where
  "STWI_send_SC_EndREQ env = send_with env RFU_SC_END (\<lambda>s. Some (set_txParams 0 s))"

definition STWI_send_SP_StartREQ :: "stwi_env \<Rightarrow> stwi_state \<Rightarrow> stwi_state option" where
  "STWI_send_SP_StartREQ env = send_with env RFU_SP_START (\<lambda>s. Some (set_txParams 0 s))"

definition STWI_send_SP_PollingREQ :: "stwi_env \<Rightarrow> stwi_state \<Rightarrow> stwi_state option" where
  "STWI_send_SP_PollingREQ env = send_with env RFU_SP_POLLING (\<lambda>s. Some (set_txParams 0 s))"

definition STWI_send_SP_EndREQ :: "stwi_env \<Rightarrow> stwi_state \<Rightarrow> stwi_state option" where
  "STWI_send_SP_EndREQ env = send_with env RFU_SP_END (\<lambda>s. Some (set_txParams 0 s))"

definition STWI_send_CP_StartREQ :: "stwi_env \<Rightarrow> u16 \<Rightarrow> stwi_state \<Rightarrow> stwi_state option" where
  "STWI_send_CP_StartREQ env unk1 = send_with env RFU_CP_START
     (\<lambda>s. packet_put 4 (u32_bytes (ucast unk1)) (set_txParams 1 s))"

definition STWI_send_CP_PollingREQ :: "stwi_env \<Rightarrow> stwi_state \<Rightarrow> stwi_state option" where
  "STWI_send_CP_PollingREQ env = send_with env RFU_CP_POLLING (\<lambda>s. Some (set_txParams 0 s))"

definition STWI_send_CP_EndREQ :: "stwi_env \<Rightarrow> stwi_state \<Rightarrow> stwi_state option" where
  "STWI_send_CP_EndREQ env = send_with env RFU_CP_END (\<lambda>s. Some (set_txParams 0 s))"

text \<open>The number of words that hold \<open>size\<close> bytes, and the copy of that many words.\<close>

definition data_words :: "u8 \<Rightarrow> u8" where
  "data_words sz = sz div 4 + (if sz AND 3 \<noteq> 0 then 1 else 0)"

definition copy_data :: "u32 \<Rightarrow> u8 \<Rightarrow> stwi_state \<Rightarrow> stwi_state option" where
  "copy_data src sz s =
     (let s = set_txParams (data_words sz) s
      in packet_put 4 (arg_bytes s src (unat (txParams (gRfuState s)) * 4)) s)"

definition STWI_send_DataTxREQ :: "stwi_env \<Rightarrow> u32 \<Rightarrow> u8 \<Rightarrow> stwi_state \<Rightarrow> stwi_state option" where
  "STWI_send_DataTxREQ env src sz = send_with env RFU_DATA_TX (copy_data src sz)"

definition STWI_send_DataTxAndChangeREQ :: "stwi_env \<Rightarrow> u32 \<Rightarrow> u8 \<Rightarrow> stwi_state \<Rightarrow> stwi_state option" where
  "STWI_send_DataTxAndChangeREQ env src sz = send_with env RFU_DATA_TX_AND_CHANGE (copy_data src sz)"

definition STWI_send_DataRxREQ :: "stwi_env \<Rightarrow> stwi_state \<Rightarrow> stwi_state option" where
  "STWI_send_DataRxREQ env = send_with env RFU_DATA_RX (\<lambda>s. Some (set_txParams 0 s))"

definition STWI_send_MS_ChangeREQ :: "stwi_env \<Rightarrow> stwi_state \<Rightarrow> stwi_state option" where
  "STWI_send_MS_ChangeREQ env = send_with env RFU_MS_CHANGE (\<lambda>s. Some (set_txParams 0 s))"

definition STWI_send_DataReadyAndChangeREQ :: "stwi_env \<Rightarrow> u8 \<Rightarrow> stwi_state \<Rightarrow> stwi_state option" where
  "STWI_send_DataReadyAndChangeREQ env unk = send_with env RFU_DATA_READY_AND_CHANGE (\<lambda>s.
     if unk = 0 then Some (set_txParams 0 s)
     else packet_put 4 [unk, 0, 0, 0] (set_txParams 1 s))"

definition STWI_send_DisconnectedAndChangeREQ ::
  "stwi_env \<Rightarrow> u8 \<Rightarrow> u8 \<Rightarrow> stwi_state \<Rightarrow> stwi_state option" where
  "STWI_send_DisconnectedAndChangeREQ env unk0 unk1 = send_with env RFU_DISCONNECTED_AND_CHANGE
     (\<lambda>s. packet_put 4 [unk0, unk1, 0, 0] (set_txParams 1 s))"

definition STWI_send_ResumeRetransmitAndChangeREQ :: "stwi_env \<Rightarrow> stwi_state \<Rightarrow> stwi_state option" where
  "STWI_send_ResumeRetransmitAndChangeREQ env = send_with env RFU_RESUME_RETRANSMIT_AND_CHANGE (\<lambda>s. Some (set_txParams 0 s))"

definition STWI_send_DisconnectREQ :: "stwi_env \<Rightarrow> u8 \<Rightarrow> stwi_state \<Rightarrow> stwi_state option" where
  "STWI_send_DisconnectREQ env unk = send_with env RFU_DISCONNECT
     (\<lambda>s. packet_put 4 (u32_bytes (ucast unk)) (set_txParams 1 s))"

definition STWI_send_TestModeREQ :: "stwi_env \<Rightarrow> u8 \<Rightarrow> u8 \<Rightarrow> stwi_state \<Rightarrow> stwi_state option" where
  "STWI_send_TestModeREQ env unk0 unk1 = send_with env RFU_TEST_MODE
     (\<lambda>s. packet_put 4 (u32_bytes (ucast unk0 OR push_bit 8 (ucast unk1))) (set_txParams 1 s))"

definition STWI_send_CPR_StartREQ ::
  "stwi_env \<Rightarrow> u16 \<Rightarrow> u16 \<Rightarrow> u8 \<Rightarrow> stwi_state \<Rightarrow> stwi_state option" where
  "STWI_send_CPR_StartREQ env unk0 unk1 unk2 = send_with env RFU_CPR_START (\<lambda>s. do {
     let s = set_txParams 2 s;
     let arg1 = ucast unk1 OR push_bit 16 (ucast unk0);
     s \<leftarrow> packet_put 4 (u32_bytes arg1) s;
     packet_put 8 (u32_bytes (ucast unk2)) s })"

definition STWI_send_CPR_PollingREQ :: "stwi_env \<Rightarrow> stwi_state \<Rightarrow> stwi_state option" where
  "STWI_send_CPR_PollingREQ env = send_with env RFU_CPR_POLLING (\<lambda>s. Some (set_txParams 0 s))"

definition STWI_send_CPR_EndREQ :: "stwi_env \<Rightarrow> stwi_state \<Rightarrow> stwi_state option" where
  "STWI_send_CPR_EndREQ env = send_with env RFU_CPR_END (\<lambda>s. Some (set_txParams 0 s))"

definition STWI_send_StopModeREQ :: "stwi_env \<Rightarrow> stwi_state \<Rightarrow> stwi_state option" where
  "STWI_send_StopModeREQ env = send_with env RFU_STOP_MODE (\<lambda>s. Some (set_txParams 0 s))"

end
