(* ===== verification/StwiCorrect.thy ===== *)
theory StwiCorrect
  imports Stwi
begin

text \<open>
  Correctness of the wireless adapter's serial layer: every request is either refused with a
  status and nothing sent, or put into the packet buffer behind the right command word and
  started exactly once; timeouts resend it at most twice and then report failure; set-up and
  reset establish the state the requests rely on.
\<close>

unbundle bit_operations_syntax

section \<open>Registers follow the log\<close>

fun apply_event :: "(u32 \<Rightarrow> u16) \<Rightarrow> stwi_event \<Rightarrow> u32 \<Rightarrow> u16" where
  "apply_event m (W16 a v) = m(a := v)"
| "apply_event m (W32 a v) = m(a := ucast v, a + 2 := ucast (drop_bit 16 v))"
| "apply_event m (CallbackM q st) = m"

definition log_events :: "stwi_event list \<Rightarrow> stwi_state \<Rightarrow> stwi_state" where
  "log_events es s = s\<lparr>regs := foldl apply_event (regs s) es, wlog := wlog s @ es\<rparr>"

lemma w16_log: "w16 a v s = log_events [W16 a v] s"
  by (simp add: w16_def log_events_def)

lemma w32_log: "w32 a v s = log_events [W32 a v] s"
  by (simp add: w32_def log_events_def)

lemma log_events_simps [simp]:
  "gRfuState (log_events es s) = gRfuState s" "interruptStruct (log_events es s) = interruptStruct s"
  "argmem (log_events es s) = argmem s" "wlog (log_events es s) = wlog s @ es"
  "regs (log_events es s) = foldl apply_event (regs s) es"
  "log_events xs (log_events ys s) = log_events (ys @ xs) s"
  by (simp_all add: log_events_def)

lemma rfu_simps [simp]:
  "gRfuState (rfu f s) = f (gRfuState s)" "interruptStruct (rfu f s) = interruptStruct s"
  "argmem (rfu f s) = argmem s" "wlog (rfu f s) = wlog s" "regs (rfu f s) = regs s"
  "rfu f (log_events es s) = log_events es (rfu f s)" "rfu f (rfu g s) = rfu (\<lambda>r. f (g r)) s"
  by (simp_all add: rfu_def log_events_def)

lemmas log_simps = w16_log w32_log Let_def

section \<open>Packets\<close>

definition tx :: "stwi_state \<Rightarrow> u8 list" where
  "tx s = txPacketAlloc (interruptStruct s)"

definition set_tx :: "u8 list \<Rightarrow> stwi_state \<Rightarrow> stwi_state" where
  "set_tx p s = s\<lparr>interruptStruct := (interruptStruct s)\<lparr>txPacketAlloc := p\<rparr>\<rparr>"

text \<open>The packet pointer is set and the buffer has the size of \<open>RfuPacket\<close>.\<close>

definition linked :: "stwi_state \<Rightarrow> bool" where
  "linked s \<longleftrightarrow> txPacket (gRfuState s) = Some TxPacketAlloc \<and> length (tx s) = 0x74"

lemma set_tx_simps [simp]:
  "gRfuState (set_tx p s) = gRfuState s" "argmem (set_tx p s) = argmem s" "regs (set_tx p s) = regs s"
  "wlog (set_tx p s) = wlog s" "tx (set_tx p s) = p" "set_tx p (set_tx q s) = set_tx p s"
  "set_tx p (log_events es s) = log_events es (set_tx p s)" "set_tx p (rfu f s) = rfu f (set_tx p s)"
  "tx (log_events es s) = tx s" "tx (rfu f s) = tx s"
  by (simp_all add: set_tx_def tx_def rfu_def log_events_def)

lemma linked_simps [simp]:
  "linked (log_events es s) = linked s"
  "(\<And>r. txPacket (f r) = txPacket r) \<Longrightarrow> linked (rfu f s) = linked s"
  "linked (set_txParams n s) = linked s"
  "linked (set_tx p s) \<longleftrightarrow> txPacket (gRfuState s) = Some TxPacketAlloc \<and> length p = 0x74"
  by (simp_all add: linked_def set_txParams_def)

lemma packet_put_linked:
  "linked s \<Longrightarrow> packet_put off bs s = map_option (\<lambda>p. set_tx p s) (put_bytes off bs (tx s))"
  by (simp add: linked_def packet_put_def set_tx_def tx_def)

lemma packet_bytes_linked: "linked s \<Longrightarrow> packet_bytes s = Some (tx s)"
  by (simp add: linked_def packet_bytes_def tx_def)

lemma put_bytes_length: "put_bytes off bs p = Some q \<Longrightarrow> length q = length p"
  by (auto simp: put_bytes_def split: if_splits)

text \<open>Contiguous writes behind the command word combine.\<close>

definition with_payload :: "u8 list \<Rightarrow> u8 list \<Rightarrow> u8 list" where
  "with_payload pl p = take 4 p @ pl @ drop (4 + length pl) p"

lemma put_payload:
  "length p = 0x74 \<Longrightarrow> length pl \<le> 0x70 \<Longrightarrow> put_bytes 4 pl p = Some (with_payload pl p)"
  by (simp add: put_bytes_def with_payload_def)

lemma length_with_payload [simp]:
  "length p = 0x74 \<Longrightarrow> length pl \<le> 0x70 \<Longrightarrow> length (with_payload pl p) = 0x74"
  by (simp add: with_payload_def)

lemma put_payload_more:
  "length p = 0x74 \<Longrightarrow> length pl + length bs \<le> 0x70 \<Longrightarrow> off = 4 + length pl \<Longrightarrow>
   put_bytes off bs (with_payload pl p) = Some (with_payload (pl @ bs) p)"
  by (simp add: put_bytes_def with_payload_def min_def add.commute add.left_commute)

lemma bytes_u32_bytes [simp]: "bytes_u32 (u32_bytes w @ rest) = w"
proof -
  have "ucast (ucast w :: u8) OR push_bit 8 (ucast (ucast (drop_bit 8 w) :: u8)) OR
      push_bit 16 (ucast (ucast (drop_bit 16 w) :: u8)) OR push_bit 24 (ucast (ucast (drop_bit 24 w) :: u8)) = w"
    (is "?l = w")
  proof (rule bit_word_eqI)
    fix n
    assume "n < LENGTH(32)"
    then show "bit ?l n = bit w n" by (cases "n < 8"; cases "n < 16"; cases "n < 24") (auto simp: bit_simps)
  qed
  then show ?thesis by (simp add: u32_bytes_def)
qed

lemma length_u32_bytes [simp]: "length (u32_bytes w) = 4" "length (u16_bytes v) = 2"
  "length (arg_bytes s a n) = n"
  by (simp_all add: u32_bytes_def u16_bytes_def arg_bytes_def)

section \<open>Sending\<close>

text \<open>What a request needs to be accepted, and the status it is refused with.\<close>

definition accepts :: "stwi_state \<Rightarrow> bool" where
  "accepts s \<longleftrightarrow> regs s REG_ADDR_IME \<noteq> 0 \<and> unk_2c (gRfuState s) \<noteq> TRUE8 \<and> msMode (gRfuState s) \<noteq> 0"

definition refusal :: "stwi_state \<Rightarrow> u16" where
  "refusal s = (if regs s REG_ADDR_IME = 0 then 6 else if unk_2c (gRfuState s) = TRUE8 then 2 else 4)"

definition turned_down :: "stwi_env \<Rightarrow> u8 \<Rightarrow> stwi_state \<Rightarrow> stwi_state" where
  "turned_down env cmd s = call_callbackM env cmd (refusal s)
     (rfu (\<lambda>r. r\<lparr>unk_12 := refusal s,
       unk_2c := (if refusal s = 2 then FALSE8 else unk_2c r)\<rparr>) s)"

definition SIO_READY :: u16 where "SIO_READY = 0x5003"
definition SIO_START :: u16 where "SIO_START = 0x5083"

definition header :: "u8 \<Rightarrow> u8 \<Rightarrow> u32" where
  "header n cmd = 0x99660000 OR push_bit 8 (ucast n) OR ucast cmd"

text \<open>The register writes that start a transfer of \<open>w\<close>.\<close>

definition start_events :: "u32 \<Rightarrow> u16 \<Rightarrow> u16 \<Rightarrow> u16 \<Rightarrow> stwi_event list" where
  "start_events w ime ie flag = [W32 REG_ADDR_SIODATA32 w, W16 REG_ADDR_IME 0, W16 REG_ADDR_IE (ie OR flag),
     W16 REG_ADDR_IE ((ie OR flag) OR INTR_FLAG_SERIAL), W16 REG_ADDR_IME ime, W16 REG_ADDR_SIOCNT SIO_START]"

lemma STWI_start_Command_linked:
  assumes "linked s"
  shows "STWI_start_Command s = Some (log_events
    (start_events (command_word (gRfuState s)) (regs s REG_ADDR_IME) (regs s REG_ADDR_IE) (rfu_timer_flag s))
    (rfu (\<lambda>r. r\<lparr>unk_0 := 0, unk_5 := 1\<rparr>)
      (set_tx (u32_bytes (command_word (gRfuState s)) @ drop 4 (tx s)) s)))"
proof -
  let ?w = "command_word (gRfuState s)"
  have put: "put_bytes 0 (u32_bytes ?w) (tx s) = Some (u32_bytes ?w @ drop 4 (tx s))"
    using assms by (simp add: linked_def put_bytes_def)
  have "linked (set_tx (u32_bytes ?w @ drop 4 (tx s)) s)"
    using assms by (simp add: linked_def)
  then show ?thesis
    by (simp add: STWI_start_Command_def packet_put_linked assms put packet_bytes_linked log_simps
        start_events_def SIO_START_def SIO_INTR_ENABLE_def SIO_32BIT_MODE_def SIO_MULTI_BUSY_def
        SIO_115200_BPS_def rfu_timer_flag_def reg_addrs)
qed

lemma STWI_init_refuses:
  "\<not> accepts s \<Longrightarrow> STWI_init env cmd s = (1, turned_down env cmd s)"
  by (auto simp: STWI_init_def accepts_def turned_down_def refusal_def Let_def rfu_def)

text \<open>The struct and the registers once a request is accepted, before it is filled in.\<close>

definition armed :: "u8 \<Rightarrow> RfuStruct \<Rightarrow> RfuStruct" where
  "armed cmd r = r\<lparr>unk_2c := TRUE8, activeCommand := cmd, unk_0 := 0, txParams := 0, unk_5 := 0,
     unk_7 := 0, unk_8 := 0, unk_9 := 0, timerState := 0, timerActive := 0, unk_12 := 0, unk_15 := 0\<rparr>"

definition ready_events :: "stwi_event list" where
  "ready_events = [W16 REG_ADDR_RCNT 0x100, W16 REG_ADDR_SIOCNT SIO_READY]"

lemma STWI_init_accepts:
  "accepts s \<Longrightarrow> STWI_init env cmd s = (0, log_events ready_events (rfu (armed cmd) s))"
  by (simp add: STWI_init_def accepts_def log_simps ready_events_def SIO_READY_def SIO_INTR_ENABLE_def
      SIO_32BIT_MODE_def SIO_115200_BPS_def armed_def [abs_def])

text \<open>The state after a request with payload \<open>pl\<close> was accepted and started.\<close>

definition started_request :: "u8 \<Rightarrow> u8 list \<Rightarrow> RfuStruct \<Rightarrow> RfuStruct" where
  "started_request cmd pl r = (armed cmd r)\<lparr>txParams := of_nat (length pl div 4), unk_5 := 1\<rparr>"

definition request_word :: "u8 \<Rightarrow> u8 list \<Rightarrow> u32" where
  "request_word cmd pl = header (of_nat (length pl div 4)) cmd"

definition transmitted :: "u8 \<Rightarrow> u8 list \<Rightarrow> stwi_state \<Rightarrow> stwi_state" where
  "transmitted cmd pl s = log_events (ready_events @ start_events (request_word cmd pl)
       (regs s REG_ADDR_IME) (regs s REG_ADDR_IE) (rfu_timer_flag s))
     (rfu (started_request cmd pl)
       (set_tx (u32_bytes (request_word cmd pl) @ pl @ drop (4 + length pl) (tx s)) s))"

lemma started_fields:
  "(\<lambda>r. (armed cmd r)\<lparr>txParams := of_nat (length pl div 4), unk_0 := 0, unk_5 := 1\<rparr>) = started_request cmd pl"
  by (intro ext RfuStruct.equality) (simp_all add: started_request_def armed_def)

lemma send_with_accepts:
  assumes "linked s" "accepts s" "length pl \<le> 0x70"
    and fill: "\<And>t. linked t \<Longrightarrow> argmem t = argmem s \<Longrightarrow>
      fill t = Some (set_tx (with_payload pl (tx t)) (set_txParams (of_nat (length pl div 4)) t))"
  shows "send_with env cmd fill s = Some (transmitted cmd pl s)"
proof -
  let ?t = "log_events ready_events (rfu (armed cmd) s)"
  let ?u = "set_tx (with_payload pl (tx s)) (set_txParams (of_nat (length pl div 4)) ?t)"
  have lt: "linked ?t" using assms(1) by (simp add: armed_def)
  have len: "length (tx s) = 0x74" using assms(1) by (simp add: linked_def)
  have lu: "linked ?u" using lt assms(3) len by (simp add: linked_def set_txParams_def)
  have w: "command_word (gRfuState ?u) = request_word cmd pl"
    by (simp add: command_word_def set_txParams_def request_word_def header_def armed_def)
  have regs: "regs ?t REG_ADDR_IME = regs s REG_ADDR_IME" "regs ?t REG_ADDR_IE = regs s REG_ADDR_IE"
    by (simp_all add: ready_events_def reg_addrs)
  have flag: "rfu_timer_flag ?u = rfu_timer_flag s"
    by (simp add: rfu_timer_flag_def set_txParams_def armed_def)
  have tail: "drop 4 (with_payload pl (tx s)) = pl @ drop (4 + length pl) (tx s)"
    using len by (simp add: with_payload_def)
  have "fill ?t = Some ?u" using fill [OF lt] by simp
  then have "send_with env cmd fill s = STWI_start_Command ?u"
    using STWI_init_accepts [OF assms(2)] by (simp add: send_with_def)
  also have "\<dots> = Some (transmitted cmd pl s)"
    unfolding STWI_start_Command_linked [OF lu] w flag
    using regs by (simp add: tail set_txParams_def transmitted_def started_fields)
  finally show ?thesis .
qed

lemma send_with_refuses:
  "\<not> accepts s \<Longrightarrow> send_with env cmd fill s = Some (turned_down env cmd s)"
  by (simp add: send_with_def STWI_init_refuses)

section \<open>The contract of a request\<close>

text \<open>How often a log starts a transfer.\<close>

definition starts :: "stwi_event list \<Rightarrow> nat" where
  "starts es = count_list es (W16 REG_ADDR_SIOCNT SIO_START)"

locale rfu_request =
  fixes env :: stwi_env
    and op :: "stwi_state \<Rightarrow> stwi_state option"
    and cmd :: u8
    and payload :: "stwi_state \<Rightarrow> u8 list"
    and fits :: bool
  assumes accepted: "fits \<Longrightarrow> linked s \<Longrightarrow> accepts s \<Longrightarrow> op s = Some (transmitted cmd (payload s) s)"
    and refused: "\<not> accepts s \<Longrightarrow> op s = Some (turned_down env cmd s)"
    and payload_words: "4 dvd length (payload s)" "fits \<Longrightarrow> length (payload s) \<le> 0x70"
begin

lemma returns: "fits \<Longrightarrow> linked s \<Longrightarrow> op s =
   Some (if accepts s then transmitted cmd (payload s) s else turned_down env cmd s)"
  using accepted refused by simp

lemma one_start:
  assumes "fits" "linked s" "accepts s" "op s = Some t"
  shows "starts (wlog t) = Suc (starts (wlog s))"
    and "regs t REG_ADDR_IME = regs s REG_ADDR_IME" and "linked t"
proof -
  have t: "t = transmitted cmd (payload s) s" using accepted assms by simp
  show "starts (wlog t) = Suc (starts (wlog s))"
    by (simp add: t transmitted_def starts_def ready_events_def start_events_def SIO_READY_def SIO_START_def reg_addrs)
  show "regs t REG_ADDR_IME = regs s REG_ADDR_IME"
    by (simp add: t transmitted_def ready_events_def start_events_def reg_addrs)
  show "linked t"
    using assms(1,2) payload_words [of s]
    by (simp add: t transmitted_def started_request_def armed_def linked_def)
qed

end

section \<open>The requests meet the contract\<close>

datatype rfu_req =
    ReqReset
  | ReqLinkStatus
  | ReqVersionStatus
  | ReqSystemStatus
  | ReqSlotStatus
  | ReqConfigStatus
  | ReqSC_Start
  | ReqSC_Polling
  | ReqSC_End
  | ReqSP_Start
  | ReqSP_Polling
  | ReqSP_End
  | ReqCP_Polling
  | ReqCP_End
  | ReqDataRx
  | ReqMS_Change
  | ReqResumeRetransmitAndChange
  | ReqCPR_Polling
  | ReqCPR_End
  | ReqStopMode
  | ReqGameConfig u32 u32
  | ReqSystemConfig u16 u8 u8
  | ReqCP_Start u16
  | ReqDataTx u32 u8
  | ReqDataTxAndChange u32 u8
  | ReqDataReadyAndChange u8
  | ReqDisconnectedAndChange u8 u8
  | ReqDisconnect u8
  | ReqTestMode u8 u8
  | ReqCPR_Start u16 u16 u8

fun do_request :: "stwi_env \<Rightarrow> rfu_req \<Rightarrow> stwi_state \<Rightarrow> stwi_state option" where
  "do_request env ReqReset = STWI_send_ResetREQ env"
| "do_request env ReqLinkStatus = STWI_send_LinkStatusREQ env"
| "do_request env ReqVersionStatus = STWI_send_VersionStatusREQ env"
| "do_request env ReqSystemStatus = STWI_send_SystemStatusREQ env"
| "do_request env ReqSlotStatus = STWI_send_SlotStatusREQ env"
| "do_request env ReqConfigStatus = STWI_send_ConfigStatusREQ env"
| "do_request env ReqSC_Start = STWI_send_SC_StartREQ env"
| "do_request env ReqSC_Polling = STWI_send_SC_PollingREQ env"
| "do_request env ReqSC_End = STWI_send_SC_EndREQ env"
| "do_request env ReqSP_Start = STWI_send_SP_StartREQ env"
| "do_request env ReqSP_Polling = STWI_send_SP_PollingREQ env"
| "do_request env ReqSP_End = STWI_send_SP_EndREQ env"
| "do_request env ReqCP_Polling = STWI_send_CP_PollingREQ env"
| "do_request env ReqCP_End = STWI_send_CP_EndREQ env"
| "do_request env ReqDataRx = STWI_send_DataRxREQ env"
| "do_request env ReqMS_Change = STWI_send_MS_ChangeREQ env"
| "do_request env ReqResumeRetransmitAndChange = STWI_send_ResumeRetransmitAndChangeREQ env"
| "do_request env ReqCPR_Polling = STWI_send_CPR_PollingREQ env"
| "do_request env ReqCPR_End = STWI_send_CPR_EndREQ env"
| "do_request env ReqStopMode = STWI_send_StopModeREQ env"
| "do_request env (ReqGameConfig unk1 data) = STWI_send_GameConfigREQ env unk1 data"
| "do_request env (ReqSystemConfig a b c) = STWI_send_SystemConfigREQ env a b c"
| "do_request env (ReqCP_Start a) = STWI_send_CP_StartREQ env a"
| "do_request env (ReqDataTx src sz) = STWI_send_DataTxREQ env src sz"
| "do_request env (ReqDataTxAndChange src sz) = STWI_send_DataTxAndChangeREQ env src sz"
| "do_request env (ReqDataReadyAndChange a) = STWI_send_DataReadyAndChangeREQ env a"
| "do_request env (ReqDisconnectedAndChange a b) = STWI_send_DisconnectedAndChangeREQ env a b"
| "do_request env (ReqDisconnect a) = STWI_send_DisconnectREQ env a"
| "do_request env (ReqTestMode a b) = STWI_send_TestModeREQ env a b"
| "do_request env (ReqCPR_Start a b c) = STWI_send_CPR_StartREQ env a b c"

fun req_cmd :: "rfu_req \<Rightarrow> u8" where
  "req_cmd ReqReset = RFU_RESET"
| "req_cmd ReqLinkStatus = RFU_LINK_STATUS"
| "req_cmd ReqVersionStatus = RFU_VERSION_STATUS"
| "req_cmd ReqSystemStatus = RFU_SYSTEM_STATUS"
| "req_cmd ReqSlotStatus = RFU_SLOT_STATUS"
| "req_cmd ReqConfigStatus = RFU_CONFIG_STATUS"
| "req_cmd ReqSC_Start = RFU_SC_START"
| "req_cmd ReqSC_Polling = RFU_SC_POLLING"
| "req_cmd ReqSC_End = RFU_SC_END"
| "req_cmd ReqSP_Start = RFU_SP_START"
| "req_cmd ReqSP_Polling = RFU_SP_POLLING"
| "req_cmd ReqSP_End = RFU_SP_END"
| "req_cmd ReqCP_Polling = RFU_CP_POLLING"
| "req_cmd ReqCP_End = RFU_CP_END"
| "req_cmd ReqDataRx = RFU_DATA_RX"
| "req_cmd ReqMS_Change = RFU_MS_CHANGE"
| "req_cmd ReqResumeRetransmitAndChange = RFU_RESUME_RETRANSMIT_AND_CHANGE"
| "req_cmd ReqCPR_Polling = RFU_CPR_POLLING"
| "req_cmd ReqCPR_End = RFU_CPR_END"
| "req_cmd ReqStopMode = RFU_STOP_MODE"
| "req_cmd (ReqGameConfig _ _) = RFU_GAME_CONFIG"
| "req_cmd (ReqSystemConfig _ _ _) = RFU_SYSTEM_CONFIG"
| "req_cmd (ReqCP_Start _) = RFU_CP_START"
| "req_cmd (ReqDataTx _ _) = RFU_DATA_TX"
| "req_cmd (ReqDataTxAndChange _ _) = RFU_DATA_TX_AND_CHANGE"
| "req_cmd (ReqDataReadyAndChange _) = RFU_DATA_READY_AND_CHANGE"
| "req_cmd (ReqDisconnectedAndChange _ _) = RFU_DISCONNECTED_AND_CHANGE"
| "req_cmd (ReqDisconnect _) = RFU_DISCONNECT"
| "req_cmd (ReqTestMode _ _) = RFU_TEST_MODE"
| "req_cmd (ReqCPR_Start _ _ _) = RFU_CPR_START"

text \<open>The parameter bytes of each request, in the order the adapter receives them.\<close>

fun req_payload :: "rfu_req \<Rightarrow> stwi_state \<Rightarrow> u8 list" where
  "req_payload (ReqGameConfig unk1 data) s = arg_bytes s unk1 16 @ arg_bytes s data 8"
| "req_payload (ReqSystemConfig a b c) s = [c, b] @ u16_bytes a"
| "req_payload (ReqCP_Start a) s = u32_bytes (ucast a)"
| "req_payload (ReqDataTx src sz) s = arg_bytes s src (unat (data_words sz) * 4)"
| "req_payload (ReqDataTxAndChange src sz) s = arg_bytes s src (unat (data_words sz) * 4)"
| "req_payload (ReqDataReadyAndChange a) s = (if a = 0 then [] else [a, 0, 0, 0])"
| "req_payload (ReqDisconnectedAndChange a b) s = [a, b, 0, 0]"
| "req_payload (ReqDisconnect a) s = u32_bytes (ucast a)"
| "req_payload (ReqTestMode a b) s = [a, b, 0, 0]"
| "req_payload (ReqCPR_Start a b c) s = u16_bytes b @ u16_bytes a @ [c, 0, 0, 0]"
| "req_payload _ s = []"

fun req_fits :: "rfu_req \<Rightarrow> bool" where
  "req_fits (ReqDataTx src sz) = (sz \<le> 112)"
| "req_fits (ReqDataTxAndChange src sz) = (sz \<le> 112)"
| "req_fits _ = True"

lemma with_payload_Nil [simp]: "with_payload [] p = p"
  by (simp add: with_payload_def)

lemma set_tx_same [simp]: "set_tx (tx s) s = s"
  by (simp add: set_tx_def tx_def)

lemma txParams_simps [simp]:
  "tx (set_txParams n s) = tx s" "set_tx p (set_txParams n s) = set_txParams n (set_tx p s)"
  "argmem (set_txParams n s) = argmem s" "txParams (gRfuState (set_txParams n s)) = n"
  "txPacket (gRfuState (set_txParams n s)) = txPacket (gRfuState s)"
  "arg_bytes (set_txParams n s) = arg_bytes s" "arg_bytes (set_tx p s) = arg_bytes s"
  by (simp_all add: set_txParams_def arg_bytes_def fun_eq_iff)

lemma fill_none: "set_txParams 0 t = set_tx (with_payload [] (tx t)) (set_txParams (of_nat (length [] div 4)) t)"
  by simp

lemma fill_one:
  "linked t \<Longrightarrow> length pl \<le> 0x70 \<Longrightarrow> n = of_nat (length pl div 4) \<Longrightarrow>
   packet_put 4 pl (set_txParams n t)
     = Some (set_tx (with_payload pl (tx t)) (set_txParams (of_nat (length pl div 4)) t))"
  using packet_put_linked [of "set_txParams n t" 4 pl] put_payload [of "tx t" pl] by (simp add: linked_def)

lemma fill_more:
  assumes "linked t" "length pl + length bs \<le> 0x70" "off = 4 + length pl"
  shows "packet_put off bs (set_txParams n (set_tx (with_payload pl (tx t)) t))
     = Some (set_txParams n (set_tx (with_payload (pl @ bs) (tx t)) t))"
proof -
  have "length (with_payload pl (tx t)) = 0x74" using assms by (simp add: linked_def)
  then show ?thesis
    using assms packet_put_linked [of "set_txParams n (set_tx (with_payload pl (tx t)) t)" off bs]
    by (simp add: put_payload_more linked_def)
qed

lemma arg_bytes_split: "arg_bytes s a m @ arg_bytes s (a + of_nat m) n = arg_bytes s a (m + n)"
  by (rule nth_equalityI) (auto simp: arg_bytes_def nth_append add.assoc)

lemma arg_bytes_cong: "argmem t = argmem s \<Longrightarrow> arg_bytes t = arg_bytes s"
  by (simp add: arg_bytes_def fun_eq_iff)

lemma data_words_unat: "unat (data_words sz) = (unat sz + 3) div 4"
proof -
  have m: "sz AND 3 = sz mod 4"
    using take_bit_eq_mask [of 2 sz] by (simp add: take_bit_eq_mod mask_eq_exp_minus_1)
  have d: "unat (sz div 4) = unat sz div 4" and z: "sz mod 4 = 0 \<longleftrightarrow> unat sz mod 4 = 0"
    by (simp_all add: unat_div word_unat_eq_iff unat_mod)
  have bound: "unat sz < 256" using unsigned_less [of sz, where ?'a = nat] by simp
  have "unat (data_words sz) = unat sz div 4 + (if unat sz mod 4 = 0 then 0 else 1)"
    using d z bound by (auto simp: data_words_def m unat_word_ariths)
  then show ?thesis by presburger
qed

lemma test_mode_bytes: "u32_bytes (ucast (a :: u8) OR push_bit 8 (ucast (b :: u8))) = [a, b, 0, 0]"
  unfolding u32_bytes_def by (auto intro!: bit_word_eqI simp: bit_simps bits_beyond)

lemma cpr_start_bytes:
  "u32_bytes (ucast (b :: u16) OR push_bit 16 (ucast (a :: u16))) = u16_bytes b @ u16_bytes a"
  "u32_bytes (ucast (c :: u8)) = [c, 0, 0, 0]"
  unfolding u32_bytes_def u16_bytes_def by (auto intro!: bit_word_eqI simp: bit_simps bits_beyond)

lemma data_bytes_fit: "sz \<le> 112 \<Longrightarrow> unat (data_words sz) * 4 \<le> 0x70"
proof -
  assume "sz \<le> 112"
  then have "unat sz \<le> 112" by (simp add: word_le_nat_alt)
  then have "(unat sz + 3) div 4 \<le> 28" by linarith
  then show ?thesis by (simp add: data_words_unat)
qed

lemma req_payload_words: "4 dvd length (req_payload r s)"
proof -
  have "4 dvd Suc (Suc (Suc (Suc 0)))" by (simp add: numeral_eq_Suc)
  then show ?thesis by (cases r) simp_all
qed

lemma req_payload_fits: "req_fits r \<Longrightarrow> length (req_payload r s) \<le> 0x70"
  by (cases r) (simp_all add: data_bytes_fit)

lemmas send_defs =
  STWI_send_ResetREQ_def STWI_send_LinkStatusREQ_def STWI_send_VersionStatusREQ_def
  STWI_send_SystemStatusREQ_def STWI_send_SlotStatusREQ_def STWI_send_ConfigStatusREQ_def
  STWI_send_GameConfigREQ_def STWI_send_SystemConfigREQ_def STWI_send_SC_StartREQ_def
  STWI_send_SC_PollingREQ_def STWI_send_SC_EndREQ_def STWI_send_SP_StartREQ_def
  STWI_send_SP_PollingREQ_def STWI_send_SP_EndREQ_def STWI_send_CP_StartREQ_def
  STWI_send_CP_PollingREQ_def STWI_send_CP_EndREQ_def STWI_send_DataTxREQ_def
  STWI_send_DataTxAndChangeREQ_def STWI_send_DataRxREQ_def STWI_send_MS_ChangeREQ_def
  STWI_send_DataReadyAndChangeREQ_def STWI_send_DisconnectedAndChangeREQ_def
  STWI_send_ResumeRetransmitAndChangeREQ_def STWI_send_DisconnectREQ_def STWI_send_TestModeREQ_def
  STWI_send_CPR_StartREQ_def STWI_send_CPR_PollingREQ_def STWI_send_CPR_EndREQ_def STWI_send_StopModeREQ_def

lemma copy_data_fill:
  assumes "linked t" "argmem t = argmem s" "sz \<le> 112"
  shows "copy_data src sz t = Some (set_tx (with_payload (arg_bytes s src (unat (data_words sz) * 4)) (tx t))
    (set_txParams (of_nat (length (arg_bytes s src (unat (data_words sz) * 4)) div 4)) t))"
proof -
  show ?thesis
    using data_bytes_fit [OF assms(3)] fill_one [OF assms(1), of "arg_bytes s src (unat (data_words sz) * 4)" "data_words sz"]
    by (simp add: copy_data_def arg_bytes_cong [OF assms(2)])
qed

lemma do_request_refuses: "\<not> accepts s \<Longrightarrow> do_request env r s = Some (turned_down env (req_cmd r) s)"
  by (cases r) (simp_all add: send_defs send_with_refuses)

lemma GameConfig_fill:
  assumes "linked t" "argmem t = argmem s"
  shows "(do { let s = set_txParams 6 t;
     s \<leftarrow> packet_put 4 (arg_bytes s unk1 2) s;
     s \<leftarrow> packet_put 6 (arg_bytes s (unk1 + 2) 14) s;
     packet_put 20 (arg_bytes s data 8) s }) =
    Some (set_tx (with_payload (arg_bytes s unk1 16 @ arg_bytes s data 8) (tx t)) (set_txParams 6 t))"
proof -
  have "packet_put 4 (arg_bytes s unk1 2) (set_txParams 6 t)
      = Some (set_txParams 6 (set_tx (with_payload (arg_bytes s unk1 2) (tx t)) t))"
    using fill_more [OF assms(1), of "[]" "arg_bytes s unk1 2" 4 6] by simp
  moreover note fill_more [OF assms(1), of "arg_bytes s unk1 2" "arg_bytes s (unk1 + 2) 14" 6 6]
  moreover note fill_more [OF assms(1), of "arg_bytes s unk1 16" "arg_bytes s data 8" 20 6]
  moreover have "arg_bytes s unk1 2 @ arg_bytes s (unk1 + 2) 14 = arg_bytes s unk1 16"
    using arg_bytes_split [of s unk1 2 14] by simp
  ultimately show ?thesis by (simp add: arg_bytes_cong [OF assms(2)])
qed

lemma SystemConfig_fill:
  assumes "linked t"
  shows "(do { let s = set_txParams 1 t;
     s \<leftarrow> packet_put 4 [c] s;
     s \<leftarrow> packet_put 5 [b] s;
     packet_put 6 (u16_bytes a) s }) =
    Some (set_tx (with_payload ([c, b] @ u16_bytes a) (tx t)) (set_txParams 1 t))"
  using fill_more [OF assms, of "[]" "[c]" 4 1] fill_more [OF assms, of "[c]" "[b]" 5 1]
    fill_more [OF assms, of "[c, b]" "u16_bytes a" 6 1]
  by simp

lemma CPR_Start_fill:
  assumes "linked t"
  shows "(do { let s = set_txParams 2 t;
     let arg1 = ucast b OR push_bit 16 (ucast a);
     s \<leftarrow> packet_put 4 (u32_bytes arg1) s;
     packet_put 8 (u32_bytes (ucast c)) s }) =
    Some (set_tx (with_payload (u16_bytes b @ u16_bytes a @ [c, 0, 0, 0]) (tx t)) (set_txParams 2 t))"
proof -
  have "packet_put 4 (u16_bytes b @ u16_bytes a) (set_txParams 2 t)
      = Some (set_txParams 2 (set_tx (with_payload (u16_bytes b @ u16_bytes a) (tx t)) t))"
    using fill_more [OF assms, of "[]" "u16_bytes b @ u16_bytes a" 4 2] by simp
  moreover have "packet_put 8 [c, 0, 0, 0] (set_txParams 2 (set_tx (with_payload (u16_bytes b @ u16_bytes a) (tx t)) t))
      = Some (set_txParams 2 (set_tx (with_payload ((u16_bytes b @ u16_bytes a) @ [c, 0, 0, 0]) (tx t)) t))"
    by (rule fill_more [OF assms]) simp_all
  ultimately show ?thesis
    by (simp only: Let_def cpr_start_bytes bind.bind_lunit append_assoc txParams_simps)
qed

lemma send_none:
  "linked s \<Longrightarrow> accepts s \<Longrightarrow>
   send_with env cmd (\<lambda>s. Some (set_txParams 0 s)) s = Some (transmitted cmd [] s)"
  by (rule send_with_accepts) simp_all

lemma send_one:
  "linked s \<Longrightarrow> accepts s \<Longrightarrow> length pl \<le> 0x70 \<Longrightarrow> n = of_nat (length pl div 4) \<Longrightarrow>
   send_with env cmd (\<lambda>s. packet_put 4 pl (set_txParams n s)) s = Some (transmitted cmd pl s)"
  by (rule send_with_accepts) (simp_all add: fill_one)

lemma do_request_accepts:
  assumes "req_fits r" "linked s" "accepts s"
  shows "do_request env r s = Some (transmitted (req_cmd r) (req_payload r s) s)"
proof (cases r)
  case (ReqGameConfig unk1 data)
  show ?thesis
    unfolding ReqGameConfig do_request.simps req_cmd.simps req_payload.simps STWI_send_GameConfigREQ_def
    by (rule send_with_accepts [OF assms(2,3)], simp, subst GameConfig_fill [where s = s]) simp_all
next
  case (ReqSystemConfig a b c)
  show ?thesis
    unfolding ReqSystemConfig do_request.simps req_cmd.simps req_payload.simps STWI_send_SystemConfigREQ_def
    by (rule send_with_accepts [OF assms(2,3)], simp, subst SystemConfig_fill) simp_all
next
  case (ReqCPR_Start a b c)
  show ?thesis
    unfolding ReqCPR_Start do_request.simps req_cmd.simps req_payload.simps STWI_send_CPR_StartREQ_def
    by (rule send_with_accepts [OF assms(2,3)], simp, subst CPR_Start_fill) simp_all
next
  case (ReqDataTx src sz)
  show ?thesis
    unfolding ReqDataTx do_request.simps req_cmd.simps req_payload.simps STWI_send_DataTxREQ_def
    by (rule send_with_accepts [OF assms(2,3)])
      (use assms(1) ReqDataTx in \<open>simp_all add: data_bytes_fit copy_data_fill [where s = s]\<close>)
next
  case (ReqDataTxAndChange src sz)
  show ?thesis
    unfolding ReqDataTxAndChange do_request.simps req_cmd.simps req_payload.simps STWI_send_DataTxAndChangeREQ_def
    by (rule send_with_accepts [OF assms(2,3)])
      (use assms(1) ReqDataTxAndChange in \<open>simp_all add: data_bytes_fit copy_data_fill [where s = s]\<close>)
qed (simp_all add: send_defs send_none send_one assms test_mode_bytes)

interpretation req: rfu_request env "do_request env r" "req_cmd r" "req_payload r" "req_fits r" for env r
  by unfold_locales
    (simp_all add: do_request_accepts do_request_refuses req_payload_words req_payload_fits)

section \<open>Retries\<close>

definition stopped_events :: "stwi_state \<Rightarrow> stwi_event list" where
  "stopped_events s = [W16 (REG_TMCNT_L (timerSelect (gRfuState s))) 0,
     W16 (REG_TMCNT_H (timerSelect (gRfuState s))) 0]"

lemma STWI_stop_timer_log:
  "STWI_stop_timer s = log_events (stopped_events s) (rfu (\<lambda>r. r\<lparr>timerState := 0\<rparr>) s)"
  by (simp add: STWI_stop_timer_def log_simps stopped_events_def)

text \<open>The registers of the four timers are not the interrupt registers.\<close>

lemma timer_regs_distinct:
  assumes "n < 4"
  shows "REG_TMCNT_L n \<notin> {REG_ADDR_IME, REG_ADDR_IE, REG_ADDR_SIOCNT}"
    "REG_TMCNT_H n \<notin> {REG_ADDR_IME, REG_ADDR_IE, REG_ADDR_SIOCNT}"
proof -
  have "n = 0 \<or> n = 1 \<or> n = 2 \<or> n = 3" using assms by (simp add: u8_less_4)
  then show "REG_TMCNT_L n \<notin> {REG_ADDR_IME, REG_ADDR_IE, REG_ADDR_SIOCNT}"
    "REG_TMCNT_H n \<notin> {REG_ADDR_IME, REG_ADDR_IE, REG_ADDR_SIOCNT}"
    by (elim disjE; simp add: REG_TMCNT_L_def REG_TMCNT_H_def reg_addrs)+
qed

lemma starts_append [simp]: "starts (xs @ ys) = starts xs + starts ys"
  by (simp add: starts_def)

lemma starts_stopped: "timerSelect (gRfuState s) < 4 \<Longrightarrow> starts (stopped_events s) = 0"
  using timer_regs_distinct [of "timerSelect (gRfuState s)"] by (auto simp: starts_def stopped_events_def)

lemma starts_start: "starts (start_events w ime ie flag) = 1"
  by (simp add: starts_def start_events_def SIO_START_def reg_addrs)

text \<open>Resending: the same command word and packet go out again.\<close>

definition resent :: "stwi_state \<Rightarrow> stwi_state" where
  "resent s = log_events
    (start_events (command_word (gRfuState s)) (regs s REG_ADDR_IME) (regs s REG_ADDR_IE) (rfu_timer_flag s))
    (rfu (\<lambda>r. r\<lparr>unk_15 := unk_15 r + 1, unk_0 := 0, unk_5 := 1\<rparr>)
      (set_tx (u32_bytes (command_word (gRfuState s)) @ drop 4 (tx s)) s))"

text \<open>Giving up: status 1, not busy, and the callback hears about the command.\<close>

definition keeps_role :: "u8 \<Rightarrow> bool" where
  "keeps_role cmd \<longleftrightarrow> cmd \<in> {RFU_MS_CHANGE, RFU_DATA_TX_AND_CHANGE, RFU_UNK35, RFU_RESUME_RETRANSMIT_AND_CHANGE}"

definition given_up :: "stwi_env \<Rightarrow> stwi_state \<Rightarrow> stwi_state" where
  "given_up env s =
     (let t = call_callbackM env (activeCommand (gRfuState s)) 1 (rfu (\<lambda>r. r\<lparr>unk_12 := 1, unk_2c := 0\<rparr>) s)
      in if keeps_role (activeCommand (gRfuState s)) then t else rfu (\<lambda>r. r\<lparr>unk_0 := 4\<rparr>) t)"

lemma STWI_restart_Command_linked:
  assumes "linked s"
  shows "STWI_restart_Command env s = Some (if unk_15 (gRfuState s) \<le> 1 then resent s else given_up env s)"
proof (cases "unk_15 (gRfuState s) \<le> 1")
  case True
  let ?t = "rfu (\<lambda>r. r\<lparr>unk_15 := unk_15 r + 1\<rparr>) s"
  have "linked ?t" using assms by simp
  then show ?thesis
    using True
    by (simp add: STWI_restart_Command_def STWI_start_Command_linked resent_def command_word_def rfu_timer_flag_def)
next
  case False
  then show ?thesis
    by (auto simp: STWI_restart_Command_def given_up_def keeps_role_def Let_def)
qed

lemma STWI_intr_timer_timeout:
  assumes "linked s" "timerState (gRfuState s) = 1 \<or> timerState (gRfuState s) = 4"
  shows "STWI_intr_timer env s = Some (if unk_15 (gRfuState s) \<le> 1 then resent (STWI_stop_timer s)
    else given_up env (STWI_stop_timer s))"
proof -
  have "linked (STWI_stop_timer s)" using assms(1) by (simp add: STWI_stop_timer_log)
  then show ?thesis
    using assms(2) by (auto simp: STWI_intr_timer_def STWI_restart_Command_linked STWI_stop_timer_log)
qed

section \<open>Runs\<close>

text \<open>
  What can happen after a request was accepted, until the game makes another one: the serial
  interrupt handler sets or stops the timer, and the timer fires.
\<close>

inductive timer_step :: "stwi_env \<Rightarrow> stwi_state \<Rightarrow> stwi_state \<Rightarrow> bool" for env where
  SetTimer: "timer_step env s (STWI_set_timer k s)"
| StopTimer: "timer_step env s (STWI_stop_timer s)"
| Fires: "STWI_intr_timer env s = Some t \<Longrightarrow> timer_step env s t"

text \<open>A callback that only looks: it makes no further request and writes no register.\<close>

definition only_looks :: "stwi_env \<Rightarrow> bool" where
  "only_looks env \<longleftrightarrow> (\<forall>f q st s. run_callback env f q st s = s)"

text \<open>Transfers started so far and resends left never exceed \<open>n\<close>.\<close>

definition budget :: "nat \<Rightarrow> stwi_state \<Rightarrow> bool" where
  "budget n s \<longleftrightarrow> linked s \<and> timerSelect (gRfuState s) < 4 \<and> unat (unk_15 (gRfuState s)) \<le> 2
     \<and> starts (wlog s) + 2 \<le> n + unat (unk_15 (gRfuState s))"

definition timer_code :: "u8 \<Rightarrow> s32 option" where
  "timer_code k = (if k = 50 then Some 1 else if k = 80 then Some 2 else if k = 100 then Some 3
     else if k = 130 then Some 4 else None)"

definition timer_load :: "u8 \<Rightarrow> u16" where
  "timer_load k = (if k = 50 then 0xFCCB else if k = 80 then 0xFAE0 else if k = 100 then 0xF996 else 0xF7AD)"

definition timer_events :: "u8 \<Rightarrow> stwi_state \<Rightarrow> stwi_event list" where
  "timer_events k s = [W16 REG_ADDR_IME 0]
     @ (if timer_code k = None then [] else [W16 (REG_TMCNT_L (timerSelect (gRfuState s))) (timer_load k)])
     @ [W16 (REG_TMCNT_H (timerSelect (gRfuState s))) 0xC3, W16 REG_ADDR_IF (rfu_timer_flag s), W16 REG_ADDR_IME 1]"

definition timer_coded :: "u8 \<Rightarrow> RfuStruct \<Rightarrow> RfuStruct" where
  "timer_coded k r = (case timer_code k of None \<Rightarrow> r | Some c \<Rightarrow> r\<lparr>timerState := c\<rparr>)"

lemma rfu_id: "rfu (\<lambda>r. r) s = s"
  by (simp add: rfu_def)

lemma STWI_set_timer_log: "STWI_set_timer k s = log_events (timer_events k s) (rfu (timer_coded k) s)"
  by (simp add: STWI_set_timer_def log_simps timer_events_def timer_coded_def [abs_def] timer_code_def
      timer_load_def rfu_timer_flag_def TIMER_ENABLE_def TIMER_INTR_ENABLE_def TIMER_1024CLK_def rfu_id)

lemma starts_timer: "timerSelect (gRfuState s) < 4 \<Longrightarrow> starts (timer_events k s) = 0"
  using timer_regs_distinct [of "timerSelect (gRfuState s)"]
  by (auto simp: starts_def timer_events_def reg_addrs)

lemma timer_coded_simps [simp]:
  "txPacket (timer_coded k r) = txPacket r" "timerSelect (timer_coded k r) = timerSelect r"
  "unk_15 (timer_coded k r) = unk_15 r"
  by (simp_all add: timer_coded_def split: option.splits)

lemma budget_set_timer: "budget n s \<Longrightarrow> budget n (STWI_set_timer k s)"
  by (simp add: budget_def STWI_set_timer_log starts_timer)

lemma budget_stop_timer: "budget n s \<Longrightarrow> budget n (STWI_stop_timer s)"
  by (simp add: budget_def STWI_stop_timer_log starts_stopped)

lemma budget_rfu:
  "(\<And>r. txPacket (f r) = txPacket r) \<Longrightarrow> (\<And>r. timerSelect (f r) = timerSelect r) \<Longrightarrow>
   (\<And>r. unk_15 (f r) = unk_15 r) \<Longrightarrow> budget n (rfu f s) = budget n s"
  by (simp add: budget_def)

lemma budget_callback: "only_looks env \<Longrightarrow> budget n s \<Longrightarrow> budget n (call_callbackM env q st s)"
  by (auto simp: call_callbackM_def only_looks_def budget_def Let_def starts_def linked_def tx_def)

lemma budget_resent:
  assumes "budget n s" "unk_15 (gRfuState s) \<le> 1"
  shows "budget n (resent s)"
proof -
  let ?k = "unk_15 (gRfuState s)"
  have "unat (?k + 1) = unat ?k + 1" "unat ?k \<le> 1"
    using assms(2) by (simp_all add: word_le_nat_alt unat_word_ariths)
  then show ?thesis
    using assms(1) by (simp add: budget_def resent_def starts_start linked_def)
qed

lemma budget_given_up: "only_looks env \<Longrightarrow> budget n s \<Longrightarrow> budget n (given_up env s)"
  by (simp add: given_up_def Let_def budget_rfu budget_callback)

lemma starts_reset: "starts [W32 a v, W16 REG_ADDR_SIOCNT 0, W16 REG_ADDR_SIOCNT 0x5003, W16 REG_ADDR_SIOCNT 0x5082] = 0"
  by (simp add: starts_def SIO_START_def)

lemma STWI_reset_ClockCounter_log:
  "STWI_reset_ClockCounter s = log_events [W32 REG_ADDR_SIODATA32 0x80000000, W16 REG_ADDR_SIOCNT 0,
     W16 REG_ADDR_SIOCNT 0x5003, W16 REG_ADDR_SIOCNT 0x5082] (rfu (\<lambda>r. r\<lparr>unk_0 := 5, txParams := 0, unk_5 := 0\<rparr>) s)"
  by (simp add: STWI_reset_ClockCounter_def log_simps SIO_INTR_ENABLE_def SIO_32BIT_MODE_def SIO_115200_BPS_def)

lemma budget_log: "starts es = 0 \<Longrightarrow> budget n (log_events es s) = budget n s"
  by (simp add: budget_def)

lemma timer_step_budget:
  assumes "only_looks env" "timer_step env s t" "budget n s"
  shows "budget n t"
  using assms(2)
proof cases
  case (SetTimer k)
  then show ?thesis using budget_set_timer assms(3) by simp
next
  case StopTimer
  then show ?thesis using budget_stop_timer assms(3) by simp
next
  case Fires
  let ?st = "timerState (gRfuState s)"
  have l: "linked s" using assms(3) by (simp add: budget_def)
  consider "?st = 1 \<or> ?st = 4" | "?st = 2" | "?st = 3" | "?st \<notin> {1, 2, 3, 4}" by blast
  then show ?thesis
  proof cases
    case 1
    note stop = budget_stop_timer [OF assms(3)]
    have "unk_15 (gRfuState (STWI_stop_timer s)) = unk_15 (gRfuState s)" by (simp add: STWI_stop_timer_log)
    then show ?thesis
      using STWI_intr_timer_timeout [OF l 1, of env] Fires budget_resent [OF stop] budget_given_up [OF assms(1) stop]
      by (auto split: if_splits)
  next
    case 2
    then show ?thesis
      using Fires budget_set_timer [of n "rfu (\<lambda>r. r\<lparr>timerActive := 1\<rparr>) s" 50] assms(3)
      by (simp add: STWI_intr_timer_def budget_rfu)
  next
    case 3
    then show ?thesis
      using Fires budget_stop_timer [of n "rfu (\<lambda>r. r\<lparr>timerActive := 1\<rparr>) s"] assms(1,3)
      by (auto simp: STWI_intr_timer_def STWI_reset_ClockCounter_log Let_def budget_rfu budget_log starts_reset
          intro!: budget_callback)
  next
    case 4
    then show ?thesis using Fires assms(3) by (simp add: STWI_intr_timer_def Let_def)
  qed
qed

section \<open>Set-up, reset and polling\<close>

definition stwi_power_on :: stwi_state where
  "stwi_power_on = \<lparr>gRfuState = \<lparr>unk_0 = 7, txParams = 7, unk_5 = 7, activeCommand = 7, unk_7 = 7, unk_8 = 7,
     unk_9 = 7, timerSelect = 7, timerState = 7, timerActive = 7, unk_12 = 7, msMode = 7, unk_15 = 7,
     callbackM = 7, callbackS = 7, callbackID = 7, txPacket = None, rxPacket = None, unk_2c = 7\<rparr>,
     rfu_at = Block1, interruptStruct = \<lparr>rxPacketAlloc = replicate 0x74 0, txPacketAlloc = replicate 0x74 0,
       block1 = replicate 0x960 0, block2 = replicate 0x30 0\<rparr>, sio_intr = None, timer_intr = None,
     argmem = (\<lambda>a. ucast a), regs = (\<lambda>_. 0)(REG_ADDR_IME := 1), wlog = []\<rparr>"

definition sample_stwi_env :: stwi_env where
  "sample_stwi_env = \<lparr>code_IntrSIO32 = replicate 0x960 0x47, run_callback = (\<lambda>f q st s. s),
     between_polls = rfu (\<lambda>r. r\<lparr>unk_2c := 0\<rparr>),
     timer_count = (\<lambda>h. of_nat (length h))\<rparr>"

lemma reset_pulse_reaches:
  assumes "timer_count env (wlog s @ replicate n (W16 REG_ADDR_RCNT 0x80A2)) > 0x11"
  shows "\<exists>k \<le> n. reset_pulse env s = Some (log_events (replicate k (W16 REG_ADDR_RCNT 0x80A2)) s)
    \<and> timer_count env (wlog s @ replicate k (W16 REG_ADDR_RCNT 0x80A2)) > 0x11"
  using assms
proof (induction n arbitrary: s)
  case 0
  then show ?case
    by (subst reset_pulse.simps) (auto simp: not_less log_events_def intro!: exI [of _ 0])
next
  case (Suc n)
  let ?w = "W16 REG_ADDR_RCNT 0x80A2"
  show ?case
  proof (cases "timer_count env (wlog s) \<le> 0x11")
    case False
    then show ?thesis
      by (subst reset_pulse.simps) (auto simp: not_le log_events_def intro!: exI [of _ 0])
  next
    case True
    let ?s = "w16 REG_ADDR_RCNT 0x80A2 s"
    have app: "replicate (Suc k) ?w = ?w # replicate k ?w" for k by simp
    have "timer_count env (wlog ?s @ replicate n ?w) > 0x11"
      using Suc.prems by (simp add: w16_def)
    from Suc.IH [OF this] obtain k where k: "k \<le> n"
      "reset_pulse env ?s = Some (log_events (replicate k ?w) ?s)"
      "timer_count env (wlog ?s @ replicate k ?w) > 0x11" by blast
    have "log_events (replicate k ?w) ?s = log_events (replicate (Suc k) ?w) s"
      by (simp add: w16_log)
    moreover have "wlog ?s @ replicate k ?w = wlog s @ replicate (Suc k) ?w"
      by (simp add: w16_def)
    ultimately show ?thesis
      using k True by (intro exI [of _ "Suc k"]) (subst reset_pulse.simps, simp)
  qed
qed

lemma poll_reaches:
  "(\<And>m. m < n \<Longrightarrow> unk_2c (gRfuState ((between_polls env ^^ m) s)) = TRUE8) \<Longrightarrow>
   unk_2c (gRfuState ((between_polls env ^^ n) s)) \<noteq> TRUE8 \<Longrightarrow>
   STWI_poll_CommandEnd env s =
     Some (unk_12 (gRfuState ((between_polls env ^^ n) s)), (between_polls env ^^ n) s)"
proof (induction n arbitrary: s)
  case 0
  then show ?case by (subst STWI_poll_CommandEnd.simps) simp
next
  case (Suc n)
  have "unk_2c (gRfuState s) = TRUE8" using Suc.prems(1) [of 0] by simp
  moreover have "STWI_poll_CommandEnd env (between_polls env s) =
     Some (unk_12 (gRfuState ((between_polls env ^^ n) (between_polls env s))), (between_polls env ^^ n) (between_polls env s))"
  proof (rule Suc.IH)
    show "unk_2c (gRfuState ((between_polls env ^^ m) (between_polls env s))) = TRUE8" if "m < n" for m
      using Suc.prems(1) [of "Suc m"] that by (simp add: funpow_swap1)
    show "unk_2c (gRfuState ((between_polls env ^^ n) (between_polls env s))) \<noteq> TRUE8"
      using Suc.prems(2) by (simp add: funpow_swap1)
  qed
  ultimately show ?case by (subst STWI_poll_CommandEnd.simps) (simp add: funpow_swap1)
qed

lemma overrun: "linked s \<Longrightarrow> 0x70 < length bs \<Longrightarrow> packet_put 4 bs s = None"
  by (simp add: packet_put_linked put_bytes_def linked_def)

lemma data_words_overrun: "112 < sz \<Longrightarrow> 0x70 < unat (data_words sz) * 4"
proof -
  assume "112 < sz"
  then have "112 < unat sz" by (simp add: word_less_nat_alt)
  then have "28 < (unat sz + 3) div 4" by linarith
  then show ?thesis by (simp add: data_words_unat)
qed

lemma copy_data_overrun: "linked t \<Longrightarrow> 112 < sz \<Longrightarrow> copy_data src sz t = None"
  by (simp add: copy_data_def overrun data_words_overrun)

lemma sample_stwi_linked:
  "linked (STWI_init_timer 3 (STWI_init_all sample_stwi_env TRUE8 stwi_power_on))"
  "accepts (STWI_init_timer 3 (STWI_init_all sample_stwi_env TRUE8 stwi_power_on))"
  "timerSelect (gRfuState (STWI_init_timer 3 (STWI_init_all sample_stwi_env TRUE8 stwi_power_on))) < 4"
  "starts (wlog (STWI_init_timer 3 (STWI_init_all sample_stwi_env TRUE8 stwi_power_on))) = 0"
  by (simp_all add: STWI_init_all_def STWI_init_timer_def STWI_init_Callback_M_def STWI_init_Callback_S_def
      STWI_set_Callback_M_def STWI_set_Callback_S_def IntrEnable_def w16_def rfu_def linked_def tx_def accepts_def
      stwi_power_on_def starts_def SIO_START_def SIO_INTR_ENABLE_def SIO_32BIT_MODE_def SIO_115200_BPS_def
      Let_def reg_addrs)

section \<open>Guarantees\<close>

text \<open>
  C8. An accepted request of any kind goes out exactly as the adapter expects it: the packet
  buffer holds the word 0x9966, number of parameter words, command code, then the parameter
  bytes of that request; that word is what the serial data register is loaded with; and one
  transfer is started, with the serial and timer interrupts enabled and the master enable as
  it was found. The driver is then busy with that command and has made no resend.
\<close>
theorem rfu_request_sent:
  assumes "linked s" "accepts s" "req_fits r"
  shows "\<exists>t. do_request env r s = Some t \<and> linked t
    \<and> tx t = u32_bytes (header (of_nat (length (req_payload r s) div 4)) (req_cmd r)) @ req_payload r s
        @ drop (4 + length (req_payload r s)) (tx s)
    \<and> wlog t = wlog s @ [W16 REG_ADDR_RCNT 0x100, W16 REG_ADDR_SIOCNT 0x5003,
        W32 REG_ADDR_SIODATA32 (header (of_nat (length (req_payload r s) div 4)) (req_cmd r)),
        W16 REG_ADDR_IME 0, W16 REG_ADDR_IE (regs s REG_ADDR_IE OR rfu_timer_flag s),
        W16 REG_ADDR_IE ((regs s REG_ADDR_IE OR rfu_timer_flag s) OR INTR_FLAG_SERIAL),
        W16 REG_ADDR_IME (regs s REG_ADDR_IME), W16 REG_ADDR_SIOCNT 0x5083]
    \<and> starts (wlog t) = Suc (starts (wlog s)) \<and> regs t REG_ADDR_IME = regs s REG_ADDR_IME
    \<and> unk_2c (gRfuState t) = TRUE8 \<and> activeCommand (gRfuState t) = req_cmd r \<and> unk_15 (gRfuState t) = 0
    \<and> unk_12 (gRfuState t) = 0"
proof -
  let ?t = "transmitted (req_cmd r) (req_payload r s) s"
  have t: "do_request env r s = Some ?t" by (rule req.accepted [OF assms(3,1,2)])
  note one = req.one_start [OF assms(3,1,2) t]
  show ?thesis
    using t one by (simp add: transmitted_def request_word_def ready_events_def start_events_def
        SIO_READY_def SIO_START_def started_request_def armed_def)
qed

theorem rfu_request_sent_witness:
  "\<exists>t. do_request sample_stwi_env (ReqSystemConfig 0x3C 0x12 0x34)
      (STWI_init_timer 3 (STWI_init_all sample_stwi_env TRUE8 stwi_power_on)) = Some t
    \<and> activeCommand (gRfuState t) = RFU_SYSTEM_CONFIG \<and> take 8 (tx t) = [0x17, 0x01, 0x66, 0x99, 0x34, 0x12, 0x3C, 0x00]"
  using rfu_request_sent [OF sample_stwi_linked(1,2), of "ReqSystemConfig 0x3C 0x12 0x34" sample_stwi_env]
  by (auto simp: header_def RFU_SYSTEM_CONFIG_def u32_bytes_def u16_bytes_def)

text \<open>
  C9. A refused request sends nothing. The status says why (6 when interrupts are off, 2 when
  a command is in progress, 4 when the driver is not the clock master), the game's callback
  is told the request and that status, and up to that call neither a register nor the packet
  buffer was written. Being refused as busy clears the busy flag.
\<close>
theorem rfu_request_refused:
  assumes "\<not> accepts s"
  shows "\<exists>u. do_request env r s = Some (call_callbackM env (req_cmd r) (STWI_read_status 0 u) u)
    \<and> wlog u = wlog s \<and> regs u = regs s \<and> interruptStruct u = interruptStruct s
    \<and> STWI_read_status 0 u = (if regs s REG_ADDR_IME = 0 then 6 else if unk_2c (gRfuState s) = TRUE8 then 2 else 4)
    \<and> unk_2c (gRfuState u) = (if regs s REG_ADDR_IME \<noteq> 0 \<and> unk_2c (gRfuState s) = TRUE8 then 0 else unk_2c (gRfuState s))
    \<and> gRfuState u = (gRfuState s)\<lparr>unk_12 := STWI_read_status 0 u, unk_2c := unk_2c (gRfuState u)\<rparr>"
proof -
  let ?u = "rfu (\<lambda>r. r\<lparr>unk_12 := refusal s, unk_2c := (if refusal s = 2 then FALSE8 else unk_2c r)\<rparr>) s"
  have "do_request env r s = Some (call_callbackM env (req_cmd r) (STWI_read_status 0 ?u) ?u)"
    using req.refused [OF assms] by (simp add: turned_down_def STWI_read_status_def)
  then show ?thesis
    by (intro exI [of _ ?u]) (simp add: STWI_read_status_def refusal_def)
qed

theorem rfu_request_refused_witness:
  "\<exists>u. do_request sample_stwi_env ReqMS_Change (STWI_set_MS_mode 0 (STWI_init_all sample_stwi_env FALSE8 stwi_power_on))
      = Some (call_callbackM sample_stwi_env RFU_MS_CHANGE 4 u)"
proof -
  let ?s = "STWI_set_MS_mode 0 (STWI_init_all sample_stwi_env FALSE8 stwi_power_on)"
  have "\<not> accepts ?s" "regs ?s REG_ADDR_IME = 1" "unk_2c (gRfuState ?s) = 0"
    by (simp_all add: STWI_init_all_def STWI_set_MS_mode_def STWI_init_Callback_M_def STWI_init_Callback_S_def
      STWI_set_Callback_M_def STWI_set_Callback_S_def IntrEnable_def w16_def rfu_def accepts_def
      stwi_power_on_def Let_def reg_addrs)
  then show ?thesis
    using rfu_request_refused [of ?s sample_stwi_env ReqMS_Change] by auto
qed



text \<open>
  A timeout of a running command stops the timer and then either resends or gives up. The
  first and second time the same command word goes out again and nothing else of the packet
  changes. The third time nothing is sent: the status becomes 1, the driver is no longer
  busy, the callback is told the command that failed, and unless the command hands over the
  clock the state afterwards is 4.
\<close>
theorem STWI_intr_timer_timeouts:
  assumes "linked s" "timerState (gRfuState s) \<in> {1, 4}"
  shows "\<exists>t. STWI_intr_timer env s = Some t
    \<and> (if unk_15 (gRfuState s) \<le> 1
       then wlog t = wlog s @ stopped_events s @ start_events (command_word (gRfuState s))
              (regs (STWI_stop_timer s) REG_ADDR_IME) (regs (STWI_stop_timer s) REG_ADDR_IE) (rfu_timer_flag s)
            \<and> drop 4 (tx t) = drop 4 (tx s) \<and> unk_15 (gRfuState t) = unk_15 (gRfuState s) + 1
            \<and> timerState (gRfuState t) = 0
       else \<exists>u. wlog u = wlog s @ stopped_events s \<and> unk_12 (gRfuState u) = 1 \<and> unk_2c (gRfuState u) = 0
            \<and> tx u = tx s \<and> t = rfu (\<lambda>r. if keeps_role (activeCommand (gRfuState s)) then r else r\<lparr>unk_0 := 4\<rparr>)
                (call_callbackM env (activeCommand (gRfuState s)) 1 u))"
proof (cases "unk_15 (gRfuState s) \<le> 1")
  case True
  have len: "length (tx s) = 0x74" using assms(1) by (simp add: linked_def)
  show ?thesis
    using STWI_intr_timer_timeout [of s env] assms True len
    by (simp add: resent_def STWI_stop_timer_log command_word_def rfu_timer_flag_def)
next
  case False
  let ?u = "rfu (\<lambda>r. r\<lparr>unk_12 := 1, unk_2c := 0\<rparr>) (STWI_stop_timer s)"
  have "STWI_intr_timer env s = Some (rfu (\<lambda>r. if keeps_role (activeCommand (gRfuState s)) then r else r\<lparr>unk_0 := 4\<rparr>)
      (call_callbackM env (activeCommand (gRfuState s)) 1 ?u))"
    using STWI_intr_timer_timeout [of s env] assms False
    by (auto simp: given_up_def STWI_stop_timer_log Let_def rfu_id)
  moreover have "wlog ?u = wlog s @ stopped_events s" "unk_12 (gRfuState ?u) = 1" "unk_2c (gRfuState ?u) = 0"
    "tx ?u = tx s"
    by (simp_all add: STWI_stop_timer_log)
  ultimately show ?thesis using False by (simp only: if_False) blast
qed

theorem STWI_intr_timer_timeouts_witness:
  "\<exists>t. STWI_intr_timer sample_stwi_env (rfu (\<lambda>r. r\<lparr>timerState := 4, unk_15 := 1\<rparr>)
      (STWI_init_timer 3 (STWI_init_all sample_stwi_env TRUE8 stwi_power_on))) = Some t
    \<and> unk_15 (gRfuState t) = 2 \<and> timerState (gRfuState t) = 0"
proof -
  let ?s = "rfu (\<lambda>r. r\<lparr>timerState := 4, unk_15 := 1\<rparr>)
      (STWI_init_timer 3 (STWI_init_all sample_stwi_env TRUE8 stwi_power_on))"
  have "linked ?s" using sample_stwi_linked(1) by simp
  then show ?thesis
    using STWI_intr_timer_timeouts [of ?s sample_stwi_env] by auto
qed

text \<open>
  C12. Sending data is safe exactly up to 112 bytes. The request rounds the size up to whole
  words and sends the bytes from the caller's memory; an accepted request for more than 112
  bytes, which the code does not check for, copies past the end of the packet buffer.
\<close>
theorem rfu_data_size_limit:
  assumes "linked s" "accepts s"
  shows "(STWI_send_DataTxREQ env src sz s = None \<longleftrightarrow> 112 < sz)
    \<and> (STWI_send_DataTxAndChangeREQ env src sz s = None \<longleftrightarrow> 112 < sz)
    \<and> unat (data_words sz) = (unat sz + 3) div 4"
proof -
  have "linked (log_events ready_events (rfu (armed cmd) s))" for cmd
    using assms(1) by (simp add: armed_def)
  then have big: "send_with env cmd (copy_data src sz) s = None" if "112 < sz" for cmd
    using that by (simp add: send_with_def STWI_init_accepts [OF assms(2)] copy_data_overrun)
  have "STWI_send_DataTxREQ env src sz s \<noteq> None" "STWI_send_DataTxAndChangeREQ env src sz s \<noteq> None"
    if "sz \<le> 112"
    using do_request_accepts [of "ReqDataTx src sz", OF _ assms] that
      do_request_accepts [of "ReqDataTxAndChange src sz", OF _ assms] by simp_all
  then show ?thesis
    using big
    by (cases "112 < sz") (auto simp: STWI_send_DataTxREQ_def STWI_send_DataTxAndChangeREQ_def data_words_unat not_less)
qed

theorem rfu_data_size_limit_witness:
  "STWI_send_DataTxREQ sample_stwi_env 0 113 (STWI_init_timer 3 (STWI_init_all sample_stwi_env TRUE8 stwi_power_on)) = None
    \<and> STWI_send_DataTxREQ sample_stwi_env 0 112 (STWI_init_timer 3 (STWI_init_all sample_stwi_env TRUE8 stwi_power_on)) \<noteq> None"
  using rfu_data_size_limit [OF sample_stwi_linked(1,2), of sample_stwi_env 0 113]
    rfu_data_size_limit [OF sample_stwi_linked(1,2), of sample_stwi_env 0 112]
  by simp

text \<open>
  Set-up. Whatever the memory held, afterwards the packet pointers are set, the driver is
  idle as clock master with no callback, the serial port is configured, the serial interrupt
  is enabled and the master enable is as before; a request is accepted at once if interrupts
  were on. The driver's struct never shares a block with the copied interrupt handler.
\<close>
theorem STWI_init_all_establishes:
  assumes "length (txPacketAlloc (interruptStruct s)) = 0x74"
  shows "linked (STWI_init_all env c s)
    \<and> (accepts (STWI_init_all env c s) \<longleftrightarrow> regs s REG_ADDR_IME \<noteq> 0)
    \<and> callbackM (gRfuState (STWI_init_all env c s)) = 0 \<and> callbackS (gRfuState (STWI_init_all env c s)) = 0
    \<and> STWI_read_status 0 (STWI_init_all env c s) = 0 \<and> STWI_read_status 1 (STWI_init_all env c s) = 1
    \<and> regs (STWI_init_all env c s) REG_ADDR_SIOCNT = 0x5003 \<and> regs (STWI_init_all env c s) REG_ADDR_RCNT = 0x100
    \<and> regs (STWI_init_all env c s) REG_ADDR_IE = regs s REG_ADDR_IE OR INTR_FLAG_SERIAL
    \<and> regs (STWI_init_all env c s) REG_ADDR_IME = regs s REG_ADDR_IME
    \<and> sio_intr (STWI_init_all env c s) = (if c = TRUE8 then Some (IntrSIO32_ram Block1) else Some IntrSIO32_rom)
    \<and> sio_intr (STWI_init_all env c s) \<noteq> Some (IntrSIO32_ram (rfu_at (STWI_init_all env c s)))"
  using assms
  by (simp add: STWI_init_all_def STWI_init_Callback_M_def STWI_init_Callback_S_def STWI_set_Callback_M_def
      STWI_set_Callback_S_def IntrEnable_def w16_def rfu_def linked_def tx_def accepts_def STWI_read_status_def
      SIO_INTR_ENABLE_def SIO_32BIT_MODE_def SIO_115200_BPS_def Let_def reg_addrs)

theorem STWI_init_all_establishes_witness:
  "linked (STWI_init_all sample_stwi_env FALSE8 stwi_power_on)
    \<and> sio_intr (STWI_init_all sample_stwi_env FALSE8 stwi_power_on) = Some IntrSIO32_rom"
  using STWI_init_all_establishes [of stwi_power_on sample_stwi_env FALSE8] by (simp add: stwi_power_on_def)

text \<open>
  The soft reset returns once the timer passes 0x11, holding the reset line (0x80A2) all
  the while and releasing it afterwards, and leaves the driver idle, as clock master, with
  status 0.
\<close>
theorem AgbRFU_SoftReset_returns:
  fixes s :: stwi_state
  defines "h \<equiv> wlog s @ [W16 REG_ADDR_RCNT 0x8000, W16 REG_ADDR_RCNT 0x80A0,
     W16 (REG_TMCNT_H (timerSelect (gRfuState s))) 0, W16 (REG_TMCNT_L (timerSelect (gRfuState s))) 0,
     W16 (REG_TMCNT_H (timerSelect (gRfuState s))) 0x83]"
  assumes "timer_count env (h @ replicate n (W16 REG_ADDR_RCNT 0x80A2)) > 0x11"
  shows "\<exists>k t. k \<le> n \<and> AgbRFU_SoftReset env s = Some t
    \<and> wlog t = h @ replicate k (W16 REG_ADDR_RCNT 0x80A2) @ [W16 (REG_TMCNT_H (timerSelect (gRfuState s))) 3,
         W16 REG_ADDR_RCNT 0x80A0, W16 REG_ADDR_SIOCNT 0x5003]
    \<and> timer_count env (h @ replicate k (W16 REG_ADDR_RCNT 0x80A2)) > 0x11
    \<and> unk_2c (gRfuState t) = 0 \<and> msMode (gRfuState t) = 1 \<and> unk_12 (gRfuState t) = 0 \<and> tx t = tx s"
proof -
  let ?s = "log_events [W16 REG_ADDR_RCNT 0x8000, W16 REG_ADDR_RCNT 0x80A0,
     W16 (REG_TMCNT_H (timerSelect (gRfuState s))) 0, W16 (REG_TMCNT_L (timerSelect (gRfuState s))) 0,
     W16 (REG_TMCNT_H (timerSelect (gRfuState s))) 0x83] s"
  have "wlog ?s = h" by (simp add: h_def)
  then obtain k where "k \<le> n" "reset_pulse env ?s = Some (log_events (replicate k (W16 REG_ADDR_RCNT 0x80A2)) ?s)"
      "timer_count env (h @ replicate k (W16 REG_ADDR_RCNT 0x80A2)) > 0x11"
    using reset_pulse_reaches [of env ?s n] assms(2) by metis
  then show ?thesis
    by (intro exI [of _ k])
      (simp add: AgbRFU_SoftReset_def log_simps h_def SIO_INTR_ENABLE_def SIO_32BIT_MODE_def SIO_115200_BPS_def)
qed

theorem AgbRFU_SoftReset_returns_witness:
  "\<exists>t. AgbRFU_SoftReset sample_stwi_env stwi_power_on = Some t \<and> msMode (gRfuState t) = 1"
proof -
  have "timer_count sample_stwi_env es = of_nat (length es)" "wlog stwi_power_on = []" for es
    by (simp_all add: sample_stwi_env_def stwi_power_on_def)
  then show ?thesis
    using AgbRFU_SoftReset_returns [of sample_stwi_env stwi_power_on 13] by auto
qed

text \<open>
  Polling for the end of a command returns the status of the first state in which the
  driver is no longer busy, as soon as the serial handler reaches one.
\<close>
theorem STWI_poll_CommandEnd_first_idle:
  assumes "unk_2c (gRfuState ((between_polls env ^^ n) s)) \<noteq> TRUE8"
  shows "\<exists>k \<le> n. STWI_poll_CommandEnd env s =
      Some (STWI_read_status 0 ((between_polls env ^^ k) s), (between_polls env ^^ k) s)
    \<and> unk_2c (gRfuState ((between_polls env ^^ k) s)) \<noteq> TRUE8
    \<and> (\<forall>m. m < k \<longrightarrow> unk_2c (gRfuState ((between_polls env ^^ m) s)) = TRUE8)"
proof -
  let ?P = "\<lambda>k. unk_2c (gRfuState ((between_polls env ^^ k) s)) \<noteq> TRUE8"
  define k where "k = (LEAST k. ?P k)"
  have k: "?P k" unfolding k_def by (rule LeastI [of ?P, OF assms])
  have least: "\<not> ?P m" if "m < k" for m using that not_less_Least unfolding k_def by blast
  have "k \<le> n" unfolding k_def by (rule Least_le [of ?P, OF assms])
  moreover have "STWI_poll_CommandEnd env s =
      Some (unk_12 (gRfuState ((between_polls env ^^ k) s)), (between_polls env ^^ k) s)"
    by (rule poll_reaches) (use k least in auto)
  ultimately show ?thesis using k least by (auto simp: STWI_read_status_def)
qed

theorem STWI_poll_CommandEnd_first_idle_witness:
  "\<exists>v. STWI_poll_CommandEnd sample_stwi_env (rfu (\<lambda>r. r\<lparr>unk_2c := 1\<rparr>) stwi_power_on) = Some v"
  using STWI_poll_CommandEnd_first_idle [of 1 sample_stwi_env "rfu (\<lambda>r. r\<lparr>unk_2c := 1\<rparr>) stwi_power_on"]
  by (auto simp: sample_stwi_env_def)

end
