(* ===== verification/AgbPrint.thy ===== *)
theory AgbPrint
  imports GbaIo "HOL-Library.Monad_Syntax"
begin

text \<open>
  The debug output library, \<^verbatim>\<open>src/libisagbprn/\<close>: characters go into a 64 KiB ring buffer
  in the development cartridge, from which the debugger's flush routine takes them.

  The model's state is the 16-bit memory the code accesses (registers, the control struct,
  the write-protect switch and the buffer). The flush routine is machine code of the
  debugger at a fixed address and \<^verbatim>\<open>vsprintf\<close> belongs to the C library: both are
  parameters. \<open>char\<close> is unsigned, as the repository's compiler makes it. The ring buffer
  is specified as a queue of bytes, which the operations refine.
\<close>

unbundle bit_operations_syntax

type_synonym memory = "u32 \<Rightarrow> u16"

section \<open>The code\<close>

definition AGB_PRINT_STRUCT_ADDR :: u32 where "AGB_PRINT_STRUCT_ADDR = 0x9FE20F8"
definition AGB_PRINT_PROTECT_ADDR :: u32 where "AGB_PRINT_PROTECT_ADDR = 0x9FE2FFE"
definition NOCASHGBAPRINTADDR2 :: u32 where "NOCASHGBAPRINTADDR2 = 0x4FFFA14"

text \<open>The addresses of the fields of \<open>AGBPrintStruct\<close>.\<close>

definition m_nRequest :: u32 where "m_nRequest = AGB_PRINT_STRUCT_ADDR"
definition m_nBank :: u32 where "m_nBank = AGB_PRINT_STRUCT_ADDR + 2"
definition m_nGet :: u32 where "m_nGet = AGB_PRINT_STRUCT_ADDR + 4"
definition m_nPut :: u32 where "m_nPut = AGB_PRINT_STRUCT_ADDR + 6"

definition AGBPrintInit :: "memory \<Rightarrow> memory" where
  "AGBPrintInit m =
     (let nOldWSCNT = m REG_ADDR_WAITCNT;
          m = m(REG_ADDR_WAITCNT := WSCNT_DATA);
          m = m(AGB_PRINT_PROTECT_ADDR := 0x20);
          m = m(m_nPut := 0);
          m = m(m_nGet := 0);
          m = m(m_nRequest := 0);
          m = m(m_nBank := 0xFD);
          m = m(AGB_PRINT_PROTECT_ADDR := 0)
      in m(REG_ADDR_WAITCNT := nOldWSCNT))"

definition print_buf :: "memory \<Rightarrow> u16 \<Rightarrow> u32" where
  "print_buf m p = 0x8000000 + push_bit 16 (ucast (m m_nBank)) + 2 * ucast (p div 2)"

definition AGBPutcInternal :: "u8 \<Rightarrow> memory \<Rightarrow> memory" where
  "AGBPutcInternal cChr m =
     (let nData = m (print_buf m (m m_nPut));
          m = m(AGB_PRINT_PROTECT_ADDR := 0x20);
          nData = (if m m_nPut AND 1 \<noteq> 0 then (nData AND 0xFF) OR push_bit 8 (ucast cChr)
                   else (nData AND 0xFF00) OR ucast cChr);
          m = m(print_buf m (m m_nPut) := nData);
          m = m(m_nPut := m m_nPut + 1)
      in m(AGB_PRINT_PROTECT_ADDR := 0))"

text \<open>One call of the flush routine with the buffer unprotected.\<close>

definition flush_once :: "(memory \<Rightarrow> memory) \<Rightarrow> memory \<Rightarrow> memory" where
  "flush_once flush m = (flush (m(AGB_PRINT_PROTECT_ADDR := 0x20)))(AGB_PRINT_PROTECT_ADDR := 0)"

partial_function (option) flush_all :: "(memory \<Rightarrow> memory) \<Rightarrow> memory \<Rightarrow> memory option" where
  [code]: "flush_all flush m =
     (if m m_nPut \<noteq> m m_nGet then flush_all flush (flush_once flush m) else Some m)"

definition AGBPrintTransferDataInternal :: "(memory \<Rightarrow> memory) \<Rightarrow> u32 \<Rightarrow> memory \<Rightarrow> memory option" where
  "AGBPrintTransferDataInternal flush bAllData m = do {
     let nIME = m REG_ADDR_IME;
     let nOldWSCNT = m REG_ADDR_WAITCNT;
     let m = m(REG_ADDR_IME := nIME AND NOT 1);
     let m = m(REG_ADDR_WAITCNT := WSCNT_DATA);
     m \<leftarrow> (if bAllData \<noteq> 0 then flush_all flush m
          else if m m_nPut \<noteq> m m_nGet then Some (flush_once flush m) else Some m);
     let m = m(REG_ADDR_WAITCNT := nOldWSCNT);
     Some (m(REG_ADDR_IME := nIME))
   }"

definition AGBPrintFlush1Block :: "(memory \<Rightarrow> memory) \<Rightarrow> memory \<Rightarrow> memory option" where
  "AGBPrintFlush1Block flush m = AGBPrintTransferDataInternal flush 0 m"

definition AGBPrintFlush :: "(memory \<Rightarrow> memory) \<Rightarrow> memory \<Rightarrow> memory option" where
  "AGBPrintFlush flush m = AGBPrintTransferDataInternal flush 1 m"

definition AGBPutc :: "(memory \<Rightarrow> memory) \<Rightarrow> u8 \<Rightarrow> memory \<Rightarrow> memory option" where
  "AGBPutc flush cChr m =
     (let nOldWSCNT = m REG_ADDR_WAITCNT;
          m = m(REG_ADDR_WAITCNT := WSCNT_DATA);
          m = AGBPutcInternal cChr m;
          m = m(REG_ADDR_WAITCNT := nOldWSCNT)
      in if m m_nPut = m m_nGet - 1 then AGBPrintFlush1Block flush m else Some m)"

text \<open>A C string is the list of its characters up to the terminating zero.\<close>

fun print_chars :: "(memory \<Rightarrow> memory) \<Rightarrow> u8 list \<Rightarrow> memory \<Rightarrow> memory option" where
  "print_chars flush [] m = Some m"
| "print_chars flush (c # cs) m =
     (if c = 0 then Some m else Option.bind (AGBPutc flush c m) (print_chars flush cs))"

definition AGBPrint :: "(memory \<Rightarrow> memory) \<Rightarrow> u8 list \<Rightarrow> memory \<Rightarrow> memory option" where
  "AGBPrint flush pBuf m = do {
     let nOldWSCNT = m REG_ADDR_WAITCNT;
     let m = m(REG_ADDR_WAITCNT := WSCNT_DATA);
     m \<leftarrow> print_chars flush pBuf m;
     Some (m(REG_ADDR_WAITCNT := nOldWSCNT))
   }"

text \<open>
  \<open>vsprintf\<close> maps a format and its arguments to the characters it writes before the
  terminating zero; \<open>None\<close> when they do not fit the local buffer of 0x100 bytes.
\<close>

definition AGBPrintf ::
  "(memory \<Rightarrow> memory) \<Rightarrow> ('f \<Rightarrow> 'a \<Rightarrow> u8 list) \<Rightarrow> 'f \<Rightarrow> 'a \<Rightarrow> memory \<Rightarrow> memory option" where
  "AGBPrintf flush vsprintf pBuf args m =
     (let bufPrint = vsprintf pBuf args
      in if length bufPrint < 0x100 then AGBPrint flush bufPrint m else None)"

text \<open>The formats of the two messages of \<open>AGBAssert\<close>; the flag says that execution stops.\<close>

datatype assert_format = AssertionFailed | Waring

definition AGBAssert ::
  "(memory \<Rightarrow> memory) \<Rightarrow> (assert_format \<Rightarrow> 'a \<Rightarrow> u8 list) \<Rightarrow> 'a \<Rightarrow> u32 \<Rightarrow> memory \<Rightarrow> (bool \<times> memory) option" where
  "AGBAssert flush vsprintf args nStopProgram m =
     (if nStopProgram \<noteq> 0 then do {
        m \<leftarrow> AGBPrintf flush vsprintf AssertionFailed args m;
        m \<leftarrow> AGBPrintFlush flush m;
        Some (True, m) }
      else do {
        m \<leftarrow> AGBPrintf flush vsprintf Waring args m;
        Some (False, m) })"

text \<open>The emulator's port takes the address of the string; 32-bit stores are two halfwords.\<close>

definition NoCashGBAPrint :: "u32 \<Rightarrow> memory \<Rightarrow> memory" where
  "NoCashGBAPrint pBuf m = m(NOCASHGBAPRINTADDR2 := ucast pBuf, NOCASHGBAPRINTADDR2 + 2 := ucast (drop_bit 16 pBuf))"

definition NoCashGBAPrintf ::
  "('f \<Rightarrow> 'a \<Rightarrow> u8 list) \<Rightarrow> u32 \<Rightarrow> 'f \<Rightarrow> 'a \<Rightarrow> memory \<Rightarrow> memory option" where
  "NoCashGBAPrintf vsprintf bufPrint pBuf args m =
     (if length (vsprintf pBuf args) < 0x100 then Some (NoCashGBAPrint bufPrint m) else None)"

section \<open>The queue\<close>

definition print_ok :: "memory \<Rightarrow> bool" where
  "print_ok m \<longleftrightarrow> m m_nBank = 0xFD"

definition byte_at :: "memory \<Rightarrow> u16 \<Rightarrow> u8" where
  "byte_at m p = (let w = m (print_buf m p) in if p AND 1 \<noteq> 0 then ucast (drop_bit 8 w) else ucast w)"

definition waiting :: "memory \<Rightarrow> nat" where
  "waiting m = unat (m m_nPut - m m_nGet)"

definition pending :: "memory \<Rightarrow> u8 list" where
  "pending m = map (\<lambda>i. byte_at m (m m_nGet + of_nat i)) [0..<waiting m]"

lemma length_pending [simp]: "length (pending m) = waiting m"
  by (simp add: pending_def)

lemmas print_addrs = AGB_PRINT_STRUCT_ADDR_def AGB_PRINT_PROTECT_ADDR_def m_nRequest_def m_nBank_def
  m_nGet_def m_nPut_def NOCASHGBAPRINTADDR2_def

definition slot :: "u16 \<Rightarrow> u32" where
  "slot p = 0x8FD0000 + 2 * ucast (p div 2)"

lemma print_buf_ok: "print_ok m \<Longrightarrow> print_buf m p = slot p"
  by (simp add: print_ok_def print_buf_def slot_def)

lemma slot_unat: "unat (slot p) = 0x8FD0000 + 2 * (unat p div 2)"
proof -
  have "unat (p div 2) = unat p div 2" by (simp add: unat_div)
  then have "(ucast (p div 2) :: u32) = of_nat (unat p div 2)" by (metis of_nat_unat)
  then have "slot p = of_nat (0x8FD0000 + 2 * (unat p div 2))"
    by (simp add: slot_def)
  moreover have "0x8FD0000 + 2 * (unat p div 2) < 2 ^ 32"
    using unsigned_less [of p, where ?'a = nat] by simp
  ultimately show ?thesis by (simp add: unsigned_of_nat take_bit_nat_eq_self del: of_nat_add of_nat_mult)
qed

lemma slot_eq: "slot p = slot q \<longleftrightarrow> unat p div 2 = unat q div 2"
  by (simp add: word_unat_eq_iff slot_unat)

lemma slot_apart:
  "slot p \<noteq> REG_ADDR_WAITCNT" "slot p \<noteq> REG_ADDR_IME" "slot p \<noteq> AGB_PRINT_PROTECT_ADDR"
  "slot p \<noteq> m_nRequest" "slot p \<noteq> m_nBank" "slot p \<noteq> m_nGet" "slot p \<noteq> m_nPut"
  using unsigned_less [of p, where ?'a = nat]
  by (auto simp: word_unat_eq_iff slot_unat print_addrs reg_addrs)

lemma odd_test: "(p :: u16) AND 1 \<noteq> 0 \<longleftrightarrow> odd (unat p)"
  by (simp add: and_one_eq odd_iff_mod_2_eq_one unat_mod word_unat_eq_iff)

text \<open>Storing one byte of a halfword keeps the other.\<close>

definition store_byte :: "bool \<Rightarrow> u8 \<Rightarrow> u16 \<Rightarrow> u16" where
  "store_byte hi c w = (if hi then (w AND 0xFF) OR push_bit 8 (ucast c) else (w AND 0xFF00) OR ucast c)"

definition half :: "bool \<Rightarrow> u16 \<Rightarrow> u8" where
  "half hi w = (if hi then ucast (drop_bit 8 w) else ucast w)"

lemma half_store: "half h (store_byte h' c w) = (if h = h' then c else half h w)"
proof -
  have lo: "(0xFF :: u16) = mask 8" and hi: "(0xFF00 :: u16) = push_bit 8 (mask 8)"
    by (simp_all add: mask_eq_exp_minus_1)
  show ?thesis
    unfolding half_def store_byte_def lo hi
    by (auto intro!: bit_word_eqI simp: bit_simps bits_beyond)
qed

lemma byte_at_ok: "print_ok m \<Longrightarrow> byte_at m p = half (odd (unat p)) (m (slot p))"
  by (simp add: byte_at_def Let_def half_def print_buf_ok odd_test)

definition putc_mem :: "u8 \<Rightarrow> memory \<Rightarrow> memory" where
  "putc_mem c m = m(slot (m m_nPut) := store_byte (odd (unat (m m_nPut))) c (m (slot (m m_nPut))),
     m_nPut := m m_nPut + 1, AGB_PRINT_PROTECT_ADDR := 0)"

lemma AGBPutcInternal_ok: "print_ok m \<Longrightarrow> AGBPutcInternal c m = putc_mem c m"
proof -
  assume ok: "print_ok m"
  have apart: "AGB_PRINT_PROTECT_ADDR \<noteq> m_nPut" "AGB_PRINT_PROTECT_ADDR \<noteq> m_nBank"
    by (simp_all add: print_addrs)
  have ok': "print_ok (m(AGB_PRINT_PROTECT_ADDR := 0x20))" using ok apart by (simp add: print_ok_def)
  show ?thesis
    using apart slot_apart slot_apart(7) [symmetric]
    by (simp add: AGBPutcInternal_def Let_def print_buf_ok [OF ok] print_buf_ok [OF ok'] putc_mem_def
        store_byte_def odd_test fun_eq_iff)
qed

lemma putc_mem_fields:
  "putc_mem c m m_nPut = m m_nPut + 1" "putc_mem c m m_nGet = m m_nGet" "putc_mem c m m_nBank = m m_nBank"
  "putc_mem c m REG_ADDR_WAITCNT = m REG_ADDR_WAITCNT" "putc_mem c m REG_ADDR_IME = m REG_ADDR_IME"
  "putc_mem c m AGB_PRINT_PROTECT_ADDR = 0"
  using slot_apart [of "m m_nPut"]
  by (auto simp: putc_mem_def print_addrs reg_addrs)

lemma putc_mem_byte:
  assumes "print_ok m"
  shows "byte_at (putc_mem c m) p = (if p = m m_nPut then c else byte_at m p)"
proof -
  have ok: "print_ok (putc_mem c m)" using assms by (simp add: print_ok_def putc_mem_fields)
  have "putc_mem c m (slot p) = (if unat p div 2 = unat (m m_nPut) div 2
      then store_byte (odd (unat (m m_nPut))) c (m (slot p)) else m (slot p))"
    using slot_apart [of p] slot_eq [of p "m m_nPut"] by (auto simp: putc_mem_def)
  moreover have "p = q \<longleftrightarrow> unat p div 2 = unat q div 2 \<and> odd (unat p) = odd (unat q)" for q
    by (simp add: word_unat_eq_iff) presburger
  ultimately show ?thesis
    by (auto simp: byte_at_ok [OF ok] byte_at_ok [OF assms] half_store)
qed

text \<open>Putting a character appends it to the queue while there is room for it.\<close>

lemma pending_putc:
  assumes "print_ok m" "waiting m < 65535"
  shows "pending (putc_mem c m) = pending m @ [c]" "waiting (putc_mem c m) = Suc (waiting m)"
proof -
  let ?d = "m m_nPut - m m_nGet"
  have "unat (?d + 1) = unat ?d + 1"
    using assms(2) by (simp add: waiting_def unat_word_ariths)
  moreover have "m m_nPut + 1 - m m_nGet = ?d + 1" by simp
  ultimately show w: "waiting (putc_mem c m) = Suc (waiting m)"
    unfolding waiting_def putc_mem_fields by (metis Suc_eq_plus1)
  have "m m_nGet + of_nat i = m m_nPut \<longleftrightarrow> i = waiting m" if "i \<le> waiting m" for i
  proof -
    have "m m_nGet + of_nat i = m m_nPut \<longleftrightarrow> of_nat i = ?d" by (auto simp: algebra_simps)
    also have "\<dots> \<longleftrightarrow> i = unat ?d"
      using that assms(2) by (auto simp: word_unat_eq_iff unsigned_of_nat take_bit_nat_eq_self waiting_def)
    finally show ?thesis by (simp add: waiting_def)
  qed
  then show "pending (putc_mem c m) = pending m @ [c]"
    by (auto simp: pending_def w putc_mem_fields putc_mem_byte [OF assms(1)])
qed

section \<open>A bounded byte queue\<close>

text \<open>
  The contract between the producer side and the buffer: one more byte at the end, as long as
  the capacity is not reached. Writing a whole string follows from it.
\<close>

locale bounded_queue =
  fixes put :: "'c \<Rightarrow> 'm \<Rightarrow> 'm"
    and contents :: "'m \<Rightarrow> 'c list"
    and ok :: "'m \<Rightarrow> bool"
    and cap :: nat
  assumes contents_put: "ok m \<Longrightarrow> length (contents m) < cap \<Longrightarrow> contents (put c m) = contents m @ [c]"
    and ok_put: "ok m \<Longrightarrow> ok (put c m)"
begin

lemma contents_fold:
  "ok m \<Longrightarrow> length (contents m) + length cs \<le> cap \<Longrightarrow> contents (fold put cs m) = contents m @ cs \<and> ok (fold put cs m)"
proof (induction cs arbitrary: m)
  case (Cons c cs)
  have "contents (put c m) = contents m @ [c]" "ok (put c m)"
    using Cons.prems by (simp_all add: contents_put ok_put)
  then show ?case using Cons.IH [of "put c m"] Cons.prems by simp
qed simp

end

interpretation ring: bounded_queue putc_mem pending print_ok 65535
  by unfold_locales (simp_all add: pending_putc print_ok_def putc_mem_fields)

section \<open>Flushing\<close>

text \<open>
  What the library relies on of the debugger's routine: called with characters waiting, it
  takes at least one from the front and none from elsewhere, and leaves the bank, the wait
  states and the interrupt enable alone.
\<close>

definition consumes :: "(memory \<Rightarrow> memory) \<Rightarrow> bool" where
  "consumes flush \<longleftrightarrow> (\<forall>m. print_ok m \<and> 0 < waiting m \<longrightarrow>
     print_ok (flush m) \<and> (\<exists>k>0. pending (flush m) = drop k (pending m))
     \<and> flush m REG_ADDR_WAITCNT = m REG_ADDR_WAITCNT \<and> flush m REG_ADDR_IME = m REG_ADDR_IME)"

text \<open>The locations that are not part of the queue.\<close>

definition aside :: "u32 \<Rightarrow> bool" where
  "aside a \<longleftrightarrow> a \<in> {REG_ADDR_WAITCNT, REG_ADDR_IME, AGB_PRINT_PROTECT_ADDR}"

lemma aside_simps [simp]: "aside REG_ADDR_WAITCNT" "aside REG_ADDR_IME" "aside AGB_PRINT_PROTECT_ADDR"
  by (simp_all add: aside_def)

lemma aside_fields: "aside a \<Longrightarrow> a \<notin> {m_nPut, m_nGet, m_nBank}"
  by (auto simp: aside_def print_addrs reg_addrs)

lemma aside_keeps [simp]:
  assumes "aside a"
  shows "print_ok (m(a := v)) = print_ok m" "waiting (m(a := v)) = waiting m"
    "print_ok m \<Longrightarrow> pending (m(a := v)) = pending m"
proof -
  show ok: "print_ok (m(a := v)) = print_ok m" and w: "waiting (m(a := v)) = waiting m"
    using aside_fields [OF assms] by (auto simp: print_ok_def waiting_def)
  show "pending (m(a := v)) = pending m" if "print_ok m"
  proof -
    have "byte_at (m(a := v)) p = byte_at m p" for p
      using assms ok that slot_apart [of p] by (auto simp: byte_at_ok aside_def)
    then show ?thesis using w aside_fields [OF assms] by (auto simp: pending_def)
  qed
qed

lemma waiting_0: "waiting m = 0 \<longleftrightarrow> m m_nPut = m m_nGet"
  by (simp add: waiting_def unsigned_eq_0_iff)

lemma waiting_drop: "pending m' = drop k (pending m) \<Longrightarrow> waiting m' = waiting m - k"
  using length_pending [of m'] length_pending [of m] by (metis length_drop)

lemma flush_once_takes:
  assumes "consumes flush" "print_ok m" "0 < waiting m"
  shows "\<exists>k>0. pending (flush_once flush m) = drop k (pending m)" "print_ok (flush_once flush m)"
    "flush_once flush m REG_ADDR_WAITCNT = m REG_ADDR_WAITCNT" "flush_once flush m REG_ADDR_IME = m REG_ADDR_IME"
    "waiting (flush_once flush m) < waiting m"
proof -
  let ?m = "m(AGB_PRINT_PROTECT_ADDR := 0x20)"
  have m: "print_ok ?m" "0 < waiting ?m" using assms by simp_all
  have apart: "REG_ADDR_WAITCNT \<noteq> AGB_PRINT_PROTECT_ADDR" "REG_ADDR_IME \<noteq> AGB_PRINT_PROTECT_ADDR"
    by (simp_all add: print_addrs reg_addrs)
  obtain k where k: "0 < k" "pending (flush ?m) = drop k (pending ?m)" "print_ok (flush ?m)"
      "flush ?m REG_ADDR_WAITCNT = ?m REG_ADDR_WAITCNT" "flush ?m REG_ADDR_IME = ?m REG_ADDR_IME"
    using assms(1) m unfolding consumes_def by blast
  have p: "pending (flush_once flush m) = drop k (pending m)"
    using k(2,3) assms(2) by (simp add: flush_once_def)
  then show "\<exists>k>0. pending (flush_once flush m) = drop k (pending m)" using k(1) by blast
  show "waiting (flush_once flush m) < waiting m" using waiting_drop [OF p] k(1) assms(3) by simp
  show "print_ok (flush_once flush m)" using k(3) by (simp add: flush_once_def)
  show "flush_once flush m REG_ADDR_WAITCNT = m REG_ADDR_WAITCNT" "flush_once flush m REG_ADDR_IME = m REG_ADDR_IME"
    using k(4,5) apart by (simp_all add: flush_once_def)
qed

lemma flush_all_empties:
  assumes "consumes flush"
  shows "print_ok m \<Longrightarrow> \<exists>m'. flush_all flush m = Some m' \<and> pending m' = [] \<and> print_ok m'"
proof (induction "waiting m" arbitrary: m rule: less_induct)
  case less
  show ?case
  proof (cases "waiting m = 0")
    case True
    then show ?thesis
      using less.prems waiting_0 [of m] by (subst flush_all.simps) (simp add: pending_def)
  next
    case False
    then have "\<exists>m'. flush_all flush (flush_once flush m) = Some m' \<and> pending m' = [] \<and> print_ok m'"
      using flush_once_takes [OF assms less.prems] less.hyps by simp
    then show ?thesis
      using False waiting_0 [of m] by (subst flush_all.simps) simp
  qed
qed

lemma transfer_ok:
  assumes "consumes flush" "print_ok m"
  shows "\<exists>m' k. AGBPrintTransferDataInternal flush all m = Some m' \<and> print_ok m'
    \<and> m' REG_ADDR_WAITCNT = m REG_ADDR_WAITCNT \<and> m' REG_ADDR_IME = m REG_ADDR_IME
    \<and> pending m' = drop k (pending m) \<and> (0 < waiting m \<longrightarrow> 0 < k) \<and> (all \<noteq> 0 \<longrightarrow> pending m' = [])"
proof -
  let ?m = "m(REG_ADDR_IME := m REG_ADDR_IME AND NOT 1, REG_ADDR_WAITCNT := WSCNT_DATA)"
  have ok: "print_ok ?m" and p: "pending ?m = pending m" and w: "waiting ?m = waiting m"
    using assms(2) by simp_all
  have regs: "REG_ADDR_IME \<noteq> REG_ADDR_WAITCNT" by (simp add: reg_addrs)
  obtain n k where n: "(if all \<noteq> 0 then flush_all flush ?m
        else if ?m m_nPut \<noteq> ?m m_nGet then Some (flush_once flush ?m) else Some ?m) = Some n"
      "print_ok n" "pending n = drop k (pending m)" "0 < waiting m \<longrightarrow> 0 < k" "all \<noteq> 0 \<longrightarrow> pending n = []"
  proof (cases "all \<noteq> 0")
    case True
    then show ?thesis
      using flush_all_empties [OF assms(1) ok] that [of _ "Suc (waiting m)"] by auto
  next
    case False
    show ?thesis
    proof (cases "waiting m = 0")
      case True
      then show ?thesis
        using that [of ?m 0] False ok p w waiting_0 [of ?m] by simp
    next
      case nz: False
      then show ?thesis
        using that [of "flush_once flush ?m"] False flush_once_takes [OF assms(1) ok] p w waiting_0 [of ?m] by auto
    qed
  qed
  let ?n = "n(REG_ADDR_WAITCNT := m REG_ADDR_WAITCNT, REG_ADDR_IME := m REG_ADDR_IME)"
  have "AGBPrintTransferDataInternal flush all m = Some ?n"
    by (simp only: AGBPrintTransferDataInternal_def Let_def n(1) bind.bind_lunit)
  moreover have "print_ok ?n" "pending ?n = pending n" "?n REG_ADDR_WAITCNT = m REG_ADDR_WAITCNT"
    using n(2) regs by simp_all
  ultimately show ?thesis using n by (intro exI [of _ ?n] exI [of _ k]) simp
qed

text \<open>The queue between calls: set up, and never full.\<close>

definition print_inv :: "memory \<Rightarrow> bool" where
  "print_inv m \<longleftrightarrow> print_ok m \<and> waiting m < 65535"

lemma AGBPutc_step:
  assumes "consumes flush" "print_inv m"
  shows "\<exists>m' k. AGBPutc flush c m = Some m' \<and> print_inv m'
    \<and> m' REG_ADDR_WAITCNT = m REG_ADDR_WAITCNT \<and> m' REG_ADDR_IME = m REG_ADDR_IME
    \<and> pending m' = drop k (pending m @ [c]) \<and> (waiting m < 65534 \<longrightarrow> k = 0)"
proof -
  let ?w = "m(REG_ADDR_WAITCNT := WSCNT_DATA)"
  have ok: "print_ok ?w" and p: "pending ?w = pending m" and w: "waiting ?w = waiting m"
    using assms(2) by (simp_all add: print_inv_def)
  have lt: "waiting ?w < 65535" using assms(2) w by (simp add: print_inv_def)
  define n where "n = (putc_mem c ?w)(REG_ADDR_WAITCNT := m REG_ADDR_WAITCNT)"
  have okn: "print_ok n" using ring.ok_put [OF ok] by (simp add: n_def)
  have pn: "pending n = pending m @ [c]" and wn: "waiting n = Suc (waiting m)"
    using pending_putc [OF ok lt] ring.ok_put [OF ok] p w by (simp_all add: n_def)
  have regs: "n REG_ADDR_WAITCNT = m REG_ADDR_WAITCNT" "n REG_ADDR_IME = m REG_ADDR_IME"
    using putc_mem_fields [of c ?w] by (simp_all add: n_def reg_addrs)
  have full: "n m_nPut = n m_nGet - 1 \<longleftrightarrow> waiting n = 65535"
  proof -
    have "n m_nPut = n m_nGet - 1 \<longleftrightarrow> n m_nPut - n m_nGet = - 1" by (auto simp: algebra_simps)
    also have "\<dots> \<longleftrightarrow> waiting n = 65535"
      by (simp add: waiting_def word_unat_eq_iff unsigned_minus_1_eq_mask mask_eq_exp_minus_1)
    finally show ?thesis .
  qed
  have call: "AGBPutc flush c m = (if waiting n = 65535 then AGBPrintFlush1Block flush n else Some n)"
    by (simp only: AGBPutc_def Let_def AGBPutcInternal_ok [OF ok] n_def [symmetric] full)
  show ?thesis
  proof (cases "waiting n = 65535")
    case False
    then show ?thesis
      using call okn pn wn regs assms(2) by (intro exI [of _ n] exI [of _ 0]) (auto simp: print_inv_def)
  next
    case True
    obtain m' k where m': "AGBPrintTransferDataInternal flush 0 n = Some m'" "print_ok m'"
        "m' REG_ADDR_WAITCNT = n REG_ADDR_WAITCNT" "m' REG_ADDR_IME = n REG_ADDR_IME"
        "pending m' = drop k (pending n)" "0 < waiting n \<longrightarrow> 0 < k"
      using transfer_ok [OF assms(1) okn, of 0] by metis
    have "waiting m' < 65535" using waiting_drop [OF m'(5)] m'(6) True by simp
    then show ?thesis
      using call True m' pn wn regs
      by (intro exI [of _ m'] exI [of _ k]) (auto simp: print_inv_def AGBPrintFlush1Block_def)
  qed
qed

definition c_string :: "u8 list \<Rightarrow> u8 list" where
  "c_string cs = takeWhile (\<lambda>c. c \<noteq> 0) cs"

lemma c_string_simps [simp]: "c_string [] = []" "c_string (c # cs) = (if c = 0 then [] else c # c_string cs)"
  by (simp_all add: c_string_def)

text \<open>Dropping from the front while appending at the end.\<close>

lemma drop_append_drop:
  assumes "ys = drop k (xs @ [c])" "zs = drop j (ys @ cs)"
  shows "\<exists>i. zs = drop i (xs @ c # cs) \<and> (k = 0 \<longrightarrow> i = j)"
proof (cases "k \<le> Suc (length xs)")
  case True
  then have eq: "ys @ cs = drop k (xs @ c # cs)" using assms(1) by (auto simp: le_Suc_eq)
  have "zs = drop (j + k) (xs @ c # cs)" by (simp only: assms(2) eq drop_drop)
  then show ?thesis by (intro exI [of _ "j + k"]) simp
next
  case False
  then have "zs = drop (Suc (length xs) + j) (xs @ c # cs)" using assms by simp
  then show ?thesis using False by (intro exI [of _ "Suc (length xs) + j"]) simp
qed

lemma print_chars_steps:
  assumes "consumes flush"
  shows "print_inv m \<Longrightarrow> \<exists>m' k. print_chars flush cs m = Some m' \<and> print_inv m'
    \<and> m' REG_ADDR_WAITCNT = m REG_ADDR_WAITCNT \<and> m' REG_ADDR_IME = m REG_ADDR_IME
    \<and> pending m' = drop k (pending m @ c_string cs) \<and> (waiting m + length (c_string cs) < 65535 \<longrightarrow> k = 0)"
proof (induction cs arbitrary: m)
  case Nil
  then show ?case by (auto intro!: exI [of _ 0])
next
  case (Cons c cs)
  show ?case
  proof (cases "c = 0")
    case True
    then show ?thesis using Cons.prems by (auto intro!: exI [of _ 0])
  next
    case False
    obtain n k where n: "AGBPutc flush c m = Some n" "print_inv n" "n REG_ADDR_WAITCNT = m REG_ADDR_WAITCNT"
        "n REG_ADDR_IME = m REG_ADDR_IME" "pending n = drop k (pending m @ [c])" "waiting m < 65534 \<longrightarrow> k = 0"
      using AGBPutc_step [OF assms Cons.prems(1)] by blast
    from Cons.IH [OF n(2)] obtain m' j where m': "print_chars flush cs n = Some m'" "print_inv m'"
        "m' REG_ADDR_WAITCNT = n REG_ADDR_WAITCNT" "m' REG_ADDR_IME = n REG_ADDR_IME"
        "pending m' = drop j (pending n @ c_string cs)" "waiting n + length (c_string cs) < 65535 \<longrightarrow> j = 0" by blast
    obtain i where i: "pending m' = drop i (pending m @ c # c_string cs)" "k = 0 \<longrightarrow> i = j"
      using drop_append_drop [OF n(5) m'(5)] by blast
    have "waiting n = Suc (waiting m) - k" using arg_cong [OF n(5), of length] by simp
    then have "waiting m + length (c # c_string cs) < 65535 \<longrightarrow> i = 0"
      using i(2) n(6) m'(6) by auto
    then show ?thesis
      using False n m' i(1) by (intro exI [of _ m'] exI [of _ i]) simp
  qed
qed

lemma AGBPrint_steps:
  assumes "consumes flush" "print_inv m"
  shows "\<exists>m' k. AGBPrint flush cs m = Some m' \<and> print_inv m'
    \<and> m' REG_ADDR_WAITCNT = m REG_ADDR_WAITCNT \<and> m' REG_ADDR_IME = m REG_ADDR_IME
    \<and> pending m' = drop k (pending m @ c_string cs) \<and> (waiting m + length (c_string cs) < 65535 \<longrightarrow> k = 0)"
proof -
  let ?w = "m(REG_ADDR_WAITCNT := WSCNT_DATA)"
  have w: "print_inv ?w" "pending ?w = pending m" "waiting ?w = waiting m"
    using assms(2) by (simp_all add: print_inv_def)
  obtain n k where n: "print_chars flush cs ?w = Some n" "print_inv n" "n REG_ADDR_IME = ?w REG_ADDR_IME"
      "pending n = drop k (pending ?w @ c_string cs)" "waiting ?w + length (c_string cs) < 65535 \<longrightarrow> k = 0"
    using print_chars_steps [OF assms(1) w(1)] by blast
  have regs: "REG_ADDR_IME \<noteq> REG_ADDR_WAITCNT" by (simp add: reg_addrs)
  let ?n = "n(REG_ADDR_WAITCNT := m REG_ADDR_WAITCNT)"
  have "print_inv ?n" "pending ?n = pending n" "?n REG_ADDR_IME = m REG_ADDR_IME"
    using n(2,3) regs by (simp_all add: print_inv_def)
  then show ?thesis
    using n w by (intro exI [of _ ?n] exI [of _ k]) (simp add: AGBPrint_def Let_def)
qed

section \<open>Guarantees\<close>

text \<open>A flush routine that takes one character.\<close>

definition take_one :: "memory \<Rightarrow> memory" where
  "take_one m = m(m_nGet := m m_nGet + 1)"

lemma take_one_consumes: "consumes take_one"
  unfolding consumes_def
proof (intro allI impI)
  fix m
  assume m: "print_ok m \<and> 0 < waiting m"
  have apart: "m_nGet \<noteq> m_nPut" "m_nGet \<noteq> m_nBank" "m_nGet \<noteq> REG_ADDR_WAITCNT" "m_nGet \<noteq> REG_ADDR_IME"
    by (simp_all add: print_addrs reg_addrs)
  have ok: "print_ok (take_one m)" using m apart by (simp add: print_ok_def take_one_def)
  have w: "waiting (take_one m) = waiting m - 1"
    using m apart unat_minus_one [of "m m_nPut - m m_nGet"] waiting_0 [of m]
    by (simp add: waiting_def take_one_def diff_diff_eq)
  have b: "byte_at (take_one m) p = byte_at m p" for p
    using m ok slot_apart(6) [of p] by (simp add: byte_at_ok) (simp add: take_one_def)
  have "pending (take_one m) = drop 1 (pending m)"
    using apart by (simp add: pending_def w b drop_map) (simp add: take_one_def list_eq_iff_nth_eq add.assoc)
  then show "print_ok (take_one m) \<and> (\<exists>k>0. pending (take_one m) = drop k (pending m))
     \<and> take_one m REG_ADDR_WAITCNT = m REG_ADDR_WAITCNT \<and> take_one m REG_ADDR_IME = m REG_ADDR_IME"
    using ok apart by (auto simp: take_one_def intro!: exI [of _ 1])
qed

lemma init_inv: "print_inv (AGBPrintInit m)" "pending (AGBPrintInit m) = []"
  by (simp_all add: print_inv_def print_ok_def AGBPrintInit_def waiting_def pending_def Let_def print_addrs reg_addrs)

text \<open>
  C11. Printing refines appending to a queue. Printing a string returns and appends its
  characters, up to the terminating zero, behind what is waiting; characters leave only at
  the front, taken by the debugger's routine, which is not called at all while the string
  fits into the 64 KiB ring. The ring never becomes full, and the wait states and the
  interrupt enable are restored.
\<close>
theorem AGBPrint_queue:
  assumes "consumes flush" "print_inv m"
  shows "\<exists>m' k. AGBPrint flush pBuf m = Some m' \<and> print_inv m'
    \<and> pending m' = drop k (pending m @ c_string pBuf)
    \<and> (waiting m + length (c_string pBuf) < 65535 \<longrightarrow> pending m' = pending m @ c_string pBuf)
    \<and> m' REG_ADDR_WAITCNT = m REG_ADDR_WAITCNT \<and> m' REG_ADDR_IME = m REG_ADDR_IME"
  using AGBPrint_steps [OF assms, of pBuf] by auto

theorem AGBPrint_queue_witness:
  "\<exists>m'. AGBPrint take_one [72, 105, 0, 33] (AGBPrintInit (\<lambda>_. 0)) = Some m' \<and> pending m' = [72, 105]"
  using AGBPrint_queue [OF take_one_consumes init_inv(1), of "[72, 105, 0, 33]" "\<lambda>_. 0"]
    length_pending [of "AGBPrintInit (\<lambda>_. 0)"] init_inv(2) [of "\<lambda>_. 0"]
  by auto

text \<open>
  Storing one character writes exactly its byte of the ring, high or low half of its
  halfword, keeps every other byte of the ring, and leaves the buffer write-protected. While
  fewer than 65535 characters wait, that is an append to the queue.
\<close>
theorem AGBPutcInternal_appends:
  assumes "print_ok m"
  shows "(\<forall>p. byte_at (AGBPutcInternal c m) p = (if p = m m_nPut then c else byte_at m p))
    \<and> AGBPutcInternal c m AGB_PRINT_PROTECT_ADDR = 0
    \<and> (waiting m < 65535 \<longrightarrow> pending (AGBPutcInternal c m) = pending m @ [c])"
  by (simp add: AGBPutcInternal_ok [OF assms] putc_mem_byte [OF assms] putc_mem_fields pending_putc [OF assms])

theorem AGBPutcInternal_appends_witness:
  "byte_at (AGBPutcInternal 65 (AGBPrintInit (\<lambda>_. 0))) 0 = 65"
proof -
  have ok: "print_ok (AGBPrintInit (\<lambda>_. 0))" using init_inv(1) [of "\<lambda>_. 0"] by (simp add: print_inv_def)
  have "AGBPrintInit (\<lambda>_. 0) m_nPut = 0" by (simp add: AGBPrintInit_def Let_def print_addrs reg_addrs)
  then show ?thesis using AGBPutcInternal_appends [OF ok, of 65] by simp
qed

text \<open>
  Flushing ends with an empty queue, however the debugger's routine splits the work, as
  long as each of its calls takes at least one character; interrupts are masked meanwhile
  and restored with the wait states.
\<close>
theorem AGBPrintFlush_empties:
  assumes "consumes flush" "print_inv m"
  shows "\<exists>m'. AGBPrintFlush flush m = Some m' \<and> print_inv m' \<and> pending m' = []
    \<and> m' REG_ADDR_WAITCNT = m REG_ADDR_WAITCNT \<and> m' REG_ADDR_IME = m REG_ADDR_IME"
proof -
  have "print_ok m" using assms(2) by (simp add: print_inv_def)
  from transfer_ok [OF assms(1) this, of 1] obtain m' where m': "AGBPrintFlush flush m = Some m'" "print_ok m'"
    "m' REG_ADDR_WAITCNT = m REG_ADDR_WAITCNT" "m' REG_ADDR_IME = m REG_ADDR_IME" "pending m' = []"
    unfolding AGBPrintFlush_def by (metis one_neq_zero)
  moreover have "waiting m' = 0" using arg_cong [OF m'(5), of length] by simp
  ultimately show ?thesis by (auto simp: print_inv_def)
qed

theorem AGBPrintFlush_empties_witness:
  "\<exists>m'. AGBPrintFlush take_one (AGBPrintInit (\<lambda>_. 0)) = Some m' \<and> pending m' = []"
  using AGBPrintFlush_empties [OF take_one_consumes init_inv(1) [of "\<lambda>_. 0"]] by auto

text \<open>
  C13. An assertion message that fits the 256-byte buffer is printed and, for a fatal one, the
  whole queue has reached the debugger before execution stops. A message of 256 characters
  or more, which the code does not check for, overruns the buffer.
\<close>
theorem AGBAssert_reports:
  assumes "consumes flush" "print_inv m"
  shows "(AGBAssert flush vsprintf args nStopProgram m = None
      \<longleftrightarrow> 256 \<le> length (vsprintf (if nStopProgram \<noteq> 0 then AssertionFailed else Waring) args))
    \<and> (\<forall>stop m'. AGBAssert flush vsprintf args nStopProgram m = Some (stop, m') \<longrightarrow>
        stop = (nStopProgram \<noteq> 0) \<and> print_inv m' \<and> (stop \<longrightarrow> pending m' = [])
        \<and> (\<not> stop \<longrightarrow> (\<exists>k. pending m' = drop k (pending m @ c_string (vsprintf Waring args)))))"
proof -
  have pr: "\<exists>n k. AGBPrint flush s m = Some n \<and> print_inv n \<and> pending n = drop k (pending m @ c_string s)" for s
    using AGBPrint_steps [OF assms, of s] by blast
  obtain n k where n: "AGBPrint flush (vsprintf AssertionFailed args) m = Some n" "print_inv n" using pr by blast
  obtain n' where n': "AGBPrintFlush flush n = Some n'" "print_ok n'" "pending n' = []"
    using transfer_ok [OF assms(1), of n 1] n(2) unfolding AGBPrintFlush_def print_inv_def by (metis one_neq_zero)
  have w: "waiting n' = 0" using arg_cong [OF n'(3), of length] by simp
  obtain u j where u: "AGBPrint flush (vsprintf Waring args) m = Some u" "print_inv u"
      "pending u = drop j (pending m @ c_string (vsprintf Waring args))" using pr by blast
  show ?thesis
  proof (cases "nStopProgram \<noteq> 0")
    case True
    then show ?thesis
      using n n' w by (auto simp: AGBAssert_def AGBPrintf_def Let_def print_inv_def)
  next
    case False
    then show ?thesis
      using u by (auto simp: AGBAssert_def AGBPrintf_def Let_def)
  qed
qed

theorem AGBAssert_reports_witness:
  "AGBAssert take_one (\<lambda>f (n :: nat). replicate n 65) 300 1 (AGBPrintInit (\<lambda>_. 0)) = None"
  using AGBAssert_reports [OF take_one_consumes init_inv(1) [of "\<lambda>_. 0"], of "\<lambda>f (n :: nat). replicate n 65" 300 1]
  by simp

end
