(* ===== verification/M4aTables.thy ===== *)
theory M4aTables
  imports Prelude "HOL-Library.Monad_Syntax"
begin

text \<open>
  The constant tables of the music player, \<^verbatim>\<open>src/m4a/m4a_tables.c\<close>, and the two functions
  of \<^verbatim>\<open>src/m4a/m4a_2.c\<close> that turn a key number into a frequency by looking them up.

  A look-up returns \<open>None\<close> when the index is outside the table, which C leaves undefined;
  the lemmas show that this never happens. Negative table entries are stored in two's
  complement.
\<close>

unbundle bit_operations_syntax

section \<open>Tables\<close>

definition gDeltaEncodingTable :: "s8 list" where
  "gDeltaEncodingTable = [
     0, 1, 4, 9, 16, 25, 36, 49,
     - 64, - 49, - 36, - 25, - 16, - 9, - 4, - 1]"

definition gScaleTable :: "u8 list" where
  "gScaleTable = [
     0xE0, 0xE1, 0xE2, 0xE3, 0xE4, 0xE5, 0xE6, 0xE7, 0xE8, 0xE9, 0xEA, 0xEB,
     0xD0, 0xD1, 0xD2, 0xD3, 0xD4, 0xD5, 0xD6, 0xD7, 0xD8, 0xD9, 0xDA, 0xDB,
     0xC0, 0xC1, 0xC2, 0xC3, 0xC4, 0xC5, 0xC6, 0xC7, 0xC8, 0xC9, 0xCA, 0xCB,
     0xB0, 0xB1, 0xB2, 0xB3, 0xB4, 0xB5, 0xB6, 0xB7, 0xB8, 0xB9, 0xBA, 0xBB,
     0xA0, 0xA1, 0xA2, 0xA3, 0xA4, 0xA5, 0xA6, 0xA7, 0xA8, 0xA9, 0xAA, 0xAB,
     0x90, 0x91, 0x92, 0x93, 0x94, 0x95, 0x96, 0x97, 0x98, 0x99, 0x9A, 0x9B,
     0x80, 0x81, 0x82, 0x83, 0x84, 0x85, 0x86, 0x87, 0x88, 0x89, 0x8A, 0x8B,
     0x70, 0x71, 0x72, 0x73, 0x74, 0x75, 0x76, 0x77, 0x78, 0x79, 0x7A, 0x7B,
     0x60, 0x61, 0x62, 0x63, 0x64, 0x65, 0x66, 0x67, 0x68, 0x69, 0x6A, 0x6B,
     0x50, 0x51, 0x52, 0x53, 0x54, 0x55, 0x56, 0x57, 0x58, 0x59, 0x5A, 0x5B,
     0x40, 0x41, 0x42, 0x43, 0x44, 0x45, 0x46, 0x47, 0x48, 0x49, 0x4A, 0x4B,
     0x30, 0x31, 0x32, 0x33, 0x34, 0x35, 0x36, 0x37, 0x38, 0x39, 0x3A, 0x3B,
     0x20, 0x21, 0x22, 0x23, 0x24, 0x25, 0x26, 0x27, 0x28, 0x29, 0x2A, 0x2B,
     0x10, 0x11, 0x12, 0x13, 0x14, 0x15, 0x16, 0x17, 0x18, 0x19, 0x1A, 0x1B,
     0x00, 0x01, 0x02, 0x03, 0x04, 0x05, 0x06, 0x07, 0x08, 0x09, 0x0A, 0x0B]"

definition gFreqTable :: "u32 list" where
  "gFreqTable = [
     2147483648, 2275179671, 2410468894, 2553802834,
     2705659852, 2866546760, 3037000500, 3217589947,
     3408917802, 3611622603, 3826380858, 4053909305]"

definition gPcmSamplesPerVBlankTable :: "u16 list" where
  "gPcmSamplesPerVBlankTable = [
     96, 132, 176, 224, 264, 304, 352, 448, 528, 608, 672, 704]"

definition gCgbScaleTable :: "u8 list" where
  "gCgbScaleTable = [
     0x00, 0x01, 0x02, 0x03, 0x04, 0x05, 0x06, 0x07, 0x08, 0x09, 0x0A, 0x0B,
     0x10, 0x11, 0x12, 0x13, 0x14, 0x15, 0x16, 0x17, 0x18, 0x19, 0x1A, 0x1B,
     0x20, 0x21, 0x22, 0x23, 0x24, 0x25, 0x26, 0x27, 0x28, 0x29, 0x2A, 0x2B,
     0x30, 0x31, 0x32, 0x33, 0x34, 0x35, 0x36, 0x37, 0x38, 0x39, 0x3A, 0x3B,
     0x40, 0x41, 0x42, 0x43, 0x44, 0x45, 0x46, 0x47, 0x48, 0x49, 0x4A, 0x4B,
     0x50, 0x51, 0x52, 0x53, 0x54, 0x55, 0x56, 0x57, 0x58, 0x59, 0x5A, 0x5B,
     0x60, 0x61, 0x62, 0x63, 0x64, 0x65, 0x66, 0x67, 0x68, 0x69, 0x6A, 0x6B,
     0x70, 0x71, 0x72, 0x73, 0x74, 0x75, 0x76, 0x77, 0x78, 0x79, 0x7A, 0x7B,
     0x80, 0x81, 0x82, 0x83, 0x84, 0x85, 0x86, 0x87, 0x88, 0x89, 0x8A, 0x8B,
     0x90, 0x91, 0x92, 0x93, 0x94, 0x95, 0x96, 0x97, 0x98, 0x99, 0x9A, 0x9B,
     0xA0, 0xA1, 0xA2, 0xA3, 0xA4, 0xA5, 0xA6, 0xA7, 0xA8, 0xA9, 0xAA, 0xAB]"

definition gCgbFreqTable :: "s16 list" where
  "gCgbFreqTable = [
     - 2004, - 1891, - 1785, - 1685, - 1591, - 1501,
     - 1417, - 1337, - 1262, - 1192, - 1125, - 1062]"

definition gNoiseTable :: "u8 list" where
  "gNoiseTable = [
     0xD7, 0xD6, 0xD5, 0xD4, 0xC7, 0xC6, 0xC5, 0xC4, 0xB7, 0xB6, 0xB5, 0xB4,
     0xA7, 0xA6, 0xA5, 0xA4, 0x97, 0x96, 0x95, 0x94, 0x87, 0x86, 0x85, 0x84,
     0x77, 0x76, 0x75, 0x74, 0x67, 0x66, 0x65, 0x64, 0x57, 0x56, 0x55, 0x54,
     0x47, 0x46, 0x45, 0x44, 0x37, 0x36, 0x35, 0x34, 0x27, 0x26, 0x25, 0x24,
     0x17, 0x16, 0x15, 0x14, 0x07, 0x06, 0x05, 0x04, 0x03, 0x02, 0x01, 0x00]"

definition gCgb3Vol :: "u8 list" where
  "gCgb3Vol = [
     0x00, 0x00, 0x60, 0x60, 0x60, 0x60, 0x40, 0x40, 0x40, 0x40, 0x80, 0x80, 0x80, 0x80, 0x20, 0x20]"

definition gClockTable :: "u8 list" where
  "gClockTable = [
     0x00, 0x01, 0x02, 0x03, 0x04, 0x05, 0x06, 0x07, 0x08, 0x09, 0x0A, 0x0B,
     0x0C, 0x0D, 0x0E, 0x0F, 0x10, 0x11, 0x12, 0x13, 0x14, 0x15, 0x16, 0x17,
     0x18, 0x1C, 0x1E, 0x20, 0x24, 0x28, 0x2A, 0x2C, 0x30, 0x34, 0x36, 0x38,
     0x3C, 0x40, 0x42, 0x44, 0x48, 0x4C, 0x4E, 0x50, 0x54, 0x58, 0x5A, 0x5C,
     0x60]"

text \<open>The functions the jump tables and the callback fields of the sound area hold, by their
  names in the source; \<open>F_NULL\<close> is the null pointer.\<close>

datatype mfunc =
    F_NULL
  | F_ply_fine | F_ply_goto | F_ply_patt | F_ply_pend | F_ply_rept
  | F_ply_prio | F_ply_tempo | F_ply_keysh | F_ply_voice | F_ply_vol
  | F_ply_pan | F_ply_bend | F_ply_bendr | F_ply_lfos | F_ply_lfodl
  | F_ply_mod | F_ply_modt | F_ply_tune | F_ply_port | F_ply_endtie
  | F_SampleFreqSet | F_TrackStop | F_FadeOutBody | F_TrkVolPitSet | F_RealClearChain
  | F_SoundMainBTM | F_ply_memacc | F_ply_xcmd | F_ply_xxx | F_ply_xwave
  | F_ply_xtype | F_ply_xatta | F_ply_xdeca | F_ply_xsust | F_ply_xrele
  | F_ply_xiecv | F_ply_xiecl | F_ply_xleng | F_ply_xswee | F_ply_xcmd_0C
  | F_ply_xcmd_0D | F_CgbSound | F_CgbOscOff | F_MidiKeyToCgbFreq | F_DummyFunc
  | F_ply_note | F_MPlayMain

definition gMPlayJumpTableTemplate :: "mfunc list" where
  "gMPlayJumpTableTemplate = [
     F_ply_fine, F_ply_goto, F_ply_patt, F_ply_pend, F_ply_rept,
     F_ply_fine, F_ply_fine, F_ply_fine, F_ply_fine, F_ply_prio,
     F_ply_tempo, F_ply_keysh, F_ply_voice, F_ply_vol, F_ply_pan,
     F_ply_bend, F_ply_bendr, F_ply_lfos, F_ply_lfodl, F_ply_mod,
     F_ply_modt, F_ply_fine, F_ply_fine, F_ply_tune, F_ply_fine,
     F_ply_fine, F_ply_fine, F_ply_port, F_ply_fine, F_ply_endtie,
     F_SampleFreqSet, F_TrackStop, F_FadeOutBody, F_TrkVolPitSet, F_RealClearChain,
     F_SoundMainBTM]"

definition gXcmdTable :: "mfunc list" where
  "gXcmdTable = [
     F_ply_xxx, F_ply_xwave, F_ply_xtype, F_ply_xxx, F_ply_xatta,
     F_ply_xdeca, F_ply_xsust, F_ply_xrele, F_ply_xiecv, F_ply_xiecl,
     F_ply_xleng, F_ply_xswee, F_ply_xcmd_0C, F_ply_xcmd_0D]"

section \<open>Key numbers and frequencies\<close>

definition table_at :: "'a list \<Rightarrow> nat \<Rightarrow> 'a option" where
  "table_at xs i = (if i < length xs then Some (xs ! i) else None)"

text \<open>The assembly routine \<^verbatim>\<open>umul3232H32\<close>: the high word of the 64-bit product.\<close>

definition umul3232H32 :: "u32 \<Rightarrow> u32 \<Rightarrow> u32" where
  "umul3232H32 multiplier multiplicand =
     ucast (drop_bit 32 (ucast multiplier * ucast multiplicand :: 64 word))"

definition scale_freq :: "u8 \<Rightarrow> u32 option" where
  "scale_freq v = do {
     f \<leftarrow> table_at gFreqTable (unat (v AND 0xF));
     Some (drop_bit (unat (drop_bit 4 v)) f)
   }"

text \<open>\<open>wav_freq\<close> is the field \<^verbatim>\<open>wav->freq\<close>, the only one the function reads.\<close>

definition MidiKeyToFreq :: "u32 \<Rightarrow> u8 \<Rightarrow> u8 \<Rightarrow> u32 option" where
  "MidiKeyToFreq wav_freq key fineAdjust = do {
     let fineAdjustShifted = push_bit 24 (ucast fineAdjust :: u32);
     let (key, fineAdjustShifted) =
       (if key > 178 then (178, push_bit 24 255) else (key, fineAdjustShifted));
     v1 \<leftarrow> table_at gScaleTable (unat key);
     val1 \<leftarrow> scale_freq v1;
     v2 \<leftarrow> table_at gScaleTable (unat key + 1);
     val2 \<leftarrow> scale_freq v2;
     Some (umul3232H32 wav_freq (val1 + umul3232H32 (val2 - val1) fineAdjustShifted))
   }"

definition cgb_scale_freq :: "u8 \<Rightarrow> s32 option" where
  "cgb_scale_freq v = do {
     f \<leftarrow> table_at gCgbFreqTable (unat (v AND 0xF));
     Some (signed_drop_bit (unat (drop_bit 4 v)) (scast f))
   }"

definition MidiKeyToCgbFreq :: "u8 \<Rightarrow> u8 \<Rightarrow> u8 \<Rightarrow> u32 option" where
  "MidiKeyToCgbFreq chanNum key fineAdjust =
     (if chanNum = 4 then do {
        let key = (if key \<le> 20 then 0 else let key = key - 21 in if key > 59 then 59 else key);
        n \<leftarrow> table_at gNoiseTable (unat key);
        Some (ucast n)
      } else do {
        let (key, fineAdjust) =
          (if key \<le> 35 then (0, 0)
           else let key = key - 36 in if key > 130 then (130, 255) else (key, fineAdjust));
        v1 \<leftarrow> table_at gCgbScaleTable (unat key);
        val1 \<leftarrow> cgb_scale_freq v1;
        v2 \<leftarrow> table_at gCgbScaleTable (unat key + 1);
        val2 \<leftarrow> cgb_scale_freq v2;
        Some (val1 + signed_drop_bit 8 (ucast fineAdjust * (val2 - val1)) + 2048)
      })"

section \<open>Interpolation between table entries\<close>

text \<open>Both functions interpolate in 256 steps between two neighbouring entries of a table
  that does not decrease. The locale holds what follows from that alone; \<open>n\<close> is the last
  index of the table.\<close>

definition interpolate :: "(nat \<Rightarrow> int) \<Rightarrow> nat \<Rightarrow> int \<Rightarrow> int" where
  "interpolate v i f = v i + f * (v (Suc i) - v i) div 256"

locale pitch_table =
  fixes v :: "nat \<Rightarrow> int" and n :: nat
  assumes v_mono: "i \<le> j \<Longrightarrow> j \<le> n \<Longrightarrow> v i \<le> v j"
begin

lemma between_entries:
  assumes "i < n" "0 \<le> f" "f < 256"
  shows "v i \<le> interpolate v i f \<and> interpolate v i f \<le> v (Suc i)"
proof -
  let ?d = "v (Suc i) - v i"
  have d: "0 \<le> ?d" using v_mono [of i "Suc i"] assms(1) by simp
  have "f * ?d \<le> 256 * ?d" using assms(3) d by (intro mult_right_mono) auto
  then have "f * ?d div 256 \<le> ?d" using zdiv_mono1 [of "f * ?d" "256 * ?d" 256] by simp
  moreover have "0 \<le> f * ?d div 256" using assms(2) d by (simp add: pos_imp_zdiv_nonneg_iff)
  ultimately show ?thesis by (simp add: interpolate_def)
qed

lemma fine_mono:
  assumes "i < n" "f \<le> g"
  shows "interpolate v i f \<le> interpolate v i g"
proof -
  have "0 \<le> v (Suc i) - v i" using v_mono [of i "Suc i"] assms(1) by simp
  then show ?thesis using assms(2)
    by (auto simp: interpolate_def intro!: zdiv_mono1 mult_right_mono)
qed

lemma lex_mono:
  assumes "i < j \<or> i = j \<and> f \<le> g" "j < n" "0 \<le> f" "f < 256" "0 \<le> g" "g < 256"
  shows "interpolate v i f \<le> interpolate v j g"
proof (cases "i < j")
  case True
  then have "interpolate v i f \<le> v (Suc i)" "v (Suc i) \<le> v j" "v j \<le> interpolate v j g"
    using between_entries [of i f] between_entries [of j g] v_mono [of "Suc i" j] assms by auto
  then show ?thesis by linarith
next
  case False
  then show ?thesis using assms fine_mono [of i f g] by auto
qed

lemma within_table:
  assumes "i < n" "0 \<le> f" "f < 256"
  shows "v 0 \<le> interpolate v i f \<and> interpolate v i f \<le> v n"
  using between_entries [OF assms] v_mono [of 0 i] v_mono [of "Suc i" n] assms(1) by fastforce

end

lemma sorted_map_nth_mono:
  assumes "sorted (map g xs)" "i \<le> j" "j < length xs"
  shows "g (xs ! i) \<le> g (xs ! j)"
  using sorted_nth_mono [OF assms(1) assms(2)] assms(2,3) by simp

text \<open>The entries as numbers: \<open>pcm_pitch\<close> is the fixed-point factor of a key for sampled
  sound, \<open>cgb_pitch\<close> the (negative) period offset of a key for the tone generators.\<close>

definition pcm_pitch :: "nat \<Rightarrow> int" where
  "pcm_pitch i = uint (the (scale_freq (gScaleTable ! i)))"

definition cgb_pitch :: "nat \<Rightarrow> int" where
  "cgb_pitch i = sint (the (cgb_scale_freq (gCgbScaleTable ! i)))"

lemma scale_lengths [simp]:
  "length gScaleTable = 180" "length gFreqTable = 12" "length gPcmSamplesPerVBlankTable = 12"
  "length gCgbScaleTable = 132" "length gCgbFreqTable = 12" "length gNoiseTable = 60"
  "length gMPlayJumpTableTemplate = 36" "length gXcmdTable = 14"
  by (simp_all add: gScaleTable_def gFreqTable_def gPcmSamplesPerVBlankTable_def
      gCgbScaleTable_def gCgbFreqTable_def gNoiseTable_def gMPlayJumpTableTemplate_def gXcmdTable_def)

lemma scale_freq_table: "list_all (\<lambda>v. scale_freq v \<noteq> None) gScaleTable"
  by code_simp

lemma cgb_scale_freq_table: "list_all (\<lambda>v. cgb_scale_freq v \<noteq> None) gCgbScaleTable"
  by code_simp

lemma scale_freq_sorted: "sorted (map (\<lambda>v. uint (the (scale_freq v))) gScaleTable)"
  by code_simp

lemma cgb_scale_freq_sorted: "sorted (map (\<lambda>v. sint (the (cgb_scale_freq v))) gCgbScaleTable)"
  by code_simp

lemma scale_freq_at:
  assumes "i < 180"
  shows "scale_freq (gScaleTable ! i) = Some (word_of_int (pcm_pitch i))"
proof -
  have "scale_freq (gScaleTable ! i) \<noteq> None"
    using scale_freq_table assms by (simp add: list_all_length)
  then show ?thesis by (auto simp: pcm_pitch_def)
qed

lemma cgb_scale_freq_at:
  assumes "i < 132"
  shows "cgb_scale_freq (gCgbScaleTable ! i) = Some (word_of_int (cgb_pitch i))"
proof -
  have "cgb_scale_freq (gCgbScaleTable ! i) \<noteq> None"
    using cgb_scale_freq_table assms by (simp add: list_all_length)
  then show ?thesis by (auto simp: cgb_pitch_def)
qed

interpretation pcm: pitch_table pcm_pitch 179
  by unfold_locales
    (use sorted_map_nth_mono [OF scale_freq_sorted] in \<open>auto simp: pcm_pitch_def\<close>)

interpretation cgb: pitch_table cgb_pitch 131
  by unfold_locales
    (use sorted_map_nth_mono [OF cgb_scale_freq_sorted] in \<open>auto simp: cgb_pitch_def\<close>)

lemma pitch_ends:
  "pcm_pitch 0 = 131072" "pcm_pitch 179 = 4053909305" "pcm_pitch 60 = 4194304"
  "cgb_pitch 0 = - 2004" "cgb_pitch 131 = - 2"
  by (code_simp, code_simp, code_simp, code_simp, code_simp)

lemma octave_doubles_table: "list_all (\<lambda>i. pcm_pitch (i + 12) div 2 = pcm_pitch i) [0..<168]"
  by code_simp

section \<open>The functions are interpolations\<close>

lemma uint_umul3232H32: "uint (umul3232H32 a b) = uint a * uint b div 2 ^ 32"
proof -
  have "uint a * uint b < 2 ^ 32 * 2 ^ 32"
    using uint_lt2p [of a] uint_lt2p [of b] by (intro mult_strict_mono) auto
  moreover have "uint (ucast a :: 64 word) = uint a" "uint (ucast b :: 64 word) = uint b"
    by (simp_all add: uint_up_ucast is_up)
  ultimately have "uint (ucast a * ucast b :: 64 word) = uint a * uint b"
    using uint_mult_lem [of "ucast a :: 64 word" "ucast b"] by simp
  moreover have "uint a * uint b div 2 ^ 32 < 2 ^ 32"
    using \<open>uint a * uint b < 2 ^ 32 * 2 ^ 32\<close> by (simp add: div_less_iff_less_mult)
  ultimately show ?thesis
    by (simp add: umul3232H32_def unsigned_ucast_eq drop_bit_eq_div uint_div
        take_bit_int_eq_self pos_imp_zdiv_nonneg_iff)
qed

lemma uint_umul3232H32_fine:
  "uint (umul3232H32 d (push_bit 24 (ucast (f :: u8)))) = uint f * uint d div 256"
proof -
  have "uint f < 256" using uint_lt2p [of f] by simp
  then have "uint (push_bit 24 (ucast f) :: u32) = uint f * 2 ^ 24"
    using uint_mult_lem [of "ucast f :: u32" "2 ^ 24"]
    by (simp add: push_bit_eq_mult uint_up_ucast is_up)
  moreover have "uint d * (uint f * 2 ^ 24) div 2 ^ 32 = uint f * uint d div 256"
    using zdiv_zmult2_eq [of "2 ^ 24" "uint f * uint d * 2 ^ 24" 256] by (simp add: ac_simps)
  ultimately show ?thesis by (simp add: uint_umul3232H32)
qed

definition freq_key :: "u8 \<Rightarrow> nat" where "freq_key k = (if k > 178 then 178 else unat k)"
definition freq_fine :: "u8 \<Rightarrow> u8 \<Rightarrow> u8" where "freq_fine k f = (if k > 178 then 255 else f)"

lemma freq_key_less: "freq_key k < 179"
  by (auto simp: freq_key_def word_less_nat_alt)

lemma u8_uint_range: "0 \<le> uint (f :: u8)" "uint (f :: u8) < 256"
  using uint_lt2p [of f] by simp_all

lemma u8_unat_less: "unat (f :: u8) < 256"
  using unsigned_less [of f] by simp

lemma pcm_pitch_range:
  assumes "i < 180" shows "131072 \<le> pcm_pitch i \<and> pcm_pitch i \<le> 4053909305"
  using pcm.v_mono [of 0 i] pcm.v_mono [of i 179] assms by (simp add: pitch_ends)

lemma pcm_interpolate_range:
  assumes "i < 179" shows "131072 \<le> interpolate pcm_pitch i (uint (f :: u8))"
    "interpolate pcm_pitch i (uint f) \<le> 4053909305"
  using pcm.within_table [OF assms u8_uint_range, of f] by (simp_all add: pitch_ends)

lemma MidiKeyToFreq_interpolates:
  "\<exists>r. MidiKeyToFreq w k f = Some r
     \<and> uint r = uint w * interpolate pcm_pitch (freq_key k) (uint (freq_fine k f)) div 2 ^ 32"
proof -
  define i where "i = freq_key k"
  define g where "g = freq_fine k f"
  define v1 v2 :: u32 where "v1 = word_of_int (pcm_pitch i)" and "v2 = word_of_int (pcm_pitch (Suc i))"
  have i: "i < 179" using freq_key_less [of k] by (simp add: i_def)
  note r = pcm_pitch_range [of i] pcm_pitch_range [of "Suc i"] pcm.v_mono [of i "Suc i"] i
  have u: "uint v1 = pcm_pitch i" "uint v2 = pcm_pitch (Suc i)"
    using r by (simp_all add: v1_def v2_def unsigned_of_int take_bit_int_eq_self)
  have "uint (v2 - v1) = pcm_pitch (Suc i) - pcm_pitch i"
    using r u by (simp add: uint_sub_if')
  then have "uint (v1 + umul3232H32 (v2 - v1) (push_bit 24 (ucast g))) = interpolate pcm_pitch i (uint g)"
    using u pcm_interpolate_range [OF i, of g]
    by (simp add: uint_plus_if' uint_umul3232H32_fine interpolate_def)
  moreover have "MidiKeyToFreq w k f
      = Some (umul3232H32 w (v1 + umul3232H32 (v2 - v1) (push_bit 24 (ucast g))))"
    using i scale_freq_at [of i] scale_freq_at [of "Suc i"]
    by (cases "178 < k")
      (simp_all add: MidiKeyToFreq_def table_at_def i_def g_def freq_key_def freq_fine_def v1_def v2_def)
  ultimately show ?thesis by (simp add: uint_umul3232H32 i_def g_def)
qed

definition cgb_key :: "u8 \<Rightarrow> nat" where
  "cgb_key k = (if k \<le> 35 then 0 else if k > 166 then 130 else unat k - 36)"
definition cgb_fine :: "u8 \<Rightarrow> u8 \<Rightarrow> u8" where
  "cgb_fine k f = (if k \<le> 35 then 0 else if k > 166 then 255 else f)"

lemma cgb_key_less: "cgb_key k < 131"
  by (auto simp: cgb_key_def word_less_nat_alt word_le_nat_alt)

lemma cgb_pitch_range:
  assumes "i < 132" shows "- 2004 \<le> cgb_pitch i \<and> cgb_pitch i \<le> - 2"
  using cgb.v_mono [of 0 i] cgb.v_mono [of i 131] assms by (simp add: pitch_ends)

lemma cgb_interpolate_range:
  assumes "i < 131" shows "- 2004 \<le> interpolate cgb_pitch i (uint (f :: u8))"
    "interpolate cgb_pitch i (uint f) \<le> - 2"
  using cgb.within_table [OF assms u8_uint_range, of f] by (simp_all add: pitch_ends)

lemma cgb_key_sub:
  assumes "\<not> k \<le> (35 :: u8)"
  shows "unat (k - 36) = unat k - 36"
  using assms by (simp add: unat_sub_if' word_le_nat_alt not_le)

lemma sint_word_of_int_32: "- (2 ^ 31) \<le> x \<Longrightarrow> x < 2 ^ 31 \<Longrightarrow> sint (word_of_int x :: 32 word) = x"
  by (simp add: signed_of_int signed_take_bit_int_eq_self)

lemma uint_word_of_int_32: "0 \<le> x \<Longrightarrow> x < 2 ^ 32 \<Longrightarrow> uint (word_of_int x :: 32 word) = x"
  by (simp add: unsigned_of_int take_bit_int_eq_self)

lemma cgb_fine_product:
  assumes "0 \<le> d" "d \<le> 2004"
  shows "signed_drop_bit 8 (ucast (f :: u8) * word_of_int d :: s32) = word_of_int (uint f * d div 256)"
proof -
  have b: "0 \<le> uint f * d" "uint f * d < 2 ^ 31"
    using assms u8_uint_range [of f] mult_mono [of "uint f" 256 d 2004] by simp_all
  have "sint (ucast f * word_of_int d :: s32) = uint f * d"
  proof -
    have "(ucast f * word_of_int d :: s32) = word_of_int (uint f * d)"
      by (simp only: ucast_eq wi_hom_mult)
    then show ?thesis using b sint_word_of_int_32 [of "uint f * d"] by (simp only:)
  qed
  then have "sint (signed_drop_bit 8 (ucast f * word_of_int d :: s32)) = uint f * d div 256"
    by (simp add: sint_signed_drop_bit_eq drop_bit_eq_div)
  moreover have "sint (word_of_int (uint f * d div 256) :: s32) = uint f * d div 256"
  proof (rule sint_word_of_int_32)
    have "uint f * d div 256 \<le> uint f * d" using b(1) by linarith
    then show "uint f * d div 256 < 2 ^ 31" using b(2) by linarith
    show "- (2 ^ 31) \<le> uint f * d div 256" using b(1) by simp
  qed
  ultimately show ?thesis by (metis signed_word_eqI)
qed

lemma MidiKeyToCgbFreq_interpolates:
  assumes "c \<noteq> 4"
  shows "\<exists>r. MidiKeyToCgbFreq c k f = Some r
     \<and> uint r = interpolate cgb_pitch (cgb_key k) (uint (cgb_fine k f)) + 2048"
proof -
  define i where "i = cgb_key k"
  define g where "g = cgb_fine k f"
  define r :: u32 where "r = word_of_int (interpolate cgb_pitch i (uint g) + 2048)"
  have w2048: "(2048 :: u32) = word_of_int 2048" by simp
  have i: "i < 131" using cgb_key_less [of k] by (simp add: i_def)
  have key: "\<not> k \<le> 35 \<Longrightarrow> (k - 36 > 130) = (k > 166)"
    by (simp add: word_less_nat_alt cgb_key_sub) (auto simp: word_le_nat_alt)
  have d: "0 \<le> cgb_pitch (Suc i) - cgb_pitch i" "cgb_pitch (Suc i) - cgb_pitch i \<le> 2004"
    using cgb.v_mono [of i "Suc i"] cgb_pitch_range [of i] cgb_pitch_range [of "Suc i"] i by auto
  have "MidiKeyToCgbFreq c k f = Some (word_of_int (cgb_pitch i)
      + signed_drop_bit 8 (ucast g * (word_of_int (cgb_pitch (Suc i)) - word_of_int (cgb_pitch i))) + 2048)"
    using assms i key cgb_scale_freq_at [of i] cgb_scale_freq_at [of "Suc i"]
    by (auto simp: MidiKeyToCgbFreq_def table_at_def Let_def i_def g_def cgb_key_def cgb_fine_def cgb_key_sub
        split: if_splits)
  also have "\<dots> = Some r"
    by (simp only: r_def interpolate_def wi_hom_sub cgb_fine_product [OF d] wi_hom_add w2048)
  finally have "MidiKeyToCgbFreq c k f = Some r" .
  moreover have "uint r = interpolate cgb_pitch i (uint g) + 2048"
    unfolding r_def by (rule uint_word_of_int_32) (use cgb_interpolate_range [OF i, of g] in auto)
  ultimately show ?thesis by (simp only: i_def g_def) blast
qed

section \<open>Properties\<close>

text \<open>The tone generator frequency of a key always comes from inside the tables. For the
  square and wave channels it fits the 11-bit frequency register and lies between 44 and
  2046, and it never falls when the key number or, for the same key, the fine adjustment
  rises, also across the ends where the key is clamped. For the noise channel it is an entry
  of the noise table.\<close>

theorem MidiKeyToCgbFreq_range_mono:
  "(\<exists>r. MidiKeyToCgbFreq 4 k f = Some r \<and> r \<in> ucast ` set gNoiseTable)
   \<and> (c \<noteq> 4 \<longrightarrow> (\<exists>r r'. MidiKeyToCgbFreq c k f = Some r \<and> MidiKeyToCgbFreq c k' f' = Some r'
        \<and> 44 \<le> r \<and> r \<le> 2046 \<and> (k < k' \<or> k = k' \<and> f \<le> f' \<longrightarrow> r \<le> r')))"
proof (intro conjI impI)
  show "\<exists>r. MidiKeyToCgbFreq 4 k f = Some r \<and> r \<in> ucast ` set gNoiseTable"
  proof -
    define i where "i = unat (if k \<le> 20 then 0 else if k - 21 > 59 then 59 else k - 21)"
    have "i < 60" by (auto simp: i_def word_less_nat_alt not_less)
    moreover from this have "MidiKeyToCgbFreq 4 k f = Some (ucast (gNoiseTable ! i))"
      by (auto simp: MidiKeyToCgbFreq_def table_at_def i_def Let_def split: if_splits)
    ultimately show ?thesis by (simp add: image_iff) (metis nth_mem scale_lengths(6))
  qed
  assume c: "c \<noteq> 4"
  let ?i = "interpolate cgb_pitch (cgb_key k) (uint (cgb_fine k f))"
  let ?j = "interpolate cgb_pitch (cgb_key k') (uint (cgb_fine k' f'))"
  obtain r r' where r: "MidiKeyToCgbFreq c k f = Some r" "uint r = ?i + 2048"
    and r': "MidiKeyToCgbFreq c k' f' = Some r'" "uint r' = ?j + 2048"
    using MidiKeyToCgbFreq_interpolates [OF c] by blast
  have "44 \<le> r" "r \<le> 2046"
    using r cgb_interpolate_range [OF cgb_key_less, of k "cgb_fine k f"]
    by (simp_all add: word_le_def)
  moreover have "r \<le> r'" if "k < k' \<or> k = k' \<and> f \<le> f'"
  proof -
    have "cgb_key k < cgb_key k' \<or> cgb_key k = cgb_key k' \<and> uint (cgb_fine k f) \<le> uint (cgb_fine k' f')"
      using that u8_unat_less [of f]
      by (auto simp: cgb_key_def cgb_fine_def word_less_nat_alt word_le_nat_alt not_le
          simp flip: word_le_def)
    then have "?i \<le> ?j" by (intro cgb.lex_mono) (use u8_uint_range cgb_key_less in auto)
    then show ?thesis using r r' by (simp add: word_le_def)
  qed
  ultimately show "\<exists>r r'. MidiKeyToCgbFreq c k f = Some r \<and> MidiKeyToCgbFreq c k' f' = Some r'
        \<and> 44 \<le> r \<and> r \<le> 2046 \<and> (k < k' \<or> k = k' \<and> f \<le> f' \<longrightarrow> r \<le> r')"
    using r r' by blast
qed

theorem MidiKeyToCgbFreq_range_mono_witness:
  "\<exists>r r'. MidiKeyToCgbFreq 1 60 7 = Some r \<and> MidiKeyToCgbFreq 1 60 200 = Some r' \<and> 44 \<le> r \<and> r \<le> r'"
  using MidiKeyToCgbFreq_range_mono [where c = 1 and k = 60 and f = 7 and k' = 60 and f' = 200] by auto

lemma MidiKeyToFreq_bounds_mono:
  "\<exists>r r'. MidiKeyToFreq w k f = Some r \<and> MidiKeyToFreq w k' f' = Some r'
      \<and> r \<le> w \<and> (k < k' \<or> k = k' \<and> f \<le> f' \<longrightarrow> r \<le> r')"
proof -
  let ?i = "interpolate pcm_pitch (freq_key k) (uint (freq_fine k f))"
  let ?j = "interpolate pcm_pitch (freq_key k') (uint (freq_fine k' f'))"
  obtain r r' where r: "MidiKeyToFreq w k f = Some r" "uint r = uint w * ?i div 2 ^ 32"
    and r': "MidiKeyToFreq w k' f' = Some r'" "uint r' = uint w * ?j div 2 ^ 32"
    using MidiKeyToFreq_interpolates by blast
  have "r \<le> w"
  proof -
    have "uint w * ?i \<le> uint w * 2 ^ 32"
      using pcm_interpolate_range [OF freq_key_less, of k "freq_fine k f"] by (intro mult_left_mono) auto
    then have "uint w * ?i div 2 ^ 32 \<le> uint w" using zdiv_mono1 [of _ "uint w * 2 ^ 32" "2 ^ 32"] by simp
    then show ?thesis using r by (simp add: word_le_def)
  qed
  moreover have "r \<le> r'" if "k < k' \<or> k = k' \<and> f \<le> f'"
  proof -
    have "freq_key k < freq_key k' \<or> freq_key k = freq_key k' \<and> uint (freq_fine k f) \<le> uint (freq_fine k' f')"
      using that u8_unat_less [of f]
      by (auto simp: freq_key_def freq_fine_def word_less_nat_alt word_le_nat_alt not_le
          simp flip: word_le_def)
    then have "?i \<le> ?j" by (intro pcm.lex_mono) (use u8_uint_range freq_key_less in auto)
    then have "uint w * ?i div 2 ^ 32 \<le> uint w * ?j div 2 ^ 32" by (intro zdiv_mono1 mult_left_mono) auto
    then show ?thesis using r r' by (simp add: word_le_def)
  qed
  ultimately show ?thesis using r r' by blast
qed

lemma MidiKeyToFreq_reference: "MidiKeyToFreq w 60 0 = Some (drop_bit 10 w)"
proof -
  obtain r where r: "MidiKeyToFreq w 60 0 = Some r" "uint r = uint w * pcm_pitch 60 div 2 ^ 32"
    using MidiKeyToFreq_interpolates [of w 60 0] by (auto simp: freq_key_def freq_fine_def interpolate_def)
  have "uint w * 4194304 div 2 ^ 32 = uint w div 1024"
    using zdiv_zmult2_eq [of 4194304 "uint w * 4194304" 1024] by simp
  then have "r = drop_bit 10 w"
    using r by (simp add: pitch_ends word_uint_eq_iff drop_bit_eq_div uint_div)
  then show ?thesis using r by simp
qed

lemma MidiKeyToFreq_octave:
  assumes "k \<le> 166"
  shows "\<exists>r r'. MidiKeyToFreq w k 0 = Some r \<and> MidiKeyToFreq w (k + 12) 0 = Some r'
    \<and> 2 * uint r \<le> uint r' \<and> uint r' \<le> 2 * uint r + 2"
proof -
  have k: "unat k \<le> 166" "unat (k + 12) = unat k + 12" "\<not> 178 < k" "\<not> 178 < k + 12"
    using assms by (auto simp: word_le_nat_alt word_less_nat_alt unat_plus_if')
  let ?p = "pcm_pitch (unat k)" and ?q = "pcm_pitch (unat k + 12)"
  obtain r where r: "MidiKeyToFreq w k 0 = Some r" "uint r = uint w * ?p div 2 ^ 32"
    using MidiKeyToFreq_interpolates [of w k 0] k by (auto simp: freq_key_def freq_fine_def interpolate_def)
  obtain r' where r': "MidiKeyToFreq w (k + 12) 0 = Some r'" "uint r' = uint w * ?q div 2 ^ 32"
    using MidiKeyToFreq_interpolates [of w "k + 12" 0] k
    by (auto simp: freq_key_def freq_fine_def interpolate_def)
  have "?q div 2 = ?p" using octave_doubles_table k(1) by (simp add: list_all_iff)
  then have "2 * (uint w * ?p) \<le> uint w * ?q" "uint w * ?q \<le> uint w * (2 * ?p + 1)"
    by (auto intro!: mult_left_mono simp: mult.left_commute [of 2])
  moreover have "uint w * (2 * ?p + 1) = 2 * (uint w * ?p) + uint w" by (simp add: algebra_simps)
  ultimately have "2 * (uint w * ?p) \<le> uint w * ?q \<and> uint w * ?q < 2 * (uint w * ?p) + 2 ^ 32"
    using uint_lt2p [of w] by simp
  then have "2 * (uint w * ?p div 2 ^ 32) \<le> uint w * ?q div 2 ^ 32
      \<and> uint w * ?q div 2 ^ 32 \<le> 2 * (uint w * ?p div 2 ^ 32) + 2"
    by auto
  then show ?thesis using r r' by auto
qed

text \<open>C18. The playback rate of a sample always comes from inside the tables and never exceeds
  the wave's own rate field. It never falls when the key or, for the same key, the fine
  adjustment rises. Key 60 without fine adjustment plays the wave at its rate divided by
  1024, and a key twelve higher plays at twice the rate, up to the rounding of at most two
  units.\<close>

theorem MidiKeyToFreq_scale:
  "(\<exists>r r'. MidiKeyToFreq w k f = Some r \<and> MidiKeyToFreq w k' f' = Some r'
      \<and> r \<le> w \<and> (k < k' \<or> k = k' \<and> f \<le> f' \<longrightarrow> r \<le> r'))
   \<and> MidiKeyToFreq w 60 0 = Some (drop_bit 10 w)
   \<and> (k \<le> 166 \<longrightarrow> (\<exists>r r'. MidiKeyToFreq w k 0 = Some r \<and> MidiKeyToFreq w (k + 12) 0 = Some r'
         \<and> 2 * uint r \<le> uint r' \<and> uint r' \<le> 2 * uint r + 2))"
  using MidiKeyToFreq_bounds_mono MidiKeyToFreq_reference MidiKeyToFreq_octave by blast

theorem MidiKeyToFreq_scale_witness:
  "\<exists>r r'. MidiKeyToFreq 13697024 60 0 = Some r \<and> MidiKeyToFreq 13697024 72 0 = Some r'
      \<and> 2 * uint r \<le> uint r' \<and> uint r' \<le> 2 * uint r + 2"
  using MidiKeyToFreq_scale [where w = 13697024 and k = 60 and f = 0 and k' = 60 and f' = 0] by auto

end
