(* ===== verification/M4a.thy ===== *)
theory M4a
  imports M4aTables GbaIo
begin

text \<open>
  The music player library, \<^verbatim>\<open>src/m4a/m4a_2.c\<close>: set-up of the sound hardware and the mixer's
  work area, the players and their tracks, starting, stopping, pausing and fading songs, and
  the volume and pitch computations; with the assembly routines of \<^verbatim>\<open>src/m4a/m4a_1.s\<close> that
  these functions call.

  Memory is typed: players, tracks, mixer areas and channels live in stores from addresses
  to records, song data, sample buffers and everything else in a byte memory \<open>mem\<close>. Objects of
  different stores are assumed not to overlap, as the linker places them. A direct sound
  channel and a tone generator channel have the same layout in the fields the library uses
  through either type, so one store holds both. Accesses to I/O registers are recorded in
  \<open>io\<close>; what a read returns is the parameter \<open>hw\<close>, a function of the accesses before it, so
  that a register may change on its own. Addresses the linker assigns and the game's tables
  are the other fields of \<open>m4a_env\<close>.

  An operation returns \<open>None\<close> when the C code does not come back with a defined result: it
  waits for ever, indexes outside a table, or calls through a pointer that does not hold a
  function of that type.
\<close>

unbundle bit_operations_syntax

section \<open>Constants of \<^verbatim>\<open>m4a_internal.h\<close>\<close>

definition ID_NUMBER :: u32 where "ID_NUMBER = 0x68736D53"
definition C_V :: u8 where "C_V = 0x40"
definition SOUND_MODE_REVERB_VAL :: u32 where "SOUND_MODE_REVERB_VAL = 0x0000007F"
definition SOUND_MODE_REVERB_SET :: u32 where "SOUND_MODE_REVERB_SET = 0x00000080"
definition SOUND_MODE_MAXCHN :: u32 where "SOUND_MODE_MAXCHN = 0x00000F00"
definition SOUND_MODE_MASVOL :: u32 where "SOUND_MODE_MASVOL = 0x0000F000"
definition SOUND_MODE_FREQ_13379 :: u32 where "SOUND_MODE_FREQ_13379 = 0x00040000"
definition SOUND_MODE_FREQ :: u32 where "SOUND_MODE_FREQ = 0x000F0000"
definition SOUND_MODE_DA_BIT_8 :: u32 where "SOUND_MODE_DA_BIT_8 = 0x00900000"
definition SOUND_MODE_DA_BIT :: u32 where "SOUND_MODE_DA_BIT = 0x00B00000"
definition MAX_DIRECTSOUND_CHANNELS :: nat where "MAX_DIRECTSOUND_CHANNELS = 12"
definition PCM_DMA_BUF_SIZE :: nat where "PCM_DMA_BUF_SIZE = 1584"
definition MPT_FLG_VOLSET :: u8 where "MPT_FLG_VOLSET = 0x01"
definition MPT_FLG_VOLCHG :: u8 where "MPT_FLG_VOLCHG = 0x03"
definition MPT_FLG_PITSET :: u8 where "MPT_FLG_PITSET = 0x04"
definition MPT_FLG_PITCHG :: u8 where "MPT_FLG_PITCHG = 0x0C"
definition MPT_FLG_START :: u8 where "MPT_FLG_START = 0x40"
definition MPT_FLG_EXIST :: u8 where "MPT_FLG_EXIST = 0x80"
definition MUSICPLAYER_STATUS_TRACK :: u32 where "MUSICPLAYER_STATUS_TRACK = 0x0000ffff"
definition MUSICPLAYER_STATUS_PAUSE :: u32 where "MUSICPLAYER_STATUS_PAUSE = 0x80000000"
definition MAX_MUSICPLAYER_TRACKS :: u8 where "MAX_MUSICPLAYER_TRACKS = 16"
definition TEMPORARY_FADE :: u16 where "TEMPORARY_FADE = 0x0001"
definition FADE_IN :: u16 where "FADE_IN = 0x0002"
definition MAX_POKEMON_CRIES :: nat where "MAX_POKEMON_CRIES = 2"

lemmas m4a_consts =
  ID_NUMBER_def C_V_def SOUND_MODE_REVERB_VAL_def SOUND_MODE_REVERB_SET_def SOUND_MODE_MAXCHN_def
  SOUND_MODE_MASVOL_def SOUND_MODE_FREQ_13379_def SOUND_MODE_FREQ_def SOUND_MODE_DA_BIT_8_def
  SOUND_MODE_DA_BIT_def MAX_DIRECTSOUND_CHANNELS_def PCM_DMA_BUF_SIZE_def
  MUSICPLAYER_STATUS_TRACK_def MUSICPLAYER_STATUS_PAUSE_def MAX_MUSICPLAYER_TRACKS_def
  TEMPORARY_FADE_def FADE_IN_def MAX_POKEMON_CRIES_def

lemmas mpt_flags =
  MPT_FLG_VOLSET_def MPT_FLG_VOLCHG_def MPT_FLG_PITSET_def MPT_FLG_PITCHG_def MPT_FLG_START_def
  MPT_FLG_EXIST_def

section \<open>Data\<close>

record ToneData =
  td_type :: u8
  td_key :: u8
  td_length :: u8
  pan_sweep :: u8
  wav :: u32
  attack :: u8
  decay :: u8
  sustain :: u8
  release :: u8

text \<open>\<^verbatim>\<open>struct CgbChannel\<close>. Through \<^verbatim>\<open>struct SoundChannel\<close>, which has the same size, the
  library uses \<open>status\<close>, \<open>type\<close>, \<open>track\<close>, \<open>pp\<close> and \<open>np\<close>, which are at the offsets of \<open>sf\<close>, \<open>ty\<close>, \<open>tp\<close>,
  \<open>pp\<close> and \<open>np\<close>. The reserved bytes are left out.\<close>

record CgbChannel =
  sf :: u8
  ty :: u8
  rightVolume :: u8
  leftVolume :: u8
  at :: u8
  de :: u8
  su :: u8
  re :: u8
  ky :: u8
  ev :: u8
  eg :: u8
  ec :: u8
  ch_echoVolume :: u8
  ch_echoLength :: u8
  gt :: u8
  mk :: u8
  ve :: u8
  pr :: u8
  rp :: u8
  sg :: u8
  n4 :: u8
  pan_ch :: u8
  panMask :: u8
  mo :: u8
  le :: u8
  sw :: u8
  fr :: u32
  wp :: u32
  cp :: u32
  tp :: u32
  pp :: u32
  np :: u32

text \<open>\<^verbatim>\<open>struct SoundInfo\<close> without its arrays: the channels are in the channel store and the
  sample buffer is in the byte memory, at their offsets from the address of the struct.\<close>

record SoundInfo =
  si_ident :: u32
  pcmDmaCounter :: u8
  si_reverb :: u8
  maxChans :: u8
  masterVolume :: u8
  si_freq :: u8
  si_mode :: u8
  c15 :: u8
  pcmDmaPeriod :: u8
  maxLines :: u8
  pcmSamplesPerVBlank :: s32
  pcmFreq :: s32
  divFreq :: s32
  cgbChans :: u32
  si_func :: mfunc
  si_intp :: u32
  si_CgbSound :: mfunc
  si_CgbOscOff :: mfunc
  si_MidiKeyToCgbFreq :: mfunc
  si_MPlayJumpTable :: u32
  plynote :: mfunc
  ExtVolPit :: mfunc

record MusicPlayerTrack =
  flags :: u8
  wait :: u8
  patternLevel :: u8
  repN :: u8
  gateTime :: u8
  t_key :: u8
  velocity :: u8
  runningStatus :: u8
  keyM :: u8
  pitM :: u8
  keyShift :: s8
  keyShiftX :: s8
  tune :: s8
  pitX :: u8
  bend :: s8
  bendRange :: u8
  volMR :: u8
  volML :: u8
  vol :: u8
  volX :: u8
  t_pan :: s8
  panX :: s8
  modM :: s8
  t_mod :: u8
  modT :: u8
  lfoSpeed :: u8
  lfoSpeedC :: u8
  lfoDelay :: u8
  lfoDelayC :: u8
  t_priority :: u8
  echoVolume :: u8
  echoLength :: u8
  chan :: u32
  tone :: ToneData
  unk_3A :: u16
  unk_3C :: u32
  cmdPtr :: u32
  patternStack :: "u32 list"

record MusicPlayerInfo =
  songHeader :: u32
  status :: u32
  trackCount :: u8
  priority :: u8
  p_cmd :: u8
  unk_B :: u8
  clock :: u32
  memAccArea :: u32
  tempoD :: u16
  tempoU :: u16
  tempoI :: u16
  tempoC :: u16
  fadeOI :: u16
  fadeOC :: u16
  fadeOV :: u16
  tracks :: u32
  p_tone :: u32
  ident :: u32
  func :: mfunc
  intp :: u32

text \<open>The entries of the game's tables \<^verbatim>\<open>gMPlayTable\<close> and \<^verbatim>\<open>gSongTable\<close>.\<close>

record MusicPlayer =
  mp_info :: u32
  mp_track :: u32
  mp_unk_8 :: u8
  mp_unk_A :: u16

record Song =
  sg_header :: u32
  sg_ms :: u16
  sg_me :: u16

datatype io_access = W8 u32 u8 | W16 u32 u16 | W32 u32 u32 | Rd u32

record m4a =
  player :: "u32 \<Rightarrow> MusicPlayerInfo"
  track :: "u32 \<Rightarrow> MusicPlayerTrack"
  channel :: "u32 \<Rightarrow> CgbChannel"
  sound :: "u32 \<Rightarrow> SoundInfo"
  SOUND_INFO_PTR :: u32
  gMPlayJumpTable :: "mfunc list"
  mem :: "u32 \<Rightarrow> u8"
  io :: "io_access list"

record m4a_env =
  hw :: "io_access list \<Rightarrow> u32 \<Rightarrow> u32"
  gSoundInfo :: u32
  gCgbChans :: u32
  gMPlayJumpTable_addr :: u32
  gMPlayJumpTableTemplate_addr :: u32
  gPokemonCrySong :: u32
  gPokemonCrySongs :: u32
  gPokemonCryMusicPlayers :: u32
  gPokemonCryTracks :: u32
  gMPlayMemAccArea :: u32
  SoundMainRAM :: u32
  SoundMainRAM_Buffer :: u32
  voicegroup000 :: u32
  gNumMusicPlayers :: u32
  gMaxLines :: u32
  gMPlayTable :: "nat \<Rightarrow> MusicPlayer"
  gSongTable :: "nat \<Rightarrow> Song"
  SoundMain :: "m4a \<Rightarrow> m4a"
  swi_2A :: "m4a \<Rightarrow> m4a"

section \<open>Memory and registers\<close>

definition upd_player :: "u32 \<Rightarrow> (MusicPlayerInfo \<Rightarrow> MusicPlayerInfo) \<Rightarrow> m4a \<Rightarrow> m4a" where
  "upd_player a f s = s\<lparr>player := (player s)(a := f (player s a))\<rparr>"

definition upd_track :: "u32 \<Rightarrow> (MusicPlayerTrack \<Rightarrow> MusicPlayerTrack) \<Rightarrow> m4a \<Rightarrow> m4a" where
  "upd_track a f s = s\<lparr>track := (track s)(a := f (track s a))\<rparr>"

definition upd_channel :: "u32 \<Rightarrow> (CgbChannel \<Rightarrow> CgbChannel) \<Rightarrow> m4a \<Rightarrow> m4a" where
  "upd_channel a f s = s\<lparr>channel := (channel s)(a := f (channel s a))\<rparr>"

definition upd_sound :: "u32 \<Rightarrow> (SoundInfo \<Rightarrow> SoundInfo) \<Rightarrow> m4a \<Rightarrow> m4a" where
  "upd_sound a f s = s\<lparr>sound := (sound s)(a := f (sound s a))\<rparr>"

text \<open>The mixer area \<^verbatim>\<open>SOUND_INFO_PTR\<close> points to.\<close>

definition soundInfo :: "m4a \<Rightarrow> SoundInfo" where
  "soundInfo s = sound s (SOUND_INFO_PTR s)"

definition upd_soundInfo :: "(SoundInfo \<Rightarrow> SoundInfo) \<Rightarrow> m4a \<Rightarrow> m4a" where
  "upd_soundInfo f s = upd_sound (SOUND_INFO_PTR s) f s"

definition iow8 :: "u32 \<Rightarrow> u8 \<Rightarrow> m4a \<Rightarrow> m4a" where "iow8 a v s = s\<lparr>io := io s @ [W8 a v]\<rparr>"
definition iow16 :: "u32 \<Rightarrow> u16 \<Rightarrow> m4a \<Rightarrow> m4a" where "iow16 a v s = s\<lparr>io := io s @ [W16 a v]\<rparr>"
definition iow32 :: "u32 \<Rightarrow> u32 \<Rightarrow> m4a \<Rightarrow> m4a" where "iow32 a v s = s\<lparr>io := io s @ [W32 a v]\<rparr>"
definition ior :: "m4a_env \<Rightarrow> u32 \<Rightarrow> m4a \<Rightarrow> u32 \<times> m4a" where
  "ior env a s = (hw env (io s) a, s\<lparr>io := io s @ [Rd a]\<rparr>)"

fun store_bytes :: "u32 \<Rightarrow> u8 list \<Rightarrow> (u32 \<Rightarrow> u8) \<Rightarrow> u32 \<Rightarrow> u8" where
  "store_bytes a [] m = m"
| "store_bytes a (b # bs) m = store_bytes (a + 1) bs (m(a := b))"

definition bytes32 :: "u32 \<Rightarrow> u8 list" where
  "bytes32 v = [ucast v, ucast (drop_bit 8 v), ucast (drop_bit 16 v), ucast (drop_bit 24 v)]"

definition load_bytes :: "(u32 \<Rightarrow> u8) \<Rightarrow> u32 \<Rightarrow> nat \<Rightarrow> u8 list" where
  "load_bytes m a n = map (\<lambda>i. m (a + of_nat i)) [0..<n]"

definition upd_mem :: "((u32 \<Rightarrow> u8) \<Rightarrow> u32 \<Rightarrow> u8) \<Rightarrow> m4a \<Rightarrow> m4a" where
  "upd_mem f s = s\<lparr>mem := f (mem s)\<rparr>"

text \<open>Element \<open>i\<close> of an array of tracks, players, channels or cry songs: the sizes of the structs
  are 80, 64, 64 and 52 bytes. Twelve channels and the sample buffer follow the 80 bytes of
  \<^verbatim>\<open>struct SoundInfo\<close> that precede its arrays.\<close>

definition track_at :: "u32 \<Rightarrow> nat \<Rightarrow> u32" where "track_at a i = a + of_nat (i * 0x50)"
definition player_at :: "u32 \<Rightarrow> nat \<Rightarrow> u32" where "player_at a i = a + of_nat (i * 0x40)"
definition channel_at :: "u32 \<Rightarrow> nat \<Rightarrow> u32" where "channel_at a i = a + of_nat (i * 0x40)"
definition song_at :: "u32 \<Rightarrow> nat \<Rightarrow> u32" where "song_at a i = a + of_nat (i * 52)"
definition si_chans :: "u32 \<Rightarrow> u32" where "si_chans a = a + 0x50"
definition pcmBuffer :: "u32 \<Rightarrow> u32" where "pcmBuffer a = a + 0x350"

definition sh_trackCount :: "m4a \<Rightarrow> u32 \<Rightarrow> u8" where "sh_trackCount s h = mem s h"
definition sh_priority :: "m4a \<Rightarrow> u32 \<Rightarrow> u8" where "sh_priority s h = mem s (h + 2)"
definition sh_reverb :: "m4a \<Rightarrow> u32 \<Rightarrow> u8" where "sh_reverb s h = mem s (h + 3)"
definition sh_tone :: "m4a \<Rightarrow> u32 \<Rightarrow> u32" where "sh_tone s h = ld32 (mem s) (h + 4)"
definition sh_part :: "m4a \<Rightarrow> u32 \<Rightarrow> nat \<Rightarrow> u32" where
  "sh_part s h i = ld32 (mem s) (h + 8 + of_nat (4 * i))"

text \<open>A loop body that may fail, over the elements of a list.\<close>

fun foldo :: "('a \<Rightarrow> 's \<Rightarrow> 's option) \<Rightarrow> 'a list \<Rightarrow> 's \<Rightarrow> 's option" where
  "foldo f [] s = Some s"
| "foldo f (x # xs) s = do { s \<leftarrow> f x s; foldo f xs s }"

section \<open>Zeroed structs\<close>

definition zero_ToneData :: ToneData where
  "zero_ToneData = \<lparr>td_type = 0, td_key = 0, td_length = 0, pan_sweep = 0, wav = 0,
     attack = 0, decay = 0, sustain = 0, release = 0\<rparr>"

definition zero_CgbChannel :: CgbChannel where
  "zero_CgbChannel = \<lparr>sf = 0, ty = 0, rightVolume = 0, leftVolume = 0, at = 0, de = 0, su = 0,
     re = 0, ky = 0, ev = 0, eg = 0, ec = 0, ch_echoVolume = 0, ch_echoLength = 0, gt = 0, mk = 0,
     ve = 0, pr = 0, rp = 0, sg = 0, n4 = 0, pan_ch = 0, panMask = 0, mo = 0, le = 0, sw = 0,
     fr = 0, wp = 0, cp = 0, tp = 0, pp = 0, np = 0\<rparr>"

definition zero_SoundInfo :: SoundInfo where
  "zero_SoundInfo = \<lparr>si_ident = 0, pcmDmaCounter = 0, si_reverb = 0, maxChans = 0,
     masterVolume = 0, si_freq = 0, si_mode = 0, c15 = 0, pcmDmaPeriod = 0, maxLines = 0,
     pcmSamplesPerVBlank = 0, pcmFreq = 0, divFreq = 0, cgbChans = 0, si_func = F_NULL,
     si_intp = 0, si_CgbSound = F_NULL, si_CgbOscOff = F_NULL, si_MidiKeyToCgbFreq = F_NULL,
     si_MPlayJumpTable = 0, plynote = F_NULL, ExtVolPit = F_NULL\<rparr>"

definition zero_MusicPlayerInfo :: MusicPlayerInfo where
  "zero_MusicPlayerInfo = \<lparr>songHeader = 0, status = 0, trackCount = 0, priority = 0, p_cmd = 0,
     unk_B = 0, clock = 0, memAccArea = 0, tempoD = 0, tempoU = 0, tempoI = 0, tempoC = 0,
     fadeOI = 0, fadeOC = 0, fadeOV = 0, tracks = 0, p_tone = 0, ident = 0, func = F_NULL,
     intp = 0\<rparr>"

text \<open>The first 64 bytes of a track are everything before \<^verbatim>\<open>cmdPtr\<close> and \<^verbatim>\<open>patternStack\<close>.\<close>

definition clear_track_64 :: "MusicPlayerTrack \<Rightarrow> MusicPlayerTrack" where
  "clear_track_64 t = \<lparr>flags = 0, wait = 0, patternLevel = 0, repN = 0, gateTime = 0, t_key = 0,
     velocity = 0, runningStatus = 0, keyM = 0, pitM = 0, keyShift = 0, keyShiftX = 0, tune = 0,
     pitX = 0, bend = 0, bendRange = 0, volMR = 0, volML = 0, vol = 0, volX = 0, t_pan = 0,
     panX = 0, modM = 0, t_mod = 0, modT = 0, lfoSpeed = 0, lfoSpeedC = 0, lfoDelay = 0,
     lfoDelayC = 0, t_priority = 0, echoVolume = 0, echoLength = 0, chan = 0,
     tone = zero_ToneData, unk_3A = 0, unk_3C = 0,
     cmdPtr = cmdPtr t, patternStack = patternStack t\<rparr>"

section \<open>Assembly routines the C code calls\<close>

text \<open>\<^verbatim>\<open>SoundMainBTM\<close> zeroes the 64 bytes at a pointer; the library hands it players and tracks.\<close>

datatype object = Player_ptr u32 | Track_ptr u32

fun SoundMainBTM :: "object \<Rightarrow> m4a \<Rightarrow> m4a" where
  "SoundMainBTM (Player_ptr a) s = upd_player a (\<lambda>_. zero_MusicPlayerInfo) s"
| "SoundMainBTM (Track_ptr a) s = upd_track a clear_track_64 s"

definition RealClearChain :: "u32 \<Rightarrow> m4a \<Rightarrow> m4a" where
  "RealClearChain x s =
     (let t = tp (channel s x); n = np (channel s x); p = pp (channel s x) in
      if t = 0 then s
      else let
        s = (if p \<noteq> 0 then upd_channel p (\<lambda>c. c\<lparr>np := n\<rparr>) s
             else upd_track t (\<lambda>t. t\<lparr>chan := n\<rparr>) s);
        s = (if n \<noteq> 0 then upd_channel n (\<lambda>c. c\<lparr>pp := p\<rparr>) s else s)
      in upd_channel x (\<lambda>c. c\<lparr>tp := 0\<rparr>) s)"

text \<open>Bytes in the BIOS ROM outside the jump table template are read as zero.\<close>

definition chk_adr :: "m4a_env \<Rightarrow> u32 \<Rightarrow> bool" where
  "chk_adr env a \<longleftrightarrow> drop_bit 25 a \<noteq> 0
     \<or> gMPlayJumpTableTemplate_addr env \<le> a \<and> drop_bit 14 a = 0"

definition MPlayJumpTableCopy :: "m4a_env \<Rightarrow> m4a \<Rightarrow> m4a" where
  "MPlayJumpTableCopy env s = s\<lparr>gMPlayJumpTable := map (\<lambda>i.
     if chk_adr env (gMPlayJumpTableTemplate_addr env + of_nat (4 * i))
     then gMPlayJumpTableTemplate ! i else F_NULL) [0..<36]\<rparr>"

definition ply_goto :: "m4a_env \<Rightarrow> u32 \<Rightarrow> u32 \<Rightarrow> m4a \<Rightarrow> m4a" where
  "ply_goto env p t s =
     (let a = cmdPtr (track s t);
          b0 = (if chk_adr env a then mem s a else 0);
          target = push_bit 8 (push_bit 8 (push_bit 8 (ucast (mem s (a + 3))) OR ucast (mem s (a + 2)))
             OR ucast (mem s (a + 1))) OR ucast b0
      in upd_track t (\<lambda>t. t\<lparr>cmdPtr := target\<rparr>) s)"

text \<open>\<^verbatim>\<open>ply_fine\<close> walks the channels of the track; each is released and unlinked.\<close>

partial_function (option) fine_chain :: "u32 \<Rightarrow> m4a \<Rightarrow> m4a option" where
  [code]: "fine_chain c s =
     (let
        s = (if sf (channel s c) AND 0xC7 \<noteq> 0
             then upd_channel c (\<lambda>c. c\<lparr>sf := sf c OR 0x40\<rparr>) s else s);
        s = RealClearChain c s;
        n = np (channel s c)
      in if n \<noteq> 0 then fine_chain n s else Some s)"

definition ply_fine :: "u32 \<Rightarrow> u32 \<Rightarrow> m4a \<Rightarrow> m4a option" where
  "ply_fine p t s = do {
     s \<leftarrow> (if chan (track s t) \<noteq> 0 then fine_chain (chan (track s t)) s else Some s);
     Some (upd_track t (\<lambda>t. t\<lparr>flags := 0\<rparr>) s)
   }"

section \<open>Tone generators\<close>

definition CgbOscOff :: "u8 \<Rightarrow> m4a \<Rightarrow> m4a" where
  "CgbOscOff chanNum s =
     (if chanNum = 1 then iow8 REG_ADDR_NR14 0x80 (iow8 REG_ADDR_NR12 8 s)
      else if chanNum = 2 then iow8 REG_ADDR_NR24 0x80 (iow8 REG_ADDR_NR22 8 s)
      else if chanNum = 3 then iow8 REG_ADDR_NR30 0 s
      else iow8 REG_ADDR_NR44 0x80 (iow8 REG_ADDR_NR42 8 s))"

text \<open>A call through the field \<^verbatim>\<open>CgbOscOff\<close> of the mixer area.\<close>

definition call_CgbOscOff :: "u8 \<Rightarrow> m4a \<Rightarrow> m4a option" where
  "call_CgbOscOff n s =
     (if si_CgbOscOff (soundInfo s) = F_CgbOscOff then Some (CgbOscOff n s)
      else if si_CgbOscOff (soundInfo s) = F_DummyFunc then Some s
      else None)"

definition CgbPan :: "CgbChannel \<Rightarrow> bool \<times> CgbChannel" where
  "CgbPan c =
     (if rightVolume c \<ge> leftVolume c
      then if rightVolume c div 2 \<ge> leftVolume c then (True, c\<lparr>pan_ch := 0x0F\<rparr>) else (False, c)
      else if leftVolume c div 2 \<ge> rightVolume c then (True, c\<lparr>pan_ch := 0xF0\<rparr>) else (False, c))"

definition volume_sum :: "CgbChannel \<Rightarrow> u8" where
  "volume_sum c = ucast (drop_bit 4 (ucast (rightVolume c) + ucast (leftVolume c) :: u32))"

definition CgbModVol :: "u32 \<Rightarrow> m4a \<Rightarrow> m4a" where
  "CgbModVol x s = upd_channel x (\<lambda>c.
     let (panned, c) = (if si_mode (soundInfo s) AND 1 \<noteq> 0 then (False, c) else CgbPan c);
         c = (if \<not> panned then (let c = c\<lparr>pan_ch := 0xFF\<rparr> in c\<lparr>eg := volume_sum c\<rparr>)
              else (let c = c\<lparr>eg := volume_sum c\<rparr> in if eg c > 15 then c\<lparr>eg := 15\<rparr> else c));
         c = c\<lparr>sg := ucast (drop_bit 4 (ucast (eg c) * ucast (su c) + 15 :: u32))\<rparr>
     in c\<lparr>pan_ch := pan_ch c AND panMask c\<rparr>) s"

section \<open>Stopping a track\<close>

partial_function (option) stop_chain :: "u32 \<Rightarrow> m4a \<Rightarrow> m4a option" where
  [code]: "stop_chain c s = do {
     s \<leftarrow> (if sf (channel s c) = 0 then Some s else do {
        s \<leftarrow> (if ty (channel s c) AND 7 = 0 then Some s else call_CgbOscOff (ty (channel s c) AND 7) s);
        Some (upd_channel c (\<lambda>c. c\<lparr>sf := 0\<rparr>) s)
      });
     let s = upd_channel c (\<lambda>c. c\<lparr>tp := 0\<rparr>) s;
     let n = np (channel s c);
     if n \<noteq> 0 then stop_chain n s else Some s
   }"

definition TrackStop :: "u32 \<Rightarrow> u32 \<Rightarrow> m4a \<Rightarrow> m4a option" where
  "TrackStop p t s =
     (if flags (track s t) AND 0x80 = 0 then Some s
      else do {
        s \<leftarrow> (if chan (track s t) = 0 then Some s else stop_chain (chan (track s t)) s);
        Some (upd_track t (\<lambda>t. t\<lparr>chan := 0\<rparr>) s)
      })"

section \<open>Calls through the jump table\<close>

definition ClearChain :: "u32 \<Rightarrow> m4a \<Rightarrow> m4a option" where
  "ClearChain x s =
     (if gMPlayJumpTable s ! 34 = F_RealClearChain then Some (RealClearChain x s) else None)"

definition Clear64byte :: "object \<Rightarrow> m4a \<Rightarrow> m4a option" where
  "Clear64byte x s =
     (if gMPlayJumpTable s ! 35 = F_SoundMainBTM then Some (SoundMainBTM x s) else None)"

definition MusicPlayerJumpTableCopy :: "m4a_env \<Rightarrow> m4a \<Rightarrow> m4a" where
  "MusicPlayerJumpTableCopy env s = swi_2A env s"

section \<open>The sound hardware\<close>

definition dma_restart :: u32 where
  "dma_restart = push_bit 16 (ucast (DMA_ENABLE OR DMA_START_NOW OR DMA_32BIT OR DMA_SRC_INC OR DMA_DEST_FIXED)) OR 4"

text \<open>Ends a repeating transfer of a sound DMA channel, as \<^verbatim>\<open>SoundInit\<close> and
  \<^verbatim>\<open>m4aSoundVSyncOff\<close> do for both of them.\<close>

definition stop_dma :: "m4a_env \<Rightarrow> u32 \<Rightarrow> m4a \<Rightarrow> m4a" where
  "stop_dma env cnt s =
     (let (v, s) = ior env cnt s
      in if v AND push_bit 16 (ucast DMA_REPEAT) \<noteq> 0 then iow32 cnt dma_restart s else s)"

definition m4aSoundVSyncOff :: "m4a_env \<Rightarrow> m4a \<Rightarrow> m4a" where
  "m4aSoundVSyncOff env s =
     (if si_ident (soundInfo s) \<ge> ID_NUMBER \<and> si_ident (soundInfo s) \<le> ID_NUMBER + 1
      then let
        s = upd_soundInfo (\<lambda>i. i\<lparr>si_ident := si_ident i + 10\<rparr>) s;
        s = stop_dma env REG_ADDR_DMA1CNT s;
        s = stop_dma env REG_ADDR_DMA2CNT s;
        s = iow16 REG_ADDR_DMA1CNT_H DMA_32BIT s;
        s = iow16 REG_ADDR_DMA2CNT_H DMA_32BIT s
      in upd_mem (store_bytes (pcmBuffer (SOUND_INFO_PTR s)) (replicate (2 * PCM_DMA_BUF_SIZE) 0)) s
      else s)"

definition m4aSoundVSyncOn :: "m4a \<Rightarrow> m4a" where
  "m4aSoundVSyncOn s =
     (let ident = si_ident (soundInfo s) in
      if ident = ID_NUMBER then s
      else let
        s = iow16 REG_ADDR_DMA1CNT_H (DMA_ENABLE OR DMA_START_SPECIAL OR DMA_32BIT OR DMA_REPEAT) s;
        s = iow16 REG_ADDR_DMA2CNT_H (DMA_ENABLE OR DMA_START_SPECIAL OR DMA_32BIT OR DMA_REPEAT) s
      in upd_soundInfo (\<lambda>i. i\<lparr>pcmDmaCounter := 0, si_ident := ident - 10\<rparr>) s)"

partial_function (option) vcount_leave :: "m4a_env \<Rightarrow> m4a \<Rightarrow> m4a option" where
  [code]: "vcount_leave env s =
     (let (v, s) = ior env REG_ADDR_VCOUNT s
      in if ucast v = (159 :: u8) then vcount_leave env s else Some s)"

partial_function (option) vcount_reach :: "m4a_env \<Rightarrow> m4a \<Rightarrow> m4a option" where
  [code]: "vcount_reach env s =
     (let (v, s) = ior env REG_ADDR_VCOUNT s
      in if ucast v \<noteq> (159 :: u8) then vcount_reach env s else Some s)"

text \<open>All operands of the divisions are positive, so the signed divisions of the source are
  divisions of unsigned words. \<^verbatim>\<open>gPcmSamplesPerVBlankTable[freq - 1]\<close> is out of the table for
  mode 0 (where \<open>freq - 1\<close> wraps) and for modes above 12.\<close>

definition SampleFreqSet :: "m4a_env \<Rightarrow> u32 \<Rightarrow> m4a \<Rightarrow> m4a option" where
  "SampleFreqSet env freq s = do {
     let freq = drop_bit 16 (freq AND 0xF0000);
     let s = upd_soundInfo (\<lambda>i. i\<lparr>si_freq := ucast freq\<rparr>) s;
     n \<leftarrow> table_at gPcmSamplesPerVBlankTable (unat (freq - 1));
     let s = upd_soundInfo (\<lambda>i. i\<lparr>pcmSamplesPerVBlank := ucast n\<rparr>) s;
     let s = upd_soundInfo (\<lambda>i. i\<lparr>pcmDmaPeriod := ucast (of_nat PCM_DMA_BUF_SIZE div pcmSamplesPerVBlank i)\<rparr>) s;
     let s = upd_soundInfo (\<lambda>i. i\<lparr>pcmFreq := (597275 * pcmSamplesPerVBlank i + 5000) div 10000\<rparr>) s;
     let s = upd_soundInfo (\<lambda>i. i\<lparr>divFreq := drop_bit 1 (16777216 div pcmFreq i + 1)\<rparr>) s;
     let s = iow16 REG_ADDR_TM0CNT_H 0 s;
     let s = iow16 REG_ADDR_TM0CNT_L (ucast (- (280896 div pcmSamplesPerVBlank (soundInfo s)))) s;
     let s = m4aSoundVSyncOn s;
     s \<leftarrow> vcount_leave env s;
     s \<leftarrow> vcount_reach env s;
     Some (iow16 REG_ADDR_TM0CNT_H (TIMER_ENABLE OR TIMER_1CLK) s)
   }"

text \<open>Zeroes the whole of \<^verbatim>\<open>struct SoundInfo\<close>, with its channels and its sample buffer.\<close>

definition clear_SoundInfo :: "u32 \<Rightarrow> m4a \<Rightarrow> m4a" where
  "clear_SoundInfo a s =
     (let
        s = upd_sound a (\<lambda>_. zero_SoundInfo) s;
        s = fold (\<lambda>i. upd_channel (channel_at (si_chans a) i) (\<lambda>_. zero_CgbChannel))
              [0..<MAX_DIRECTSOUND_CHANNELS] s
      in upd_mem (store_bytes (pcmBuffer a) (replicate (2 * PCM_DMA_BUF_SIZE) 0)) s)"

definition sound_enable :: u16 where
  "sound_enable = SOUND_MASTER_ENABLE OR SOUND_4_ON OR SOUND_3_ON OR SOUND_2_ON OR SOUND_1_ON"

definition SoundInit :: "m4a_env \<Rightarrow> u32 \<Rightarrow> m4a \<Rightarrow> m4a option" where
  "SoundInit env a s = do {
     let s = upd_sound a (\<lambda>i. i\<lparr>si_ident := 0\<rparr>) s;
     let s = stop_dma env REG_ADDR_DMA1CNT s;
     let s = stop_dma env REG_ADDR_DMA2CNT s;
     let s = iow16 REG_ADDR_DMA1CNT_H DMA_32BIT s;
     let s = iow16 REG_ADDR_DMA2CNT_H DMA_32BIT s;
     let s = iow16 REG_ADDR_SOUNDCNT_X sound_enable s;
     let s = iow16 REG_ADDR_SOUNDCNT_H (SOUND_B_FIFO_RESET OR SOUND_B_TIMER_0 OR SOUND_B_LEFT_OUTPUT
          OR SOUND_A_FIFO_RESET OR SOUND_A_TIMER_0 OR SOUND_A_RIGHT_OUTPUT OR SOUND_ALL_MIX_FULL) s;
     let (v, s) = ior env REG_ADDR_SOUNDBIAS_H s;
     let s = iow8 REG_ADDR_SOUNDBIAS_H (ucast v AND 0x3F OR 0x40) s;
     let s = iow32 REG_ADDR_DMA1SAD (pcmBuffer a) s;
     let s = iow32 REG_ADDR_DMA1DAD REG_ADDR_FIFO_A s;
     let s = iow32 REG_ADDR_DMA2SAD (pcmBuffer a + of_nat PCM_DMA_BUF_SIZE) s;
     let s = iow32 REG_ADDR_DMA2DAD REG_ADDR_FIFO_B s;
     let s = s\<lparr>SOUND_INFO_PTR := a\<rparr>;
     let s = clear_SoundInfo a s;
     let s = upd_sound a (\<lambda>i. i\<lparr>maxChans := 8, masterVolume := 15, plynote := F_ply_note,
          si_CgbSound := F_DummyFunc, si_CgbOscOff := F_DummyFunc,
          si_MidiKeyToCgbFreq := F_DummyFunc, ExtVolPit := F_DummyFunc\<rparr>) s;
     let s = MPlayJumpTableCopy env s;
     let s = upd_sound a (\<lambda>i. i\<lparr>si_MPlayJumpTable := gMPlayJumpTable_addr env\<rparr>) s;
     s \<leftarrow> SampleFreqSet env SOUND_MODE_FREQ_13379 s;
     Some (upd_sound a (\<lambda>i. i\<lparr>si_ident := ID_NUMBER\<rparr>) s)
   }"

definition m4aSoundMode :: "m4a_env \<Rightarrow> u32 \<Rightarrow> m4a \<Rightarrow> m4a option" where
  "m4aSoundMode env mode s =
     (if si_ident (soundInfo s) \<noteq> ID_NUMBER then Some s
      else do {
        let a = SOUND_INFO_PTR s;
        let s = upd_sound a (\<lambda>i. i\<lparr>si_ident := si_ident i + 1\<rparr>) s;
        let temp = mode AND (SOUND_MODE_REVERB_SET OR SOUND_MODE_REVERB_VAL);
        let s = (if temp \<noteq> 0
          then upd_sound a (\<lambda>i. i\<lparr>si_reverb := ucast (temp AND SOUND_MODE_REVERB_VAL)\<rparr>) s else s);
        let temp = mode AND SOUND_MODE_MAXCHN;
        let s = (if temp \<noteq> 0
          then fold (\<lambda>i. upd_channel (channel_at (si_chans a) i) (\<lambda>c. c\<lparr>sf := 0\<rparr>))
                 [0..<MAX_DIRECTSOUND_CHANNELS]
                 (upd_sound a (\<lambda>i. i\<lparr>maxChans := ucast (drop_bit 8 temp)\<rparr>) s)
          else s);
        let temp = mode AND SOUND_MODE_MASVOL;
        let s = (if temp \<noteq> 0
          then upd_sound a (\<lambda>i. i\<lparr>masterVolume := ucast (drop_bit 12 temp)\<rparr>) s else s);
        let temp = mode AND SOUND_MODE_DA_BIT;
        let s = (if temp \<noteq> 0
          then let temp = drop_bit 14 (temp AND 0x300000);
                   (v, s) = ior env REG_ADDR_SOUNDBIAS_H s
               in iow8 REG_ADDR_SOUNDBIAS_H (ucast v AND 0x3F OR ucast temp) s
          else s);
        let temp = mode AND SOUND_MODE_FREQ;
        s \<leftarrow> (if temp \<noteq> 0 then SampleFreqSet env temp (m4aSoundVSyncOff env s) else Some s);
        Some (upd_sound a (\<lambda>i. i\<lparr>si_ident := ID_NUMBER\<rparr>) s)
      })"

definition SoundClear :: "m4a \<Rightarrow> m4a option" where
  "SoundClear s =
     (if si_ident (soundInfo s) \<noteq> ID_NUMBER then Some s
      else do {
        let a = SOUND_INFO_PTR s;
        let s = upd_sound a (\<lambda>i. i\<lparr>si_ident := si_ident i + 1\<rparr>) s;
        let s = fold (\<lambda>i. upd_channel (channel_at (si_chans a) i) (\<lambda>c. c\<lparr>sf := 0\<rparr>))
              [0..<MAX_DIRECTSOUND_CHANNELS] s;
        let chans = cgbChans (sound s a);
        s \<leftarrow> (if chans \<noteq> 0
           then foldo (\<lambda>i s. do {
                  s \<leftarrow> call_CgbOscOff (of_nat i) s;
                  Some (upd_channel (channel_at chans (i - 1)) (\<lambda>c. c\<lparr>sf := 0\<rparr>) s)
                }) [1..<5] s
           else Some s);
        Some (upd_sound a (\<lambda>i. i\<lparr>si_ident := ID_NUMBER\<rparr>) s)
      })"

definition MPlayExtender :: "m4a_env \<Rightarrow> u32 \<Rightarrow> m4a \<Rightarrow> m4a" where
  "MPlayExtender env chans s =
     (let
        s = iow16 REG_ADDR_SOUNDCNT_X sound_enable s;
        s = iow16 REG_ADDR_SOUNDCNT_L 0 s;
        s = iow8 REG_ADDR_NR12 0x8 s;
        s = iow8 REG_ADDR_NR22 0x8 s;
        s = iow8 REG_ADDR_NR42 0x8 s;
        s = iow8 REG_ADDR_NR14 0x80 s;
        s = iow8 REG_ADDR_NR24 0x80 s;
        s = iow8 REG_ADDR_NR44 0x80 s;
        s = iow8 REG_ADDR_NR30 0 s;
        s = iow8 REG_ADDR_NR50 0x77 s;
        a = SOUND_INFO_PTR s;
        ident = si_ident (sound s a)
      in if ident \<noteq> ID_NUMBER then s
      else let
        s = upd_sound a (\<lambda>i. i\<lparr>si_ident := si_ident i + 1\<rparr>) s;
        s = s\<lparr>gMPlayJumpTable := (gMPlayJumpTable s)
              [8 := F_ply_memacc, 17 := F_ply_lfos, 19 := F_ply_mod, 28 := F_ply_xcmd,
               29 := F_ply_endtie, 30 := F_SampleFreqSet, 31 := F_TrackStop,
               32 := F_FadeOutBody, 33 := F_TrkVolPitSet]\<rparr>;
        s = upd_sound a (\<lambda>i. i\<lparr>cgbChans := chans, si_CgbSound := F_CgbSound,
              si_CgbOscOff := F_CgbOscOff, si_MidiKeyToCgbFreq := F_MidiKeyToCgbFreq,
              maxLines := ucast (gMaxLines env)\<rparr>) s;
        s = fold (\<lambda>i. upd_channel (channel_at chans i) (\<lambda>_. zero_CgbChannel)) [0..<4] s;
        s = upd_channel (channel_at chans 0) (\<lambda>c. c\<lparr>ty := 1, panMask := 0x11\<rparr>) s;
        s = upd_channel (channel_at chans 1) (\<lambda>c. c\<lparr>ty := 2, panMask := 0x22\<rparr>) s;
        s = upd_channel (channel_at chans 2) (\<lambda>c. c\<lparr>ty := 3, panMask := 0x44\<rparr>) s;
        s = upd_channel (channel_at chans 3) (\<lambda>c. c\<lparr>ty := 4, panMask := 0x88\<rparr>) s
      in upd_sound a (\<lambda>i. i\<lparr>si_ident := ident\<rparr>) s)"

section \<open>Players\<close>

definition MPlayContinue :: "u32 \<Rightarrow> m4a \<Rightarrow> m4a" where
  "MPlayContinue p s =
     (if ident (player s p) = ID_NUMBER then let
        s = upd_player p (\<lambda>p. p\<lparr>ident := ident p + 1\<rparr>) s;
        s = upd_player p (\<lambda>p. p\<lparr>status := status p AND NOT MUSICPLAYER_STATUS_PAUSE\<rparr>) s
      in upd_player p (\<lambda>p. p\<lparr>ident := ID_NUMBER\<rparr>) s
      else s)"

definition MPlayFadeOut :: "u32 \<Rightarrow> u16 \<Rightarrow> m4a \<Rightarrow> m4a" where
  "MPlayFadeOut p speed s =
     (if ident (player s p) = ID_NUMBER then let
        s = upd_player p (\<lambda>p. p\<lparr>ident := ident p + 1\<rparr>) s;
        s = upd_player p (\<lambda>p. p\<lparr>fadeOC := speed, fadeOI := speed, fadeOV := push_bit 2 64\<rparr>) s
      in upd_player p (\<lambda>p. p\<lparr>ident := ID_NUMBER\<rparr>) s
      else s)"

definition MPlayOpen :: "u32 \<Rightarrow> u32 \<Rightarrow> u8 \<Rightarrow> m4a \<Rightarrow> m4a option" where
  "MPlayOpen p ts n s =
     (if n = 0 then Some s
      else let n = (if n > MAX_MUSICPLAYER_TRACKS then MAX_MUSICPLAYER_TRACKS else n);
               a = SOUND_INFO_PTR s
      in if si_ident (sound s a) \<noteq> ID_NUMBER then Some s
      else do {
        let s = upd_sound a (\<lambda>i. i\<lparr>si_ident := si_ident i + 1\<rparr>) s;
        s \<leftarrow> Clear64byte (Player_ptr p) s;
        let s = upd_player p (\<lambda>p. p\<lparr>tracks := ts, trackCount := n, status := MUSICPLAYER_STATUS_PAUSE\<rparr>) s;
        let s = fold (\<lambda>i. upd_track (track_at ts i) (\<lambda>t. t\<lparr>flags := 0\<rparr>)) [0..<unat n] s;
        let s = (if si_func (sound s a) \<noteq> F_NULL
          then let
            s = upd_player p (\<lambda>p. p\<lparr>func := si_func (sound s a), intp := si_intp (sound s a)\<rparr>) s
          in upd_sound a (\<lambda>i. i\<lparr>si_func := F_NULL\<rparr>) s
          else s);
        let s = upd_sound a (\<lambda>i. i\<lparr>si_intp := p, si_func := F_MPlayMain, si_ident := ID_NUMBER\<rparr>) s;
        Some (upd_player p (\<lambda>p. p\<lparr>ident := ID_NUMBER\<rparr>) s)
      })"

text \<open>The condition under which a request replaces what the player plays.\<close>

definition may_start :: "u32 \<Rightarrow> u32 \<Rightarrow> m4a \<Rightarrow> bool" where
  "may_start p h s \<longleftrightarrow>
     unk_B (player s p) = 0
     \<or> (songHeader (player s p) = 0 \<or> flags (track s (tracks (player s p))) AND MPT_FLG_START = 0)
       \<and> (status (player s p) AND MUSICPLAYER_STATUS_TRACK = 0
          \<or> status (player s p) AND MUSICPLAYER_STATUS_PAUSE \<noteq> 0)
     \<or> priority (player s p) \<le> sh_priority s h"

definition start_track :: "u32 \<Rightarrow> u32 \<Rightarrow> u32 \<Rightarrow> nat \<Rightarrow> m4a \<Rightarrow> m4a option" where
  "start_track h p ts i s = do {
     let t = track_at ts i;
     s \<leftarrow> TrackStop p t s;
     Some (upd_track t (\<lambda>t. t\<lparr>flags := MPT_FLG_EXIST OR MPT_FLG_START, chan := 0, cmdPtr := sh_part s h i\<rparr>) s)
   }"

definition retire_track :: "u32 \<Rightarrow> u32 \<Rightarrow> nat \<Rightarrow> m4a \<Rightarrow> m4a option" where
  "retire_track p ts i s = do {
     let t = track_at ts i;
     s \<leftarrow> TrackStop p t s;
     Some (upd_track t (\<lambda>t. t\<lparr>flags := 0\<rparr>) s)
   }"

definition MPlayStart :: "m4a_env \<Rightarrow> u32 \<Rightarrow> u32 \<Rightarrow> m4a \<Rightarrow> m4a option" where
  "MPlayStart env p h s =
     (if ident (player s p) \<noteq> ID_NUMBER then Some s
      else if \<not> may_start p h s then Some s
      else do {
        let s = upd_player p (\<lambda>p. p\<lparr>ident := ident p + 1\<rparr>) s;
        let s = upd_player p (\<lambda>p. p\<lparr>status := 0, songHeader := h, p_tone := sh_tone s h,
             priority := sh_priority s h, clock := 0, tempoD := 150, tempoI := 150,
             tempoU := 0x100, tempoC := 0, fadeOI := 0\<rparr>) s;
        let n = unat (trackCount (player s p));
        let m = min (unat (sh_trackCount s h)) n;
        let ts = tracks (player s p);
        s \<leftarrow> foldo (start_track h p ts) [0..<m] s;
        s \<leftarrow> foldo (retire_track p ts) [m..<n] s;
        s \<leftarrow> (if sh_reverb s h AND 0x80 \<noteq> 0 then m4aSoundMode env (ucast (sh_reverb s h)) s else Some s);
        Some (upd_player p (\<lambda>p. p\<lparr>ident := ID_NUMBER\<rparr>) s)
      })"

definition m4aMPlayStop :: "u32 \<Rightarrow> m4a \<Rightarrow> m4a option" where
  "m4aMPlayStop p s =
     (if ident (player s p) \<noteq> ID_NUMBER then Some s
      else do {
        let s = upd_player p (\<lambda>p. p\<lparr>ident := ident p + 1\<rparr>) s;
        let s = upd_player p (\<lambda>p. p\<lparr>status := status p OR MUSICPLAYER_STATUS_PAUSE\<rparr>) s;
        let ts = tracks (player s p);
        s \<leftarrow> foldo (\<lambda>i. TrackStop p (track_at ts i)) [0..<unat (trackCount (player s p))] s;
        Some (upd_player p (\<lambda>p. p\<lparr>ident := ID_NUMBER\<rparr>) s)
      })"

definition fade_track :: "u32 \<Rightarrow> u32 \<Rightarrow> m4a \<Rightarrow> m4a" where
  "fade_track p t s =
     (if flags (track s t) AND MPT_FLG_EXIST \<noteq> 0
      then upd_track t (\<lambda>t. t\<lparr>volX := ucast (drop_bit 2 (fadeOV (player s p))),
             flags := flags t OR MPT_FLG_VOLCHG\<rparr>) s
      else s)"

definition fade_end_track :: "u32 \<Rightarrow> u32 \<Rightarrow> nat \<Rightarrow> m4a \<Rightarrow> m4a option" where
  "fade_end_track p ts i s = do {
     let t = track_at ts i;
     s \<leftarrow> TrackStop p t s;
     Some (if ucast TEMPORARY_FADE AND (ucast (fadeOV (player s p)) :: u32) = 0
           then upd_track t (\<lambda>t. t\<lparr>flags := 0\<rparr>) s else s)
   }"

definition FadeOutBody :: "u32 \<Rightarrow> m4a \<Rightarrow> m4a option" where
  "FadeOutBody p s =
     (let OI = fadeOI (player s p) in
      if OI = 0 then Some s
      else let s = upd_player p (\<lambda>p. p\<lparr>fadeOC := fadeOC p - 1\<rparr>) s in
      if fadeOC (player s p) \<noteq> 0 then Some s
      else let
        s = upd_player p (\<lambda>p. p\<lparr>fadeOC := OI\<rparr>) s;
        n = unat (trackCount (player s p));
        ts = tracks (player s p);
        fade_all = fold (\<lambda>i. fade_track p (track_at ts i)) [0..<n]
      in if fadeOV (player s p) AND FADE_IN \<noteq> 0
      then let s = upd_player p (\<lambda>p. p\<lparr>fadeOV := fadeOV p + push_bit 2 4\<rparr>) s in
        Some (fade_all
          (if fadeOV (player s p) \<ge> push_bit 2 64
           then upd_player p (\<lambda>p. p\<lparr>fadeOV := push_bit 2 64, fadeOI := 0\<rparr>) s
           else s))
      else let s = upd_player p (\<lambda>p. p\<lparr>fadeOV := fadeOV p - push_bit 2 4\<rparr>) s in
        if sint (fadeOV (player s p)) \<le> 0
        then do {
          s \<leftarrow> foldo (fade_end_track p ts) [0..<n] s;
          let s = (if fadeOV (player s p) AND TEMPORARY_FADE \<noteq> 0
            then upd_player p (\<lambda>p. p\<lparr>status := status p OR MUSICPLAYER_STATUS_PAUSE\<rparr>) s
            else upd_player p (\<lambda>p. p\<lparr>status := MUSICPLAYER_STATUS_PAUSE\<rparr>) s);
          Some (upd_player p (\<lambda>p. p\<lparr>fadeOI := 0\<rparr>) s)
        }
        else Some (fade_all s))"

section \<open>Volume and pitch of a track\<close>

definition vol_level :: "MusicPlayerTrack \<Rightarrow> s32" where
  "vol_level t =
     (let x = drop_bit 5 (ucast (vol t) * ucast (volX t) :: u32)
      in if modT t = 1 then drop_bit 7 (x * (scast (modM t) + 128)) else x)"

definition pan_position :: "MusicPlayerTrack \<Rightarrow> s32" where
  "pan_position t =
     (let y = 2 * scast (t_pan t) + scast (panX t);
          y = (if modT t = 2 then y + scast (modM t) else y)
      in if y <s - 128 then - 128 else if 127 <s y then 127 else y)"

definition pitch_offset :: "MusicPlayerTrack \<Rightarrow> s32" where
  "pitch_offset t =
     (let b = scast (bend t) * ucast (bendRange t) :: s32;
          x = scast (tune t);
          x = x + b;
          x = x * 4;
          x = x + push_bit 8 (scast (keyShift t));
          x = x + push_bit 8 (scast (keyShiftX t));
          x = x + ucast (pitX t)
      in if modT t = 0 then x + 16 * scast (modM t) else x)"

definition TrkVolPitSet :: "u32 \<Rightarrow> u32 \<Rightarrow> m4a \<Rightarrow> m4a" where
  "TrkVolPitSet p a s = upd_track a (\<lambda>t.
     let t = (if flags t AND MPT_FLG_VOLSET \<noteq> 0
              then let x = vol_level t; y = pan_position t in
                t\<lparr>volMR := ucast (drop_bit 8 ((y + 128) * x)),
                  volML := ucast (drop_bit 8 ((127 - y) * x))\<rparr>
              else t);
         t = (if flags t AND MPT_FLG_PITSET \<noteq> 0
              then let x = pitch_offset t in
                t\<lparr>keyM := ucast (signed_drop_bit 8 x), pitM := ucast x\<rparr>
              else t)
     in t\<lparr>flags := flags t AND NOT (MPT_FLG_PITSET OR MPT_FLG_VOLSET)\<rparr>) s"

section \<open>The interface the game calls\<close>

definition song_player :: "m4a_env \<Rightarrow> u16 \<Rightarrow> u32" where
  "song_player env n = mp_info (gMPlayTable env (unat (sg_ms (gSongTable env (unat n)))))"

definition song_header :: "m4a_env \<Rightarrow> u16 \<Rightarrow> u32" where
  "song_header env n = sg_header (gSongTable env (unat n))"

definition m4aSoundMain :: "m4a_env \<Rightarrow> m4a \<Rightarrow> m4a" where
  "m4aSoundMain env s = SoundMain env s"

definition m4aSongNumStart :: "m4a_env \<Rightarrow> u16 \<Rightarrow> m4a \<Rightarrow> m4a option" where
  "m4aSongNumStart env n s = MPlayStart env (song_player env n) (song_header env n) s"

definition m4aSongNumStartOrChange :: "m4a_env \<Rightarrow> u16 \<Rightarrow> m4a \<Rightarrow> m4a option" where
  "m4aSongNumStartOrChange env n s =
     (let p = song_player env n; h = song_header env n in
      if songHeader (player s p) \<noteq> h then MPlayStart env p h s
      else if status (player s p) AND MUSICPLAYER_STATUS_TRACK = 0
            \<or> status (player s p) AND MUSICPLAYER_STATUS_PAUSE \<noteq> 0
      then MPlayStart env p h s
      else Some s)"

definition m4aSongNumStartOrContinue :: "m4a_env \<Rightarrow> u16 \<Rightarrow> m4a \<Rightarrow> m4a option" where
  "m4aSongNumStartOrContinue env n s =
     (let p = song_player env n; h = song_header env n in
      if songHeader (player s p) \<noteq> h then MPlayStart env p h s
      else if status (player s p) AND MUSICPLAYER_STATUS_TRACK = 0 then MPlayStart env p h s
      else if status (player s p) AND MUSICPLAYER_STATUS_PAUSE \<noteq> 0 then Some (MPlayContinue p s)
      else Some s)"

definition m4aSongNumStop :: "m4a_env \<Rightarrow> u16 \<Rightarrow> m4a \<Rightarrow> m4a option" where
  "m4aSongNumStop env n s =
     (if songHeader (player s (song_player env n)) = song_header env n
      then m4aMPlayStop (song_player env n) s else Some s)"

definition m4aSongNumContinue :: "m4a_env \<Rightarrow> u16 \<Rightarrow> m4a \<Rightarrow> m4a" where
  "m4aSongNumContinue env n s =
     (if songHeader (player s (song_player env n)) = song_header env n
      then MPlayContinue (song_player env n) s else s)"

definition NUM_MUSIC_PLAYERS :: "m4a_env \<Rightarrow> nat" where
  "NUM_MUSIC_PLAYERS env = unat (ucast (gNumMusicPlayers env) :: u16)"

text \<open>The players of the game's table, then those of the cries.\<close>

definition all_players :: "m4a_env \<Rightarrow> u32 list" where
  "all_players env = map (\<lambda>i. mp_info (gMPlayTable env i)) [0..<NUM_MUSIC_PLAYERS env]
     @ map (player_at (gPokemonCryMusicPlayers env)) [0..<MAX_POKEMON_CRIES]"

definition m4aMPlayAllStop :: "m4a_env \<Rightarrow> m4a \<Rightarrow> m4a option" where
  "m4aMPlayAllStop env s = foldo m4aMPlayStop (all_players env) s"

definition m4aMPlayContinue :: "u32 \<Rightarrow> m4a \<Rightarrow> m4a" where
  "m4aMPlayContinue p s = MPlayContinue p s"

definition m4aMPlayAllContinue :: "m4a_env \<Rightarrow> m4a \<Rightarrow> m4a" where
  "m4aMPlayAllContinue env s = fold MPlayContinue (all_players env) s"

definition m4aMPlayFadeOut :: "u32 \<Rightarrow> u16 \<Rightarrow> m4a \<Rightarrow> m4a" where
  "m4aMPlayFadeOut p speed s = MPlayFadeOut p speed s"

definition m4aMPlayFadeOutTemporarily :: "u32 \<Rightarrow> u16 \<Rightarrow> m4a \<Rightarrow> m4a" where
  "m4aMPlayFadeOutTemporarily p speed s =
     (if ident (player s p) = ID_NUMBER then let
        s = upd_player p (\<lambda>p. p\<lparr>ident := ident p + 1\<rparr>) s;
        s = upd_player p (\<lambda>p. p\<lparr>fadeOC := speed, fadeOI := speed,
              fadeOV := push_bit 2 64 OR TEMPORARY_FADE\<rparr>) s
      in upd_player p (\<lambda>p. p\<lparr>ident := ID_NUMBER\<rparr>) s
      else s)"

definition m4aMPlayFadeIn :: "u32 \<Rightarrow> u16 \<Rightarrow> m4a \<Rightarrow> m4a" where
  "m4aMPlayFadeIn p speed s =
     (if ident (player s p) = ID_NUMBER then let
        s = upd_player p (\<lambda>p. p\<lparr>ident := ident p + 1\<rparr>) s;
        s = upd_player p (\<lambda>p. p\<lparr>fadeOC := speed, fadeOI := speed,
              fadeOV := push_bit 2 0 OR FADE_IN,
              status := status p AND NOT MUSICPLAYER_STATUS_PAUSE\<rparr>) s
      in upd_player p (\<lambda>p. p\<lparr>ident := ID_NUMBER\<rparr>) s
      else s)"

definition init_track :: "u32 \<Rightarrow> m4a \<Rightarrow> m4a option" where
  "init_track t s =
     (if flags (track s t) AND MPT_FLG_EXIST \<noteq> 0 \<and> flags (track s t) AND MPT_FLG_START \<noteq> 0
      then do {
        s \<leftarrow> Clear64byte (Track_ptr t) s;
        Some (upd_track t (\<lambda>t. t\<lparr>flags := MPT_FLG_EXIST, bendRange := 2, volX := 64,
           lfoSpeed := 22, tone := (tone t)\<lparr>td_type := 1\<rparr>\<rparr>) s)
      }
      else Some s)"

definition m4aMPlayImmInit :: "u32 \<Rightarrow> m4a \<Rightarrow> m4a option" where
  "m4aMPlayImmInit p s =
     (let ts = tracks (player s p)
      in foldo (\<lambda>i. init_track (track_at ts i)) [0..<unat (trackCount (player s p))] s)"

text \<open>\<^verbatim>\<open>gPokemonCrySongTemplate\<close> of \<^verbatim>\<open>m4a_tables.c\<close>, byte by byte: the song header with one
  track, then the commands of part 0, of part 1 and those they share.\<close>

definition gPokemonCrySongTemplate :: "m4a_env \<Rightarrow> u8 list" where
  "gPokemonCrySongTemplate env =
     [1, 0, 255, 0] @ bytes32 (voicegroup000 env) @ bytes32 0 @ bytes32 0
     @ [0, 0xC8, C_V, 0xB2] @ bytes32 0
     @ [0xC8, C_V + 16, 0xBD, 0, 0xBE, 127, 0xCD, 0x0D] @ bytes32 0
     @ [0xCD, 0x07, 0, 0xBF, C_V, 0xCF, 60, 127, 0xCD, 0x0C, 60, 0, 0xCE, 0xB1, 0, 0]"

definition open_player :: "m4a_env \<Rightarrow> nat \<Rightarrow> m4a \<Rightarrow> m4a option" where
  "open_player env i s = do {
     let p = mp_info (gMPlayTable env i);
     s \<leftarrow> MPlayOpen p (mp_track (gMPlayTable env i)) (mp_unk_8 (gMPlayTable env i)) s;
     Some (upd_player p (\<lambda>p. p\<lparr>unk_B := ucast (mp_unk_A (gMPlayTable env i)),
             memAccArea := gMPlayMemAccArea env\<rparr>) s)
   }"

definition open_cry_player :: "m4a_env \<Rightarrow> nat \<Rightarrow> m4a \<Rightarrow> m4a option" where
  "open_cry_player env i s = do {
     let t = track_at (gPokemonCryTracks env) (i * 2);
     s \<leftarrow> MPlayOpen (player_at (gPokemonCryMusicPlayers env) i) t 2 s;
     Some (upd_track t (\<lambda>t. t\<lparr>chan := 0\<rparr>) s)
   }"

definition m4aSoundInit :: "m4a_env \<Rightarrow> m4a \<Rightarrow> m4a option" where
  "m4aSoundInit env s = do {
     let s = upd_mem (\<lambda>m. store_bytes (SoundMainRAM_Buffer env)
                (load_bytes m (SoundMainRAM env AND NOT 1) 0x800) m) s;
     s \<leftarrow> SoundInit env (gSoundInfo env) s;
     let s = MPlayExtender env (gCgbChans env) s;
     s \<leftarrow> m4aSoundMode env (SOUND_MODE_DA_BIT_8 OR SOUND_MODE_FREQ_13379
            OR push_bit 12 12 OR push_bit 8 5) s;
     s \<leftarrow> foldo (open_player env) [0..<NUM_MUSIC_PLAYERS env] s;
     let s = upd_mem (store_bytes (gPokemonCrySong env) (gPokemonCrySongTemplate env)) s;
     foldo (open_cry_player env) [0..<MAX_POKEMON_CRIES] s
   }"

end
