(* ===== verification/M4aControl.thy ===== *)
theory M4aControl
  imports M4a
begin

text \<open>
  The second half of the music player library, \<^verbatim>\<open>src/m4a/m4a_4.c\<close>: control of the tracks of a
  running song, the sound commands with their command-stream operands, and the cries.

  The local variables the extended commands read before setting them are the argument \<open>junk\<close>.
  The cry song is data in the byte memory, addressed by the offsets of
  \<^verbatim>\<open>struct PokemonCrySong\<close>.
\<close>

unbundle bit_operations_syntax

section \<open>Control of running tracks\<close>

definition m4aMPlayTempoControl :: "u32 \<Rightarrow> u16 \<Rightarrow> m4a \<Rightarrow> m4a" where
  "m4aMPlayTempoControl p tempo s =
     (if ident (player s p) = ID_NUMBER then let
        s = upd_player p (\<lambda>p. p\<lparr>ident := ident p + 1\<rparr>) s;
        s = upd_player p (\<lambda>p. p\<lparr>tempoU := tempo\<rparr>) s;
        s = upd_player p (\<lambda>p. p\<lparr>tempoI := ucast (drop_bit 8 (ucast (tempoD p) * ucast (tempoU p) :: u32))\<rparr>) s
      in upd_player p (\<lambda>p. p\<lparr>ident := ID_NUMBER\<rparr>) s
      else s)"

text \<open>The loop the five functions below share: under the player's lock, \<open>f\<close> is applied to every
  existing track whose bit is set.\<close>

definition control_track :: "(MusicPlayerTrack \<Rightarrow> MusicPlayerTrack) \<Rightarrow> u32 \<Rightarrow> u16 \<Rightarrow> nat \<Rightarrow> m4a \<Rightarrow> m4a" where
  "control_track f ts trackBits i s =
     (if ucast trackBits AND push_bit i (1 :: u32) \<noteq> 0
         \<and> flags (track s (track_at ts i)) AND MPT_FLG_EXIST \<noteq> 0
      then upd_track (track_at ts i) f s else s)"

definition control_tracks :: "(MusicPlayerTrack \<Rightarrow> MusicPlayerTrack) \<Rightarrow> u32 \<Rightarrow> u16 \<Rightarrow> m4a \<Rightarrow> m4a" where
  "control_tracks f p trackBits s =
     (if ident (player s p) \<noteq> ID_NUMBER then s
      else let
        s = upd_player p (\<lambda>p. p\<lparr>ident := ident p + 1\<rparr>) s;
        ts = tracks (player s p);
        s = fold (control_track f ts trackBits) [0..<unat (trackCount (player s p))] s
      in upd_player p (\<lambda>p. p\<lparr>ident := ID_NUMBER\<rparr>) s)"

definition m4aMPlayVolumeControl :: "u32 \<Rightarrow> u16 \<Rightarrow> u16 \<Rightarrow> m4a \<Rightarrow> m4a" where
  "m4aMPlayVolumeControl p trackBits volume s = control_tracks
     (\<lambda>t. t\<lparr>volX := ucast (volume div 4), flags := flags t OR MPT_FLG_VOLCHG\<rparr>) p trackBits s"

definition m4aMPlayPitchControl :: "u32 \<Rightarrow> u16 \<Rightarrow> s16 \<Rightarrow> m4a \<Rightarrow> m4a" where
  "m4aMPlayPitchControl p trackBits pitch s = control_tracks
     (\<lambda>t. t\<lparr>keyShiftX := ucast (signed_drop_bit 8 pitch), pitX := ucast pitch,
            flags := flags t OR MPT_FLG_PITCHG\<rparr>) p trackBits s"

definition m4aMPlayPanpotControl :: "u32 \<Rightarrow> u16 \<Rightarrow> s8 \<Rightarrow> m4a \<Rightarrow> m4a" where
  "m4aMPlayPanpotControl p trackBits pan s = control_tracks
     (\<lambda>t. t\<lparr>panX := pan, flags := flags t OR MPT_FLG_VOLCHG\<rparr>) p trackBits s"

definition ClearModM :: "MusicPlayerTrack \<Rightarrow> MusicPlayerTrack" where
  "ClearModM t =
     (let t = t\<lparr>lfoSpeedC := 0, modM := 0\<rparr>
      in if modT t = 0 then t\<lparr>flags := flags t OR MPT_FLG_PITCHG\<rparr>
         else t\<lparr>flags := flags t OR MPT_FLG_VOLCHG\<rparr>)"

definition m4aMPlayModDepthSet :: "u32 \<Rightarrow> u16 \<Rightarrow> u8 \<Rightarrow> m4a \<Rightarrow> m4a" where
  "m4aMPlayModDepthSet p trackBits modDepth s = control_tracks
     (\<lambda>t. let t = t\<lparr>t_mod := modDepth\<rparr> in if t_mod t = 0 then ClearModM t else t) p trackBits s"

definition m4aMPlayLFOSpeedSet :: "u32 \<Rightarrow> u16 \<Rightarrow> u8 \<Rightarrow> m4a \<Rightarrow> m4a" where
  "m4aMPlayLFOSpeedSet p trackBits speed s = control_tracks
     (\<lambda>t. let t = t\<lparr>lfoSpeed := speed\<rparr> in if lfoSpeed t = 0 then ClearModM t else t) p trackBits s"

section \<open>Memory access command\<close>

definition ply_memacc :: "m4a_env \<Rightarrow> u32 \<Rightarrow> u32 \<Rightarrow> m4a \<Rightarrow> m4a option" where
  "ply_memacc env p t s =
     (let
        c = cmdPtr (track s t);
        op = mem s c;
        addr = memAccArea (player s p) + ucast (mem s (c + 1));
        data = mem s (c + 2);
        s = upd_track t (\<lambda>t. t\<lparr>cmdPtr := cmdPtr t + 3\<rparr>) s;
        cell = mem s addr;
        other = mem s (memAccArea (player s p) + ucast data);
        put = (\<lambda>v. Some (upd_mem (\<lambda>m. m(addr := v)) s));
        cond_jump = (\<lambda>b. if b
           then (if gMPlayJumpTable s ! 1 = F_ply_goto then Some (ply_goto env p t s) else None)
           else Some (upd_track t (\<lambda>t. t\<lparr>cmdPtr := cmdPtr t + 4\<rparr>) s))
      in if op = 0 then put data
      else if op = 1 then put (cell + data)
      else if op = 2 then put (cell - data)
      else if op = 3 then put other
      else if op = 4 then put (cell + other)
      else if op = 5 then put (cell - other)
      else if op = 6 then cond_jump (cell = data)
      else if op = 7 then cond_jump (cell \<noteq> data)
      else if op = 8 then cond_jump (cell > data)
      else if op = 9 then cond_jump (cell \<ge> data)
      else if op = 10 then cond_jump (cell \<le> data)
      else if op = 11 then cond_jump (cell < data)
      else if op = 12 then cond_jump (cell = other)
      else if op = 13 then cond_jump (cell \<noteq> other)
      else if op = 14 then cond_jump (cell > other)
      else if op = 15 then cond_jump (cell \<ge> other)
      else if op = 16 then cond_jump (cell \<le> other)
      else if op = 17 then cond_jump (cell < other)
      else Some s)"

section \<open>Extended commands\<close>

definition ply_xxx :: "u32 \<Rightarrow> u32 \<Rightarrow> m4a \<Rightarrow> m4a option" where
  "ply_xxx p t s = (if gMPlayJumpTable s ! 0 = F_ply_fine then ply_fine p t s else None)"

definition READ_XCMD_BYTE :: "(u32 \<Rightarrow> u8) \<Rightarrow> u32 \<Rightarrow> nat \<Rightarrow> u32 \<Rightarrow> u32" where
  "READ_XCMD_BYTE m cmd n var =
     (let byte = push_bit (n * 8) (ucast (m (cmd + of_nat n)));
          var = var AND NOT (push_bit (n * 8) 0xFF)
      in var OR byte)"

definition read_xcmd4 :: "(u32 \<Rightarrow> u8) \<Rightarrow> u32 \<Rightarrow> u32 \<Rightarrow> u32" where
  "read_xcmd4 m cmd junk =
     READ_XCMD_BYTE m cmd 3 (READ_XCMD_BYTE m cmd 2 (READ_XCMD_BYTE m cmd 1 (READ_XCMD_BYTE m cmd 0 junk)))"

definition ply_xwave :: "u32 \<Rightarrow> u32 \<Rightarrow> m4a \<Rightarrow> m4a" where
  "ply_xwave junk t s = upd_track t (\<lambda>t. t\<lparr>tone := (tone t)\<lparr>wav := read_xcmd4 (mem s) (cmdPtr t) junk\<rparr>,
     cmdPtr := cmdPtr t + 4\<rparr>) s"

text \<open>A command with one operand byte.\<close>

definition xcmd_byte :: "(u8 \<Rightarrow> MusicPlayerTrack \<Rightarrow> MusicPlayerTrack) \<Rightarrow> u32 \<Rightarrow> m4a \<Rightarrow> m4a" where
  "xcmd_byte f t s = upd_track t (\<lambda>t. let t' = f (mem s (cmdPtr t)) t in t'\<lparr>cmdPtr := cmdPtr t' + 1\<rparr>) s"

definition ply_xtype :: "u32 \<Rightarrow> m4a \<Rightarrow> m4a" where
  "ply_xtype = xcmd_byte (\<lambda>b t. t\<lparr>tone := (tone t)\<lparr>td_type := b\<rparr>\<rparr>)"
definition ply_xatta :: "u32 \<Rightarrow> m4a \<Rightarrow> m4a" where
  "ply_xatta = xcmd_byte (\<lambda>b t. t\<lparr>tone := (tone t)\<lparr>attack := b\<rparr>\<rparr>)"
definition ply_xdeca :: "u32 \<Rightarrow> m4a \<Rightarrow> m4a" where
  "ply_xdeca = xcmd_byte (\<lambda>b t. t\<lparr>tone := (tone t)\<lparr>decay := b\<rparr>\<rparr>)"
definition ply_xsust :: "u32 \<Rightarrow> m4a \<Rightarrow> m4a" where
  "ply_xsust = xcmd_byte (\<lambda>b t. t\<lparr>tone := (tone t)\<lparr>sustain := b\<rparr>\<rparr>)"
definition ply_xrele :: "u32 \<Rightarrow> m4a \<Rightarrow> m4a" where
  "ply_xrele = xcmd_byte (\<lambda>b t. t\<lparr>tone := (tone t)\<lparr>release := b\<rparr>\<rparr>)"
definition ply_xiecv :: "u32 \<Rightarrow> m4a \<Rightarrow> m4a" where
  "ply_xiecv = xcmd_byte (\<lambda>b t. t\<lparr>echoVolume := b\<rparr>)"
definition ply_xiecl :: "u32 \<Rightarrow> m4a \<Rightarrow> m4a" where
  "ply_xiecl = xcmd_byte (\<lambda>b t. t\<lparr>echoLength := b\<rparr>)"
definition ply_xleng :: "u32 \<Rightarrow> m4a \<Rightarrow> m4a" where
  "ply_xleng = xcmd_byte (\<lambda>b t. t\<lparr>tone := (tone t)\<lparr>td_length := b\<rparr>\<rparr>)"
definition ply_xswee :: "u32 \<Rightarrow> m4a \<Rightarrow> m4a" where
  "ply_xswee = xcmd_byte (\<lambda>b t. t\<lparr>tone := (tone t)\<lparr>pan_sweep := b\<rparr>\<rparr>)"

definition ply_xcmd_0C :: "u32 \<Rightarrow> u32 \<Rightarrow> m4a \<Rightarrow> m4a" where
  "ply_xcmd_0C junk t s = upd_track t (\<lambda>t.
     let unk = READ_XCMD_BYTE (mem s) (cmdPtr t) 1 (READ_XCMD_BYTE (mem s) (cmdPtr t) 0 junk)
     in if unk_3A t < ucast unk
        then t\<lparr>unk_3A := unk_3A t + 1, cmdPtr := cmdPtr t - 2, wait := 1\<rparr>
        else t\<lparr>unk_3A := 0, cmdPtr := cmdPtr t + 2\<rparr>) s"

definition ply_xcmd_0D :: "u32 \<Rightarrow> u32 \<Rightarrow> m4a \<Rightarrow> m4a" where
  "ply_xcmd_0D junk t s = upd_track t (\<lambda>t.
     t\<lparr>unk_3C := read_xcmd4 (mem s) (cmdPtr t) junk, cmdPtr := cmdPtr t + 4\<rparr>) s"

definition call_xcmd :: "mfunc \<Rightarrow> u32 \<Rightarrow> u32 \<Rightarrow> u32 \<Rightarrow> m4a \<Rightarrow> m4a option" where
  "call_xcmd f junk p t s = (case f of
       F_ply_xxx \<Rightarrow> ply_xxx p t s
     | F_ply_xwave \<Rightarrow> Some (ply_xwave junk t s)
     | F_ply_xtype \<Rightarrow> Some (ply_xtype t s)
     | F_ply_xatta \<Rightarrow> Some (ply_xatta t s)
     | F_ply_xdeca \<Rightarrow> Some (ply_xdeca t s)
     | F_ply_xsust \<Rightarrow> Some (ply_xsust t s)
     | F_ply_xrele \<Rightarrow> Some (ply_xrele t s)
     | F_ply_xiecv \<Rightarrow> Some (ply_xiecv t s)
     | F_ply_xiecl \<Rightarrow> Some (ply_xiecl t s)
     | F_ply_xleng \<Rightarrow> Some (ply_xleng t s)
     | F_ply_xswee \<Rightarrow> Some (ply_xswee t s)
     | F_ply_xcmd_0C \<Rightarrow> Some (ply_xcmd_0C junk t s)
     | F_ply_xcmd_0D \<Rightarrow> Some (ply_xcmd_0D junk t s)
     | _ \<Rightarrow> None)"

definition ply_xcmd :: "u32 \<Rightarrow> u32 \<Rightarrow> u32 \<Rightarrow> m4a \<Rightarrow> m4a option" where
  "ply_xcmd junk p t s = do {
     let n = mem s (cmdPtr (track s t));
     let s = upd_track t (\<lambda>t. t\<lparr>cmdPtr := cmdPtr t + 1\<rparr>) s;
     f \<leftarrow> table_at gXcmdTable (unat n);
     call_xcmd f junk p t s
   }"

section \<open>Cries\<close>

text \<open>A cry player is free when its first track is idle and no channel plays for it. Otherwise
  the player that has run longest is taken.\<close>

definition cry_free :: "m4a_env \<Rightarrow> m4a \<Rightarrow> nat \<Rightarrow> bool" where
  "cry_free env s i =
     (let t = track_at (gPokemonCryTracks env) (i * 2) in
      flags (track s t) = 0 \<and> (chan (track s t) = 0 \<or> tp (channel s (chan (track s t))) \<noteq> t))"

fun pick_cry :: "m4a_env \<Rightarrow> m4a \<Rightarrow> nat list \<Rightarrow> u32 \<Rightarrow> nat \<Rightarrow> nat" where
  "pick_cry env s [] maxClock maxClockIndex = maxClockIndex"
| "pick_cry env s (i # is) maxClock maxClockIndex =
     (if cry_free env s i then i
      else let c = clock (player s (player_at (gPokemonCryMusicPlayers env) i))
      in if maxClock < c then pick_cry env s is c i
         else pick_cry env s is maxClock maxClockIndex)"

text \<open>The copy of the prepared song at \<open>CRY\<close>, with its pointers set: the tone at 4, the parts
  at 8 and 12, the target of the jump at \<open>0x14\<close>.\<close>

definition cry_song :: "m4a_env \<Rightarrow> u32 \<Rightarrow> u32 \<Rightarrow> (u32 \<Rightarrow> u8) \<Rightarrow> u32 \<Rightarrow> u8" where
  "cry_song env CRY tn m =
     (let
        m = store_bytes CRY (load_bytes m (gPokemonCrySong env) 52) m;
        m = store_bytes (CRY + 4) (bytes32 tn) m;
        m = store_bytes (CRY + 8) (bytes32 (CRY + 0x11)) m;
        m = store_bytes (CRY + 8 + 4) (bytes32 (CRY + 0x18)) m
      in store_bytes (CRY + 0x14) (bytes32 (CRY + 0x1A)) m)"

definition SetPokemonCryTone :: "m4a_env \<Rightarrow> u32 \<Rightarrow> m4a \<Rightarrow> (u32 \<times> m4a) option" where
  "SetPokemonCryTone env tn s = do {
     let i = pick_cry env s [0..<MAX_POKEMON_CRIES] 0 0;
     let p = player_at (gPokemonCryMusicPlayers env) i;
     let s = upd_player p (\<lambda>p. p\<lparr>ident := ident p + 1\<rparr>) s;
     let CRY = song_at (gPokemonCrySongs env) i;
     let s = upd_mem (cry_song env CRY tn) s;
     let s = upd_player p (\<lambda>p. p\<lparr>ident := ID_NUMBER\<rparr>) s;
     s \<leftarrow> MPlayStart env p CRY s;
     Some (p, s)
   }"

definition set_cry_byte :: "m4a_env \<Rightarrow> u32 \<Rightarrow> u8 \<Rightarrow> m4a \<Rightarrow> m4a" where
  "set_cry_byte env off v s = upd_mem (\<lambda>m. m(gPokemonCrySong env + off := v)) s"

definition cry_byte :: "m4a_env \<Rightarrow> u32 \<Rightarrow> m4a \<Rightarrow> u8" where
  "cry_byte env off s = mem s (gPokemonCrySong env + off)"

definition SetPokemonCryVolume :: "m4a_env \<Rightarrow> u8 \<Rightarrow> m4a \<Rightarrow> m4a" where
  "SetPokemonCryVolume env val s = set_cry_byte env 0x1D (val AND 0x7F) s"

definition SetPokemonCryPanpot :: "m4a_env \<Rightarrow> s8 \<Rightarrow> m4a \<Rightarrow> m4a" where
  "SetPokemonCryPanpot env val s = set_cry_byte env 0x28 ((val + C_V) AND 0x7F) s"

definition SetPokemonCryPitch :: "m4a_env \<Rightarrow> s16 \<Rightarrow> m4a \<Rightarrow> m4a" where
  "SetPokemonCryPitch env val s =
     (let
        b = val + 0x80;
        a = cry_byte env 0x19 s - cry_byte env 0x12 s;
        s = set_cry_byte env 0x2A (ucast (signed_drop_bit 8 b) AND 0x7F) s;
        s = set_cry_byte env 0x12 (ucast (signed_drop_bit 1 b) AND 0x7F) s
      in set_cry_byte env 0x19 ((a + (ucast (signed_drop_bit 1 b) AND 0x7F)) AND 0x7F) s)"

definition SetPokemonCryLength :: "m4a_env \<Rightarrow> u16 \<Rightarrow> m4a \<Rightarrow> m4a" where
  "SetPokemonCryLength env val s =
     upd_mem (store_bytes (gPokemonCrySong env + 0x2E) [ucast val, ucast (drop_bit 8 val)]) s"

definition SetPokemonCryRelease :: "m4a_env \<Rightarrow> u8 \<Rightarrow> m4a \<Rightarrow> m4a" where
  "SetPokemonCryRelease env val s = set_cry_byte env 0x26 val s"

definition SetPokemonCryProgress :: "m4a_env \<Rightarrow> u32 \<Rightarrow> m4a \<Rightarrow> m4a" where
  "SetPokemonCryProgress env val s =
     upd_mem (store_bytes (gPokemonCrySong env + 0x20) (bytes32 val)) s"

definition IsPokemonCryPlaying :: "u32 \<Rightarrow> m4a \<Rightarrow> bool" where
  "IsPokemonCryPlaying p s =
     (let t = tracks (player s p) in
      chan (track s t) \<noteq> 0 \<and> tp (channel s (chan (track s t))) = t)"

definition SetPokemonCryChorus :: "m4a_env \<Rightarrow> s8 \<Rightarrow> m4a \<Rightarrow> m4a" where
  "SetPokemonCryChorus env val s =
     (if val \<noteq> 0
      then let s = set_cry_byte env 0 2 s
           in set_cry_byte env 0x19 ((val + cry_byte env 0x12 s) AND 0x7F) s
      else set_cry_byte env 0 1 s)"

definition SetPokemonCryStereo :: "u32 \<Rightarrow> m4a \<Rightarrow> m4a" where
  "SetPokemonCryStereo val s =
     (if val \<noteq> 0
      then upd_soundInfo (\<lambda>i. i\<lparr>si_mode := si_mode i AND NOT 1\<rparr>)
        (iow16 REG_ADDR_SOUNDCNT_H (SOUND_B_TIMER_0 OR SOUND_B_LEFT_OUTPUT
           OR SOUND_A_TIMER_0 OR SOUND_A_RIGHT_OUTPUT OR SOUND_ALL_MIX_FULL) s)
      else upd_soundInfo (\<lambda>i. i\<lparr>si_mode := si_mode i OR 1\<rparr>)
        (iow16 REG_ADDR_SOUNDCNT_H (SOUND_B_TIMER_0 OR SOUND_B_LEFT_OUTPUT OR SOUND_B_RIGHT_OUTPUT
           OR SOUND_A_TIMER_0 OR SOUND_A_LEFT_OUTPUT OR SOUND_A_RIGHT_OUTPUT
           OR SOUND_B_MIX_HALF OR SOUND_A_MIX_HALF OR SOUND_CGB_MIX_FULL) s))"

definition SetPokemonCryPriority :: "m4a_env \<Rightarrow> u8 \<Rightarrow> m4a \<Rightarrow> m4a" where
  "SetPokemonCryPriority env val s = set_cry_byte env 2 val s"

end
