(* ===== verification/M4aCorrect.thy ===== *)
theory M4aCorrect
  imports M4aControl
begin

text \<open>
  What the music player's operations do. The players' lock is stated as a contract that every
  control operation satisfies; the linked channels of a track are abstracted to lists, over
  which stopping, starting and fading terminate; the remaining sections are the behaviour of
  the single operations.
\<close>

unbundle bit_operations_syntax

section \<open>Reading back updates\<close>

lemma player_upd [simp]:
  "player (upd_player p f s) = (player s)(p := f (player s p))"
  "player (upd_track t g s) = player s" "player (upd_channel c h s) = player s"
  "player (upd_sound a i s) = player s" "player (upd_mem m s) = player s"
  "player (iow8 b v8 s) = player s" "player (iow16 b v16 s) = player s" "player (iow32 b v32 s) = player s"
  by (simp_all add: upd_player_def upd_track_def upd_channel_def upd_sound_def upd_mem_def
      iow8_def iow16_def iow32_def)

lemma track_upd [simp]:
  "track (upd_track t g s) = (track s)(t := g (track s t))"
  "track (upd_player p f s) = track s" "track (upd_channel c h s) = track s"
  "track (upd_sound a i s) = track s" "track (upd_mem m s) = track s"
  "track (iow8 b v8 s) = track s" "track (iow16 b v16 s) = track s" "track (iow32 b v32 s) = track s"
  by (simp_all add: upd_player_def upd_track_def upd_channel_def upd_sound_def upd_mem_def
      iow8_def iow16_def iow32_def)

lemma channel_upd [simp]:
  "channel (upd_channel c h s) = (channel s)(c := h (channel s c))"
  "channel (upd_player p f s) = channel s" "channel (upd_track t g s) = channel s"
  "channel (upd_sound a i s) = channel s" "channel (upd_mem m s) = channel s"
  "channel (iow8 b v8 s) = channel s" "channel (iow16 b v16 s) = channel s" "channel (iow32 b v32 s) = channel s"
  by (simp_all add: upd_player_def upd_track_def upd_channel_def upd_sound_def upd_mem_def
      iow8_def iow16_def iow32_def)

lemma sound_upd [simp]:
  "sound (upd_sound a i s) = (sound s)(a := i (sound s a))"
  "sound (upd_player p f s) = sound s" "sound (upd_track t g s) = sound s"
  "sound (upd_channel c h s) = sound s" "sound (upd_mem m s) = sound s"
  "sound (iow8 b v8 s) = sound s" "sound (iow16 b v16 s) = sound s" "sound (iow32 b v32 s) = sound s"
  "SOUND_INFO_PTR (upd_sound a i s) = SOUND_INFO_PTR s"
  "SOUND_INFO_PTR (upd_player p f s) = SOUND_INFO_PTR s" "SOUND_INFO_PTR (upd_track t g s) = SOUND_INFO_PTR s"
  "SOUND_INFO_PTR (upd_channel c h s) = SOUND_INFO_PTR s" "SOUND_INFO_PTR (upd_mem m s) = SOUND_INFO_PTR s"
  "SOUND_INFO_PTR (iow8 b v8 s) = SOUND_INFO_PTR s" "SOUND_INFO_PTR (iow16 b v16 s) = SOUND_INFO_PTR s"
  "SOUND_INFO_PTR (iow32 b v32 s) = SOUND_INFO_PTR s"
  by (simp_all add: upd_player_def upd_track_def upd_channel_def upd_sound_def upd_mem_def
      iow8_def iow16_def iow32_def)

lemma mem_upd [simp]:
  "mem (upd_mem m s) = m (mem s)"
  "mem (upd_player p f s) = mem s" "mem (upd_track t g s) = mem s"
  "mem (upd_channel c h s) = mem s" "mem (upd_sound a i s) = mem s"
  "mem (iow8 b v8 s) = mem s" "mem (iow16 b v16 s) = mem s" "mem (iow32 b v32 s) = mem s"
  "gMPlayJumpTable (upd_mem m s) = gMPlayJumpTable s" "gMPlayJumpTable (upd_player p f s) = gMPlayJumpTable s"
  "gMPlayJumpTable (upd_track t g s) = gMPlayJumpTable s" "gMPlayJumpTable (upd_channel c h s) = gMPlayJumpTable s"
  "gMPlayJumpTable (upd_sound a i s) = gMPlayJumpTable s" "gMPlayJumpTable (iow8 b v8 s) = gMPlayJumpTable s"
  "gMPlayJumpTable (iow16 b v16 s) = gMPlayJumpTable s" "gMPlayJumpTable (iow32 b v32 s) = gMPlayJumpTable s"
  by (simp_all add: upd_player_def upd_track_def upd_channel_def upd_sound_def upd_mem_def
      iow8_def iow16_def iow32_def)

lemma soundInfo_upd [simp]:
  "soundInfo (upd_player p f s) = soundInfo s" "soundInfo (upd_track t g s) = soundInfo s"
  "soundInfo (upd_channel c h s) = soundInfo s" "soundInfo (upd_mem m s) = soundInfo s"
  "soundInfo (iow8 b v8 s) = soundInfo s" "soundInfo (iow16 b v16 s) = soundInfo s"
  "soundInfo (iow32 b v32 s) = soundInfo s"
  by (simp_all add: soundInfo_def)

lemma ior_frame [simp]:
  "player (snd (ior env a s)) = player s" "track (snd (ior env a s)) = track s"
  "channel (snd (ior env a s)) = channel s" "sound (snd (ior env a s)) = sound s"
  "SOUND_INFO_PTR (snd (ior env a s)) = SOUND_INFO_PTR s" "mem (snd (ior env a s)) = mem s"
  "gMPlayJumpTable (snd (ior env a s)) = gMPlayJumpTable s"
  by (simp_all add: ior_def)

lemma sh_upd [simp]:
  "sh_trackCount (upd_player p f s) h = sh_trackCount s h" "sh_trackCount (upd_track t g s) h = sh_trackCount s h"
  "sh_part (upd_player p f s) h i = sh_part s h i" "sh_part (upd_track t g s) h i = sh_part s h i"
  "sh_reverb (upd_player p f s) h = sh_reverb s h" "sh_reverb (upd_track t g s) h = sh_reverb s h"
  "sh_priority (upd_player p f s) h = sh_priority s h" "sh_tone (upd_player p f s) h = sh_tone s h"
  by (simp_all add: sh_trackCount_def sh_part_def sh_reverb_def sh_priority_def sh_tone_def)

lemma ID_NUMBER_next: "ID_NUMBER + 1 \<noteq> ID_NUMBER" "ID_NUMBER \<noteq> ID_NUMBER + 1"
  by (simp_all add: ID_NUMBER_def)

text \<open>The elements of a track array are distinct for every track count a byte can hold.\<close>

lemma track_at_inj:
  assumes "i < 256" "j < 256"
  shows "track_at a i = track_at a j \<longleftrightarrow> i = j"
proof -
  have "of_nat (i * 0x50) = (of_nat (j * 0x50) :: u32) \<longleftrightarrow> i * 0x50 = j * 0x50"
    using assms by (subst word_of_nat_eq_iff) (simp add: take_bit_nat_eq_self)
  then show ?thesis unfolding track_at_def by (metis add_left_cancel mult_cancel2 zero_neq_numeral)
qed

section \<open>Channel chains\<close>

text \<open>The channels of a track are linked through \<^verbatim>\<open>np\<close>; \<open>chain\<close> relates the head of such a
  chain to the list of its channels, so it holds for finite chains only.\<close>

primrec chain :: "(u32 \<Rightarrow> u32) \<Rightarrow> u32 \<Rightarrow> u32 list \<Rightarrow> bool" where
  "chain nx c [] \<longleftrightarrow> c = 0"
| "chain nx c (x # xs) \<longleftrightarrow> c = x \<and> x \<noteq> 0 \<and> chain nx (nx x) xs"

definition chan_next :: "m4a \<Rightarrow> u32 \<Rightarrow> u32" where
  "chan_next s c = np (channel s c)"

lemma chain_zero [simp]: "chain nx 0 cs \<longleftrightarrow> cs = []"
  by (cases cs) auto

lemma chain_unique: "chain nx c cs \<Longrightarrow> chain nx c ds \<Longrightarrow> cs = ds"
proof (induction cs arbitrary: c ds)
  case Nil then show ?case by simp
next
  case (Cons x xs) then show ?case by (cases ds) auto
qed

text \<open>The function the mixer area names for switching a tone generator off is one of the two
  the library ever stores there.\<close>

definition osc_ok :: "m4a \<Rightarrow> bool" where
  "osc_ok s \<longleftrightarrow> si_CgbOscOff (soundInfo s) = F_CgbOscOff \<or> si_CgbOscOff (soundInfo s) = F_DummyFunc"

text \<open>What stopping channels leaves alone: everything but the tracks and the \<open>sf\<close> and \<open>tp\<close> fields of
  channels, which are at most cleared.\<close>

definition stop_frame :: "m4a \<Rightarrow> m4a \<Rightarrow> bool" where
  "stop_frame s s' \<longleftrightarrow> player s' = player s \<and> mem s' = mem s \<and> sound s' = sound s
     \<and> SOUND_INFO_PTR s' = SOUND_INFO_PTR s \<and> gMPlayJumpTable s' = gMPlayJumpTable s
     \<and> chan_next s' = chan_next s
     \<and> (\<forall>c. sf (channel s c) = 0 \<longrightarrow> sf (channel s' c) = 0)
     \<and> (\<forall>c. tp (channel s c) = 0 \<longrightarrow> tp (channel s' c) = 0)"

lemma stop_frame_refl [simp]: "stop_frame s s"
  by (simp add: stop_frame_def)

lemma stop_frame_trans: "stop_frame s t \<Longrightarrow> stop_frame t u \<Longrightarrow> stop_frame s u"
  by (simp add: stop_frame_def)

lemma stop_frame_track [simp]: "stop_frame s (upd_track t g s') = stop_frame s s'"
  by (simp add: stop_frame_def chan_next_def fun_eq_iff)

lemma stop_frame_osc: "stop_frame s s' \<Longrightarrow> osc_ok s \<Longrightarrow> osc_ok s'"
  by (simp add: stop_frame_def osc_ok_def soundInfo_def)

text \<open>What stopping does to the channels \<open>C\<close>: they are switched off and lose their track, all other channels stay as they are, and
  the hardware gets exactly the writes that turn off the tone generators of those that were sounding, if the library has been
  extended with the generators (\<^verbatim>\<open>MPlayExtender\<close>).\<close>

definition off_writes :: "u8 \<Rightarrow> io_access list" where
  "off_writes n =
     (if n = 1 then [W8 REG_ADDR_NR12 8, W8 REG_ADDR_NR14 0x80]
      else if n = 2 then [W8 REG_ADDR_NR22 8, W8 REG_ADDR_NR24 0x80]
      else if n = 3 then [W8 REG_ADDR_NR30 0]
      else [W8 REG_ADDR_NR42 8, W8 REG_ADDR_NR44 0x80])"

definition generators :: "m4a \<Rightarrow> u32 set \<Rightarrow> u8 set" where
  "generators s C = {ty (channel s c) AND 7 |c. c \<in> C \<and> sf (channel s c) \<noteq> 0 \<and> ty (channel s c) AND 7 \<noteq> 0}"

definition stops :: "u32 set \<Rightarrow> m4a \<Rightarrow> m4a \<Rightarrow> bool" where
  "stops C s s' \<longleftrightarrow> channel s' = (\<lambda>c. if c \<in> C then (channel s c)\<lparr>sf := 0, tp := 0\<rparr> else channel s c)
     \<and> (\<exists>es. io s' = io s @ es \<and> set es =
          (if si_CgbOscOff (soundInfo s) = F_CgbOscOff then \<Union>n\<in>generators s C. set (off_writes n) else {}))"

lemma stops_empty [simp]: "stops {} s s"
  by (simp add: stops_def generators_def)

lemma stops_trans:
  assumes "stop_frame s t" "stops C s t" "stops D t u"
  shows "stops (C \<union> D) s u"
proof -
  have si: "soundInfo t = soundInfo s" using assms(1) by (simp add: stop_frame_def soundInfo_def)
  have ch: "channel t = (\<lambda>c. if c \<in> C then (channel s c)\<lparr>sf := 0, tp := 0\<rparr> else channel s c)"
    using assms(2) by (simp add: stops_def)
  have "generators s (C \<union> D) = generators s C \<union> generators t D"
    by (auto simp: generators_def ch split: if_splits)
  moreover obtain es fs where "io t = io s @ es" "io u = io t @ fs"
      "set es = (if si_CgbOscOff (soundInfo s) = F_CgbOscOff then \<Union>n\<in>generators s C. set (off_writes n) else {})"
      "set fs = (if si_CgbOscOff (soundInfo t) = F_CgbOscOff then \<Union>n\<in>generators t D. set (off_writes n) else {})"
    using assms(2,3) by (auto simp: stops_def)
  moreover have "channel u = (\<lambda>c. if c \<in> C \<union> D then (channel s c)\<lparr>sf := 0, tp := 0\<rparr> else channel s c)"
    using assms(3) ch by (auto simp: stops_def fun_eq_iff)
  ultimately show ?thesis unfolding stops_def by (intro conjI exI [of _ "es @ fs"]) (auto simp: si)
qed

lemma stops_upd [simp]:
  "stops C s (upd_track t g s') = stops C s s'" "stops C s (upd_player p f s') = stops C s s'"
  "stops C s (upd_sound a i s') = stops C s s'" "stops C (upd_player p f s) s' = stops C s s'"
  by (simp_all add: stops_def generators_def soundInfo_def upd_track_def upd_player_def upd_sound_def cong: if_cong)

lemma stop_frame_sh:
  assumes "stop_frame s s'"
  shows "sh_part s' h i = sh_part s h i" "sh_trackCount s' h = sh_trackCount s h"
    "sh_reverb s' h = sh_reverb s h"
  using assms by (simp_all add: stop_frame_def sh_part_def sh_trackCount_def sh_reverb_def)

lemma call_CgbOscOff_writes:
  assumes "osc_ok s"
  shows "call_CgbOscOff n s =
    Some (s\<lparr>io := io s @ (if si_CgbOscOff (soundInfo s) = F_CgbOscOff then off_writes n else [])\<rparr>)"
  using assms by (auto simp: call_CgbOscOff_def osc_ok_def CgbOscOff_def off_writes_def iow8_def)

text \<open>One channel: it falls silent and loses its track.\<close>

definition stop_channel :: "u32 \<Rightarrow> m4a \<Rightarrow> m4a option" where
  "stop_channel c s = do {
     s \<leftarrow> (if sf (channel s c) = 0 then Some s else do {
        s \<leftarrow> (if ty (channel s c) AND 7 = 0 then Some s else call_CgbOscOff (ty (channel s c) AND 7) s);
        Some (upd_channel c (\<lambda>c. c\<lparr>sf := 0\<rparr>) s)
      });
     Some (upd_channel c (\<lambda>c. c\<lparr>tp := 0\<rparr>) s)
   }"

lemma stop_chain_step:
  "stop_chain c s = do {
     s \<leftarrow> stop_channel c s;
     if np (channel s c) \<noteq> 0 then stop_chain (np (channel s c)) s else Some s
   }"
  by (subst stop_chain.simps) (simp add: stop_channel_def Let_def bind_assoc cong: if_cong)

lemma stop_channel_effect:
  assumes "osc_ok s"
  shows "\<exists>s'. stop_channel c s = Some s' \<and> stop_frame s s' \<and> track s' = track s \<and> stops {c} s s'
    \<and> sf (channel s' c) = 0 \<and> tp (channel s' c) = 0"
proof -
  note call = call_CgbOscOff_writes [OF assms]
  have "\<exists>s'. stop_channel c s = Some s'" by (simp add: stop_channel_def call)
  then obtain s' where s': "stop_channel c s = Some s'" ..
  have gen: "generators s {c} = (if sf (channel s c) \<noteq> 0 \<and> ty (channel s c) AND 7 \<noteq> 0 then {ty (channel s c) AND 7} else {})"
    by (auto simp: generators_def)
  have "channel s' = (\<lambda>x. if x \<in> {c} then (channel s x)\<lparr>sf := 0, tp := 0\<rparr> else channel s x)"
    using s' by (auto simp: stop_channel_def call fun_eq_iff split: if_splits)
  moreover have "\<exists>es. io s' = io s @ es \<and> set es =
      (if si_CgbOscOff (soundInfo s) = F_CgbOscOff then \<Union>n\<in>generators s {c}. set (off_writes n) else {})"
    using s' by (auto simp: stop_channel_def call gen upd_channel_def split: if_splits)
  moreover have "stop_frame s s' \<and> track s' = track s"
    using s' by (auto simp: stop_channel_def call stop_frame_def chan_next_def fun_eq_iff split: if_splits)
  ultimately show ?thesis using s' by (auto simp: stops_def)
qed

lemma stop_chain_effect:
  assumes "chain (chan_next s) c cs" "c \<noteq> 0" "osc_ok s"
  shows "\<exists>s'. stop_chain c s = Some s' \<and> stop_frame s s' \<and> track s' = track s \<and> stops (set cs) s s'
    \<and> (\<forall>x\<in>set cs. sf (channel s' x) = 0 \<and> tp (channel s' x) = 0)"
  using assms
proof (induction cs arbitrary: c s)
  case Nil then show ?case by simp
next
  case (Cons x xs)
  obtain s1 where s1: "stop_channel c s = Some s1" "stop_frame s s1" "track s1 = track s" "stops {c} s s1"
      "sf (channel s1 c) = 0" "tp (channel s1 c) = 0"
    using stop_channel_effect [OF Cons.prems(3)] by blast
  have nx: "chan_next s1 = chan_next s" using s1(2) by (simp add: stop_frame_def)
  then have np: "np (channel s1 c) = chan_next s c" by (metis chan_next_def)
  show ?case
  proof (cases "chan_next s c = 0")
    case True
    then have "xs = []" using Cons.prems(1) by simp
    then show ?thesis using Cons.prems(1) s1 np True by (subst stop_chain_step) simp
  next
    case False
    have "chain (chan_next s1) (chan_next s c) xs" using Cons.prems(1) nx by simp
    from Cons.IH [OF this False stop_frame_osc [OF s1(2) Cons.prems(3)]]
    obtain s2 where s2: "stop_chain (chan_next s c) s1 = Some s2" "stop_frame s1 s2" "track s2 = track s1" "stops (set xs) s1 s2"
        "\<forall>x\<in>set xs. sf (channel s2 x) = 0 \<and> tp (channel s2 x) = 0" by blast
    moreover have "sf (channel s2 c) = 0 \<and> tp (channel s2 c) = 0"
      using s2(2) s1(5,6) by (simp add: stop_frame_def)
    moreover have "stop_chain c s = Some s2"
      using s1(1) s2(1) np False by (subst stop_chain_step) simp
    moreover have "stops (set (x # xs)) s s2"
      using stops_trans [OF s1(2,4) s2(4)] Cons.prems(1) by simp
    ultimately show ?thesis using Cons.prems(1) s1 stop_frame_trans by auto
  qed
qed

definition exists_flag :: "MusicPlayerTrack \<Rightarrow> bool" where
  "exists_flag t \<longleftrightarrow> flags t AND MPT_FLG_EXIST \<noteq> 0"

text \<open>What stopping does to a track, and the channels it silences.\<close>

definition unlinked :: "MusicPlayerTrack \<Rightarrow> MusicPlayerTrack" where
  "unlinked t = (if exists_flag t then t\<lparr>chan := 0\<rparr> else t)"

definition silent :: "m4a \<Rightarrow> u32 \<Rightarrow> bool" where
  "silent s c \<longleftrightarrow> sf (channel s c) = 0 \<and> tp (channel s c) = 0"

definition linked :: "m4a \<Rightarrow> u32 \<Rightarrow> u32 \<Rightarrow> bool" where
  "linked s t c \<longleftrightarrow> exists_flag (track s t) \<and> (\<exists>cs. chain (chan_next s) (chan (track s t)) cs \<and> c \<in> set cs)"

definition finite_chain :: "m4a \<Rightarrow> u32 \<Rightarrow> bool" where
  "finite_chain s t \<longleftrightarrow> (\<exists>cs. chain (chan_next s) (chan (track s t)) cs)"

lemma stops_silent: "stops C s s' \<Longrightarrow> c \<in> C \<Longrightarrow> silent s' c"
  by (simp add: stops_def silent_def)

lemma stop_frame_silent: "stop_frame s s' \<Longrightarrow> silent s c \<Longrightarrow> silent s' c"
  by (simp add: stop_frame_def silent_def)

lemma TrackStop_effect:
  assumes "finite_chain s t" "osc_ok s"
  shows "\<exists>s'. TrackStop p t s = Some s' \<and> stop_frame s s'
    \<and> track s' = (track s)(t := unlinked (track s t)) \<and> stops {c. linked s t c} s s' \<and> (\<forall>c. linked s t c \<longrightarrow> silent s' c)"
proof (cases "exists_flag (track s t)")
  case False
  then show ?thesis
    by (simp add: TrackStop_def unlinked_def exists_flag_def linked_def MPT_FLG_EXIST_def)
next
  case True
  note ex = this
  obtain cs where cs: "chain (chan_next s) (chan (track s t)) cs"
    using assms(1) by (auto simp: finite_chain_def)
  then have linked: "linked s t c \<longleftrightarrow> c \<in> set cs" for c
    using ex cs chain_unique [OF cs] by (metis linked_def)
  obtain s1 where s1: "stop_frame s s1" "track s1 = track s" "\<forall>c\<in>set cs. silent s1 c" "stops {c. linked s t c} s s1"
    "(if chan (track s t) = 0 then Some s else stop_chain (chan (track s t)) s) = Some s1"
  proof (cases "chan (track s t) = 0")
    case True then show ?thesis using that [of s] cs linked by simp
  next
    case False
    from stop_chain_effect [OF cs this assms(2)] show ?thesis
      using that False linked by (auto simp: silent_def)
  qed
  have "TrackStop p t s = Some (upd_track t (\<lambda>t. t\<lparr>chan := 0\<rparr>) s1)"
    using ex s1(5) by (simp add: TrackStop_def exists_flag_def MPT_FLG_EXIST_def)
  then show ?thesis using s1 ex linked by (auto simp: unlinked_def silent_def)
qed

section \<open>Loops that stop tracks\<close>

text \<open>Four loops stop the tracks of a player one after the other and then change each track. The
  contract: the body stops its track and applies a change that depends only on what stopping
  leaves alone.\<close>

locale track_stopping =
  fixes body :: "u32 \<Rightarrow> u32 \<Rightarrow> nat \<Rightarrow> m4a \<Rightarrow> m4a option"
    and change :: "u32 \<Rightarrow> nat \<Rightarrow> m4a \<Rightarrow> MusicPlayerTrack \<Rightarrow> MusicPlayerTrack"
  assumes body_stops: "body p ts i s = do {
      s' \<leftarrow> TrackStop p (track_at ts i) s;
      Some (upd_track (track_at ts i) (change p i s') s')
    }"
    and change_frame: "stop_frame s s' \<Longrightarrow> change p i s' = change p i s"
begin

lemma body_effect:
  assumes "finite_chain s (track_at ts i)" "osc_ok s"
  shows "\<exists>s'. body p ts i s = Some s' \<and> stop_frame s s'
    \<and> track s' = (track s)(track_at ts i := change p i s (unlinked (track s (track_at ts i))))
    \<and> stops {c. linked s (track_at ts i) c} s s' \<and> (\<forall>c. linked s (track_at ts i) c \<longrightarrow> silent s' c)"
proof -
  obtain s1 where s1: "TrackStop p (track_at ts i) s = Some s1" "stop_frame s s1"
      "track s1 = (track s)(track_at ts i := unlinked (track s (track_at ts i)))"
      "stops {c. linked s (track_at ts i) c} s s1" "\<forall>c. linked s (track_at ts i) c \<longrightarrow> silent s1 c"
    using TrackStop_effect [OF assms] by blast
  then show ?thesis
    using change_frame [OF s1(2)] by (simp add: body_stops silent_def fun_eq_iff)
qed

lemma loop_effect:
  assumes "distinct is" "\<forall>i\<in>set is. i < 256" "\<forall>i\<in>set is. finite_chain s (track_at ts i)" "osc_ok s"
  shows "\<exists>s'. foldo (body p ts) is s = Some s' \<and> stop_frame s s'
    \<and> (\<forall>i\<in>set is. track s' (track_at ts i) = change p i s (unlinked (track s (track_at ts i))))
    \<and> (\<forall>t. (\<forall>i\<in>set is. t \<noteq> track_at ts i) \<longrightarrow> track s' t = track s t)
    \<and> stops {c. \<exists>i\<in>set is. linked s (track_at ts i) c} s s'
    \<and> (\<forall>i\<in>set is. \<forall>c. linked s (track_at ts i) c \<longrightarrow> silent s' c)"
  using assms
proof (induction "is" arbitrary: s)
  case Nil then show ?case by simp
next
  case (Cons i "is")
  let ?t = "track_at ts i"
  obtain s1 where s1: "body p ts i s = Some s1" "stop_frame s s1"
      "track s1 = (track s)(?t := change p i s (unlinked (track s ?t)))" "stops {c. linked s ?t c} s s1"
      "\<forall>c. linked s ?t c \<longrightarrow> silent s1 c"
    using body_effect [of s ts i p] Cons.prems by auto
  have other: "track s1 (track_at ts j) = track s (track_at ts j)" if "j \<in> set is" for j
  proof -
    have "j \<noteq> i" "i < 256" "j < 256" using that Cons.prems(1,2) by auto
    then have "track_at ts j \<noteq> track_at ts i" by (simp add: track_at_inj)
    then show ?thesis using s1(3) by simp
  qed
  have nx: "chan_next s1 = chan_next s" using s1(2) by (simp add: stop_frame_def)
  have fin: "\<forall>j\<in>set is. finite_chain s1 (track_at ts j)"
    using Cons.prems(3) other nx by (simp add: finite_chain_def)
  have link: "linked s1 (track_at ts j) c = linked s (track_at ts j) c" if "j \<in> set is" for j c
    using other [OF that] nx by (simp add: linked_def)
  obtain s2 where s2: "foldo (body p ts) is s1 = Some s2" "stop_frame s1 s2"
      "\<forall>i\<in>set is. track s2 (track_at ts i) = change p i s1 (unlinked (track s1 (track_at ts i)))"
      "\<forall>t. (\<forall>i\<in>set is. t \<noteq> track_at ts i) \<longrightarrow> track s2 t = track s1 t"
      "stops {c. \<exists>i\<in>set is. linked s1 (track_at ts i) c} s1 s2"
      "\<forall>i\<in>set is. \<forall>c. linked s1 (track_at ts i) c \<longrightarrow> silent s2 c"
    using Cons.IH [of s1] Cons.prems(1,2) fin stop_frame_osc [OF s1(2) Cons.prems(4)] by auto
  have "track s2 ?t = track s1 ?t"
  proof -
    have "\<forall>j\<in>set is. ?t \<noteq> track_at ts j" using Cons.prems(1,2) by (auto simp: track_at_inj)
    then show ?thesis using s2(4) by blast
  qed
  moreover have "\<forall>j\<in>set is. track s2 (track_at ts j) = change p j s (unlinked (track s (track_at ts j)))"
    using s2(3) other change_frame [OF s1(2)] by simp
  moreover have "foldo (body p ts) (i # is) s = Some s2" using s1(1) s2(1) by simp
  moreover have "{c. linked s ?t c} \<union> {c. \<exists>j\<in>set is. linked s1 (track_at ts j) c} = {c. \<exists>j\<in>set (i # is). linked s (track_at ts j) c}"
    using link by auto
  then have "stops {c. \<exists>j\<in>set (i # is). linked s (track_at ts j) c} s s2"
    using stops_trans [OF s1(2,4) s2(5)] by simp
  ultimately show ?case
    using s1 s2 link stop_frame_trans [OF s1(2) s2(2)] stop_frame_silent [OF s2(2)]
    by (auto simp: fun_eq_iff)
qed

lemma range_effect:
  assumes "b \<le> 256" "\<forall>i. a \<le> i \<and> i < b \<longrightarrow> finite_chain s (track_at ts i)" "osc_ok s"
  shows "\<exists>s'. foldo (body p ts) [a..<b] s = Some s' \<and> stop_frame s s'
    \<and> (\<forall>i. a \<le> i \<and> i < b \<longrightarrow> track s' (track_at ts i) = change p i s (unlinked (track s (track_at ts i))))
    \<and> (\<forall>t. (\<forall>i. a \<le> i \<and> i < b \<longrightarrow> t \<noteq> track_at ts i) \<longrightarrow> track s' t = track s t)
    \<and> stops {c. \<exists>i. a \<le> i \<and> i < b \<and> linked s (track_at ts i) c} s s'
    \<and> (\<forall>i c. a \<le> i \<and> i < b \<and> linked s (track_at ts i) c \<longrightarrow> silent s' c)"
proof -
  have "\<exists>s'. foldo (body p ts) [a..<b] s = Some s' \<and> stop_frame s s'
    \<and> (\<forall>i\<in>set [a..<b]. track s' (track_at ts i) = change p i s (unlinked (track s (track_at ts i))))
    \<and> (\<forall>t. (\<forall>i\<in>set [a..<b]. t \<noteq> track_at ts i) \<longrightarrow> track s' t = track s t)
    \<and> stops {c. \<exists>i\<in>set [a..<b]. linked s (track_at ts i) c} s s'
    \<and> (\<forall>i\<in>set [a..<b]. \<forall>c. linked s (track_at ts i) c \<longrightarrow> silent s' c)"
    using assms by (intro loop_effect) auto
  then show ?thesis by (simp add: Ball_def Bex_def conj_assoc) blast
qed

end

interpretation stop: track_stopping "\<lambda>p ts i. TrackStop p (track_at ts i)" "\<lambda>p i s t. t"
  by unfold_locales (auto simp: upd_track_def bind_eq_Some_conv split: Option.bind_split)

interpretation start: track_stopping "start_track h"
  "\<lambda>p i s t. t\<lparr>flags := MPT_FLG_EXIST OR MPT_FLG_START, chan := 0, cmdPtr := sh_part s h i\<rparr>" for h
  by unfold_locales (simp_all add: start_track_def Let_def stop_frame_sh)

interpretation retire: track_stopping retire_track "\<lambda>p i s t. t\<lparr>flags := 0\<rparr>"
  by unfold_locales (simp_all add: retire_track_def Let_def)

definition fade_end_change :: "u32 \<Rightarrow> nat \<Rightarrow> m4a \<Rightarrow> MusicPlayerTrack \<Rightarrow> MusicPlayerTrack" where
  "fade_end_change p i s = (if fadeOV (player s p) AND TEMPORARY_FADE = 0 then (\<lambda>t. t\<lparr>flags := 0\<rparr>) else (\<lambda>t. t))"

lemma temporary_test: "ucast TEMPORARY_FADE AND (ucast (v :: u16) :: u32) = 0 \<longleftrightarrow> v AND TEMPORARY_FADE = 0"
  by (simp add: TEMPORARY_FADE_def and_one_cases and.commute [of 1] bit_simps)

lemma upd_track_id: "upd_track t (\<lambda>x. x) s = s"
  by (simp add: upd_track_def)

interpretation fade_end: track_stopping fade_end_track fade_end_change
  by unfold_locales
    (auto simp: fade_end_track_def fade_end_change_def Let_def temporary_test upd_track_id stop_frame_def
      split: Option.bind_split)

section \<open>Stopping and starting a song\<close>

lemma chan_next_upd_player [simp]: "chan_next (upd_player p f s) = chan_next s"
  by (simp add: chan_next_def fun_eq_iff)

lemma stop_upd_player [simp]:
  "finite_chain (upd_player p f s) t = finite_chain s t" "linked (upd_player p f s) t c = linked s t c"
  "silent (upd_player p f s) c = silent s c" "osc_ok (upd_player p f s) = osc_ok s"
  by (simp_all add: finite_chain_def linked_def silent_def osc_ok_def)

abbreviation track_of :: "m4a \<Rightarrow> u32 \<Rightarrow> nat \<Rightarrow> u32" where
  "track_of s p i \<equiv> track_at (tracks (player s p)) i"

abbreviation n_tracks :: "m4a \<Rightarrow> u32 \<Rightarrow> nat" where
  "n_tracks s p \<equiv> unat (trackCount (player s p))"

lemma n_tracks_less: "i < n_tracks s p \<Longrightarrow> i < 256"
  using u8_unat_less [of "trackCount (player s p)"] by simp

text \<open>The channels that are linked to the existing tracks of a player.\<close>

definition channels_of :: "m4a \<Rightarrow> u32 \<Rightarrow> u32 set" where
  "channels_of s p = {c. \<exists>i<n_tracks s p. linked s (track_of s p i) c}"

text \<open>The channels of every track of the player form finite chains and can be switched off.\<close>

definition stoppable :: "u32 \<Rightarrow> m4a \<Rightarrow> bool" where
  "stoppable p s \<longleftrightarrow> osc_ok s \<and> (\<forall>i<n_tracks s p. finite_chain s (track_of s p i))"

text \<open>C17. Stopping a player whose channel chains are finite returns. Afterwards the player is
  paused and otherwise as before, each of its tracks has lost its channels, every channel that
  was linked to one of its existing tracks is switched off and free, and no other track, player, channel or
  memory cell has changed. The sound registers get exactly the writes that turn off the tone generators of those channels that were
  sounding on one (none while the library runs without the generators).\<close>

theorem m4aMPlayStop_silences:
  assumes "ident (player s p) = ID_NUMBER" "stoppable p s"
  shows "\<exists>s'. m4aMPlayStop p s = Some s'
    \<and> player s' = (player s)(p := (player s p)\<lparr>status := status (player s p) OR MUSICPLAYER_STATUS_PAUSE\<rparr>)
    \<and> (\<forall>i<n_tracks s p. track s' (track_of s p i) = unlinked (track s (track_of s p i)))
    \<and> stops (channels_of s p) s s' \<and> (\<forall>c\<in>channels_of s p. silent s' c)
    \<and> (\<forall>t. (\<forall>i<n_tracks s p. t \<noteq> track_of s p i) \<longrightarrow> track s' t = track s t)
    \<and> mem s' = mem s \<and> sound s' = sound s \<and> SOUND_INFO_PTR s' = SOUND_INFO_PTR s \<and> gMPlayJumpTable s' = gMPlayJumpTable s"
proof -
  define s0 where "s0 = upd_player p (\<lambda>p. p\<lparr>status := status p OR MUSICPLAYER_STATUS_PAUSE\<rparr>)
    (upd_player p (\<lambda>p. p\<lparr>ident := ident p + 1\<rparr>) s)"
  have p0: "player s0 = (player s)(p := (player s p)\<lparr>ident := ident (player s p) + 1,
      status := status (player s p) OR MUSICPLAYER_STATUS_PAUSE\<rparr>)"
    by (simp add: s0_def)
  have eq: "track s0 = track s" "mem s0 = mem s" "sound s0 = sound s" "linked s0 = linked s"
      "stops C s0 = stops C s" "SOUND_INFO_PTR s0 = SOUND_INFO_PTR s" "gMPlayJumpTable s0 = gMPlayJumpTable s" for C
    by (simp_all add: s0_def fun_eq_iff)
  obtain s1 where s1: "foldo (\<lambda>i. TrackStop p (track_of s p i)) [0..<n_tracks s p] s0 = Some s1"
      "stop_frame s0 s1" "\<forall>i<n_tracks s p. track s1 (track_of s p i) = unlinked (track s (track_of s p i))"
      "\<forall>t. (\<forall>i<n_tracks s p. t \<noteq> track_of s p i) \<longrightarrow> track s1 t = track s t"
      "stops (channels_of s p) s s1"
    using stop.range_effect [of "n_tracks s p" 0 s0 "tracks (player s p)" p] assms(2) eq
      u8_unat_less [of "trackCount (player s p)"] by (auto simp: stoppable_def s0_def channels_of_def)
  have "m4aMPlayStop p s = Some (upd_player p (\<lambda>p. p\<lparr>ident := ID_NUMBER\<rparr>) s1)"
    using assms(1) s1(1) by (simp add: m4aMPlayStop_def Let_def s0_def)
  moreover have "player s1 = player s0" "mem s1 = mem s0" "sound s1 = sound s0"
      "SOUND_INFO_PTR s1 = SOUND_INFO_PTR s0" "gMPlayJumpTable s1 = gMPlayJumpTable s0"
    using s1(2) by (simp_all add: stop_frame_def)
  ultimately show ?thesis
    using s1 eq assms(1) stops_silent [OF s1(5)] by (auto simp: p0 fun_eq_iff)
qed

lemma reverb_masks:
  fixes r :: u8
  shows "(ucast r :: u32) AND SOUND_MODE_MAXCHN = 0" "(ucast r :: u32) AND SOUND_MODE_MASVOL = 0"
    "(ucast r :: u32) AND SOUND_MODE_DA_BIT = 0" "(ucast r :: u32) AND SOUND_MODE_FREQ = 0"
    "(ucast r :: u32) AND (SOUND_MODE_REVERB_SET OR SOUND_MODE_REVERB_VAL) = ucast r"
    "ucast ((ucast r :: u32) AND SOUND_MODE_REVERB_VAL) = r AND 0x7F"
proof -
  have *: "(ucast r :: u32) = ucast r AND 0xFF"
  proof -
    have "(ucast r :: u32) = take_bit 8 (ucast r)" by (rule bit_word_eqI) (auto simp: bit_simps dest: bit_imp_le_length)
    then show ?thesis by (simp add: take_bit_eq_mask mask_numeral)
  qed
  have zero: "(ucast r :: u32) AND k = 0" if "0xFF AND k = 0" for k
    by (subst *) (simp only: and.assoc that and_zero_eq)
  show "(ucast r :: u32) AND SOUND_MODE_MAXCHN = 0" "(ucast r :: u32) AND SOUND_MODE_MASVOL = 0"
    "(ucast r :: u32) AND SOUND_MODE_DA_BIT = 0" "(ucast r :: u32) AND SOUND_MODE_FREQ = 0"
    by (rule zero, simp add: m4a_consts)+
  show "(ucast r :: u32) AND (SOUND_MODE_REVERB_SET OR SOUND_MODE_REVERB_VAL) = ucast r"
    by (simp add: m4a_consts flip: *)
  have "ucast ((ucast r :: u32) AND ucast (0x7F :: u8)) = r AND 0x7F"
    by (rule bit_word_eqI) (simp add: bit_simps)
  then show "ucast ((ucast r :: u32) AND SOUND_MODE_REVERB_VAL) = r AND 0x7F"
    by (simp add: m4a_consts)
qed

lemma ucast_u8_u32_0: "(ucast (r :: u8) :: u32) = 0 \<longleftrightarrow> r = 0"
  by transfer simp

lemma si_ident_same: "si_ident i = v \<Longrightarrow> i\<lparr>si_ident := v\<rparr> = i"
  by simp

lemma ident_same: "ident p = v \<Longrightarrow> p\<lparr>ident := v\<rparr> = p"
  by simp

text \<open>A song header's reverb byte only sets the reverb: the other fields of the mode are zero.\<close>

lemma m4aSoundMode_reverb:
  "m4aSoundMode env (ucast (r :: u8)) s =
     Some (if si_ident (soundInfo s) = ID_NUMBER \<and> r \<noteq> 0
           then upd_sound (SOUND_INFO_PTR s) (\<lambda>i. i\<lparr>si_reverb := r AND 0x7F\<rparr>) s else s)"
  by (simp add: m4aSoundMode_def Let_def reverb_masks ucast_u8_u32_0 soundInfo_def upd_sound_def si_ident_same)

text \<open>The two loops with which a song takes over the tracks of a player.\<close>

lemma take_tracks_effect:
  assumes "m \<le> n" "n \<le> 256" "\<forall>i<n. finite_chain s (track_at ts i)" "osc_ok s"
  shows "\<exists>s1 s'. foldo (start_track h p ts) [0..<m] s = Some s1 \<and> foldo (retire_track p ts) [m..<n] s1 = Some s'
    \<and> stop_frame s s'
    \<and> (\<forall>i<m. track s' (track_at ts i) = (track s (track_at ts i))
         \<lparr>flags := MPT_FLG_EXIST OR MPT_FLG_START, chan := 0, cmdPtr := sh_part s h i\<rparr>)
    \<and> (\<forall>i. m \<le> i \<and> i < n \<longrightarrow> track s' (track_at ts i) = (unlinked (track s (track_at ts i)))\<lparr>flags := 0\<rparr>)
    \<and> (\<forall>t. (\<forall>i<n. t \<noteq> track_at ts i) \<longrightarrow> track s' t = track s t)
    \<and> stops {c. \<exists>i<n. linked s (track_at ts i) c} s s'
    \<and> (\<forall>i<n. \<forall>c. linked s (track_at ts i) c \<longrightarrow> silent s' c)"
proof -
  obtain s1 where s1: "foldo (start_track h p ts) [0..<m] s = Some s1" "stop_frame s s1"
      "\<forall>i<m. track s1 (track_at ts i) = (unlinked (track s (track_at ts i)))
         \<lparr>flags := MPT_FLG_EXIST OR MPT_FLG_START, chan := 0, cmdPtr := sh_part s h i\<rparr>"
      "\<forall>t. (\<forall>i<m. t \<noteq> track_at ts i) \<longrightarrow> track s1 t = track s t"
      "stops {c. \<exists>i. i < m \<and> linked s (track_at ts i) c} s s1"
      "\<forall>i c. i < m \<and> linked s (track_at ts i) c \<longrightarrow> silent s1 c"
    using start.range_effect [of m 0 s ts h p] assms by auto
  have apart: "\<forall>j<m. track_at ts i \<noteq> track_at ts j" if "m \<le> i" "i < n" for i
    using that assms(1,2) track_at_inj [of i _ ts] by auto
  then have rest: "track s1 (track_at ts i) = track s (track_at ts i)" if "m \<le> i" "i < n" for i
    using that s1(4) by blast
  have nx: "chan_next s1 = chan_next s" using s1(2) by (simp add: stop_frame_def)
  have fin: "\<forall>i. m \<le> i \<and> i < n \<longrightarrow> finite_chain s1 (track_at ts i)"
    using assms(3) rest nx by (simp add: finite_chain_def)
  have link: "linked s1 (track_at ts i) c = linked s (track_at ts i) c" if "m \<le> i" "i < n" for i c
    using rest [OF that] nx by (simp add: linked_def)
  obtain s2 where s2: "foldo (retire_track p ts) [m..<n] s1 = Some s2" "stop_frame s1 s2"
      "\<forall>i. m \<le> i \<and> i < n \<longrightarrow> track s2 (track_at ts i) = (unlinked (track s1 (track_at ts i)))\<lparr>flags := 0\<rparr>"
      "\<forall>t. (\<forall>i. m \<le> i \<and> i < n \<longrightarrow> t \<noteq> track_at ts i) \<longrightarrow> track s2 t = track s1 t"
      "stops {c. \<exists>i. m \<le> i \<and> i < n \<and> linked s1 (track_at ts i) c} s1 s2"
      "\<forall>i c. m \<le> i \<and> i < n \<and> linked s1 (track_at ts i) c \<longrightarrow> silent s2 c"
    using retire.range_effect [of n m s1 ts p, OF assms(2) fin stop_frame_osc [OF s1(2) assms(4)]] by blast
  have keep: "track s2 (track_at ts i) = track s1 (track_at ts i)" if "i < m" for i
    using s2(4) apart that by metis
  have sil: "silent s2 c" if "i < n" "linked s (track_at ts i) c" for i c
    using that s1(6) s2(6) link stop_frame_silent [OF s2(2)] by (meson not_le)
  have unl: "(unlinked t)\<lparr>flags := f, chan := 0, cmdPtr := c\<rparr> = t\<lparr>flags := f, chan := 0, cmdPtr := c\<rparr>" for t f c
    by (simp add: unlinked_def)
  show ?thesis
  proof (rule exI [of _ s1], rule exI [of _ s2], intro conjI)
    show "\<forall>i<m. track s2 (track_at ts i) = (track s (track_at ts i))
         \<lparr>flags := MPT_FLG_EXIST OR MPT_FLG_START, chan := 0, cmdPtr := sh_part s h i\<rparr>"
      using keep s1(3) unl by simp
    show "\<forall>i. m \<le> i \<and> i < n \<longrightarrow> track s2 (track_at ts i) = (unlinked (track s (track_at ts i)))\<lparr>flags := 0\<rparr>"
      using s2(3) rest by simp
    have "{c. \<exists>i. i < m \<and> linked s (track_at ts i) c} \<union> {c. \<exists>i. m \<le> i \<and> i < n \<and> linked s1 (track_at ts i) c}
        = {c. \<exists>i<n. linked s (track_at ts i) c}"
      using link assms(1) by (auto simp: not_le) (meson less_le_trans, meson not_le)
    then show "stops {c. \<exists>i<n. linked s (track_at ts i) c} s s2" using stops_trans [OF s1(2,5) s2(5)] by simp
    show "\<forall>t. (\<forall>i<n. t \<noteq> track_at ts i) \<longrightarrow> track s2 t = track s t"
      using s1(4) s2(4) assms(1) by simp
    show "\<forall>i<n. \<forall>c. linked s (track_at ts i) c \<longrightarrow> silent s2 c" using sil by blast
  qed (use s1 s2 stop_frame_trans in blast)+
qed

lemma MPlayStart_effect:
  assumes "ident (player s p) = ID_NUMBER" "stoppable p s" and may: "may_start p h s"
  shows "\<exists>s'. MPlayStart env p h s = Some s'
      \<and> player s' = (player s)(p := (player s p)\<lparr>status := 0, songHeader := h, p_tone := sh_tone s h,
             priority := sh_priority s h, clock := 0, tempoD := 150, tempoI := 150,
             tempoU := 0x100, tempoC := 0, fadeOI := 0\<rparr>)
      \<and> (\<forall>i<min (unat (sh_trackCount s h)) (n_tracks s p). track s' (track_of s p i) = (track s (track_of s p i))
             \<lparr>flags := MPT_FLG_EXIST OR MPT_FLG_START, chan := 0, cmdPtr := sh_part s h i\<rparr>)
      \<and> (\<forall>i. unat (sh_trackCount s h) \<le> i \<and> i < n_tracks s p \<longrightarrow>
           track s' (track_of s p i) = (unlinked (track s (track_of s p i)))\<lparr>flags := 0\<rparr>)
      \<and> stops (channels_of s p) s s' \<and> (\<forall>c\<in>channels_of s p. silent s' c)
      \<and> SOUND_INFO_PTR s' = SOUND_INFO_PTR s \<and> gMPlayJumpTable s' = gMPlayJumpTable s
      \<and> (\<forall>t. (\<forall>i<n_tracks s p. t \<noteq> track_of s p i) \<longrightarrow> track s' t = track s t)
      \<and> mem s' = mem s
      \<and> (\<forall>a. sound s' a = sound s a
          \<or> a = SOUND_INFO_PTR s \<and> sound s' a = (sound s a)\<lparr>si_reverb := sh_reverb s h AND 0x7F\<rparr>)"
proof -
  let ?n = "n_tracks s p" and ?ts = "tracks (player s p)"
  let ?m = "min (unat (sh_trackCount s h)) ?n"
  let ?P = "\<lambda>p. p\<lparr>status := 0, songHeader := h, p_tone := sh_tone s h,
             priority := sh_priority s h, clock := 0, tempoD := 150, tempoI := 150,
             tempoU := 0x100, tempoC := 0, fadeOI := 0\<rparr>"
  let ?I = "upd_player p (\<lambda>p. p\<lparr>ident := ID_NUMBER\<rparr>)"
  define s0 where "s0 = upd_player p ?P (upd_player p (\<lambda>p. p\<lparr>ident := ident p + 1\<rparr>) s)"
  have eq: "track s0 = track s" "mem s0 = mem s" "sound s0 = sound s" "linked s0 = linked s"
      "sh_part s0 = sh_part s" "SOUND_INFO_PTR s0 = SOUND_INFO_PTR s" "sh_reverb s0 h = sh_reverb s h"
    by (simp_all add: s0_def fun_eq_iff)
  obtain s1 s2 where s2: "foldo (start_track h p ?ts) [0..<?m] s0 = Some s1"
      "foldo (retire_track p ?ts) [?m..<?n] s1 = Some s2" "stop_frame s0 s2"
      "\<forall>i<?m. track s2 (track_at ?ts i) = (track s (track_at ?ts i))
         \<lparr>flags := MPT_FLG_EXIST OR MPT_FLG_START, chan := 0, cmdPtr := sh_part s h i\<rparr>"
      "\<forall>i. ?m \<le> i \<and> i < ?n \<longrightarrow> track s2 (track_at ?ts i) = (unlinked (track s (track_at ?ts i)))\<lparr>flags := 0\<rparr>"
      "\<forall>t. (\<forall>i<?n. t \<noteq> track_at ?ts i) \<longrightarrow> track s2 t = track s t"
      "stops (channels_of s p) s0 s2"
    using take_tracks_effect [of ?m ?n s0 ?ts h p] assms(2) u8_unat_less [of "trackCount (player s p)"] eq
    by (auto simp: stoppable_def s0_def channels_of_def)
  note fr = s2(3) [unfolded stop_frame_def]
  define s3 where "s3 = (if sh_reverb s h AND 0x80 \<noteq> 0 \<and> si_ident (soundInfo s2) = ID_NUMBER \<and> sh_reverb s h \<noteq> 0
    then upd_sound (SOUND_INFO_PTR s2) (\<lambda>i. i\<lparr>si_reverb := sh_reverb s h AND 0x7F\<rparr>) s2 else s2)"
  have s3: "player s3 = player s2" "track s3 = track s2" "mem s3 = mem s2" "silent s3 = silent s2"
      "stops C x s3 = stops C x s2" "SOUND_INFO_PTR s3 = SOUND_INFO_PTR s2" "gMPlayJumpTable s3 = gMPlayJumpTable s2" for C x
    by (simp_all add: s3_def silent_def fun_eq_iff)
  have "MPlayStart env p h s = Some (?I s3)"
    using assms(1) may s2(1,2) stop_frame_sh(3) [OF s2(3), of h] eq
    by (auto simp: MPlayStart_def Let_def m4aSoundMode_reverb s3_def simp flip: s0_def)
  moreover have "player (?I s3) = (player s)(p := ?P (player s p))"
    using fr assms(1) by (simp add: s3 s0_def ident_same)
  moreover have "\<forall>a. sound (?I s3) a = sound s a
      \<or> a = SOUND_INFO_PTR s \<and> sound (?I s3) a = (sound s a)\<lparr>si_reverb := sh_reverb s h AND 0x7F\<rparr>"
    using fr eq by (simp add: s3_def)
  moreover have "stops C s0 = stops C s" "gMPlayJumpTable s0 = gMPlayJumpTable s" for C by (simp_all add: s0_def fun_eq_iff)
  ultimately show ?thesis using s2(4-7) stops_silent [OF s2(7)] fr eq by (intro exI [of _ "?I s3"]) (simp add: s3)
qed

text \<open>C14. A song starts on an unlocked player that may be taken, whose channel chains are finite:
  the call returns, the player is set to the song at normal tempo with any fade cancelled,
  the tracks the song has parts for are ready to start at their parts, the player's other
  tracks are switched off, all channels of the player's former tracks are switched off and free with their tone generators, no other
  player, track or channel, no memory cell and no other register changes, and the mixer at most gets the song's reverb. A protected player that is
  playing something of higher priority keeps it: the call changes nothing.\<close>

theorem MPlayStart_takes_over:
  assumes "ident (player s p) = ID_NUMBER" "stoppable p s"
  shows "(unk_B (player s p) \<noteq> 0 \<and> status (player s p) AND MUSICPLAYER_STATUS_TRACK \<noteq> 0
      \<and> status (player s p) AND MUSICPLAYER_STATUS_PAUSE = 0 \<and> sh_priority s h < priority (player s p)
      \<longrightarrow> MPlayStart env p h s = Some s)
    \<and> (may_start p h s \<longrightarrow> (\<exists>s'. MPlayStart env p h s = Some s'
      \<and> player s' = (player s)(p := (player s p)\<lparr>status := 0, songHeader := h, p_tone := sh_tone s h,
             priority := sh_priority s h, clock := 0, tempoD := 150, tempoI := 150,
             tempoU := 0x100, tempoC := 0, fadeOI := 0\<rparr>)
      \<and> (\<forall>i<min (unat (sh_trackCount s h)) (n_tracks s p). track s' (track_of s p i) = (track s (track_of s p i))
             \<lparr>flags := MPT_FLG_EXIST OR MPT_FLG_START, chan := 0, cmdPtr := sh_part s h i\<rparr>)
      \<and> (\<forall>i. unat (sh_trackCount s h) \<le> i \<and> i < n_tracks s p \<longrightarrow>
           track s' (track_of s p i) = (unlinked (track s (track_of s p i)))\<lparr>flags := 0\<rparr>)
      \<and> stops (channels_of s p) s s' \<and> (\<forall>c\<in>channels_of s p. silent s' c)
      \<and> SOUND_INFO_PTR s' = SOUND_INFO_PTR s \<and> gMPlayJumpTable s' = gMPlayJumpTable s
      \<and> (\<forall>t. (\<forall>i<n_tracks s p. t \<noteq> track_of s p i) \<longrightarrow> track s' t = track s t)
      \<and> mem s' = mem s
      \<and> (\<forall>a. sound s' a = sound s a
          \<or> a = SOUND_INFO_PTR s \<and> sound s' a = (sound s a)\<lparr>si_reverb := sh_reverb s h AND 0x7F\<rparr>)))"
proof -
  have "\<not> may_start p h s" if "unk_B (player s p) \<noteq> 0 \<and> status (player s p) AND MUSICPLAYER_STATUS_TRACK \<noteq> 0
      \<and> status (player s p) AND MUSICPLAYER_STATUS_PAUSE = 0 \<and> sh_priority s h < priority (player s p)"
    using that by (auto simp: may_start_def)
  then show ?thesis using MPlayStart_effect [OF assms] by (simp add: MPlayStart_def)
qed

text \<open>A state for examples: a player with two tracks, the first of which exists and drives two linked
  channels, the second one of the tone generators.\<close>

definition demo_state :: m4a where
  "demo_state = \<lparr>
     player = (\<lambda>_. zero_MusicPlayerInfo)(0x1000 := zero_MusicPlayerInfo
        \<lparr>trackCount := 2, tracks := 0x2000, ident := ID_NUMBER, memAccArea := 0x7000\<rparr>),
     track = (\<lambda>_. clear_track_64 undefined\<lparr>cmdPtr := 0, patternStack := [0, 0, 0]\<rparr>)(0x2000 :=
        clear_track_64 undefined\<lparr>flags := 0x80, chan := 0x3000, vol := 100, volX := 64,
          cmdPtr := 0x5000, patternStack := [0, 0, 0]\<rparr>),
     channel = (\<lambda>_. zero_CgbChannel)(
        0x3000 := zero_CgbChannel\<lparr>sf := 0x80, tp := 0x2000, np := 0x3040\<rparr>,
        0x3040 := zero_CgbChannel\<lparr>sf := 0x80, ty := 1, tp := 0x2000, pp := 0x3000\<rparr>),
     sound = (\<lambda>_. zero_SoundInfo)(0x4000 := zero_SoundInfo\<lparr>si_ident := ID_NUMBER, si_CgbOscOff := F_CgbOscOff\<rparr>),
     SOUND_INFO_PTR = 0x4000,
     gMPlayJumpTable = gMPlayJumpTableTemplate,
     mem = (\<lambda>_. 0)(0x6000 := 1, 0x6009 := 0x50),
     io = []\<rparr>"

text \<open>A console whose scan line counter advances by one with every access, and a game with one
  player and one song.\<close>

definition demo_env :: m4a_env where
  "demo_env = \<lparr>hw = (\<lambda>l a. if a = REG_ADDR_VCOUNT then of_nat (length l mod 228) else 0),
     gSoundInfo = 0x4000, gCgbChans = 0x8000, gMPlayJumpTable_addr = 0x9000,
     gMPlayJumpTableTemplate_addr = 0x8000000, gPokemonCrySong = 0xA000, gPokemonCrySongs = 0xA100,
     gPokemonCryMusicPlayers = 0xB000, gPokemonCryTracks = 0xC000, gMPlayMemAccArea = 0x7000,
     SoundMainRAM = 0x8001001, SoundMainRAM_Buffer = 0xD000, voicegroup000 = 0x8002000,
     gNumMusicPlayers = 1, gMaxLines = 0,
     gMPlayTable = (\<lambda>_. \<lparr>mp_info = 0x1000, mp_track = 0x2000, mp_unk_8 = 2, mp_unk_A = 0\<rparr>),
     gSongTable = (\<lambda>_. \<lparr>sg_header = 0x6000, sg_ms = 0, sg_me = 0\<rparr>),
     SoundMain = (\<lambda>s. s), swi_2A = (\<lambda>s. s)\<rparr>"

lemma demo_player:
  "player demo_state 0x1000 = zero_MusicPlayerInfo
     \<lparr>trackCount := 2, tracks := 0x2000, ident := ID_NUMBER, memAccArea := 0x7000\<rparr>"
  by (simp add: demo_state_def)

lemma demo_tracks: "track_of demo_state 0x1000 0 = 0x2000" "track_of demo_state 0x1000 (Suc 0) = 0x2050"
  by (simp_all add: demo_player track_at_def)

lemma demo_chain: "chain (chan_next demo_state) 0x3000 [0x3000, 0x3040]"
  by (simp add: chan_next_def demo_state_def zero_CgbChannel_def)

lemma demo_stoppable: "stoppable 0x1000 demo_state"
proof -
  have "finite_chain demo_state 0x2000"
    using demo_chain unfolding finite_chain_def by (auto simp: demo_state_def intro!: exI [of _ "[0x3000, 0x3040]"])
  moreover have "finite_chain demo_state 0x2050"
    unfolding finite_chain_def by (rule exI [of _ "[]"]) (simp add: demo_state_def clear_track_64_def)
  ultimately have "\<forall>i<2. finite_chain demo_state (track_of demo_state 0x1000 i)"
    by (simp add: numeral_2_eq_2 All_less_Suc demo_tracks)
  then show ?thesis
    by (simp add: stoppable_def osc_ok_def soundInfo_def demo_player) (simp add: demo_state_def)
qed

lemma demo_linked: "linked demo_state (track_of demo_state 0x1000 0) 0x3040"
  using demo_chain unfolding linked_def demo_tracks
  by (auto simp: demo_state_def exists_flag_def MPT_FLG_EXIST_def intro!: exI [of _ "[0x3000, 0x3040]"])

lemma demo_channel: "0x3040 \<in> channels_of demo_state 0x1000"
proof -
  have "0 < n_tracks demo_state 0x1000" by (simp add: demo_player)
  then show ?thesis unfolding channels_of_def using demo_linked by blast
qed

theorem m4aMPlayStop_silences_witness:
  "\<exists>s'. m4aMPlayStop 0x1000 demo_state = Some s' \<and> status (player s' 0x1000) = MUSICPLAYER_STATUS_PAUSE
     \<and> silent s' 0x3040"
  using m4aMPlayStop_silences [of demo_state "0x1000", OF _ demo_stoppable] demo_channel
  by (fastforce simp: demo_player zero_MusicPlayerInfo_def)

theorem MPlayStart_takes_over_witness:
  "\<exists>s'. MPlayStart demo_env 0x1000 0x6000 demo_state = Some s' \<and> songHeader (player s' 0x1000) = 0x6000
     \<and> cmdPtr (track s' 0x2000) = 0x5000 \<and> silent s' 0x3040"
proof -
  have h: "sh_trackCount demo_state 0x6000 = 1" "sh_part demo_state 0x6000 0 = 0x5000"
    by (simp_all add: sh_trackCount_def sh_part_def ld32_def demo_state_def)
  have id: "ident (player demo_state 0x1000) = ID_NUMBER" by (simp add: demo_player)
  have "may_start 0x1000 0x6000 demo_state"
    by (simp add: may_start_def demo_player zero_MusicPlayerInfo_def)
  then obtain s' where s': "MPlayStart demo_env 0x1000 0x6000 demo_state = Some s'"
      "songHeader (player s' 0x1000) = 0x6000"
      "\<forall>i<min (unat (sh_trackCount demo_state 0x6000)) (n_tracks demo_state 0x1000).
         cmdPtr (track s' (track_of demo_state 0x1000 i)) = sh_part demo_state 0x6000 i"
      "\<forall>c\<in>channels_of demo_state 0x1000. silent s' c"
    using MPlayStart_takes_over [of demo_state "0x1000" "0x6000" demo_env, OF id demo_stoppable] by auto
  then have "cmdPtr (track s' 0x2000) = 0x5000"
    using s'(3) [rule_format, of 0] h demo_tracks(1) by (simp add: demo_player)
  moreover have "silent s' 0x3040" using s'(4) demo_channel by blast
  ultimately show ?thesis using s' by blast
qed

section \<open>The lock of a player\<close>

lemma stop_channel_player: "stop_channel c s = Some s' \<Longrightarrow> player s' = player s"
  by (auto simp: stop_channel_def call_CgbOscOff_def CgbOscOff_def bind_eq_Some_conv split: if_splits)

lemma stop_chain_player: "stop_chain c s = Some s' \<Longrightarrow> player s' = player s"
proof (induction rule: stop_chain.raw_induct [rotated 1, consumes 1])
  case (1 f c s s')
  then obtain s1 where s1: "stop_channel c s = Some s1"
      "(if np (channel s1 c) \<noteq> 0 then f (np (channel s1 c)) s1 else Some s1) = Some s'"
    by (auto simp: stop_channel_def Let_def bind_eq_Some_conv)
  from stop_channel_player [OF s1(1)] s1(2) 1(1) show ?case by (auto split: if_splits)
qed

lemma TrackStop_player: "TrackStop p t s = Some s' \<Longrightarrow> player s' = player s"
  by (auto simp: TrackStop_def bind_eq_Some_conv split: if_splits dest: stop_chain_player)

lemma foldo_player:
  assumes "\<And>x s s'. f x s = Some s' \<Longrightarrow> player s' = player s"
  shows "foldo f xs s = Some s' \<Longrightarrow> player s' = player s"
  by (induction xs arbitrary: s) (auto simp: bind_eq_Some_conv dest: assms)

lemma track_loops_player:
  "foldo (\<lambda>i. TrackStop p (track_at ts i)) is s = Some s' \<Longrightarrow> player s' = player s"
  "foldo (start_track h p ts) is s = Some s' \<Longrightarrow> player s' = player s"
  "foldo (retire_track p ts) is s = Some s' \<Longrightarrow> player s' = player s"
  by (erule foldo_player [rotated 1]; auto simp: start_track_def retire_track_def Let_def bind_eq_Some_conv
      dest: TrackStop_player)+

lemma control_loop_player: "player (fold (control_track f ts b) is s) = player s"
  by (rule fold_keeps) (simp add: control_track_def)

lemma player_m4aSoundMode_reverb:
  "m4aSoundMode env (ucast (r :: u8)) s = Some s' \<Longrightarrow> player s' = player s"
  by (auto simp: m4aSoundMode_reverb split: if_splits)

text \<open>The requests a game makes of a player.\<close>

datatype player_call =
    Continue | Fade_Out u16 | Fade_Out_Temporarily u16 | Fade_In u16 | Tempo u16
  | Volume u16 u16 | Pitch u16 s16 | Panpot u16 s8 | Mod_Depth u16 u8 | LFO_Speed u16 u8
  | Stop | Start u32

fun do_call :: "m4a_env \<Rightarrow> player_call \<Rightarrow> u32 \<Rightarrow> m4a \<Rightarrow> m4a option" where
  "do_call env Continue p s = Some (m4aMPlayContinue p s)"
| "do_call env (Fade_Out v) p s = Some (m4aMPlayFadeOut p v s)"
| "do_call env (Fade_Out_Temporarily v) p s = Some (m4aMPlayFadeOutTemporarily p v s)"
| "do_call env (Fade_In v) p s = Some (m4aMPlayFadeIn p v s)"
| "do_call env (Tempo v) p s = Some (m4aMPlayTempoControl p v s)"
| "do_call env (Volume b v) p s = Some (m4aMPlayVolumeControl p b v s)"
| "do_call env (Pitch b v) p s = Some (m4aMPlayPitchControl p b v s)"
| "do_call env (Panpot b v) p s = Some (m4aMPlayPanpotControl p b v s)"
| "do_call env (Mod_Depth b v) p s = Some (m4aMPlayModDepthSet p b v s)"
| "do_call env (LFO_Speed b v) p s = Some (m4aMPlayLFOSpeedSet p b v s)"
| "do_call env Stop p s = m4aMPlayStop p s"
| "do_call env (Start h) p s = MPlayStart env p h s"

lemmas call_defs =
  m4aMPlayContinue_def MPlayContinue_def m4aMPlayFadeOut_def MPlayFadeOut_def
  m4aMPlayFadeOutTemporarily_def m4aMPlayFadeIn_def m4aMPlayTempoControl_def
  m4aMPlayVolumeControl_def m4aMPlayPitchControl_def m4aMPlayPanpotControl_def
  m4aMPlayModDepthSet_def m4aMPlayLFOSpeedSet_def control_tracks_def m4aMPlayStop_def MPlayStart_def

text \<open>The contract of an operation under a player's lock: a locked player refuses it, it gives the
  lock back, touches no other player, and leaves the player its tracks.\<close>

locale player_operation =
  fixes op :: "u32 \<Rightarrow> m4a \<Rightarrow> m4a option"
  assumes locked: "ident (player s p) \<noteq> ID_NUMBER \<Longrightarrow> op p s = Some s"
    and unlocks: "ident (player s p) = ID_NUMBER \<Longrightarrow> op p s = Some s' \<Longrightarrow> ident (player s' p) = ID_NUMBER"
    and others: "op p s = Some s' \<Longrightarrow> q \<noteq> p \<Longrightarrow> player s' q = player s q"
    and same_tracks: "op p s = Some s' \<Longrightarrow>
      tracks (player s' p) = tracks (player s p) \<and> trackCount (player s' p) = trackCount (player s p)"
begin

lemma lock_kept:
  assumes "op p s = Some s'"
  shows "ident (player s' q) = ID_NUMBER \<longleftrightarrow> ident (player s q) = ID_NUMBER"
proof (cases "q = p \<and> ident (player s p) = ID_NUMBER")
  case True then show ?thesis using unlocks [of s p s'] assms by simp
next
  case False then show ?thesis using locked others assms by (metis option.inject)
qed

lemma tracks_kept:
  assumes "op p s = Some s'"
  shows "tracks (player s' q) = tracks (player s q) \<and> trackCount (player s' q) = trackCount (player s q)"
  using same_tracks others assms by metis

lemma locked_player_kept:
  assumes "op p s = Some s'" "ident (player s q) \<noteq> ID_NUMBER"
  shows "player s' q = player s q"
  using locked others assms by (metis option.inject)

end

lemma do_call_locked: "ident (player s p) \<noteq> ID_NUMBER \<Longrightarrow> do_call env c p s = Some s"
  by (cases c) (simp_all add: call_defs)

lemma do_call_unlocked:
  assumes "ident (player s p) = ID_NUMBER" "do_call env c p s = Some s'"
  shows "\<exists>f. player s' = (player s)(p := f) \<and> ident f = ID_NUMBER \<and> tracks f = tracks (player s p)
    \<and> trackCount f = trackCount (player s p)"
proof (cases c)
  case Stop
  then obtain s1 where "player s1 = (player s)(p := (player s p)\<lparr>ident := ident (player s p) + 1,
        status := status (player s p) OR MUSICPLAYER_STATUS_PAUSE\<rparr>)"
      "s' = upd_player p (\<lambda>p. p\<lparr>ident := ID_NUMBER\<rparr>) s1"
    using assms by (auto simp: m4aMPlayStop_def Let_def bind_eq_Some_conv dest!: track_loops_player(1))
  then show ?thesis by (intro exI [of _ "player s' p"]) simp
next
  case (Start h)
  show ?thesis
    using assms Start
    by (intro exI [of _ "player s' p"]) (auto simp: MPlayStart_def Let_def bind_eq_Some_conv
        dest!: track_loops_player(2,3) player_m4aSoundMode_reverb split: if_splits)
qed (use assms in \<open>auto simp: call_defs Let_def control_loop_player\<close>)

interpretation call: player_operation "do_call env c" for env c
proof
  fix s s' p q
  show "do_call env c p s = Some s" if "ident (player s p) \<noteq> ID_NUMBER"
    by (rule do_call_locked [OF that])
  show "ident (player s' p) = ID_NUMBER" if "ident (player s p) = ID_NUMBER" "do_call env c p s = Some s'"
    using do_call_unlocked [OF that] by auto
  show "player s' q = player s q" if "do_call env c p s = Some s'" "q \<noteq> p"
    using that do_call_locked [of s p env c] do_call_unlocked [OF _ that(1)] by fastforce
  show "tracks (player s' p) = tracks (player s p) \<and> trackCount (player s' p) = trackCount (player s p)"
    if "do_call env c p s = Some s'"
    using that do_call_locked [of s p env c] do_call_unlocked [OF _ that(1)] by fastforce
qed

text \<open>C16. Whatever sequence of requests a game makes of its players, each player is locked
  afterwards exactly if it was before: a player that is being worked on elsewhere (its lock not
  at its rest value) is not touched by any of them, and none leaves a player locked. Players
  keep their track arrays.\<close>

theorem player_calls_keep_locks:
  assumes "foldo (\<lambda>(p, c). do_call env c p) calls s = Some s'"
  shows "(ident (player s' q) = ID_NUMBER \<longleftrightarrow> ident (player s q) = ID_NUMBER)
    \<and> (ident (player s q) \<noteq> ID_NUMBER \<longrightarrow> player s' q = player s q)
    \<and> tracks (player s' q) = tracks (player s q) \<and> trackCount (player s' q) = trackCount (player s q)
    \<and> (q \<notin> fst ` set calls \<longrightarrow> player s' q = player s q)"
  using assms
proof (induction calls arbitrary: s)
  case Nil then show ?case by simp
next
  case (Cons x xs)
  obtain p c where x: "x = (p, c)" by (cases x)
  then obtain s1 where s1: "do_call env c p s = Some s1" "foldo (\<lambda>(p, c). do_call env c p) xs s1 = Some s'"
    using Cons.prems by (auto simp: bind_eq_Some_conv)
  show ?case
    using Cons.IH [OF s1(2)] call.lock_kept [OF s1(1), of q] call.tracks_kept [OF s1(1), of q]
      call.locked_player_kept [OF s1(1), of q] call.others [OF s1(1), of q] x by auto
qed

theorem player_calls_keep_locks_witness:
  "\<exists>s'. foldo (\<lambda>(p, c). do_call demo_env c p) [(0x1000, Tempo 128), (0x1040, Fade_Out 4)] demo_state = Some s'
     \<and> ident (player s' 0x1000) = ID_NUMBER \<and> player s' 0x1040 = player demo_state 0x1040"
proof -
  obtain s' where s': "foldo (\<lambda>(p, c). do_call demo_env c p) [(0x1000, Tempo 128), (0x1040, Fade_Out 4)] demo_state = Some s'"
    by simp
  have "ident (player demo_state 0x1040) \<noteq> ID_NUMBER"
    by (simp add: demo_state_def zero_MusicPlayerInfo_def ID_NUMBER_def)
  then show ?thesis
    using s' player_calls_keep_locks [OF s', of "0x1000"] player_calls_keep_locks [OF s', of "0x1040"]
    by (simp add: demo_player)
qed

section \<open>Fading\<close>

text \<open>\<open>n\<close> calls of an operation one after the other.\<close>

fun iter :: "nat \<Rightarrow> ('s \<Rightarrow> 's option) \<Rightarrow> 's \<Rightarrow> 's option" where
  "iter 0 f s = Some s"
| "iter (Suc n) f s = do { s \<leftarrow> f s; iter n f s }"

lemma iter_add: "iter (m + n) f s = do { s \<leftarrow> iter m f s; iter n f s }"
  by (induction m arbitrary: s) (auto split: Option.bind_split)

lemma iter_0_fun [simp]: "iter 0 f = Some"
  by (rule ext) simp

definition set_fade :: "u32 \<Rightarrow> u16 \<Rightarrow> u16 \<Rightarrow> m4a \<Rightarrow> m4a" where
  "set_fade p oc ov s = upd_player p (\<lambda>p. p\<lparr>fadeOC := oc, fadeOV := ov\<rparr>) s"

definition fade_all :: "u32 \<Rightarrow> m4a \<Rightarrow> m4a" where
  "fade_all p s = fold (\<lambda>i. fade_track p (track_of s p i)) [0..<n_tracks s p] s"

lemma set_fade_player [simp]:
  "player (set_fade p oc ov s) = (player s)(p := (player s p)\<lparr>fadeOC := oc, fadeOV := ov\<rparr>)"
  by (simp add: set_fade_def)

lemma set_fade_frame [simp]:
  "track (set_fade p oc ov s) = track s" "channel (set_fade p oc ov s) = channel s"
  "sound (set_fade p oc ov s) = sound s" "SOUND_INFO_PTR (set_fade p oc ov s) = SOUND_INFO_PTR s"
  "set_fade p oc ov (set_fade p oc' ov' s) = set_fade p oc ov s"
  by (simp_all add: set_fade_def upd_player_def)

lemma fade_waits:
  assumes "fadeOI (player s p) \<noteq> 0" "fadeOC (player s p) \<noteq> 1"
  shows "FadeOutBody p s = Some (set_fade p (fadeOC (player s p) - 1) (fadeOV (player s p)) s)"
  using assms by (simp add: FadeOutBody_def Let_def set_fade_def upd_player_def)

lemma fade_ticks:
  assumes "fadeOI (player s p) \<noteq> 0" "fadeOC (player s p) = 1" "fadeOV (player s p) AND FADE_IN = 0"
    "0 < sint (fadeOV (player s p) - 16)"
  shows "FadeOutBody p s = Some (fade_all p (set_fade p (fadeOI (player s p)) (fadeOV (player s p) - 16) s))"
  using assms by (simp add: FadeOutBody_def Let_def set_fade_def fade_all_def upd_player_def)

lemma fade_ends:
  assumes "fadeOI (player s p) \<noteq> 0" "fadeOC (player s p) = 1" "fadeOV (player s p) AND FADE_IN = 0"
    "sint (fadeOV (player s p) - 16) \<le> 0" "stoppable p s"
  shows "\<exists>s'. FadeOutBody p s = Some s' \<and> fadeOI (player s' p) = 0
    \<and> status (player s' p) = (if (fadeOV (player s p) - 16) AND TEMPORARY_FADE = 0 then MUSICPLAYER_STATUS_PAUSE
         else status (player s p) OR MUSICPLAYER_STATUS_PAUSE)
    \<and> (\<forall>i<n_tracks s p. flags (track s' (track_of s p i)) =
         (if (fadeOV (player s p) - 16) AND TEMPORARY_FADE = 0 then 0 else flags (track s (track_of s p i)))
        \<and> (\<forall>c. linked s (track_of s p i) c \<longrightarrow> silent s' c))"
proof -
  define s0 where "s0 = set_fade p (fadeOI (player s p)) (fadeOV (player s p) - 16) s"
  have ok: "osc_ok s0" "\<forall>i<n_tracks s p. finite_chain s0 (track_of s p i)" "linked s0 = linked s"
    using assms(5) by (simp_all add: s0_def set_fade_def stoppable_def fun_eq_iff)
  obtain s1 where s1: "foldo (fade_end_track p (tracks (player s p))) [0..<n_tracks s p] s0 = Some s1"
      "stop_frame s0 s1"
      "\<forall>i<n_tracks s p. track s1 (track_of s p i) = fade_end_change p i s0 (unlinked (track s (track_of s p i)))"
      "\<forall>i c. i < n_tracks s p \<and> linked s (track_of s p i) c \<longrightarrow> silent s1 c"
    using fade_end.range_effect [of "n_tracks s p" 0 s0 "tracks (player s p)" p]
      u8_unat_less [of "trackCount (player s p)"] ok by (auto simp: s0_def)
  have p1: "player s1 = player s0" using s1(2) by (simp add: stop_frame_def)
  have pl: "fadeOV (player s0 p) = fadeOV (player s p) - 16" "status (player s0 p) = status (player s p)"
    by (simp_all add: s0_def)
  have "FadeOutBody p s = Some (upd_player p (\<lambda>p. p\<lparr>fadeOI := 0\<rparr>)
      (if (fadeOV (player s p) - 16) AND TEMPORARY_FADE = 0
       then upd_player p (\<lambda>p. p\<lparr>status := MUSICPLAYER_STATUS_PAUSE\<rparr>) s1
       else upd_player p (\<lambda>p. p\<lparr>status := status p OR MUSICPLAYER_STATUS_PAUSE\<rparr>) s1))"
    using assms(1-4) s1(1) p1 pl
    by (simp add: FadeOutBody_def Let_def upd_player_def s0_def set_fade_def)
  moreover have "flags (unlinked t) = flags t" for t by (simp add: unlinked_def)
  ultimately show ?thesis using s1(3,4) p1 pl by (simp add: fade_end_change_def)
qed

text \<open>A period of the fade: as many calls as the speed says, of which the last changes the volume.\<close>

lemma fade_countdown:
  assumes "fadeOI (player s p) \<noteq> 0" "n < unat (fadeOC (player s p))"
  shows "iter n (FadeOutBody p) s = Some (set_fade p (fadeOC (player s p) - of_nat n) (fadeOV (player s p)) s)"
  using assms
proof (induction n arbitrary: s)
  case 0 then show ?case by (simp add: set_fade_def upd_player_def)
next
  case (Suc n)
  let ?c = "fadeOC (player s p)"
  let ?s = "set_fade p (?c - 1) (fadeOV (player s p)) s"
  have "unat (?c - 1) = unat ?c - 1" using Suc.prems by (simp add: unat_sub_if')
  then have "iter n (FadeOutBody p) ?s = Some (set_fade p (?c - 1 - of_nat n) (fadeOV (player s p)) ?s)"
    using Suc.IH [of ?s] Suc.prems by simp
  moreover have "?c \<noteq> 1" using Suc.prems by auto
  ultimately show ?case using Suc.prems fade_waits [of s p] by (simp add: diff_diff_eq)
qed

lemma fade_period:
  assumes "fadeOI (player s p) = v" "fadeOC (player s p) = v" "v \<noteq> 0"
  shows "iter (unat v) (FadeOutBody p) s = FadeOutBody p (set_fade p 1 (fadeOV (player s p)) s)"
proof -
  have u: "0 < unat v" using assms(3) by (simp add: unat_gt_0)
  then have "unat v = (unat v - 1) + 1" by simp
  moreover have "of_nat (unat v - 1) = v - 1" using u by (simp add: of_nat_diff)
  moreover have "iter (unat v - 1) (FadeOutBody p) s
      = Some (set_fade p (v - of_nat (unat v - 1)) (fadeOV (player s p)) s)"
    using fade_countdown [of s p "unat v - 1"] assms u by simp
  ultimately show ?thesis using iter_add [of "unat v - 1" 1 "FadeOutBody p" s] by simp
qed

text \<open>What a fade leaves alone while it runs: \<open>fading p s s'\<close> holds of states that differ in the
  fade counters of the player and in the volume of tracks.\<close>

definition fading :: "u32 \<Rightarrow> m4a \<Rightarrow> m4a \<Rightarrow> bool" where
  "fading p s s' \<longleftrightarrow> (\<exists>oc ov. player s' = (player s)(p := (player s p)\<lparr>fadeOC := oc, fadeOV := ov\<rparr>))
     \<and> channel s' = channel s \<and> sound s' = sound s \<and> SOUND_INFO_PTR s' = SOUND_INFO_PTR s
     \<and> (\<forall>t. chan (track s' t) = chan (track s t) \<and> exists_flag (track s' t) = exists_flag (track s t))"

lemma fading_refl: "fading p s s"
proof -
  have "player s = (player s)(p := (player s p)\<lparr>fadeOC := fadeOC (player s p), fadeOV := fadeOV (player s p)\<rparr>)"
    by simp
  then show ?thesis unfolding fading_def by blast
qed

lemma fading_trans:
  assumes "fading p s t" "fading p t u" shows "fading p s u"
proof -
  obtain oc ov oc' ov' where "player t = (player s)(p := (player s p)\<lparr>fadeOC := oc, fadeOV := ov\<rparr>)"
      "player u = (player t)(p := (player t p)\<lparr>fadeOC := oc', fadeOV := ov'\<rparr>)"
    using assms by (auto simp: fading_def)
  then have "player u = (player s)(p := (player s p)\<lparr>fadeOC := oc', fadeOV := ov'\<rparr>)" by simp
  then show ?thesis using assms by (auto simp: fading_def)
qed

lemma fading_set_fade: "fading p s (set_fade p oc ov s)"
  by (auto simp: fading_def)

lemma fading_keeps:
  assumes "fading p s s'"
  shows "fadeOI (player s' p) = fadeOI (player s p)" "status (player s' p) = status (player s p)"
    "tracks (player s' p) = tracks (player s p)" "trackCount (player s' p) = trackCount (player s p)"
    "linked s' t c = linked s t c" "stoppable p s' = stoppable p s"
proof -
  obtain oc ov where p: "player s' = (player s)(p := (player s p)\<lparr>fadeOC := oc, fadeOV := ov\<rparr>)"
    using assms by (auto simp: fading_def)
  have nx: "chan_next s' = chan_next s" using assms by (simp add: fading_def chan_next_def fun_eq_iff)
  have "finite_chain s' t = finite_chain s t" for t using assms nx by (simp add: fading_def finite_chain_def)
  moreover have "osc_ok s' = osc_ok s" using assms by (simp add: fading_def osc_ok_def soundInfo_def)
  ultimately show "stoppable p s' = stoppable p s" by (simp add: stoppable_def p)
  show "linked s' t c = linked s t c" using assms nx by (simp add: fading_def linked_def)
qed (use assms in \<open>auto simp: fading_def\<close>)

lemma exists_flag_VOLCHG: "exists_flag (t\<lparr>flags := flags t OR MPT_FLG_VOLCHG\<rparr>) = exists_flag t"
  by (simp add: exists_flag_def mpt_flags bit.conj_disj_distrib2)

lemma fade_track_fading: "fading p s (fade_track p t s)"
proof -
  have "exists_flag (x\<lparr>volX := v, flags := flags x OR MPT_FLG_VOLCHG\<rparr>) = exists_flag x" for x v
    using exists_flag_VOLCHG [of "x\<lparr>volX := v\<rparr>"] by (simp add: exists_flag_def)
  then show ?thesis using fading_refl [of p s] by (auto simp: fade_track_def fading_def)
qed

lemma fade_track_player [simp]: "player (fade_track p t s) = player s"
  by (simp add: fade_track_def)

lemma fold_fading:
  assumes "\<And>i s. fading p s (f i s)" shows "fading p s (fold f xs s)"
  by (induction xs arbitrary: s) (auto intro: fading_refl fading_trans assms)

lemma fade_all_fading: "fading p s (fade_all p s)" "player (fade_all p s) = player s"
  by (simp_all add: fade_all_def fold_fading fade_track_fading fold_keeps)

text \<open>After \<open>j\<close> periods of a fade-out from volume \<open>v\<close>.\<close>

lemma fade_periods:
  assumes "fadeOI (player s p) = c" "fadeOC (player s p) = c" "c \<noteq> 0"
    "\<forall>i<j. (fadeOV (player s p) - 16 * of_nat i) AND FADE_IN = 0 \<and> 0 < sint (fadeOV (player s p) - 16 * of_nat (Suc i))"
  shows "\<exists>s'. iter (j * unat c) (FadeOutBody p) s = Some s' \<and> fading p s s'
    \<and> fadeOC (player s' p) = c \<and> fadeOV (player s' p) = fadeOV (player s p) - 16 * of_nat j"
  using assms(4)
proof (induction j)
  case 0 then show ?case using fading_refl assms(2) by simp
next
  case (Suc j)
  let ?v = "fadeOV (player s p)"
  obtain s1 where s1: "iter (j * unat c) (FadeOutBody p) s = Some s1" "fading p s s1"
      "fadeOC (player s1 p) = c" "fadeOV (player s1 p) = ?v - 16 * of_nat j"
    using Suc by auto
  let ?s1 = "set_fade p 1 (?v - 16 * of_nat j) s1"
  let ?s2 = "set_fade p c (?v - 16 * of_nat (Suc j)) s1"
  have oi: "fadeOI (player s1 p) = c" using fading_keeps(1) [OF s1(2)] assms(1) by simp
  have eq: "?v - 16 * of_nat j - 16 = ?v - 16 * of_nat (Suc j)" by (simp add: algebra_simps)
  have "iter (unat c) (FadeOutBody p) s1 = FadeOutBody p ?s1"
    using fade_period [OF oi s1(3) assms(3)] s1(4) by simp
  also have "\<dots> = Some (fade_all p ?s2)"
    using fade_ticks [of ?s1 p] Suc.prems oi assms(3) eq by simp
  finally have "iter (Suc j * unat c) (FadeOutBody p) s = Some (fade_all p ?s2)"
    using s1(1) iter_add [of "j * unat c" "unat c" "FadeOutBody p" s] by (simp add: add.commute)
  moreover have "fading p s (fade_all p ?s2)"
    by (rule fading_trans [OF fading_trans [OF s1(2) fading_set_fade] fade_all_fading(1)])
  ultimately show ?case by (simp add: fade_all_fading(2))
qed

lemma fade_out_from:
  assumes "fadeOI (player s p) = c" "fadeOC (player s p) = c" "c \<noteq> 0" "stoppable p s"
    and v: "fadeOV (player s p) = v"
    and run: "\<forall>i<m. (v - 16 * of_nat i) AND FADE_IN = 0 \<and> 0 < sint (v - 16 * of_nat (Suc i))"
    and last: "(v - 16 * of_nat m) AND FADE_IN = 0" "sint (v - 16 * of_nat (Suc m)) \<le> 0"
  shows "\<exists>s1 s'. iter (m * unat c) (FadeOutBody p) s = Some s1 \<and> fadeOI (player s1 p) = c
    \<and> fadeOV (player s1 p) = v - 16 * of_nat m
    \<and> iter (Suc m * unat c) (FadeOutBody p) s = Some s' \<and> fadeOI (player s' p) = 0
    \<and> status (player s' p) = (if (v - 16 * of_nat (Suc m)) AND TEMPORARY_FADE = 0 then MUSICPLAYER_STATUS_PAUSE
         else status (player s p) OR MUSICPLAYER_STATUS_PAUSE)
    \<and> (\<forall>i<n_tracks s p. ((v - 16 * of_nat (Suc m)) AND TEMPORARY_FADE = 0 \<longrightarrow> flags (track s' (track_of s p i)) = 0)
        \<and> (\<forall>c. linked s (track_of s p i) c \<longrightarrow> silent s' c))"
proof -
  obtain s1 where s1: "iter (m * unat c) (FadeOutBody p) s = Some s1" "fading p s s1"
      "fadeOC (player s1 p) = c" "fadeOV (player s1 p) = v - 16 * of_nat m"
    using fade_periods [OF assms(1-3), of m] run v by auto
  note k = fading_keeps [OF s1(2)]
  let ?s1 = "set_fade p 1 (v - 16 * of_nat m) s1"
  have eq: "v - 16 * of_nat m - 16 = v - 16 * of_nat (Suc m)" by (simp add: algebra_simps)
  have st: "stoppable p ?s1" "linked ?s1 = linked s"
    using fading_keeps(5,6) [OF fading_trans [OF s1(2) fading_set_fade]] assms(4) by (auto simp: fun_eq_iff)
  obtain s' where s': "FadeOutBody p ?s1 = Some s'" "fadeOI (player s' p) = 0"
      "status (player s' p) = (if (v - 16 * of_nat (Suc m)) AND TEMPORARY_FADE = 0 then MUSICPLAYER_STATUS_PAUSE
         else status (player s p) OR MUSICPLAYER_STATUS_PAUSE)"
      "\<forall>i<n_tracks s p. flags (track s' (track_of s p i)) =
         (if (v - 16 * of_nat (Suc m)) AND TEMPORARY_FADE = 0 then 0 else flags (track s1 (track_of s p i)))
        \<and> (\<forall>c. linked s (track_of s p i) c \<longrightarrow> silent s' c)"
    using fade_ends [of ?s1 p] assms(1,3) k last eq st by auto
  have "iter (Suc m * unat c) (FadeOutBody p) s = Some s'"
    using s1(1) s'(1) fade_period [of s1 p c] k(1) assms(1,3) s1(3,4) iter_add [of "m * unat c" "unat c" "FadeOutBody p" s]
    by (simp add: add.commute)
  then show ?thesis using s1 s' k(1) assms(1) by auto
qed

lemma fade_out_numbers:
  "\<forall>i<15. (256 - 16 * of_nat i :: u16) AND FADE_IN = 0 \<and> 0 < sint (256 - 16 * of_nat (Suc i) :: u16)"
  "\<forall>i<16. (257 - 16 * of_nat i :: u16) AND FADE_IN = 0 \<and> 0 < sint (257 - 16 * of_nat (Suc i) :: u16)"
proof -
  have "list_all (\<lambda>i. (256 - 16 * of_nat i :: u16) AND 2 = 0 \<and> 0 < sint (256 - 16 * of_nat (Suc i) :: u16)) [0..<15]"
    by code_simp
  then show "\<forall>i<15. (256 - 16 * of_nat i :: u16) AND FADE_IN = 0 \<and> 0 < sint (256 - 16 * of_nat (Suc i) :: u16)"
    by (simp add: list_all_iff FADE_IN_def del: upt_rec_numeral)
  have "list_all (\<lambda>i. (257 - 16 * of_nat i :: u16) AND 2 = 0 \<and> 0 < sint (257 - 16 * of_nat (Suc i) :: u16)) [0..<16]"
    by code_simp
  then show "\<forall>i<16. (257 - 16 * of_nat i :: u16) AND FADE_IN = 0 \<and> 0 < sint (257 - 16 * of_nat (Suc i) :: u16)"
    by (simp add: list_all_iff FADE_IN_def del: upt_rec_numeral)
qed

text \<open>C15. A fade-out ends. Started with a nonzero speed on an unlocked player whose channel chains
  are finite, it is still running after fifteen times that many calls of the per-frame body,
  and after sixteen times as many it is over: the player is paused, its tracks are off and their
  channels silent. A temporary fade-out takes seventeen periods, and pauses the player without
  switching its tracks off.\<close>

theorem fade_out_completes:
  assumes "ident (player s p) = ID_NUMBER" "speed \<noteq> 0" "stoppable p s"
  shows "(\<exists>s1 s'. iter (15 * unat speed) (FadeOutBody p) (m4aMPlayFadeOut p speed s) = Some s1
      \<and> fadeOI (player s1 p) = speed \<and> fadeOV (player s1 p) = 16
      \<and> iter (16 * unat speed) (FadeOutBody p) (m4aMPlayFadeOut p speed s) = Some s'
      \<and> fadeOI (player s' p) = 0 \<and> status (player s' p) = MUSICPLAYER_STATUS_PAUSE
      \<and> (\<forall>i<n_tracks s p. flags (track s' (track_of s p i)) = 0
           \<and> (\<forall>c. linked s (track_of s p i) c \<longrightarrow> silent s' c)))
    \<and> (\<exists>s1 s'. iter (16 * unat speed) (FadeOutBody p) (m4aMPlayFadeOutTemporarily p speed s) = Some s1
      \<and> fadeOI (player s1 p) = speed \<and> fadeOV (player s1 p) = 1
      \<and> iter (17 * unat speed) (FadeOutBody p) (m4aMPlayFadeOutTemporarily p speed s) = Some s'
      \<and> fadeOI (player s' p) = 0
      \<and> status (player s' p) = status (player s p) OR MUSICPLAYER_STATUS_PAUSE
      \<and> (\<forall>i<n_tracks s p. \<forall>c. linked s (track_of s p i) c \<longrightarrow> silent s' c))"
proof (rule conjI)
  let ?a = "m4aMPlayFadeOut p speed s" and ?b = "m4aMPlayFadeOutTemporarily p speed s"
  have a: "player ?a = (player s)(p := (player s p)\<lparr>fadeOC := speed, fadeOI := speed, fadeOV := 256\<rparr>)"
      "stoppable p ?a" "linked ?a = linked s"
    using assms by (simp_all add: m4aMPlayFadeOut_def MPlayFadeOut_def Let_def stoppable_def ident_same fun_eq_iff)
  have b: "player ?b = (player s)(p := (player s p)\<lparr>fadeOC := speed, fadeOI := speed, fadeOV := 257\<rparr>)"
      "stoppable p ?b" "linked ?b = linked s"
    using assms by (simp_all add: m4aMPlayFadeOutTemporarily_def TEMPORARY_FADE_def Let_def stoppable_def ident_same fun_eq_iff)
  show "\<exists>s1 s'. iter (15 * unat speed) (FadeOutBody p) ?a = Some s1
      \<and> fadeOI (player s1 p) = speed \<and> fadeOV (player s1 p) = 16
      \<and> iter (16 * unat speed) (FadeOutBody p) ?a = Some s'
      \<and> fadeOI (player s' p) = 0 \<and> status (player s' p) = MUSICPLAYER_STATUS_PAUSE
      \<and> (\<forall>i<n_tracks s p. flags (track s' (track_of s p i)) = 0
           \<and> (\<forall>c. linked s (track_of s p i) c \<longrightarrow> silent s' c))"
    using fade_out_from [of ?a p speed 256 15] assms(2) a fade_out_numbers(1)
    by (simp add: FADE_IN_def TEMPORARY_FADE_def)
  show "\<exists>s1 s'. iter (16 * unat speed) (FadeOutBody p) ?b = Some s1
      \<and> fadeOI (player s1 p) = speed \<and> fadeOV (player s1 p) = 1
      \<and> iter (17 * unat speed) (FadeOutBody p) ?b = Some s'
      \<and> fadeOI (player s' p) = 0
      \<and> status (player s' p) = status (player s p) OR MUSICPLAYER_STATUS_PAUSE
      \<and> (\<forall>i<n_tracks s p. \<forall>c. linked s (track_of s p i) c \<longrightarrow> silent s' c)"
    using fade_out_from [of ?b p speed 257 16] assms(2) b fade_out_numbers(2)
    by (simp add: FADE_IN_def TEMPORARY_FADE_def)
qed

theorem fade_out_completes_witness:
  "\<exists>s'. iter 64 (FadeOutBody 0x1000) (m4aMPlayFadeOut 0x1000 4 demo_state) = Some s'
     \<and> status (player s' 0x1000) = MUSICPLAYER_STATUS_PAUSE \<and> silent s' 0x3040"
proof -
  have "ident (player demo_state 0x1000) = ID_NUMBER" by (simp add: demo_player)
  then obtain s' where s': "iter 64 (FadeOutBody 0x1000) (m4aMPlayFadeOut 0x1000 4 demo_state) = Some s'"
      "status (player s' 0x1000) = MUSICPLAYER_STATUS_PAUSE"
      "\<forall>i<n_tracks demo_state 0x1000. \<forall>c. linked demo_state (track_of demo_state 0x1000 i) c \<longrightarrow> silent s' c"
    using fade_out_completes [of demo_state "0x1000" 4, OF _ _ demo_stoppable] by auto
  have "silent s' 0x3040"
    by (rule s'(3) [rule_format, OF _ demo_linked]) (simp add: demo_player)
  then show ?thesis using s' by blast
qed

end
