(* ===== verification/M4aCommands.thy ===== *)
theory M4aCommands
  imports M4aCorrect
begin

text \<open>
  The single operations of the music player: which tracks a control request changes and how,
  the volumes and pitches computed for a track, the operands of the extended commands, the
  choice and preparation of a cry, and the set-up of the sample rate.
\<close>

unbundle bit_operations_syntax

section \<open>Control requests\<close>

lemma u16_bit_test: "ucast (b :: u16) AND push_bit i (1 :: u32) \<noteq> 0 \<longleftrightarrow> bit b i"
proof -
  have "ucast b AND push_bit i (1 :: u32) = (if bit (ucast b :: u32) i then push_bit i 1 else 0)"
    by (rule bit_word_eqI) (auto simp: bit_simps)
  moreover have "bit (ucast b :: u32) i \<longleftrightarrow> bit b i" by (auto simp: bit_simps dest: bit_imp_le_length)
  moreover have "push_bit i (1 :: u32) \<noteq> 0" if "bit b i"
  proof -
    have "i < 16" using bit_imp_le_length [OF that] by simp
    then show ?thesis by simp
  qed
  ultimately show ?thesis by auto
qed

text \<open>The tracks a request selects: those of the player that exist and whose bit is set.\<close>

definition selected :: "m4a \<Rightarrow> u32 \<Rightarrow> u16 \<Rightarrow> u32 \<Rightarrow> bool" where
  "selected s p b t \<longleftrightarrow> (\<exists>i<n_tracks s p. t = track_of s p i \<and> bit b i) \<and> exists_flag (track s t)"

lemma control_track_track:
  "track (control_track f ts b i s) = (if bit b i \<and> exists_flag (track s (track_at ts i))
     then (track s)(track_at ts i := f (track s (track_at ts i))) else track s)"
  using u16_bit_test [of b i] by (simp add: control_track_def exists_flag_def)

lemma control_loop_track:
  assumes "n \<le> 256"
  shows "track (fold (control_track f ts b) [0..<n] s) t =
    (if (\<exists>i<n. t = track_at ts i \<and> bit b i) \<and> exists_flag (track s t) then f (track s t) else track s t)"
  using assms
proof (induction n)
  case 0 then show ?case by simp
next
  case (Suc n)
  have fresh: "\<not> (\<exists>i<n. track_at ts n = track_at ts i \<and> bit b i)"
    using Suc.prems by (auto simp: track_at_inj)
  have IH: "track (fold (control_track f ts b) [0..<n] s) t =
      (if (\<exists>i<n. t = track_at ts i \<and> bit b i) \<and> exists_flag (track s t) then f (track s t) else track s t)"
    using Suc by simp
  show ?case
  proof (cases "t = track_at ts n")
    case True
    then have "track (fold (control_track f ts b) [0..<n] s) t = track s t" using IH fresh by simp
    then show ?thesis using True fresh by (auto simp: control_track_track less_Suc_eq)
  next
    case False
    then show ?thesis using IH by (auto simp: control_track_track less_Suc_eq)
  qed
qed

lemma control_tracks_track:
  assumes "ident (player s p) = ID_NUMBER"
  shows "track (control_tracks f p b s) t = (if selected s p b t then f (track s t) else track s t)"
  using assms u8_unat_less [of "trackCount (player s p)"]
  by (auto simp: control_tracks_def Let_def control_loop_track selected_def)

lemma control_tracks_player:
  assumes "ident (player s p) = ID_NUMBER"
  shows "player (control_tracks f p b s) = player s"
  using assms by (simp add: control_tracks_def Let_def control_loop_player ident_same)



section \<open>Volume and pitch\<close>

lemma sint_scast_u8: "sint (scast (x :: s8) :: s32) = sint x"
  by (simp add: sint_up_scast is_up)

lemma uint_ucast_u8: "uint (ucast (x :: u8) :: u32) = uint x"
  by (simp add: uint_up_ucast is_up)

lemma s8_range: "- 128 \<le> sint (x :: s8)" "sint (x :: s8) < 128"
  using sint_ge [of x] sint_lt [of x] by simp_all

text \<open>The panning position and the pitch as integers.\<close>

definition pan_value :: "MusicPlayerTrack \<Rightarrow> int" where
  "pan_value t = max (- 128) (min 127 (2 * sint (t_pan t) + sint (panX t) + (if modT t = 2 then sint (modM t) else 0)))"

definition pitch_value :: "MusicPlayerTrack \<Rightarrow> int" where
  "pitch_value t = 4 * (sint (tune t) + sint (bend t) * uint (bendRange t))
     + 256 * (sint (keyShift t) + sint (keyShiftX t)) + uint (pitX t)
     + (if modT t = 0 then 16 * sint (modM t) else 0)"

lemma pan_position_value: "pan_position t = word_of_int (pan_value t)"
proof -
  let ?y = "2 * sint (t_pan t) + sint (panX t) + (if modT t = 2 then sint (modM t) else 0)"
  let ?w = "2 * scast (t_pan t) + scast (panX t) + (if modT t = 2 then scast (modM t) else 0) :: s32"
  have w: "?w = word_of_int ?y"
    by simp
  have "sint ?w = ?y"
    unfolding w by (rule sint_word_of_int_32) (use s8_range [of "t_pan t"] s8_range [of "panX t"] s8_range [of "modM t"] in auto)
  then have "(?w <s - 128 \<longleftrightarrow> ?y < - 128)" "(127 <s ?w \<longleftrightarrow> 127 < ?y)"
    by (simp_all add: word_sless_alt)
  moreover have "pan_position t = (if ?w <s - 128 then - 128 else if 127 <s ?w then 127 else ?w)"
    by (simp add: pan_position_def Let_def)
  ultimately show ?thesis using w by (simp add: pan_value_def max_def min_def)
qed

lemma pitch_offset_value: "pitch_offset t = word_of_int (pitch_value t)"
  by (simp add: pitch_offset_def Let_def pitch_value_def push_bit_eq_mult algebra_simps)

lemma vol_level_value:
  assumes "modT t \<noteq> 1"
  shows "uint (vol_level t) = uint (vol t) * uint (volX t) div 32"
proof -
  have "uint (vol t) * uint (volX t) < 2 ^ 32"
    using u8_uint_range [of "vol t"] u8_uint_range [of "volX t"] mult_mono [of "uint (vol t)" 256 "uint (volX t)" 256] by simp
  then have "uint (ucast (vol t) * ucast (volX t) :: u32) = uint (vol t) * uint (volX t)"
    using uint_mult_lem [of "ucast (vol t) :: u32" "ucast (volX t)"] by (simp add: uint_ucast_u8)
  then show ?thesis using assms by (simp add: vol_level_def Let_def drop_bit_eq_div uint_div)
qed

lemma volume_byte:
  assumes "0 \<le> a" "a \<le> 255" "uint (x :: u32) \<le> 254"
  shows "uint (ucast (drop_bit 8 (word_of_int a * x)) :: u8) = a * uint x div 256"
proof -
  have le: "a * uint x \<le> 255 * 254" using assms by (intro mult_mono) auto
  have "uint (word_of_int a :: u32) = a" using assms by (simp add: uint_word_of_int_32)
  then have "uint (word_of_int a * x) = a * uint x"
    using uint_mult_lem [of "word_of_int a :: u32" x] le by simp
  moreover have "0 \<le> a * uint x div 256" "a * uint x div 256 < 256"
    using assms le by (simp_all add: pos_imp_zdiv_nonneg_iff)
  ultimately show ?thesis
    by (simp add: drop_bit_eq_div uint_div unsigned_ucast_eq take_bit_int_eq_self)
qed

lemma TrkVolPitSet_track:
  "track (TrkVolPitSet p a s) = (track s)(a :=
     (track s a)\<lparr>
       volMR := (if flags (track s a) AND MPT_FLG_VOLSET \<noteq> 0
         then ucast (drop_bit 8 ((pan_position (track s a) + 128) * vol_level (track s a))) else volMR (track s a)),
       volML := (if flags (track s a) AND MPT_FLG_VOLSET \<noteq> 0
         then ucast (drop_bit 8 ((127 - pan_position (track s a)) * vol_level (track s a))) else volML (track s a)),
       keyM := (if flags (track s a) AND MPT_FLG_PITSET \<noteq> 0
         then ucast (signed_drop_bit 8 (pitch_offset (track s a))) else keyM (track s a)),
       pitM := (if flags (track s a) AND MPT_FLG_PITSET \<noteq> 0 then ucast (pitch_offset (track s a)) else pitM (track s a)),
       flags := flags (track s a) AND NOT (MPT_FLG_PITSET OR MPT_FLG_VOLSET)\<rparr>)"
proof -
  have "pitch_offset (t\<lparr>volMR := x, volML := y\<rparr>) = pitch_offset t" for t x y
    by (simp add: pitch_offset_def Let_def)
  then show ?thesis by (simp add: TrkVolPitSet_def Let_def)
qed

lemma key_and_fine:
  fixes w :: s32
  shows "256 * uint (ucast (signed_drop_bit 8 w) :: u8) + uint (ucast w :: u8) = sint w mod 65536"
proof -
  have low: "uint (ucast (v :: s32) :: u8) = sint v mod 256" for v
  proof -
    have "uint (ucast v :: u8) = take_bit 8 (sint v)"
      by transfer (simp add: take_bit_signed_take_bit)
    then show ?thesis by (simp add: take_bit_eq_mod)
  qed
  then have "uint (ucast (signed_drop_bit 8 w) :: u8) = sint w div 256 mod 256"
    by (simp add: sint_signed_drop_bit_eq drop_bit_eq_div)
  then show ?thesis using low [of w] zmod_zmult2_eq [of 256 "sint w" 256] by simp
qed

lemma pitch_sum_bounds:
  fixes a b c d e m :: int
  assumes "- 128 \<le> a" "a < 128" "- 32768 \<le> b" "b \<le> 32768" "- 128 \<le> c" "c < 128"
    "- 128 \<le> d" "d < 128" "0 \<le> e" "e < 256" "- 2048 \<le> m" "m \<le> 2048"
  shows "- (2 ^ 31) \<le> 4 * (a + b) + 256 * (c + d) + e + m" "4 * (a + b) + 256 * (c + d) + e + m < 2 ^ 31"
  using assms by simp_all

lemma pitch_value_range: "- (2 ^ 31) \<le> pitch_value t" "pitch_value t < 2 ^ 31"
proof -
  have "\<bar>sint (bend t) * uint (bendRange t)\<bar> \<le> 128 * 256"
    unfolding abs_mult using s8_range [of "bend t"] u8_uint_range [of "bendRange t"] by (intro mult_mono) auto
  then have b: "- 32768 \<le> sint (bend t) * uint (bendRange t)" "sint (bend t) * uint (bendRange t) \<le> 32768"
    by simp_all
  have m: "- 2048 \<le> (if modT t = 0 then 16 * sint (modM t) else 0)"
    "(if modT t = 0 then 16 * sint (modM t) else 0) \<le> 2048" using s8_range [of "modM t"] by auto
  show "- (2 ^ 31) \<le> pitch_value t" "pitch_value t < 2 ^ 31"
    unfolding pitch_value_def by (rule pitch_sum_bounds s8_range u8_uint_range b m)+
qed

text \<open>Recomputing a track. With a volume of at most 127, a volume scale of at most 64 and no
  volume modulation, the two channel volumes are the level \<open>vol * volX / 32\<close> shared out by the
  panning position, clamped to its range, without wrapping, and together they do not exceed the
  level. Key and fine pitch are the high and low byte of the pitch sum modulo \<open>2 ^ 16\<close>. Only the
  flagged halves are recomputed, their flags are cleared, and no other track changes.\<close>

theorem TrkVolPitSet_values:
  assumes "uint (vol (track s a)) \<le> 127" "uint (volX (track s a)) \<le> 64" "modT (track s a) \<noteq> 1"
  shows "let t = track s a; t' = track (TrkVolPitSet p a s) a;
      x = uint (vol t) * uint (volX t) div 32 in
    (flags t AND MPT_FLG_VOLSET \<noteq> 0 \<longrightarrow> uint (volMR t') = (pan_value t + 128) * x div 256
        \<and> uint (volML t') = (127 - pan_value t) * x div 256 \<and> uint (volMR t') + uint (volML t') \<le> x)
    \<and> (flags t AND MPT_FLG_VOLSET = 0 \<longrightarrow> volMR t' = volMR t \<and> volML t' = volML t)
    \<and> (flags t AND MPT_FLG_PITSET \<noteq> 0 \<longrightarrow> 256 * uint (keyM t') + uint (pitM t') = pitch_value t mod 65536)
    \<and> (flags t AND MPT_FLG_PITSET = 0 \<longrightarrow> keyM t' = keyM t \<and> pitM t' = pitM t)
    \<and> flags t' = flags t AND NOT (MPT_FLG_PITSET OR MPT_FLG_VOLSET)
    \<and> (\<forall>b. b \<noteq> a \<longrightarrow> track (TrkVolPitSet p a s) b = track s b)"
proof -
  let ?t = "track s a"
  define y where "y = pan_value ?t"
  define x where "x = uint (vol ?t) * uint (volX ?t) div 32"
  have y: "0 \<le> y + 128" "y + 128 \<le> 255" "0 \<le> 127 - y" "127 - y \<le> 255"
    by (auto simp: y_def pan_value_def)
  have lvl: "uint (vol_level ?t) = x" using assms(3) by (simp add: vol_level_value x_def)
  have "uint (vol ?t) * uint (volX ?t) \<le> 127 * 64" using assms(1,2) by (intro mult_mono) auto
  then have x: "0 \<le> x" "x \<le> 254" by (simp_all add: x_def pos_imp_zdiv_nonneg_iff)
  have pos: "pan_position ?t + 128 = word_of_int (y + 128)" "127 - pan_position ?t = word_of_int (127 - y)"
    by (simp_all add: pan_position_value y_def)
  have mr: "uint (ucast (drop_bit 8 ((pan_position ?t + 128) * vol_level ?t)) :: u8) = (y + 128) * x div 256"
    unfolding pos using volume_byte [OF y(1,2), of "vol_level ?t"] x lvl by simp
  have ml: "uint (ucast (drop_bit 8 ((127 - pan_position ?t) * vol_level ?t)) :: u8) = (127 - y) * x div 256"
    unfolding pos using volume_byte [OF y(3,4), of "vol_level ?t"] x lvl by simp
  have "(y + 128) * x div 256 + (127 - y) * x div 256 \<le> ((y + 128) * x + (127 - y) * x) div 256"
    by (simp add: div_add1_eq [of "(y + 128) * x"] div_le_mono)
  also have "(y + 128) * x + (127 - y) * x = 255 * x" by (simp add: algebra_simps)
  also have "255 * x div 256 \<le> x" using x by simp
  finally have sum: "(y + 128) * x div 256 + (127 - y) * x div 256 \<le> x" .
  have pit: "256 * uint (ucast (signed_drop_bit 8 (pitch_offset ?t)) :: u8) + uint (ucast (pitch_offset ?t) :: u8)
      = pitch_value ?t mod 65536"
    using key_and_fine [of "pitch_offset ?t"]
    by (simp only: pitch_offset_value sint_word_of_int_32 [OF pitch_value_range])
  show ?thesis
    using mr ml sum pit by (simp add: TrkVolPitSet_track Let_def flip: x_def y_def)
qed

theorem TrkVolPitSet_values_witness:
  "let s = upd_track 0x2000 (\<lambda>t. t\<lparr>flags := 0x85\<rparr>) demo_state; t' = track (TrkVolPitSet 0x1000 0x2000 s) 0x2000
   in uint (volMR t') = 100 \<and> uint (volML t') = 99"
proof -
  define s where "s = upd_track 0x2000 (\<lambda>t. t\<lparr>flags := 0x85\<rparr>) demo_state"
  have t: "vol (track s 0x2000) = 100" "volX (track s 0x2000) = 64" "modT (track s 0x2000) = 0"
    "t_pan (track s 0x2000) = 0" "panX (track s 0x2000) = 0" "flags (track s 0x2000) = 0x85"
    by (simp_all add: s_def demo_state_def clear_track_64_def)
  have "uint (vol (track s 0x2000)) \<le> 127" "uint (volX (track s 0x2000)) \<le> 64" "modT (track s 0x2000) \<noteq> 1"
    using t by simp_all
  from TrkVolPitSet_values [OF this, of "0x1000"] show ?thesis
    using t by (simp add: Let_def pan_value_def MPT_FLG_VOLSET_def flip: s_def)
qed

section \<open>Extended commands\<close>

lemma bit_READ_XCMD_BYTE:
  assumes "n < 4" "k < 32"
  shows "bit (READ_XCMD_BYTE m c n v) k \<longleftrightarrow>
    (if n * 8 \<le> k \<and> k < n * 8 + 8 then bit (m (c + of_nat n)) (k - n * 8) else bit v k)"
proof -
  have mask: "(0xFF :: u32) = mask 8" by (simp add: mask_eq_exp_minus_1)
  show ?thesis
    unfolding READ_XCMD_BYTE_def Let_def mask using assms
    by (auto simp: bit_simps dest: bit_imp_le_length)
qed

lemma read_xcmd4_ld32: "read_xcmd4 m c junk = ld32 m c"
  by (rule bit_word_eqI) (auto simp: read_xcmd4_def bit_READ_XCMD_BYTE bit_ld32)

definition ld16 :: "(u32 \<Rightarrow> u8) \<Rightarrow> u32 \<Rightarrow> u16" where
  "ld16 m a = ucast (m a) OR push_bit 8 (ucast (m (a + 1)))"

lemma read_xcmd2_ld16: "ucast (READ_XCMD_BYTE m c 1 (READ_XCMD_BYTE m c 0 junk)) = ld16 m c"
  by (rule bit_word_eqI)
    (auto simp: bit_READ_XCMD_BYTE ld16_def bit_simps dest: bit_imp_le_length)

text \<open>An extended command as the player's main loop runs it: the command byte has been fetched, then
  \<^verbatim>\<open>ply_xcmd\<close> is called.\<close>

definition run_xcmd :: "u32 \<Rightarrow> u32 \<Rightarrow> u32 \<Rightarrow> m4a \<Rightarrow> m4a option" where
  "run_xcmd p t junk s = ply_xcmd junk p t (upd_track t (\<lambda>t. t\<lparr>cmdPtr := cmdPtr t + 1\<rparr>) s)"

lemma run_xcmd_0C:
  assumes "cmdPtr (track s t) = a" "mem s (a + 1) = 0x0C"
  shows "run_xcmd p t junk s = Some (upd_track t (\<lambda>x.
    if unk_3A x < ld16 (mem s) (a + 2) then x\<lparr>unk_3A := unk_3A x + 1, cmdPtr := a, wait := 1\<rparr>
    else x\<lparr>unk_3A := 0, cmdPtr := a + 4\<rparr>) s)"
proof -
  have "table_at gXcmdTable 12 = Some F_ply_xcmd_0C" by (simp add: table_at_def gXcmdTable_def)
  then have "run_xcmd p t junk s = Some (ply_xcmd_0C junk t (upd_track t (\<lambda>t. t\<lparr>cmdPtr := cmdPtr t + 2\<rparr>) s))"
    using assms by (simp add: run_xcmd_def ply_xcmd_def Let_def call_xcmd_def upd_track_def add.commute [of 2])
  moreover have "ply_xcmd_0C junk t (upd_track t (\<lambda>t. t\<lparr>cmdPtr := cmdPtr t + 2\<rparr>) s)
    = upd_track t (\<lambda>x. if unk_3A x < ld16 (mem s) (a + 2) then x\<lparr>unk_3A := unk_3A x + 1, cmdPtr := a, wait := 1\<rparr>
        else x\<lparr>unk_3A := 0, cmdPtr := a + 4\<rparr>) s"
    using assms by (simp add: ply_xcmd_0C_def upd_track_def read_xcmd2_ld16 [of "mem s" "a + 2", simplified] add.commute [of 4])
  ultimately show ?thesis by simp
qed

lemma u16_unat_less: "unat (w :: u16) < 65536"
  using unsigned_less [of w] by simp

lemma xcmd_wait_rounds:
  assumes "cmdPtr (track s t) = a" "unk_3A (track s t) = 0" "mem s (a + 1) = 0x0C"
    "length junks \<le> unat (ld16 (mem s) (a + 2))"
  shows "\<exists>s'. foldo (run_xcmd p t) junks s = Some s' \<and> mem s' = mem s \<and> player s' = player s
    \<and> cmdPtr (track s' t) = a \<and> unk_3A (track s' t) = of_nat (length junks)
    \<and> (junks \<noteq> [] \<longrightarrow> wait (track s' t) = 1)"
  using assms(4)
proof (induction junks rule: rev_induct)
  case Nil then show ?case using assms by simp
next
  case (snoc j js)
  obtain s1 where s1: "foldo (run_xcmd p t) js s = Some s1" "mem s1 = mem s" "player s1 = player s"
      "cmdPtr (track s1 t) = a" "unk_3A (track s1 t) = of_nat (length js)"
    using snoc by auto
  have less: "length js < unat (ld16 (mem s) (a + 2))" using snoc.prems by simp
  then have "length js < 2 ^ 16" using u16_unat_less [of "ld16 (mem s) (a + 2)"] by simp
  then have "(of_nat (length js) :: u16) < ld16 (mem s) (a + 2)"
    using less by (simp add: word_less_nat_alt take_bit_nat_eq_self unsigned_of_nat)
  then have "run_xcmd p t j s1 = Some (upd_track t (\<lambda>x. x\<lparr>unk_3A := unk_3A x + 1, cmdPtr := a, wait := 1\<rparr>) s1)"
    using run_xcmd_0C [of s1 t a p j] s1 assms(3) by (simp add: upd_track_def)
  moreover have "foldo f (xs @ [x]) s = do { s \<leftarrow> foldo f xs s; f x s }" for f :: "u32 \<Rightarrow> m4a \<Rightarrow> m4a option" and xs x s
    by (induction xs arbitrary: s) (auto split: Option.bind_split)
  ultimately show ?case using s1 by (simp add: add.commute)
qed

text \<open>The operands of the extended commands. The wave address and the four-byte parameter are the
  little-endian words of the command stream, whatever the uninitialised variable they are
  assembled in held before. The wait command with operand \<open>N\<close> holds the track back for exactly
  \<open>N\<close> rounds, each time waiting one tick and returning to itself, and in the round after that
  moves on behind its operand with the counter reset.\<close>

theorem xcmd_operands:
  assumes "cmdPtr (track s t) = a" "unk_3A (track s t) = 0" "mem s (a + 1) = 0x0C"
    "length junks \<le> unat (ld16 (mem s) (a + 2))"
  shows "track (ply_xwave junk t s) t = (track s t)\<lparr>tone := (tone (track s t))\<lparr>wav := ld32 (mem s) a\<rparr>, cmdPtr := a + 4\<rparr>
    \<and> track (ply_xcmd_0D junk t s) t = (track s t)\<lparr>unk_3C := ld32 (mem s) a, cmdPtr := a + 4\<rparr>
    \<and> (\<exists>s'. foldo (run_xcmd p t) junks s = Some s' \<and> cmdPtr (track s' t) = a
          \<and> unk_3A (track s' t) = of_nat (length junks) \<and> (junks \<noteq> [] \<longrightarrow> wait (track s' t) = 1)
          \<and> (length junks = unat (ld16 (mem s) (a + 2)) \<longrightarrow> (\<exists>s''. run_xcmd p t junk s' = Some s''
               \<and> cmdPtr (track s'' t) = a + 4 \<and> unk_3A (track s'' t) = 0)))"
proof -
  obtain s' where s': "foldo (run_xcmd p t) junks s = Some s'" "mem s' = mem s" "cmdPtr (track s' t) = a"
      "unk_3A (track s' t) = of_nat (length junks)" "junks \<noteq> [] \<longrightarrow> wait (track s' t) = 1"
    using xcmd_wait_rounds [OF assms] by blast
  have "\<exists>s''. run_xcmd p t junk s' = Some s'' \<and> cmdPtr (track s'' t) = a + 4 \<and> unk_3A (track s'' t) = 0"
    if "length junks = unat (ld16 (mem s) (a + 2))"
    using run_xcmd_0C [OF s'(3), of p junk] s' assms(3) that by simp
  then show ?thesis
    using s' assms(1) by (auto simp: ply_xwave_def ply_xcmd_0D_def read_xcmd4_ld32)
qed

theorem xcmd_operands_witness:
  "let s = upd_mem (\<lambda>m. m(0x5001 := 0x0C, 0x5002 := 2)) demo_state
   in \<exists>s'. foldo (run_xcmd 0x1000 0x2000) [7, 8] s = Some s' \<and> cmdPtr (track s' 0x2000) = 0x5000
        \<and> wait (track s' 0x2000) = 1"
proof -
  define s where "s = upd_mem (\<lambda>m. m(0x5001 := 0x0C, 0x5002 := 2)) demo_state"
  have "cmdPtr (track s 0x2000) = 0x5000" "unk_3A (track s 0x2000) = 0" "mem s (0x5000 + 1) = 0x0C"
    "length [7, 8 :: u32] \<le> unat (ld16 (mem s) (0x5000 + 2))"
    by (simp_all add: s_def demo_state_def clear_track_64_def ld16_def)
  from xcmd_operands [OF this, where p = "0x1000" and junk = 0]
  show ?thesis by (auto simp: Let_def simp flip: s_def)
qed

end
