(* ===== verification/LibcString.thy ===== *)
theory LibcString
  imports Prelude "HOL-Library.Monad_Syntax" "HOL-Library.While_Combinator"
begin

text \<open>
  The memory and string functions of the C library, \<^verbatim>\<open>src/libc/string/\<close>. Each of them has two
  bodies: a plain one, compiled when size matters (\<^verbatim>\<open>PREFER_SIZE_OVER_SPEED\<close>), and a fast one
  that handles aligned operands a word at a time. The model has both, the plain one with the
  suffix \<open>_small\<close>; the Makefile builds the fast ones.

  Memory is a map from addresses to bytes and words are little-endian. A pointer is its
  address and \<^verbatim>\<open>NULL\<close> is 0. Counts are compared as unsigned numbers, since the block sizes are
  values of \<^verbatim>\<open>sizeof\<close>, and \<^verbatim>\<open>int\<close> and \<^verbatim>\<open>long\<close> have 32 bits. A loop is \<open>while_option\<close> on the
  variables it changes, so a scan that never meets what it looks for is \<open>None\<close>; a loop that
  is also left by a return in its body has the negation of that case in its condition, and
  the return follows the loop.
\<close>

unbundle bit_operations_syntax

type_synonym bytemem = "u32 \<Rightarrow> u8"

section \<open>The macros\<close>

definition UNALIGNED_1 :: "u32 \<Rightarrow> u32" where "UNALIGNED_1 X = X AND 3"
definition UNALIGNED_2 :: "u32 \<Rightarrow> u32 \<Rightarrow> u32" where "UNALIGNED_2 X Y = (X AND 3) OR (Y AND 3)"
definition BIGBLOCKSIZE :: u32 where "BIGBLOCKSIZE = push_bit 2 4"
definition LBLOCKSIZE :: u32 where "LBLOCKSIZE = 4"
definition DETECTNULL :: "u32 \<Rightarrow> u32" where
  "DETECTNULL X = (X - 0x01010101) AND NOT X AND 0x80808080"
definition DETECTCHAR :: "u32 \<Rightarrow> u32 \<Rightarrow> u32" where "DETECTCHAR X MASK = DETECTNULL (X XOR MASK)"

section \<open>Copying\<close>

text \<open>The state of a copying loop: remaining length, destination, source, memory.\<close>

type_synonym copy_state = "u32 \<times> u32 \<times> u32 \<times> bytemem"

definition copy_byte :: "copy_state \<Rightarrow> copy_state" where
  "copy_byte = (\<lambda>(len, dst, src, m). (len - 1, dst + 1, src + 1, m(dst := m src)))"

definition copy_word :: "copy_state \<Rightarrow> copy_state" where
  "copy_word = (\<lambda>(len, dst, src, m). (len - LBLOCKSIZE, dst + 4, src + 4, st32 dst (ld32 m src) m))"

text \<open>The body of the unrolled loop: four words, then the length is adjusted once.\<close>

definition copy_block :: "copy_state \<Rightarrow> copy_state" where
  "copy_block = (\<lambda>(len, dst, src, m).
     let m = st32 dst (ld32 m src) m;
         m = st32 (dst + 4) (ld32 m (src + 4)) m;
         m = st32 (dst + 8) (ld32 m (src + 8)) m;
         m = st32 (dst + 12) (ld32 m (src + 12)) m
     in (len - BIGBLOCKSIZE, dst + 16, src + 16, m))"

definition copy_bytes :: "copy_state \<Rightarrow> copy_state option" where
  "copy_bytes = while_option (\<lambda>(len, _). len \<noteq> 0) copy_byte"

definition copy_words :: "copy_state \<Rightarrow> copy_state option" where
  "copy_words = while_option (\<lambda>(len, _). len \<ge> LBLOCKSIZE) copy_word"

definition copy_blocks :: "copy_state \<Rightarrow> copy_state option" where
  "copy_blocks = while_option (\<lambda>(len, _). len \<ge> BIGBLOCKSIZE) copy_block"

definition copy_fast :: "copy_state \<Rightarrow> copy_state option" where
  "copy_fast st = (case st of (len, dst, src, m) \<Rightarrow>
     (if \<not> len < BIGBLOCKSIZE \<and> UNALIGNED_2 src dst = 0 then copy_blocks st \<bind> copy_words else Some st) \<bind> copy_bytes)"

definition memcpy_small :: "u32 \<Rightarrow> u32 \<Rightarrow> u32 \<Rightarrow> bytemem \<Rightarrow> (u32 \<times> bytemem) option" where
  "memcpy_small dst0 src0 len0 m = do { (_, _, _, m) \<leftarrow> copy_bytes (len0, dst0, src0, m); Some (dst0, m) }"

definition memcpy :: "u32 \<Rightarrow> u32 \<Rightarrow> u32 \<Rightarrow> bytemem \<Rightarrow> (u32 \<times> bytemem) option" where
  "memcpy dst0 src0 len0 m = do { (_, _, _, m) \<leftarrow> copy_fast (len0, dst0, src0, m); Some (dst0, m) }"

definition copy_back :: "copy_state \<Rightarrow> copy_state option" where
  "copy_back = while_option (\<lambda>(len, _). len \<noteq> 0)
     (\<lambda>(len, dst, src, m). (len - 1, dst - 1, src - 1, m(dst - 1 := m (src - 1))))"

definition memmove_small :: "u32 \<Rightarrow> u32 \<Rightarrow> u32 \<Rightarrow> bytemem \<Rightarrow> (u32 \<times> bytemem) option" where
  "memmove_small dst src len m = do {
     (_, _, _, m') \<leftarrow> (if src < dst \<and> dst < src + len then copy_back (len, dst + len, src + len, m)
        else copy_bytes (len, dst, src, m));
     Some (dst, m') }"

definition memmove :: "u32 \<Rightarrow> u32 \<Rightarrow> u32 \<Rightarrow> bytemem \<Rightarrow> (u32 \<times> bytemem) option" where
  "memmove dst src len m = do {
     (_, _, _, m') \<leftarrow> (if src < dst \<and> dst < src + len then copy_back (len, dst + len, src + len, m)
        else copy_fast (len, dst, src, m));
     Some (dst, m') }"

definition bcopy :: "u32 \<Rightarrow> u32 \<Rightarrow> u32 \<Rightarrow> bytemem \<Rightarrow> bytemem option" where
  "bcopy b1 b2 len m = map_option snd (memmove b2 b1 len m)"

section \<open>Filling\<close>

type_synonym fill_state = "u32 \<times> u32 \<times> bytemem"

definition fill_byte :: "u8 \<Rightarrow> fill_state \<Rightarrow> fill_state" where
  "fill_byte c = (\<lambda>(n, s, m). (n - 1, s + 1, m(s := c)))"

definition fill_word :: "u32 \<Rightarrow> fill_state \<Rightarrow> fill_state" where
  "fill_word buffer = (\<lambda>(n, a, m). (n - LBLOCKSIZE, a + 4, st32 a buffer m))"

definition fill_block :: "u32 \<Rightarrow> fill_state \<Rightarrow> fill_state" where
  "fill_block buffer = (\<lambda>(n, a, m).
     (n - 4 * LBLOCKSIZE, a + 16, st32 (a + 12) buffer (st32 (a + 8) buffer (st32 (a + 4) buffer (st32 a buffer m)))))"

definition fill_bytes :: "u8 \<Rightarrow> fill_state \<Rightarrow> fill_state option" where
  "fill_bytes c = while_option (\<lambda>(n, _). n \<noteq> 0) (fill_byte c)"

definition fill_words :: "u32 \<Rightarrow> fill_state \<Rightarrow> fill_state option" where
  "fill_words buffer = while_option (\<lambda>(n, _). n \<ge> LBLOCKSIZE) (fill_word buffer)"

definition fill_blocks :: "u32 \<Rightarrow> fill_state \<Rightarrow> fill_state option" where
  "fill_blocks buffer = while_option (\<lambda>(n, _). n \<ge> LBLOCKSIZE * 4) (fill_block buffer)"

text \<open>The word with the character in each of its bytes.\<close>

definition fill_buffer :: "u32 \<Rightarrow> u32" where
  "fill_buffer c = (let buffer = push_bit 8 c OR c in buffer OR push_bit 16 buffer)"

definition memset_small :: "u32 \<Rightarrow> u32 \<Rightarrow> u32 \<Rightarrow> bytemem \<Rightarrow> (u32 \<times> bytemem) option" where
  "memset_small p c n m = do { (_, _, m) \<leftarrow> fill_bytes (ucast c) (n, p, m); Some (p, m) }"

definition memset :: "u32 \<Rightarrow> u32 \<Rightarrow> u32 \<Rightarrow> bytemem \<Rightarrow> (u32 \<times> bytemem) option" where
  "memset p c n m = do {
     (c, st) \<leftarrow> (if \<not> n < LBLOCKSIZE \<and> UNALIGNED_1 p = 0
       then let c = c AND 0xFF
            in map_option (Pair c) (fill_blocks (fill_buffer c) (n, p, m) \<bind> fill_words (fill_buffer c))
       else Some (c, n, p, m));
     (_, _, m) \<leftarrow> fill_bytes (ucast c) st;
     Some (p, m) }"

definition bzero :: "u32 \<Rightarrow> u32 \<Rightarrow> bytemem \<Rightarrow> bytemem option" where
  "bzero b len m = do { (_, _, m) \<leftarrow> fill_bytes 0 (len, b, m); Some m }"

section \<open>Comparing and searching memory\<close>

definition byte_diff :: "bytemem \<Rightarrow> u32 \<Rightarrow> u32 \<Rightarrow> s32" where
  "byte_diff m s1 s2 = ucast (m s1) - ucast (m s2)"

definition memcmp_bytes :: "bytemem \<Rightarrow> u32 \<times> u32 \<times> u32 \<Rightarrow> s32 option" where
  "memcmp_bytes m st = do {
     (n, s1, s2) \<leftarrow> while_option (\<lambda>(n, s1, s2). n \<noteq> 0 \<and> m s1 = m s2) (\<lambda>(n, s1, s2). (n - 1, s1 + 1, s2 + 1)) st;
     Some (if n \<noteq> 0 then byte_diff m s1 s2 else 0) }"

definition memcmp_words :: "bytemem \<Rightarrow> u32 \<times> u32 \<times> u32 \<Rightarrow> (u32 \<times> u32 \<times> u32) option" where
  "memcmp_words m = while_option (\<lambda>(n, a1, a2). n \<ge> LBLOCKSIZE \<and> ld32 m a1 = ld32 m a2)
     (\<lambda>(n, a1, a2). (n - LBLOCKSIZE, a1 + 4, a2 + 4))"

definition memcmp_small :: "u32 \<Rightarrow> u32 \<Rightarrow> u32 \<Rightarrow> bytemem \<Rightarrow> s32 option" where
  "memcmp_small m1 m2 n m = memcmp_bytes m (n, m1, m2)"

definition memcmp :: "u32 \<Rightarrow> u32 \<Rightarrow> u32 \<Rightarrow> bytemem \<Rightarrow> s32 option" where
  "memcmp m1 m2 n m =
     (if \<not> n < LBLOCKSIZE \<and> UNALIGNED_2 m1 m2 = 0 then memcmp_words m (n, m1, m2) else Some (n, m1, m2))
     \<bind> memcmp_bytes m"

definition bcmp :: "u32 \<Rightarrow> u32 \<Rightarrow> u32 \<Rightarrow> bytemem \<Rightarrow> s32 option" where
  "bcmp m1 m2 n m = memcmp m1 m2 n m"

text \<open>The byte loop of \<open>memchr\<close>: the address of the character, or \<^verbatim>\<open>NULL\<close> after \<open>n\<close> bytes.\<close>

definition memchr_bytes :: "bytemem \<Rightarrow> u32 \<Rightarrow> u32 \<times> u32 \<Rightarrow> u32 option" where
  "memchr_bytes m c st = do {
     (n, src) \<leftarrow> while_option (\<lambda>(n, src). n \<noteq> 0 \<and> ucast (m src) \<noteq> c) (\<lambda>(n, src). (n - 1, src + 1)) st;
     Some (if n \<noteq> 0 then src else 0) }"

text \<open>The inspection of one word: the first of its bytes that is the character.\<close>

definition memchr_hit :: "bytemem \<Rightarrow> u32 \<Rightarrow> u32 \<Rightarrow> u32 \<Rightarrow> u32 option" where
  "memchr_hit m c msk asrc =
     (if DETECTNULL (ld32 m asrc XOR msk) \<noteq> 0
      then List.find (\<lambda>src. ucast (m src) = c) [asrc, asrc + 1, asrc + 2, asrc + 3] else None)"

definition memchr_words :: "bytemem \<Rightarrow> u32 \<Rightarrow> u32 \<Rightarrow> u32 \<times> u32 \<Rightarrow> (u32 \<times> u32) option" where
  "memchr_words m c msk = while_option (\<lambda>(n, asrc). n \<ge> LBLOCKSIZE \<and> memchr_hit m c msk asrc = None)
     (\<lambda>(n, asrc). (n - LBLOCKSIZE, asrc + 4))"

text \<open>The loop that builds the mask runs four times.\<close>

definition memchr_mask :: "u32 \<Rightarrow> u32" where
  "memchr_mask c = ((\<lambda>msk. push_bit 8 msk + c) ^^ 4) 0"

definition memchr_small :: "u32 \<Rightarrow> u32 \<Rightarrow> u32 \<Rightarrow> bytemem \<Rightarrow> u32 option" where
  "memchr_small src c len m = memchr_bytes m (c AND 0xFF) (len, src)"

definition memchr :: "u32 \<Rightarrow> u32 \<Rightarrow> u32 \<Rightarrow> bytemem \<Rightarrow> u32 option" where
  "memchr src c len m =
     (let c = c AND 0xFF in
      if \<not> len < LBLOCKSIZE \<and> UNALIGNED_1 src = 0 then do {
        let msk = memchr_mask c;
        (len, asrc) \<leftarrow> memchr_words m c msk (len, src);
        if len \<ge> LBLOCKSIZE then memchr_hit m c msk asrc
        else memchr_bytes m c (len, asrc) }
      else memchr_bytes m c (len, src))"

section \<open>Scanning strings\<close>

definition str_end :: "bytemem \<Rightarrow> u32 \<Rightarrow> u32 option" where
  "str_end m = while_option (\<lambda>s. m s \<noteq> 0) (\<lambda>s. s + 1)"

definition str_end_words :: "bytemem \<Rightarrow> u32 \<Rightarrow> u32 option" where
  "str_end_words m = while_option (\<lambda>a. DETECTNULL (ld32 m a) = 0) (\<lambda>a. a + 4)"

definition strlen_small :: "u32 \<Rightarrow> bytemem \<Rightarrow> u32 option" where
  "strlen_small str m = do { s \<leftarrow> str_end m str; Some (s - str) }"

definition strlen :: "u32 \<Rightarrow> bytemem \<Rightarrow> u32 option" where
  "strlen str m = do {
     s \<leftarrow> (if UNALIGNED_1 str = 0 then str_end_words m str else Some str);
     s \<leftarrow> str_end m s;
     Some (s - str) }"

definition chr_end :: "bytemem \<Rightarrow> u8 \<Rightarrow> u32 \<Rightarrow> u32 option" where
  "chr_end m c = while_option (\<lambda>s. m s \<noteq> 0 \<and> m s \<noteq> c) (\<lambda>s. s + 1)"

definition chr_end_words :: "bytemem \<Rightarrow> u32 \<Rightarrow> u32 \<Rightarrow> u32 option" where
  "chr_end_words m msk =
     while_option (\<lambda>a. DETECTNULL (ld32 m a) = 0 \<and> DETECTCHAR (ld32 m a) msk = 0) (\<lambda>a. a + 4)"

definition strchr_mask :: "u8 \<Rightarrow> u32" where
  "strchr_mask c = ((\<lambda>msk. push_bit 8 msk OR ucast c) ^^ 4) 0"

definition strchr_small :: "u32 \<Rightarrow> u32 \<Rightarrow> bytemem \<Rightarrow> u32 option" where
  "strchr_small s1 i m = (let c = ucast i in do {
     s \<leftarrow> chr_end m c s1;
     Some (if m s \<noteq> c then 0 else s) })"

definition strchr :: "u32 \<Rightarrow> u32 \<Rightarrow> bytemem \<Rightarrow> u32 option" where
  "strchr s1 i m = (let c = ucast i in do {
     s \<leftarrow> (if UNALIGNED_1 s1 = 0 then chr_end_words m (strchr_mask c) s1 else Some s1);
     s \<leftarrow> chr_end m c s;
     Some (if m s = c then s else 0) })"

definition index :: "u32 \<Rightarrow> u32 \<Rightarrow> bytemem \<Rightarrow> u32 option" where
  "index s c m = strchr s c m"

definition strcmp_bytes :: "bytemem \<Rightarrow> u32 \<times> u32 \<Rightarrow> s32 option" where
  "strcmp_bytes m st = do {
     (s1, s2) \<leftarrow> while_option (\<lambda>(s1, s2). m s1 \<noteq> 0 \<and> m s1 = m s2) (\<lambda>(s1, s2). (s1 + 1, s2 + 1)) st;
     Some (byte_diff m s1 s2) }"

definition strcmp_words :: "bytemem \<Rightarrow> u32 \<times> u32 \<Rightarrow> (u32 \<times> u32) option" where
  "strcmp_words m = while_option (\<lambda>(a1, a2). ld32 m a1 = ld32 m a2 \<and> DETECTNULL (ld32 m a1) = 0)
     (\<lambda>(a1, a2). (a1 + 4, a2 + 4))"

definition strcmp_small :: "u32 \<Rightarrow> u32 \<Rightarrow> bytemem \<Rightarrow> s32 option" where
  "strcmp_small s1 s2 m = strcmp_bytes m (s1, s2)"

definition strcmp :: "u32 \<Rightarrow> u32 \<Rightarrow> bytemem \<Rightarrow> s32 option" where
  "strcmp s1 s2 m =
     (if UNALIGNED_2 s1 s2 = 0 then do {
        (a1, a2) \<leftarrow> strcmp_words m (s1, s2);
        if ld32 m a1 = ld32 m a2 then Some 0 else strcmp_bytes m (a1, a2) }
      else strcmp_bytes m (s1, s2))"

text \<open>A difference ends the loop; running out of characters or a null character ends it as well.\<close>

definition strncmp_go :: "bytemem \<Rightarrow> u32 \<times> u32 \<times> u32 \<Rightarrow> (u32 \<times> u32 \<times> u32) option" where
  "strncmp_go m = while_option (\<lambda>(n, s1, s2). (n \<noteq> 0 \<and> m s1 = m s2) \<and> \<not> (n - 1 = 0 \<or> m s1 = 0))
     (\<lambda>(n, s1, s2). (n - 1, s1 + 1, s2 + 1))"

definition strncmp_words :: "bytemem \<Rightarrow> u32 \<times> u32 \<times> u32 \<Rightarrow> (u32 \<times> u32 \<times> u32) option" where
  "strncmp_words m = while_option
     (\<lambda>(n, a1, a2). (n \<ge> 4 \<and> ld32 m a1 = ld32 m a2) \<and> \<not> (n - 4 = 0 \<or> DETECTNULL (ld32 m a1) \<noteq> 0))
     (\<lambda>(n, a1, a2). (n - 4, a1 + 4, a2 + 4))"

definition strncmp_bytes :: "bytemem \<Rightarrow> u32 \<times> u32 \<times> u32 \<Rightarrow> s32 option" where
  "strncmp_bytes m st = do {
     (n, s1, s2) \<leftarrow> strncmp_go m st;
     Some (if n \<noteq> 0 \<and> m s1 = m s2 then 0 else byte_diff m s1 s2) }"

definition strncmp_small :: "u32 \<Rightarrow> u32 \<Rightarrow> u32 \<Rightarrow> bytemem \<Rightarrow> s32 option" where
  "strncmp_small s1 s2 n m = (if n = 0 then Some 0 else do {
     (_, s1, s2) \<leftarrow> strncmp_go m (n, s1, s2);
     Some (byte_diff m s1 s2) })"

definition strncmp :: "u32 \<Rightarrow> u32 \<Rightarrow> u32 \<Rightarrow> bytemem \<Rightarrow> s32 option" where
  "strncmp s1 s2 n m =
     (if n = 0 then Some 0
      else if UNALIGNED_2 s1 s2 = 0 then do {
        (n, a1, a2) \<leftarrow> strncmp_words m (n, s1, s2);
        if n \<ge> 4 \<and> ld32 m a1 = ld32 m a2 then Some 0 else strncmp_bytes m (n, a1, a2) }
      else strncmp_bytes m (n, s1, s2))"

section \<open>Copying strings\<close>

text \<open>The bodies of the copying loops, on destination, source and memory. The loop that copies
  characters stores the terminating one as well before it ends.\<close>

definition strcpy_byte :: "u32 \<times> u32 \<times> bytemem \<Rightarrow> u32 \<times> u32 \<times> bytemem" where
  "strcpy_byte = (\<lambda>(dst, src, m). (dst + 1, src + 1, m(dst := m src)))"

definition strcpy_bytes :: "u32 \<times> u32 \<times> bytemem \<Rightarrow> bytemem option" where
  "strcpy_bytes st = do {
     st \<leftarrow> while_option (\<lambda>(_, src, m). m src \<noteq> 0) strcpy_byte st;
     let (_, _, m) = strcpy_byte st;
     Some m }"

definition strcpy_words :: "u32 \<times> u32 \<times> bytemem \<Rightarrow> (u32 \<times> u32 \<times> bytemem) option" where
  "strcpy_words = while_option (\<lambda>(_, src, m). DETECTNULL (ld32 m src) = 0)
     (\<lambda>(dst, src, m). (dst + 4, src + 4, st32 dst (ld32 m src) m))"

definition strcpy_small :: "u32 \<Rightarrow> u32 \<Rightarrow> bytemem \<Rightarrow> (u32 \<times> bytemem) option" where
  "strcpy_small dst0 src0 m = map_option (Pair dst0) (strcpy_bytes (dst0, src0, m))"

definition strcpy :: "u32 \<Rightarrow> u32 \<Rightarrow> bytemem \<Rightarrow> (u32 \<times> bytemem) option" where
  "strcpy dst0 src0 m = map_option (Pair dst0)
     ((if UNALIGNED_2 src0 dst0 = 0 then strcpy_words (dst0, src0, m) else Some (dst0, src0, m)) \<bind> strcpy_bytes)"

text \<open>The two byte loops at the end of \<open>strncpy\<close>: the copy up to the null character, if it is
  within the count, and the padding.\<close>

definition strncpy_bytes :: "copy_state \<Rightarrow> bytemem option" where
  "strncpy_bytes st = do {
     st \<leftarrow> while_option (\<lambda>(count, _, src, m). count > 0 \<and> m src \<noteq> 0) copy_byte st;
     let (count, dst, _, m) = (if fst st > 0 then copy_byte st else st);
     (_, _, m) \<leftarrow> fill_bytes 0 (count, dst, m);
     Some m }"

definition strncpy_words :: "copy_state \<Rightarrow> copy_state option" where
  "strncpy_words = while_option (\<lambda>(count, _, src, m). count \<ge> 4 \<and> DETECTNULL (ld32 m src) = 0) copy_word"

definition strncpy_small :: "u32 \<Rightarrow> u32 \<Rightarrow> u32 \<Rightarrow> bytemem \<Rightarrow> (u32 \<times> bytemem) option" where
  "strncpy_small dst0 src0 count m = map_option (Pair dst0) (strncpy_bytes (count, dst0, src0, m))"

definition strncpy :: "u32 \<Rightarrow> u32 \<Rightarrow> u32 \<Rightarrow> bytemem \<Rightarrow> (u32 \<times> bytemem) option" where
  "strncpy dst0 src0 count m = map_option (Pair dst0)
     ((if UNALIGNED_2 src0 dst0 = 0 \<and> \<not> count < 4 then strncpy_words (count, dst0, src0, m)
       else Some (count, dst0, src0, m)) \<bind> strncpy_bytes)"

definition str_end_fast :: "bytemem \<Rightarrow> u32 \<Rightarrow> u32 option" where
  "str_end_fast m s1 = (if UNALIGNED_1 s1 = 0 then str_end_words m s1 else Some s1) \<bind> str_end m"

definition strcat_small :: "u32 \<Rightarrow> u32 \<Rightarrow> bytemem \<Rightarrow> (u32 \<times> bytemem) option" where
  "strcat_small s1 s2 m = do {
     e \<leftarrow> str_end m s1;
     m \<leftarrow> strcpy_bytes (e, s2, m);
     Some (s1, m) }"

definition strcat :: "u32 \<Rightarrow> u32 \<Rightarrow> bytemem \<Rightarrow> (u32 \<times> bytemem) option" where
  "strcat s1 s2 m = do {
     e \<leftarrow> str_end_fast m s1;
     (_, m) \<leftarrow> strcpy e s2 m;
     Some (s1, m) }"

text \<open>The loop of \<open>strncat\<close>: a character other than null is stored, and when it was the last one
  allowed a null character behind it; a null character within the count is stored and ends
  the loop.\<close>

definition strncat_loop :: "copy_state \<Rightarrow> bytemem option" where
  "strncat_loop st = do {
     st \<leftarrow> while_option (\<lambda>(n, _, s2, m). n \<noteq> 0 \<and> m s2 \<noteq> 0)
       (\<lambda>st. let (n, s1, s2, m) = copy_byte st in (n, s1, s2, if n = 0 then m(s1 := 0) else m)) st;
     let (_, _, _, m) = (if fst st \<noteq> 0 then copy_byte st else st);
     Some m }"

definition strncat_small :: "u32 \<Rightarrow> u32 \<Rightarrow> u32 \<Rightarrow> bytemem \<Rightarrow> (u32 \<times> bytemem) option" where
  "strncat_small s1 s2 n m = do {
     e \<leftarrow> str_end m s1;
     m \<leftarrow> strncat_loop (n, e, s2, m);
     Some (s1, m) }"

definition strncat :: "u32 \<Rightarrow> u32 \<Rightarrow> u32 \<Rightarrow> bytemem \<Rightarrow> (u32 \<times> bytemem) option" where
  "strncat s1 s2 n m = do {
     e \<leftarrow> str_end_fast m s1;
     m \<leftarrow> strncat_loop (n, e, s2, m);
     Some (s1, m) }"

end
