(* ===== verification/LibcStdlib.thy ===== *)
theory LibcStdlib
  imports LibcString
begin

text \<open>
  Parts of the C library's \<^verbatim>\<open>src/libc/ctype/\<close> and \<^verbatim>\<open>src/libc/stdlib/\<close>: the table of character
  classes with the macros that read it, the conversion of strings to integers, and binary
  search.

  Plain \<^verbatim>\<open>char\<close> is unsigned in this compiler, so a character read from memory is an index between
  0 and 255. \<^verbatim>\<open>errno\<close> is the field of the reentrancy structure that the functions set.
\<close>

unbundle bit_operations_syntax

section \<open>Character classes\<close>

definition CT_U :: u8 where "CT_U = 0x01"
definition CT_L :: u8 where "CT_L = 0x02"
definition CT_N :: u8 where "CT_N = 0x04"
definition CT_S :: u8 where "CT_S = 0x08"
definition CT_P :: u8 where "CT_P = 0x10"
definition CT_C :: u8 where "CT_C = 0x20"
definition CT_X :: u8 where "CT_X = 0x40"
definition CT_B :: u8 where "CT_B = 0x80"

lemmas ctype_flags = CT_U_def CT_L_def CT_N_def CT_S_def CT_P_def CT_C_def CT_X_def CT_B_def

text \<open>The initialiser of \<^verbatim>\<open>_ctype_\<close>, runs of equal entries written as such; the entries behind it
  are zero. Entry 0 is the one for \<^verbatim>\<open>EOF\<close>.\<close>

definition ctype_list :: "u8 list" where
  "ctype_list = [0] @ replicate 9 CT_C @ replicate 5 (CT_C OR CT_S) @ replicate 18 CT_C @ [CT_S OR CT_B]
     @ replicate 15 CT_P @ replicate 10 CT_N @ replicate 7 CT_P @ replicate 6 (CT_U OR CT_X) @ replicate 20 CT_U
     @ replicate 6 CT_P @ replicate 6 (CT_L OR CT_X) @ replicate 20 CT_L @ replicate 4 CT_P @ [CT_C]"

definition ctype_at :: "u32 \<Rightarrow> u8" where
  "ctype_at c = (let i = unat (c + 1) in if i < length ctype_list then ctype_list ! i else 0)"

definition isalpha :: "u32 \<Rightarrow> u8" where "isalpha c = ctype_at c AND (CT_U OR CT_L)"
definition isupper :: "u32 \<Rightarrow> u8" where "isupper c = ctype_at c AND CT_U"
definition islower :: "u32 \<Rightarrow> u8" where "islower c = ctype_at c AND CT_L"
definition isdigit :: "u32 \<Rightarrow> u8" where "isdigit c = ctype_at c AND CT_N"
definition isxdigit :: "u32 \<Rightarrow> u8" where "isxdigit c = ctype_at c AND (CT_X OR CT_N)"
definition isspace :: "u32 \<Rightarrow> u8" where "isspace c = ctype_at c AND CT_S"
definition ispunct :: "u32 \<Rightarrow> u8" where "ispunct c = ctype_at c AND CT_P"
definition isalnum :: "u32 \<Rightarrow> u8" where "isalnum c = ctype_at c AND (CT_U OR CT_L OR CT_N)"
definition isprint :: "u32 \<Rightarrow> u8" where "isprint c = ctype_at c AND (CT_P OR CT_U OR CT_L OR CT_N OR CT_B)"
definition isgraph :: "u32 \<Rightarrow> u8" where "isgraph c = ctype_at c AND (CT_P OR CT_U OR CT_L OR CT_N)"
definition iscntrl :: "u32 \<Rightarrow> u8" where "iscntrl c = ctype_at c AND CT_C"

definition toupper :: "u32 \<Rightarrow> u32" where
  "toupper c = (if islower c \<noteq> 0 then c - 97 + 65 else c)"

definition tolower :: "u32 \<Rightarrow> u32" where
  "tolower c = (if isupper c \<noteq> 0 then c - 65 + 97 else c)"

section \<open>Strings to integers\<close>

text \<open>The value of a character as a digit, if it is a digit or letter.\<close>

definition digit_value :: "u32 \<Rightarrow> u32 option" where
  "digit_value c =
     (if isdigit c \<noteq> 0 then Some (c - 48)
      else if isalpha c \<noteq> 0 then Some (c - (if isupper c \<noteq> 0 then 65 - 10 else 97 - 10))
      else None)"

text \<open>The variables of the loop: current character, read position, \<open>any\<close>, \<open>acc\<close>.\<close>

type_synonym conv_state = "u32 \<times> u32 \<times> s32 \<times> u32"

definition conv_digit :: "s32 \<Rightarrow> u32 \<Rightarrow> s32 \<Rightarrow> u32 \<Rightarrow> s32 \<times> u32 \<Rightarrow> s32 \<times> u32" where
  "conv_digit bas cutoff cutlim c = (\<lambda>(any, acc).
     if sint any < 0 \<or> acc > cutoff \<or> acc = cutoff \<and> sint c > sint cutlim then (- 1, acc)
     else (1, acc * bas + c))"

definition conv_loop :: "s32 \<Rightarrow> u32 \<Rightarrow> s32 \<Rightarrow> bytemem \<Rightarrow> conv_state \<Rightarrow> conv_state option" where
  "conv_loop bas cutoff cutlim m = while_option
     (\<lambda>(c, _). case digit_value c of None \<Rightarrow> False | Some v \<Rightarrow> \<not> sint v \<ge> sint bas)
     (\<lambda>(c, s, st). (ucast (m s), s + 1, conv_digit bas cutoff cutlim (the (digit_value c)) st))"

text \<open>White space, sign and base prefix: the character after them, the read position, whether
  there was a minus sign, and the base.\<close>

definition skip_space :: "bytemem \<Rightarrow> u32 \<Rightarrow> (u32 \<times> u32) option" where
  "skip_space m nptr = while_option (\<lambda>(c, _). isspace c \<noteq> 0) (\<lambda>(_, s). (ucast (m s), s + 1)) (ucast (m nptr), nptr + 1)"

definition read_sign :: "bytemem \<Rightarrow> u32 \<times> u32 \<Rightarrow> bool \<times> u32 \<times> u32" where
  "read_sign m = (\<lambda>(c, s).
     if c = 45 then (True, ucast (m s), s + 1)
     else if c = 43 then (False, ucast (m s), s + 1)
     else (False, c, s))"

definition read_base :: "bytemem \<Rightarrow> s32 \<Rightarrow> u32 \<times> u32 \<Rightarrow> s32 \<times> u32 \<times> u32" where
  "read_base m bas = (\<lambda>(c, s).
     let (bas, c, s) = (if (bas = 0 \<or> bas = 16) \<and> c = 48 \<and> (m s = 120 \<or> m s = 88)
                         then (16, ucast (m (s + 1)), s + 2) else (bas, c, s));
         bas = (if bas = 0 then (if c = 48 then 8 else 10) else bas)
     in (bas, c, s))"

definition LONG_MAX :: u32 where "LONG_MAX = 2147483647"
definition LONG_MIN :: u32 where "LONG_MIN = - LONG_MAX - 1"
definition ULONG_MAX :: u32 where "ULONG_MAX = LONG_MAX * 2 + 1"
definition ERANGE :: u32 where "ERANGE = 34"

text \<open>Storing through \<open>endptr\<close>, unless it is \<^verbatim>\<open>NULL\<close>.\<close>

definition store_end :: "u32 \<Rightarrow> u32 \<Rightarrow> bytemem \<Rightarrow> bytemem" where
  "store_end endptr v m = (if endptr \<noteq> 0 then st32 endptr v m else m)"

text \<open>The arguments are the string, the address for the end position, the base, \<^verbatim>\<open>errno\<close> and the
  memory; the results are the number, \<^verbatim>\<open>errno\<close> and the memory.\<close>

definition strtol_r :: "u32 \<Rightarrow> u32 \<Rightarrow> s32 \<Rightarrow> u32 \<Rightarrow> bytemem \<Rightarrow> (u32 \<times> u32 \<times> bytemem) option" where
  "strtol_r nptr endptr bas errno m = do {
     cs \<leftarrow> skip_space m nptr;
     let (neg, cs) = read_sign m cs;
     let (bas, c, s) = read_base m bas cs;
     let cutoff = (if neg then - LONG_MIN else LONG_MAX);
     let cutlim = cutoff mod bas;
     let cutoff = cutoff div bas;
     (c, s, any, acc) \<leftarrow> conv_loop bas cutoff cutlim m (c, s, 0, 0);
     let (acc, errno) = (if sint any < 0 then (if neg then LONG_MIN else LONG_MAX, ERANGE)
                         else if neg then (- acc, errno) else (acc, errno));
     Some (acc, errno, store_end endptr (if any \<noteq> 0 then s - 1 else nptr) m) }"

definition strtoul_r :: "u32 \<Rightarrow> u32 \<Rightarrow> s32 \<Rightarrow> u32 \<Rightarrow> bytemem \<Rightarrow> (u32 \<times> u32 \<times> bytemem) option" where
  "strtoul_r nptr endptr bas errno m = do {
     cs \<leftarrow> skip_space m nptr;
     let (neg, cs) = read_sign m cs;
     let (bas, c, s) = read_base m bas cs;
     let cutoff = ULONG_MAX div bas;
     let cutlim = ULONG_MAX mod bas;
     (c, s, any, acc) \<leftarrow> conv_loop bas cutoff cutlim m (c, s, 0, 0);
     let (acc, errno) = (if sint any < 0 then (ULONG_MAX, ERANGE)
                         else if neg then (- acc, errno) else (acc, errno));
     Some (acc, errno, store_end endptr (if any \<noteq> 0 then s - 1 else nptr) m) }"

definition strtol :: "u32 \<Rightarrow> u32 \<Rightarrow> s32 \<Rightarrow> u32 \<Rightarrow> bytemem \<Rightarrow> (u32 \<times> u32 \<times> bytemem) option" where
  "strtol s ptr bas errno m = strtol_r s ptr bas errno m"

definition strtoul :: "u32 \<Rightarrow> u32 \<Rightarrow> s32 \<Rightarrow> u32 \<Rightarrow> bytemem \<Rightarrow> (u32 \<times> u32 \<times> bytemem) option" where
  "strtoul s ptr bas errno m = strtoul_r s ptr bas errno m"

definition atol :: "u32 \<Rightarrow> u32 \<Rightarrow> bytemem \<Rightarrow> (u32 \<times> u32 \<times> bytemem) option" where
  "atol s errno m = strtol s 0 10 errno m"

definition atoi :: "u32 \<Rightarrow> u32 \<Rightarrow> bytemem \<Rightarrow> (u32 \<times> u32 \<times> bytemem) option" where
  "atoi s errno m = strtol s 0 10 errno m"

section \<open>Binary search\<close>

text \<open>The comparison of the key with the element at an address is a parameter. The variables are
  \<open>lower\<close> and \<open>upper\<close>; the result of a round is \<open>Some\<close> address once the element is found.\<close>

definition bsearch_index :: "u32 \<times> u32 \<Rightarrow> u32" where
  "bsearch_index = (\<lambda>(lower, upper). (lower + upper) div 2)"

definition bsearch_at :: "u32 \<Rightarrow> u32 \<Rightarrow> u32 \<times> u32 \<Rightarrow> u32" where
  "bsearch_at bas esz lu = bas + bsearch_index lu * esz"

definition bsearch :: "(u32 \<Rightarrow> s32) \<Rightarrow> u32 \<Rightarrow> u32 \<Rightarrow> u32 \<Rightarrow> u32 option" where
  "bsearch compar bas nmemb esz =
     (if nmemb = 0 \<or> esz = 0 then Some 0
      else do {
        (lower, upper) \<leftarrow> while_option
          (\<lambda>lu. fst lu < snd lu \<and> compar (bsearch_at bas esz lu) \<noteq> 0)
          (\<lambda>lu. if sint (compar (bsearch_at bas esz lu)) < 0 then (fst lu, bsearch_index lu)
                else (bsearch_index lu + 1, snd lu))
          (0, nmemb);
        Some (if lower < upper then bsearch_at bas esz (lower, upper) else 0) })"

end
