(* ===== verification/LibcStringCorrect.thy ===== *)
theory LibcStringCorrect
  imports LibcString
begin

text \<open>
  What the memory and string functions do. The fast bodies are shown equal to the plain ones
  for every argument, divergence included: a loop that takes several steps of another loop at
  once, as long as the slower loop would take them, leads to the same result (locale
  \<open>strided_loop\<close>, interpreted for every pair of loops of the source). The plain bodies are then
  shown to do what the functions promise.
\<close>

unbundle bit_operations_syntax

section \<open>Null bytes\<close>

lemma ucast_u8_pred: "(ucast b :: u32) - 1 = ucast (b - 1) - (if b = 0 then 256 else 0)" for b :: u8
proof (cases "b = 0")
  case False
  then have "unat b = unat (b - 1) + 1" using unat_minus_one [of b] unat_gt_0 [of b] by simp
  then have "(of_nat (unat b) :: u32) = of_nat (unat (b - 1) + 1)" by simp
  then show ?thesis using False by simp
qed (simp add: unsigned_minus_1_eq_mask mask_eq_exp_minus_1)

lemma ld32_sum:
  "ld32 m a = ucast (m a) + push_bit 8 (ucast (m (a + 1))) + push_bit 16 (ucast (m (a + 2))) + push_bit 24 (ucast (m (a + 3)))"
proof -
  have "ucast (m a) + push_bit 8 (ucast (m (a + 1))) = (ucast (m a) OR push_bit 8 (ucast (m (a + 1))) :: u32)"
    by (rule disjunctive_add) (auto simp: bit_simps dest: bit_imp_le_length)
  moreover have "(ucast (m a) OR push_bit 8 (ucast (m (a + 1))) :: u32) + push_bit 16 (ucast (m (a + 2)))
      = ucast (m a) OR push_bit 8 (ucast (m (a + 1))) OR push_bit 16 (ucast (m (a + 2)))"
    by (subst disjunctive_add) (auto simp: bit_simps or.assoc dest!: bit_imp_le_length)
  moreover have "(ucast (m a) OR push_bit 8 (ucast (m (a + 1))) OR push_bit 16 (ucast (m (a + 2))) :: u32)
      + push_bit 24 (ucast (m (a + 3))) = ld32 m a"
    unfolding ld32_def by (subst disjunctive_add) (auto simp: bit_simps or.assoc dest!: bit_imp_le_length)
  ultimately show ?thesis by simp
qed

text \<open>A byte is null exactly when subtracting one sets its top bit although it was clear.\<close>

lemma u8_pred_top: "bit (b - 1) 7 \<and> \<not> bit b 7 \<longleftrightarrow> b = 0" for b :: u8
proof (cases "b = 0")
  case False
  then have "unat b = unat (b - 1) + 1" using unat_minus_one [of b] unat_gt_0 [of b] by simp
  moreover have "bit c 7 \<longleftrightarrow> unat c \<ge> 128" for c :: u8
  proof -
    have "bit (unat c) 7 = bit c 7" by (simp add: bit_unsigned_iff)
    moreover have "unat c div 128 = (if unat c \<ge> 128 then 1 else 0)"
      using unsigned_less [of c, where ?'a = nat] by auto
    ultimately show ?thesis using bit_iff_odd [of "unat c" 7] by (simp split: if_splits)
  qed
  ultimately show ?thesis using False unsigned_less [of b, where ?'a = nat] by auto
qed (simp add: bit_simps)


lemma low_bits_add_push:
  fixes w z :: u32
  assumes "k < n"
  shows "bit (w + push_bit n z) k \<longleftrightarrow> bit w k"
proof -
  have "bit (x + push_bit n y) k \<longleftrightarrow> bit x k" for x y :: int
  proof -
    have "take_bit n (x + push_bit n y) = take_bit n x"
      using take_bit_add [of n x "push_bit n y"] by (simp add: take_bit_push_bit)
    then show ?thesis using assms by (metis bit_take_bit_iff)
  qed
  then show ?thesis by transfer (simp add: bit_take_bit_iff)
qed

lemma word_pred_bit:
  fixes lo :: u32 and b :: u8
  assumes "\<And>k. n \<le> k \<Longrightarrow> \<not> bit lo k" "n + 8 \<le> 32"
  shows "bit (lo + push_bit n (ucast b - 1) + push_bit (n + 8) z) (n + 7) \<longleftrightarrow> bit (b - 1) 7"
proof -
  have "push_bit n (256 :: u32) = push_bit (n + 8) 1" by (simp add: push_bit_eq_mult power_add)
  then have "push_bit n (ucast b - 1 :: u32) = push_bit n (ucast (b - 1)) + push_bit (n + 8) (if b = 0 then - 1 else 0)"
    by (simp add: ucast_u8_pred push_bit_eq_mult algebra_simps power_add)
  then have "lo + push_bit n (ucast b - 1) + push_bit (n + 8) z
      = (lo + push_bit n (ucast (b - 1))) + push_bit (n + 8) ((if b = 0 then - 1 else 0) + z)"
    by (simp add: push_bit_add)
  then have "bit (lo + push_bit n (ucast b - 1) + push_bit (n + 8) z) (n + 7) \<longleftrightarrow> bit (lo + push_bit n (ucast (b - 1))) (n + 7)"
    by (simp only: low_bits_add_push)
  also have "lo + push_bit n (ucast (b - 1)) = lo OR push_bit n (ucast (b - 1))"
    by (rule disjunctive_add) (use assms(1) in \<open>auto simp: bit_simps not_le\<close>)
  also have "bit (lo OR push_bit n (ucast (b - 1))) (n + 7) \<longleftrightarrow> bit (b - 1) 7"
    using assms by (simp add: bit_simps)
  finally show ?thesis .
qed

lemma DETECTNULL_bits:
  "DETECTNULL X = 0 \<longleftrightarrow> (\<forall>k\<in>{7, 15, 23, 31}. bit (X - 0x01010101) k \<longrightarrow> bit X k)"
proof -
  have c: "bit (0x80808080 :: u32) k \<longleftrightarrow> k \<in> {7, 15, 23, 31}" for k
  proof -
    have "(0x80808080 :: u32) = push_bit 7 1 OR push_bit 15 1 OR push_bit 23 1 OR push_bit 31 1" by simp
    then show ?thesis by (simp only: bit_or_iff bit_push_bit_iff) (auto simp: bit_simps)
  qed
  have "bit (DETECTNULL X) k \<longleftrightarrow> k \<in> {7, 15, 23, 31} \<and> bit (X - 0x01010101) k \<and> \<not> bit X k" for k
    unfolding DETECTNULL_def by (simp only: bit_and_iff bit_not_iff c) (auto simp: possible_bit_word)
  moreover have "DETECTNULL X = 0 \<longleftrightarrow> (\<forall>k. \<not> bit (DETECTNULL X) k)" by (auto intro: bit_word_eqI)
  ultimately show ?thesis by blast
qed

lemma no_high_bits:
  "8 \<le> k \<Longrightarrow> \<not> bit (ucast (b0 :: u8) :: u32) k"
  "16 \<le> k \<Longrightarrow> \<not> bit (ucast (b0 :: u8) + push_bit 8 (ucast (b1 :: u8)) :: u32) k"
  "24 \<le> k \<Longrightarrow> \<not> bit (ucast (b0 :: u8) + push_bit 8 (ucast (b1 :: u8)) + push_bit 16 (ucast (b2 :: u8)) :: u32) k"
proof -
  let ?l = "ucast b0 :: u32" and ?m = "push_bit 8 (ucast b1) :: u32" and ?h = "push_bit 16 (ucast b2) :: u32"
  show "8 \<le> k \<Longrightarrow> \<not> bit ?l k" by (auto simp: bit_simps dest: bit_imp_le_length)
  have lm: "?l + ?m = ?l OR ?m" by (rule disjunctive_add) (auto simp: bit_simps dest: bit_imp_le_length)
  then show "16 \<le> k \<Longrightarrow> \<not> bit (?l + ?m) k" by (auto simp: bit_simps dest: bit_imp_le_length)
  have "?l + ?m + ?h = ?l OR ?m OR ?h"
    unfolding lm by (subst disjunctive_add) (auto simp: bit_simps or.assoc dest!: bit_imp_le_length)
  then show "24 \<le> k \<Longrightarrow> \<not> bit (?l + ?m + ?h) k" by (auto simp: bit_simps dest: bit_imp_le_length)
qed

text \<open>The test finds exactly the words with a null byte: below the first null byte no borrow occurs.\<close>

lemma DETECTNULL_ld32:
  "DETECTNULL (ld32 m a) = 0 \<longleftrightarrow> m a \<noteq> 0 \<and> m (a + 1) \<noteq> 0 \<and> m (a + 2) \<noteq> 0 \<and> m (a + 3) \<noteq> 0"
proof -
  define b0 b1 b2 b3 where b: "b0 = m a" "b1 = m (a + 1)" "b2 = m (a + 2)" "b3 = m (a + 3)"
  let ?X = "ld32 m a" and ?u = "\<lambda>b :: u8. ucast b :: u32"
  define Y where "Y = ?X - 0x01010101"
  have Y: "Y = (?u b0 - 1) + push_bit 8 (?u b1 - 1) + push_bit 16 (?u b2 - 1) + push_bit 24 (?u b3 - 1)"
    by (simp add: Y_def ld32_sum b push_bit_eq_mult algebra_simps)
  have pred: "?u c - 1 = ?u (c - 1)" if "c \<noteq> 0" for c using ucast_u8_pred [of c] that by simp
  have X: "bit ?X 7 = bit b0 7" "bit ?X 15 = bit b1 7" "bit ?X 23 = bit b2 7" "bit ?X 31 = bit b3 7"
    by (simp_all add: bit_ld32 b)
  have "Y = 0 + push_bit 0 (?u b0 - 1) + push_bit (0 + 8) ((?u b1 - 1) + push_bit 8 (?u b2 - 1) + push_bit 16 (?u b3 - 1))"
    unfolding Y by (simp add: push_bit_add)
  then have y0: "bit Y 7 = bit (b0 - 1) 7" using word_pred_bit [of 0 0 b0] by simp
  have "Y = ?u (b0 - 1) + push_bit 8 (?u b1 - 1) + push_bit (8 + 8) ((?u b2 - 1) + push_bit 8 (?u b3 - 1))" if "b0 \<noteq> 0"
    unfolding Y pred [OF that] by (simp add: push_bit_add)
  then have y1: "bit Y 15 = bit (b1 - 1) 7" if "b0 \<noteq> 0"
    using word_pred_bit [of 8 "?u (b0 - 1)" b1, OF no_high_bits(1)] that by simp
  have "Y = (?u (b0 - 1) + push_bit 8 (?u (b1 - 1))) + push_bit 16 (?u b2 - 1) + push_bit (16 + 8) (?u b3 - 1)" if "b0 \<noteq> 0" "b1 \<noteq> 0"
    unfolding Y pred [OF that(1)] pred [OF that(2)] by simp
  then have y2: "bit Y 23 = bit (b2 - 1) 7" if "b0 \<noteq> 0" "b1 \<noteq> 0"
    using word_pred_bit [of 16 "?u (b0 - 1) + push_bit 8 (?u (b1 - 1))" b2, OF no_high_bits(2)] that by simp
  have "Y = (?u (b0 - 1) + push_bit 8 (?u (b1 - 1)) + push_bit 16 (?u (b2 - 1))) + push_bit 24 (?u b3 - 1) + push_bit (24 + 8) 0"
    if "b0 \<noteq> 0" "b1 \<noteq> 0" "b2 \<noteq> 0"
    unfolding Y pred [OF that(1)] pred [OF that(2)] pred [OF that(3)] by simp
  then have y3: "bit Y 31 = bit (b3 - 1) 7" if "b0 \<noteq> 0" "b1 \<noteq> 0" "b2 \<noteq> 0"
    using word_pred_bit [of 24 "?u (b0 - 1) + push_bit 8 (?u (b1 - 1)) + push_bit 16 (?u (b2 - 1))" b3, OF no_high_bits(3)] that by simp
  have "DETECTNULL ?X = 0 \<longleftrightarrow> (bit Y 7 \<longrightarrow> bit b0 7) \<and> (bit Y 15 \<longrightarrow> bit b1 7) \<and> (bit Y 23 \<longrightarrow> bit b2 7) \<and> (bit Y 31 \<longrightarrow> bit b3 7)"
    by (simp add: DETECTNULL_bits X Y_def)
  then show ?thesis
    using y0 y1 y2 y3 u8_pred_top [of b0] u8_pred_top [of b1] u8_pred_top [of b2] u8_pred_top [of b3]
    unfolding b [symmetric] by blast
qed

lemma ld32_xor: "ld32 m a XOR ld32 n b = ld32 (\<lambda>x. m x XOR n (b + (x - a))) a"
  by (rule bit_word_eqI) (auto simp: bit_xor_iff bit_ld32)

lemma ld32_const: "ld32 (\<lambda>_. c) a = ucast c OR push_bit 8 (ucast c) OR push_bit 16 (ucast c) OR push_bit 24 (ucast c)"
  by (simp add: ld32_def)

lemma u8_xor_eq_0: "a XOR b = 0 \<longleftrightarrow> a = b" for a b :: u8
  by (auto simp: bit_eq_iff bit_xor_iff)

lemma DETECT_mask:
  "DETECTNULL (ld32 m a XOR ld32 (\<lambda>_. c) b) = 0 \<longleftrightarrow> m a \<noteq> c \<and> m (a + 1) \<noteq> c \<and> m (a + 2) \<noteq> c \<and> m (a + 3) \<noteq> c"
  by (simp add: ld32_xor DETECTNULL_ld32 u8_xor_eq_0)

lemma funpow_4: "(f ^^ 4) x = f (f (f (f x)))"
  by (simp add: numeral_eq_Suc)

lemma strchr_mask_word: "strchr_mask c = ld32 (\<lambda>_. c) b"
  unfolding strchr_mask_def ld32_const funpow_4
  by (rule bit_word_eqI) (auto simp: bit_simps dest: bit_imp_le_length)

lemma low_byte: "c AND 0xFF = ucast (ucast c :: u8)" for c :: u32
proof -
  have FF: "(0xFF :: u32) = mask 8" by (simp add: mask_eq_exp_minus_1)
  show ?thesis unfolding FF by (auto intro!: bit_word_eqI simp: bit_simps dest: bit_imp_le_length)
qed

lemma fill_buffer_word: "fill_buffer (ucast c) = ld32 (\<lambda>_. c) b"
  unfolding fill_buffer_def ld32_const Let_def
  by (rule bit_word_eqI) (auto simp: bit_simps dest: bit_imp_le_length)

lemma memchr_mask_word: "memchr_mask (ucast (c :: u8)) = ld32 (\<lambda>_. c) b"
  unfolding memchr_mask_def ld32_sum funpow_4
  by (simp add: push_bit_eq_mult algebra_simps)

section \<open>Loops that take several steps at once\<close>

lemma while_option_skip:
  assumes "\<And>i. i < n \<Longrightarrow> b ((c ^^ i) s)"
  shows "while_option b c ((c ^^ n) s) = while_option b c s"
  using assms
proof (induction n)
  case (Suc n)
  have "while_option b c ((c ^^ n) s) = while_option b c (c ((c ^^ n) s))"
    using Suc.prems [of n] by (subst while_option_unfold) simp
  then show ?case using Suc by simp
qed simp

lemma while_option_None_iff: "while_option b c s = None \<longleftrightarrow> (\<forall>k. b ((c ^^ k) s))"
  by (auto simp: while_option_def)

text \<open>The contract between a fast loop and the plain one: on states that satisfy \<open>inv\<close>, a step of
  the fast loop is \<open>k\<close> steps of the plain one, none of which would have ended it.\<close>

locale strided_loop =
  fixes b :: "'s \<Rightarrow> bool" and c :: "'s \<Rightarrow> 's"
    and B :: "'s \<Rightarrow> bool" and C :: "'s \<Rightarrow> 's"
    and k :: nat and inv :: "'s \<Rightarrow> bool"
  assumes stride: "0 < k"
    and fast_step: "inv s \<Longrightarrow> B s \<Longrightarrow> C s = (c ^^ k) s"
    and fast_guard: "inv s \<Longrightarrow> B s \<Longrightarrow> i < k \<Longrightarrow> b ((c ^^ i) s)"
    and fast_keeps: "inv s \<Longrightarrow> B s \<Longrightarrow> inv (C s)"
begin

lemma diverges:
  assumes "inv s" "while_option B C s = None"
  shows "while_option b c s = None"
proof -
  have run: "B ((C ^^ n) s)" for n using assms(2) by (simp add: while_option_None_iff)
  have at: "inv ((C ^^ n) s) \<and> (C ^^ n) s = (c ^^ (k * n)) s" for n
  proof (induction n)
    case (Suc n)
    then show ?case
      using fast_step [of "(C ^^ n) s"] fast_keeps [of "(C ^^ n) s"] run [of n]
      by (auto simp: funpow_add)
  qed (simp add: assms)
  have "b ((c ^^ j) s)" for j
  proof -
    have "b ((c ^^ (j mod k)) ((C ^^ (j div k)) s))"
      by (rule fast_guard) (simp_all add: conjunct1 [OF at] run stride)
    moreover have "(c ^^ (j mod k + k * (j div k))) s = (c ^^ (j mod k)) ((c ^^ (k * (j div k))) s)"
      by (simp only: funpow_add comp_apply)
    ultimately show ?thesis using at [of "j div k"] by (simp only: mod_mult_div_eq)
  qed
  then show ?thesis by (simp add: while_option_None_iff)
qed

lemma agree:
  assumes "inv s"
  shows "while_option B C s \<bind> while_option b c = while_option b c s"
proof (cases "while_option B C s")
  case (Some t)
  have "inv t \<and> while_option b c t = while_option b c s"
  proof (rule while_option_rule [OF _ Some])
    fix t assume "inv t \<and> while_option b c t = while_option b c s" "B t"
    then show "inv (C t) \<and> while_option b c (C t) = while_option b c s"
      using fast_step [of t] fast_keeps [of t] while_option_skip [of k b c t] fast_guard [of t] by simp
  qed (simp add: assms)
  then show ?thesis using Some by simp
qed (use diverges [OF assms] in simp)

lemma stops: "inv s \<Longrightarrow> while_option B C s = Some t \<Longrightarrow> inv t"
  by (rule while_option_rule [where P = inv]) (auto intro: fast_keeps)

end

section \<open>Alignment\<close>

lemma aligned_iff: "a AND 3 = 0 \<longleftrightarrow> 0x40000000 * a = 0" for a :: u32
proof -
  have three: "(3 :: u32) = mask 2" by (simp add: mask_eq_exp_minus_1)
  have "a AND 3 = 0 \<longleftrightarrow> (\<forall>j<2. \<not> bit a j)"
  proof -
    have lt: "j < 2 \<Longrightarrow> j < 32" for j :: nat by simp
    show ?thesis unfolding three by (simp add: bit_eq_iff bit_and_iff bit_mask_iff) (use lt in blast)
  qed
  moreover have "push_bit 30 a = 0 \<longleftrightarrow> (\<forall>j<2. \<not> bit a j)"
  proof
    assume "push_bit 30 a = 0"
    then have "\<not> bit (push_bit 30 a) (j + 30)" for j by simp
    then show "\<forall>j<2. \<not> bit a j" by (auto simp: bit_push_bit_iff)
  qed (auto intro!: bit_word_eqI simp: bit_push_bit_iff)
  ultimately show ?thesis by (simp add: push_bit_eq_mult mult.commute)
qed

lemma aligned_step [simp]: "(a + 4) AND 3 = 0 \<longleftrightarrow> a AND 3 = 0" for a :: u32
proof -
  have "(0x40000000 :: u32) * 4 = 0" by (simp add: word_eq_iff_unsigned)
  then show ?thesis by (simp only: aligned_iff distrib_left add_0_right)
qed

text \<open>Aligned words are equal or do not overlap.\<close>

lemma aligned_apart:
  fixes s d :: u32
  assumes "s AND 3 = 0" "d AND 3 = 0"
  shows "s + 1 \<noteq> d" "s + 2 \<noteq> d" "s + 3 \<noteq> d" "s + 2 \<noteq> d + 1" "s + 3 \<noteq> d + 1" "s + 3 \<noteq> d + 2"
proof -
  have "0x40000000 * i = 0x40000000 * j" if "s + i = d + j" for i j
  proof -
    have "0x40000000 * (s + i) = 0x40000000 * (d + j)" by (simp only: that)
    then show ?thesis using assms by (simp only: aligned_iff distrib_left add_0_left)
  qed
  from this [of 1 0] this [of 2 0] this [of 3 0] this [of 2 1] this [of 3 1] this [of 3 2]
  show "s + 1 \<noteq> d" "s + 2 \<noteq> d" "s + 3 \<noteq> d" "s + 2 \<noteq> d + 1" "s + 3 \<noteq> d + 1" "s + 3 \<noteq> d + 2"
    by auto
qed

lemma UNALIGNED_0:
  "UNALIGNED_1 x = 0 \<longleftrightarrow> x AND 3 = 0" "UNALIGNED_2 x y = 0 \<longleftrightarrow> x AND 3 = 0 \<and> y AND 3 = 0"
  by (auto simp: UNALIGNED_1_def UNALIGNED_2_def or_eq_0_iff)

lemma four_steps:
  assumes "b s" "b (c s)" "b (c (c s))" "b (c (c (c s)))" "i < 4"
  shows "b ((c ^^ i) s)"
proof -
  have "i = 0 \<or> i = Suc 0 \<or> i = Suc (Suc 0) \<or> i = Suc (Suc (Suc 0))" using assms(5) by auto
  then show ?thesis using assms by auto
qed

lemma u32_at_least_4: "4 \<le> n \<Longrightarrow> n \<noteq> 0 \<and> n \<noteq> 1 \<and> n \<noteq> 2 \<and> n \<noteq> 3" for n :: u32
  by (auto simp: word_le_nat_alt)

lemma u32_at_least_16: "16 \<le> n \<Longrightarrow> 4 \<le> n \<and> 4 \<le> n - 4 \<and> 4 \<le> n - 8 \<and> 4 \<le> n - 12" for n :: u32
proof -
  assume n: "16 \<le> n"
  have n16: "16 \<le> unat n" using n by (simp add: word_le_nat_alt)
  have "unat (n - k) = unat n - unat k" if "k \<le> 16" for k
    using n that by (simp add: unat_sub)
  from n16 this [of 4] this [of 8] this [of 12] show ?thesis by (auto simp: word_le_nat_alt)
qed

lemmas block_sizes = BIGBLOCKSIZE_def LBLOCKSIZE_def

section \<open>The loops of the fast bodies\<close>

interpretation copying_words: strided_loop "\<lambda>(len, _). len \<noteq> 0" copy_byte "\<lambda>(len, _). len \<ge> LBLOCKSIZE" copy_word 4
  "\<lambda>(_, dst, src, _). dst AND 3 = 0 \<and> src AND 3 = 0"
proof unfold_locales
  fix st :: copy_state and i :: nat
  assume *: "case st of (_, dst, src, _) \<Rightarrow> dst AND 3 = 0 \<and> src AND 3 = 0" "case st of (len, _) \<Rightarrow> len \<ge> LBLOCKSIZE"
  obtain len dst src m where st: "st = (len, dst, src, m)" by (cases st)
  have al: "dst AND 3 = 0" "src AND 3 = 0" and len: "4 \<le> len" using * by (simp_all add: st block_sizes)
  show "copy_word st = (copy_byte ^^ 4) st"
    using aligned_apart [OF al(2,1)]
    by (simp add: funpow_4 st copy_word_def copy_byte_def block_sizes st32_def ld32_bytes add.assoc)
  show "case (copy_byte ^^ i) st of (len, _) \<Rightarrow> len \<noteq> 0" if "i < 4"
    by (rule four_steps [OF _ _ _ _ that]) (use u32_at_least_4 [OF len] in \<open>auto simp: st copy_byte_def\<close>)
  show "case copy_word st of (_, dst, src, _) \<Rightarrow> dst AND 3 = 0 \<and> src AND 3 = 0"
    using al by (simp add: st copy_word_def)
qed simp

interpretation copying_blocks: strided_loop "\<lambda>(len, _). len \<ge> LBLOCKSIZE" copy_word "\<lambda>(len, _). len \<ge> BIGBLOCKSIZE" copy_block 4 "\<lambda>_. True"
proof unfold_locales
  fix st :: copy_state and i :: nat
  assume *: "case st of (len, _) \<Rightarrow> len \<ge> BIGBLOCKSIZE"
  obtain len dst src m where st: "st = (len, dst, src, m)" by (cases st)
  show "copy_block st = (copy_word ^^ 4) st"
    by (simp add: funpow_4 st copy_word_def copy_block_def Let_def block_sizes add.assoc)
  show "case (copy_word ^^ i) st of (len, _) \<Rightarrow> len \<ge> LBLOCKSIZE" if "i < 4"
    by (rule four_steps [OF _ _ _ _ that])
      (use * u32_at_least_16 [of len] in \<open>auto simp: st copy_word_def block_sizes\<close>)
qed simp_all

interpretation filling_words: strided_loop "\<lambda>(n, _). n \<noteq> 0" "fill_byte c" "\<lambda>(n, _). n \<ge> LBLOCKSIZE" "fill_word (fill_buffer (ucast c))" 4 "\<lambda>_. True"
  for c
proof unfold_locales
  fix st :: fill_state and i :: nat
  assume *: "case st of (n, _) \<Rightarrow> n \<ge> LBLOCKSIZE"
  obtain n a m where st: "st = (n, a, m)" by (cases st)
  have "fill_buffer (ucast c) = ld32 (\<lambda>_. c) a" by (rule fill_buffer_word)
  then show "fill_word (fill_buffer (ucast c)) st = (fill_byte c ^^ 4) st"
    by (simp add: funpow_4 st fill_word_def fill_byte_def block_sizes st32_def ld32_bytes add.assoc)
  show "case (fill_byte c ^^ i) st of (n, _) \<Rightarrow> n \<noteq> 0" if "i < 4"
    by (rule four_steps [OF _ _ _ _ that]) (use * u32_at_least_4 [of n] in \<open>auto simp: st fill_byte_def block_sizes\<close>)
qed simp_all

interpretation filling_blocks: strided_loop "\<lambda>(n, _). n \<ge> LBLOCKSIZE" "fill_word w" "\<lambda>(n, _). n \<ge> LBLOCKSIZE * 4" "fill_block w" 4 "\<lambda>_. True"
  for w
proof unfold_locales
  fix st :: fill_state and i :: nat
  assume *: "case st of (n, _) \<Rightarrow> n \<ge> LBLOCKSIZE * 4"
  obtain n a m where st: "st = (n, a, m)" by (cases st)
  show "fill_block w st = (fill_word w ^^ 4) st"
    by (simp add: funpow_4 st fill_word_def fill_block_def block_sizes add.assoc)
  show "case (fill_word w ^^ i) st of (n, _) \<Rightarrow> n \<ge> LBLOCKSIZE" if "i < 4"
    by (rule four_steps [OF _ _ _ _ that]) (use * u32_at_least_16 [of n] in \<open>auto simp: st fill_word_def block_sizes\<close>)
qed simp_all

interpretation comparing_words: strided_loop "\<lambda>(n, s1, s2). n \<noteq> 0 \<and> m s1 = m s2" "\<lambda>(n, s1, s2). (n - 1, s1 + 1, s2 + 1)"
  "\<lambda>(n, a1, a2). n \<ge> LBLOCKSIZE \<and> ld32 m a1 = ld32 m a2" "\<lambda>(n, a1, a2). (n - LBLOCKSIZE, a1 + 4, a2 + 4)" 4 "\<lambda>_. True"
  for m :: bytemem
proof unfold_locales
  fix st :: "u32 \<times> u32 \<times> u32" and i :: nat
  assume *: "case st of (n, a1, a2) \<Rightarrow> n \<ge> LBLOCKSIZE \<and> ld32 m a1 = ld32 m a2"
  obtain n a1 a2 where st: "st = (n, a1, a2)" by (cases st)
  show "case ((\<lambda>(n, s1, s2). (n - 1, s1 + 1, s2 + 1)) ^^ i) st of (n, s1, s2) \<Rightarrow> n \<noteq> 0 \<and> m s1 = m s2" if "i < 4"
    by (rule four_steps [OF _ _ _ _ that])
      (use * u32_at_least_4 [of n] in \<open>auto simp: st block_sizes ld32_eq_iff add.assoc\<close>)
qed (auto simp: funpow_4 block_sizes add.assoc)

lemma ucast_u8_eq: "(ucast a :: u32) = ucast b \<longleftrightarrow> a = b" for a b :: u8
proof -
  have "(ucast (ucast x :: u32) :: u8) = x" for x :: u8 by (rule bit_word_eqI) (simp add: bit_simps)
  then show ?thesis by metis
qed

lemma memchr_hit_None:
  "memchr_hit m (ucast c) (memchr_mask (ucast (c :: u8))) a = None
     \<longleftrightarrow> m a \<noteq> c \<and> m (a + 1) \<noteq> c \<and> m (a + 2) \<noteq> c \<and> m (a + 3) \<noteq> c"
  using memchr_mask_word [of c a] by (auto simp: memchr_hit_def DETECT_mask ucast_u8_eq)

interpretation searching_words: strided_loop "\<lambda>(n, src). n \<noteq> 0 \<and> ucast (m src) \<noteq> (ucast c :: u32)" "\<lambda>(n, src). (n - 1, src + 1)"
  "\<lambda>(n, asrc). n \<ge> LBLOCKSIZE \<and> memchr_hit m (ucast c) (memchr_mask (ucast (c :: u8))) asrc = None"
  "\<lambda>(n, asrc). (n - LBLOCKSIZE, asrc + 4)" 4 "\<lambda>_. True"
  for m :: bytemem and c
proof unfold_locales
  fix st :: "u32 \<times> u32" and i :: nat
  assume *: "case st of (n, asrc) \<Rightarrow> n \<ge> LBLOCKSIZE \<and> memchr_hit m (ucast c) (memchr_mask (ucast c)) asrc = None"
  obtain n a where st: "st = (n, a)" by (cases st)
  show "case ((\<lambda>(n, src). (n - 1, src + 1)) ^^ i) st of (n, src) \<Rightarrow> n \<noteq> 0 \<and> ucast (m src) \<noteq> (ucast c :: u32)" if "i < 4"
    by (rule four_steps [OF _ _ _ _ that])
      (use * u32_at_least_4 [of n] in \<open>auto simp: st block_sizes memchr_hit_None ucast_u8_eq add.assoc\<close>)
qed (auto simp: funpow_4 block_sizes add.assoc)

interpretation string_words: strided_loop "\<lambda>s. m s \<noteq> 0" "\<lambda>s. s + 1" "\<lambda>a. DETECTNULL (ld32 m a) = 0" "\<lambda>a. a + 4" 4 "\<lambda>_. True"
  for m :: bytemem
proof unfold_locales
  fix a :: u32 and i :: nat
  assume *: "DETECTNULL (ld32 m a) = 0"
  show "m (((\<lambda>s. s + 1) ^^ i) a) \<noteq> 0" if "i < 4"
    by (rule four_steps [where b = "\<lambda>s. m s \<noteq> 0" and c = "\<lambda>s. s + 1", OF _ _ _ _ that])
      (use * in \<open>auto simp: DETECTNULL_ld32 add.assoc\<close>)
qed (auto simp: funpow_4 add.assoc)

interpretation char_words: strided_loop "\<lambda>s. m s \<noteq> 0 \<and> m s \<noteq> c" "\<lambda>s. s + 1"
  "\<lambda>a. DETECTNULL (ld32 m a) = 0 \<and> DETECTCHAR (ld32 m a) (strchr_mask c) = 0" "\<lambda>a. a + 4" 4 "\<lambda>_. True"
  for m :: bytemem and c
proof unfold_locales
  fix a :: u32 and i :: nat
  assume *: "DETECTNULL (ld32 m a) = 0 \<and> DETECTCHAR (ld32 m a) (strchr_mask c) = 0"
  have "strchr_mask c = ld32 (\<lambda>_. c) a" by (rule strchr_mask_word)
  then show "m (((\<lambda>s. s + 1) ^^ i) a) \<noteq> 0 \<and> m (((\<lambda>s. s + 1) ^^ i) a) \<noteq> c" if "i < 4"
    by (intro four_steps [where b = "\<lambda>s. m s \<noteq> 0 \<and> m s \<noteq> c" and c = "\<lambda>s. s + 1", OF _ _ _ _ that])
      (use * in \<open>auto simp: DETECTNULL_ld32 DETECTCHAR_def DETECT_mask add.assoc\<close>)
qed (auto simp: funpow_4 add.assoc)

interpretation strcmp_stride: strided_loop "\<lambda>(s1, s2). m s1 \<noteq> 0 \<and> m s1 = m s2" "\<lambda>(s1, s2). (s1 + 1, s2 + 1)"
  "\<lambda>(a1, a2). ld32 m a1 = ld32 m a2 \<and> DETECTNULL (ld32 m a1) = 0" "\<lambda>(a1, a2). (a1 + 4, a2 + 4)" 4 "\<lambda>_. True"
  for m :: bytemem
proof unfold_locales
  fix st :: "u32 \<times> u32" and i :: nat
  assume *: "case st of (a1, a2) \<Rightarrow> ld32 m a1 = ld32 m a2 \<and> DETECTNULL (ld32 m a1) = 0"
  show "case ((\<lambda>(s1, s2). (s1 + 1, s2 + 1)) ^^ i) st of (s1, s2) \<Rightarrow> m s1 \<noteq> 0 \<and> m s1 = m s2" if "i < 4"
    by (rule four_steps [OF _ _ _ _ that]) (use * in \<open>auto simp: ld32_eq_iff DETECTNULL_ld32 add.assoc\<close>)
qed (auto simp: funpow_4 add.assoc)

lemma u32_above_4: "4 \<le> n \<Longrightarrow> n - 4 \<noteq> 0 \<Longrightarrow> n \<noteq> 0 \<and> n \<noteq> 1 \<and> n \<noteq> 2 \<and> n \<noteq> 3 \<and> n \<noteq> 4" for n :: u32
  using u32_at_least_4 [of n] by auto

interpretation strncmp_stride: strided_loop
  "\<lambda>(n :: u32, s1, s2). (n \<noteq> 0 \<and> m s1 = m s2) \<and> \<not> (n - 1 = 0 \<or> m s1 = 0)" "\<lambda>(n, s1, s2). (n - 1, s1 + 1, s2 + 1)"
  "\<lambda>(n, a1, a2). (n \<ge> 4 \<and> ld32 m a1 = ld32 m a2) \<and> \<not> (n - 4 = 0 \<or> DETECTNULL (ld32 m a1) \<noteq> 0)"
  "\<lambda>(n, a1, a2). (n - 4, a1 + 4, a2 + 4)" 4 "\<lambda>_. True"
  for m :: bytemem
proof unfold_locales
  fix st :: "u32 \<times> u32 \<times> u32" and i :: nat
  assume *: "case st of (n, a1, a2) \<Rightarrow> (n \<ge> 4 \<and> ld32 m a1 = ld32 m a2) \<and> \<not> (n - 4 = 0 \<or> DETECTNULL (ld32 m a1) \<noteq> 0)"
  obtain n a1 a2 where st: "st = (n, a1, a2)" by (cases st)
  show "case ((\<lambda>(n, s1, s2). (n - 1, s1 + 1, s2 + 1)) ^^ i) st of (n, s1, s2) \<Rightarrow> (n \<noteq> 0 \<and> m s1 = m s2) \<and> \<not> (n - 1 = 0 \<or> m s1 = 0)"
    if "i < 4"
    by (rule four_steps [OF _ _ _ _ that])
      (use * u32_above_4 [of n] in \<open>auto simp: st ld32_eq_iff DETECTNULL_ld32 add.assoc diff_diff_eq\<close>)
qed (auto simp: funpow_4 add.assoc)

interpretation strcpy_stride: strided_loop "\<lambda>(_, src, m). m src \<noteq> 0" strcpy_byte
  "\<lambda>(_, src, m). DETECTNULL (ld32 m src) = 0" "\<lambda>(dst, src, m). (dst + 4, src + 4, st32 dst (ld32 m src) m)" 4
  "\<lambda>(dst, src, _). dst AND 3 = 0 \<and> src AND 3 = 0"
proof unfold_locales
  fix st :: "u32 \<times> u32 \<times> bytemem" and i :: nat
  assume *: "case st of (dst, src, _) \<Rightarrow> dst AND 3 = 0 \<and> src AND 3 = 0" "case st of (_, src, m) \<Rightarrow> DETECTNULL (ld32 m src) = 0"
  obtain dst src m where st: "st = (dst, src, m)" by (cases st)
  have al: "dst AND 3 = 0" "src AND 3 = 0" using * by (simp_all add: st)
  note apart = aligned_apart [OF al(2,1)]
  show "(case st of (dst, src, m) \<Rightarrow> (dst + 4, src + 4, st32 dst (ld32 m src) m)) = (strcpy_byte ^^ 4) st"
    using apart by (simp add: funpow_4 st strcpy_byte_def st32_def ld32_bytes add.assoc)
  show "case (strcpy_byte ^^ i) st of (_, src, m) \<Rightarrow> m src \<noteq> 0" if "i < 4"
    by (rule four_steps [OF _ _ _ _ that])
      (use * apart in \<open>auto simp: st strcpy_byte_def DETECTNULL_ld32 add.assoc\<close>)
  show "case case st of (dst, src, m) \<Rightarrow> (dst + 4, src + 4, st32 dst (ld32 m src) m) of (dst, src, _) \<Rightarrow> dst AND 3 = 0 \<and> src AND 3 = 0"
    using al by (simp add: st)
qed simp

interpretation strncpy_stride: strided_loop "\<lambda>(count, _, src, m). count > 0 \<and> m src \<noteq> 0" copy_byte
  "\<lambda>(count, _, src, m). count \<ge> 4 \<and> DETECTNULL (ld32 m src) = 0" copy_word 4
  "\<lambda>(_, dst, src, _). dst AND 3 = 0 \<and> src AND 3 = 0"
proof unfold_locales
  fix st :: copy_state and i :: nat
  assume *: "case st of (_, dst, src, _) \<Rightarrow> dst AND 3 = 0 \<and> src AND 3 = 0"
    "case st of (count, _, src, m) \<Rightarrow> count \<ge> 4 \<and> DETECTNULL (ld32 m src) = 0"
  obtain len dst src m where st: "st = (len, dst, src, m)" by (cases st)
  have al: "dst AND 3 = 0" "src AND 3 = 0" and len: "4 \<le> len" using * by (simp_all add: st)
  note apart = aligned_apart [OF al(2,1)]
  show "copy_word st = (copy_byte ^^ 4) st"
    using copying_words.fast_step [of st] al len by (simp add: st block_sizes)
  show "case (copy_byte ^^ i) st of (count, _, src, m) \<Rightarrow> count > 0 \<and> m src \<noteq> 0" if "i < 4"
    by (rule four_steps [OF _ _ _ _ that])
      (use * apart u32_at_least_4 [OF len] in \<open>auto simp: st copy_byte_def DETECTNULL_ld32 word_gt_0 add.assoc\<close>)
  show "case copy_word st of (_, dst, src, _) \<Rightarrow> dst AND 3 = 0 \<and> src AND 3 = 0"
    using al by (simp add: st copy_word_def)
qed simp

section \<open>The fast bodies agree with the plain ones\<close>

lemma while_option_at:
  assumes "\<And>j. j < i \<Longrightarrow> b ((c ^^ j) s)" "\<not> b ((c ^^ i) s)"
  shows "while_option b c s = Some ((c ^^ i) s)"
  using while_option_skip [of i b c s, OF assms(1)] assms(2) by (simp add: while_option_unfold [of b c "(c ^^ i) s"])

lemma copy_fast_bytes: "copy_fast st = copy_bytes st"
proof -
  obtain len dst src m where st: "st = (len, dst, src, m)" by (cases st)
  have "copy_blocks st \<bind> copy_words = copy_words st"
    unfolding copy_blocks_def copy_words_def by (rule copying_blocks.agree) simp
  moreover have "copy_words st \<bind> copy_bytes = copy_bytes st" if "UNALIGNED_2 src dst = 0"
    unfolding copy_words_def copy_bytes_def by (rule copying_words.agree) (use that in \<open>simp add: st UNALIGNED_0\<close>)
  ultimately show ?thesis by (auto simp: copy_fast_def st)
qed

lemma memset_agrees: "memset p c n m = memset_small p c n m"
proof -
  have c: "c AND 0xFF = ucast (ucast c :: u8)" by (rule low_byte)
  have low: "(ucast (ucast x :: u32) :: u8) = x" for x :: u8 by (rule bit_word_eqI) (simp add: bit_simps)
  let ?w = "fill_buffer (c AND 0xFF)"
  have "fill_blocks ?w st \<bind> fill_words ?w = fill_words ?w st" for st
    unfolding fill_blocks_def fill_words_def by (rule filling_blocks.agree) simp
  moreover have "fill_words ?w (n, p, m) \<bind> fill_bytes (ucast c) = fill_bytes (ucast c) (n, p, m)"
    unfolding fill_words_def fill_bytes_def c by (rule filling_words.agree) simp
  ultimately show ?thesis
    unfolding memset_def memset_small_def c
    by (cases "fill_words ?w (n, p, m)") (simp_all add: Let_def c low)
qed


lemma memcmp_agrees: "memcmp m1 m2 n m = memcmp_small m1 m2 n m"
proof -
  have "memcmp_words m st \<bind> memcmp_bytes m = memcmp_bytes m st" for st
    unfolding memcmp_words_def memcmp_bytes_def
    by (simp only: comparing_words.agree [of m st, OF TrueI, symmetric] bind_assoc)
  then show ?thesis by (simp add: memcmp_def memcmp_small_def)
qed

text \<open>The byte loop finds the same byte as the inspection of the word.\<close>

lemma memchr_step:
  "memchr_bytes m c (n, src) =
     (if n \<noteq> 0 \<and> ucast (m src) \<noteq> c then memchr_bytes m c (n - 1, src + 1) else Some (if n \<noteq> 0 then src else 0))"
  unfolding memchr_bytes_def by (subst while_option_unfold) simp

lemma memchr_hit_bytes:
  assumes "4 \<le> n" "memchr_hit m (ucast (c :: u8)) (memchr_mask (ucast c)) a \<noteq> None"
  shows "memchr_bytes m (ucast c) (n, a) = memchr_hit m (ucast c) (memchr_mask (ucast c)) a"
proof -
  have "DETECTNULL (ld32 m a XOR memchr_mask (ucast c)) \<noteq> 0" using assms(2) by (auto simp: memchr_hit_def)
  moreover have "\<not> (m a \<noteq> c \<and> m (a + 1) \<noteq> c \<and> m (a + 2) \<noteq> c \<and> m (a + 3) \<noteq> c)"
    using assms(2) by (simp add: memchr_hit_None)
  ultimately show ?thesis
    using u32_at_least_4 [OF assms(1)]
    by (auto simp: memchr_hit_def ucast_u8_eq memchr_step [of _ _ n a] memchr_step [of _ _ "n - 1"]
        memchr_step [of _ _ "n - 2"] memchr_step [of _ _ "n - 3"] diff_diff_eq add.assoc)
qed

lemma memchr_agrees: "memchr src c n m = memchr_small src c n m"
proof -
  let ?c = "ucast c :: u8"
  let ?hit = "memchr_hit m (ucast ?c) (memchr_mask (ucast ?c))"
  have "do { (n, a) \<leftarrow> memchr_words m (ucast ?c) (memchr_mask (ucast ?c)) (n, src);
      if n \<ge> LBLOCKSIZE then ?hit a else memchr_bytes m (ucast ?c) (n, a) } = memchr_bytes m (ucast ?c) (n, src)"
  proof (cases "memchr_words m (ucast ?c) (memchr_mask (ucast ?c)) (n, src)")
    case None
    then show ?thesis
      using searching_words.diverges [of m ?c "(n, src)"] by (simp add: memchr_words_def memchr_bytes_def)
  next
    case (Some r)
    obtain n' a where r: "r = (n', a)" by (cases r)
    have "memchr_bytes m (ucast ?c) (n, src) = memchr_bytes m (ucast ?c) (n', a)"
      using searching_words.agree [of m ?c "(n, src)"] Some by (simp add: r memchr_words_def memchr_bytes_def)
    moreover have "n' \<ge> LBLOCKSIZE \<Longrightarrow> ?hit a \<noteq> None"
      using while_option_stop Some by (auto simp: r memchr_words_def dest!: while_option_stop)
    ultimately show ?thesis
      using Some memchr_hit_bytes [of n' m ?c a] by (auto simp: r block_sizes)
  qed
  then show ?thesis
    by (simp add: memchr_def memchr_small_def Let_def low_byte)
qed

lemma str_end_fast_bytes: "str_end_fast m s = str_end m s"
  unfolding str_end_fast_def str_end_words_def str_end_def by (simp add: string_words.agree)

lemma strlen_agrees: "strlen s m = strlen_small s m"
proof -
  have "strlen s m = do { e \<leftarrow> str_end_fast m s; Some (e - s) }"
    by (simp add: strlen_def str_end_fast_def)
  then show ?thesis by (simp add: str_end_fast_bytes strlen_small_def)
qed

lemma strchr_agrees: "strchr s i m = strchr_small s i m"
proof -
  have "(if UNALIGNED_1 s = 0 then chr_end_words m (strchr_mask c) s else Some s) \<bind> chr_end m c = chr_end m c s" for c
    unfolding chr_end_words_def chr_end_def by (simp add: char_words.agree)
  then have "strchr s i m = (let c = ucast i in do { s \<leftarrow> chr_end m c s; Some (if m s = c then s else 0) })"
    unfolding strchr_def Let_def by (simp flip: bind_assoc)
  then show ?thesis by (cases "chr_end m (ucast i) s") (simp_all add: strchr_small_def Let_def)
qed

lemma strcmp_step:
  "strcmp_bytes m (s1, s2) =
     (if m s1 \<noteq> 0 \<and> m s1 = m s2 then strcmp_bytes m (s1 + 1, s2 + 1) else Some (byte_diff m s1 s2))"
  unfolding strcmp_bytes_def by (subst while_option_unfold) simp

text \<open>Equal words with a null byte end the comparison with equality.\<close>

lemma strcmp_equal_words:
  assumes "ld32 m a1 = ld32 m a2" "DETECTNULL (ld32 m a1) \<noteq> 0"
  shows "strcmp_bytes m (a1, a2) = Some 0"
  using assms
  by (auto simp: ld32_eq_iff DETECTNULL_ld32 byte_diff_def strcmp_step [of m a1] strcmp_step [of m "a1 + 1"]
      strcmp_step [of m "a1 + 2"] strcmp_step [of m "a1 + 3"] add.assoc)

lemma strcmp_agrees: "strcmp s1 s2 m = strcmp_small s1 s2 m"
proof (cases "strcmp_words m (s1, s2)")
  case None
  then show ?thesis
    using strcmp_stride.diverges [of m "(s1, s2)"] by (simp add: strcmp_def strcmp_small_def strcmp_words_def strcmp_bytes_def)
next
  case (Some r)
  obtain a1 a2 where r: "r = (a1, a2)" by (cases r)
  have "strcmp_bytes m (s1, s2) = strcmp_bytes m (a1, a2)"
    using strcmp_stride.agree [of m "(s1, s2)"] Some by (simp add: r strcmp_words_def strcmp_bytes_def)
  moreover have "ld32 m a1 = ld32 m a2 \<Longrightarrow> DETECTNULL (ld32 m a1) \<noteq> 0"
    using Some by (auto simp: r strcmp_words_def dest!: while_option_stop)
  ultimately show ?thesis
    using Some strcmp_equal_words [of m a1 a2] by (auto simp: r strcmp_def strcmp_small_def)
qed

lemma strncmp_step:
  "strncmp_bytes m (n, s1, s2) =
     (if n \<noteq> 0 \<and> m s1 = m s2 then if n - 1 = 0 \<or> m s1 = 0 then Some 0 else strncmp_bytes m (n - 1, s1 + 1, s2 + 1)
      else Some (byte_diff m s1 s2))"
  unfolding strncmp_bytes_def strncmp_go_def by (subst while_option_unfold) simp

lemma strncmp_equal_words:
  assumes "4 \<le> n" "ld32 m a1 = ld32 m a2" "n = 4 \<or> DETECTNULL (ld32 m a1) \<noteq> 0"
  shows "strncmp_bytes m (n, a1, a2) = Some 0"
  using assms u32_at_least_4 [OF assms(1)]
  by (auto simp: ld32_eq_iff DETECTNULL_ld32 byte_diff_def strncmp_step [of m n a1] strncmp_step [of m "n - 1"]
      strncmp_step [of m "n - 2"] strncmp_step [of m "n - 3"] strncmp_step [of m 3] strncmp_step [of m 2] strncmp_step [of m 1]
      strncmp_step [of m 4] diff_diff_eq add.assoc)

lemma strncmp_bytes_small: "n \<noteq> 0 \<Longrightarrow> strncmp_small s1 s2 n m = strncmp_bytes m (n, s1, s2)"
  unfolding strncmp_small_def strncmp_bytes_def
  by (auto simp: byte_diff_def intro!: Option.bind_cong)

lemma strncmp_agrees: "strncmp s1 s2 n m = strncmp_small s1 s2 n m"
proof (cases "n = 0")
  case True then show ?thesis by (simp add: strncmp_def strncmp_small_def)
next
  case n: False
  show ?thesis
  proof (cases "strncmp_words m (n, s1, s2)")
    case None
    then show ?thesis
      using n strncmp_stride.diverges [of m "(n, s1, s2)"]
      by (simp add: strncmp_def strncmp_bytes_small strncmp_words_def strncmp_bytes_def strncmp_go_def)
  next
    case (Some r)
    obtain n' a1 a2 where r: "r = (n', a1, a2)" by (cases r)
    have "strncmp_bytes m (n, s1, s2) = strncmp_bytes m (n', a1, a2)"
      using strncmp_stride.agree [of m "(n, s1, s2)"] Some
      by (simp add: r strncmp_words_def strncmp_bytes_def strncmp_go_def)
    moreover have "n' \<ge> 4 \<Longrightarrow> ld32 m a1 = ld32 m a2 \<Longrightarrow> n' = 4 \<or> DETECTNULL (ld32 m a1) \<noteq> 0"
      using Some by (auto simp: r strncmp_words_def dest!: while_option_stop)
    ultimately show ?thesis
      using n Some strncmp_equal_words [of n' m a1 a2] by (auto simp: r strncmp_def strncmp_bytes_small)
  qed
qed

lemma strcpy_agrees: "strcpy d s m = strcpy_small d s m"
proof -
  have "strcpy_words st \<bind> strcpy_bytes = strcpy_bytes st" if "case st of (dst, src, _) \<Rightarrow> dst AND 3 = 0 \<and> src AND 3 = 0" for st
    unfolding strcpy_words_def strcpy_bytes_def
    by (simp only: strcpy_stride.agree [of st, OF that, symmetric] bind_assoc)
  then show ?thesis by (simp add: strcpy_def strcpy_small_def UNALIGNED_0)
qed

lemma strncpy_agrees: "strncpy d s n m = strncpy_small d s n m"
proof -
  have "strncpy_words st \<bind> strncpy_bytes = strncpy_bytes st" if "case st of (_, dst, src, _) \<Rightarrow> dst AND 3 = 0 \<and> src AND 3 = 0" for st
    unfolding strncpy_words_def strncpy_bytes_def
    by (simp only: strncpy_stride.agree [of st, OF that, symmetric] bind_assoc)
  then show ?thesis by (simp add: strncpy_def strncpy_small_def UNALIGNED_0)
qed

lemma strcat_agrees: "strcat s1 s2 m = strcat_small s1 s2 m"
  unfolding strcat_def strcat_small_def str_end_fast_bytes strcpy_agrees strcpy_small_def
  by (auto simp: map_option_case intro!: Option.bind_cong split: option.splits)

lemma strncat_agrees: "strncat s1 s2 n m = strncat_small s1 s2 n m"
  by (simp add: strncat_def strncat_small_def str_end_fast_bytes)

section \<open>What the byte loops do\<close>

text \<open>Memory after \<open>len\<close> bytes at \<open>s\<close> have been moved to \<open>d\<close>.\<close>

definition moved :: "u32 \<Rightarrow> u32 \<Rightarrow> u32 \<Rightarrow> bytemem \<Rightarrow> bytemem" where
  "moved d s len m = (\<lambda>x. if x - d < len then m (s + (x - d)) else m x)"

lemma u32_pred_less: "y \<noteq> 0 \<Longrightarrow> len \<noteq> 0 \<Longrightarrow> y - 1 < len - 1 \<longleftrightarrow> y < len" for y len :: u32
  using unat_gt_0 [of y] unat_gt_0 [of len] by (auto simp: word_less_nat_alt unat_minus_one)

lemma moved_first:
  assumes "len \<noteq> 0" "d - s = 0 \<or> len \<le> d - s"
  shows "moved (d + 1) (s + 1) (len - 1) (m(d := m s)) = moved d s len m"
proof
  fix x
  show "moved (d + 1) (s + 1) (len - 1) (m(d := m s)) x = moved d s len m x"
  proof (cases "x = d")
    case True
    have "\<not> d - (d + 1) < len - 1" by (simp add: not_less)
    moreover have "0 < len" using assms(1) by (simp add: word_gt_0)
    ultimately show ?thesis by (simp add: moved_def True)
  next
    case False
    define y where "y = x - d"
    have x: "x = d + y" "y \<noteq> 0" using False by (simp_all add: y_def)
    have ne: "s + y \<noteq> d" if "y < len"
    proof
      assume "s + y = d"
      then have "d - s = y" by auto
      then show False using assms(2) x(2) that by auto
    qed
    have "d + y - (d + 1) = y - 1" by simp
    then show ?thesis using ne u32_pred_less [OF x(2) assms(1)] x(2) by (simp add: moved_def x(1) add.assoc)
  qed
qed

lemma copy_bytes_result:
  assumes "d - s = 0 \<or> len \<le> d - s"
  shows "\<exists>st. copy_bytes (len, d, s, m) = Some (0, st, s + len, moved d s len m)"
  using assms
proof (induction "unat len" arbitrary: len d s m)
  case 0
  then have "len = 0" by (simp add: unat_eq_0)
  then show ?case by (simp add: copy_bytes_def while_option_unfold moved_def)
next
  case (Suc n)
  have len: "len \<noteq> 0" using Suc.hyps(2) by auto
  then have n: "n = unat (len - 1)" using Suc.hyps(2) by (simp add: unat_minus_one)
  have le: "len - 1 \<le> len" using len by (simp add: word_le_nat_alt unat_minus_one)
  have "\<exists>st. copy_bytes (len - 1, d + 1, s + 1, m(d := m s))
      = Some (0, st, s + 1 + (len - 1), moved (d + 1) (s + 1) (len - 1) (m(d := m s)))"
    by (rule Suc.hyps(1) [OF n]) (use Suc.prems le in auto)
  moreover have "copy_bytes (len, d, s, m) = copy_bytes (len - 1, d + 1, s + 1, m(d := m s))"
    unfolding copy_bytes_def by (subst while_option_unfold) (simp add: len copy_byte_def)
  ultimately show ?case by (simp add: moved_first [OF len Suc.prems])
qed

lemma moved_last:
  assumes "len \<noteq> 0" "s - d = 0 \<or> len \<le> s - d"
  shows "moved d s (len - 1) (m(d + (len - 1) := m (s + (len - 1)))) = moved d s len m"
proof
  fix x
  define y where "y = x - d"
  have x: "x = d + y" by (simp add: y_def)
  have ne: "s + y \<noteq> d + (len - 1)" if "y < len - 1" "s \<noteq> d"
  proof
    assume "s + y = d + (len - 1)"
    then have e: "s - d = len - 1 - y" by (simp add: algebra_simps)
    have "unat (len - 1 - y) = unat (len - 1) - unat y" using that(1) by (simp add: unat_sub)
    moreover have "0 < unat len" using assms(1) by (simp add: unat_gt_0)
    ultimately have "unat (len - 1 - y) < unat len" using unat_minus_one [OF assms(1)] by linarith
    then have "s - d < len" by (simp only: e word_less_nat_alt)
    then show False using assms(2) that(2) by auto
  qed
  have "y < len \<longleftrightarrow> y < len - 1 \<or> y = len - 1"
  proof -
    have "0 < unat len" using assms(1) by (simp add: unat_gt_0)
    then show ?thesis unfolding word_less_nat_alt word_unat_eq_iff unat_minus_one [OF assms(1)] by arith
  qed
  then show "moved d s (len - 1) (m(d + (len - 1) := m (s + (len - 1)))) x = moved d s len m x"
    using ne by (auto simp: moved_def x)
qed

lemma copy_back_result:
  assumes "s - d = 0 \<or> len \<le> s - d"
  shows "\<exists>st. copy_back (len, d + len, s + len, m) = Some (0, st, s, moved d s len m)"
  using assms
proof (induction "unat len" arbitrary: len m)
  case 0
  then have "len = 0" by (simp add: unat_eq_0)
  then show ?case by (simp add: copy_back_def while_option_unfold moved_def)
next
  case (Suc n)
  have len: "len \<noteq> 0" using Suc.hyps(2) by auto
  then have n: "n = unat (len - 1)" using Suc.hyps(2) by (simp add: unat_minus_one)
  have le: "len - 1 \<le> len" using len by (simp add: word_le_nat_alt unat_minus_one)
  let ?m = "m(d + (len - 1) := m (s + (len - 1)))"
  have "\<exists>st. copy_back (len - 1, d + (len - 1), s + (len - 1), ?m) = Some (0, st, s, moved d s (len - 1) ?m)"
    by (rule Suc.hyps(1) [OF n]) (use Suc.prems le in auto)
  moreover have "copy_back (len, d + len, s + len, m) = copy_back (len - 1, d + (len - 1), s + (len - 1), ?m)"
    unfolding copy_back_def by (subst while_option_unfold) (simp add: len add_diff_eq)
  ultimately show ?case by (simp add: moved_last [OF len Suc.prems])
qed

text \<open>\<open>len\<close> bytes at an address do not reach past the end of memory.\<close>

definition within_memory :: "u32 \<Rightarrow> u32 \<Rightarrow> bool" where
  "within_memory a len \<longleftrightarrow> unat a + unat len < 2 ^ 32"

lemma unat_minus_cases: "unat (a - b) = (if b \<le> a then unat a - unat b else 2 ^ 32 + unat a - unat b)" for a b :: u32
  by (subst unat_sub_if') (auto simp: word_le_nat_alt)

lemma memmove_result:
  assumes "within_memory dst len" "within_memory src len"
  shows "memmove dst src len m = Some (dst, moved dst src len m)"
proof -
  have sum: "unat (src + len) = unat src + unat len"
    by (rule unat_add_lem [THEN iffD1]) (use assms(2) in \<open>simp add: within_memory_def\<close>)
  note ineq = word_less_nat_alt word_le_nat_alt unat_minus_cases within_memory_def
  show ?thesis
  proof (cases "src < dst \<and> dst < src + len")
    case True
    then have "len \<le> src - dst" using assms by (auto simp: ineq)
    then show ?thesis
      using copy_back_result [of src dst len m] True by (auto simp: memmove_def)
  next
    case False
    have "dst - src = 0 \<or> len \<le> dst - src"
    proof (cases "dst = src")
      case F: False
      then show ?thesis using False assms sum by (auto simp: ineq word_unat_eq_iff)
    qed simp
    then show ?thesis
      using copy_bytes_result [of dst src len m] False by (auto simp: memmove_def copy_fast_bytes)
  qed
qed

lemma memcpy_result:
  assumes "within_memory dst len" "within_memory src len" "dst \<le> src \<or> src + len \<le> dst"
  shows "memcpy dst src len m = Some (dst, moved dst src len m)"
proof -
  have "(src < dst \<and> dst < src + len) = False" using assms(3) by auto
  then have "memmove dst src len m = memcpy dst src len m"
    unfolding memmove_def memcpy_def by (simp only: if_False)
  then show ?thesis using memmove_result [OF assms(1,2), of m] by simp
qed

lemma moved_at:
  assumes "i < unat len"
  shows "moved d s len m (d + of_nat i) = m (s + of_nat i)"
proof -
  have "i < 2 ^ 32" using assms unsigned_less [of len, where ?'a = nat] by simp
  then have "unat (of_nat i :: u32) = i" by (simp add: unsigned_of_nat take_bit_nat_eq_self)
  then show ?thesis using assms by (simp add: moved_def word_less_nat_alt)
qed

lemma moved_outside: "x - d \<ge> len \<Longrightarrow> moved d s len m x = m x"
  by (auto simp: moved_def)

text \<open>Filling.\<close>

definition filled :: "u32 \<Rightarrow> u8 \<Rightarrow> u32 \<Rightarrow> bytemem \<Rightarrow> bytemem" where
  "filled p c n m = (\<lambda>x. if x - p < n then c else m x)"

lemma fill_bytes_result: "\<exists>q. fill_bytes c (n, p, m) = Some (0, q, filled p c n m)"
proof (induction "unat n" arbitrary: n p m)
  case 0
  then have "n = 0" by (simp add: unat_eq_0)
  then show ?case by (simp add: fill_bytes_def while_option_unfold filled_def)
next
  case (Suc k)
  have n: "n \<noteq> 0" using Suc.hyps(2) by auto
  then have k: "k = unat (n - 1)" using Suc.hyps(2) by (simp add: unat_minus_one)
  have "filled (p + 1) c (n - 1) (m(p := c)) x = filled p c n m x" for x
  proof (cases "x = p")
    case True
    then show ?thesis using n by (simp add: filled_def word_gt_0)
  next
    case False
    then have "x - p \<noteq> 0" by simp
    then show ?thesis using u32_pred_less [OF _ n, of "x - p"] False by (simp add: filled_def diff_diff_eq)
  qed
  then have "filled (p + 1) c (n - 1) (m(p := c)) = filled p c n m" by blast
  moreover have "fill_bytes c (n, p, m) = fill_bytes c (n - 1, p + 1, m(p := c))"
    unfolding fill_bytes_def by (subst while_option_unfold) (simp add: n fill_byte_def)
  ultimately show ?case using Suc.hyps(1) [OF k, of "p + 1" "m(p := c)"] by simp
qed

lemma memset_result: "memset p c n m = Some (p, filled p (ucast c) n m)"
  using fill_bytes_result [of "ucast c" n p m] by (auto simp: memset_agrees memset_small_def)

section \<open>Strings\<close>

text \<open>The characters of the string at an address, up to its null character.\<close>

fun cstring :: "bytemem \<Rightarrow> u32 \<Rightarrow> u8 list \<Rightarrow> bool" where
  "cstring m a [] \<longleftrightarrow> m a = 0"
| "cstring m a (c # cs) \<longleftrightarrow> c \<noteq> 0 \<and> m a = c \<and> cstring m (a + 1) cs"

definition str_size :: "u8 list \<Rightarrow> u32" where
  "str_size cs = of_nat (length cs) + 1"

lemma str_size_Cons [simp]: "str_size (c # cs) = str_size cs + 1"
  by (simp add: str_size_def)

lemma unat_str_size: "length cs + 1 < 2 ^ 32 \<Longrightarrow> unat (str_size cs) = length cs + 1"
proof -
  assume "length cs + 1 < 2 ^ 32"
  then have "unat (of_nat (length cs + 1) :: u32) = length cs + 1"
    by (simp only: unsigned_of_nat) (simp add: take_bit_nat_eq_self)
  then show ?thesis by (simp add: str_size_def add.commute)
qed

lemma str_end_cstring: "cstring m a cs \<Longrightarrow> str_end m a = Some (a + of_nat (length cs))"
proof (induction cs arbitrary: a)
  case Nil then show ?case by (simp add: str_end_def while_option_unfold)
next
  case (Cons c cs)
  have "str_end m a = str_end m (a + 1)"
    unfolding str_end_def by (subst while_option_unfold) (use Cons.prems in simp)
  then show ?case using Cons by (simp add: add.assoc)
qed

lemma strlen_cstring: "cstring m a cs \<Longrightarrow> strlen a m = Some (of_nat (length cs))"
  by (simp add: strlen_agrees strlen_small_def str_end_cstring)

lemma chr_end_cstring:
  "cstring m a cs \<Longrightarrow> chr_end m c a = Some (a + of_nat (length (takeWhile (\<lambda>x. x \<noteq> c) cs)))"
proof (induction cs arbitrary: a)
  case Nil then show ?case by (simp add: chr_end_def while_option_unfold)
next
  case (Cons d cs)
  have "chr_end m c a = (if d = c then Some a else chr_end m c (a + 1))"
    unfolding chr_end_def by (subst while_option_unfold) (use Cons.prems in auto)
  then show ?case using Cons by (simp add: add.assoc)
qed

lemma cstring_nth: "cstring m a cs \<Longrightarrow> i \<le> length cs \<Longrightarrow> m (a + of_nat i) = (if i < length cs then cs ! i else 0)"
proof (induction cs arbitrary: a i)
  case (Cons c cs)
  then show ?case by (cases i) (auto simp: add.assoc [symmetric])
qed simp

lemma mem_takeWhile_length: "c \<in> set cs \<longleftrightarrow> length (takeWhile (\<lambda>x. x \<noteq> c) cs) < length cs"
  by (induction cs) auto

text \<open>The address of the first occurrence; looking for the null character finds the end.\<close>

lemma strchr_cstring:
  assumes "cstring m a cs"
  shows "strchr a i m = Some (if ucast i \<in> set cs \<or> (ucast i :: u8) = 0
     then a + of_nat (length (takeWhile (\<lambda>x. x \<noteq> ucast i) cs)) else 0)"
proof -
  let ?c = "ucast i :: u8" and ?n = "length (takeWhile (\<lambda>x. x \<noteq> ucast i) cs)"
  have "m (a + of_nat ?n) = (if ?n < length cs then cs ! ?n else 0)"
    by (rule cstring_nth [OF assms]) (rule length_takeWhile_le)
  moreover have "?c \<in> set cs \<longleftrightarrow> ?n < length cs"
    by (rule mem_takeWhile_length)
  ultimately have "m (a + of_nat ?n) = ?c \<longleftrightarrow> ?c \<in> set cs \<or> ?c = 0"
    using nth_length_takeWhile [of "\<lambda>x. x \<noteq> ucast i" cs] by (auto split: if_splits)
  then show ?thesis
    by (simp add: strchr_agrees strchr_small_def Let_def chr_end_cstring [OF assms])
qed

lemma byte_diff_sint: "sint (byte_diff m s t) = uint (m s) - uint (m t)"
proof -
  have "0 \<le> uint x \<and> uint x < 256" for x :: u8 using unsigned_less [of x, where ?'a = int] by simp
  then have r: "- 256 < uint (m s) - uint (m t)" "uint (m s) - uint (m t) < 256" by (smt (verit))+
  have "byte_diff m s t = word_of_int (uint (m s) - uint (m t))" by (simp add: byte_diff_def)
  then show ?thesis using r by (simp only: sint_sbintrunc') (simp add: signed_take_bit_int_eq_self)
qed

lemma byte_diff_sign:
  "byte_diff m s t = 0 \<longleftrightarrow> m s = m t" "sint (byte_diff m s t) < 0 \<longleftrightarrow> m s < m t"
  using byte_diff_sint [of m s t] by (simp_all add: byte_diff_def ucast_u8_eq word_less_def)

text \<open>The sign of the result is the lexicographic order of the strings as unsigned characters.\<close>

lemma strcmp_bytes_cstring:
  assumes "cstring m s as" "cstring m t bs"
  shows "\<exists>r. strcmp_bytes m (s, t) = Some r \<and> (r = 0 \<longleftrightarrow> as = bs) \<and> (sint r < 0 \<longleftrightarrow> (as, bs) \<in> lexord {(x, y). x < y})"
  using assms
proof (induction as arbitrary: s t bs)
  case Nil
  have "strcmp_bytes m (s, t) = Some (byte_diff m s t)" using Nil by (simp add: strcmp_step)
  then show ?case using Nil byte_diff_sign [of m s t] by (cases bs) (auto simp: word_gt_0)
next
  case (Cons a as)
  show ?case
  proof (cases "m s = m t")
    case True
    then obtain bs' where bs: "bs = a # bs'" "cstring m (t + 1) bs'" using Cons.prems by (cases bs) auto
    have "strcmp_bytes m (s, t) = strcmp_bytes m (s + 1, t + 1)"
      using True Cons.prems by (subst strcmp_step) simp
    then show ?thesis using Cons.IH [of "s + 1" "t + 1" bs'] Cons.prems bs by auto
  next
    case False
    then have "strcmp_bytes m (s, t) = Some (byte_diff m s t)" by (simp add: strcmp_step)
    then show ?thesis using False Cons.prems byte_diff_sign [of m s t] by (cases bs) auto
  qed
qed

lemma str_size_step:
  assumes "str_size (c # cs) \<le> d - s" "length cs + 2 < 2 ^ 32"
  shows "d - s \<noteq> 0" "str_size cs \<le> d - (s + 1)" "str_size cs \<le> d - s"
proof -
  have n: "unat (str_size (c # cs)) = length cs + 2" "unat (str_size cs) = length cs + 1"
    using unat_str_size [of "c # cs"] unat_str_size [of cs] assms(2) by simp_all
  have le: "length cs + 2 \<le> unat (d - s)" using assms(1) n by (simp only: word_le_nat_alt)
  then show nz: "d - s \<noteq> 0" by auto
  have "unat (d - (s + 1)) = unat (d - s) - 1"
    using unat_minus_one [OF nz] by (simp only: diff_diff_eq)
  then show "str_size cs \<le> d - (s + 1)" "str_size cs \<le> d - s"
    using le n unfolding word_le_nat_alt by linarith+
qed

text \<open>A store outside a string keeps it.\<close>

lemma cstring_upd: "cstring m s cs \<Longrightarrow> str_size cs \<le> d - s \<Longrightarrow> length cs + 1 < 2 ^ 32 \<Longrightarrow> cstring (m(d := v)) s cs"
proof (induction cs arbitrary: s)
  case Nil
  then have "d \<noteq> s" by (auto simp: str_size_def)
  then show ?case using Nil by simp
next
  case (Cons c cs)
  have st: "d - s \<noteq> 0" "str_size cs \<le> d - (s + 1)" using str_size_step [OF Cons.prems(2)] Cons.prems(3) by simp_all
  have "cstring (m(d := v)) (s + 1) cs" by (rule Cons.IH) (use Cons.prems(1,3) st in simp_all)
  moreover have "(m(d := v)) s = c" "c \<noteq> 0" using st(1) Cons.prems(1) by auto
  ultimately show ?case by (simp only: cstring.simps) blast
qed

lemma strcpy_bytes_cstring:
  "cstring m s cs \<Longrightarrow> d - s = 0 \<or> str_size cs \<le> d - s \<Longrightarrow> length cs + 1 < 2 ^ 32 \<Longrightarrow>
   strcpy_bytes (d, s, m) = Some (moved d s (str_size cs) m)"
proof (induction cs arbitrary: d s m)
  case Nil
  have "strcpy_bytes (d, s, m) = Some (m(d := m s))"
    unfolding strcpy_bytes_def by (subst while_option_unfold) (use Nil in \<open>simp add: strcpy_byte_def\<close>)
  moreover have "moved d s (str_size []) m = m(d := m s)"
    by (auto simp: moved_def str_size_def fun_eq_iff word_less_1)
  ultimately show ?case by (simp only:)
next
  case (Cons c cs)
  let ?m = "m(d := m s)"
  have step: "strcpy_bytes (d, s, m) = strcpy_bytes (d + 1, s + 1, ?m)"
    unfolding strcpy_bytes_def by (subst while_option_unfold) (use Cons.prems in \<open>simp add: strcpy_byte_def\<close>)
  have len: "length cs + 2 < 2 ^ 32" "length cs + 1 < 2 ^ 32" using Cons.prems(3) by simp_all
  have cs: "cstring m (s + 1) cs" using Cons.prems(1) by simp
  have "cstring ?m (s + 1) cs"
  proof (cases "d - s = 0")
    case False
    then show ?thesis using cstring_upd [OF cs _ len(2)] str_size_step(2) [OF _ len(1)] Cons.prems(2) by blast
  qed (use cs in simp)
  moreover have "d + 1 - (s + 1) = 0 \<or> str_size cs \<le> d + 1 - (s + 1)"
    using Cons.prems(2) str_size_step(3) [OF _ len(1)] by auto
  ultimately have "strcpy_bytes (d + 1, s + 1, ?m) = Some (moved (d + 1) (s + 1) (str_size cs) ?m)"
    using Cons.IH len(2) by blast
  moreover have "str_size (c # cs) \<noteq> 0" using unat_str_size [of "c # cs"] len by auto
  ultimately show ?case
    using moved_first [OF _ Cons.prems(2), of m] step by simp
qed

lemma cstring_moved:
  assumes "cstring m s cs" "length cs + 1 < 2 ^ 32"
  shows "cstring (moved d s (str_size cs) m) d cs"
proof -
  have same: "moved d s (str_size cs) m (d + of_nat i) = m (s + of_nat i)" if "i \<le> length cs" for i
    using that unat_str_size [OF assms(2)] by (intro moved_at) simp
  have "cstring m s cs \<Longrightarrow> (\<And>i. i \<le> length cs \<Longrightarrow> m' (d + of_nat i) = m (s + of_nat i)) \<Longrightarrow> cstring m' d cs" for m' d s cs
  proof (induction cs arbitrary: d s)
    case Nil then show ?case using Nil(2) [of 0] by simp
  next
    case (Cons c cs)
    have "m' (d + 1 + of_nat i) = m (s + 1 + of_nat i)" if "i \<le> length cs" for i
      using Cons.prems(2) [of "Suc i"] that by (simp add: add.assoc)
    then show ?case using Cons.IH [of "s + 1" "d + 1"] Cons.prems(1) Cons.prems(2) [of 0] by simp
  qed
  then show ?thesis using assms(1) same by blast
qed

lemma cstring_append:
  "cstring m a (as @ bs) \<longleftrightarrow> 0 \<notin> set as \<and> (\<forall>i<length as. m (a + of_nat i) = as ! i) \<and> cstring m (a + of_nat (length as)) bs"
proof (induction as arbitrary: a)
  case (Cons c as)
  have "(\<forall>i<length (c # as). m (a + of_nat i) = (c # as) ! i) \<longleftrightarrow> m a = c \<and> (\<forall>i<length as. m (a + 1 + of_nat i) = as ! i)"
    by (simp add: All_less_Suc2 add.assoc)
  then show ?case using Cons [of "a + 1"] by (auto simp: add.assoc)
qed simp

text \<open>Appending behind a string keeps its characters.\<close>

lemma cstring_prefix_moved:
  assumes "cstring m s cs" "cstring m t ds" "length cs + length ds + 1 < 2 ^ 32"
  shows "cstring (moved (s + of_nat (length cs)) t (str_size ds) m) s (cs @ ds)"
proof -
  let ?n = "length cs" and ?m = "moved (s + of_nat (length cs)) t (str_size ds) m"
  have cs: "0 \<notin> set cs" "\<And>i. i < ?n \<Longrightarrow> m (s + of_nat i) = cs ! i"
    using assms(1) cstring_append [of m s cs "[]"] by auto
  have "?m (s + of_nat i) = m (s + of_nat i)" if "i < ?n" for i
  proof (rule moved_outside)
    have u: "unat (of_nat k :: u32) = k" if "k \<le> ?n" for k
      using that assms(3) by (simp add: unsigned_of_nat take_bit_nat_eq_self)
    have "s + of_nat i - (s + of_nat ?n) = of_nat i - of_nat ?n" by simp
    moreover have "unat (of_nat i - of_nat ?n :: u32) = 2 ^ 32 + i - ?n"
      using u [of i] u [of ?n] that by (simp add: unat_minus_cases word_le_nat_alt)
    ultimately show "str_size ds \<le> s + of_nat i - (s + of_nat ?n)"
      using unat_str_size [of ds] assms(3) that by (simp add: word_le_nat_alt)
  qed
  then show ?thesis
    using cs cstring_moved [OF assms(2), of "s + of_nat ?n"] assms(3) by (simp add: cstring_append)
qed

section \<open>The properties\<close>

text \<open>C20. The fast and the plain body of every memory and string function agree on every input:
  the same result, the same memory afterwards, and the same endless loop when a string has no
  end. In particular the word-wise loops never miss or misplace a null byte or a searched
  character, and copying a word equals copying its bytes even between overlapping regions.\<close>

theorem fast_bodies_agree:
  "memcpy d s n m = memcpy_small d s n m \<and> memmove d s n m = memmove_small d s n m
    \<and> memset d c n m = memset_small d c n m \<and> memcmp d s n m = memcmp_small d s n m
    \<and> memchr s c n m = memchr_small s c n m \<and> strlen s m = strlen_small s m
    \<and> strchr s c m = strchr_small s c m \<and> strcmp d s m = strcmp_small d s m
    \<and> strncmp d s n m = strncmp_small d s n m \<and> strcpy d s m = strcpy_small d s m
    \<and> strncpy d s n m = strncpy_small d s n m \<and> strcat d s m = strcat_small d s m
    \<and> strncat d s n m = strncat_small d s n m"
  by (simp add: memcpy_def memcpy_small_def memmove_def memmove_small_def copy_fast_bytes memset_agrees
      memcmp_agrees memchr_agrees strlen_agrees strchr_agrees strcmp_agrees strncmp_agrees strcpy_agrees
      strncpy_agrees strcat_agrees strncat_agrees)

text \<open>C21. Moving memory. \<open>memmove\<close> returns its destination with the bytes of the source as they
  were before the call, also when the regions overlap, and changes nothing else; so does
  \<open>memcpy\<close> when the destination does not begin inside the source. \<open>memset\<close> always returns and
  sets exactly the bytes of its region.\<close>

theorem memmove_moves:
  assumes "within_memory dst len" "within_memory src len"
  shows "\<exists>m'. memmove dst src len m = Some (dst, m') \<and> bcopy src dst len m = Some m'
    \<and> (dst \<le> src \<or> src + len \<le> dst \<longrightarrow> memcpy dst src len m = Some (dst, m'))
    \<and> (\<forall>i<unat len. m' (dst + of_nat i) = m (src + of_nat i))
    \<and> (\<forall>x. len \<le> x - dst \<longrightarrow> m' x = m x)
    \<and> (\<exists>m''. memset dst c len m = Some (dst, m'') \<and> (\<forall>x. m'' x = (if x - dst < len then ucast c else m x)))"
  using memmove_result [OF assms, of m] memcpy_result [OF assms, of m]
  by (auto simp: bcopy_def moved_at moved_outside memset_result filled_def)

theorem memmove_moves_witness:
  "\<exists>m'. memmove 0x3000002 0x3000000 8 (\<lambda>x. ucast x) = Some (0x3000002, m') \<and> m' 0x3000003 = 1 \<and> m' 0x3000009 = 7 \<and> m' 0x300000A = 10"
proof -
  have "within_memory 0x3000002 8" "within_memory 0x3000000 8" by (simp_all add: within_memory_def)
  from memmove_moves [OF this, where m = "\<lambda>x. ucast x" and c = 0] obtain m' :: bytemem where m':
    "memmove 0x3000002 0x3000000 8 (\<lambda>x. ucast x) = Some (0x3000002, m')"
    "\<forall>i<8. m' (0x3000002 + of_nat i) = ucast (0x3000000 + of_nat i :: u32)" "\<forall>x. 8 \<le> x - 0x3000002 \<longrightarrow> m' x = ucast x"
    by auto
  have "m' 0x3000003 = 1" using m'(2) [rule_format, of 1] by simp
  moreover have "m' 0x3000009 = 7" using m'(2) [rule_format, of 7] by simp
  moreover have "m' 0x300000A = 10" using m'(3) [rule_format, of "0x300000A"] by simp
  ultimately show ?thesis using m'(1) by blast
qed

text \<open>C22. Strings. On the string with characters \<open>cs\<close>, \<open>strlen\<close> returns their number and
  \<open>strchr\<close> the address of the first occurrence of a character (of the end, for the null
  character) or \<^verbatim>\<open>NULL\<close>. \<open>strcmp\<close> of two strings is zero exactly when they are equal and
  negative exactly when the first comes first in the lexicographic order of unsigned
  characters. \<open>strcat\<close> makes the destination the concatenation and leaves the memory behind it
  alone, and \<open>strcpy\<close> makes it a copy, provided that the destination does not run into the
  source.\<close>

theorem string_functions:
  assumes "cstring m s cs" "cstring m t ds" "length cs + length ds + 1 < 2 ^ 32"
    "str_size ds \<le> s + of_nat (length cs) - t" "str_size ds \<le> s - t"
  shows "strlen s m = Some (of_nat (length cs))
    \<and> strchr s i m = Some (if ucast i \<in> set cs \<or> (ucast i :: u8) = 0
        then s + of_nat (length (takeWhile (\<lambda>x. x \<noteq> ucast i) cs)) else 0)
    \<and> (\<exists>r. strcmp s t m = Some r \<and> (r = 0 \<longleftrightarrow> cs = ds) \<and> (sint r < 0 \<longleftrightarrow> (cs, ds) \<in> lexord {(x, y). x < y}))
    \<and> (\<exists>m'. strcat s t m = Some (s, m') \<and> cstring m' s (cs @ ds)
        \<and> (\<forall>x. str_size ds \<le> x - (s + of_nat (length cs)) \<longrightarrow> m' x = m x))
    \<and> (\<exists>m'. strcpy s t m = Some (s, m') \<and> cstring m' s ds \<and> (\<forall>x. str_size ds \<le> x - s \<longrightarrow> m' x = m x))"
proof -
  let ?e = "s + of_nat (length cs)"
  have len: "length ds + 1 < 2 ^ 32" using assms(3) by simp
  have "strcat s t m = Some (s, moved ?e t (str_size ds) m)"
    using str_end_cstring [OF assms(1)] strcpy_bytes_cstring [OF assms(2) _ len, of ?e] assms(4)
    by (simp add: strcat_agrees strcat_small_def)
  moreover have "cstring (moved ?e t (str_size ds) m) s (cs @ ds)"
    using cstring_prefix_moved [OF assms(1-3)] .
  moreover have "strcpy s t m = Some (s, moved s t (str_size ds) m)"
    using strcpy_bytes_cstring [OF assms(2) _ len, of s] assms(5) by (simp add: strcpy_agrees strcpy_small_def)
  ultimately show ?thesis
    using strlen_cstring [OF assms(1)] strchr_cstring [OF assms(1), of i] strcmp_bytes_cstring [OF assms(1,2)]
      cstring_moved [OF assms(2) len, of s]
    by (simp add: strcmp_agrees strcmp_small_def moved_outside)
qed

theorem string_functions_witness:
  "let m = (\<lambda>_. 0)(0x3000000 := 97, 0x3000001 := 98, 0x2000000 := 99)
   in strlen 0x3000000 m = Some 2 \<and> strchr 0x3000000 98 m = Some 0x3000001
     \<and> (\<exists>m'. strcat 0x3000000 0x2000000 m = Some (0x3000000, m') \<and> cstring m' 0x3000000 [97, 98, 99])"
proof -
  define m :: bytemem where "m = (\<lambda>_. 0)(0x3000000 := 97, 0x3000001 := 98, 0x2000000 := 99)"
  have "cstring m 0x3000000 [97, 98]" "cstring m 0x2000000 [99]" by (simp_all add: m_def)
  from string_functions [OF this, of 98]
  show ?thesis by (auto simp: Let_def str_size_def simp flip: m_def)
qed

end
