(* ===== verification/LibcStdlibCorrect.thy ===== *)
theory LibcStdlibCorrect
  imports LibcStdlib LibcStringCorrect
begin

text \<open>
  The character table classifies ASCII, the conversions compute the number that a string denotes
  or report that it does not fit, and binary search finds what is there.
\<close>

unbundle bit_operations_syntax

section \<open>Character classes\<close>

text \<open>Indexing a concatenation of runs, by the position where each run ends.\<close>

lemma nth_run: "0 < k \<Longrightarrow> (replicate k x @ ys) ! (n - j) = (if n < j + k then x else ys ! (n - (j + k)))"
  by (auto simp: nth_append less_diff_conv2)

lemma nth_one: "(x # ys) ! (n - j) = (if n < j + 1 then x else ys ! (n - (j + 1)))"
  by (auto simp: nth_Cons')

lemma ctype_at_nat:
  assumes "n < 256"
  shows "ctype_at (of_nat n) =
    (if n < 9 then CT_C else if n < 14 then CT_C OR CT_S else if n < 32 then CT_C else if n < 33 then CT_S OR CT_B
     else if n < 48 then CT_P else if n < 58 then CT_N else if n < 65 then CT_P else if n < 71 then CT_U OR CT_X
     else if n < 91 then CT_U else if n < 97 then CT_P else if n < 103 then CT_L OR CT_X else if n < 123 then CT_L
     else if n < 127 then CT_P else if n < 128 then CT_C else 0)"
proof -
  have "unat (of_nat n + 1 :: u32) = Suc n"
  proof -
    have "unat (of_nat (Suc n) :: u32) = Suc n"
      using assms by (simp only: unsigned_of_nat) (simp add: take_bit_nat_eq_self)
    then show ?thesis by (simp add: add.commute)
  qed
  moreover have "length ctype_list = 129" by (simp add: ctype_list_def)
  ultimately have "ctype_at (of_nat n) = (if n < 128 then ctype_list ! Suc n else 0)"
    by (simp add: ctype_at_def Let_def)
  moreover have "ctype_list ! Suc (n - 0) =
    (if n < 9 then CT_C else if n < 14 then CT_C OR CT_S else if n < 32 then CT_C else if n < 33 then CT_S OR CT_B
     else if n < 48 then CT_P else if n < 58 then CT_N else if n < 65 then CT_P else if n < 71 then CT_U OR CT_X
     else if n < 91 then CT_U else if n < 97 then CT_P else if n < 103 then CT_L OR CT_X else if n < 123 then CT_L
     else if n < 127 then CT_P else if n < 128 then CT_C else [] ! (n - 128))"
    unfolding ctype_list_def append_Cons append_Nil nth_Cons_Suc
    by (simp only: nth_run nth_one zero_less_numeral add_0 add_numeral_left arith_simps numeral_plus_one)
  ultimately show ?thesis by simp
qed

lemma class_nat:
  assumes "n < 256"
  shows "isdigit (of_nat n) \<noteq> 0 \<longleftrightarrow> 48 \<le> n \<and> n < 58" "isupper (of_nat n) \<noteq> 0 \<longleftrightarrow> 65 \<le> n \<and> n < 91"
    "islower (of_nat n) \<noteq> 0 \<longleftrightarrow> 97 \<le> n \<and> n < 123" "isalpha (of_nat n) \<noteq> 0 \<longleftrightarrow> 65 \<le> n \<and> n < 91 \<or> 97 \<le> n \<and> n < 123"
    "isspace (of_nat n) \<noteq> 0 \<longleftrightarrow> 9 \<le> n \<and> n < 14 \<or> n = 32"
    "isxdigit (of_nat n) \<noteq> 0 \<longleftrightarrow> 48 \<le> n \<and> n < 58 \<or> 65 \<le> n \<and> n < 71 \<or> 97 \<le> n \<and> n < 103"
  unfolding isdigit_def isupper_def islower_def isalpha_def isspace_def isxdigit_def ctype_at_nat [OF assms] ctype_flags
  by auto

lemma char_nat: "(ucast x :: u32) = of_nat (unat x)" "unat x < 256" for x :: u8
  using unsigned_less [of x, where ?'a = nat] by simp_all

text \<open>The digit that a character stands for.\<close>

definition char_digit :: "u8 \<Rightarrow> nat option" where
  "char_digit x = (let n = unat x in
     if 48 \<le> n \<and> n < 58 then Some (n - 48) else if 65 \<le> n \<and> n < 91 then Some (n - 55)
     else if 97 \<le> n \<and> n < 123 then Some (n - 87) else None)"

lemma digit_value_char: "digit_value (ucast x) = map_option of_nat (char_digit x)"
proof -
  have sub: "(of_nat n - of_nat k :: u32) = of_nat (n - k)" if "k \<le> n" for n k using that by simp
  show ?thesis
    unfolding digit_value_def char_nat(1) class_nat [OF char_nat(2)] char_digit_def Let_def
    using sub [of 48] sub [of 55] sub [of 87] by auto
qed

lemma char_digit_less: "char_digit x = Some v \<Longrightarrow> v < 36"
  by (auto simp: char_digit_def Let_def split: if_splits)

section \<open>Accumulating digits\<close>

lemma cut_test:
  fixes a b v L :: nat
  assumes "v < b"
  shows "a * b + v \<le> L \<longleftrightarrow> \<not> (L div b < a \<or> a = L div b \<and> L mod b < v)"
proof -
  have L: "L = L div b * b + L mod b" by simp
  have mod: "L mod b < b" using assms by simp
  consider "a < L div b" | "a = L div b" | "L div b < a" by linarith
  then show ?thesis
  proof cases
    case 1
    then have "Suc a * b \<le> L div b * b" by (intro mult_le_mono1) simp
    then have "a * b + v \<le> L div b * b" using assms by simp
    also have "\<dots> \<le> L" by simp
    finally show ?thesis using 1 by simp
  next
    case 2
    have "a * b + v \<le> L \<longleftrightarrow> v \<le> L mod b" using L unfolding 2 by linarith
    then show ?thesis using 2 by auto
  next
    case 3
    then have "Suc (L div b) * b \<le> a * b" by (intro mult_le_mono1) simp
    then have "L < a * b" using mod L by (metis add_less_cancel_left le_trans less_le_trans mult_Suc add.commute)
    then show ?thesis using 3 by auto
  qed
qed

lemma u32_of_nat: "n < 2 ^ 32 \<Longrightarrow> unat (of_nat n :: u32) = n"
  by (simp add: unsigned_of_nat take_bit_nat_eq_self)

lemma sint_u32_small: "n < 2 ^ 31 \<Longrightarrow> sint (of_nat n :: u32) = int n"
proof -
  assume "n < 2 ^ 31"
  moreover have "(of_nat n :: u32) = word_of_int (int n)" by simp
  ultimately show ?thesis by (simp only: sint_sbintrunc') (simp add: signed_take_bit_int_eq_self)
qed

text \<open>\<open>any\<close> and \<open>acc\<close> after digits with the value \<open>a\<close>, when the largest number allowed is \<open>L\<close>.\<close>

definition conv_inv :: "nat \<Rightarrow> nat \<Rightarrow> s32 \<times> u32 \<Rightarrow> bool" where
  "conv_inv L a st \<longleftrightarrow> (if a \<le> L then fst st \<in> {0, 1} \<and> snd st = of_nat a else fst st = - 1)"

lemma conv_digit_step:
  assumes "conv_inv L a st" "v < b" "b \<le> 36" "L < 2 ^ 32"
  defines "st' \<equiv> conv_digit (of_nat b) (of_nat (L div b)) (of_nat (L mod b)) (of_nat v) st"
  shows "conv_inv L (a * b + v) st' \<and> fst st' \<noteq> 0"
proof (cases "a \<le> L")
  case False
  then have "fst st = - 1" "\<not> a * b + v \<le> L"
    using assms(1,2) by (auto simp: conv_inv_def) (metis add_leE le_trans mult_le_mono2 mult.right_neutral not_less_eq_eq One_nat_def less_nat_zero_code neq0_conv not_le)
  then show ?thesis by (cases st) (simp add: st'_def conv_digit_def conv_inv_def)
next
  case True
  then have st: "fst st = 0 \<or> fst st = 1" "snd st = of_nat a" using assms(1) by (auto simp: conv_inv_def)
  have q: "L div b < 2 ^ 32" using assms(4) by (meson div_le_dividend le_less_trans)
  have "L mod b < b" using assms(2) by (intro mod_less_divisor) simp
  then have "L mod b < 36" using assms(3) by (rule less_le_trans)
  then have r: "L mod b < 2 ^ 31" "v < 2 ^ 31" using assms(2,3) by simp_all
  have a: "a < 2 ^ 32" using True assms(4) by simp
  have "(of_nat (L div b) :: u32) < of_nat a \<longleftrightarrow> L div b < a" "(of_nat a :: u32) = of_nat (L div b) \<longleftrightarrow> a = L div b"
    using u32_of_nat [OF a] u32_of_nat [OF q] by (simp_all add: word_less_nat_alt word_unat_eq_iff)
  moreover have "sint (of_nat (L mod b) :: u32) < sint (of_nat v :: u32) \<longleftrightarrow> L mod b < v"
    using sint_u32_small r by simp
  moreover have "\<not> sint (fst st) < 0" using st(1) by auto
  ultimately have "st' = (if a * b + v \<le> L then (1, of_nat (a * b + v)) else (- 1, of_nat a))"
    using cut_test [OF assms(2), of a L] st(2) by (cases st) (simp add: st'_def conv_digit_def)
  then show ?thesis by (simp add: conv_inv_def)
qed

section \<open>The text of a number\<close>

fun bytes_at :: "bytemem \<Rightarrow> u32 \<Rightarrow> u8 list \<Rightarrow> bool" where
  "bytes_at m a [] \<longleftrightarrow> True"
| "bytes_at m a (c # cs) \<longleftrightarrow> m a = c \<and> bytes_at m (a + 1) cs"

lemma bytes_at_append [simp]:
  "bytes_at m a (xs @ ys) \<longleftrightarrow> bytes_at m a xs \<and> bytes_at m (a + of_nat (length xs)) ys"
  by (induction xs arbitrary: a) (auto simp: add.assoc)

definition is_digit :: "nat \<Rightarrow> u8 \<Rightarrow> bool" where
  "is_digit b x \<longleftrightarrow> (case char_digit x of None \<Rightarrow> False | Some v \<Rightarrow> v < b)"

definition add_digit :: "nat \<Rightarrow> nat \<Rightarrow> u8 \<Rightarrow> nat" where
  "add_digit b a x = a * b + the (char_digit x)"

definition digits_value :: "nat \<Rightarrow> u8 list \<Rightarrow> nat" where
  "digits_value b ds = foldl (add_digit b) 0 ds"

lemma conv_guard:
  assumes "b \<le> 36"
  shows "(case digit_value (ucast x) of None \<Rightarrow> False | Some v \<Rightarrow> \<not> sint v \<ge> sint (of_nat b :: u32)) \<longleftrightarrow> is_digit b x"
proof (cases "char_digit x")
  case (Some v)
  then have "sint (of_nat v :: u32) = int v" "sint (of_nat b :: u32) = int b"
    using char_digit_less [OF Some] assms by (auto intro!: sint_u32_small)
  then show ?thesis using Some by (simp add: digit_value_char is_digit_def not_le)
qed (simp add: digit_value_char is_digit_def)

lemma conv_loop_run:
  assumes "b \<le> 36" "L < 2 ^ 32" "\<not> is_digit b nd"
  shows "list_all (is_digit b) ds \<Longrightarrow> conv_inv L a st \<Longrightarrow> bytes_at m s (tl (ds @ [nd])) \<Longrightarrow>
    \<exists>st'. conv_loop (of_nat b) (of_nat (L div b)) (of_nat (L mod b)) m (ucast (hd (ds @ [nd])), s, st)
        = Some (ucast nd, s + of_nat (length ds), st')
      \<and> conv_inv L (foldl (add_digit b) a ds) st' \<and> (if ds = [] then st' = st else fst st' \<noteq> 0)"
proof (induction ds arbitrary: a st s)
  case Nil
  then show ?case
    using assms(3) conv_guard [OF assms(1), of nd]
    by (simp add: conv_loop_def while_option_unfold)
next
  case (Cons d ds)
  obtain v where v: "char_digit d = Some v" "v < b" using Cons.prems(1) by (auto simp: is_digit_def split: option.splits)
  let ?st = "conv_digit (of_nat b) (of_nat (L div b)) (of_nat (L mod b)) (of_nat v) st"
  have inv: "conv_inv L (add_digit b a d) ?st" "fst ?st \<noteq> 0"
    using conv_digit_step [OF Cons.prems(2) v(2) assms(1,2)] v(1) by (simp_all add: add_digit_def)
  have s: "ds @ [nd] = m s # tl (ds @ [nd])" "bytes_at m (s + 1) (tl (ds @ [nd]))"
    using Cons.prems(3) by (cases ds; simp)+
  have hd: "hd (ds @ [nd]) = m s" using s(1) by (metis list.sel(1))
  have "conv_loop (of_nat b) (of_nat (L div b)) (of_nat (L mod b)) m (ucast d, s, st)
      = conv_loop (of_nat b) (of_nat (L div b)) (of_nat (L mod b)) m (ucast (m s), s + 1, ?st)"
    unfolding conv_loop_def
    by (subst while_option_unfold)
      (use conv_guard [OF assms(1), of d] Cons.prems(1) v(1) in \<open>simp add: digit_value_char\<close>)
  moreover obtain st' where st': "conv_loop (of_nat b) (of_nat (L div b)) (of_nat (L mod b)) m (ucast (m s), s + 1, ?st)
        = Some (ucast nd, s + 1 + of_nat (length ds), st')"
      "conv_inv L (foldl (add_digit b) (add_digit b a d) ds) st'" "if ds = [] then st' = ?st else fst st' \<noteq> 0"
    using Cons.IH [OF _ inv(1) s(2)] Cons.prems(1) hd by auto
  ultimately show ?case using inv(2) by (auto simp: add.assoc split: if_splits)
qed

definition is_space :: "u8 \<Rightarrow> bool" where
  "is_space x \<longleftrightarrow> 9 \<le> unat x \<and> unat x < 14 \<or> unat x = 32"

lemma isspace_char: "isspace (ucast x) \<noteq> 0 \<longleftrightarrow> is_space x"
  unfolding char_nat(1) class_nat [OF char_nat(2)] is_space_def ..

lemma char_eq: "(ucast x :: u32) = 45 \<longleftrightarrow> x = 45" "(ucast x :: u32) = 43 \<longleftrightarrow> x = 43" "(ucast x :: u32) = 48 \<longleftrightarrow> x = 48" for x :: u8
  using ucast_u8_eq [of x 45] ucast_u8_eq [of x 43] ucast_u8_eq [of x 48] by simp_all

lemma skip_space_run:
  assumes "list_all is_space ws" "\<not> is_space x" "bytes_at m p (ws @ [x])"
  shows "skip_space m p = Some (ucast x, p + of_nat (length ws) + 1)"
  using assms
proof (induction ws arbitrary: p)
  case Nil
  then show ?case using isspace_char [of x] by (simp add: skip_space_def while_option_unfold)
next
  case (Cons w ws)
  have "skip_space m p = skip_space m (p + 1)"
    unfolding skip_space_def by (subst while_option_unfold) (use Cons.prems isspace_char [of w] in simp)
  then show ?case using Cons by (simp add: add.assoc)
qed

lemma read_sign_run:
  assumes "sg \<in> {[], [43], [45]}" "sg = [] \<Longrightarrow> y \<notin> {43, 45}" "bytes_at m p (sg @ [y])"
  shows "read_sign m (ucast (hd (sg @ [y])), p + 1) = (sg = [45], ucast y, p + of_nat (length sg) + 1)"
  using assms by (auto simp: read_sign_def char_eq)

text \<open>Prefix \<open>pre\<close> and effective base \<open>b\<close> of a number with digits \<open>ds\<close> and next character \<open>nd\<close>, when the
  function is called with base \<open>b0\<close>.\<close>

definition base_prefix :: "nat \<Rightarrow> u8 list \<Rightarrow> nat \<Rightarrow> u8 list \<Rightarrow> u8 \<Rightarrow> bool" where
  "base_prefix b0 pre b ds nd \<longleftrightarrow>
     (if pre = [] then \<not> (b0 \<in> {0, 16} \<and> hd (ds @ [nd]) = 48 \<and> hd (tl (ds @ [nd])) \<in> {120, 88})
        \<and> b = (if b0 = 0 then if hd (ds @ [nd]) = 48 then 8 else 10 else b0)
      else pre \<in> {[48, 120], [48, 88]} \<and> b0 \<in> {0, 16} \<and> b = 16)"

lemma is_digit_0: "0 < b \<Longrightarrow> is_digit b 48"
  by (simp add: is_digit_def char_digit_def)

lemma read_base_run:
  assumes "base_prefix b0 pre b ds nd" "b0 \<le> 36" "\<not> is_digit b nd" "0 < b" "bytes_at m q (pre @ ds @ [nd])"
  shows "read_base m (of_nat b0) (ucast (hd (pre @ ds @ [nd])), q + 1)
    = (of_nat b, ucast (hd (ds @ [nd])), q + of_nat (length pre) + 1)"
proof (cases "pre = []")
  case True
  have b0: "(of_nat b0 :: u32) = 0 \<longleftrightarrow> b0 = 0" "(of_nat b0 :: u32) = 16 \<longleftrightarrow> b0 = 16"
    using u32_of_nat [of b0] assms(2) by (auto simp: word_unat_eq_iff)
  have nd: "nd \<noteq> 48" using assms(3,4) is_digit_0 by blast
  have "m (q + 1) \<notin> {120, 88}" if *: "b0 \<in> {0, 16}" "hd (ds @ [nd]) = 48"
  proof -
    obtain ds' where ds: "ds = 48 # ds'" using *(2) nd by (cases ds) auto
    then have "m (q + 1) = hd (tl (ds @ [nd]))" using assms(5) True by (cases ds') simp_all
    then show ?thesis using assms(1) * True by (auto simp: base_prefix_def)
  qed
  then show ?thesis
    using assms(1) True b0 by (auto simp: base_prefix_def read_base_def char_eq Let_def)
next
  case False
  then have "pre = [48, 120] \<or> pre = [48, 88]" "b0 = 0 \<or> b0 = 16" "b = 16"
    using assms(1) by (auto simp: base_prefix_def)
  moreover have "m (q + 2) = hd (ds @ [nd])" if "length pre = 2"
    using assms(5) that by (cases ds) auto
  ultimately show ?thesis using assms(5) by (auto simp: read_base_def char_eq Let_def add.assoc)
qed

text \<open>White space \<open>ws\<close>, sign \<open>sg\<close>, prefix, digits, and the first character behind.\<close>

definition number_at ::
  "bytemem \<Rightarrow> u32 \<Rightarrow> nat \<Rightarrow> u8 list \<Rightarrow> u8 list \<Rightarrow> u8 list \<Rightarrow> nat \<Rightarrow> u8 list \<Rightarrow> u8 \<Rightarrow> bool" where
  "number_at m nptr b0 ws sg pre b ds nd \<longleftrightarrow>
     bytes_at m nptr (ws @ sg @ pre @ ds @ [nd]) \<and> list_all is_space ws \<and> \<not> is_space (hd (sg @ pre @ ds @ [nd]))
     \<and> sg \<in> {[], [43], [45]} \<and> (sg = [] \<longrightarrow> hd (pre @ ds @ [nd]) \<notin> {43, 45})
     \<and> base_prefix b0 pre b ds nd \<and> b0 \<le> 36 \<and> 2 \<le> b \<and> list_all (is_digit b) ds \<and> \<not> is_digit b nd"

text \<open>What the common part of both conversions has found at the end of the loop.\<close>

lemma number_parts:
  assumes "number_at m nptr b0 ws sg pre b ds nd" "L < 2 ^ 32"
  shows "\<exists>c s any acc. skip_space m nptr = Some c \<and> fst (read_sign m c) = (sg = [45])
    \<and> read_base m (of_nat b0) (snd (read_sign m c)) = (of_nat b, ucast (hd (ds @ [nd])), s)
    \<and> conv_loop (of_nat b) (of_nat (L div b)) (of_nat (L mod b)) m (ucast (hd (ds @ [nd])), s, 0, 0)
        = Some (ucast nd, nptr + of_nat (length (ws @ sg @ pre @ ds)) + 1, any, acc)
    \<and> conv_inv L (digits_value b ds) (any, acc) \<and> (any = 0 \<longleftrightarrow> ds = [])"
proof -
  note n = assms(1) [unfolded number_at_def]
  have b: "b \<le> 36" "0 < b" using n by (auto simp: base_prefix_def split: if_splits)
  define y where "y = hd (pre @ ds @ [nd])"
  let ?p = "nptr + of_nat (length ws)"
  let ?q = "?p + of_nat (length sg)"
  have "hd (sg @ pre @ ds @ [nd]) = hd (sg @ [y])" by (cases sg) (simp_all add: y_def)
  then have sp: "skip_space m nptr = Some (ucast (hd (sg @ [y])), ?p + 1)"
    using n by (intro skip_space_run) (cases sg; cases pre; cases ds; auto)+
  have sg: "read_sign m (ucast (hd (sg @ [y])), ?p + 1) = (sg = [45], ucast y, ?q + 1)"
    by (rule read_sign_run) (use n in \<open>cases pre; cases ds; auto simp: y_def\<close>)+
  have base: "read_base m (of_nat b0) (ucast y, ?q + 1) = (of_nat b, ucast (hd (ds @ [nd])), ?q + of_nat (length pre) + 1)"
    unfolding y_def by (rule read_base_run) (use n b in \<open>auto simp: add.assoc\<close>)
  let ?s = "?q + of_nat (length pre) + 1"
  have bytes: "bytes_at m ?s (tl (ds @ [nd]))" using n by (cases ds) (auto simp: add.assoc)
  have zero: "conv_inv L 0 (0, 0)" by (simp add: conv_inv_def)
  have ds: "list_all (is_digit b) ds" "\<not> is_digit b nd" using n by blast+
  obtain st where st: "conv_loop (of_nat b) (of_nat (L div b)) (of_nat (L mod b)) m (ucast (hd (ds @ [nd])), ?s, 0, 0)
        = Some (ucast nd, ?s + of_nat (length ds), st)"
      "conv_inv L (digits_value b ds) st" "if ds = [] then st = (0, 0) else fst st \<noteq> 0"
    using conv_loop_run [OF b(1) assms(2) ds(2,1) zero bytes] unfolding digits_value_def by blast
  obtain any acc where "st = (any, acc)" by (cases st)
  note loop = st [unfolded this]
  have "?q + of_nat (length pre) + 1 + of_nat (length ds) = nptr + of_nat (length (ws @ sg @ pre @ ds)) + 1"
    by (simp add: algebra_simps)
  then show ?thesis using sp sg base loop by (auto split: if_splits)
qed

lemma u32_div_mod:
  assumes "L < 2 ^ 32" "b < 2 ^ 32"
  shows "(of_nat L :: u32) div of_nat b = of_nat (L div b)" "(of_nat L :: u32) mod of_nat b = of_nat (L mod b)"
proof -
  have "L div b < 2 ^ 32" "L mod b < 2 ^ 32"
    using assms by (meson div_le_dividend le_less_trans) (meson assms(1) le_less_trans mod_less_eq_dividend)
  then show "(of_nat L :: u32) div of_nat b = of_nat (L div b)" "(of_nat L :: u32) mod of_nat b = of_nat (L mod b)"
    using u32_of_nat [OF assms(1)] u32_of_nat [OF assms(2)] by (simp_all add: word_unat_eq_iff unat_div unat_mod u32_of_nat)
qed

lemma sint_minus_u32: "n \<le> 2 ^ 31 \<Longrightarrow> sint (- of_nat n :: u32) = - int n"
proof -
  assume n: "n \<le> 2 ^ 31"
  have "(- of_nat n :: u32) = word_of_int (- int n)" by simp
  then show ?thesis using n by (simp only: sint_sbintrunc') (simp add: signed_take_bit_int_eq_self)
qed

lemma strtol_result:
  assumes "number_at m nptr b0 ws sg pre b ds nd"
  shows "\<exists>r. strtol nptr endptr (of_nat b0) errno m = Some (r,
      if (if sg = [45] then digits_value b ds \<le> 2 ^ 31 else digits_value b ds < 2 ^ 31) then errno else ERANGE,
      store_end endptr (if ds = [] then nptr else nptr + of_nat (length (ws @ sg @ pre @ ds))) m)
    \<and> sint r = (if sg = [45] then max (- (2 ^ 31)) (- int (digits_value b ds)) else min (2 ^ 31 - 1) (int (digits_value b ds)))"
proof -
  let ?neg = "sg = [45]" and ?N = "digits_value b ds"
  define L :: nat where "L = (if ?neg then 2 ^ 31 else 2 ^ 31 - 1)"
  have L: "L < 2 ^ 32" by (simp add: L_def)
  have b: "b < 2 ^ 32" using assms by (auto simp: number_at_def base_prefix_def split: if_splits)
  obtain c s any acc where run: "skip_space m nptr = Some c" "fst (read_sign m c) = ?neg"
      "read_base m (of_nat b0) (snd (read_sign m c)) = (of_nat b, ucast (hd (ds @ [nd])), s)"
      "conv_loop (of_nat b) (of_nat (L div b)) (of_nat (L mod b)) m (ucast (hd (ds @ [nd])), s, 0, 0)
        = Some (ucast nd, nptr + of_nat (length (ws @ sg @ pre @ ds)) + 1, any, acc)"
      "conv_inv L ?N (any, acc)" "any = 0 \<longleftrightarrow> ds = []"
    using number_parts [OF assms L] by blast
  have cut: "(if ?neg then - LONG_MIN else LONG_MAX) = of_nat L"
    by (simp add: L_def LONG_MIN_def LONG_MAX_def)
  define neg where "neg \<longleftrightarrow> ?neg"
  define e where "e = nptr + of_nat (length (ws @ sg @ pre @ ds))"
  obtain c1 where sign: "read_sign m c = (neg, c1)" using run(2) by (cases "read_sign m c") (simp add: neg_def)
  have "strtol nptr endptr (of_nat b0) errno m = Some
      (if sint any < 0 then (if neg then LONG_MIN else LONG_MAX) else if neg then - acc else acc,
       if sint any < 0 then ERANGE else errno, store_end endptr (if ds = [] then nptr else e) m)"
    unfolding strtol_def strtol_r_def
    using run(3,4,6) cut unfolding neg_def [symmetric] e_def [symmetric]
    by (simp add: run(1) sign u32_div_mod [OF L b])
  moreover have "sint any < 0 \<longleftrightarrow> L < ?N" using run(5) by (auto simp: conv_inv_def split: if_splits)
  moreover have "\<not> L < ?N \<Longrightarrow> acc = of_nat ?N" using run(5) by (auto simp: conv_inv_def)
  ultimately show ?thesis
    using sint_u32_small [of ?N] sint_minus_u32 [of ?N]
    by (auto simp: L_def LONG_MIN_def LONG_MAX_def neg_def e_def)
qed

lemma strtoul_result:
  assumes "number_at m nptr b0 ws sg pre b ds nd"
  shows "strtoul nptr endptr (of_nat b0) errno m = Some
     (if 2 ^ 32 \<le> digits_value b ds then ULONG_MAX else if sg = [45] then - of_nat (digits_value b ds) else of_nat (digits_value b ds),
      if 2 ^ 32 \<le> digits_value b ds then ERANGE else errno,
      store_end endptr (if ds = [] then nptr else nptr + of_nat (length (ws @ sg @ pre @ ds))) m)"
proof -
  let ?N = "digits_value b ds"
  define L :: nat where "L = 2 ^ 32 - 1"
  have L: "L < 2 ^ 32" by (simp add: L_def)
  have b: "b < 2 ^ 32" using assms by (auto simp: number_at_def base_prefix_def split: if_splits)
  obtain c s any acc where run: "skip_space m nptr = Some c" "fst (read_sign m c) = (sg = [45])"
      "read_base m (of_nat b0) (snd (read_sign m c)) = (of_nat b, ucast (hd (ds @ [nd])), s)"
      "conv_loop (of_nat b) (of_nat (L div b)) (of_nat (L mod b)) m (ucast (hd (ds @ [nd])), s, 0, 0)
        = Some (ucast nd, nptr + of_nat (length (ws @ sg @ pre @ ds)) + 1, any, acc)"
      "conv_inv L ?N (any, acc)" "any = 0 \<longleftrightarrow> ds = []"
    using number_parts [OF assms L] by blast
  define neg where "neg \<longleftrightarrow> sg = [45]"
  define e where "e = nptr + of_nat (length (ws @ sg @ pre @ ds))"
  obtain c1 where sign: "read_sign m c = (neg, c1)" using run(2) by (cases "read_sign m c") (simp add: neg_def)
  have cut: "ULONG_MAX = of_nat L" by (simp add: L_def ULONG_MAX_def LONG_MAX_def)
  have "strtoul nptr endptr (of_nat b0) errno m = Some
      (if sint any < 0 then ULONG_MAX else if neg then - acc else acc,
       if sint any < 0 then ERANGE else errno, store_end endptr (if ds = [] then nptr else e) m)"
    unfolding strtoul_def strtoul_r_def
    using run(3,4,6) unfolding neg_def [symmetric] e_def [symmetric]
    by (simp add: run(1) sign cut u32_div_mod [OF L b])
  moreover have "sint any < 0 \<longleftrightarrow> L < ?N" using run(5) by (auto simp: conv_inv_def split: if_splits)
  moreover have "\<not> L < ?N \<Longrightarrow> acc = of_nat ?N" using run(5) by (auto simp: conv_inv_def)
  moreover have "L < ?N \<longleftrightarrow> 2 ^ 32 \<le> ?N" by (auto simp: L_def)
  ultimately show ?thesis by (simp add: neg_def e_def)
qed



section \<open>Binary search\<close>

text \<open>The comparisons of the key with the \<open>n\<close> elements are those of a sorted array: greater for a
  first part, equal for a middle part, less for the rest.\<close>

definition in_order :: "(nat \<Rightarrow> s32) \<Rightarrow> nat \<Rightarrow> bool" where
  "in_order cmp n \<longleftrightarrow> (\<forall>i j. i < j \<and> j < n \<longrightarrow>
     (sint (cmp i) < 0 \<longrightarrow> sint (cmp j) < 0) \<and> (sint (cmp j) > 0 \<longrightarrow> sint (cmp i) > 0))"

definition bsearch_inv :: "(nat \<Rightarrow> s32) \<Rightarrow> nat \<Rightarrow> u32 \<times> u32 \<Rightarrow> bool" where
  "bsearch_inv cmp n lu \<longleftrightarrow> unat (fst lu) \<le> unat (snd lu) \<and> unat (snd lu) \<le> n
     \<and> (\<forall>i<unat (fst lu). sint (cmp i) > 0) \<and> (\<forall>i<n. unat (snd lu) \<le> i \<longrightarrow> sint (cmp i) < 0)"

lemma bsearch_mid:
  assumes "unat (snd lu) \<le> 2 ^ 31" "fst lu < snd lu"
  shows "unat (bsearch_index lu) = (unat (fst lu) + unat (snd lu)) div 2"
    "unat (fst lu) \<le> unat (bsearch_index lu)" "unat (bsearch_index lu) < unat (snd lu)"
    "unat (bsearch_index lu + 1) = unat (bsearch_index lu) + 1"
proof -
  obtain l u where lu: "lu = (l, u)" by (cases lu)
  have less: "unat l < unat u" using assms(2) by (simp add: lu word_less_nat_alt)
  then have "unat (l + u) = unat l + unat u"
    using assms(1) by (intro unat_add_lem [THEN iffD1]) (simp add: lu)
  then show mid: "unat (bsearch_index lu) = (unat (fst lu) + unat (snd lu)) div 2"
    by (simp add: bsearch_index_def lu unat_div)
  then show "unat (fst lu) \<le> unat (bsearch_index lu)" "unat (bsearch_index lu) < unat (snd lu)"
    using less by (auto simp: lu)
  then have "unat (bsearch_index lu) + unat (1 :: u32) < 2 ^ LENGTH(32)" using assms(1) by simp
  then have "unat (bsearch_index lu + 1) = unat (bsearch_index lu) + unat (1 :: u32)" by (rule unat_add_lem [THEN iffD1])
  then show "unat (bsearch_index lu + 1) = unat (bsearch_index lu) + 1" by simp
qed

lemma bsearch_step_inv:
  assumes "bsearch_inv cmp n lu" "n \<le> 2 ^ 31" "in_order cmp n" "fst lu < snd lu" "cmp (unat (bsearch_index lu)) \<noteq> 0"
  defines "lu' \<equiv> if sint (cmp (unat (bsearch_index lu))) < 0 then (fst lu, bsearch_index lu) else (bsearch_index lu + 1, snd lu)"
  shows "bsearch_inv cmp n lu' \<and> unat (snd lu') - unat (fst lu') < unat (snd lu) - unat (fst lu)"
proof -
  let ?i = "unat (bsearch_index lu)"
  have u: "unat (snd lu) \<le> 2 ^ 31" using assms(1,2) by (simp add: bsearch_inv_def)
  note mid = bsearch_mid(2-4) [OF u assms(4)]
  have i: "?i < n" using mid(2) assms(1) by (simp add: bsearch_inv_def)
  show ?thesis
  proof (cases "sint (cmp ?i) < 0")
    case True
    then have "sint (cmp j) < 0" if "j < n" "?i \<le> j" for j
      using assms(3) that True unfolding in_order_def by (cases "j = ?i") (simp, metis le_neq_implies_less)
    then show ?thesis using True mid assms(1) by (auto simp: lu'_def bsearch_inv_def)
  next
    case False
    then have "sint (cmp ?i) > 0" using assms(5) by (metis linorder_neqE_linordered_idom sint_0 signed_eq_0_iff)
    then have "sint (cmp j) > 0" if "j < ?i + 1" for j
      using assms(3) that i unfolding in_order_def by (cases "j = ?i") (simp, metis Suc_eq_plus1 less_SucE)
    then show ?thesis using False mid assms(1) by (auto simp: lu'_def bsearch_inv_def)
  qed
qed

text \<open>Binary search returns. When an element of a sorted array compares equal to the key it
  returns the address of such an element, otherwise \<^verbatim>\<open>NULL\<close>. The sum of the bounds does not
  overflow for arrays of up to \<open>2\<^sup>3\<^sup>1\<close> elements.\<close>

theorem bsearch_finds:
  assumes "in_order (\<lambda>i. compar (bas + of_nat i * esz)) (unat nmemb)" "nmemb \<le> 0x80000000" "esz \<noteq> 0"
  shows "\<exists>p. bsearch compar bas nmemb esz = Some p
    \<and> (if \<exists>i<unat nmemb. compar (bas + of_nat i * esz) = 0
       then \<exists>i<unat nmemb. p = bas + of_nat i * esz \<and> compar p = 0 else p = 0)"
proof (cases "nmemb = 0")
  case True then show ?thesis by (simp add: bsearch_def)
next
  case False
  let ?cmp = "\<lambda>i. compar (bas + of_nat i * esz)" and ?n = "unat nmemb"
  let ?b = "\<lambda>lu. fst lu < snd lu \<and> compar (bsearch_at bas esz lu) \<noteq> 0"
  let ?c = "\<lambda>lu. if sint (compar (bsearch_at bas esz lu)) < 0 then (fst lu, bsearch_index lu) else (bsearch_index lu + 1, snd lu)"
  have n: "?n \<le> 2 ^ 31" using assms(2) by (simp add: word_le_nat_alt)
  have at: "compar (bsearch_at bas esz lu) = ?cmp (unat (bsearch_index lu))" for lu by (simp add: bsearch_at_def)
  have step: "bsearch_inv ?cmp ?n (?c lu) \<and> unat (snd (?c lu)) - unat (fst (?c lu)) < unat (snd lu) - unat (fst lu)"
    if "bsearch_inv ?cmp ?n lu" "?b lu" for lu
    using bsearch_step_inv [OF that(1) n assms(1)] that(2) unfolding at by blast
  have init: "bsearch_inv ?cmp ?n (0, nmemb)" by (simp add: bsearch_inv_def)
  obtain lu where lu: "while_option ?b ?c (0, nmemb) = Some lu"
    using measure_while_option_Some [of "bsearch_inv ?cmp ?n" ?b ?c "\<lambda>lu. unat (snd lu) - unat (fst lu)", OF step init] by blast
  have inv: "bsearch_inv ?cmp ?n lu"
    by (rule while_option_rule [where P = "bsearch_inv ?cmp ?n", OF _ lu init]) (use step in blast)
  have stop: "\<not> ?b lu" by (rule while_option_stop [OF lu])
  have res: "bsearch compar bas nmemb esz = Some (if fst lu < snd lu then bsearch_at bas esz lu else 0)"
    using False assms(3) lu by (cases lu) (simp add: bsearch_def)
  show ?thesis
  proof (cases "fst lu < snd lu")
    case True
    then have "compar (bsearch_at bas esz lu) = 0" "unat (bsearch_index lu) < ?n"
      using stop bsearch_mid(3) [of lu] inv n by (auto simp: bsearch_inv_def)
    then show ?thesis using True res at by (auto simp: bsearch_at_def intro: exI [of _ "unat (bsearch_index lu)"])
  next
    case F: False
    then have "sint (?cmp i) \<noteq> 0" if "i < ?n" for i
      using inv that by (cases "i < unat (fst lu)") (force simp: bsearch_inv_def word_less_nat_alt)+
    then have "\<not> (\<exists>i<?n. ?cmp i = 0)" by (metis sint_0)
    then show ?thesis using F res by auto
  qed
qed

theorem bsearch_finds_witness:
  "\<exists>p. bsearch (\<lambda>a. 0x2008 - a) 0x2000 5 4 = Some p \<and> 0x2008 - p = 0"
proof -
  let ?c = "\<lambda>a. 0x2008 - a :: s32"
  have u5: "unat (5 :: u32) = 5" by simp
  have c: "?c (0x2000 + of_nat i * 4) = word_of_int (8 - 4 * int i)" for i by simp
  have "sint (?c (0x2000 + of_nat i * 4)) = 8 - 4 * int i" if "i < 5" for i
    unfolding c using that by (simp only: sint_sbintrunc') (simp add: signed_take_bit_int_eq_self)
  then have "in_order (\<lambda>i. ?c (0x2000 + of_nat i * 4)) (unat (5 :: u32))"
    unfolding in_order_def u5 by auto
  moreover have "\<exists>i<unat (5 :: u32). ?c (0x2000 + of_nat i * 4) = 0" by (intro exI [of _ 2]) simp
  ultimately show ?thesis using bsearch_finds [of ?c "0x2000" 4 5] by auto
qed

end
