(* ===== verification/LibcSort.thy ===== *)
theory LibcSort
  imports LibcString
begin

text \<open>
  Sorting in the C library, \<^verbatim>\<open>src/libc/stdlib/qsort.c\<close>: Bentley and McIlroy's quicksort with a
  partition into smaller, equal and greater elements, which changes to insertion sort for
  short arrays and for those the partition has found in order.

  Pointers, sizes and differences of pointers are words, as on the target, and differences are
  compared as signed numbers where the source stores them in an \<^verbatim>\<open>int\<close>. The comparison
  function is a parameter, a function of two addresses and the memory. Loops are partial
  functions: with elements of size 0 they do not end.
\<close>

type_synonym compar = "u32 \<Rightarrow> u32 \<Rightarrow> bytemem \<Rightarrow> s32"

section \<open>Exchanging elements\<close>

text \<open>\<^verbatim>\<open>swapcode\<close> for its two types: the loop tests the decremented count at its end.\<close>

function swapcode_long :: "s32 \<Rightarrow> u32 \<Rightarrow> u32 \<Rightarrow> bytemem \<Rightarrow> bytemem" where
  "swapcode_long i pi pj m =
     (let t = ld32 m pi; m = st32 pi (ld32 m pj) m; m = st32 pj t m
      in if sint (i - 1) > 0 then swapcode_long (i - 1) (pi + 4) (pj + 4) m else m)"
  by pat_completeness auto

function swapcode_char :: "s32 \<Rightarrow> u32 \<Rightarrow> u32 \<Rightarrow> bytemem \<Rightarrow> bytemem" where
  "swapcode_char i pi pj m =
     (let t = m pi; m = m(pi := m pj); m = m(pj := t)
      in if sint (i - 1) > 0 then swapcode_char (i - 1) (pi + 1) (pj + 1) m else m)"
  by pat_completeness auto

lemma count_down: "sint (i - 1) > 0 \<Longrightarrow> unat (i - 1) < unat i" for i :: s32
proof -
  assume "sint (i - 1) > 0"
  then have "i \<noteq> 0" by (auto simp: sint_n1)
  then show ?thesis using unat_minus_one [of i] unat_gt_0 [of i] by simp
qed

termination swapcode_long by (relation "measure (\<lambda>(i, _). unat i)") (auto dest: count_down)
termination swapcode_char by (relation "measure (\<lambda>(i, _). unat i)") (auto dest: count_down)

declare swapcode_long.simps [simp del] swapcode_char.simps [simp del]

definition SWAPINIT :: "u32 \<Rightarrow> u32 \<Rightarrow> s32" where
  "SWAPINIT a es = (if a mod 4 \<noteq> 0 \<or> es mod 4 \<noteq> 0 then 2 else if es = 4 then 0 else 1)"

definition swapfunc :: "u32 \<Rightarrow> u32 \<Rightarrow> s32 \<Rightarrow> s32 \<Rightarrow> bytemem \<Rightarrow> bytemem" where
  "swapfunc a b n swaptype m =
     (if sint swaptype \<le> 1 then swapcode_long (n div 4) a b m else swapcode_char n a b m)"

definition swap_elems :: "s32 \<Rightarrow> u32 \<Rightarrow> u32 \<Rightarrow> u32 \<Rightarrow> bytemem \<Rightarrow> bytemem" where
  "swap_elems swaptype es a b m =
     (if swaptype = 0 then (let t = ld32 m a; m = st32 a (ld32 m b) m in st32 b t m)
      else swapfunc a b es swaptype m)"

definition vecswap :: "s32 \<Rightarrow> u32 \<Rightarrow> u32 \<Rightarrow> s32 \<Rightarrow> bytemem \<Rightarrow> bytemem" where
  "vecswap swaptype a b n m = (if sint n > 0 then swapfunc a b n swaptype m else m)"

section \<open>The pivot\<close>

definition med3 :: "compar \<Rightarrow> u32 \<Rightarrow> u32 \<Rightarrow> u32 \<Rightarrow> bytemem \<Rightarrow> u32" where
  "med3 cmp a b c m =
     (if sint (cmp a b m) < 0
      then (if sint (cmp b c m) < 0 then b else if sint (cmp a c m) < 0 then c else a)
      else (if sint (cmp b c m) > 0 then b else if sint (cmp a c m) < 0 then a else c))"

definition choose_pivot :: "compar \<Rightarrow> u32 \<Rightarrow> u32 \<Rightarrow> u32 \<Rightarrow> bytemem \<Rightarrow> u32" where
  "choose_pivot cmp a n es m =
     (let pm = a + (n div 2) * es in
      if n > 7 then
        let pl = a; pn = a + (n - 1) * es;
            (pl, pm, pn) =
              (if n > 40 then
                 let d = (n div 8) * es
                 in (med3 cmp pl (pl + d) (pl + 2 * d) m, med3 cmp (pm - d) pm (pm + d) m,
                     med3 cmp (pn - 2 * d) (pn - d) pn m)
               else (pl, pm, pn))
        in med3 cmp pl pm pn m
      else pm)"

section \<open>Insertion sort\<close>

partial_function (option) sift :: "compar \<Rightarrow> s32 \<Rightarrow> u32 \<Rightarrow> u32 \<Rightarrow> u32 \<Rightarrow> bytemem \<Rightarrow> bytemem option" where
  "sift cmp swaptype es a pl m =
     (if pl > a \<and> sint (cmp (pl - es) pl m) > 0
      then sift cmp swaptype es a (pl - es) (swap_elems swaptype es pl (pl - es) m)
      else Some m)"

partial_function (option) insertion_loop ::
  "compar \<Rightarrow> s32 \<Rightarrow> u32 \<Rightarrow> u32 \<Rightarrow> u32 \<Rightarrow> u32 \<Rightarrow> bytemem \<Rightarrow> bytemem option" where
  "insertion_loop cmp swaptype es a n pm m =
     (if pm < a + n * es
      then do { m \<leftarrow> sift cmp swaptype es a pm m; insertion_loop cmp swaptype es a n (pm + es) m }
      else Some m)"

section \<open>Partition\<close>

text \<open>The two scans and the loop around them. Their results are the pointers they move, \<^verbatim>\<open>swap_cnt\<close>
  and the memory.\<close>

partial_function (option) scan_up ::
  "compar \<Rightarrow> s32 \<Rightarrow> u32 \<Rightarrow> u32 \<Rightarrow> u32 \<Rightarrow> u32 \<Rightarrow> u32 \<Rightarrow> s32 \<Rightarrow> bytemem \<Rightarrow> (u32 \<times> u32 \<times> s32 \<times> bytemem) option" where
  "scan_up cmp swaptype es a pa pb pc swap_cnt m =
     (if pb \<le> pc \<and> sint (cmp pb a m) \<le> 0
      then if cmp pb a m = 0
        then scan_up cmp swaptype es a (pa + es) (pb + es) pc 1 (swap_elems swaptype es pa pb m)
        else scan_up cmp swaptype es a pa (pb + es) pc swap_cnt m
      else Some (pa, pb, swap_cnt, m))"

partial_function (option) scan_down ::
  "compar \<Rightarrow> s32 \<Rightarrow> u32 \<Rightarrow> u32 \<Rightarrow> u32 \<Rightarrow> u32 \<Rightarrow> u32 \<Rightarrow> s32 \<Rightarrow> bytemem \<Rightarrow> (u32 \<times> u32 \<times> s32 \<times> bytemem) option" where
  "scan_down cmp swaptype es a pb pc pd swap_cnt m =
     (if pb \<le> pc \<and> sint (cmp pc a m) \<ge> 0
      then if cmp pc a m = 0
        then scan_down cmp swaptype es a pb (pc - es) (pd - es) 1 (swap_elems swaptype es pc pd m)
        else scan_down cmp swaptype es a pb (pc - es) pd swap_cnt m
      else Some (pc, pd, swap_cnt, m))"

partial_function (option) partition_loop ::
  "compar \<Rightarrow> s32 \<Rightarrow> u32 \<Rightarrow> u32 \<Rightarrow> u32 \<Rightarrow> u32 \<Rightarrow> u32 \<Rightarrow> u32 \<Rightarrow> s32 \<Rightarrow> bytemem
     \<Rightarrow> (u32 \<times> u32 \<times> u32 \<times> u32 \<times> s32 \<times> bytemem) option" where
  "partition_loop cmp swaptype es a pa pb pc pd swap_cnt m = do {
     (pa, pb, swap_cnt, m) \<leftarrow> scan_up cmp swaptype es a pa pb pc swap_cnt m;
     (pc, pd, swap_cnt, m) \<leftarrow> scan_down cmp swaptype es a pb pc pd swap_cnt m;
     if pb > pc then Some (pa, pb, pc, pd, swap_cnt, m)
     else partition_loop cmp swaptype es a pa (pb + es) (pc - es) pd 1 (swap_elems swaptype es pb pc m) }"

section \<open>Quicksort\<close>

definition minimum :: "s32 \<Rightarrow> s32 \<Rightarrow> s32" where
  "minimum a b = (if sint a < sint b then a else b)"

text \<open>The jump back to \<^verbatim>\<open>loop\<close> with new values of \<open>a\<close> and \<open>n\<close> is the call in the last line.\<close>

partial_function (option) qsort :: "u32 \<Rightarrow> u32 \<Rightarrow> u32 \<Rightarrow> compar \<Rightarrow> bytemem \<Rightarrow> bytemem option" where
  "qsort a n es cmp m =
     (let swaptype = SWAPINIT a es in
      if n < 7 then insertion_loop cmp swaptype es a n (a + es) m
      else do {
        let m = swap_elems swaptype es a (choose_pivot cmp a n es m) m;
        (pa, pb, pc, pd, swap_cnt, m) \<leftarrow>
          partition_loop cmp swaptype es a (a + es) (a + es) (a + (n - 1) * es) (a + (n - 1) * es) 0 m;
        if swap_cnt = 0 then insertion_loop cmp swaptype es a n (a + es) m
        else do {
          let pn = a + n * es;
          let r = minimum (pa - a) (pb - pa);
          let m = vecswap swaptype a (pb - r) r m;
          let r = minimum (pd - pc) (pn - pd - es);
          let m = vecswap swaptype pb (pn - r) r m;
          m \<leftarrow> (if pb - pa > es then qsort a ((pb - pa) div es) es cmp m else Some m);
          if pd - pc > es then qsort (pn - (pd - pc)) ((pd - pc) div es) es cmp m else Some m } })"

end
