(* ===== verification/LibcSortCorrect.thy ===== *)
theory LibcSortCorrect
  imports LibcSort "HOL-Library.Multiset"
begin

text \<open>
  Correctness of \<^verbatim>\<open>qsort\<close>. The first part shows that the exchange routines exchange blocks of
  bytes whatever unit they move; the second views the memory of an array as a map from
  positions to elements and pointers into it as positions; the third shows insertion sort,
  partition and quicksort correct on that view.
\<close>

section \<open>Exchanging blocks of bytes\<close>

definition swapped :: "nat \<Rightarrow> u32 \<Rightarrow> u32 \<Rightarrow> bytemem \<Rightarrow> bytemem \<Rightarrow> bool" where
  "swapped L p q m m' \<longleftrightarrow>
     (\<forall>k<L. m' (p + of_nat k) = m (q + of_nat k) \<and> m' (q + of_nat k) = m (p + of_nat k))
     \<and> (\<forall>x. (\<forall>k<L. x \<noteq> p + of_nat k \<and> x \<noteq> q + of_nat k) \<longrightarrow> m' x = m x)"

text \<open>The blocks are the same or do not overlap.\<close>

definition apart :: "nat \<Rightarrow> u32 \<Rightarrow> u32 \<Rightarrow> bool" where
  "apart L p q \<longleftrightarrow> p = q \<or> (\<forall>k<L. \<forall>l<L. p + of_nat k \<noteq> q + of_nat l)"

lemma of_nat_u32_inj: "a < 2 ^ 32 \<Longrightarrow> b < 2 ^ 32 \<Longrightarrow> (of_nat a :: u32) = of_nat b \<longleftrightarrow> a = b"
  by (simp add: word_of_nat_eq_iff take_bit_nat_eq_self)

lemma swapped_append:
  assumes "swapped A p q m m1" "swapped B (p + of_nat A) (q + of_nat A) m1 m2"
    "apart (A + B) p q" "A + B \<le> 2 ^ 32"
  shows "swapped (A + B) p q m m2"
  unfolding swapped_def
proof (intro conjI allI impI)
  have s1: "m1 (p + of_nat k) = m (q + of_nat k)" "m1 (q + of_nat k) = m (p + of_nat k)" if "k < A" for k
    using assms(1) that by (auto simp: swapped_def)
  have s2: "m2 (p + of_nat (A + k)) = m1 (q + of_nat (A + k))" "m2 (q + of_nat (A + k)) = m1 (p + of_nat (A + k))"
    if "k < B" for k using assms(2) that by (auto simp: swapped_def add.assoc)
  have r1: "m1 x = m x" if "\<And>k. k < A \<Longrightarrow> x \<noteq> p + of_nat k \<and> x \<noteq> q + of_nat k" for x
    using assms(1) that by (auto simp: swapped_def)
  have r2: "m2 x = m1 x" if "\<And>k. k < B \<Longrightarrow> x \<noteq> p + of_nat (A + k) \<and> x \<noteq> q + of_nat (A + k)" for x
    using assms(2) that by (auto simp: swapped_def add.assoc)
  have ne: "p + of_nat k \<noteq> p + of_nat (A + l)" "q + of_nat k \<noteq> q + of_nat (A + l)"
    "p + of_nat k \<noteq> q + of_nat (A + l)" "q + of_nat k \<noteq> p + of_nat (A + l)" if "k < A" "l < B" for k l
  proof -
    have i: "(of_nat k :: u32) \<noteq> of_nat (A + l)"
      using that assms(4) of_nat_u32_inj [of k "A + l"] by linarith
    then show "p + of_nat k \<noteq> p + of_nat (A + l)" "q + of_nat k \<noteq> q + of_nat (A + l)"
      by (auto simp del: of_nat_add)
    have "k < A + B" "A + l < A + B" using that by auto
    then show "p + of_nat k \<noteq> q + of_nat (A + l)" "q + of_nat k \<noteq> p + of_nat (A + l)"
      using assms(3) i unfolding apart_def by (metis add_left_cancel)+
  qed
  fix k assume k: "k < A + B"
  show "m2 (p + of_nat k) = m (q + of_nat k)"
  proof (cases "k < A")
    case True
    then show ?thesis using r2 [of "p + of_nat k"] ne s1 by metis
  next
    case False
    then obtain l where l: "k = A + l" "l < B" using k by (metis add_less_cancel_left le_Suc_ex not_le)
    then show ?thesis using s2 r1 [of "q + of_nat k"] ne by metis
  qed
  show "m2 (q + of_nat k) = m (p + of_nat k)"
  proof (cases "k < A")
    case True
    then show ?thesis using r2 [of "q + of_nat k"] ne s1 by metis
  next
    case False
    then obtain l where l: "k = A + l" "l < B" using k by (metis add_less_cancel_left le_Suc_ex not_le)
    then show ?thesis using s2 r1 [of "p + of_nat k"] ne by metis
  qed
next
  fix x assume x: "\<forall>k<A + B. x \<noteq> p + of_nat k \<and> x \<noteq> q + of_nat k"
  have "m1 x = m x" using x assms(1) by (simp add: swapped_def)
  moreover have "m2 x = m1 x"
  proof -
    have "x \<noteq> p + of_nat A + of_nat k \<and> x \<noteq> q + of_nat A + of_nat k" if "k < B" for k
      using x [rule_format, of "A + k"] that by (simp add: add.assoc)
    then show ?thesis using assms(2) by (simp add: swapped_def)
  qed
  ultimately show "m2 x = m x" by simp
qed

lemma apart_shift: "apart (A + B) p q \<Longrightarrow> apart B (p + of_nat A) (q + of_nat A)"
  unfolding apart_def
proof (elim disjE, goal_cases)
  case 2
  have "p + of_nat A + of_nat k \<noteq> q + of_nat A + of_nat l" if "k < B" "l < B" for k l
    using 2 [rule_format, of "A + k" "A + l"] that by (simp add: add.assoc)
  then show ?case by blast
qed simp

lemma apart_less: "apart L p q \<Longrightarrow> M \<le> L \<Longrightarrow> apart M p q"
  unfolding apart_def by (meson less_le_trans)

lemma swapped_byte: "swapped 1 p q m (m(p := m q, q := m p))"
  by (auto simp: swapped_def)

lemma swapped_word:
  assumes "apart 4 p q"
  shows "swapped 4 p q m (st32 q (ld32 m p) (st32 p (ld32 m q) m))"
proof -
  have less: "(\<forall>k<4. P k) \<longleftrightarrow> P 0 \<and> P 1 \<and> P 2 \<and> P (3 :: nat)" for P
    by (simp add: numeral_eq_Suc All_less_Suc) auto
  show ?thesis
  proof (cases "p = q")
    case True
    then show ?thesis by (auto simp: swapped_def less st32_def ld32_bytes)
  next
    case False
    then have "p + of_nat k \<noteq> q + of_nat l" if "k < 4" "l < 4" for k l using assms that by (auto simp: apart_def)
    from this [of 0] this [of 1] this [of 2] this [of 3]
    have "\<forall>l<4. p \<noteq> q + of_nat l" "\<forall>l<4. p + 1 \<noteq> q + of_nat l" "\<forall>l<4. p + 2 \<noteq> q + of_nat l" "\<forall>l<4. p + 3 \<noteq> q + of_nat l"
      by simp_all
    then have ne: "p \<noteq> q" "p \<noteq> q + 1" "p \<noteq> q + 2" "p \<noteq> q + 3" "p + 1 \<noteq> q" "p + 1 \<noteq> q + 1" "p + 1 \<noteq> q + 2" "p + 1 \<noteq> q + 3" "p + 2 \<noteq> q" "p + 2 \<noteq> q + 1" "p + 2 \<noteq> q + 2" "p + 2 \<noteq> q + 3" "p + 3 \<noteq> q" "p + 3 \<noteq> q + 1" "p + 3 \<noteq> q + 2" "p + 3 \<noteq> q + 3"
      unfolding less by simp_all
    show ?thesis by (simp add: swapped_def less st32_def ld32_bytes ne ne [symmetric])
  qed
qed

lemma sint_of_nat_u32: "n < 2 ^ 31 \<Longrightarrow> sint (of_nat n :: u32) = int n"
  by (simp add: signed_take_bit_int_eq_self sint_uint unsigned_of_nat take_bit_nat_eq_self signed_of_nat)

lemma swapcode_char_swaps:
  assumes "L < 2 ^ 31" "0 < L" "apart L p q"
  shows "swapped L p q m (swapcode_char (of_nat L) p q m)"
  using assms
proof (induction L arbitrary: p q m)
  case (Suc L)
  have d: "of_nat (Suc L) - 1 = (of_nat L :: s32)" by simp
  have s: "sint (of_nat L :: s32) = int L" using Suc.prems(1) by (simp add: sint_of_nat_u32)
  let ?m = "m(p := m q, q := m p)"
  show ?case
  proof (cases "L = 0")
    case True
    then show ?thesis using swapped_byte [of p q m] by (subst swapcode_char.simps) (simp add: Let_def fun_upd_twist)
  next
    case False
    then have "swapped L (p + 1) (q + 1) ?m (swapcode_char (of_nat L) (p + 1) (q + 1) ?m)"
      using Suc.IH Suc.prems apart_shift [of 1 L p q] by simp
    moreover have "swapcode_char (of_nat (Suc L)) p q m = swapcode_char (of_nat L) (p + 1) (q + 1) ?m"
      using False by (subst swapcode_char.simps) (simp only: Let_def d s, simp)
    ultimately show ?thesis using swapped_append [OF swapped_byte, where B = L] Suc.prems by simp
  qed
qed simp

lemma swapcode_long_swaps:
  assumes "L < 2 ^ 29" "0 < L" "apart (4 * L) p q"
  shows "swapped (4 * L) p q m (swapcode_long (of_nat L) p q m)"
  using assms
proof (induction L arbitrary: p q m)
  case (Suc L)
  have d: "of_nat (Suc L) - 1 = (of_nat L :: s32)" by simp
  have s: "sint (of_nat L :: s32) = int L" using Suc.prems(1) by (simp add: sint_of_nat_u32)
  let ?m = "st32 q (ld32 m p) (st32 p (ld32 m q) m)"
  have sw: "swapped 4 p q m ?m" using Suc.prems(3) by (intro swapped_word) (erule apart_less, simp)
  show ?case
  proof (cases "L = 0")
    case True
    then show ?thesis using sw by (subst swapcode_long.simps) (simp add: Let_def)
  next
    case False
    then have "swapped (4 * L) (p + 4) (q + 4) ?m (swapcode_long (of_nat L) (p + 4) (q + 4) ?m)"
      using Suc.IH Suc.prems apart_shift [of 4 "4 * L" p q] by simp
    moreover have "swapcode_long (of_nat (Suc L)) p q m = swapcode_long (of_nat L) (p + 4) (q + 4) ?m"
      using False by (subst swapcode_long.simps) (simp only: Let_def d s, simp)
    ultimately show ?thesis using swapped_append [OF sw, where B = "4 * L"] Suc.prems by simp
  qed
qed simp

lemma swapfunc_swaps:
  assumes "L < 2 ^ 31" "0 < L" "apart L p q" "swaptype \<in> {0, 1, 2}" "swaptype = 2 \<or> 4 dvd L"
  shows "swapped L p q m (swapfunc p q (of_nat L) swaptype m)"
proof (cases "swaptype = 2")
  case True
  then show ?thesis using assms swapcode_char_swaps by (simp add: swapfunc_def)
next
  case False
  then obtain K where K: "L = 4 * K" using assms(5) by (auto simp: dvd_def)
  have "unat (of_nat L :: u32) = L" using assms(1) by (simp add: unsigned_of_nat take_bit_nat_eq_self)
  then have "unat ((of_nat L :: u32) div 4) = K" using K by (simp add: unat_div)
  then have "(of_nat L :: u32) div 4 = of_nat K" by (metis of_nat_unat ucast_id)
  moreover have "sint swaptype \<le> 1" using assms(4) False by auto
  ultimately show ?thesis using swapcode_long_swaps [of K p q m] assms K by (simp add: swapfunc_def)
qed

section \<open>The array\<close>

text \<open>An array with its comparison function: \<open>order\<close> is the order the comparison function
  computes from the contents of two elements.\<close>

record sort_array =
  base :: u32
  esize :: u32
  len :: int
  compare :: compar
  order :: "u8 list \<Rightarrow> u8 list \<Rightarrow> int"

abbreviation sz :: "sort_array \<Rightarrow> int" where "sz A \<equiv> uint (esize A)"

definition at :: "sort_array \<Rightarrow> int \<Rightarrow> u32" where
  "at A i = base A + of_int i * esize A"

definition elem :: "u32 \<Rightarrow> u32 \<Rightarrow> bytemem \<Rightarrow> u8 list" where
  "elem es p m = map (\<lambda>k. m (p + of_nat k)) [0..<unat es]"

definition view :: "sort_array \<Rightarrow> bytemem \<Rightarrow> int \<Rightarrow> u8 list" where
  "view A m i = (if 0 \<le> i \<and> i < len A then elem (esize A) (at A i) m else [])"

text \<open>The array lies in the address space, has fewer than \<open>2\<^sup>3\<^sup>1\<close> bytes, and its comparison
  function reads nothing but the two elements.\<close>

definition valid :: "sort_array \<Rightarrow> bool" where
  "valid A \<longleftrightarrow> 0 < sz A \<and> 0 \<le> len A \<and> uint (base A) + sz A < 2 ^ 32
     \<and> uint (base A) + len A * sz A < 2 ^ 32 \<and> len A * sz A < 2 ^ 31
     \<and> (\<forall>m i j. 0 \<le> i \<and> i < len A \<and> 0 \<le> j \<and> j < len A \<longrightarrow>
          sint (compare A (at A i) (at A j) m) = order A (elem (esize A) (at A i) m) (elem (esize A) (at A j) m))"

lemma validD:
  assumes "valid A"
  shows "0 < sz A" "0 \<le> len A" "uint (base A) + len A * sz A < 4294967296" "len A * sz A < 2147483648"
    "uint (base A) + sz A < 4294967296"
  using assms by (simp_all add: valid_def)

text \<open>What is required of the order: the results for exchanged arguments have opposite signs,
  and the order is transitive.\<close>

definition total_order :: "(u8 list \<Rightarrow> u8 list \<Rightarrow> int) \<Rightarrow> bool" where
  "total_order c \<longleftrightarrow> (\<forall>x y. c x y < 0 \<longleftrightarrow> c y x > 0) \<and> (\<forall>x y z. c x y \<le> 0 \<and> c y z \<le> 0 \<longrightarrow> c x z \<le> 0)"

text \<open>Memory outside the array.\<close>

definition outside :: "sort_array \<Rightarrow> bytemem \<Rightarrow> bytemem \<Rightarrow> bool" where
  "outside A m m' \<longleftrightarrow> (\<forall>p. (\<forall>k. 0 \<le> k \<and> k < len A * sz A \<longrightarrow> p \<noteq> base A + of_int k) \<longrightarrow> m' p = m p)"

lemma outside_refl [simp]: "outside A m m"
  by (simp add: outside_def)

lemma outside_trans [trans]: "outside A m m1 \<Longrightarrow> outside A m1 m2 \<Longrightarrow> outside A m m2"
  by (simp add: outside_def)

lemma uint_of_int_u32: "0 \<le> k \<Longrightarrow> k < 4294967296 \<Longrightarrow> uint (of_int k :: u32) = k"
  by (simp add: uint_word_of_int_eq take_bit_int_eq_self)

lemma sint_of_int_u32: "- 2147483648 \<le> k \<Longrightarrow> k < 2147483648 \<Longrightarrow> sint (of_int k :: u32) = k"
  by (simp add: sint_sbintrunc' signed_take_bit_int_eq_self)

lemma at_of_int: "at A i = of_int (uint (base A) + i * sz A)"
  by (simp add: at_def)

lemma at_step: "at A i + esize A = at A (i + 1)" "at A i - esize A = at A (i - 1)"
  by (simp_all add: at_def algebra_simps)

lemma at_0: "at A 0 = base A"
  by (simp add: at_def)

lemma at_diff: "at A i - at A j = of_int ((i - j) * sz A)"
  by (simp add: at_def algebra_simps)

lemma at_plus: "at A i + of_int k * esize A = at A (i + k)" "at A i - of_int k * esize A = at A (i - k)"
  by (simp_all add: at_def algebra_simps)

lemma mult_mono_sz: "i \<le> len A \<Longrightarrow> valid A \<Longrightarrow> i * sz A \<le> len A * sz A"
  by (simp add: valid_def)

lemma at_uint:
  assumes "valid A" "0 \<le> i" "i \<le> len A"
  shows "uint (at A i) = uint (base A) + i * sz A"
proof -
  have "i * sz A \<le> len A * sz A" by (rule mult_mono_sz) (use assms in auto)
  moreover have "0 \<le> i * sz A" using assms(2) by simp
  ultimately have "0 \<le> uint (base A) + i * sz A" "uint (base A) + i * sz A < 4294967296"
    using validD(3) [OF assms(1)] uint_nonnegative [of "base A"] by linarith+
  then show ?thesis unfolding at_of_int by (rule uint_of_int_u32)
qed

lemma at_le: "valid A \<Longrightarrow> 0 \<le> i \<Longrightarrow> i \<le> len A \<Longrightarrow> 0 \<le> j \<Longrightarrow> j \<le> len A \<Longrightarrow> at A i \<le> at A j \<longleftrightarrow> i \<le> j"
  by (simp add: word_le_def at_uint) (simp add: valid_def)

lemma at_less: "valid A \<Longrightarrow> 0 \<le> i \<Longrightarrow> i \<le> len A \<Longrightarrow> 0 \<le> j \<Longrightarrow> j \<le> len A \<Longrightarrow> at A i < at A j \<longleftrightarrow> i < j"
  by (simp add: word_less_def at_uint) (simp add: valid_def)

text \<open>Differences of pointers as signed and unsigned numbers.\<close>

lemma diff_range:
  assumes "valid A" "0 \<le> k" "k \<le> len A"
  shows "0 \<le> k * sz A" "k * sz A < 2147483648" "sint (of_int (k * sz A) :: u32) = k * sz A"
    "uint (of_int (k * sz A) :: u32) = k * sz A"
proof -
  show r: "0 \<le> k * sz A" "k * sz A < 2147483648"
    using mult_mono_sz [OF assms(3,1)] validD(4) [OF assms(1)] assms(2) by (simp, linarith)
  show "sint (of_int (k * sz A) :: u32) = k * sz A" by (rule sint_of_int_u32) (use r in linarith)+
  show "uint (of_int (k * sz A) :: u32) = k * sz A" by (rule uint_of_int_u32) (use r in linarith)+
qed

lemma diff_div:
  assumes "valid A" "0 \<le> k" "k \<le> len A"
  shows "of_int (k * sz A) div esize A = (of_int k :: u32)"
proof -
  have "uint (of_int (k * sz A) div esize A) = k"
    using diff_range(4) [OF assms] assms(1) by (simp add: uint_div valid_def)
  then show ?thesis by (metis word_of_int_uint)
qed

lemma diff_greater:
  assumes "valid A" "0 \<le> k" "k \<le> len A"
  shows "esize A < of_int (k * sz A) \<longleftrightarrow> 1 < k"
proof -
  have "esize A < of_int (k * sz A) \<longleftrightarrow> 1 * sz A < k * sz A"
    using diff_range(4) [OF assms] by (simp add: word_less_def)
  then show ?thesis using assms(1) by (simp only: mult_less_cancel_right) (simp add: valid_def)
qed

lemma minimum_diff:
  assumes "valid A" "0 \<le> j" "j \<le> len A" "0 \<le> k" "k \<le> len A"
  shows "minimum (of_int (j * sz A)) (of_int (k * sz A)) = of_int (min j k * sz A)"
  using diff_range(3) [OF assms(1-3)] diff_range(3) [OF assms(1,4,5)] assms(1)
  by (auto simp: minimum_def min_def valid_def)

text \<open>A byte of the array is a byte of exactly one element.\<close>

definition blockswap :: "int \<Rightarrow> int \<Rightarrow> int \<Rightarrow> (int \<Rightarrow> 'a) \<Rightarrow> int \<Rightarrow> 'a" where
  "blockswap i j r f x = (if i \<le> x \<and> x < i + r then f (x - i + j) else if j \<le> x \<and> x < j + r then f (x - j + i) else f x)"

lemma at_byte:
  "at A i + of_nat k = base A + of_int (i * sz A + int k)"
  "at A (i + d) + of_nat k = at A i + of_int (d * sz A + int k)"
  by (simp_all add: at_def algebra_simps)

lemma byte_inj:
  assumes "valid A" "0 \<le> a" "a < len A * sz A" "0 \<le> b" "b < len A * sz A" "base A + of_int a = base A + of_int b"
  shows "a = b"
proof -
  have "uint (of_int a :: u32) = uint (of_int b :: u32)" using assms(6) by simp
  moreover have "a < 4294967296" "b < 4294967296" using assms(3,5) validD(4) [OF assms(1)] by linarith+
  ultimately show ?thesis using assms(2,4) by (simp only: uint_of_int_u32)
qed

lemma byte_index:
  assumes "valid A" "0 \<le> i" "i + r \<le> len A" "0 \<le> k" "k < r * sz A"
  shows "0 \<le> i * sz A + k" "i * sz A + k < len A * sz A" "i * sz A + k < (i + r) * sz A"
proof -
  show "0 \<le> i * sz A + k" using assms(2,4) by simp
  show *: "i * sz A + k < (i + r) * sz A" using assms(5) by (simp add: algebra_simps)
  show "i * sz A + k < len A * sz A" using * mult_mono_sz [OF assms(3,1)] by linarith
qed

text \<open>Two bytes of the array, given by element and offset.\<close>

lemma less_sz: "k < unat (esize A) \<longleftrightarrow> int k < sz A"
  by (metis of_nat_less_iff uint_nat)

lemma block_byte:
  assumes "valid A" "i \<le> x" "x < i + r" "int k < sz A"
  shows "0 \<le> (x - i) * sz A + int k" "(x - i) * sz A + int k < r * sz A"
proof -
  show "0 \<le> (x - i) * sz A + int k" using assms(2) by simp
  have "(x - i) * sz A + int k < (x - i + 1) * sz A" using assms(4) by (simp add: algebra_simps)
  moreover have "(x - i + 1) * sz A \<le> r * sz A" using assms(3) validD(1) [OF assms(1)] by simp
  ultimately show "(x - i) * sz A + int k < r * sz A" by simp
qed

lemma elem_index:
  fixes i x k r e :: int
  assumes "0 < e" "0 \<le> k" "k < e" "i * e \<le> x * e + k" "x * e + k < (i + r) * e"
  shows "i \<le> x" "x < i + r"
proof -
  have "x * e + k < (x + 1) * e" using assms(3) by (simp add: algebra_simps)
  then have "i * e < (x + 1) * e" using assms(4) by linarith
  then show "i \<le> x" using assms(1) by simp
  have "x * e < (i + r) * e" using assms(2,5) by linarith
  then show "x < i + r" using assms(1) by simp
qed

lemma other_byte:
  assumes "valid A" "0 \<le> x" "x < len A" "int k < sz A" "\<not> (i \<le> x \<and> x < i + r)" "int l < r * sz A" "0 \<le> i" "i + r \<le> len A"
  shows "at A x + of_nat k \<noteq> at A i + of_nat l"
proof
  assume e: "at A x + of_nat k = at A i + of_nat l"
  have i: "0 \<le> i * sz A + int l" "i * sz A + int l < len A * sz A" "i * sz A + int l < (i + r) * sz A"
    by (rule byte_index [OF assms(1,7,8)]; use assms(6) in simp)+
  have x: "0 \<le> x * sz A + int k" "x * sz A + int k < len A * sz A"
    by (rule byte_index [where r = 1, OF assms(1,2)]; use assms(3,4) in simp)+
  have "x * sz A + int k = i * sz A + int l"
    by (rule byte_inj [OF assms(1) x i(1,2)]) (use e in \<open>simp add: at_byte\<close>)
  then have "i \<le> x \<and> x < i + r"
    using elem_index [OF validD(1) [OF assms(1)], of "int k" i x r] assms(4) i(3) by simp
  then show False using assms(5) by simp
qed

lemma swapped_sym: "swapped L p q m m' \<longleftrightarrow> swapped L q p m m'"
  unfolding swapped_def by blast

lemma swapped_moves:
  assumes "valid A" "swapped (nat (r * sz A)) (at A i) (at A j) m m'" "i \<le> x" "x < i + r" "int k < sz A"
  shows "m' (at A x + of_nat k) = m (at A (x - i + j) + of_nat k)"
proof -
  define l where "l = nat ((x - i) * sz A + int k)"
  have l: "int l = (x - i) * sz A + int k" "l < nat (r * sz A)"
    using block_byte [OF assms(1,3-5)] by (auto simp: l_def)
  have "(of_int (int l) :: u32) = of_int ((x - i) * sz A + int k)" by (simp only: l(1))
  then have "(of_nat l :: u32) = (of_int x - of_int i) * esize A + of_nat k" by simp
  then have "at A x + of_nat k = at A i + of_nat l" "at A (x - i + j) + of_nat k = at A j + of_nat l"
    by (simp_all add: at_def algebra_simps)
  then show ?thesis using assms(2) l(2) by (simp add: swapped_def)
qed

lemma swapped_view:
  assumes A: "valid A" and r: "0 \<le> i" "0 \<le> j" "0 \<le> r" "i + r \<le> len A" "j + r \<le> len A"
    and s: "swapped (nat (r * sz A)) (at A i) (at A j) m m'"
  shows "view A m' = blockswap i j r (view A m) \<and> outside A m m'"
proof
  have "view A m' x = blockswap i j r (view A m) x" for x
  proof -
    consider "i \<le> x" "x < i + r" | "\<not> (i \<le> x \<and> x < i + r)" "j \<le> x" "x < j + r"
      | "\<not> (i \<le> x \<and> x < i + r)" "\<not> (j \<le> x \<and> x < j + r)" by blast
    then show ?thesis
    proof cases
      case 1 then show ?thesis using swapped_moves [OF A s] r by (auto simp: view_def elem_def blockswap_def less_sz)
    next
      case 2 then show ?thesis
        using swapped_moves [OF A s [THEN swapped_sym [THEN iffD1]]] r by (auto simp: view_def elem_def blockswap_def less_sz)
    next
      case 3
      have "m' (at A x + of_nat k) = m (at A x + of_nat k)" if "0 \<le> x" "x < len A" "int k < sz A" for k
        using s other_byte [OF A that 3(1)] other_byte [OF A that 3(2)] r by (simp add: swapped_def zless_nat_eq_int_zless)
      then show ?thesis using 3 by (auto simp: view_def elem_def blockswap_def less_sz)
    qed
  qed
  then show "view A m' = blockswap i j r (view A m)" by blast
  show "outside A m m'"
    unfolding outside_def
  proof (intro allI impI)
    fix p assume p: "\<forall>k. 0 \<le> k \<and> k < len A * sz A \<longrightarrow> p \<noteq> base A + of_int k"
    have "p \<noteq> at A i + of_nat l" if "l < nat (r * sz A)" "0 \<le> i" "i + r \<le> len A" for i l
      unfolding at_byte(1) using byte_index(1,2) [OF A that(2,3), of "int l"] that(1)
      by (intro p [rule_format]) (simp add: zless_nat_eq_int_zless)
    then show "m' p = m p" using s r by (simp add: swapped_def)
  qed
qed

lemma apart_blocks:
  assumes "valid A" "0 \<le> i" "0 \<le> j" "0 \<le> r" "i + r \<le> len A" "j + r \<le> len A" "i = j \<or> i + r \<le> j \<or> j + r \<le> i"
  shows "apart (nat (r * sz A)) (at A i) (at A j)"
proof (cases "i = j")
  case False
  have "at A i + of_nat k \<noteq> at A j + of_nat l" if "k < nat (r * sz A)" "l < nat (r * sz A)" for k l
  proof
    assume e: "at A i + of_nat k = at A j + of_nat l"
    have b: "0 \<le> i * sz A + int k" "i * sz A + int k < len A * sz A" "i * sz A + int k < (i + r) * sz A"
      by (rule byte_index [OF assms(1,2,5)]; use that in linarith)+
    have c: "0 \<le> j * sz A + int l" "j * sz A + int l < len A * sz A" "j * sz A + int l < (j + r) * sz A"
      by (rule byte_index [OF assms(1,3,6)]; use that in linarith)+
    have eq: "i * sz A + int k = j * sz A + int l"
      by (rule byte_inj [OF assms(1) b(1,2) c(1,2)]) (use e in \<open>simp add: at_byte\<close>)
    have "(i + r) * sz A \<le> j * sz A \<or> (j + r) * sz A \<le> i * sz A"
      using assms(7) False validD(1) [OF assms(1)] by (auto intro!: mult_right_mono)
    then show False using eq b(3) c(3) by linarith
  qed
  then show ?thesis by (simp add: apart_def)
qed (simp add: apart_def)

text \<open>The kinds of exchange that fit the array.\<close>

definition fits :: "sort_array \<Rightarrow> s32 \<Rightarrow> bool" where
  "fits A swaptype \<longleftrightarrow> swaptype \<in> {0, 1, 2} \<and> (swaptype = 2 \<or> 4 dvd sz A) \<and> (swaptype = 0 \<longrightarrow> esize A = 4)"

lemma SWAPINIT_fits: "fits A (SWAPINIT p (esize A))"
proof -
  have "sz A mod 4 = uint (esize A mod 4)" by (simp add: uint_mod)
  then have "esize A mod 4 = 0 \<longleftrightarrow> 4 dvd sz A" by (simp add: dvd_eq_mod_eq_0 unsigned_eq_0_iff)
  then show ?thesis by (auto simp: fits_def SWAPINIT_def)
qed

lemma swapfunc_blocks:
  assumes "valid A" "fits A st" "0 \<le> i" "0 \<le> j" "0 < r" "i + r \<le> len A" "j + r \<le> len A" "i = j \<or> i + r \<le> j \<or> j + r \<le> i"
  shows "view A (swapfunc (at A i) (at A j) (of_int (r * sz A)) st m) = blockswap i j r (view A m)
    \<and> outside A m (swapfunc (at A i) (at A j) (of_int (r * sz A)) st m)"
proof (rule swapped_view)
  have r: "0 \<le> r * sz A" "r * sz A < 2147483648" by (rule diff_range [OF assms(1)]; use assms in linarith)+
  have p: "0 < r * sz A" using assms(5) validD(1) [OF assms(1)] by simp
  have "of_int (r * sz A) = (of_nat (nat (r * sz A)) :: u32)" using r(1) by (simp only: of_nat_nat)
  moreover have "4 dvd nat (r * sz A)" if "4 dvd sz A"
  proof -
    have "int 4 dvd int (nat (r * sz A))" using that r(1) by simp
    then show ?thesis by (simp only: int_dvd_int_iff)
  qed
  ultimately show "swapped (nat (r * sz A)) (at A i) (at A j) m (swapfunc (at A i) (at A j) (of_int (r * sz A)) st m)"
    using swapfunc_swaps [of "nat (r * sz A)" "at A i" "at A j" st m] r p assms(2) apart_blocks [OF assms(1,3,4) _ assms(6-8)] assms(5)
    by (auto simp: fits_def)
qed (use assms in auto)

lemma blockswap_1: "blockswap i j 1 f = f(i := f j, j := f i)"
  by (rule ext) (auto simp: blockswap_def)

lemma swap_elems_view:
  assumes "valid A" "fits A st" "0 \<le> i" "i < len A" "0 \<le> j" "j < len A"
  shows "view A (swap_elems st (esize A) (at A i) (at A j) m) = (view A m)(i := view A m j, j := view A m i)
    \<and> outside A m (swap_elems st (esize A) (at A i) (at A j) m)"
proof (cases "st = 0")
  case True
  then have es: "esize A = 4" using assms(2) by (simp add: fits_def)
  have "apart 4 (at A i) (at A j)" using apart_blocks [of A i j 1] assms es by simp linarith
  then have "swapped (nat (1 * sz A)) (at A i) (at A j) m (swap_elems st (esize A) (at A i) (at A j) m)"
    using swapped_word True es by (simp add: swap_elems_def Let_def)
  from swapped_view [OF assms(1,3,5) _ _ _ this] show ?thesis using assms(4,6) by (simp add: blockswap_1)
next
  case False
  then show ?thesis using swapfunc_blocks [OF assms(1-3,5), of 1 m] assms(4,6)
    by (simp add: swap_elems_def blockswap_1) linarith
qed

lemma vecswap_view:
  assumes "valid A" "fits A st" "0 \<le> i" "0 \<le> j" "0 \<le> r" "i + r \<le> len A" "j + r \<le> len A" "i = j \<or> i + r \<le> j \<or> j + r \<le> i"
  shows "view A (vecswap st (at A i) (at A j) (of_int (r * sz A)) m) = blockswap i j r (view A m)
    \<and> outside A m (vecswap st (at A i) (at A j) (of_int (r * sz A)) m)"
proof (cases "r = 0")
  case True
  then show ?thesis by (auto simp: vecswap_def blockswap_def fun_eq_iff)
next
  case False
  then have "0 < r * sz A" using assms(5) validD(1) [OF assms(1)] by simp
  moreover have "sint (of_int (r * sz A) :: u32) = r * sz A" by (rule diff_range [OF assms(1)]; use assms in linarith)
  ultimately show ?thesis using swapfunc_blocks [OF assms(1-4) _ assms(6-8)] False assms(5) by (simp add: vecswap_def)
qed

section \<open>Permutations of a part of the array\<close>

definition perm_on :: "int \<Rightarrow> int \<Rightarrow> (int \<Rightarrow> 'a) \<Rightarrow> (int \<Rightarrow> 'a) \<Rightarrow> bool" where
  "perm_on a b f g \<longleftrightarrow> (\<forall>i. i \<notin> {a..<b} \<longrightarrow> g i = f i) \<and> image_mset g (mset_set {a..<b}) = image_mset f (mset_set {a..<b})"

lemma perm_on_refl [simp]: "perm_on a b f f"
  by (simp add: perm_on_def)

lemma perm_on_trans [trans]: "perm_on a b f g \<Longrightarrow> perm_on a b g h \<Longrightarrow> perm_on a b f h"
  by (simp add: perm_on_def)

lemma perm_on_image: "perm_on a b f g \<Longrightarrow> g ` {a..<b} = f ` {a..<b}"
  unfolding perm_on_def by (metis finite_atLeastLessThan_int finite_set_mset_mset_set set_image_mset)

lemma perm_on_out: "perm_on a b f g \<Longrightarrow> \<not> (a \<le> i \<and> i < b) \<Longrightarrow> g i = f i"
  by (simp add: perm_on_def)

text \<open>A property of every element of the part stays true.\<close>

lemma perm_on_all:
  assumes "perm_on a b f g" "\<And>i. a \<le> i \<Longrightarrow> i < b \<Longrightarrow> P (f i)" "a \<le> i" "i < b"
  shows "P (g i)"
proof -
  have "g i \<in> f ` {a..<b}" using perm_on_image [OF assms(1)] assms(3,4) by auto
  then show ?thesis using assms(2) by auto
qed

lemma perm_on_wider:
  assumes "perm_on c d f g" "a \<le> c" "d \<le> b"
  shows "perm_on a b f g"
proof (cases "c \<le> d")
  case True
  then have s: "{a..<b} = {c..<d} \<union> ({a..<c} \<union> {d..<b})" using assms(2,3) by auto
  have "mset_set {a..<b} = mset_set {c..<d} + mset_set ({a..<c} \<union> {d..<b})"
    unfolding s by (rule mset_set_Union) auto
  moreover have "image_mset g (mset_set ({a..<c} \<union> {d..<b})) = image_mset f (mset_set ({a..<c} \<union> {d..<b}))"
    using assms(1) by (intro image_mset_cong) (auto simp: perm_on_def)
  ultimately show ?thesis using assms by (auto simp: perm_on_def)
next
  case False
  then have "g = f" using assms(1) by (auto simp: perm_on_def fun_eq_iff)
  then show ?thesis by simp
qed

lemma blockswap_perm:
  assumes "a \<le> i" "i + r \<le> b" "a \<le> j" "j + r \<le> b" "i = j \<or> i + r \<le> j \<or> j + r \<le> i"
  shows "perm_on a b f (blockswap i j r f)"
proof -
  let ?p = "blockswap i j r (\<lambda>x. x)"
  have inv: "?p (?p x) = x" for x using assms(5) by (auto simp: blockswap_def)
  have rng: "a \<le> ?p x \<and> ?p x < b" if "a \<le> x" "x < b" for x using assms that by (auto simp: blockswap_def)
  have bij: "bij_betw ?p {a..<b} {a..<b}" by (rule bij_betw_byWitness [where f' = ?p]) (use inv rng in auto)
  have eq: "blockswap i j r f = f \<circ> ?p" by (auto simp: blockswap_def fun_eq_iff)
  have "image_mset (blockswap i j r f) (mset_set {a..<b}) = image_mset f (image_mset ?p (mset_set {a..<b}))"
    unfolding eq by (simp only: image_mset.compositionality)
  also have "image_mset ?p (mset_set {a..<b}) = mset_set {a..<b}"
    using bij by (simp add: bij_betw_def image_mset_mset_set)
  finally have "image_mset (blockswap i j r f) (mset_set {a..<b}) = image_mset f (mset_set {a..<b})" .
  moreover have "blockswap i j r f x = f x" if "x \<notin> {a..<b}" for x using assms that by (auto simp: blockswap_def)
  ultimately show ?thesis by (simp add: perm_on_def)
qed

lemma swap_perm:
  assumes "a \<le> i" "i < b" "a \<le> j" "j < b"
  shows "perm_on a b f (f(i := f j, j := f i))"
  using blockswap_perm [of a i 1 b j f] assms by (simp add: blockswap_1) linarith

section \<open>Sorted parts\<close>

definition sorted_on :: "('a \<Rightarrow> 'a \<Rightarrow> int) \<Rightarrow> int \<Rightarrow> int \<Rightarrow> (int \<Rightarrow> 'a) \<Rightarrow> bool" where
  "sorted_on c a b f \<longleftrightarrow> (\<forall>i j. a \<le> i \<and> i < j \<and> j < b \<longrightarrow> c (f i) (f j) \<le> 0)"

lemma total_orderD:
  assumes "total_order c"
  shows "c x y < 0 \<longleftrightarrow> 0 < c y x" "c x y = 0 \<longleftrightarrow> c y x = 0" "c x x = 0" "c x y \<le> 0 \<Longrightarrow> c y z \<le> 0 \<Longrightarrow> c x z \<le> 0"
proof -
  have s: "c x y < 0 \<longleftrightarrow> 0 < c y x" for x y using assms by (simp add: total_order_def)
  then show "c x y < 0 \<longleftrightarrow> 0 < c y x" .
  show "c x y = 0 \<longleftrightarrow> c y x = 0" using s [of x y] s [of y x] by linarith
  show "c x x = 0" using s [of x x] by linarith
  show "c x y \<le> 0 \<Longrightarrow> c y z \<le> 0 \<Longrightarrow> c x z \<le> 0" using assms unfolding total_order_def by blast
qed

text \<open>Three parts around a value, the outer ones sorted.\<close>

lemma sorted_three:
  assumes "total_order c" "sorted_on c a l f" "sorted_on c h b f"
    "\<And>i. a \<le> i \<Longrightarrow> i < l \<Longrightarrow> c (f i) v \<le> 0" "\<And>i. l \<le> i \<Longrightarrow> i < h \<Longrightarrow> c (f i) v = 0"
    "\<And>i. h \<le> i \<Longrightarrow> i < b \<Longrightarrow> c (f i) v \<ge> 0"
  shows "sorted_on c a b f"
  unfolding sorted_on_def
proof (intro allI impI, elim conjE)
  note ord = total_orderD [OF assms(1)]
  fix i j assume i: "a \<le> i" "i < j" "j < b"
  show "c (f i) (f j) \<le> 0"
  proof (cases "j < l \<or> h \<le> i")
    case True
    then show ?thesis using assms(2,3) i by (auto simp: sorted_on_def)
  next
    case False
    have "c (f i) v \<le> 0" using assms(4) [of i] assms(5) [of i] False i by linarith
    moreover have "c (f j) v \<ge> 0" using assms(5) [of j] assms(6) [of j] False i by linarith
    then have "c v (f j) \<le> 0" using ord(1) [of "f j" v] ord(1) [of v "f j"] ord(2) [of v "f j"] by linarith
    ultimately show ?thesis using ord(4) by blast
  qed
qed

text \<open>One step of the insertion: all pairs are in order but those whose second element is at the
  position of the hole.\<close>

definition hole :: "('a \<Rightarrow> 'a \<Rightarrow> int) \<Rightarrow> int \<Rightarrow> int \<Rightarrow> int \<Rightarrow> (int \<Rightarrow> 'a) \<Rightarrow> bool" where
  "hole c a b p f \<longleftrightarrow> (\<forall>i j. a \<le> i \<and> i < j \<and> j < b \<and> j \<noteq> p \<longrightarrow> c (f i) (f j) \<le> 0)"

lemma hole_step:
  assumes "total_order c" "hole c a b p f" "a < p" "p < b" "c (f (p - 1)) (f p) > 0"
  shows "hole c a b (p - 1) (f(p := f (p - 1), p - 1 := f p))"
  unfolding hole_def
proof (intro allI impI, elim conjE)
  fix i j assume i: "a \<le> i" "i < j" "j < b" "j \<noteq> p - 1"
  have h: "c (f i) (f j) \<le> 0" if "a \<le> i" "i < j" "j < b" "j \<noteq> p" for i j using assms(2) that by (auto simp: hole_def)
  have "c (f p) (f (p - 1)) \<le> 0" using total_orderD(1) [OF assms(1)] assms(5) by (metis less_imp_le)
  then show "c ((f(p := f (p - 1), p - 1 := f p)) i) ((f(p := f (p - 1), p - 1 := f p)) j) \<le> 0"
    using i assms(3,4) h [of i "p - 1"] h [of "p - 1" j] h [of p j] h [of i j] by (cases "j = p"; cases "i = p"; cases "i = p - 1") auto
qed

lemma hole_end:
  assumes "total_order c" "hole c a b p f" "p = a \<or> (a < p \<and> c (f (p - 1)) (f p) \<le> 0)"
  shows "sorted_on c a b f"
  unfolding sorted_on_def
proof (intro allI impI, elim conjE)
  fix i j assume i: "a \<le> i" "i < j" "j < b"
  have h: "c (f i) (f j) \<le> 0" if "a \<le> i" "i < j" "j < b" "j \<noteq> p" for i j using assms(2) that by (auto simp: hole_def)
  show "c (f i) (f j) \<le> 0"
  proof (cases "j = p")
    case True
    then have le: "c (f (p - 1)) (f p) \<le> 0" using assms(3) i by auto
    show ?thesis
    proof (cases "i = p - 1")
      case False
      then have "c (f i) (f (p - 1)) \<le> 0" using h [of i "p - 1"] True i by auto
      then show ?thesis using total_orderD(4) [OF assms(1)] le True by blast
    qed (use le True in simp)
  qed (use h i in auto)
qed

section \<open>Insertion sort\<close>

lemma compare_view:
  assumes "valid A" "0 \<le> i" "i < len A" "0 \<le> j" "j < len A"
  shows "sint (compare A (at A i) (at A j) m) = order A (view A m i) (view A m j)"
    "compare A (at A i) (at A j) m = 0 \<longleftrightarrow> order A (view A m i) (view A m j) = 0"
proof -
  show s: "sint (compare A (at A i) (at A j) m) = order A (view A m i) (view A m j)"
    using assms by (simp add: valid_def view_def)
  show "compare A (at A i) (at A j) m = 0 \<longleftrightarrow> order A (view A m i) (view A m j) = 0"
    unfolding s [symmetric] by (simp add: signed_eq_0_iff)
qed

text \<open>What a routine that sorts positions \<open>a\<close> to \<open>b - 1\<close> achieves.\<close>

definition rearranged :: "sort_array \<Rightarrow> int \<Rightarrow> int \<Rightarrow> bytemem \<Rightarrow> bytemem \<Rightarrow> bool" where
  "rearranged A a b m m' \<longleftrightarrow> perm_on a b (view A m) (view A m') \<and> outside A m m'"

lemma rearranged_refl [simp]: "rearranged A a b m m"
  by (simp add: rearranged_def)

lemma rearranged_trans [trans]: "rearranged A a b m m1 \<Longrightarrow> rearranged A a b m1 m2 \<Longrightarrow> rearranged A a b m m2"
  unfolding rearranged_def by (blast intro: perm_on_trans outside_trans)

lemma rearranged_wider: "rearranged A c d m m' \<Longrightarrow> a \<le> c \<Longrightarrow> d \<le> b \<Longrightarrow> rearranged A a b m m'"
  unfolding rearranged_def by (blast intro: perm_on_wider)

lemma swap_rearranged:
  assumes "valid A" "fits A st" "0 \<le> a" "b \<le> len A" "a \<le> i" "i < b" "a \<le> j" "j < b"
  shows "rearranged A a b m (swap_elems st (esize A) (at A i) (at A j) m)"
  using swap_elems_view [OF assms(1,2), of i j m] swap_perm [OF assms(5-8)] assms(3-8) by (simp add: rearranged_def)

lemma sift_sorts:
  assumes "valid A" "total_order (order A)" "fits A st" "0 \<le> a" "a \<le> p" "p < b" "b \<le> len A" "hole (order A) a b p (view A m)"
  shows "\<exists>m'. sift (compare A) st (esize A) (at A a) (at A p) m = Some m'
    \<and> rearranged A a b m m' \<and> sorted_on (order A) a b (view A m')"
  using assms(5,6,8)
proof (induction "nat (p - a)" arbitrary: p m rule: less_induct)
  case less
  note A = assms(1)
  have gt: "at A a < at A p \<longleftrightarrow> a < p" by (rule at_less [OF A]) (use less.prems assms in auto)
  show ?case
  proof (cases "a < p \<and> order A (view A m (p - 1)) (view A m p) > 0")
    case True
    let ?m = "swap_elems st (esize A) (at A p) (at A (p - 1)) m"
    have c: "sint (compare A (at A (p - 1)) (at A p) m) > 0"
      using True compare_view(1) [OF A, of "p - 1" p m] less.prems assms by simp
    have v: "view A ?m = (view A m)(p := view A m (p - 1), p - 1 := view A m p)"
      using swap_elems_view [OF A assms(3), of p "p - 1" m] True less.prems assms by simp
    have h: "hole (order A) a b (p - 1) (view A ?m)"
      unfolding v by (rule hole_step [OF assms(2) less.prems(3)]) (use True less.prems in auto)
    have r: "rearranged A a b m ?m" by (rule swap_rearranged [OF A assms(3,4,7)]) (use True less.prems in auto)
    obtain m' where "sift (compare A) st (esize A) (at A a) (at A (p - 1)) ?m = Some m'"
      "rearranged A a b ?m m'" "sorted_on (order A) a b (view A m')"
      using less.hyps [OF _ _ _ h] True less.prems by auto
    moreover have "sift (compare A) st (esize A) (at A a) (at A p) m = sift (compare A) st (esize A) (at A a) (at A (p - 1)) ?m"
      using True gt c by (subst sift.simps) (simp add: at_step)
    ultimately show ?thesis using rearranged_trans [OF r] by auto
  next
    case False
    then have "\<not> (at A a < at A p \<and> sint (compare A (at A (p - 1)) (at A p) m) > 0)"
      using gt compare_view(1) [OF A, of "p - 1" p m] less.prems assms by auto
    then have "sift (compare A) st (esize A) (at A a) (at A p) m = Some m" by (subst sift.simps) (auto simp: at_step)
    moreover have "sorted_on (order A) a b (view A m)"
      by (rule hole_end [OF assms(2) less.prems(3)]) (use False less.prems in auto)
    ultimately show ?thesis by simp
  qed
qed

lemma sorted_hole: "sorted_on c a p f \<Longrightarrow> hole c a (p + 1) p f"
  by (auto simp: sorted_on_def hole_def)

lemma insertion_loop_sorts:
  assumes "valid A" "total_order (order A)" "fits A st" "0 \<le> a" "a + n \<le> len A" "a < p" "p \<le> a + n" "sorted_on (order A) a p (view A m)"
  shows "\<exists>m'. insertion_loop (compare A) st (esize A) (at A a) (of_int n) (at A p) m = Some m'
    \<and> rearranged A a (a + n) m m' \<and> sorted_on (order A) a (a + n) (view A m')"
  using assms(6-8)
proof (induction "nat (a + n - p)" arbitrary: p m rule: less_induct)
  case less
  note A = assms(1)
  have lt: "at A p < at A a + of_int n * esize A \<longleftrightarrow> p < a + n"
    unfolding at_plus by (rule at_less [OF A]) (use less.prems assms in auto)
  show ?case
  proof (cases "p < a + n")
    case True
    obtain m1 where m1: "sift (compare A) st (esize A) (at A a) (at A p) m = Some m1"
      "rearranged A a (p + 1) m m1" "sorted_on (order A) a (p + 1) (view A m1)"
      using sift_sorts [OF A assms(2-4) _ _ _ sorted_hole [OF less.prems(3)]] True less.prems assms(5) by auto
    obtain m' where m': "insertion_loop (compare A) st (esize A) (at A a) (of_int n) (at A (p + 1)) m1 = Some m'"
      "rearranged A a (a + n) m1 m'" "sorted_on (order A) a (a + n) (view A m')"
      using less.hyps [OF _ _ _ m1(3)] True less.prems by auto
    have "insertion_loop (compare A) st (esize A) (at A a) (of_int n) (at A p) m = Some m'"
      using lt True m1(1) m'(1) by (subst insertion_loop.simps) (simp add: at_step)
    then show ?thesis using m' rearranged_trans [OF rearranged_wider [OF m1(2)] m'(2)] True by auto
  next
    case False
    then show ?thesis using lt less.prems by (subst insertion_loop.simps) auto
  qed
qed

lemma sorted_on_one: "sorted_on c a (a + 1) f"
  by (auto simp: sorted_on_def)

section \<open>Partition\<close>

text \<open>The state of the partition: elements equal to the first one at both ends, behind them those
  found smaller and greater, in the middle those not yet examined.\<close>

definition parted :: "('a \<Rightarrow> 'a \<Rightarrow> int) \<Rightarrow> int \<Rightarrow> int \<Rightarrow> (int \<Rightarrow> 'a) \<Rightarrow> int \<Rightarrow> int \<Rightarrow> int \<Rightarrow> int \<Rightarrow> bool" where
  "parted c a b f pa pb pc pd \<longleftrightarrow> a < pa \<and> pa \<le> pb \<and> pb \<le> pc + 1 \<and> pc \<le> pd \<and> pd < b
     \<and> (\<forall>i. a \<le> i \<and> i < pa \<longrightarrow> c (f i) (f a) = 0) \<and> (\<forall>i. pa \<le> i \<and> i < pb \<longrightarrow> c (f i) (f a) < 0)
     \<and> (\<forall>i. pc < i \<and> i \<le> pd \<longrightarrow> c (f i) (f a) > 0) \<and> (\<forall>i. pd < i \<and> i < b \<longrightarrow> c (f i) (f a) = 0)"

lemma parted_order:
  assumes "parted c a b f pa pb pc pd"
  shows "a < pa" "pa \<le> pb" "pb \<le> pc + 1" "pc \<le> pd" "pd < b"
  using assms by (simp_all add: parted_def)

lemma parted_up_equal:
  assumes "parted c a b f pa pb pc pd" "pb \<le> pc" "c (f pb) (f a) = 0"
  shows "parted c a b (f(pa := f pb, pb := f pa)) (pa + 1) (pb + 1) pc pd"
  using assms unfolding parted_def by (auto simp: not_less)

lemma range_up: "(\<forall>i. p \<le> i \<and> i < q + 1 \<longrightarrow> P i) \<longleftrightarrow> (\<forall>i. p \<le> i \<and> i < q \<longrightarrow> P i) \<and> (p \<le> q \<longrightarrow> P q)" for p q :: int
  by (metis less_add_one less_or_eq_imp_le order.strict_trans1 zless_add1_eq)

lemma range_down: "(\<forall>i. p - 1 < i \<and> i \<le> q \<longrightarrow> P i) \<longleftrightarrow> (\<forall>i. p < i \<and> i \<le> q \<longrightarrow> P i) \<and> (p \<le> q \<longrightarrow> P p)" for p q :: int
  by (metis le_less zle_diff1_eq diff_less_eq zless_add1_eq)

lemma parted_up_less:
  assumes "parted c a b f pa pb pc pd" "pb \<le> pc" "c (f pb) (f a) < 0"
  shows "parted c a b f pa (pb + 1) pc pd"
  using assms unfolding parted_def range_up by simp

lemma parted_down_equal:
  assumes "parted c a b f pa pb pc pd" "pb < pc" "c (f pc) (f a) = 0"
  shows "parted c a b (f(pc := f pd, pd := f pc)) pa pb (pc - 1) (pd - 1)"
  using assms unfolding parted_def by (auto simp: not_less)

lemma parted_down_greater:
  assumes "parted c a b f pa pb pc pd" "pb \<le> pc" "c (f pc) (f a) > 0"
  shows "parted c a b f pa pb (pc - 1) pd"
  using assms unfolding parted_def range_down by simp

lemma parted_exchange:
  assumes "parted c a b f pa pb pc pd" "pb < pc" "c (f pb) (f a) > 0" "c (f pc) (f a) < 0"
  shows "parted c a b (f(pb := f pc, pc := f pb)) pa (pb + 1) (pc - 1) pd"
  using assms unfolding parted_def by auto

lemma scan_up_parts:
  assumes "valid A" "fits A st" "0 \<le> a" "b \<le> len A" "parted (order A) a b (view A m) pa pb pc pd"
  shows "\<exists>pa' pb' sc' m'. scan_up (compare A) st (esize A) (at A a) (at A pa) (at A pb) (at A pc) sc m = Some (at A pa', at A pb', sc', m')
    \<and> parted (order A) a b (view A m') pa' pb' pc pd \<and> rearranged A a b m m' \<and> pb \<le> pb'
    \<and> (pb' \<le> pc \<longrightarrow> order A (view A m' pb') (view A m' a) > 0)"
  using assms(5)
proof (induction "nat (pc + 1 - pb)" arbitrary: pa pb sc m rule: less_induct)
  case less
  note A = assms(1) and p = parted_order [OF less.prems]
  have le: "at A pb \<le> at A pc \<longleftrightarrow> pb \<le> pc" by (rule at_le [OF A]) (use p assms in auto)
  have c: "sint (compare A (at A pb) (at A a) m) = order A (view A m pb) (view A m a)"
    "compare A (at A pb) (at A a) m = 0 \<longleftrightarrow> order A (view A m pb) (view A m a) = 0" if "pb \<le> pc"
    by (rule compare_view [OF A]; use p assms that in simp)+
  consider (equal) "pb \<le> pc" "order A (view A m pb) (view A m a) = 0" | (less) "pb \<le> pc" "order A (view A m pb) (view A m a) < 0"
    | (stop) "pb \<le> pc \<longrightarrow> order A (view A m pb) (view A m a) > 0" by linarith
  then show ?case
  proof cases
    case equal
    let ?m = "swap_elems st (esize A) (at A pa) (at A pb) m"
    have v: "view A ?m = (view A m)(pa := view A m pb, pb := view A m pa)"
      using swap_elems_view [OF A assms(2), of pa pb m] p equal assms by simp
    have h: "parted (order A) a b (view A ?m) (pa + 1) (pb + 1) pc pd"
      unfolding v by (rule parted_up_equal [OF less.prems equal])
    have r: "rearranged A a b m ?m" by (rule swap_rearranged [OF A assms(2-4)]) (use p equal in auto)
    have "scan_up (compare A) st (esize A) (at A a) (at A pa) (at A pb) (at A pc) sc m
      = scan_up (compare A) st (esize A) (at A a) (at A (pa + 1)) (at A (pb + 1)) (at A pc) 1 ?m"
      using equal le c by (subst scan_up.simps) (simp add: at_step)
    then show ?thesis using less.hyps [OF _ h, of 1] rearranged_trans [OF r] equal by fastforce
  next
    case less
    have "scan_up (compare A) st (esize A) (at A a) (at A pa) (at A pb) (at A pc) sc m
      = scan_up (compare A) st (esize A) (at A a) (at A pa) (at A (pb + 1)) (at A pc) sc m"
      using less le c by (subst scan_up.simps) (simp add: at_step)
    then show ?thesis using less.hyps [OF _ parted_up_less [OF less.prems less], of sc] less by fastforce
  next
    case stop
    then have "scan_up (compare A) st (esize A) (at A a) (at A pa) (at A pb) (at A pc) sc m = Some (at A pa, at A pb, sc, m)"
      using le c by (subst scan_up.simps) auto
    then show ?thesis using less.prems stop by auto
  qed
qed

lemma scan_down_parts:
  assumes "valid A" "fits A st" "0 \<le> a" "b \<le> len A" "parted (order A) a b (view A m) pa pb pc pd"
    "pb \<le> pc \<Longrightarrow> order A (view A m pb) (view A m a) > 0"
  shows "\<exists>pc' pd' sc' m'. scan_down (compare A) st (esize A) (at A a) (at A pb) (at A pc) (at A pd) sc m = Some (at A pc', at A pd', sc', m')
    \<and> parted (order A) a b (view A m') pa pb pc' pd' \<and> rearranged A a b m m' \<and> pc' \<le> pc
    \<and> (pb \<le> pc' \<longrightarrow> order A (view A m' pb) (view A m' a) > 0 \<and> order A (view A m' pc') (view A m' a) < 0)"
  using assms(5,6)
proof (induction "nat (pc + 1 - pb)" arbitrary: pc pd sc m rule: less_induct)
  case less
  note A = assms(1) and p = parted_order [OF less.prems(1)]
  have le: "at A pb \<le> at A pc \<longleftrightarrow> pb \<le> pc" by (rule at_le [OF A]) (use p assms in auto)
  have c: "sint (compare A (at A pc) (at A a) m) = order A (view A m pc) (view A m a)"
    "compare A (at A pc) (at A a) m = 0 \<longleftrightarrow> order A (view A m pc) (view A m a) = 0" if "pb \<le> pc"
    by (rule compare_view [OF A]; use p assms that in simp)+
  consider (equal) "pb < pc" "order A (view A m pc) (view A m a) = 0" | (greater) "pb \<le> pc" "order A (view A m pc) (view A m a) > 0"
    | (stop) "pb \<le> pc \<longrightarrow> order A (view A m pc) (view A m a) < 0"
    using less.prems(2) by (cases "pb = pc") force+
  then show ?case
  proof cases
    case equal
    let ?m = "swap_elems st (esize A) (at A pc) (at A pd) m"
    have v: "view A ?m = (view A m)(pc := view A m pd, pd := view A m pc)"
      using swap_elems_view [OF A assms(2), of pc pd m] p equal assms by simp
    have h: "parted (order A) a b (view A ?m) pa pb (pc - 1) (pd - 1)"
      unfolding v by (rule parted_down_equal [OF less.prems(1) equal])
    have q: "order A (view A ?m pb) (view A ?m a) > 0" using less.prems(2) equal p by (simp add: v)
    have r: "rearranged A a b m ?m" by (rule swap_rearranged [OF A assms(2-4)]) (use p equal in auto)
    have "scan_down (compare A) st (esize A) (at A a) (at A pb) (at A pc) (at A pd) sc m
      = scan_down (compare A) st (esize A) (at A a) (at A pb) (at A (pc - 1)) (at A (pd - 1)) 1 ?m"
      using equal le c by (subst scan_down.simps) (simp add: at_step)
    then show ?thesis using less.hyps [OF _ h q, of 1] rearranged_trans [OF r] equal by fastforce
  next
    case greater
    have "scan_down (compare A) st (esize A) (at A a) (at A pb) (at A pc) (at A pd) sc m
      = scan_down (compare A) st (esize A) (at A a) (at A pb) (at A (pc - 1)) (at A pd) sc m"
      using greater le c by (subst scan_down.simps) (simp add: at_step)
    then show ?thesis
      using less.hyps [OF _ parted_down_greater [OF less.prems(1) greater], of sc] less.prems(2) greater by fastforce
  next
    case stop
    then have "scan_down (compare A) st (esize A) (at A a) (at A pb) (at A pc) (at A pd) sc m = Some (at A pc, at A pd, sc, m)"
      using le c by (subst scan_down.simps) auto
    then show ?thesis using less.prems stop by auto
  qed
qed

lemma partition_loop_parts:
  assumes "valid A" "fits A st" "0 \<le> a" "b \<le> len A" "parted (order A) a b (view A m) pa pb pc pd"
  shows "\<exists>pa' pb' pd' sc' m'.
      partition_loop (compare A) st (esize A) (at A a) (at A pa) (at A pb) (at A pc) (at A pd) sc m
        = Some (at A pa', at A pb', at A (pb' - 1), at A pd', sc', m')
    \<and> parted (order A) a b (view A m') pa' pb' (pb' - 1) pd' \<and> rearranged A a b m m'"
  using assms(5)
proof (induction "nat (pc + 1 - pb)" arbitrary: pa pb pc pd sc m rule: less_induct)
  case less
  note A = assms(1)
  obtain pa1 pb1 sc1 m1 where up: "scan_up (compare A) st (esize A) (at A a) (at A pa) (at A pb) (at A pc) sc m = Some (at A pa1, at A pb1, sc1, m1)"
    "parted (order A) a b (view A m1) pa1 pb1 pc pd" "rearranged A a b m m1" "pb \<le> pb1"
    "pb1 \<le> pc \<Longrightarrow> order A (view A m1 pb1) (view A m1 a) > 0"
    using scan_up_parts [OF assms(1-4) less.prems, of sc] by blast
  obtain pc2 pd2 sc2 m2 where down: "scan_down (compare A) st (esize A) (at A a) (at A pb1) (at A pc) (at A pd) sc1 m1 = Some (at A pc2, at A pd2, sc2, m2)"
    "parted (order A) a b (view A m2) pa1 pb1 pc2 pd2" "rearranged A a b m1 m2" "pc2 \<le> pc"
    "pb1 \<le> pc2 \<Longrightarrow> order A (view A m2 pb1) (view A m2 a) > 0" "pb1 \<le> pc2 \<Longrightarrow> order A (view A m2 pc2) (view A m2 a) < 0"
    using scan_down_parts [OF assms(1-4) up(2,5), of sc1] by blast
  note p = parted_order [OF down(2)] and r12 = rearranged_trans [OF up(3) down(3)]
  have gt: "at A pc2 < at A pb1 \<longleftrightarrow> pc2 < pb1" by (rule at_less [OF A]) (use p assms in auto)
  show ?case
  proof (cases "pc2 < pb1")
    case True
    then have "pc2 = pb1 - 1" using p(3) by linarith
    then have "partition_loop (compare A) st (esize A) (at A a) (at A pa) (at A pb) (at A pc) (at A pd) sc m
      = Some (at A pa1, at A pb1, at A (pb1 - 1), at A pd2, sc2, m2)"
      using up(1) down(1) gt by (subst partition_loop.simps) simp
    then show ?thesis using down(2) r12 \<open>pc2 = pb1 - 1\<close> by blast
  next
    case False
    then have lt: "pb1 < pc2" using down(5,6) by (cases "pb1 = pc2") auto
    let ?m = "swap_elems st (esize A) (at A pb1) (at A pc2) m2"
    have v: "view A ?m = (view A m2)(pb1 := view A m2 pc2, pc2 := view A m2 pb1)"
      using swap_elems_view [OF A assms(2), of pb1 pc2 m2] p lt assms by simp
    have h: "parted (order A) a b (view A ?m) pa1 (pb1 + 1) (pc2 - 1) pd2"
      unfolding v by (rule parted_exchange [OF down(2) lt]) (use down(5,6) lt in auto)
    have r: "rearranged A a b m ?m"
      by (rule rearranged_trans [OF r12 swap_rearranged [OF A assms(2-4)]]) (use p lt in auto)
    have "partition_loop (compare A) st (esize A) (at A a) (at A pa) (at A pb) (at A pc) (at A pd) sc m
      = partition_loop (compare A) st (esize A) (at A a) (at A pa1) (at A (pb1 + 1)) (at A (pc2 - 1)) (at A pd2) 1 ?m"
      using up(1) down(1) gt False by (subst partition_loop.simps) (simp add: at_step)
    then show ?thesis using less.hyps [OF _ h, of 1] rearranged_trans [OF r] lt up(4) down(4) by fastforce
  qed
qed

lemma choose_pivot_in:
  assumes "valid A" "0 \<le> a" "7 \<le> n" "a + n \<le> len A" "of_int n = w" "uint w = n"
  shows "\<exists>p. a \<le> p \<and> p < a + n \<and> choose_pivot (compare A) (at A a) w (esize A) m = at A p"
proof -
  have d: "w div 2 = of_int (n div 2)" "w div 8 = of_int (n div 8)"
    using assms(6) by (simp_all add: word_div_def)
  have med: "\<exists>p. a \<le> p \<and> p < b \<and> med3 cmp (at A x) (at A y) (at A z) m = at A p"
    if "a \<le> x" "x < b" "a \<le> y" "y < b" "a \<le> z" "z < b" for cmp x y z a b
    using that unfolding med3_def by auto
  let ?c = "compare A" and ?d = "n div 8" and ?h = "a + n div 2"
  have w: "w = of_int n" using assms(5) by simp
  have pn: "at A a + (w - 1) * esize A = at A (a + n - 1)" by (simp add: w at_def algebra_simps)
  have d2: "2 * (of_int ?d * esize A) = of_int (2 * ?d) * esize A" by simp
  have q: "0 \<le> ?d" "2 * ?d < n" "?d \<le> n div 2" "n div 2 + ?d < n" "n div 2 < n" using assms(3) by presburger+
  obtain x where x: "a \<le> x" "x < a + n" "med3 ?c (at A a) (at A (a + ?d)) (at A (a + 2 * ?d)) m = at A x"
    using med [of a a "a + n" "a + ?d" "a + 2 * ?d" ?c] q by auto
  obtain y where y: "a \<le> y" "y < a + n" "med3 ?c (at A (?h - ?d)) (at A ?h) (at A (?h + ?d)) m = at A y"
    using med [of a "?h - ?d" "a + n" ?h "?h + ?d" ?c] q by auto
  obtain z where z: "a \<le> z" "z < a + n" "med3 ?c (at A (a + n - 1 - 2 * ?d)) (at A (a + n - 1 - ?d)) (at A (a + n - 1)) m = at A z"
    using med [of a "a + n - 1 - 2 * ?d" "a + n" "a + n - 1 - ?d" "a + n - 1" ?c] q by auto
  have "\<exists>p. a \<le> p \<and> p < a + n \<and> med3 ?c (at A x) (at A y) (at A z) m = at A p" by (rule med) (use x y z in auto)
  moreover have "\<exists>p. a \<le> p \<and> p < a + n \<and> med3 ?c (at A a) (at A ?h) (at A (a + n - 1)) m = at A p"
    by (rule med) (use assms(3) in auto)
  moreover have "\<exists>p. a \<le> p \<and> p < a + n \<and> at A ?h = at A p" using assms(3) by (intro exI [of _ ?h]) simp
  moreover have "choose_pivot ?c (at A a) w (esize A) m = (if 7 < w then if 40 < w then med3 ?c (at A x) (at A y) (at A z) m
      else med3 ?c (at A a) (at A ?h) (at A (a + n - 1)) m else at A ?h)"
    unfolding choose_pivot_def Let_def d d2 pn at_plus x(3) y(3) z(3) by (simp split: if_split)
  ultimately show ?thesis by (cases "7 < w"; cases "40 < w") (simp_all only: if_True if_False simp_thms)
qed

text \<open>Moving the equal elements from both ends into the middle.\<close>

lemma gather_left:
  assumes "parted c a b f pa pb pc pd"
  defines "r \<equiv> min (pa - a) (pb - pa)"
  defines "g \<equiv> blockswap a (pb - r) r f"
  shows "a \<le> i \<Longrightarrow> i < a + (pb - pa) \<Longrightarrow> c (g i) (f a) < 0" "a + (pb - pa) \<le> i \<Longrightarrow> i < pb \<Longrightarrow> c (g i) (f a) = 0"
    "pb \<le> i \<Longrightarrow> g i = f i" "i < a \<Longrightarrow> g i = f i"
  using assms(1) unfolding g_def r_def parted_def min_def blockswap_def by (simp_all split: if_splits)

lemma gather_right:
  assumes "parted c a b f pa pb (pb - 1) pd" "\<forall>i\<ge>pb. g i = f i"
  defines "r \<equiv> min (pd - (pb - 1)) (b - pd - 1)"
  defines "h \<equiv> blockswap pb (b - r) r g"
  shows "pb \<le> i \<Longrightarrow> i < b - (pd - (pb - 1)) \<Longrightarrow> c (h i) (f a) = 0" "b - (pd - (pb - 1)) \<le> i \<Longrightarrow> i < b \<Longrightarrow> c (h i) (f a) > 0"
    "i < pb \<Longrightarrow> h i = g i"
  using assms(1,2) unfolding h_def r_def parted_def min_def blockswap_def by (simp_all split: if_splits)

section \<open>Quicksort\<close>

lemma vecswap_rearranged:
  assumes "valid A" "fits A st" "0 \<le> a" "b \<le> len A" "a \<le> i" "a \<le> j" "0 \<le> r" "i + r \<le> b" "j + r \<le> b" "i = j \<or> i + r \<le> j \<or> j + r \<le> i"
  shows "view A (vecswap st (at A i) (at A j) (of_int (r * sz A)) m) = blockswap i j r (view A m)"
    "rearranged A a b m (vecswap st (at A i) (at A j) (of_int (r * sz A)) m)"
  using vecswap_view [OF assms(1,2), of i j r m] blockswap_perm [of a i r b j "view A m"] assms(3-10)
  by (auto simp: rearranged_def)

text \<open>The part between the partition and the recursive calls: afterwards the elements are in
  three groups around the value of the pivot.\<close>

definition grouped :: "('a \<Rightarrow> 'a \<Rightarrow> int) \<Rightarrow> int \<Rightarrow> int \<Rightarrow> int \<Rightarrow> int \<Rightarrow> 'a \<Rightarrow> (int \<Rightarrow> 'a) \<Rightarrow> bool" where
  "grouped c a l h b v f \<longleftrightarrow> (\<forall>i. a \<le> i \<and> i < l \<longrightarrow> c (f i) v < 0) \<and> (\<forall>i. l \<le> i \<and> i < h \<longrightarrow> c (f i) v = 0)
     \<and> (\<forall>i. h \<le> i \<and> i < b \<longrightarrow> c (f i) v > 0)"

lemma gather_groups:
  assumes "valid A" "fits A st" "0 \<le> a" "b \<le> len A" "parted (order A) a b (view A m) pa pb (pb - 1) pd"
  defines "m1 \<equiv> vecswap st (at A a) (at A pb - of_int (min (pa - a) (pb - pa) * sz A)) (of_int (min (pa - a) (pb - pa) * sz A)) m"
  defines "m2 \<equiv> vecswap st (at A pb) (at A b - of_int (min (pd - (pb - 1)) (b - pd - 1) * sz A)) (of_int (min (pd - (pb - 1)) (b - pd - 1) * sz A)) m1"
  shows "grouped (order A) a (a + (pb - pa)) (b - (pd - (pb - 1))) b (view A m a) (view A m2) \<and> rearranged A a b m m2"
proof -
  note p = parted_order [OF assms(5)] and A = assms(1)
  let ?r = "min (pa - a) (pb - pa)" and ?s = "min (pd - (pb - 1)) (b - pd - 1)"
  have below: "at A i - of_int (k * sz A) = at A (i - k)" for i k by (simp add: at_def algebra_simps)
  have m1: "view A m1 = blockswap a (pb - ?r) ?r (view A m)" "rearranged A a b m m1"
    unfolding m1_def below by (rule vecswap_rearranged [OF A assms(2-4)]; use p in linarith)+
  have m2: "view A m2 = blockswap pb (b - ?s) ?s (view A m1)" "rearranged A a b m1 m2"
    unfolding m2_def below by (rule vecswap_rearranged [OF A assms(2-4)]; use p in linarith)+
  note left = gather_left [OF assms(5), folded m1(1)]
  have "\<forall>i\<ge>pb. view A m1 i = view A m i" using left(3) by blast
  note right = gather_right [OF assms(5) this, folded m2(1)]
  have "order A (view A m2 i) (view A m a) < 0" if "a \<le> i" "i < a + (pb - pa)" for i
    using left(1) [OF that] right(3) [of i] that p by simp
  moreover have "order A (view A m2 i) (view A m a) = 0" if "a + (pb - pa) \<le> i" "i < b - (pd - (pb - 1))" for i
    using left(2) [OF that(1)] right(1) [OF _ that(2)] right(3) [of i] by (cases "i < pb") auto
  ultimately show ?thesis using right(2) rearranged_trans [OF m1(2) m2(2)] by (auto simp: grouped_def)
qed

lemma grouped_keeps:
  assumes "grouped c a l h b v f" "perm_on a l f g \<or> perm_on h b f g" "a \<le> l" "l \<le> h" "h \<le> b"
  shows "grouped c a l h b v g"
  using assms(2)
proof
  assume g: "perm_on a l f g"
  have "c (g i) v < 0" if "a \<le> i" "i < l" for i
    by (rule perm_on_all [OF g, of "\<lambda>x. c x v < 0"]) (use assms(1) that in \<open>auto simp: grouped_def\<close>)
  then show ?thesis using assms perm_on_out [OF g] by (auto simp: grouped_def)
next
  assume g: "perm_on h b f g"
  have "c (g i) v > 0" if "h \<le> i" "i < b" for i
    by (rule perm_on_all [OF g, of "\<lambda>x. c x v > 0"]) (use assms(1) that in \<open>auto simp: grouped_def\<close>)
  then show ?thesis using assms perm_on_out [OF g] by (auto simp: grouped_def)
qed

lemma grouped_sorted:
  assumes "total_order c" "grouped c a l h b v f" "sorted_on c a l f" "sorted_on c h b f"
  shows "sorted_on c a b f"
  by (rule sorted_three [OF assms(1,3,4), of v]) (use assms(2) in \<open>auto simp: grouped_def less_imp_le\<close>)

text \<open>Sorting the two outer groups one after the other sorts the whole.\<close>

lemma sort_groups:
  assumes "total_order (order A)" "grouped (order A) a l h b v (view A m)" "a \<le> l" "l \<le> h" "h \<le> b"
    "rearranged A a l m m1" "sorted_on (order A) a l (view A m1)" "rearranged A h b m1 m2" "sorted_on (order A) h b (view A m2)"
  shows "rearranged A a b m m2 \<and> sorted_on (order A) a b (view A m2)"
proof
  have p: "perm_on a l (view A m) (view A m1)" "perm_on h b (view A m1) (view A m2)"
    using assms(6,8) by (auto simp: rearranged_def)
  show "rearranged A a b m m2"
    using rearranged_trans [OF rearranged_wider [OF assms(6)] rearranged_wider [OF assms(8)]] assms(3-5) by auto
  have g: "grouped (order A) a l h b v (view A m2)"
    using grouped_keeps [OF grouped_keeps [OF assms(2)]] p assms(3-5) by blast
  have "view A m2 i = view A m1 i" if "a \<le> i" "i < l" for i by (rule perm_on_out [OF p(2)]) (use that assms(4) in auto)
  then have "sorted_on (order A) a l (view A m2)" using assms(7) by (auto simp: sorted_on_def)
  then show "sorted_on (order A) a b (view A m2)" by (rule grouped_sorted [OF assms(1) g _ assms(9)])
qed

lemma len_range: "valid A \<Longrightarrow> len A < 2147483648"
proof -
  assume A: "valid A"
  have "len A * 1 \<le> len A * sz A" by (rule mult_left_mono) (use validD(1,2) [OF A] in auto)
  then show ?thesis using validD(4) [OF A] by linarith
qed

text \<open>What a call for \<open>n\<close> elements from position \<open>a\<close> achieves, and the tail of the function, after the partition.\<close>

definition sorts :: "sort_array \<Rightarrow> int \<Rightarrow> int \<Rightarrow> bytemem \<Rightarrow> bytemem option \<Rightarrow> bool" where
  "sorts A a b m res \<longleftrightarrow> (\<exists>m'. res = Some m' \<and> rearranged A a b m m' \<and> sorted_on (order A) a b (view A m'))"

lemma sorts_call:
  assumes "valid A" "0 \<le> k" "k \<le> len A" "k > 1 \<Longrightarrow> sorts A a (a + k) m (qsort p (of_int k) (esize A) (compare A) m)"
  shows "sorts A a (a + k) m (if of_int (k * sz A) > esize A then qsort p (of_int (k * sz A) div esize A) (esize A) (compare A) m else Some m)"
proof (cases "1 < k")
  case True
  then show ?thesis using assms(4) diff_div [OF assms(1-3)] diff_greater [OF assms(1-3)] by simp
next
  case False
  then show ?thesis using diff_greater [OF assms(1-3)] by (auto simp: sorts_def sorted_on_def)
qed

lemma qsort_tail:
  assumes "valid A" "total_order (order A)" "0 \<le> a" "b \<le> len A" "parted (order A) a b (view A m) pa pb (pb - 1) pd" "fits A st"
    and IH: "\<And>x k m. 0 \<le> x \<Longrightarrow> 1 < k \<Longrightarrow> k < b - a \<Longrightarrow> x + k \<le> len A \<Longrightarrow> sorts A x (x + k) m (qsort (at A x) (of_int k) (esize A) (compare A) m)"
  shows "sorts A a b m (do {
      let pn = at A b;
      let r = minimum (at A pa - at A a) (at A pb - at A pa);
      let m = vecswap st (at A a) (at A pb - r) r m;
      let r = minimum (at A pd - at A (pb - 1)) (pn - at A pd - esize A);
      let m = vecswap st (at A pb) (pn - r) r m;
      m \<leftarrow> (if at A pb - at A pa > esize A then qsort (at A a) ((at A pb - at A pa) div esize A) (esize A) (compare A) m else Some m);
      if at A pd - at A (pb - 1) > esize A then qsort (pn - (at A pd - at A (pb - 1))) ((at A pd - at A (pb - 1)) div esize A) (esize A) (compare A) m
      else Some m })"
    (is "sorts A a b m ?prog")
proof -
  note p = parted_order [OF assms(5)] and A = assms(1)
  let ?l = "pb - pa" and ?g = "pd - (pb - 1)"
  let ?r = "min (pa - a) ?l" and ?s = "min ?g (b - pd - 1)"
  have rs: "minimum (at A pa - at A a) (at A pb - at A pa) = of_int (?r * sz A)"
    unfolding at_diff by (rule minimum_diff [OF A]) (use p assms in auto)
  have ss: "minimum (at A pd - at A (pb - 1)) (at A b - at A pd - esize A) = of_int (?s * sz A)"
  proof -
    have e: "at A b - at A pd - esize A = of_int ((b - pd - 1) * sz A)" by (simp add: at_def algebra_simps)
    show ?thesis unfolding e unfolding at_diff by (rule minimum_diff [OF A]) (use p assms in auto)
  qed
  define m2 where "m2 = vecswap st (at A pb) (at A b - of_int (?s * sz A)) (of_int (?s * sz A))
    (vecswap st (at A a) (at A pb - of_int (?r * sz A)) (of_int (?r * sz A)) m)"
  have m2: "grouped (order A) a (a + ?l) (b - ?g) b (view A m a) (view A m2)" "rearranged A a b m m2"
    using gather_groups [OF A assms(6,3,4,5)] by (auto simp: m2_def)
  have "sorts A a (a + ?l) m2 (if of_int (?l * sz A) > esize A then qsort (at A a) (of_int (?l * sz A) div esize A) (esize A) (compare A) m2 else Some m2)"
    by (rule sorts_call [OF A _ _ IH]) (use p assms(3,4) in auto)
  then obtain m3 where m3: "(if of_int (?l * sz A) > esize A then qsort (at A a) (of_int (?l * sz A) div esize A) (esize A) (compare A) m2 else Some m2) = Some m3"
    "rearranged A a (a + ?l) m2 m3" "sorted_on (order A) a (a + ?l) (view A m3)" by (auto simp: sorts_def)
  have pn: "at A b - of_int (?g * sz A) = at A (b - ?g)" by (simp add: at_def algebra_simps)
  have "sorts A (b - ?g) (b - ?g + ?g) m3 (if of_int (?g * sz A) > esize A then qsort (at A (b - ?g)) (of_int (?g * sz A) div esize A) (esize A) (compare A) m3 else Some m3)"
    by (rule sorts_call [OF A _ _ IH]) (use p assms(3,4) in auto)
  then obtain m4 where m4: "(if of_int (?g * sz A) > esize A then qsort (at A (b - ?g)) (of_int (?g * sz A) div esize A) (esize A) (compare A) m3 else Some m3) = Some m4"
    "rearranged A (b - ?g) b m3 m4" "sorted_on (order A) (b - ?g) b (view A m4)" by (auto simp: sorts_def)
  have "?prog = Some m4"
    unfolding Let_def unfolding rs ss unfolding m2_def [symmetric] at_diff pn m3(1) by (simp only: Option.bind.simps m4(1))
  moreover have "rearranged A a b m2 m4 \<and> sorted_on (order A) a b (view A m4)"
    by (rule sort_groups [OF assms(2) m2(1) _ _ _ m3(2,3) m4(2,3)]) (use p in auto)
  ultimately show ?thesis using rearranged_trans [OF m2(2)] by (auto simp: sorts_def)
qed

lemma sorts_after: "rearranged A a b m m1 \<Longrightarrow> sorts A a b m1 res \<Longrightarrow> sorts A a b m res"
  unfolding sorts_def using rearranged_trans by blast

lemma parted_init: "total_order c \<Longrightarrow> 1 < n \<Longrightarrow> parted c a (a + n) f (a + 1) (a + 1) (a + n - 1) (a + n - 1)"
  unfolding parted_def using total_orderD(3) [of c "f a"] by (auto dest: order.antisym)

lemma qsort_range:
  assumes "valid A" "total_order (order A)" "0 \<le> a" "1 \<le> n" "a + n \<le> len A"
  shows "sorts A a (a + n) m (qsort (at A a) (of_int n) (esize A) (compare A) m)"
  using assms(3-5)
proof (induction "nat n" arbitrary: a n m rule: less_induct)
  case less
  note A = assms(1)
  let ?st = "SWAPINIT (at A a) (esize A)" and ?w = "of_int n :: u32"
  have w: "uint ?w = n" by (rule uint_of_int_u32) (use less.prems len_range [OF A] in auto)
  then have small: "?w < 7 \<longleftrightarrow> n < 7" by (simp add: word_less_def)
  have ins: "sorts A a (a + n) m (insertion_loop (compare A) ?st (esize A) (at A a) ?w (at A a + esize A) m)" for m
    unfolding sorts_def at_step
    by (rule insertion_loop_sorts [OF A assms(2) SWAPINIT_fits]) (use less.prems sorted_on_one in auto)
  show ?case
  proof (cases "n < 7")
    case True
    then show ?thesis using ins small by (subst qsort.simps) (simp add: Let_def)
  next
    case False
    obtain p where p: "a \<le> p" "p < a + n" "choose_pivot (compare A) (at A a) ?w (esize A) m = at A p"
      using choose_pivot_in [OF A less.prems(1) _ less.prems(3) refl w] False by auto
    define m1 where "m1 = swap_elems ?st (esize A) (at A a) (at A p) m"
    have m1: "rearranged A a (a + n) m m1"
      unfolding m1_def by (rule swap_rearranged [OF A SWAPINIT_fits]) (use p less.prems in auto)
    obtain pa pb pd sc m2 where part: "partition_loop (compare A) ?st (esize A) (at A a) (at A (a + 1)) (at A (a + 1)) (at A (a + n - 1)) (at A (a + n - 1)) 0 m1
        = Some (at A pa, at A pb, at A (pb - 1), at A pd, sc, m2)"
      "parted (order A) a (a + n) (view A m2) pa pb (pb - 1) pd" "rearranged A a (a + n) m1 m2"
      using partition_loop_parts [OF A SWAPINIT_fits less.prems(1,3) parted_init [OF assms(2)]] False by force
    have pn: "at A a + (?w - 1) * esize A = at A (a + n - 1)" "at A a + ?w * esize A = at A (a + n)"
      by (simp_all add: at_def algebra_simps)
    have "sorts A a (a + n) m2 (qsort (at A a) ?w (esize A) (compare A) m)"
    proof (cases "sc = 0")
      case True
      then have "qsort (at A a) ?w (esize A) (compare A) m = insertion_loop (compare A) ?st (esize A) (at A a) ?w (at A a + esize A) m2"
        using False small part(1) by (subst qsort.simps) (simp add: Let_def p(3) m1_def [symmetric] at_step pn)
      then show ?thesis using ins by simp
    next
      case sc: False
      have IH: "sorts A x (x + k) m (qsort (at A x) (of_int k) (esize A) (compare A) m)"
        if "0 \<le> x" "1 < k" "k < a + n - a" "x + k \<le> len A" for x k m using less.hyps [of k x m] that by simp
      show ?thesis
        using qsort_tail [OF A assms(2) less.prems(1,3) part(2) SWAPINIT_fits IH, of "at A a"] False small part(1) sc
        by (subst qsort.simps) (simp add: Let_def p(3) m1_def [symmetric] at_step pn)
    qed
    then show ?thesis by (rule sorts_after [OF rearranged_trans [OF m1 part(3)]])
  qed
qed

section \<open>The property\<close>

text \<open>The elements of an array in memory.\<close>

definition elements :: "u32 \<Rightarrow> u32 \<Rightarrow> u32 \<Rightarrow> bytemem \<Rightarrow> u8 list list" where
  "elements a n es m = map (\<lambda>i. elem es (a + of_nat i * es) m) [0..<unat n]"

text \<open>A comparison function computes an order \<open>c\<close> of the contents of the elements it is given.\<close>

definition compares :: "compar \<Rightarrow> (u8 list \<Rightarrow> u8 list \<Rightarrow> int) \<Rightarrow> u32 \<Rightarrow> u32 \<Rightarrow> u32 \<Rightarrow> bool" where
  "compares cmp c a n es \<longleftrightarrow> (\<forall>m i j. i < unat n \<and> j < unat n \<longrightarrow>
     sint (cmp (a + of_nat i * es) (a + of_nat j * es) m) = c (elem es (a + of_nat i * es) m) (elem es (a + of_nat j * es) m))"

definition sort_array_of :: "u32 \<Rightarrow> u32 \<Rightarrow> u32 \<Rightarrow> compar \<Rightarrow> (u8 list \<Rightarrow> u8 list \<Rightarrow> int) \<Rightarrow> sort_array" where
  "sort_array_of a n es cmp c = \<lparr>base = a, esize = es, len = uint n, compare = cmp, order = c\<rparr>"

lemma sort_array_of_simps [simp]:
  "base (sort_array_of a n es cmp c) = a" "esize (sort_array_of a n es cmp c) = es" "len (sort_array_of a n es cmp c) = uint n"
  "compare (sort_array_of a n es cmp c) = cmp" "order (sort_array_of a n es cmp c) = c"
  by (simp_all add: sort_array_of_def)

lemma view_elements:
  assumes "i < unat n"
  shows "view (sort_array_of a n es cmp c) m (int i) = elements a n es m ! i"
proof -
  have "int i < uint n" using assms by (metis of_nat_less_iff uint_nat)
  then show ?thesis using assms by (simp add: view_def elements_def at_def)
qed

lemma mset_elements: "image_mset (view (sort_array_of a n es cmp c) m) (mset_set {0..<uint n}) = mset (elements a n es m)"
proof -
  let ?v = "view (sort_array_of a n es cmp c) m"
  have "{0..<uint n} = int ` {0..<unat n}" by (simp add: image_int_atLeastLessThan)
  then have "image_mset ?v (mset_set {0..<uint n}) = image_mset (\<lambda>i. ?v (int i)) (mset_set {0..<unat n})"
    by (simp add: image_mset_mset_set [symmetric] image_mset.compositionality comp_def)
  also have "\<dots> = image_mset (\<lambda>i. elements a n es m ! i) (mset_set {0..<unat n})"
    by (rule image_mset_cong) (auto simp: view_elements)
  also have "\<dots> = mset (map (\<lambda>i. elements a n es m ! i) [0..<unat n])" by (simp flip: mset_upt)
  also have "map (\<lambda>i. elements a n es m ! i) [0..<unat n] = elements a n es m"
    by (rule nth_equalityI) (simp_all add: elements_def)
  finally show ?thesis .
qed

lemma valid_sort_array_of:
  assumes "es \<noteq> 0" "unat a + max 1 (unat n) * unat es < 2 ^ 32" "unat n * unat es < 2 ^ 31" "compares cmp c a n es"
  shows "valid (sort_array_of a n es cmp c)"
proof -
  have u: "uint x = int (unat x)" for x :: u32 by (simp)
  have e: "uint n * uint es = int (unat n * unat es)" by (simp)
  have m: "unat n * unat es \<le> max 1 (unat n) * unat es" "1 * unat es \<le> max 1 (unat n) * unat es" by (rule mult_le_mono1; simp)+
  have l: "unat a + max 1 (unat n) * unat es < 4294967296" "unat n * unat es < 2147483648" using assms(2,3) by simp_all
  have b: "unat a + unat n * unat es < 4294967296" "unat a + unat es < 4294967296" using m l(1) by linarith+
  have bounds: "0 < uint es" "uint a + uint n * uint es < 4294967296" "uint a + uint es < 4294967296" "uint n * uint es < 2147483648"
    unfolding e unfolding u using b l(2) assms(1) unat_gt_0 [of es] by linarith+
  have cmp: "sint (cmp (a + of_int i * es) (a + of_int j * es) m) = c (elem es (a + of_int i * es) m) (elem es (a + of_int j * es) m)"
    if "0 \<le> i" "i < uint n" "0 \<le> j" "j < uint n" for m i j
  proof -
    have "nat i < unat n" "nat j < unat n" using that by (simp_all add: nat_less_iff)
    moreover have "(of_int i :: u32) = of_nat (nat i)" "(of_int j :: u32) = of_nat (nat j)" using that(1,3) by simp_all
    ultimately show ?thesis using assms(4) unfolding compares_def by (simp only:)
  qed
  show ?thesis using bounds cmp by (auto simp: valid_def at_def)
qed

text \<open>C24. Sorting returns. It permutes the elements, leaves them in ascending order and changes no
  byte outside the array, for elements of any size and alignment and any comparison function
  that computes a total order of the contents. The array has less than \<open>2\<^sup>3\<^sup>1\<close> bytes, the range
  in which the source keeps differences of pointers, and lies below the end of the address
  space.\<close>

theorem qsort_sorts:
  assumes "es \<noteq> 0" "unat a + max 1 (unat n) * unat es < 2 ^ 32" "unat n * unat es < 2 ^ 31"
    "compares cmp c a n es" "total_order c"
  shows "\<exists>m'. qsort a n es cmp m = Some m'
    \<and> mset (elements a n es m') = mset (elements a n es m) \<and> sorted_wrt (\<lambda>x y. c x y \<le> 0) (elements a n es m')
    \<and> (\<forall>p. (\<forall>k<unat n * unat es. p \<noteq> a + of_nat k) \<longrightarrow> m' p = m p)"
proof -
  let ?A = "sort_array_of a n es cmp c"
  note A = valid_sort_array_of [OF assms(1-4)]
  have "sorts ?A 0 (0 + uint n) m (qsort (at ?A 0) (of_int (uint n)) (esize ?A) (compare ?A) m)"
  proof (cases "n = 0")
    case True
    have "uint (a + es) = uint a + uint es" using validD(5) [OF A] by (intro uint_add_lem [THEN iffD1]) simp
    then have "\<not> a + es < a" by (simp add: word_less_def)
    then have "qsort a n es cmp m = Some m" using True by (subst qsort.simps) (simp add: insertion_loop.simps Let_def)
    then show ?thesis using True by (simp add: sorts_def sorted_on_def at_0)
  next
    case False
    then have "0 < n" by (simp add: word_neq_0_conv)
    then have "1 \<le> uint n" by (simp add: word_less_def)
    then show ?thesis using A assms(5) by (intro qsort_range) auto
  qed
  then obtain m' where m': "qsort a n es cmp m = Some m'" "rearranged ?A 0 (uint n) m m'" "sorted_on c 0 (uint n) (view ?A m')"
    by (auto simp: sorts_def at_0)
  have "mset (elements a n es m') = mset (elements a n es m)"
    using m'(2) mset_elements [of a n es cmp c] by (simp add: rearranged_def perm_on_def)
  moreover have "sorted_wrt (\<lambda>x y. c x y \<le> 0) (elements a n es m')"
    unfolding sorted_wrt_iff_nth_less
  proof (intro allI impI)
    fix i j assume i: "i < j" "j < length (elements a n es m')"
    then have "j < unat n" "i < unat n" by (auto simp: elements_def)
    then show "c (elements a n es m' ! i) (elements a n es m' ! j) \<le> 0"
      using m'(3) [unfolded sorted_on_def, rule_format, of "int i" "int j"] i(1)
        view_elements [of i n a es cmp c m'] view_elements [of j n a es cmp c m'] by (simp add: uint_nat del: of_nat_unat)
  qed
  moreover have "m' p = m p" if p: "\<forall>k<unat n * unat es. p \<noteq> a + of_nat k" for p
  proof -
    have "p \<noteq> a + of_int k" if "0 \<le> k" "k < uint n * uint es" for k
      using p [rule_format, of "nat k"] that by (simp add: nat_less_iff)
    then show ?thesis using m'(2) by (simp add: rearranged_def outside_def)
  qed
  ultimately show ?thesis using m'(1) by blast
qed

text \<open>Nine bytes in descending order.\<close>

theorem qsort_sorts_witness:
  "\<exists>m'. qsort 0x2000 9 1 (\<lambda>p q m. ucast (m p) - ucast (m q)) (\<lambda>p. ucast (- p)) = Some m'
    \<and> sorted_wrt (\<lambda>x y. uint (hd x) - uint (hd y) \<le> 0) (elements 0x2000 9 1 m') \<and> m' 0x1FFF = 1"
proof -
  let ?c = "\<lambda>x y. uint (hd x :: u8) - uint (hd y)"
  have s: "sint (ucast x - ucast y :: s32) = uint x - uint y" for x y :: u8
  proof -
    have "(ucast x - ucast y :: s32) = of_int (uint x - uint y)" by simp
    moreover have "uint x < 256" "uint y < 256" "0 \<le> uint x" "0 \<le> uint y" using uint_lt2p [of x] uint_lt2p [of y] by simp_all
    ultimately show ?thesis by (simp only: sint_of_int_u32)
  qed
  have "compares (\<lambda>p q m. ucast (m p) - ucast (m q)) ?c 0x2000 9 1"
    by (simp add: compares_def s elem_def)
  moreover have "total_order ?c" by (auto simp: total_order_def)
  ultimately obtain m' where m': "qsort 0x2000 9 1 (\<lambda>p q m. ucast (m p) - ucast (m q)) (\<lambda>p. ucast (- p)) = Some m'"
    "sorted_wrt (\<lambda>x y. ?c x y \<le> 0) (elements 0x2000 9 1 m')"
    "\<And>p. \<forall>k<unat (9 :: u32) * unat (1 :: u32). p \<noteq> 0x2000 + of_nat k \<Longrightarrow> m' p = ucast (- p)"
    using qsort_sorts [of 1 "0x2000" 9 "\<lambda>p q m. ucast (m p) - ucast (m q)" ?c "\<lambda>p. ucast (- p)"] by auto
  have "(0x1FFF :: u32) \<noteq> 0x2000 + of_nat k" if "k < 9" for k
  proof -
    have "k = 0 \<or> k = 1 \<or> k = 2 \<or> k = 3 \<or> k = 4 \<or> k = 5 \<or> k = 6 \<or> k = 7 \<or> k = 8" using that by arith
    then show ?thesis by auto
  qed
  then have "m' 0x1FFF = ucast (- 0x1FFF :: u32)" by (intro m'(3)) simp
  then show ?thesis using m'(1,2) by auto
qed

end
