(* ===== verification/LibcMprec.thy ===== *)
theory LibcMprec
  imports LibcString
begin

text \<open>
  Multiple-precision integers of the C library, \<^verbatim>\<open>src/libc/stdlib/mprec.c\<close> and \<^verbatim>\<open>mprec.h\<close>, on which
  the conversions between decimal and binary floating point rest.

  A number is an object with a capacity of \<open>2\<^sup>k\<close> words, least significant first, of which
  \<open>wds\<close> are in use. Objects live in a store indexed by address; those no longer needed are kept
  in lists by capacity, linked through \<open>bnext\<close>. An access through a null pointer or past the
  end of an array is \<open>None\<close>. Memory comes from \<^verbatim>\<open>_calloc_r\<close>, a parameter: \<open>calloc i\<close> is the result
  of the \<open>i\<close>th request, 0 when memory is exhausted.

  Counts are small non-negative \<^verbatim>\<open>int\<close>s and are natural numbers here; words, carries and
  borrows have 32 bits. A loop over the words of a number is recursion over the list of these
  words; a loop that tests at its end has at least one word to work on.
\<close>

section \<open>Objects and their store\<close>

record bigint =
  bnext :: u32
  bk :: nat
  maxwds :: nat
  bsign :: nat
  wds :: nat
  bx :: "u32 list"

record mp =
  bigs :: "u32 \<rightharpoonup> bigint"
  freelist :: "u32 list option"
  p5s :: u32
  callocs :: nat

abbreviation Kmax :: nat where "Kmax \<equiv> 15"

definition put :: "u32 \<Rightarrow> bigint \<Rightarrow> mp \<Rightarrow> mp" where
  "put p b s = s\<lparr>bigs := (bigs s)(p \<mapsto> b)\<rparr>"

definition calloc_r :: "(nat \<Rightarrow> u32) \<Rightarrow> mp \<Rightarrow> u32 \<times> mp" where
  "calloc_r calloc s = (calloc (callocs s), s\<lparr>callocs := callocs s + 1\<rparr>)"

definition Balloc :: "(nat \<Rightarrow> u32) \<Rightarrow> nat \<Rightarrow> mp \<Rightarrow> (u32 \<times> mp) option" where
  "Balloc calloc k s =
     (let (found, s) = (case freelist s of
            None \<Rightarrow> let (p, s) = calloc_r calloc s in if p = 0 then (False, s) else (True, s\<lparr>freelist := Some (replicate (Kmax + 1) 0)\<rparr>)
          | Some _ \<Rightarrow> (True, s))
      in if \<not> found then Some (0, s)
      else do {
        fl \<leftarrow> freelist s;
        if k < length fl then
          let rv = fl ! k in
          if rv \<noteq> 0 then do {
            b \<leftarrow> bigs s rv;
            Some (rv, put rv (b\<lparr>bsign := 0, wds := 0\<rparr>) (s\<lparr>freelist := Some (fl[k := bnext b])\<rparr>)) }
          else
            let (rv, s) = calloc_r calloc s in
            if rv = 0 then Some (0, s)
            else Some (rv, put rv \<lparr>bnext = 0, bk = k, maxwds = 2 ^ k, bsign = 0, wds = 0, bx = replicate (2 ^ k) 0\<rparr> s)
        else None })"

definition Bfree :: "u32 \<Rightarrow> mp \<Rightarrow> mp option" where
  "Bfree v s =
     (if v = 0 then Some s
      else do {
        b \<leftarrow> bigs s v;
        fl \<leftarrow> freelist s;
        if bk b < length fl then Some (put v (b\<lparr>bnext := fl ! bk b\<rparr>) (s\<lparr>freelist := Some (fl[bk b := v])\<rparr>)) else None })"

text \<open>Overwriting the first words of an array.\<close>

definition store_words :: "u32 list \<Rightarrow> bigint \<Rightarrow> bigint option" where
  "store_words ws b = (if length ws \<le> length (bx b) then Some (b\<lparr>bx := ws @ drop (length ws) (bx b)\<rparr>) else None)"

definition load_words :: "nat \<Rightarrow> bigint \<Rightarrow> u32 list option" where
  "load_words n b = (if n \<le> length (bx b) then Some (take n (bx b)) else None)"

definition Bcopy :: "u32 \<Rightarrow> u32 \<Rightarrow> mp \<Rightarrow> mp option" where
  "Bcopy x y s = do {
     bx \<leftarrow> bigs s x;
     b \<leftarrow> bigs s y;
     ws \<leftarrow> load_words (wds b) b;
     bx \<leftarrow> store_words ws (bx\<lparr>bsign := bsign b, wds := wds b\<rparr>);
     Some (put x bx s) }"

section \<open>Multiplication by a small number and addition\<close>

fun multadd_loop :: "u32 \<Rightarrow> u32 \<Rightarrow> u32 list \<Rightarrow> u32 \<times> u32 list" where
  "multadd_loop m a [] = (a, [])"
| "multadd_loop m a (xi # xs) =
     (let y = (xi AND 0xffff) * m + a;
          z = drop_bit 16 xi * m + drop_bit 16 y;
          (a, ws) = multadd_loop m (drop_bit 16 z) xs
      in (a, (push_bit 16 z + (y AND 0xffff)) # ws))"

definition multadd :: "(nat \<Rightarrow> u32) \<Rightarrow> u32 \<Rightarrow> u32 \<Rightarrow> u32 \<Rightarrow> mp \<Rightarrow> (u32 \<times> mp) option" where
  "multadd calloc b m a s = do {
     v \<leftarrow> bigs s b;
     let n = wds v;
     xs \<leftarrow> load_words (max 1 n) v;
     let (a, ws) = multadd_loop m a xs;
     v \<leftarrow> store_words ws v;
     let s = put b v s;
     if a \<noteq> 0 then do {
       (b, s) \<leftarrow> (if n \<ge> maxwds v then do {
            (b1, s) \<leftarrow> Balloc calloc (bk v + 1) s;
            s \<leftarrow> Bcopy b1 b s;
            s \<leftarrow> Bfree b s;
            Some (b1, s) }
          else Some (b, s));
       v \<leftarrow> bigs s b;
       if n < length (bx v) then Some (b, put b (v\<lparr>bx := (bx v)[n := a], wds := n + 1\<rparr>) s) else None }
     else Some (b, s) }"

definition i2b :: "(nat \<Rightarrow> u32) \<Rightarrow> u32 \<Rightarrow> mp \<Rightarrow> (u32 \<times> mp) option" where
  "i2b calloc i s = do {
     (b, s) \<leftarrow> Balloc calloc 1 s;
     v \<leftarrow> bigs s b;
     v \<leftarrow> store_words [i] v;
     Some (b, put b (v\<lparr>wds := 1\<rparr>) s) }"

text \<open>The loops that look for a capacity: double \<open>y\<close> and count until \<open>x\<close> is reached.\<close>

partial_function (option) capacity_loop :: "nat \<Rightarrow> nat \<Rightarrow> nat \<Rightarrow> nat option" where
  "capacity_loop x y k = (if x > y then capacity_loop x (2 * y) (k + 1) else Some k)"

text \<open>Decimal digits in memory: \<open>y9\<close> is the value of the first nine; one character is skipped after
  the \<open>nd0\<close> digits before the decimal point.\<close>

definition chars :: "bytemem \<Rightarrow> u32 \<Rightarrow> nat \<Rightarrow> u8 list" where
  "chars mem s n = map (\<lambda>i. mem (s + of_nat i)) [0..<n]"

fun digit_loop :: "(nat \<Rightarrow> u32) \<Rightarrow> u8 list \<Rightarrow> u32 \<Rightarrow> mp \<Rightarrow> (u32 \<times> mp) option" where
  "digit_loop calloc [] b s = Some (b, s)"
| "digit_loop calloc (c # cs) b s = do {
     (b, s) \<leftarrow> multadd calloc b 10 (ucast c - 48) s;
     digit_loop calloc cs b s }"

definition s2b :: "(nat \<Rightarrow> u32) \<Rightarrow> bytemem \<Rightarrow> u32 \<Rightarrow> nat \<Rightarrow> nat \<Rightarrow> u32 \<Rightarrow> mp \<Rightarrow> (u32 \<times> mp) option" where
  "s2b calloc mem str nd0 nd y9 s = do {
     k \<leftarrow> capacity_loop ((nd + 8) div 9) 1 0;
     (b, s) \<leftarrow> Balloc calloc k s;
     v \<leftarrow> bigs s b;
     v \<leftarrow> store_words [y9] v;
     let s = put b (v\<lparr>wds := 1\<rparr>) s;
     (b, s) \<leftarrow> (if 9 < nd0 then digit_loop calloc (chars mem (str + 9) (nd0 - 9)) b s else Some (b, s));
     let (i, str) = (if 9 < nd0 then (nd0, str + of_nat nd0 + 1) else (9, str + 10));
     digit_loop calloc (chars mem str (nd - i)) b s }"

section \<open>Counting zero bits\<close>

definition hi0bits :: "u32 \<Rightarrow> nat" where
  "hi0bits x =
     (let (k, x) = (if x AND 0xffff0000 = 0 then (16, push_bit 16 x) else (0, x));
          (k, x) = (if x AND 0xff000000 = 0 then (k + 8, push_bit 8 x) else (k, x));
          (k, x) = (if x AND 0xf0000000 = 0 then (k + 4, push_bit 4 x) else (k, x));
          (k, x) = (if x AND 0xc0000000 = 0 then (k + 2, push_bit 2 x) else (k, x))
      in if x AND 0x80000000 = 0 then if x AND 0x40000000 = 0 then 32 else k + 1 else k)"

text \<open>The second result is the word after the shift; it is not stored when all bits are zero.\<close>

definition lo0bits :: "u32 \<Rightarrow> nat \<times> u32" where
  "lo0bits y =
     (let x = y in
      if x AND 7 \<noteq> 0 then
        if x AND 1 \<noteq> 0 then (0, y) else if x AND 2 \<noteq> 0 then (1, drop_bit 1 x) else (2, drop_bit 2 x)
      else
        let (k, x) = (if x AND 0xffff = 0 then (16, drop_bit 16 x) else (0, x));
            (k, x) = (if x AND 0xff = 0 then (k + 8, drop_bit 8 x) else (k, x));
            (k, x) = (if x AND 0xf = 0 then (k + 4, drop_bit 4 x) else (k, x));
            (k, x) = (if x AND 0x3 = 0 then (k + 2, drop_bit 2 x) else (k, x))
        in if x AND 1 = 0 then
             let x = drop_bit 1 x in if x = 0 then (32, y) else (k + 1, x)
           else (k, x))"

section \<open>Multiplication\<close>

text \<open>\<^verbatim>\<open>Storeinc(a, b, c)\<close> stores two half-words, \<open>b\<close> and \<open>c\<close>, at addresses that depend on whether
  \<^verbatim>\<open>IEEE_8087\<close> is defined. The result here is the word that a processor with little-endian memory,
  such as the target, reads from there afterwards.\<close>

definition Storeinc :: "bool \<Rightarrow> u32 \<Rightarrow> u32 \<Rightarrow> u32" where
  "Storeinc ieee_8087 b c = (if ieee_8087 then push_bit 16 b OR (c AND 0xffff) else push_bit 16 c OR (b AND 0xffff))"

text \<open>The library is compiled with \<^verbatim>\<open>-D__thumb__\<close>, so \<^verbatim>\<open>machine/ieeefp.h\<close> defines
  \<^verbatim>\<open>__IEEE_BIG_ENDIAN\<close> and \<^verbatim>\<open>IEEE_8087\<close> is not defined.\<close>

definition IEEE_8087_built :: bool where "IEEE_8087_built = False"

text \<open>One row for the lower and one for the upper half of a word of the second factor. The last
  argument holds the words of the result from the row's position on; it is longer than the
  first factor.\<close>

fun mult_low :: "bool \<Rightarrow> u32 \<Rightarrow> u32 \<Rightarrow> u32 list \<Rightarrow> u32 list \<Rightarrow> u32 list" where
  "mult_low e y carry (x # xs) (c # cs) =
     (let z = (x AND 0xffff) * y + (c AND 0xffff) + carry;
          carry = drop_bit 16 z;
          z2 = drop_bit 16 x * y + drop_bit 16 c + carry;
          carry = drop_bit 16 z2
      in Storeinc e z2 z # mult_low e y carry xs cs)"
| "mult_low e y carry [] (c # cs) = carry # cs"
| "mult_low e y carry xs [] = []"

fun mult_high :: "bool \<Rightarrow> u32 \<Rightarrow> u32 \<Rightarrow> u32 \<Rightarrow> u32 list \<Rightarrow> u32 list \<Rightarrow> u32 list" where
  "mult_high e y carry z2 (x # xs) (c # c' # cs) =
     (let z = (x AND 0xffff) * y + drop_bit 16 c + carry;
          carry = drop_bit 16 z;
          w = Storeinc e z z2;
          z2 = drop_bit 16 x * y + (c' AND 0xffff) + carry;
          carry = drop_bit 16 z2
      in w # mult_high e y carry z2 xs (c' # cs))"
| "mult_high e y carry z2 [] (c # cs) = z2 # cs"
| "mult_high e y carry z2 xs cs = cs"

definition mult_row :: "bool \<Rightarrow> u32 list \<Rightarrow> u32 \<Rightarrow> u32 list \<Rightarrow> u32 list" where
  "mult_row e xs b cs =
     (let y = b AND 0xffff; cs = (if y \<noteq> 0 then mult_low e y 0 xs cs else cs);
          y = drop_bit 16 b
      in if y \<noteq> 0 then mult_high e y 0 (hd cs) xs cs else cs)"

fun mult_rows :: "bool \<Rightarrow> u32 list \<Rightarrow> u32 list \<Rightarrow> u32 list \<Rightarrow> u32 list" where
  "mult_rows e xs [] cs = cs"
| "mult_rows e xs (b # bs) cs = (let cs = mult_row e xs b cs in hd cs # mult_rows e xs bs (tl cs))"

text \<open>Words in use after dropping zero words at the upper end.\<close>

definition used :: "u32 list \<Rightarrow> nat" where
  "used ws = length (dropWhile (\<lambda>w. w = 0) (rev ws))"

definition multiply :: "bool \<Rightarrow> (nat \<Rightarrow> u32) \<Rightarrow> u32 \<Rightarrow> u32 \<Rightarrow> mp \<Rightarrow> (u32 \<times> mp) option" where
  "multiply e calloc a b s = do {
     va \<leftarrow> bigs s a;
     vb \<leftarrow> bigs s b;
     let (a, b, va, vb) = (if wds va < wds vb then (b, a, vb, va) else (a, b, va, vb));
     let wa = wds va;
     let wb = wds vb;
     let wc = wa + wb;
     (c, s) \<leftarrow> Balloc calloc (if wc > maxwds va then bk va + 1 else bk va) s;
     v \<leftarrow> bigs s c;
     v \<leftarrow> store_words (replicate wc 0) v;
     va \<leftarrow> bigs s a;
     vb \<leftarrow> bigs s b;
     xs \<leftarrow> load_words wa va;
     ys \<leftarrow> load_words wb vb;
     let ws = mult_rows e xs ys (replicate wc 0);
     v \<leftarrow> store_words ws v;
     Some (c, put c (v\<lparr>wds := used ws\<rparr>) s) }"

section \<open>Powers of five\<close>

definition p05 :: "u32 list" where "p05 = [5, 25, 125]"

text \<open>The loop over the bits of \<open>k\<close>, which is not 0; the list of the powers \<open>625\<^bsup>2^i\<^esup>\<close> is extended when it
  is too short.\<close>

function pow5_loop :: "bool \<Rightarrow> (nat \<Rightarrow> u32) \<Rightarrow> nat \<Rightarrow> u32 \<Rightarrow> u32 \<Rightarrow> mp \<Rightarrow> (u32 \<times> mp) option" where
  "pow5_loop e calloc k b p5 s = do {
     (b, s) \<leftarrow> (if odd k then do { (b1, s) \<leftarrow> multiply e calloc b p5 s; s \<leftarrow> Bfree b s; Some (b1, s) } else Some (b, s));
     if k div 2 = 0 then Some (b, s)
     else do {
       v \<leftarrow> bigs s p5;
       (p51, s) \<leftarrow> (if bnext v = 0 then do {
            (p51, s) \<leftarrow> multiply e calloc p5 p5 s;
            v \<leftarrow> bigs s p5;
            let s = put p5 (v\<lparr>bnext := p51\<rparr>) s;
            v1 \<leftarrow> bigs s p51;
            Some (p51, put p51 (v1\<lparr>bnext := 0\<rparr>) s) }
          else Some (bnext v, s));
       pow5_loop e calloc (k div 2) b p51 s } }"
  by pat_completeness auto
termination by (relation "measure (\<lambda>(_, _, k, _). k)") auto

definition pow5mult :: "bool \<Rightarrow> (nat \<Rightarrow> u32) \<Rightarrow> u32 \<Rightarrow> nat \<Rightarrow> mp \<Rightarrow> (u32 \<times> mp) option" where
  "pow5mult e calloc b k s = do {
     let i = k mod 4;
     (b, s) \<leftarrow> (if i \<noteq> 0 then multadd calloc b (p05 ! (i - 1)) 0 s else Some (b, s));
     let k = k div 4;
     if k = 0 then Some (b, s)
     else do {
       (p5, s) \<leftarrow> (if p5s s = 0 then do {
            (p5, s) \<leftarrow> i2b calloc 625 s;
            let s = s\<lparr>p5s := p5\<rparr>;
            v \<leftarrow> bigs s p5;
            Some (p5, put p5 (v\<lparr>bnext := 0\<rparr>) s) }
          else Some (p5s s, s));
       pow5_loop e calloc k b p5 s } }"

section \<open>Shift\<close>

fun shift_loop :: "nat \<Rightarrow> u32 \<Rightarrow> u32 list \<Rightarrow> u32 list" where
  "shift_loop k z [] = [z]"
| "shift_loop k z (x # xs) = (push_bit k x OR z) # shift_loop k (drop_bit (32 - k) x) xs"

definition lshift :: "(nat \<Rightarrow> u32) \<Rightarrow> u32 \<Rightarrow> nat \<Rightarrow> mp \<Rightarrow> (u32 \<times> mp) option" where
  "lshift calloc b k s = do {
     v \<leftarrow> bigs s b;
     let n = k div 32;
     let n1 = n + wds v + 1;
     k1 \<leftarrow> capacity_loop n1 (maxwds v) (bk v);
     (b1, s) \<leftarrow> Balloc calloc k1 s;
     v1 \<leftarrow> bigs s b1;
     v \<leftarrow> bigs s b;
     xs \<leftarrow> load_words (max 1 (wds v)) v;
     let ws = replicate n 0 @ (if k mod 32 \<noteq> 0 then shift_loop (k mod 32) 0 xs else xs);
     v1 \<leftarrow> store_words ws v1;
     let n1 = (if k mod 32 \<noteq> 0 \<and> last ws \<noteq> 0 then n1 + 1 else n1);
     let s = put b1 (v1\<lparr>wds := n1 - 1\<rparr>) s;
     s \<leftarrow> Bfree b s;
     Some (b1, s) }"

section \<open>Comparison and difference\<close>

text \<open>The words are compared from the most significant one; with no word in use the first access is
  to the word before the array.\<close>

fun cmp_loop :: "u32 list \<Rightarrow> u32 list \<Rightarrow> int" where
  "cmp_loop (x # xs) (y # ys) = (if x \<noteq> y then if x < y then - 1 else 1 else cmp_loop xs ys)"
| "cmp_loop xs ys = 0"

definition mcmp :: "u32 \<Rightarrow> u32 \<Rightarrow> mp \<Rightarrow> int option" where
  "mcmp a b s = do {
     va \<leftarrow> bigs s a;
     vb \<leftarrow> bigs s b;
     if wds va \<noteq> wds vb then Some (int (wds va) - int (wds vb))
     else if wds vb = 0 then None
     else do {
       xs \<leftarrow> load_words (wds va) va;
       ys \<leftarrow> load_words (wds vb) vb;
       Some (cmp_loop (rev xs) (rev ys)) } }"

text \<open>The borrow is 0 or \<open>-1\<close>, kept in a signed word and shifted as such.\<close>

fun diff_loop :: "bool \<Rightarrow> s32 \<Rightarrow> u32 list \<Rightarrow> u32 list \<Rightarrow> u32 list" where
  "diff_loop e borrow (x # xs) (y # ys) =
     (let d = (x AND 0xffff) - (y AND 0xffff) + borrow;
          borrow = signed_drop_bit 16 d;
          z = drop_bit 16 x - drop_bit 16 y + borrow;
          borrow = signed_drop_bit 16 z
      in Storeinc e z d # diff_loop e borrow xs ys)"
| "diff_loop e borrow (x # xs) [] =
     (let d = (x AND 0xffff) + borrow;
          borrow = signed_drop_bit 16 d;
          z = drop_bit 16 x + borrow;
          borrow = signed_drop_bit 16 z
      in Storeinc e z d # diff_loop e borrow xs [])"
| "diff_loop e borrow [] ys = []"

definition mdiff :: "bool \<Rightarrow> (nat \<Rightarrow> u32) \<Rightarrow> u32 \<Rightarrow> u32 \<Rightarrow> mp \<Rightarrow> (u32 \<times> mp) option" where
  "mdiff e calloc a b s = do {
     i \<leftarrow> mcmp a b s;
     if i = 0 then do {
       (c, s) \<leftarrow> Balloc calloc 0 s;
       v \<leftarrow> bigs s c;
       v \<leftarrow> store_words [0] (v\<lparr>wds := 1\<rparr>);
       Some (c, put c v s) }
     else do {
       let (a, b, i) = (if i < 0 then (b, a, 1) else (a, b, 0));
       va \<leftarrow> bigs s a;
       vb \<leftarrow> bigs s b;
       (c, s) \<leftarrow> Balloc calloc (bk va) s;
       v \<leftarrow> bigs s c;
       va \<leftarrow> bigs s a;
       vb \<leftarrow> bigs s b;
       xs \<leftarrow> load_words (wds va) va;
       ys \<leftarrow> load_words (max 1 (wds vb)) vb;
       let ws = diff_loop e 0 xs ys;
       v \<leftarrow> store_words ws (v\<lparr>bsign := i\<rparr>);
       if used ws = 0 then None
       else Some (c, put c (v\<lparr>wds := used ws\<rparr>) s) } }"

section \<open>Conversion from and to floating point\<close>

text \<open>A double is given by its two words, the one with sign and exponent first.\<close>

definition Exp_1 :: u32 where "Exp_1 = 0x3ff00000"
definition Exp_msk1 :: u32 where "Exp_msk1 = 0x100000"
definition Frac_mask :: u32 where "Frac_mask = 0xfffff"
definition Exp_shift :: nat where "Exp_shift = 20"
definition Ebits :: nat where "Ebits = 11"
definition Bias :: int where "Bias = 1023"
definition dbl_P :: int where "dbl_P = 53"

definition Exp_mask :: u32 where "Exp_mask = 0x7ff00000"

text \<open>The value of the last bit of a double.\<close>

definition ulp :: "u32 \<times> u32 \<Rightarrow> u32 \<times> u32" where
  "ulp x =
     (let L = (fst x AND Exp_mask) - (53 - 1) * Exp_msk1 in
      if sint L > 0 then (L, 0)
      else
        let L = signed_drop_bit Exp_shift (- L) in
        if sint L < int Exp_shift then (drop_bit (unat L) 0x80000, 0)
        else let L = L - of_nat Exp_shift in (0, if sint L \<ge> 31 then 1 else push_bit (31 - unat L) 1))"

definition b2d :: "bigint \<Rightarrow> ((u32 \<times> u32) \<times> nat) option" where
  "b2d a = do {
     ws \<leftarrow> load_words (wds a) a;
     case rev ws of
       [] \<Rightarrow> None
     | y # xa \<Rightarrow>
         let k = hi0bits y; e = 32 - k in
         if k < Ebits then
           let w = (case xa of [] \<Rightarrow> 0 | x # _ \<Rightarrow> x)
           in Some ((Exp_1 OR drop_bit (Ebits - k) y, push_bit (32 - Ebits + k) y OR drop_bit (Ebits - k) w), e)
         else
           let (z, xa) = (case xa of [] \<Rightarrow> (0, []) | x # xs \<Rightarrow> (x, xs)); k = k - Ebits in
           if k \<noteq> 0 then
             let y' = (case xa of [] \<Rightarrow> 0 | x # _ \<Rightarrow> x)
             in Some ((Exp_1 OR push_bit k y OR drop_bit (32 - k) z, push_bit k z OR drop_bit (32 - k) y'), e)
           else Some ((Exp_1 OR y, z), e) }"

definition d2b :: "(nat \<Rightarrow> u32) \<Rightarrow> u32 \<times> u32 \<Rightarrow> mp \<Rightarrow> ((u32 \<times> int \<times> int) \<times> mp) option" where
  "d2b calloc d s = (case d of (d0, d1) \<Rightarrow> do {
     (b, s) \<leftarrow> Balloc calloc 1 s;
     v \<leftarrow> bigs s b;
     let z = d0 AND Frac_mask;
     let d0 = d0 AND 0x7fffffff;
     let de = drop_bit Exp_shift d0;
     let z = (if de \<noteq> 0 then z OR Exp_msk1 else z);
     let (x, i, k) =
       (if d1 \<noteq> 0 then
          let (k, y) = lo0bits d1;
              (x0, z) = (if k \<noteq> 0 then (y OR push_bit (32 - k) z, drop_bit k z) else (y, z))
          in ([x0, z], if z \<noteq> 0 then 2 else 1, k)
        else let (k, z) = lo0bits z in ([z], 1, k + 32));
     v \<leftarrow> store_words x v;
     let s = put b (v\<lparr>wds := i\<rparr>) s;
     Some ((b, if de \<noteq> 0 then (uint de - Bias - (dbl_P - 1) + int k, dbl_P - int k)
               else (uint de - Bias - (dbl_P - 1) + 1 + int k, 32 * int i - int (hi0bits (x ! (i - 1))))), s) })"

end
