(* ===== verification/LibcMprecCorrect.thy ===== *)
theory LibcMprecCorrect
  imports LibcMprec
begin

text \<open>
  The numbers the routines of \<^verbatim>\<open>mprec.c\<close> compute. This theory treats the loops over words, the next
  one the store of objects.
\<close>

section \<open>The value of a sequence of words\<close>

primrec bigval :: "u32 list \<Rightarrow> nat" where
  "bigval [] = 0"
| "bigval (x # xs) = unat x + 4294967296 * bigval xs"

lemma bigval_append: "bigval (xs @ ys) = bigval xs + 2 ^ (32 * length xs) * bigval ys"
  by (induction xs) (simp_all add: algebra_simps power_add)

lemma u32_less: "unat (x :: u32) < 4294967296"
  using unsigned_less [of x, where 'a = nat] by simp

lemma bigval_less: "bigval xs < 2 ^ (32 * length xs)"
proof (induction xs)
  case (Cons x xs)
  have "unat x < 4294967296" by (rule u32_less)
  moreover have "bigval xs + 1 \<le> 2 ^ (32 * length xs)" using Cons by simp
  then have "4294967296 * (bigval xs + 1) \<le> 4294967296 * 2 ^ (32 * length xs)" by (rule mult_le_mono2)
  ultimately show ?case by (simp add: power_add algebra_simps)
qed simp

lemma bigval_zeros [simp]: "bigval (replicate n 0) = 0"
  by (induction n) simp_all

lemma used_take: "take (used ws) ws = rev (dropWhile (\<lambda>w. w = 0) (rev ws))"
proof -
  let ?r = "rev ws" and ?P = "\<lambda>w :: u32. w = 0"
  have "rev (dropWhile ?P ?r) @ rev (takeWhile ?P ?r) = ws" by (simp flip: rev_append)
  then have "take (length (rev (dropWhile ?P ?r))) ws = rev (dropWhile ?P ?r)" by (metis append_eq_conv_conj)
  then show ?thesis by (simp add: used_def)
qed

lemma used_drop: "drop (used ws) ws = replicate (length ws - used ws) 0"
proof (rule replicate_eqI)
  let ?r = "rev ws" and ?P = "\<lambda>w :: u32. w = 0"
  fix y assume "y \<in> set (drop (used ws) ws)"
  moreover have "rev (dropWhile ?P ?r) @ rev (takeWhile ?P ?r) = ws" by (simp flip: rev_append)
  then have "drop (length (rev (dropWhile ?P ?r))) ws = rev (takeWhile ?P ?r)" by (metis append_eq_conv_conj)
  ultimately show "y = 0" by (auto simp: used_def dest: set_takeWhileD)
qed simp

lemma used_le: "used ws \<le> length ws"
  unfolding used_def by (metis length_dropWhile_le length_rev)

lemma bigval_used: "bigval (take (used ws) ws) = bigval ws"
proof -
  have "bigval ws = bigval (take (used ws) ws @ drop (used ws) ws)" by (simp only: append_take_drop_id)
  then show ?thesis by (simp only: bigval_append used_drop bigval_zeros)
qed

lemma used_last: "used ws \<noteq> 0 \<Longrightarrow> ws ! (used ws - 1) \<noteq> 0"
proof -
  assume n: "used ws \<noteq> 0"
  let ?d = "dropWhile (\<lambda>w. w = 0) (rev ws)"
  have d: "?d \<noteq> []" using n by (auto simp: used_def)
  then have h: "hd ?d \<noteq> 0" by (rule hd_dropWhile)
  have "ws ! (used ws - 1) = take (used ws) ws ! (used ws - 1)" using n by simp
  also have "\<dots> = last (rev ?d)" using d by (simp add: used_take last_conv_nth) (simp add: used_def)
  finally show ?thesis using h d by (simp add: last_rev)
qed

lemma used_0: "used ws = 0 \<longleftrightarrow> bigval ws = 0"
proof
  assume "bigval ws = 0"
  then have "set ws \<subseteq> {0}" by (induction ws) (auto simp: unsigned_eq_0_iff)
  then have "dropWhile (\<lambda>w. w = 0) (rev ws) = []" by (auto simp: dropWhile_eq_Nil_conv)
  then show "used ws = 0" by (simp add: used_def)
next
  assume "used ws = 0"
  then show "bigval ws = 0" using bigval_used [of ws] by simp
qed

section \<open>Half-words\<close>

lemma and_ffff: "x AND 0xffff = take_bit 16 (x :: u32)"
proof -
  have "(0xffff :: u32) = mask 16" by (simp add: mask_eq_exp_minus_1)
  then show ?thesis by (simp add: take_bit_eq_mask)
qed

lemma unat_low [simp]: "unat (x AND 0xffff :: u32) = unat x mod 65536"
  by (simp only: and_ffff unsigned_take_bit_eq) (simp add: take_bit_eq_mod)

lemma unat_high [simp]: "unat (drop_bit 16 x :: u32) = unat x div 65536"
  using u32_less [of x] by (simp only: unsigned_drop_bit_eq) (simp add: drop_bit_eq_div take_bit_nat_eq_self)

lemma unat_push: "unat (push_bit 16 z :: u32) = unat z mod 65536 * 65536"
proof -
  have "unat (push_bit 16 z :: u32) = unat z * 65536 mod (65536 * 65536)"
    by (simp only: unsigned_push_bit_eq) (simp add: push_bit_eq_mult take_bit_eq_mod)
  then show ?thesis by (simp only: mod_mult_mult2)
qed

lemma push_plus: "push_bit 16 z + (y AND 0xffff) = (push_bit 16 z OR (y AND 0xffff) :: u32)"
  unfolding and_ffff by (rule disjunctive_add) (auto simp: bit_simps)

lemma unat_join [simp]:
  "unat (push_bit 16 z OR (y AND 0xffff) :: u32) = unat z mod 65536 * 65536 + unat y mod 65536"
proof -
  have "unat (push_bit 16 z + (y AND 0xffff) :: u32) = unat (push_bit 16 z :: u32) + unat (y AND 0xffff)"
  proof (rule unat_add_lem [THEN iffD1])
    have "unat z mod 65536 < 65536" "unat y mod 65536 < 65536" by simp_all
    then have "unat z mod 65536 * 65536 + unat y mod 65536 < 4294967296" by linarith
    then show "unat (push_bit 16 z :: u32) + unat (y AND 0xffff) < 2 ^ LENGTH(32)" by (simp add: unat_push)
  qed
  then show ?thesis by (simp only: push_plus unat_push unat_low)
qed

text \<open>A product of two half-words and two more half-words fit into a word.\<close>

lemma unat_muladd:
  assumes "unat p < 65536" "unat q < 65536" "unat r < 65536" "unat t < 65536"
  shows "unat (p * q + r + t :: u32) = unat p * unat q + unat r + unat t"
proof -
  have "unat p * unat q \<le> 65535 * 65535" by (rule mult_le_mono) (use assms in auto)
  then have b: "unat p * unat q + unat r + unat t < 4294967296" using assms by linarith
  have "p * q + r + t = of_nat (unat p * unat q + unat r + unat t)" by simp
  then have "unat (p * q + r + t) = (unat p * unat q + unat r + unat t) mod 2 ^ LENGTH(32)" by (simp only: unat_of_nat)
  then show ?thesis using b by simp
qed

section \<open>Multiplication by a small number\<close>

lemma mix16: "a * 65536 + l + 4294967296 * b = 65536 * (a + 65536 * b) + (l :: nat)"
  by simp

lemma dist16: "65536 * (d * m) + (r * m + a) = (r + 65536 * d) * m + (a :: nat)"
  by (simp add: algebra_simps)

lemma multadd_word:
  fixes x m a :: u32
  assumes "unat m < 65536" "unat a < 65536"
  defines "y \<equiv> (x AND 0xffff) * m + a"
  defines "z \<equiv> drop_bit 16 x * m + drop_bit 16 y"
  shows "unat (push_bit 16 z + (y AND 0xffff)) + 4294967296 * unat (drop_bit 16 z) = unat x * unat m + unat a"
    "unat (drop_bit 16 z) < 65536"
proof -
  have xd: "unat x div 65536 < 65536" using u32_less [of x] by simp
  have y: "unat y = unat x mod 65536 * unat m + unat a"
    using unat_muladd [of "x AND 0xffff" m a 0] assms(1,2) by (simp add: y_def)
  have "unat y div 65536 < 65536" using u32_less [of y] by simp
  then have z: "unat z = unat x div 65536 * unat m + unat y div 65536"
    using unat_muladd [of "drop_bit 16 x" m "drop_bit 16 y" 0] assms(1) xd by (simp add: z_def)
  have "unat (push_bit 16 z + (y AND 0xffff)) + 4294967296 * unat (drop_bit 16 z)
    = 65536 * (unat z mod 65536 + 65536 * (unat z div 65536)) + unat y mod 65536"
    by (simp only: push_plus unat_join unat_high mix16)
  also have "\<dots> = 65536 * (unat x div 65536 * unat m) + (unat y mod 65536 + 65536 * (unat y div 65536))"
    using z by (simp add: algebra_simps)
  also have "\<dots> = 65536 * (unat x div 65536 * unat m) + (unat x mod 65536 * unat m + unat a)" by (simp only: mod_mult_div_eq y)
  also have "\<dots> = (unat x mod 65536 + 65536 * (unat x div 65536)) * unat m + unat a" by (rule dist16)
  finally show "unat (push_bit 16 z + (y AND 0xffff)) + 4294967296 * unat (drop_bit 16 z) = unat x * unat m + unat a"
    by simp
  show "unat (drop_bit 16 z) < 65536" using u32_less [of z] by simp
qed

lemma multadd_loop_value:
  assumes "unat m < 65536" "unat a < 65536" "multadd_loop m a xs = (a', ws)"
  shows "bigval ws + 2 ^ (32 * length xs) * unat a' = bigval xs * unat m + unat a \<and> unat a' < 65536 \<and> length ws = length xs"
  using assms(2,3)
proof (induction xs arbitrary: a ws)
  case (Cons x xs)
  define y where "y = (x AND 0xffff) * m + a"
  define z where "z = drop_bit 16 x * m + drop_bit 16 y"
  obtain ws' where ws: "multadd_loop m (drop_bit 16 z) xs = (a', ws')" "ws = (push_bit 16 z + (y AND 0xffff)) # ws'"
    using Cons.prems(2) by (auto simp: y_def z_def Let_def split: prod.splits)
  note w = multadd_word [OF assms(1) Cons.prems(1), where x = x, folded y_def, folded z_def]
  note IH = Cons.IH [OF w(2) ws(1)]
  have "bigval ws + 2 ^ (32 * length (x # xs)) * unat a'
    = unat (push_bit 16 z + (y AND 0xffff)) + 4294967296 * (bigval ws' + 2 ^ (32 * length xs) * unat a')"
    by (simp add: ws(2) power_add algebra_simps)
  also have "\<dots> = unat x * unat m + unat a + 4294967296 * (bigval xs * unat m)" using IH w(1) by (simp add: algebra_simps)
  finally show ?case using IH ws(2) by (simp add: algebra_simps)
qed simp

section \<open>Products\<close>

lemma Storeinc_value: "unat (Storeinc True z2 z) = unat z2 mod 65536 * 65536 + unat z mod 65536"
  by (simp add: Storeinc_def)

lemma carry_less: "unat (drop_bit 16 z :: u32) < 65536"
  using u32_less [of z] by simp

lemma low_less: "unat (z AND 0xffff :: u32) < 65536"
  by simp

text \<open>Two half-word steps make a word step.\<close>

lemma two_halves:
  fixes l h n m :: nat
  assumes "l = x0 * y + c0 + n" "h = x1 * y + c1 + l div 65536"
  shows "h mod 65536 * 65536 + l mod 65536 + 4294967296 * (h div 65536) = (x0 + 65536 * x1) * y + (c0 + 65536 * c1) + n"
proof -
  have "h mod 65536 * 65536 + l mod 65536 + 4294967296 * (h div 65536) = 65536 * (h mod 65536 + 65536 * (h div 65536)) + l mod 65536"
    by (rule mix16)
  also have "\<dots> = 65536 * (x1 * y + c1) + (l mod 65536 + 65536 * (l div 65536))" using assms(2) by (simp add: algebra_simps)
  also have "\<dots> = (x0 + 65536 * x1) * y + (c0 + 65536 * c1) + n" using assms(1) by (simp add: algebra_simps)
  finally show ?thesis .
qed

lemma mult_low_value:
  assumes "unat y < 65536" "unat carry < 65536" "length xs < length cs" "cs ! length xs = 0"
  shows "bigval (mult_low True y carry xs cs) = bigval cs + unat y * bigval xs + unat carry
    \<and> length (mult_low True y carry xs cs) = length cs \<and> unat (mult_low True y carry xs cs ! length xs) < 65536
    \<and> drop (length xs + 1) (mult_low True y carry xs cs) = drop (length xs + 1) cs"
  using assms(2-4)
proof (induction xs arbitrary: carry cs)
  case Nil
  then show ?case by (cases cs) auto
next
  case (Cons x xs)
  obtain c cs' where cs: "cs = c # cs'" using Cons.prems by (cases cs) auto
  define z where "z = (x AND 0xffff) * y + (c AND 0xffff) + carry"
  define z2 where "z2 = drop_bit 16 x * y + drop_bit 16 c + drop_bit 16 z"
  have step: "mult_low True y carry (x # xs) cs = Storeinc True z2 z # mult_low True y (drop_bit 16 z2) xs cs'"
    by (simp add: cs z_def z2_def Let_def)
  have z: "unat z = unat x mod 65536 * unat y + unat c mod 65536 + unat carry"
    unfolding z_def by (subst unat_muladd) (use low_less [of x] low_less [of c] assms(1) Cons.prems in auto)
  have z2: "unat z2 = unat x div 65536 * unat y + unat c div 65536 + unat z div 65536"
    unfolding z2_def by (subst unat_muladd) (use carry_less [of x] carry_less [of c] carry_less [of z] assms(1) in auto)
  have w: "unat (Storeinc True z2 z) + 4294967296 * (unat z2 div 65536) = unat x * unat y + unat c + unat carry"
    using two_halves [OF z z2] by (simp add: Storeinc_value)
  have IH: "bigval (mult_low True y (drop_bit 16 z2) xs cs') = bigval cs' + unat y * bigval xs + unat z2 div 65536
    \<and> length (mult_low True y (drop_bit 16 z2) xs cs') = length cs' \<and> unat (mult_low True y (drop_bit 16 z2) xs cs' ! length xs) < 65536
    \<and> drop (length xs + 1) (mult_low True y (drop_bit 16 z2) xs cs') = drop (length xs + 1) cs'"
    using Cons.IH [OF carry_less, of cs'] Cons.prems by (auto simp: cs)
  have "bigval (Storeinc True z2 z # mult_low True y (drop_bit 16 z2) xs cs')
    = unat (Storeinc True z2 z) + 4294967296 * (unat z2 div 65536) + 4294967296 * (bigval cs' + unat y * bigval xs)"
    using IH by (simp add: algebra_simps)
  also have "\<dots> = bigval cs + unat y * bigval (x # xs) + unat carry" unfolding w cs by (simp add: algebra_simps)
  finally show ?case using IH unfolding step by (simp add: cs)
qed

text \<open>The row for the upper half: the lower half of the current word is already final in \<open>z2\<close>.\<close>

lemma regroup16: "a * 65536 + t + 4294967296 * (p + q + b + r) = t + 65536 * (a + 65536 * b) + 4294967296 * (p + q + (r :: nat))"
  by simp

lemma high_halves:
  fixes l h t :: nat
  assumes "l = x0 * y + c1 + n" "h = x1 * y + d0 + l div 65536"
  shows "l mod 65536 * 65536 + t mod 65536 + 4294967296 * (h mod 65536 + 65536 * d1 + 65536 * (h div 65536))
    = t mod 65536 + 65536 * c1 + 4294967296 * (d0 + 65536 * d1) + 65536 * ((x0 + 65536 * x1) * y + n)"
proof -
  have "l mod 65536 * 65536 + t mod 65536 + 4294967296 * (h mod 65536 + 65536 * d1 + 65536 * (h div 65536))
    = l mod 65536 * 65536 + t mod 65536 + 4294967296 * ((h mod 65536 + 65536 * (h div 65536)) + 65536 * d1)"
    by (simp only: add.assoc add.commute add.left_commute)
  also have "\<dots> = l mod 65536 * 65536 + t mod 65536 + 4294967296 * (x1 * y + d0 + l div 65536 + 65536 * d1)"
    by (simp only: mod_mult_div_eq assms(2))
  also have "\<dots> = t mod 65536 + 65536 * (l mod 65536 + 65536 * (l div 65536)) + 4294967296 * (x1 * y + d0 + 65536 * d1)"
    by (rule regroup16)
  also have "\<dots> = t mod 65536 + 65536 * (x0 * y + c1 + n) + 4294967296 * (x1 * y + d0 + 65536 * d1)"
    unfolding mod_mult_div_eq by (simp only: assms(1))
  also have "\<dots> = t mod 65536 + 65536 * c1 + 4294967296 * (d0 + 65536 * d1) + 65536 * ((x0 + 65536 * x1) * y + n)"
    by (simp add: algebra_simps)
  finally show ?thesis .
qed

lemma mult_high_value:
  assumes "unat y < 65536" "unat carry < 65536" "length xs < length (c # cs)" "unat ((c # cs) ! length xs) < 65536"
    "xs = [] \<longrightarrow> carry = drop_bit 16 z2"
  shows "bigval (mult_high True y carry z2 xs (c # cs))
      = unat z2 mod 65536 + 65536 * (unat c div 65536) + 4294967296 * bigval cs + 65536 * (unat y * bigval xs + unat carry)
    \<and> length (mult_high True y carry z2 xs (c # cs)) = length (c # cs)
    \<and> drop (length xs + 1) (mult_high True y carry z2 xs (c # cs)) = drop (length xs + 1) (c # cs)"
  using assms(2-5)
proof (induction xs arbitrary: carry z2 c cs)
  case Nil
  have "unat z2 mod 65536 + 65536 * (unat z2 div 65536) = unat z2" by (rule mod_mult_div_eq)
  then show ?case using Nil by simp
next
  case (Cons x xs)
  obtain d ds where cs: "cs = d # ds" using Cons.prems by (cases cs) auto
  define z where "z = (x AND 0xffff) * y + drop_bit 16 c + carry"
  define t where "t = drop_bit 16 x * y + (d AND 0xffff) + drop_bit 16 z"
  have step: "mult_high True y carry z2 (x # xs) (c # cs) = Storeinc True z z2 # mult_high True y (drop_bit 16 t) t xs (d # ds)"
    by (simp add: cs z_def t_def Let_def)
  have z: "unat z = unat x mod 65536 * unat y + unat c div 65536 + unat carry"
    unfolding z_def by (subst unat_muladd) (use low_less [of x] carry_less [of c] assms(1) Cons.prems in auto)
  have t: "unat t = unat x div 65536 * unat y + unat d mod 65536 + unat z div 65536"
    unfolding t_def by (subst unat_muladd) (use carry_less [of x] low_less [of d] carry_less [of z] assms(1) in auto)
  note IH = Cons.IH [OF carry_less, of d ds t t]
  have v: "bigval (mult_high True y (drop_bit 16 t) t xs (d # ds))
      = unat t mod 65536 + 65536 * (unat d div 65536) + 4294967296 * bigval ds + 65536 * (unat y * bigval xs + unat t div 65536)"
    and l: "length (mult_high True y (drop_bit 16 t) t xs (d # ds)) = length (d # ds)"
      "drop (length xs + 1) (mult_high True y (drop_bit 16 t) t xs (d # ds)) = drop (length xs + 1) (d # ds)"
    using IH Cons.prems by (auto simp: cs)
  have "bigval (Storeinc True z z2 # mult_high True y (drop_bit 16 t) t xs (d # ds))
    = (unat z mod 65536 * 65536 + unat z2 mod 65536 + 4294967296 * (unat t mod 65536 + 65536 * (unat d div 65536) + 65536 * (unat t div 65536)))
      + 4294967296 * (4294967296 * bigval ds + 65536 * (unat y * bigval xs))"
    by (simp add: v Storeinc_value algebra_simps)
  also have "\<dots> = unat z2 mod 65536 + 65536 * (unat c div 65536) + 4294967296 * (unat d mod 65536 + 65536 * (unat d div 65536))
      + 65536 * ((unat x mod 65536 + 65536 * (unat x div 65536)) * unat y + unat carry) + 4294967296 * (4294967296 * bigval ds + 65536 * (unat y * bigval xs))"
    by (simp only: high_halves [OF z t])
  also have "\<dots> = unat z2 mod 65536 + 65536 * (unat c div 65536) + 4294967296 * bigval cs + 65536 * (unat y * bigval (x # xs) + unat carry)"
    unfolding mod_mult_div_eq by (simp add: cs algebra_simps)
  finally show ?case using l unfolding step by (simp add: cs)
qed

lemma mult_row_value:
  assumes "xs \<noteq> []" "length xs < length cs" "cs ! length xs = 0"
  shows "bigval (mult_row True xs b cs) = bigval cs + unat b * bigval xs
    \<and> length (mult_row True xs b cs) = length cs \<and> drop (length xs + 1) (mult_row True xs b cs) = drop (length xs + 1) cs"
proof -
  define y where "y = b AND 0xffff"
  define cs1 where "cs1 = (if y \<noteq> 0 then mult_low True y 0 xs cs else cs)"
  have low: "bigval cs1 = bigval cs + unat b mod 65536 * bigval xs" "length cs1 = length cs"
    "unat (cs1 ! length xs) < 65536" "drop (length xs + 1) cs1 = drop (length xs + 1) cs"
  proof -
    have y: "unat y = unat b mod 65536" by (simp add: y_def)
    show "bigval cs1 = bigval cs + unat b mod 65536 * bigval xs" "length cs1 = length cs"
      "unat (cs1 ! length xs) < 65536" "drop (length xs + 1) cs1 = drop (length xs + 1) cs"
      using mult_low_value [of y 0 xs cs] assms(2,3) y by (auto simp: cs1_def)
  qed
  obtain c ds where cs1: "cs1 = c # ds" using low(2) assms(2) by (cases cs1) auto
  define h where "h = drop_bit 16 b"
  have h: "unat h = unat b div 65536" "unat h < 65536" using carry_less [of b] by (simp_all add: h_def)
  have row: "mult_row True xs b cs = (if h \<noteq> 0 then mult_high True h 0 c xs cs1 else cs1)"
    by (simp add: mult_row_def Let_def cs1 flip: y_def h_def cs1_def)
  have b: "unat b * bigval xs = unat b mod 65536 * bigval xs + 65536 * (unat h * bigval xs)"
    unfolding h(1) by (metis (no_types, lifting) add_mult_distrib mod_mult_div_eq mult.assoc)
  have c: "unat c mod 65536 + 65536 * (unat c div 65536) = unat c" by (rule mod_mult_div_eq)
  show ?thesis
  proof (cases "h = 0")
    case True
    then show ?thesis using row low b h by simp
  next
    case False
    have "bigval (mult_high True h 0 c xs (c # ds)) = bigval cs1 + 65536 * (unat h * bigval xs)"
      using mult_high_value [of h 0 xs c ds c] h(2) assms low c by (simp add: cs1)
    then show ?thesis
      using mult_high_value [of h 0 xs c ds c] row False low assms h(2) b by (simp add: cs1)
  qed
qed

lemma mult_rows_value:
  assumes "xs \<noteq> []" "length cs = length xs + length bs" "drop (length xs) cs = replicate (length bs) 0"
  shows "bigval (mult_rows True xs bs cs) = bigval cs + bigval xs * bigval bs \<and> length (mult_rows True xs bs cs) = length cs"
  using assms(2,3)
proof (induction bs arbitrary: cs)
  case (Cons b bs)
  have "drop (length xs) cs ! 0 = 0" using Cons.prems by simp
  then have z: "cs ! length xs = 0" using Cons.prems(1) by simp
  define r where "r = mult_row True xs b cs"
  have r: "bigval r = bigval cs + unat b * bigval xs" "length r = length cs" "drop (length xs + 1) r = drop (length xs + 1) cs"
    using mult_row_value [OF assms(1) _ z, of b] Cons.prems(1) by (auto simp: r_def)
  obtain w ws where ws: "r = w # ws" using r(2) Cons.prems(1) by (cases r) auto
  have "drop (length xs + 1) cs = replicate (length bs) 0"
    using arg_cong [OF Cons.prems(2), of tl] by (simp add: tl_drop drop_Suc)
  then have "drop (length xs) ws = replicate (length bs) 0" using r(3) by (simp add: ws)
  then have IH: "bigval (mult_rows True xs bs ws) = bigval ws + bigval xs * bigval bs \<and> length (mult_rows True xs bs ws) = length ws"
    using Cons.IH [of ws] Cons.prems(1) r(2) by (simp add: ws)
  have "mult_rows True xs (b # bs) cs = w # mult_rows True xs bs ws" by (simp add: Let_def ws flip: r_def)
  then show ?case using IH r(1,2) by (simp add: ws algebra_simps)
qed simp

section \<open>Shift\<close>

lemma regroup_shift: "a * c + z + (b * c) * d = (a + b * d) * c + (z :: nat)"
  by (simp add: algebra_simps)

lemma shift_word:
  fixes x z :: u32
  assumes "0 < k" "k < 32" "unat z < 2 ^ k"
  shows "unat (push_bit k x OR z) + 4294967296 * unat (drop_bit (32 - k) x) = unat x * 2 ^ k + unat z"
    "unat (drop_bit (32 - k) x) < 2 ^ k"
proof -
  have p: "(2 :: nat) ^ (32 - k) * 2 ^ k = 4294967296" using assms(2) by (simp flip: power_add)
  have d: "unat (drop_bit (32 - k) x) = unat x div 2 ^ (32 - k)"
    using u32_less [of x] by (simp only: unsigned_drop_bit_eq) (simp add: drop_bit_eq_div take_bit_nat_eq_self)
  have "unat x < 2 ^ k * 2 ^ (32 - k)" using u32_less [of x] p by (simp only: mult.commute)
  then show "unat (drop_bit (32 - k) x) < 2 ^ k" unfolding d by (simp add: less_mult_imp_div_less)
  have "take_bit k z = z" using assms(3) by (simp only: word_unat_eq_iff unsigned_take_bit_eq) (simp add: take_bit_nat_eq_self)
  then have "\<not> bit z n" if "k \<le> n" for n using that by (metis bit_take_bit_iff not_le)
  then have plus: "push_bit k x OR z = push_bit k x + z"
    by (intro disjunctive_add [symmetric]) (auto simp: bit_simps)
  have push: "unat (push_bit k x) = unat x mod 2 ^ (32 - k) * 2 ^ k"
  proof -
    have "unat (push_bit k x) = unat x * 2 ^ k mod (2 ^ (32 - k) * 2 ^ k)"
      unfolding p by (simp only: unsigned_push_bit_eq) (simp add: push_bit_eq_mult take_bit_eq_mod)
    then show ?thesis by (simp only: mod_mult_mult2)
  qed
  have "unat x mod 2 ^ (32 - k) + 1 \<le> 2 ^ (32 - k)" by (simp add: Suc_leI)
  then have "(unat x mod 2 ^ (32 - k) + 1) * 2 ^ k \<le> 4294967296" unfolding p [symmetric] by (rule mult_le_mono1)
  then have "unat (push_bit k x) + unat z < 2 ^ LENGTH(32)" unfolding push using assms(3) by simp
  then have "unat (push_bit k x + z) = unat (push_bit k x) + unat z" by (rule unat_add_lem [THEN iffD1])
  then have "unat (push_bit k x OR z) + 4294967296 * unat (drop_bit (32 - k) x)
    = (unat x mod 2 ^ (32 - k) + 2 ^ (32 - k) * (unat x div 2 ^ (32 - k))) * 2 ^ k + unat z"
    unfolding plus d p [symmetric] push by (simp only: regroup_shift)
  then show "unat (push_bit k x OR z) + 4294967296 * unat (drop_bit (32 - k) x) = unat x * 2 ^ k + unat z"
    by (simp only: mod_mult_div_eq)
qed

lemma shift_loop_value:
  assumes "0 < k" "k < 32" "unat z < 2 ^ k"
  shows "bigval (shift_loop k z xs) = bigval xs * 2 ^ k + unat z \<and> length (shift_loop k z xs) = length xs + 1"
  using assms(3)
proof (induction xs arbitrary: z)
  case (Cons x xs)
  note w = shift_word [OF assms(1,2) Cons.prems, of x]
  show ?case using Cons.IH [OF w(2)] w(1) by (simp add: algebra_simps)
qed simp

section \<open>Comparison\<close>

lemma bigval_snoc: "bigval (xs @ [x]) = bigval xs + 2 ^ (32 * length xs) * unat x"
  by (simp add: bigval_append)

lemma top_word_less:
  assumes "length xs = length ys" "x < y"
  shows "bigval (xs @ [x]) < bigval (ys @ [y])"
proof -
  have "unat x + 1 \<le> unat y" using assms(2) by (simp add: word_less_nat_alt)
  then have "2 ^ (32 * length xs) * (unat x + 1) \<le> 2 ^ (32 * length xs) * unat y" by (rule mult_le_mono2)
  then show ?thesis using bigval_less [of xs] assms(1) by (simp add: bigval_snoc algebra_simps)
qed

lemma cmp_loop_sign:
  assumes "length as = length bs"
  shows "cmp_loop as bs = sgn (int (bigval (rev as)) - int (bigval (rev bs)))"
  using assms
proof (induction as bs rule: list_induct2)
  case (Cons x xs y ys)
  consider "x < y" | "y < x" | "x = y" by (meson linorder_neqE)
  then show ?case
  proof cases
    case 1 then show ?thesis using top_word_less [of "rev xs" "rev ys" x y] Cons by simp
  next
    case 2 then show ?thesis using top_word_less [of "rev ys" "rev xs" y x] Cons by auto
  next
    case 3 then show ?thesis using Cons by (simp add: bigval_snoc)
  qed
qed simp

text \<open>A number has at least one word, and its last word is not zero when it has more than one.\<close>

definition normal :: "u32 list \<Rightarrow> bool" where
  "normal ws \<longleftrightarrow> ws \<noteq> [] \<and> (length ws > 1 \<longrightarrow> last ws \<noteq> 0)"

lemma normal_longer:
  assumes "normal xs" "length ys < length xs" "ys \<noteq> []"
  shows "bigval ys < bigval xs"
proof -
  have "length ys \<noteq> 0" using assms(3) by simp
  then have "1 < length xs" using assms(2) by linarith
  then have l: "last xs \<noteq> 0" "xs \<noteq> []" using assms(1) by (auto simp: normal_def)
  have "bigval ys < 2 ^ (32 * length ys)" by (rule bigval_less)
  also have "\<dots> \<le> 2 ^ (32 * length (butlast xs))" using assms(2) by (intro power_increasing) auto
  also have "\<dots> \<le> 2 ^ (32 * length (butlast xs)) * unat (last xs)" using l(1) by (simp add: unat_gt_0 Suc_leI word_neq_0_conv)
  also have "\<dots> \<le> bigval (butlast xs @ [last xs])" by (simp only: bigval_snoc)
  also have "butlast xs @ [last xs] = xs" using l(2) by simp
  finally show ?thesis .
qed

section \<open>Difference\<close>

lemma u32_sint: "- 2147483648 \<le> k \<Longrightarrow> k < 2147483648 \<Longrightarrow> sint (of_int k :: u32) = k"
  by (simp add: sint_sbintrunc' signed_take_bit_int_eq_self)

lemma diff_half:
  fixes p q :: u32
  assumes "unat p < 65536" "unat q < 65536" "sint b = 0 \<or> sint b = - 1"
  defines "d \<equiv> p - q + b"
  shows "sint (signed_drop_bit 16 d) = (int (unat p) - int (unat q) + sint b) div 65536"
    "int (unat d mod 65536) = (int (unat p) - int (unat q) + sint b) mod 65536"
    "sint (signed_drop_bit 16 d) = 0 \<or> sint (signed_drop_bit 16 d) = - 1"
proof -
  let ?D = "int (unat p) - int (unat q) + sint b"
  have D: "- 65536 \<le> ?D" "?D < 65536" using assms(1-3) by linarith+
  have d: "d = of_int ?D" by (simp add: d_def)
  have s: "sint d = ?D" unfolding d by (rule u32_sint) (use D in auto)
  show q: "sint (signed_drop_bit 16 d) = ?D div 65536" by (simp add: sint_signed_drop_bit_eq s drop_bit_eq_div)
  show "sint (signed_drop_bit 16 d) = 0 \<or> sint (signed_drop_bit 16 d) = - 1" unfolding q using D by auto
  have "uint d = ?D mod 4294967296" unfolding d by (subst uint_word_of_int_eq) (simp add: take_bit_eq_mod)
  then have "uint d mod 65536 = ?D mod 65536" by (simp add: mod_mod_cancel)
  then show "int (unat d mod 65536) = ?D mod 65536" by (simp add: zmod_int)
qed

lemma diff_word:
  fixes x y :: u32
  assumes "sint b = 0 \<or> sint b = - 1"
  defines "d \<equiv> (x AND 0xffff) - (y AND 0xffff) + b"
  defines "z \<equiv> drop_bit 16 x - drop_bit 16 y + signed_drop_bit 16 d"
  shows "int (unat (Storeinc True z d)) + 4294967296 * sint (signed_drop_bit 16 z) = int (unat x) - int (unat y) + sint b"
    "sint (signed_drop_bit 16 z) = 0 \<or> sint (signed_drop_bit 16 z) = - 1"
proof -
  let ?D = "int (unat x mod 65536) - int (unat y mod 65536) + sint b"
  have d: "sint (signed_drop_bit 16 d) = ?D div 65536" "int (unat d mod 65536) = ?D mod 65536"
    "sint (signed_drop_bit 16 d) = 0 \<or> sint (signed_drop_bit 16 d) = - 1"
    using diff_half [OF low_less low_less assms(1), of x y] unfolding d_def unat_low by auto
  let ?Z = "int (unat x div 65536) - int (unat y div 65536) + ?D div 65536"
  have z: "sint (signed_drop_bit 16 z) = ?Z div 65536" "int (unat z mod 65536) = ?Z mod 65536"
    using diff_half(1,2) [OF carry_less carry_less d(3), of x y] unfolding z_def unat_high d(1) by auto
  show "sint (signed_drop_bit 16 z) = 0 \<or> sint (signed_drop_bit 16 z) = - 1"
    unfolding z_def by (rule diff_half(3) [OF carry_less carry_less d(3)])
  have "int (unat (Storeinc True z d)) + 4294967296 * sint (signed_drop_bit 16 z)
    = ?Z mod 65536 * 65536 + ?D mod 65536 + 4294967296 * (?Z div 65536)"
    unfolding Storeinc_value of_nat_add of_nat_mult z d(2) by simp
  also have "\<dots> = 65536 * (?Z mod 65536 + 65536 * (?Z div 65536)) + ?D mod 65536" by (simp only: distrib_left)
  also have "\<dots> = 65536 * (int (unat x div 65536) - int (unat y div 65536)) + (?D mod 65536 + 65536 * (?D div 65536))"
    unfolding mod_mult_div_eq [of ?Z] by (simp only: distrib_left)
  also have "\<dots> = int (unat x mod 65536 + 65536 * (unat x div 65536)) - int (unat y mod 65536 + 65536 * (unat y div 65536)) + sint b"
    unfolding mod_mult_div_eq [of ?D] of_nat_add of_nat_mult by (simp only: right_diff_distrib)
  finally show "int (unat (Storeinc True z d)) + 4294967296 * sint (signed_drop_bit 16 z) = int (unat x) - int (unat y) + sint b"
    by (simp only: mod_mult_div_eq)
qed

lemma mod_step:
  fixes w u c n :: int
  assumes "0 \<le> w" "w < c" "0 < n"
  shows "(w + c * u) mod (c * n) = w + c * (u mod n)"
proof -
  have "(w + c * u) div c = u" "(w + c * u) mod c = w" using assms by auto
  then show ?thesis using zmod_zmult2_eq [of n "w + c * u" c] assms(3) by simp
qed

lemma diff_loop_value:
  assumes "sint b = 0 \<or> sint b = - 1" "length ys \<le> length xs"
  shows "int (bigval (diff_loop True b xs ys)) = (int (bigval xs) - int (bigval ys) + sint b) mod 2 ^ (32 * length xs)
    \<and> length (diff_loop True b xs ys) = length xs"
  using assms
proof (induction xs arbitrary: b ys)
  case (Cons x xs)
  define y ys' where y: "y = (if ys = [] then 0 else hd ys)" "ys' = tl ys"
  define d where "d = (x AND 0xffff) - (y AND 0xffff) + b"
  define z where "z = drop_bit 16 x - drop_bit 16 y + signed_drop_bit 16 d"
  have ys: "bigval ys = unat y + 4294967296 * bigval ys'" "length ys' \<le> length xs"
    using Cons.prems(2) by (cases ys; simp add: y)+
  have step: "diff_loop True b (x # xs) ys = Storeinc True z d # diff_loop True (signed_drop_bit 16 z) xs ys'"
    by (cases ys) (simp_all add: y z_def d_def Let_def)
  note w = diff_word [OF Cons.prems(1), of x y, folded d_def, folded z_def]
  note IH = Cons.IH [OF w(2) ys(2)]
  have W: "0 \<le> int (unat (Storeinc True z d))" "int (unat (Storeinc True z d)) < 4294967296"
    using u32_less [of "Storeinc True z d"] by linarith+
  let ?u = "int (bigval xs) - int (bigval ys') + sint (signed_drop_bit 16 z)"
  have "int (bigval (x # xs)) - int (bigval ys) + sint b = int (unat (Storeinc True z d)) + 4294967296 * ?u"
    using w(1) by (simp add: ys(1) algebra_simps)
  moreover have "(2 :: int) ^ (32 * length (x # xs)) = 4294967296 * 2 ^ (32 * length xs)" by (simp add: power_add)
  ultimately have "(int (bigval (x # xs)) - int (bigval ys) + sint b) mod 2 ^ (32 * length (x # xs))
    = int (unat (Storeinc True z d)) + 4294967296 * (?u mod 2 ^ (32 * length xs))"
    using mod_step [OF W, of "2 ^ (32 * length xs)" ?u] by (simp only:) simp
  then show ?case using IH unfolding step by simp
qed simp

section \<open>Zero bits\<close>

lemma and_top_0:
  fixes x :: u32
  assumes "n \<le> 32"
  shows "x AND push_bit n (mask (32 - n)) = 0 \<longleftrightarrow> unat x < 2 ^ n"
proof -
  have "x AND push_bit n (mask (32 - n)) = 0 \<longleftrightarrow> (\<forall>k. n \<le> k \<longrightarrow> \<not> bit x k)"
  proof
    assume z: "x AND push_bit n (mask (32 - n)) = 0"
    show "\<forall>k. n \<le> k \<longrightarrow> \<not> bit x k"
    proof (intro allI impI notI)
      fix k assume "n \<le> k" "bit x k"
      moreover from this have "k < 32" by (auto dest: bit_imp_le_length)
      ultimately have "bit (x AND push_bit n (mask (32 - n))) k" by (auto simp: bit_simps)
      then show False using z by simp
    qed
  qed (auto simp: bit_eq_iff bit_simps)
  also have "\<dots> \<longleftrightarrow> take_bit n x = x"
  proof
    assume "\<forall>k. n \<le> k \<longrightarrow> \<not> bit x k"
    then show "take_bit n x = x" by (intro bit_word_eqI) (metis bit_take_bit_iff not_le)
  qed (metis bit_take_bit_iff not_le)
  also have "\<dots> \<longleftrightarrow> take_bit n (unat x) = unat x" by (simp only: word_unat_eq_iff unsigned_take_bit_eq)
  finally show ?thesis by (simp add: take_bit_nat_eq_self_iff)
qed

lemma unat_shift_small:
  fixes x :: u32
  assumes "unat x * 2 ^ n < 4294967296"
  shows "unat (push_bit n x) = unat x * 2 ^ n"
  using assms by (simp only: unsigned_push_bit_eq) (simp add: push_bit_eq_mult take_bit_nat_eq_self)

text \<open>A step of the search: when the upper \<open>n\<close> bits are zero the word is shifted by \<open>n\<close>.\<close>

lemma hi_step:
  fixes x :: u32
  assumes "0 < n" "n < 32" "m = push_bit (32 - n) (mask n)" "unat x0 * 2 ^ k = unat x" "2 ^ (32 - n) \<le> unat x * 2 ^ n"
    "(k', x') = (if x AND m = 0 then (k + n, push_bit n x) else (k, x))"
  shows "unat x0 * 2 ^ k' = unat x' \<and> 2 ^ (32 - n) \<le> unat x'"
proof (cases "x AND m = 0")
  case True
  have z: "unat x < 2 ^ (32 - n)" using and_top_0 [of "32 - n" x] True assms(2,3) by simp
  then have "unat x * 2 ^ n < 2 ^ (32 - n) * 2 ^ n" by simp
  also have "(2 :: nat) ^ (32 - n) * 2 ^ n = 4294967296" using assms(2) by (simp flip: power_add)
  finally have "unat (push_bit n x) = unat x * 2 ^ n" by (rule unat_shift_small)
  then show ?thesis using True assms(4-6) by (simp add: power_add flip: mult.assoc)
next
  case False
  then have "\<not> unat x < 2 ^ (32 - n)" using and_top_0 [of "32 - n" x] assms(2,3) by simp
  then show ?thesis using False assms(4,6) by simp
qed

lemma top_masks:
  "(0xffff0000 :: u32) = push_bit (32 - 16) (mask 16)" "(0xff000000 :: u32) = push_bit (32 - 8) (mask 8)"
  "(0xf0000000 :: u32) = push_bit (32 - 4) (mask 4)" "(0xc0000000 :: u32) = push_bit (32 - 2) (mask 2)"
  "(0x80000000 :: u32) = push_bit (32 - 1) (mask 1)"
  by (simp_all add: mask_eq_exp_minus_1 push_bit_eq_mult)

lemma hi0bits_value:
  assumes "x \<noteq> 0"
  shows "2147483648 \<le> unat x * 2 ^ hi0bits x \<and> unat x * 2 ^ hi0bits x < 4294967296"
proof -
  have x: "1 \<le> unat x" using assms by (simp add: Suc_leI unat_gt_0)
  obtain k1 :: nat and x1 where 1: "(k1, x1) = (if x AND 0xffff0000 = 0 then (16, push_bit 16 x) else (0, x))" by (metis surj_pair)
  then have one: "(k1, x1) = (if x AND 0xffff0000 = 0 then (0 + 16, push_bit 16 x) else (0, x))" by simp
  have v1: "unat x * 2 ^ k1 = unat x1" "65536 \<le> unat x1" using hi_step [OF _ _ top_masks(1) _ _ one, of x] x by auto
  obtain k2 :: nat and x2 where 2: "(k2, x2) = (if x1 AND 0xff000000 = 0 then (k1 + 8, push_bit 8 x1) else (k1, x1))" by (metis surj_pair)
  have v2: "unat x * 2 ^ k2 = unat x2" "16777216 \<le> unat x2" using hi_step [OF _ _ top_masks(2) v1(1) _ 2] v1(2) by auto
  obtain k3 :: nat and x3 where 3: "(k3, x3) = (if x2 AND 0xf0000000 = 0 then (k2 + 4, push_bit 4 x2) else (k2, x2))" by (metis surj_pair)
  have v3: "unat x * 2 ^ k3 = unat x3" "268435456 \<le> unat x3" using hi_step [OF _ _ top_masks(3) v2(1) _ 3] v2(2) by auto
  obtain k4 :: nat and x4 where 4: "(k4, x4) = (if x3 AND 0xc0000000 = 0 then (k3 + 2, push_bit 2 x3) else (k3, x3))" by (metis surj_pair)
  have v4: "unat x * 2 ^ k4 = unat x4" "1073741824 \<le> unat x4" using hi_step [OF _ _ top_masks(4) v3(1) _ 4] v3(2) by auto
  obtain k5 :: nat and x5 where 5: "(k5, x5) = (if x4 AND 0x80000000 = 0 then (k4 + 1, push_bit 1 x4) else (k4, x4))" by (metis surj_pair)
  have v5: "unat x * 2 ^ k5 = unat x5" "2147483648 \<le> unat x5" using hi_step [OF _ _ top_masks(5) v4(1) _ 5] v4(2) by auto
  have top: "x4 AND 0x40000000 \<noteq> 0" if "x4 AND 0x80000000 = 0"
  proof
    assume z: "x4 AND 0x40000000 = 0"
    have "(0xc0000000 :: u32) = 0x80000000 OR 0x40000000" by simp
    then have "x4 AND 0xc0000000 = 0" using z that by (simp only: bit.conj_disj_distrib) simp
    then have "unat x4 < 1073741824" using and_top_0 [of 30 x4] top_masks(4) by simp
    then show False using v4(2) by simp
  qed
  have "hi0bits x = (if x4 AND 0x80000000 = 0 then if x4 AND 0x40000000 = 0 then 32 else k4 + 1 else k4)"
    unfolding hi0bits_def by (simp only: Let_def 1 [symmetric] prod.case 2 [symmetric] 3 [symmetric] 4 [symmetric])
  then have "hi0bits x = k5" using 5 top by (simp split: if_splits)
  then show ?thesis using v5 u32_less [of x5] by simp
qed

lemma and_mask_0: "x AND mask n = 0 \<longleftrightarrow> 2 ^ n dvd unat x" for x :: u32
proof -
  have "x AND mask n = 0 \<longleftrightarrow> unat (take_bit n x) = 0" by (simp add: take_bit_eq_mask unsigned_eq_0_iff)
  also have "unat (take_bit n x) = unat x mod 2 ^ n" by (simp only: unsigned_take_bit_eq) (simp add: take_bit_eq_mod)
  finally show ?thesis by (simp add: dvd_eq_mod_eq_0)
qed

lemma unat_drop: "unat (drop_bit n x) = unat x div 2 ^ n" for x :: u32
  using u32_less [of x] by (simp only: unsigned_drop_bit_eq) (simp add: drop_bit_eq_div take_bit_nat_eq_self)

lemma lo_step:
  fixes x :: u32
  assumes "m = mask n" "unat x * 2 ^ k = unat x0" "\<not> 2 ^ (n + n) dvd unat x"
    "(k', x') = (if x AND m = 0 then (k + n, drop_bit n x) else (k, x))"
  shows "unat x' * 2 ^ k' = unat x0 \<and> \<not> 2 ^ n dvd unat x'"
proof (cases "x AND m = 0")
  case True
  then have d: "unat x div 2 ^ n * 2 ^ n = unat x" using assms(1) by (simp add: and_mask_0)
  have "\<not> 2 ^ n dvd unat x div 2 ^ n"
  proof
    assume "2 ^ n dvd unat x div 2 ^ n"
    then have "2 ^ n * 2 ^ n dvd unat x div 2 ^ n * 2 ^ n" by (rule mult_dvd_mono) simp
    then show False using assms(3) unfolding d by (simp add: power_add)
  qed
  moreover have "unat x div 2 ^ n * 2 ^ (k + n) = unat x div 2 ^ n * 2 ^ n * 2 ^ k" by (simp add: power_add)
  ultimately show ?thesis using True assms(2,4) unfolding d by (simp add: unat_drop)
next
  case False
  then show ?thesis using assms by (auto simp: and_mask_0)
qed

lemma low_masks:
  "(0xffff :: u32) = mask 16" "(0xff :: u32) = mask 8" "(0xf :: u32) = mask 4" "(0x3 :: u32) = mask 2" "(1 :: u32) = mask 1" "(7 :: u32) = mask 3"
  by (simp_all add: mask_eq_exp_minus_1)

text \<open>The search in a word whose lowest three bits are zero.\<close>

lemma lo0bits_search:
  assumes "y \<noteq> 0" "y AND 7 = 0"
  shows "unat (snd (lo0bits y)) * 2 ^ fst (lo0bits y) = unat y \<and> odd (unat (snd (lo0bits y)))"
proof -
  have "\<not> 2 ^ (16 + 16) dvd unat y"
    using u32_less [of y] assms(1) unat_gt_0 [of y] nat_dvd_not_less [of "unat y" "2 ^ (16 + 16)"] by simp
  obtain k1 :: nat and x1 where 1: "(k1, x1) = (if y AND 0xffff = 0 then (16, drop_bit 16 y) else (0, y))" by (metis surj_pair)
  then have one: "(k1, x1) = (if y AND 0xffff = 0 then (0 + 16, drop_bit 16 y) else (0, y))" by simp
  have v1: "unat x1 * 2 ^ k1 = unat y" "\<not> 2 ^ (8 + 8) dvd unat x1"
    using lo_step [OF low_masks(1) _ \<open>\<not> 2 ^ (16 + 16) dvd unat y\<close> one] by auto
  obtain k2 :: nat and x2 where 2: "(k2, x2) = (if x1 AND 0xff = 0 then (k1 + 8, drop_bit 8 x1) else (k1, x1))" by (metis surj_pair)
  have v2: "unat x2 * 2 ^ k2 = unat y" "\<not> 2 ^ (4 + 4) dvd unat x2" using lo_step [OF low_masks(2) v1 2] by auto
  obtain k3 :: nat and x3 where 3: "(k3, x3) = (if x2 AND 0xf = 0 then (k2 + 4, drop_bit 4 x2) else (k2, x2))" by (metis surj_pair)
  have v3: "unat x3 * 2 ^ k3 = unat y" "\<not> 2 ^ (2 + 2) dvd unat x3" using lo_step [OF low_masks(3) v2 3] by auto
  obtain k4 :: nat and x4 where 4: "(k4, x4) = (if x3 AND 0x3 = 0 then (k3 + 2, drop_bit 2 x3) else (k3, x3))" by (metis surj_pair)
  have v4: "unat x4 * 2 ^ k4 = unat y" "\<not> 2 ^ (1 + 1) dvd unat x4" using lo_step [OF low_masks(4) v3 4] by auto
  obtain k5 :: nat and x5 where 5: "(k5, x5) = (if x4 AND 1 = 0 then (k4 + 1, drop_bit 1 x4) else (k4, x4))" by (metis surj_pair)
  have v5: "unat x5 * 2 ^ k5 = unat y" "\<not> 2 ^ 1 dvd unat x5" using lo_step [OF low_masks(5) v4 5] by auto
  have nz: "drop_bit 1 x4 \<noteq> 0" if "x4 AND 1 = 0"
  proof
    assume "drop_bit 1 x4 = 0"
    then have "unat x5 = 0" using 5 that by simp
    then show False using v5(2) by simp
  qed
  have "lo0bits y = (if x4 AND 1 = 0 then if drop_bit 1 x4 = 0 then (32, y) else (k4 + 1, drop_bit 1 x4) else (k4, x4))"
    unfolding lo0bits_def Let_def using assms(2) 1 [symmetric] 2 [symmetric] 3 [symmetric] 4 [symmetric] by (simp only: prod.case simp_thms if_True if_False)
  then have "lo0bits y = (k5, x5)" using 5 nz by (simp split: if_splits)
  then show ?thesis using v5 by simp
qed

lemma lo0bits_value:
  assumes "y \<noteq> 0"
  shows "unat (snd (lo0bits y)) * 2 ^ fst (lo0bits y) = unat y" "odd (unat (snd (lo0bits y)))" "fst (lo0bits y) < 32"
proof -
  have both: "unat (snd (lo0bits y)) * 2 ^ fst (lo0bits y) = unat y \<and> odd (unat (snd (lo0bits y)))"
  proof (cases "y AND 7 = 0")
    case False
    have d: "y AND 1 = 0 \<longleftrightarrow> 2 dvd unat y" "y AND 7 = 0 \<longleftrightarrow> 8 dvd unat y"
      using and_mask_0 [of y 1] and_mask_0 [of y 3] by (simp_all add: low_masks [symmetric])
    have "y AND 2 = 0 \<longleftrightarrow> \<not> bit y 1" using and_exp_eq_0_iff_not_bit [of y 1] by simp
    moreover have "bit y 1 \<longleftrightarrow> bit (unat y) 1" by (simp add: bit_unsigned_iff)
    ultimately have d2: "y AND 2 = 0 \<longleftrightarrow> even (unat y div 2)" by (simp add: bit_iff_odd)
    have u: "unat (drop_bit 1 y) = unat y div 2" "unat (drop_bit 2 y) = unat y div 4" by (simp_all add: unat_drop)
    have "even (unat y) \<Longrightarrow> even (unat y div 2) \<Longrightarrow> odd (unat y div 4)" "even (unat y) \<Longrightarrow> even (unat y div 2) \<Longrightarrow> unat y div 4 * 4 = unat y"
      using False unfolding d by presburger+
    then show ?thesis using False d d2 u by (auto simp: lo0bits_def Let_def)
  qed (use lo0bits_search assms in auto)
  then show "unat (snd (lo0bits y)) * 2 ^ fst (lo0bits y) = unat y" "odd (unat (snd (lo0bits y)))" by auto
  then have "1 * 2 ^ fst (lo0bits y) \<le> unat y" by (metis mult_le_mono1 odd_pos Suc_leI One_nat_def)
  then have "(2 :: nat) ^ fst (lo0bits y) < 2 ^ 32" using u32_less [of y] by simp
  then show "fst (lo0bits y) < 32" by (rule power_less_imp_less_exp [rotated]) simp
qed

end
