(* ===== verification/LibcMprecHeap.thy ===== *)
theory LibcMprecHeap
  imports LibcMprecCorrect
begin

text \<open>
  Correctness of the operations of \<^verbatim>\<open>mprec.c\<close> on the store: allocation never hands out an object
  that is in use, and the result of each operation has the value the operation computes, while
  all other numbers keep theirs.
\<close>

section \<open>The invariant of the store\<close>

definition obj_ok :: "bigint \<Rightarrow> bool" where
  "obj_ok b \<longleftrightarrow> length (bx b) = maxwds b \<and> maxwds b = 2 ^ bk b \<and> wds b \<le> maxwds b \<and> bk b \<le> Kmax"

fun bchain :: "(u32 \<rightharpoonup> bigint) \<Rightarrow> u32 \<Rightarrow> u32 list \<Rightarrow> bool" where
  "bchain h p [] \<longleftrightarrow> p = 0"
| "bchain h p (q # qs) \<longleftrightarrow> p = q \<and> (\<exists>b. h q = Some b \<and> bchain h (bnext b) qs)"

lemma bchain_cong: "(\<And>q. q \<in> set qs \<Longrightarrow> h' q = h q) \<Longrightarrow> bchain h' p qs \<longleftrightarrow> bchain h p qs"
  by (induction qs arbitrary: p) auto

lemma bchain_upd [simp]: "p \<notin> set qs \<Longrightarrow> bchain (h(p \<mapsto> b)) q qs \<longleftrightarrow> bchain h q qs"
  by (rule bchain_cong) auto

lemma bchain_dom: "bchain h p qs \<Longrightarrow> set qs \<subseteq> dom h"
  by (induction qs arbitrary: p) auto

text \<open>Results of \<^verbatim>\<open>_calloc_r\<close> are different from each other, unless they are null.\<close>

definition fresh_calloc :: "(nat \<Rightarrow> u32) \<Rightarrow> bool" where
  "fresh_calloc calloc \<longleftrightarrow> (\<forall>i j. calloc i = calloc j \<and> calloc i \<noteq> 0 \<longrightarrow> i = j)"

text \<open>The lists of free objects: \<open>fl k\<close> are the addresses in the list for capacity \<open>2\<^sup>k\<close>. \<open>L\<close> are addresses
  in use by the callers, \<open>p5\<close> the list of powers of five.\<close>

definition free_ok :: "u32 set \<Rightarrow> (u32 \<rightharpoonup> bigint) \<Rightarrow> u32 list \<Rightarrow> (nat \<Rightarrow> u32 list) \<Rightarrow> bool" where
  "free_ok U h F fl \<longleftrightarrow> length F = Kmax + 1 \<and>
     (\<forall>k<Kmax + 1. bchain h (F ! k) (fl k) \<and> distinct (fl k) \<and> (\<forall>p\<in>set (fl k). p \<notin> U \<and> (\<exists>b. h p = Some b \<and> bk b = k)))"

definition mp_ok :: "(nat \<Rightarrow> u32) \<Rightarrow> u32 set \<Rightarrow> u32 list \<Rightarrow> mp \<Rightarrow> bool" where
  "mp_ok calloc L p5 s \<longleftrightarrow>
     bigs s 0 = None \<and> (\<forall>p b. bigs s p = Some b \<longrightarrow> obj_ok b) \<and> L \<subseteq> dom (bigs s)
     \<and> dom (bigs s) \<subseteq> calloc ` {..<callocs s} \<and> (freelist s = None \<longrightarrow> bigs s = Map.empty)
     \<and> (\<forall>F. freelist s = Some F \<longrightarrow> (\<exists>fl. free_ok (L \<union> set p5) (bigs s) F fl))
     \<and> bchain (bigs s) (p5s s) p5 \<and> distinct p5 \<and> set p5 \<inter> L = {}"

text \<open>The requests for memory up to the \<open>n\<close>th from now are granted.\<close>

definition avail :: "(nat \<Rightarrow> u32) \<Rightarrow> nat \<Rightarrow> mp \<Rightarrow> bool" where
  "avail calloc n s \<longleftrightarrow> (\<forall>i<callocs s + n. calloc i \<noteq> 0)"

lemma avail_step: "avail calloc n s \<Longrightarrow> callocs s' \<le> callocs s + d \<Longrightarrow> m + d \<le> n \<Longrightarrow> avail calloc m s'"
  by (simp add: avail_def)

text \<open>Objects not in \<open>X\<close> are as before.\<close>

definition same_objs :: "u32 set \<Rightarrow> mp \<Rightarrow> mp \<Rightarrow> bool" where
  "same_objs X s s' \<longleftrightarrow> (\<forall>q\<in>X. bigs s' q = bigs s q) \<and> p5s s' = p5s s"

lemma same_objs_refl [simp]: "same_objs X s s"
  by (simp add: same_objs_def)

lemma same_objs_trans: "same_objs X s s1 \<Longrightarrow> same_objs Y s1 s2 \<Longrightarrow> Z \<subseteq> X \<inter> Y \<Longrightarrow> same_objs Z s s2"
  by (auto simp: same_objs_def subset_eq)

section \<open>Allocation\<close>

lemma free_okD:
  assumes "free_ok U h F fl" "k < Kmax + 1"
  shows "length F = Kmax + 1" "bchain h (F ! k) (fl k)" "distinct (fl k)"
    "p \<in> set (fl k) \<Longrightarrow> p \<notin> U \<and> (\<exists>b. h p = Some b \<and> bk b = k)"
  using assms by (simp_all add: free_ok_def)

lemma free_ok_take:
  assumes "free_ok U h F fl" "k < Kmax + 1" "F ! k \<noteq> 0" "h (F ! k) = Some b" "bk b' = bk b"
  shows "free_ok (insert (F ! k) U) (h(F ! k \<mapsto> b')) (F[k := bnext b]) (fl(k := tl (fl k)))"
proof -
  let ?p = "F ! k"
  obtain rest where fl: "fl k = ?p # rest" "bchain h (bnext b) rest"
    using assms(1-4) by (cases "fl k") (force simp: free_ok_def)+
  have p: "distinct (fl k)" "bk b = k" using assms(1,2,4) fl by (auto simp: free_ok_def)
  have other: "?p \<notin> set (fl j)" if jk: "j < Kmax + 1" "j \<noteq> k" for j
  proof
    assume "?p \<in> set (fl j)"
    then obtain b0 where "h ?p = Some b0" "bk b0 = j" using free_okD(4) [OF assms(1) jk(1)] by blast
    then show False using assms(4) p(2) jk(2) by simp
  qed
  have rest: "?p \<notin> set rest" using p(1) fl(1) by simp
  show ?thesis
    unfolding free_ok_def
  proof (intro conjI allI impI)
    show "length (F[k := bnext b]) = Kmax + 1" using assms(1) by (simp add: free_ok_def)
    fix j assume j: "j < Kmax + 1"
    show "bchain (h(?p \<mapsto> b')) (F[k := bnext b] ! j) ((fl(k := tl (fl k))) j)"
      using free_okD(1,2) [OF assms(1) j] assms(2) fl rest other [OF j] by (cases "j = k") auto
    show "distinct ((fl(k := tl (fl k))) j)" using assms(1) j fl by (auto simp: free_ok_def distinct_tl)
    show "\<forall>p\<in>set ((fl(k := tl (fl k))) j). p \<notin> insert ?p U \<and> (\<exists>b. (h(?p \<mapsto> b')) p = Some b \<and> bk b = j)"
    proof
      fix p assume p: "p \<in> set ((fl(k := tl (fl k))) j)"
      then have "p \<in> set (fl j)" "p \<noteq> ?p" using fl rest other [OF j] by (cases "j = k"; auto)+
      then show "p \<notin> insert ?p U \<and> (\<exists>b. (h(?p \<mapsto> b')) p = Some b \<and> bk b = j)"
        using assms(1) j by (auto simp: free_ok_def)
    qed
  qed
qed

text \<open>Changing an object that is not free.\<close>

lemma free_ok_update:
  assumes "free_ok U h F fl" "p \<in> U \<or> p \<notin> dom h"
  shows "free_ok (insert p U) (h(p \<mapsto> b)) F fl"
proof -
  have n: "p \<notin> set (fl k)" if "k < Kmax + 1" for k using assms that by (auto simp: free_ok_def)
  have "bchain (h(p \<mapsto> b)) (F ! k) (fl k) \<longleftrightarrow> bchain h (F ! k) (fl k)" if "k < Kmax + 1" for k
    using n [OF that] by (intro bchain_cong) auto
  then show ?thesis using assms(1) n by (auto simp: free_ok_def)
qed

lemma free_ok_less: "free_ok U h F fl \<Longrightarrow> V \<subseteq> U \<Longrightarrow> free_ok V h F fl"
  by (auto simp: free_ok_def)

lemma mp_okD:
  assumes "mp_ok calloc L p5 s"
  shows "bigs s 0 = None" "bigs s p = Some b \<Longrightarrow> obj_ok b" "p \<in> L \<Longrightarrow> \<exists>b. bigs s p = Some b"
    "p \<in> set p5 \<Longrightarrow> \<exists>b. bigs s p = Some b" "set p5 \<inter> L = {}" "0 \<notin> L" "0 \<notin> set p5"
proof -
  show z: "bigs s 0 = None" using assms by (simp add: mp_ok_def)
  show "bigs s p = Some b \<Longrightarrow> obj_ok b" using assms unfolding mp_ok_def by blast
  show l: "p \<in> L \<Longrightarrow> \<exists>b. bigs s p = Some b" for p using assms by (auto simp: mp_ok_def)
  have "bchain (bigs s) (p5s s) p5" using assms by (simp add: mp_ok_def)
  then show d: "p \<in> set p5 \<Longrightarrow> \<exists>b. bigs s p = Some b" for p using bchain_dom by blast
  show "set p5 \<inter> L = {}" using assms by (simp add: mp_ok_def)
  show "0 \<notin> L" "0 \<notin> set p5" using z l [of 0] d [of 0] by auto
qed

lemma mp_ok_put:
  assumes "mp_ok calloc L p5 s" "p \<in> L" "obj_ok b"
  shows "mp_ok calloc L p5 (put p b s)" "same_objs (- {p}) s (put p b s)"
proof -
  have d: "bigs s p \<noteq> None" "p \<noteq> 0" "p \<notin> set p5" using mp_okD [OF assms(1)] assms(2) by auto
  have c: "bchain ((bigs s)(p \<mapsto> b)) (p5s s) p5" using assms(1) d(3) by (simp add: mp_ok_def)
  have f: "\<exists>fl. free_ok (L \<union> set p5) ((bigs s)(p \<mapsto> b)) F fl" if F: "freelist s = Some F" for F
  proof -
    obtain fl where "free_ok (L \<union> set p5) (bigs s) F fl" using assms(1) F unfolding mp_ok_def by blast
    from free_ok_update [OF this] have "free_ok (insert p (L \<union> set p5)) ((bigs s)(p \<mapsto> b)) F fl" using assms(2) by simp
    then show ?thesis using free_ok_less by blast
  qed
  have "dom ((bigs s)(p \<mapsto> b)) = dom (bigs s)" using d(1) by auto
  then show "mp_ok calloc L p5 (put p b s)"
    using assms(1,3) d c f unfolding mp_ok_def put_def by (auto split: if_splits)
  show "same_objs (- {p}) s (put p b s)" by (simp add: same_objs_def put_def)
qed

text \<open>What an allocation of capacity \<open>2\<^sup>k\<close> achieves.\<close>

definition allocated :: "(nat \<Rightarrow> u32) \<Rightarrow> u32 set \<Rightarrow> u32 list \<Rightarrow> nat \<Rightarrow> mp \<Rightarrow> u32 \<Rightarrow> mp \<Rightarrow> bool" where
  "allocated calloc L p5 k s p s' \<longleftrightarrow> p \<notin> L \<and> p \<notin> set p5 \<and> mp_ok calloc (insert p L) p5 s'
     \<and> (\<exists>b. bigs s' p = Some b \<and> bk b = k \<and> wds b = 0 \<and> bsign b = 0) \<and> same_objs (- {p}) s s' \<and> callocs s' \<le> callocs s + 2"

lemma Balloc_reuse:
  assumes "mp_ok calloc L p5 s" "freelist s = Some F" "k < Kmax + 1" "F ! k \<noteq> 0"
  shows "\<exists>s'. Balloc calloc k s = Some (F ! k, s') \<and> allocated calloc L p5 k s (F ! k) s'"
proof -
  let ?p = "F ! k"
  obtain fl where fl: "free_ok (L \<union> set p5) (bigs s) F fl" using assms(1,2) unfolding mp_ok_def by blast
  have "bchain (bigs s) ?p (fl k)" using fl assms(3) by (simp add: free_ok_def)
  then have "?p \<in> set (fl k)" using assms(4) by (cases "fl k") auto
  then obtain b where b: "bigs s ?p = Some b" "bk b = k" "?p \<notin> L \<union> set p5" using fl assms(3) unfolding free_ok_def by blast
  let ?b = "b\<lparr>bsign := 0, wds := 0\<rparr>"
  let ?s = "put ?p ?b (s\<lparr>freelist := Some (F[k := bnext b])\<rparr>)"
  have "Balloc calloc k s = Some (?p, ?s)" using assms(2-4) b fl by (simp add: Balloc_def free_ok_def Let_def)
  moreover have "free_ok (insert ?p (L \<union> set p5)) ((bigs s)(?p \<mapsto> ?b)) (F[k := bnext b]) (fl(k := tl (fl k)))"
    by (rule free_ok_take [OF fl assms(3,4) b(1)]) simp
  moreover have "bchain ((bigs s)(?p \<mapsto> ?b)) (p5s s) p5"
    using assms(1) b(3) by (simp add: mp_ok_def)
  moreover have "obj_ok ?b" using mp_okD(2) [OF assms(1) b(1)] by (simp add: obj_ok_def)
  moreover have "dom ((bigs s)(?p \<mapsto> ?b)) = dom (bigs s)" using b(1) by auto
  ultimately show ?thesis
    using assms(1) b by (auto simp: allocated_def mp_ok_def put_def same_objs_def assms(2) insert_commute)
qed

lemma Balloc_new:
  assumes "mp_ok calloc L p5 s" "fresh_calloc calloc" "freelist s = Some F" "k < Kmax + 1" "F ! k = 0" "calloc (callocs s) \<noteq> 0"
  shows "\<exists>s'. Balloc calloc k s = Some (calloc (callocs s), s') \<and> allocated calloc L p5 k s (calloc (callocs s)) s' \<and> callocs s' = callocs s + 1"
proof -
  let ?p = "calloc (callocs s)"
  obtain fl where fl: "free_ok (L \<union> set p5) (bigs s) F fl" using assms(1,3) unfolding mp_ok_def by blast
  have dom: "dom (bigs s) \<subseteq> calloc ` {..<callocs s}" using assms(1) by (simp add: mp_ok_def)
  have p: "?p \<notin> dom (bigs s)" using dom assms(2,6) by (fastforce simp: fresh_calloc_def)
  then have pL: "?p \<notin> L" "?p \<notin> set p5" using mp_okD(3,4) [OF assms(1)] by auto
  let ?b = "\<lparr>bnext = 0, bk = k, maxwds = 2 ^ k, bsign = 0, wds = 0, bx = replicate (2 ^ k) 0\<rparr>"
  let ?s = "put ?p ?b (s\<lparr>callocs := callocs s + 1\<rparr>)"
  have "Balloc calloc k s = Some (?p, ?s)" using assms(3-6) fl by (simp add: Balloc_def calloc_r_def free_ok_def Let_def)
  moreover have "free_ok (insert ?p (L \<union> set p5)) ((bigs s)(?p \<mapsto> ?b)) F fl" by (rule free_ok_update [OF fl]) (use p in auto)
  moreover have "bchain ((bigs s)(?p \<mapsto> ?b)) (p5s s) p5"
    using assms(1) pL(2) by (simp add: mp_ok_def)
  moreover have "obj_ok ?b" using assms(4) by (simp add: obj_ok_def)
  moreover have "dom ((bigs s)(?p \<mapsto> ?b)) \<subseteq> calloc ` {..<callocs s + 1}" using dom by auto
  ultimately show ?thesis
    using assms(1,6) pL by (auto simp: allocated_def mp_ok_def put_def same_objs_def assms(3) insert_commute)
qed

lemma Balloc_ok:
  assumes "mp_ok calloc L p5 s" "fresh_calloc calloc" "k \<le> Kmax" "avail calloc 2 s"
  shows "\<exists>p s'. Balloc calloc k s = Some (p, s') \<and> allocated calloc L p5 k s p s'"
proof (cases "freelist s")
  case None
  then have e: "bigs s = Map.empty" "L = {}" "p5 = []" "p5s s = 0" using assms(1) by (cases p5; auto simp: mp_ok_def)+
  have c: "calloc (callocs s) \<noteq> 0" "calloc (callocs s + 1) \<noteq> 0" using assms(4) by (simp_all add: avail_def)
  let ?s = "s\<lparr>callocs := callocs s + 1, freelist := Some (replicate (Kmax + 1) 0)\<rparr>"
  have fl: "free_ok ({} \<union> set []) Map.empty (replicate (Kmax + 1) 0) (\<lambda>_. [])" by (simp add: free_ok_def)
  have ok: "mp_ok calloc L p5 ?s" using e fl by (auto simp: mp_ok_def)
  have "Balloc calloc k s = Balloc calloc k ?s" using None c by (simp add: Balloc_def calloc_r_def)
  moreover obtain s' where "Balloc calloc k ?s = Some (calloc (callocs ?s), s')" "allocated calloc L p5 k ?s (calloc (callocs ?s)) s'" "callocs s' = callocs ?s + 1"
    using Balloc_new [OF ok assms(2), of "replicate (Kmax + 1) 0" k] c assms(3) by auto
  ultimately show ?thesis by (auto simp: allocated_def same_objs_def)
next
  case (Some F)
  have "calloc (callocs s) \<noteq> 0" using assms(4) by (simp add: avail_def)
  then show ?thesis
    using Balloc_reuse [OF assms(1) Some, of k] Balloc_new [OF assms(1,2) Some, of k] assms(3) by (cases "F ! k = 0") auto
qed


lemma free_ok_give:
  assumes "free_ok U h F fl" "p \<in> U" "h p = Some b" "bk b = k" "k < Kmax + 1" "bk b' = k" "bnext b' = F ! k" "p \<noteq> 0"
  shows "free_ok (U - {p}) (h(p \<mapsto> b')) (F[k := p]) (fl(k := p # fl k))"
proof -
  have n: "p \<notin> set (fl j)" if "j < Kmax + 1" for j using free_okD(4) [OF assms(1) that] assms(2) by blast
  have "bchain (h(p \<mapsto> b')) (F[k := p] ! j) ((fl(k := p # fl k)) j)" if "j < Kmax + 1" for j
    using free_okD(1,2) [OF assms(1) that] n [OF that] assms(5,7) n [OF assms(5)] by (cases "j = k") auto
  moreover have "distinct ((fl(k := p # fl k)) j)" if "j < Kmax + 1" for j
    using free_okD(3) [OF assms(1) that] n [OF that] by auto
  moreover have "q \<notin> U - {p} \<and> (\<exists>b. (h(p \<mapsto> b')) q = Some b \<and> bk b = j)" if "q \<in> set ((fl(k := p # fl k)) j)" "j < Kmax + 1" for q j
    using free_okD(4) [OF assms(1) that(2), of q] that(1) n [OF that(2)] assms(6) by (cases "q = p") (auto split: if_splits)
  ultimately show ?thesis using assms(1) by (simp add: free_ok_def)
qed

lemma Bfree_ok:
  assumes "mp_ok calloc L p5 s" "p \<in> L"
  shows "\<exists>s'. Bfree p s = Some s' \<and> mp_ok calloc (L - {p}) p5 s' \<and> same_objs (- {p}) s s' \<and> callocs s' = callocs s"
proof -
  obtain b where b: "bigs s p = Some b" using mp_okD(3) [OF assms(1,2)] by blast
  have ok: "obj_ok b" by (rule mp_okD(2) [OF assms(1) b])
  have p: "p \<noteq> 0" "p \<notin> set p5" using mp_okD(5,6) [OF assms(1)] assms(2) by auto
  obtain F where F: "freelist s = Some F" using assms(1) b by (cases "freelist s") (auto simp: mp_ok_def)
  obtain fl where fl: "free_ok (L \<union> set p5) (bigs s) F fl" using assms(1) F unfolding mp_ok_def by blast
  have k: "bk b < Kmax + 1" using ok by (simp add: obj_ok_def)
  let ?b = "b\<lparr>bnext := F ! bk b\<rparr>"
  let ?s = "put p ?b (s\<lparr>freelist := Some (F[bk b := p])\<rparr>)"
  have "Bfree p s = Some ?s" using p b F free_okD(1) [OF fl k] k by (simp add: Bfree_def)
  moreover have "free_ok (L \<union> set p5 - {p}) ((bigs s)(p \<mapsto> ?b)) (F[bk b := p]) (fl(bk b := p # fl (bk b)))"
    by (rule free_ok_give [OF fl _ b]) (use assms(2) k p in auto)
  moreover have "L \<union> set p5 - {p} = (L - {p}) \<union> set p5" using p(2) by auto
  moreover have "bchain ((bigs s)(p \<mapsto> ?b)) (p5s s) p5" using assms(1) p(2) by (simp add: mp_ok_def)
  moreover have "obj_ok ?b" using ok by (simp add: obj_ok_def)
  moreover have "dom ((bigs s)(p \<mapsto> ?b)) = dom (bigs s)" using b by auto
  ultimately show ?thesis using assms(1) p by (auto simp: mp_ok_def put_def same_objs_def)
qed

section \<open>Numbers\<close>

definition words :: "bigint \<Rightarrow> u32 list" where
  "words b = take (wds b) (bx b)"

definition num :: "mp \<Rightarrow> u32 \<Rightarrow> nat \<Rightarrow> bool" where
  "num s p n \<longleftrightarrow> (\<exists>b. bigs s p = Some b \<and> normal (words b) \<and> bigval (words b) = n)"

text \<open>The capacity class of an object.\<close>

definition cap :: "mp \<Rightarrow> u32 \<Rightarrow> nat" where
  "cap s p = (case bigs s p of None \<Rightarrow> 0 | Some b \<Rightarrow> bk b)"

lemma words_length: "obj_ok b \<Longrightarrow> length (words b) = wds b"
  by (simp add: words_def obj_ok_def)

lemma num_same: "num s p n \<Longrightarrow> same_objs X s s' \<Longrightarrow> p \<in> X \<Longrightarrow> num s' p n"
  by (simp add: num_def same_objs_def)

lemma cap_same: "same_objs X s s' \<Longrightarrow> p \<in> X \<Longrightarrow> cap s' p = cap s p"
  by (simp add: cap_def same_objs_def)

lemma put_simps [simp]: "bigs (put p b s) q = (if q = p then Some b else bigs s q)" "callocs (put p b s) = callocs s"
  "p5s (put p b s) = p5s s" "freelist (put p b s) = freelist s"
  by (simp_all add: put_def)

text \<open>An operation that gives a new number and may use up the object \<open>b\<close>.\<close>

definition yields :: "(nat \<Rightarrow> u32) \<Rightarrow> u32 set \<Rightarrow> u32 list \<Rightarrow> mp \<Rightarrow> nat \<Rightarrow> nat \<Rightarrow> nat \<Rightarrow> (u32 \<times> mp) option \<Rightarrow> bool" where
  "yields calloc L p5 s n k c res \<longleftrightarrow> (\<exists>p s'. res = Some (p, s') \<and> p \<notin> L \<and> p \<notin> set p5 \<and> mp_ok calloc (insert p L) p5 s'
     \<and> num s' p n \<and> cap s' p \<le> k \<and> same_objs (L \<union> set p5) s s' \<and> callocs s' \<le> callocs s + c)"

lemma store_words_ok:
  assumes "obj_ok b" "length ws \<le> maxwds b"
  shows "store_words ws b = Some (b\<lparr>bx := ws @ drop (length ws) (bx b)\<rparr>)" "obj_ok (b\<lparr>bx := ws @ drop (length ws) (bx b)\<rparr>)"
  using assms by (simp_all add: store_words_def obj_ok_def)

lemma load_words_ok: "obj_ok b \<Longrightarrow> n \<le> maxwds b \<Longrightarrow> load_words n b = Some (take n (bx b))"
  by (simp add: load_words_def obj_ok_def)

lemma normal_length: "normal ws \<Longrightarrow> 1 \<le> length ws"
  by (cases ws) (auto simp: normal_def)

lemma allocatedD:
  assumes "allocated calloc L p5 k s p s'"
  shows "p \<notin> L" "p \<notin> set p5" "mp_ok calloc (insert p L) p5 s'" "same_objs (L \<union> set p5) s s'" "callocs s' \<le> callocs s + 2"
    "\<exists>b. bigs s' p = Some b \<and> bk b = k \<and> wds b = 0 \<and> bsign b = 0 \<and> obj_ok b" "same_objs (- {p}) s s'"
  using assms mp_okD(2) [of calloc "insert p L" p5 s' p] by (auto simp: allocated_def same_objs_def)

text \<open>Completing an allocated object.\<close>

lemma fill_yields:
  assumes "allocated calloc L p5 k s p s'" "obj_ok b" "normal (words b)" "bk b = k"
  shows "yields calloc L p5 s (bigval (words b)) k 2 (Some (p, put p b s'))"
proof -
  note a = allocatedD [OF assms(1)]
  have "mp_ok calloc (insert p L) p5 (put p b s')" by (rule mp_ok_put(1) [OF a(3) _ assms(2)]) simp
  moreover have "num (put p b s') p (bigval (words b))" using assms(3) by (simp add: num_def)
  moreover have "same_objs (L \<union> set p5) s (put p b s')" using a(1,2,4) by (auto simp: same_objs_def)
  ultimately show ?thesis using a(1,2,5) assms(4) by (auto simp: yields_def cap_def)
qed

lemma i2b_ok:
  assumes "mp_ok calloc L p5 s" "fresh_calloc calloc" "avail calloc 2 s"
  shows "yields calloc L p5 s (unat i) 1 2 (i2b calloc i s)"
proof -
  obtain p s' where a: "Balloc calloc 1 s = Some (p, s')" "allocated calloc L p5 1 s p s'"
    using Balloc_ok [OF assms(1,2) _ assms(3), of 1] by auto
  obtain b where b: "bigs s' p = Some b" "bk b = 1" "obj_ok b" using allocatedD(6) [OF a(2)] by blast
  have m: "maxwds b = 2" "length (bx b) = 2" using b by (simp_all add: obj_ok_def)
  let ?b = "b\<lparr>bx := [i] @ drop 1 (bx b), wds := 1\<rparr>"
  have "i2b calloc i s = Some (p, put p ?b s')" using a b m by (simp add: i2b_def store_words_def)
  moreover have "yields calloc L p5 s (bigval (words ?b)) 1 2 (Some (p, put p ?b s'))"
    by (rule fill_yields [OF a(2)]) (use b m in \<open>auto simp: obj_ok_def words_def normal_def\<close>)
  ultimately show ?thesis by (simp add: words_def)
qed


section \<open>Multiplication by a small number\<close>

lemma normal_mono:
  assumes "normal xs" "length ws = length xs" "bigval xs \<le> bigval ws"
  shows "normal ws"
proof (cases "length xs > 1")
  case True
  then have l: "last xs \<noteq> 0" "xs \<noteq> []" "ws \<noteq> []" using assms(1,2) by (auto simp: normal_def)
  have "last ws \<noteq> 0"
  proof
    assume z: "last ws = 0"
    have "bigval ws = bigval (butlast ws @ [last ws])" using l(3) by simp
    also have "\<dots> < 2 ^ (32 * length (butlast ws))" unfolding bigval_snoc z using bigval_less [of "butlast ws"] by simp
    also have "\<dots> = 2 ^ (32 * length (butlast xs))" using assms(2) by simp
    also have "\<dots> \<le> 2 ^ (32 * length (butlast xs)) * unat (last xs)" using l(1) by (simp add: unat_gt_0 Suc_leI word_neq_0_conv)
    also have "\<dots> \<le> bigval (butlast xs @ [last xs])" by (simp only: bigval_snoc)
    also have "butlast xs @ [last xs] = xs" using l(2) by simp
    finally show False using assms(3) by simp
  qed
  then show ?thesis using l(3) by (simp add: normal_def)
next
  case False
  then show ?thesis using assms(1,2) by (auto simp: normal_def)
qed

lemma normal_snoc: "a \<noteq> 0 \<Longrightarrow> normal (ws @ [a])"
  by (simp add: normal_def)

lemma multadd_grow:
  assumes "mp_ok calloc L p5 s" "fresh_calloc calloc" "avail calloc 2 s" "b \<in> L" "bigs s b = Some v" "wds v = maxwds v" "bk v < Kmax"
  shows "\<exists>b1 s2 v1. do { (b1, s) \<leftarrow> Balloc calloc (bk v + 1) s; s \<leftarrow> Bcopy b1 b s; s \<leftarrow> Bfree b s; Some (b1, s) } = Some (b1, s2)
    \<and> b1 \<notin> L \<and> b1 \<notin> set p5 \<and> mp_ok calloc (insert b1 (L - {b})) p5 s2 \<and> same_objs (L - {b} \<union> set p5) s s2 \<and> callocs s2 \<le> callocs s + 2
    \<and> bigs s2 b1 = Some v1 \<and> obj_ok v1 \<and> bk v1 = bk v + 1 \<and> wds v1 = wds v \<and> words v1 = words v"
proof -
  have v: "obj_ok v" by (rule mp_okD(2) [OF assms(1,5)])
  obtain b1 s1 where a: "Balloc calloc (bk v + 1) s = Some (b1, s1)" "allocated calloc L p5 (bk v + 1) s b1 s1"
    using Balloc_ok [OF assms(1,2) _ assms(3), of "bk v + 1"] assms(7) by auto
  note al = allocatedD [OF a(2)]
  obtain w where w: "bigs s1 b1 = Some w" "bk w = bk v + 1" "obj_ok w" using al(6) by blast
  have b: "bigs s1 b = Some v" using al(4) assms(4,5) by (simp add: same_objs_def)
  have sz: "length (bx v) = maxwds v" "maxwds v = 2 ^ bk v" "length (bx w) = 2 * maxwds v"
    using v w by (simp_all add: obj_ok_def)
  define v1 where "v1 = w\<lparr>bsign := bsign v, wds := wds v, bx := words v @ drop (wds v) (bx w)\<rparr>"
  have v1: "obj_ok v1" "bk v1 = bk v + 1" "wds v1 = wds v" "words v1 = words v"
    using v w by (simp_all add: v1_def obj_ok_def words_def)
  have cp: "Bcopy b1 b s1 = Some (put b1 v1 s1)"
    using w(1) b sz assms(6) by (simp add: Bcopy_def load_words_def store_words_def v1_def words_def)
  have ok: "mp_ok calloc (insert b1 L) p5 (put b1 v1 s1)" by (rule mp_ok_put(1) [OF al(3) _ v1(1)]) simp
  have nb: "b1 \<noteq> b" using al(1) assms(4) by auto
  obtain s2 where s2: "Bfree b (put b1 v1 s1) = Some s2" "mp_ok calloc (insert b1 L - {b}) p5 s2" "same_objs (- {b}) (put b1 v1 s1) s2"
    "callocs s2 = callocs (put b1 v1 s1)" using Bfree_ok [OF ok, of b] assms(4) by auto
  have "bigs s2 q = bigs s q" if q: "q \<in> L - {b} \<union> set p5" for q
  proof -
    have "q \<noteq> b" "q \<noteq> b1" using q al(1,2) mp_okD(5) [OF assms(1)] assms(4) by auto
    then show ?thesis using al(4) s2(3) q by (auto simp: same_objs_def)
  qed
  then have "same_objs (L - {b} \<union> set p5) s s2" using al(4) s2(3) by (simp add: same_objs_def)
  moreover have "insert b1 L - {b} = insert b1 (L - {b})" using nb by auto
  ultimately show ?thesis
    using a cp s2 v1 al(1,2,5) nb by (intro exI [of _ b1] exI [of _ s2] exI [of _ v1]) (auto simp: same_objs_def)
qed

text \<open>The last word, when there is a carry.\<close>

lemma put_last_word:
  assumes "mp_ok calloc L p5 s" "b \<in> L" "bigs s b = Some v" "wds v < maxwds v" "a \<noteq> 0"
  defines "v' \<equiv> v\<lparr>bx := (bx v)[wds v := a], wds := wds v + 1\<rparr>"
  shows "mp_ok calloc L p5 (put b v' s) \<and> num (put b v' s) b (bigval (words v @ [a])) \<and> cap (put b v' s) b = bk v
    \<and> same_objs (- {b}) s (put b v' s)"
proof -
  have v: "obj_ok v" by (rule mp_okD(2) [OF assms(1,3)])
  then have l: "wds v < length (bx v)" using assms(4) by (simp add: obj_ok_def)
  then have w: "words v' = words v @ [a]" by (simp add: v'_def words_def take_Suc_conv_app_nth)
  have "obj_ok v'" using v assms(4) by (simp add: obj_ok_def v'_def)
  then show ?thesis
    using mp_ok_put [OF assms(1,2)] w normal_snoc [OF assms(5), of "words v"] by (simp add: num_def cap_def v'_def)
qed

text \<open>The loop and the store of its words; what remains is the carry.\<close>

lemma multadd_step:
  assumes "mp_ok calloc L p5 s" "b \<in> L" "bigs s b = Some v" "normal (words v)" "0 < unat m" "unat m < 65536" "unat a < 65536"
  shows "\<exists>c ws v'. load_words (max 1 (wds v)) v = Some (words v) \<and> multadd_loop m a (words v) = (c, ws) \<and> store_words ws v = Some v'
    \<and> mp_ok calloc L p5 (put b v' s) \<and> obj_ok v' \<and> words v' = ws \<and> bk v' = bk v \<and> wds v' = wds v \<and> maxwds v' = maxwds v
    \<and> bigval (ws @ [c]) = bigval (words v) * unat m + unat a \<and> (c = 0 \<longrightarrow> normal ws)"
proof -
  have ok: "obj_ok v" by (rule mp_okD(2) [OF assms(1,3)])
  have len: "length (words v) = wds v" by (rule words_length [OF ok])
  have w1: "1 \<le> wds v" using normal_length [OF assms(4)] len by simp
  obtain c ws where l: "multadd_loop m a (words v) = (c, ws)" by fastforce
  have val: "bigval (ws @ [c]) = bigval (words v) * unat m + unat a" "length ws = wds v"
    using multadd_loop_value [OF assms(6,7) l] len by (simp_all add: bigval_append)
  define v' where "v' = v\<lparr>bx := ws @ drop (wds v) (bx v)\<rparr>"
  have v': "obj_ok v'" "words v' = ws" "bk v' = bk v" "wds v' = wds v" "maxwds v' = maxwds v"
    using ok val(2) by (simp_all add: v'_def words_def obj_ok_def)
  have st: "load_words (max 1 (wds v)) v = Some (words v)" "store_words ws v = Some v'"
    using ok w1 val(2) by (simp_all add: load_words_def store_words_def words_def v'_def obj_ok_def max_def)
  have "normal ws" if "c = 0"
  proof (rule normal_mono [OF assms(4)])
    have "bigval (words v) * 1 \<le> bigval (words v) * unat m" using assms(5) by (intro mult_le_mono2) simp
    moreover have "bigval ws = bigval (words v) * unat m + unat a" using val(1) that by (simp add: bigval_append)
    ultimately show "bigval (words v) \<le> bigval ws" by linarith
  qed (use val(2) len in simp)
  then show ?thesis using st l val(1) v' mp_ok_put(1) [OF assms(1,2) v'(1)] by blast
qed

lemma multadd_in_place:
  assumes "mp_ok calloc L p5 s" "b \<in> L" "num s b n" "0 < unat m" "unat m < 65536" "unat a < 65536"
    "n * unat m + unat a < 2 ^ (32 * 2 ^ cap s b)"
  shows "\<exists>s'. multadd calloc b m a s = Some (b, s') \<and> mp_ok calloc L p5 s' \<and> num s' b (n * unat m + unat a)
    \<and> cap s' b = cap s b \<and> same_objs (- {b}) s s' \<and> callocs s' = callocs s"
proof -
  obtain v where v: "bigs s b = Some v" "normal (words v)" "bigval (words v) = n" using assms(3) by (auto simp: num_def)
  have ok: "obj_ok v" by (rule mp_okD(2) [OF assms(1) v(1)])
  have cap: "cap s b = bk v" by (simp add: cap_def v(1))
  obtain c ws v' where step: "load_words (max 1 (wds v)) v = Some (words v)" "multadd_loop m a (words v) = (c, ws)" "store_words ws v = Some v'"
    "mp_ok calloc L p5 (put b v' s)" "obj_ok v'" "words v' = ws" "bk v' = bk v" "wds v' = wds v" "maxwds v' = maxwds v"
    "bigval (ws @ [c]) = n * unat m + unat a" "c = 0 \<Longrightarrow> normal ws"
    using multadd_step [OF assms(1,2) v(1,2) assms(4-6)] v(3) by blast
  show ?thesis
  proof (cases "c = 0")
    case True
    then have "multadd calloc b m a s = Some (b, put b v' s)" using v(1) step by (simp add: multadd_def)
    then show ?thesis using True step v(1) by (simp add: num_def cap_def same_objs_def bigval_append)
  next
    case False
    have "2 ^ (32 * wds v) * 1 \<le> 2 ^ (32 * wds v) * unat c" using False by (intro mult_le_mono2) (simp add: Suc_leI unat_gt_0)
    also have "\<dots> \<le> bigval (ws @ [c])" using step(5,6,8) words_length [of v'] by (simp add: bigval_append)
    also have "\<dots> < 2 ^ (32 * 2 ^ bk v)" using step(10) assms(7) cap by simp
    finally have "(2 :: nat) ^ (32 * wds v) < 2 ^ (32 * maxwds v)" using ok by (simp add: obj_ok_def)
    then have room: "wds v' < maxwds v'" using step(8,9) by simp
    then have "wds v < length (bx v')" using step(5,8) by (simp add: obj_ok_def)
    then have "multadd calloc b m a s = Some (b, put b (v'\<lparr>bx := (bx v')[wds v' := c], wds := wds v' + 1\<rparr>) (put b v' s))"
      using v(1) step(1-3,8,9) room False by (simp add: multadd_def Let_def)
    then show ?thesis
      using put_last_word [OF step(4) assms(2) _ room False] step(6,7,10) v(1) by (simp add: cap_def same_objs_def)
  qed
qed

lemma multadd_grown:
  assumes "mp_ok calloc L p5 s" "fresh_calloc calloc" "avail calloc 2 s" "b \<in> L" "num s b n" "0 < unat m" "unat m < 65536" "unat a < 65536"
    "2 ^ (32 * 2 ^ cap s b) \<le> n * unat m + unat a" "cap s b < Kmax"
  shows "yields calloc (L - {b}) p5 s (n * unat m + unat a) (cap s b + 1) 2 (multadd calloc b m a s)"
proof -
  obtain v where v: "bigs s b = Some v" "normal (words v)" "bigval (words v) = n" using assms(5) by (auto simp: num_def)
  have ok: "obj_ok v" by (rule mp_okD(2) [OF assms(1) v(1)])
  have cap: "cap s b = bk v" by (simp add: cap_def v(1))
  obtain c ws v' where step: "load_words (max 1 (wds v)) v = Some (words v)" "multadd_loop m a (words v) = (c, ws)" "store_words ws v = Some v'"
    "mp_ok calloc L p5 (put b v' s)" "obj_ok v'" "words v' = ws" "bk v' = bk v" "wds v' = wds v" "maxwds v' = maxwds v"
    "bigval (ws @ [c]) = n * unat m + unat a" "c = 0 \<Longrightarrow> normal ws"
    using multadd_step [OF assms(1,4) v(1,2) assms(6-8)] v(3) by blast
  have len: "length ws = wds v" using step(5,6,8) words_length [of v'] by simp
  have c: "c \<noteq> 0"
  proof
    assume "c = 0"
    then have "2 ^ (32 * maxwds v) \<le> bigval ws" using assms(9) step(10) cap ok by (simp add: bigval_append obj_ok_def)
    also have "\<dots> < 2 ^ (32 * wds v)" using bigval_less [of ws] len by simp
    finally have "maxwds v < wds v" by simp
    then show False using ok by (simp add: obj_ok_def)
  qed
  have full: "wds v = maxwds v"
  proof (rule ccontr)
    assume "wds v \<noteq> maxwds v"
    then have "wds v + 1 \<le> maxwds v" using ok by (simp add: obj_ok_def)
    then have "(2 :: nat) ^ (32 * (wds v + 1)) \<le> 2 ^ (32 * maxwds v)" by (intro power_increasing) auto
    also have "\<dots> \<le> bigval (ws @ [c])" using assms(9) step(10) cap ok by (simp add: obj_ok_def)
    also have "\<dots> < 2 ^ (32 * (wds v + 1))" using bigval_less [of "ws @ [c]"] len by simp
    finally show False by simp
  qed
  have av: "avail calloc 2 (put b v' s)" using assms(3) by (simp add: avail_def)
  obtain b1 s2 v1 where g: "do { (b1, s) \<leftarrow> Balloc calloc (bk v' + 1) (put b v' s); s \<leftarrow> Bcopy b1 b s; s \<leftarrow> Bfree b s; Some (b1, s) } = Some (b1, s2)"
    "b1 \<notin> L" "b1 \<notin> set p5" "mp_ok calloc (insert b1 (L - {b})) p5 s2" "same_objs (L - {b} \<union> set p5) (put b v' s) s2" "callocs s2 \<le> callocs s + 2"
    "bigs s2 b1 = Some v1" "obj_ok v1" "bk v1 = bk v' + 1" "wds v1 = wds v'" "words v1 = words v'"
    using multadd_grow [OF step(4) assms(2) av assms(4), of v'] step(7-9) full assms(10) cap by auto
  have room: "wds v1 < maxwds v1" using full g(8-10) step(5,7-9) ok by (simp add: obj_ok_def)
  then have "wds v < length (bx v1)" using g(8,10) step(8) by (simp add: obj_ok_def)
  then have res: "multadd calloc b m a s = Some (b1, put b1 (v1\<lparr>bx := (bx v1)[wds v1 := c], wds := wds v1 + 1\<rparr>) s2)"
    using v(1) step(1-3,7-9) c full g(1,7,10) by (simp add: multadd_def Let_def)
  have "b \<notin> set p5" using mp_okD(5) [OF assms(1)] assms(4) by auto
  then have "same_objs (L - {b} \<union> set p5) s s2" using g(5) by (auto simp: same_objs_def)
  then show ?thesis
    using put_last_word [OF g(4) _ g(7) room c] res g cap step(6,7,10) by (auto simp: yields_def same_objs_def)
qed

section \<open>Decimal digits\<close>

lemma capacity_loop_ok:
  assumes "0 < y"
  shows "\<exists>j. capacity_loop x y k = Some (k + j) \<and> x \<le> y * 2 ^ j \<and> (j = 0 \<or> y * 2 ^ (j - 1) < x)"
  using assms
proof (induction "x - y" arbitrary: y k rule: less_induct)
  case less
  show ?case
  proof (cases "y < x")
    case True
    have "x - 2 * y < x - y" using True less.prems by simp
    then obtain j where "capacity_loop x (2 * y) (k + 1) = Some (k + 1 + j)" "x \<le> 2 * y * 2 ^ j" "j = 0 \<or> 2 * y * 2 ^ (j - 1) < x"
      using less.hyps [of "2 * y" "k + 1"] less.prems by auto
    then show ?thesis using True by (intro exI [of _ "j + 1"]) (cases j; auto simp: capacity_loop.simps [of x y])
  next
    case False
    then show ?thesis by (intro exI [of _ 0]) (simp add: capacity_loop.simps)
  qed
qed

definition add_char :: "nat \<Rightarrow> u8 \<Rightarrow> nat" where
  "add_char v c = v * 10 + (unat c - 48)"

definition is_dec :: "u8 \<Rightarrow> bool" where
  "is_dec c \<longleftrightarrow> 48 \<le> c \<and> c \<le> 57"

lemma dec_digit: "is_dec c \<Longrightarrow> unat (ucast c - 48 :: u32) = unat c - 48 \<and> unat c - 48 < 10"
proof -
  assume "is_dec c"
  then have c: "48 \<le> unat c" "unat c \<le> 57" by (auto simp: is_dec_def word_le_nat_alt)
  have u: "unat (ucast c :: u32) = unat c" using unsigned_less [of c, where 'a = nat] by (simp add: unsigned_ucast_eq take_bit_nat_eq_self)
  then have "(48 :: u32) \<le> ucast c" using c by (simp add: word_le_nat_alt)
  then have "unat (ucast c - 48 :: u32) = unat (ucast c :: u32) - unat (48 :: u32)" by (rule unat_sub)
  then show ?thesis using c u by simp
qed

lemma foldl_add_char_le: "v \<le> foldl add_char v cs"
proof (induction cs arbitrary: v)
  case (Cons c cs)
  have "v \<le> add_char v c" by (simp add: add_char_def)
  also have "\<dots> \<le> foldl add_char (add_char v c) cs" by (rule Cons.IH)
  finally show ?case by simp
qed simp

lemma foldl_add_char_less: "\<forall>c\<in>set cs. is_dec c \<Longrightarrow> foldl add_char v cs < (v + 1) * 10 ^ length cs"
proof (induction cs arbitrary: v)
  case (Cons c cs)
  have "add_char v c + 1 \<le> (v + 1) * 10" using Cons.prems dec_digit [of c] by (simp add: add_char_def)
  then have "(add_char v c + 1) * 10 ^ length cs \<le> (v + 1) * 10 * 10 ^ length cs" by (rule mult_le_mono1)
  then show ?case using Cons.IH [of "add_char v c"] Cons.prems by (simp add: algebra_simps)
qed simp

lemma digit_loop_ok:
  assumes "mp_ok calloc L p5 s" "b \<in> L" "num s b n" "\<forall>c\<in>set cs. is_dec c" "foldl add_char n cs < 2 ^ (32 * 2 ^ cap s b)"
  shows "\<exists>s'. digit_loop calloc cs b s = Some (b, s') \<and> mp_ok calloc L p5 s' \<and> num s' b (foldl add_char n cs)
    \<and> cap s' b = cap s b \<and> same_objs (- {b}) s s' \<and> callocs s' = callocs s"
  using assms
proof (induction cs arbitrary: n s)
  case (Cons c cs)
  have c: "unat (ucast c - 48 :: u32) = unat c - 48" "unat c - 48 < 10" using dec_digit [of c] Cons.prems(4) by auto
  have "add_char n c < 2 ^ (32 * 2 ^ cap s b)"
    by (rule le_less_trans [OF foldl_add_char_le [of "add_char n c" cs]]) (use Cons.prems(5) in simp)
  then have f: "n * unat (10 :: u32) + unat (ucast c - 48 :: u32) < 2 ^ (32 * 2 ^ cap s b)"
    using c(1) by (simp add: add_char_def)
  obtain s1 where s1: "multadd calloc b 10 (ucast c - 48) s = Some (b, s1)" "mp_ok calloc L p5 s1" "num s1 b (add_char n c)"
    "cap s1 b = cap s b" "same_objs (- {b}) s s1" "callocs s1 = callocs s"
    using multadd_in_place [OF Cons.prems(1-3) _ _ _ f] c by (auto simp: add_char_def)
  obtain s' where "digit_loop calloc cs b s1 = Some (b, s')" "mp_ok calloc L p5 s'" "num s' b (foldl add_char (add_char n c) cs)"
    "cap s' b = cap s1 b" "same_objs (- {b}) s1 s'" "callocs s' = callocs s1"
    using Cons.IH [OF s1(2) Cons.prems(2) s1(3)] Cons.prems(4,5) s1(4) by auto
  then show ?case using s1 by (auto simp: same_objs_def)
qed simp

end
