(* ===== verification/LibcMprecOps.thy ===== *)
theory LibcMprecOps
  imports LibcMprecHeap
begin

text \<open>
  The properties of the operations of \<^verbatim>\<open>mprec.c\<close>: conversion of digits, products, powers of five,
  shifts, comparison, differences, and the conversion of a double.
\<close>

section \<open>Decimal digits\<close>

lemma ten_power_capacity: "(nd + 8) div 9 \<le> K \<Longrightarrow> (10 :: nat) ^ nd \<le> 2 ^ (32 * K)"
proof -
  assume k: "(nd + 8) div 9 \<le> K"
  have "nd \<le> 9 * ((nd + 8) div 9)" by presburger
  then have "nd \<le> 9 * K" using k by linarith
  then have "(10 :: nat) ^ nd \<le> 10 ^ (9 * K)" by (intro power_increasing) auto
  also have "\<dots> = (10 ^ 9) ^ K" by (simp only: power_mult)
  also have "\<dots> \<le> (2 ^ 32) ^ K" by (intro power_mono) auto
  finally show ?thesis by (simp only: power_mult)
qed

text \<open>The digits behind the first nine, before and after the decimal point.\<close>

definition s2b_chars :: "bytemem \<Rightarrow> u32 \<Rightarrow> nat \<Rightarrow> nat \<Rightarrow> u8 list" where
  "s2b_chars mem str nd0 nd =
     (if 9 < nd0 then chars mem (str + 9) (nd0 - 9) @ chars mem (str + of_nat nd0 + 1) (nd - nd0)
      else chars mem (str + 10) (nd - 9))"

lemma digit_loop_append:
  "digit_loop calloc (xs @ ys) b s = do { (b, s) \<leftarrow> digit_loop calloc xs b s; digit_loop calloc ys b s }"
  by (induction xs arbitrary: b s) (auto split: Option.bind_splits)

lemma s2b_eq:
  "s2b calloc mem str nd0 nd y9 s = do {
     k \<leftarrow> capacity_loop ((nd + 8) div 9) 1 0;
     (b, s) \<leftarrow> Balloc calloc k s;
     v \<leftarrow> bigs s b;
     v \<leftarrow> store_words [y9] v;
     digit_loop calloc (s2b_chars mem str nd0 nd) b (put b (v\<lparr>wds := 1\<rparr>) s) }"
  by (auto simp: s2b_def s2b_chars_def digit_loop_append Let_def split: Option.bind_splits)

lemma same_objs_put:
  assumes "same_objs X s s1" "same_objs (- {p}) (put p v s1) s2" "p \<notin> X"
  shows "same_objs X s s2"
proof -
  have "bigs s2 q = bigs s q" if q: "q \<in> X" for q
  proof -
    have "q \<noteq> p" using q assms(3) by auto
    then show ?thesis using assms(1,2) q by (auto simp: same_objs_def)
  qed
  then show ?thesis using assms(1,2) by (simp add: same_objs_def)
qed

lemma s2b_value:
  assumes "mp_ok calloc L p5 s" "fresh_calloc calloc" "avail calloc 2 s" "9 \<le> nd" "nd0 \<le> nd" "nd < 294912"
    "unat y9 < 10 ^ 9" "\<forall>c\<in>set (s2b_chars mem str nd0 nd). is_dec c"
  shows "\<exists>k. yields calloc L p5 s (foldl add_char (unat y9) (s2b_chars mem str nd0 nd)) k 2 (s2b calloc mem str nd0 nd y9 s)"
proof -
  let ?x = "(nd + 8) div 9" and ?cs = "s2b_chars mem str nd0 nd"
  obtain k where k: "capacity_loop ?x 1 0 = Some k" "?x \<le> 2 ^ k" "k = 0 \<or> 2 ^ (k - 1) < ?x"
    using capacity_loop_ok [of 1 ?x 0] by auto
  have kmax: "k \<le> Kmax"
  proof (rule ccontr)
    assume "\<not> k \<le> Kmax"
    then have "(2 :: nat) ^ 15 \<le> 2 ^ (k - 1)" by (intro power_increasing) auto
    moreover have "?x \<le> 32768" using assms(6) by linarith
    ultimately show False using k(3) \<open>\<not> k \<le> Kmax\<close> by auto
  qed
  obtain p s1 where a: "Balloc calloc k s = Some (p, s1)" "allocated calloc L p5 k s p s1"
    using Balloc_ok [OF assms(1,2) kmax assms(3)] by blast
  note al = allocatedD [OF a(2)]
  obtain b where b: "bigs s1 p = Some b" "bk b = k" "obj_ok b" using al(6) by blast
  have m: "1 \<le> length (bx b)" using b by (simp add: obj_ok_def)
  define v where "v = b\<lparr>bx := [y9] @ drop 1 (bx b), wds := 1\<rparr>"
  have v: "obj_ok v" "words v = [y9]" using b m by (simp_all add: v_def obj_ok_def words_def)
  have ok: "mp_ok calloc (insert p L) p5 (put p v s1)" by (rule mp_ok_put(1) [OF al(3) _ v(1)]) simp
  have n: "num (put p v s1) p (unat y9)" using v by (simp add: num_def normal_def)
  have cap: "cap (put p v s1) p = k" using b by (simp add: cap_def v_def)
  have len: "length ?cs = nd - 9" using assms(5) by (auto simp: s2b_chars_def chars_def)
  have "foldl add_char (unat y9) ?cs < (unat y9 + 1) * 10 ^ (nd - 9)" using foldl_add_char_less [OF assms(8)] len by simp
  also have "\<dots> \<le> 10 ^ 9 * 10 ^ (nd - 9)" using assms(7) by (intro mult_le_mono1) simp
  also have "\<dots> = 10 ^ nd" using assms(4) by (metis le_add_diff_inverse power_add)
  also have "\<dots> \<le> 2 ^ (32 * 2 ^ k)" by (rule ten_power_capacity [OF k(2)])
  finally have f: "foldl add_char (unat y9) ?cs < 2 ^ (32 * 2 ^ cap (put p v s1) p)" unfolding cap .
  obtain s2 where s2: "digit_loop calloc ?cs p (put p v s1) = Some (p, s2)" "mp_ok calloc (insert p L) p5 s2"
    "num s2 p (foldl add_char (unat y9) ?cs)" "cap s2 p = k" "same_objs (- {p}) (put p v s1) s2" "callocs s2 = callocs s1"
    using digit_loop_ok [OF ok _ n assms(8) f] cap by auto
  have "s2b calloc mem str nd0 nd y9 s = Some (p, s2)"
    using k(1) a(1) b(1) m s2(1) by (simp add: s2b_eq store_words_def v_def)
  moreover have "same_objs (L \<union> set p5) s s2" by (rule same_objs_put [OF al(4) s2(5)]) (use al(1,2) in simp)
  ultimately show ?thesis using al(1,2,5) s2 by (auto simp: yields_def)
qed

section \<open>Products\<close>

lemma used_normal: "bigval ws \<noteq> 0 \<Longrightarrow> normal (take (used ws) ws)"
proof -
  assume "bigval ws \<noteq> 0"
  then have u: "used ws \<noteq> 0" using used_0 [of ws] by simp
  have "last (take (used ws) ws) = ws ! (used ws - 1)" using u used_le [of ws] by (subst last_conv_nth) auto
  then show ?thesis using used_last [OF u] u used_le [of ws] by (auto simp: normal_def)
qed

lemma multiply_ordered:
  assumes "mp_ok calloc L p5 s" "fresh_calloc calloc" "avail calloc 2 s" "a \<in> L \<union> set p5" "b \<in> L \<union> set p5"
    "bigs s a = Some va" "bigs s b = Some vb" "normal (words va)" "normal (words vb)" "bigval (words va) * bigval (words vb) \<noteq> 0"
    "bk va < Kmax" "wds vb \<le> wds va"
  defines "wc \<equiv> wds va + wds vb"
  shows "yields calloc L p5 s (bigval (words va) * bigval (words vb)) (bk va + 1) 2 (do {
     (c, s) \<leftarrow> Balloc calloc (if wc > maxwds va then bk va + 1 else bk va) s;
     v \<leftarrow> bigs s c;
     v \<leftarrow> store_words (replicate wc 0) v;
     va' \<leftarrow> bigs s a;
     vb' \<leftarrow> bigs s b;
     xs \<leftarrow> load_words (wds va) va';
     ys \<leftarrow> load_words (wds vb) vb';
     let ws = mult_rows True xs ys (replicate wc 0);
     v \<leftarrow> store_words ws v;
     Some (c, put c (v\<lparr>wds := used ws\<rparr>) s) })"
proof -
  have ok: "obj_ok va" "obj_ok vb" using mp_okD(2) [OF assms(1)] assms(6,7) by blast+
  define k where "k = (if wc > maxwds va then bk va + 1 else bk va)"
  have wc: "wc \<le> 2 ^ k" using ok assms(12) by (auto simp: k_def wc_def obj_ok_def)
  have "k \<le> Kmax" using assms(11) by (simp add: k_def)
  then obtain c s1 where al0: "Balloc calloc k s = Some (c, s1)" "allocated calloc L p5 k s c s1"
    using Balloc_ok [OF assms(1,2) _ assms(3)] by blast
  note al = allocatedD [OF al0(2)]
  obtain v where v: "bigs s1 c = Some v" "bk v = k" "obj_ok v" using al(6) by blast
  have ab: "bigs s1 a = Some va" "bigs s1 b = Some vb" using al(4) assms(4-7) by (simp_all add: same_objs_def)
  have len: "length (words va) = wds va" "length (words vb) = wds vb" using ok words_length by auto
  have ne: "words va \<noteq> []" using assms(8) by (simp add: normal_def)
  define ws where "ws = mult_rows True (words va) (words vb) (replicate wc 0)"
  have ws: "bigval ws = bigval (words va) * bigval (words vb)" "length ws = wc"
    using mult_rows_value [OF ne, of "replicate wc 0" "words vb"] len by (simp_all add: ws_def wc_def)
  have room: "wc \<le> length (bx v)" using v wc by (simp add: obj_ok_def)
  define v' where "v' = v\<lparr>bx := ws @ drop wc (bx v), wds := used ws\<rparr>"
  have w: "words v' = take (used ws) ws" using used_le [of ws] by (simp add: words_def v'_def)
  have v': "obj_ok v'" "bk v' = k" using v room ws(2) used_le [of ws] by (simp_all add: v'_def obj_ok_def)
  have "yields calloc L p5 s (bigval (words v')) k 2 (Some (c, put c v' s1))"
    by (rule fill_yields [OF al0(2) v'(1) _ v'(2)]) (use used_normal [of ws] ws(1) assms(10) w in simp)
  then have y: "yields calloc L p5 s (bigval (words va) * bigval (words vb)) (bk va + 1) 2 (Some (c, put c v' s1))"
    by (auto simp: yields_def w bigval_used ws(1) k_def split: if_splits)
  have ld: "load_words (wds va) va = Some (words va)" "load_words (wds vb) vb = Some (words vb)"
    using ok by (simp_all add: load_words_def obj_ok_def words_def)
  have z: "store_words (replicate wc 0) v = Some (v\<lparr>bx := replicate wc 0 @ drop wc (bx v)\<rparr>)" using room by (simp add: store_words_def)
  have st: "store_words ws (v\<lparr>bx := replicate wc 0 @ drop wc (bx v)\<rparr>) = Some (v\<lparr>bx := ws @ drop wc (bx v)\<rparr>)"
    using room ws(2) by (simp add: store_words_def)
  show ?thesis using y al0(1) v(1) ab ld z st by (simp add: Let_def v'_def flip: k_def ws_def)
qed

lemma multiply_ok:
  assumes "mp_ok calloc L p5 s" "fresh_calloc calloc" "avail calloc 2 s" "a \<in> L \<union> set p5" "b \<in> L \<union> set p5"
    "num s a x" "num s b y" "0 < x" "0 < y" "cap s a < Kmax" "cap s b < Kmax"
  shows "yields calloc L p5 s (x * y) (max (cap s a) (cap s b) + 1) 2 (multiply True calloc a b s)"
proof -
  obtain va vb where v: "bigs s a = Some va" "normal (words va)" "bigval (words va) = x" "bigs s b = Some vb" "normal (words vb)" "bigval (words vb) = y"
    using assms(6,7) by (auto simp: num_def)
  have cap: "cap s a = bk va" "cap s b = bk vb" by (simp_all add: cap_def v)
  have mono: "yields calloc L p5 s n (max (bk va) (bk vb) + 1) 2 res" if "yields calloc L p5 s n k 2 res" "k \<le> max (bk va) (bk vb) + 1" for n k res
    using that by (auto simp: yields_def intro: le_trans)
  show ?thesis
  proof (cases "wds va < wds vb")
    case True
    have "yields calloc L p5 s (y * x) (bk vb + 1) 2 (multiply True calloc a b s)"
      using multiply_ordered [OF assms(1-3,5,4) v(4,1,5,2)] True assms(8,9,11) cap v by (simp add: multiply_def Let_def)
    then show ?thesis using mono [of "y * x" "bk vb + 1"] by (simp add: cap mult.commute)
  next
    case False
    have "yields calloc L p5 s (x * y) (bk va + 1) 2 (multiply True calloc a b s)"
      using multiply_ordered [OF assms(1-5) v(1,4,2,5)] False assms(8-10) cap v by (simp add: multiply_def Let_def)
    then show ?thesis using mono [of "x * y" "bk va + 1"] by (simp add: cap)
  qed
qed


section \<open>Powers of five\<close>

lemma bchain_nth:
  assumes "bchain h p qs" "i < length qs" "h 0 = None"
  shows "\<exists>b. h (qs ! i) = Some b \<and> bnext b = (if Suc i < length qs then qs ! Suc i else 0)"
  using assms(1,2)
proof (induction qs arbitrary: p i)
  case (Cons q qs)
  then obtain b where b: "h q = Some b" "bchain h (bnext b) qs" by auto
  show ?case
  proof (cases i)
    case 0
    then show ?thesis using b by (cases qs) auto
  next
    case (Suc j)
    then show ?thesis using Cons.IH [OF b(2), of j] Cons.prems(2) by auto
  qed
qed simp

lemma bchain_snoc:
  assumes "bchain h p qs" "qs \<noteq> []" "distinct qs" "c \<notin> set qs" "h (last qs) = Some v" "h c = Some w"
  shows "bchain (h(last qs \<mapsto> v\<lparr>bnext := c\<rparr>, c \<mapsto> w\<lparr>bnext := 0\<rparr>)) p (qs @ [c])"
  using assms
proof (induction qs arbitrary: p)
  case (Cons q qs)
  show ?case
  proof (cases "qs = []")
    case True
    then show ?thesis using Cons.prems by simp
  next
    case False
    then have "q \<noteq> last qs" "q \<noteq> c" using Cons.prems(3,4) by auto
    then show ?thesis using Cons.IH [of "bnext (the (h q))"] Cons.prems False by auto
  qed
qed simp

text \<open>The \<open>i\<close>th number of the list is \<open>625\<^bsup>2^i\<^esup>\<close>.\<close>

definition powers :: "mp \<Rightarrow> u32 list \<Rightarrow> bool" where
  "powers s p5 \<longleftrightarrow> (\<forall>i<length p5. num s (p5 ! i) (625 ^ 2 ^ i) \<and> cap s (p5 ! i) \<le> i + 1)"

lemma powers_same: "powers s p5 \<Longrightarrow> (\<And>q. q \<in> set p5 \<Longrightarrow> bigs s' q = bigs s q) \<Longrightarrow> powers s' p5"
  by (simp add: powers_def num_def cap_def)

lemma num_next: "num (put q (v\<lparr>bnext := r\<rparr>) s) p n \<longleftrightarrow> num s p n" "cap (put q (v\<lparr>bnext := r\<rparr>) s) p = cap s p" if "bigs s q = Some v"
  using that by (auto simp: num_def cap_def words_def)

text \<open>Appending a power to the list.\<close>

lemma mp_ok_snoc:
  assumes "mp_ok calloc (insert c L) p5 s" "c \<notin> L" "p5 \<noteq> []" "bigs s (last p5) = Some v" "bigs s c = Some w"
  shows "mp_ok calloc L (p5 @ [c]) (put c (w\<lparr>bnext := 0\<rparr>) (put (last p5) (v\<lparr>bnext := c\<rparr>) s))"
proof -
  let ?q = "last p5" and ?v = "v\<lparr>bnext := c\<rparr>" and ?w = "w\<lparr>bnext := 0\<rparr>"
  let ?h = "(bigs s)(?q \<mapsto> ?v, c \<mapsto> ?w)"
  have c: "c \<notin> set p5" "set p5 \<inter> L = {}" using mp_okD(5) [OF assms(1)] by auto
  have q: "?q \<in> set p5" using assms(3) by simp
  have nz: "c \<noteq> 0" "?q \<noteq> 0" using mp_okD(1) [OF assms(1)] assms(4,5) by auto
  have d: "distinct p5" "bchain (bigs s) (p5s s) p5" using assms(1) by (simp_all add: mp_ok_def)
  have o: "obj_ok ?v" "obj_ok ?w"
    using mp_okD(2) [OF assms(1) assms(4)] mp_okD(2) [OF assms(1) assms(5)] by (simp_all add: obj_ok_def)
  have chain: "bchain ?h (p5s s) (p5 @ [c])" by (rule bchain_snoc [OF d(2) assms(3) d(1) c(1) assms(4,5)])
  have dom: "dom ?h = dom (bigs s)" using assms(4,5) by auto
  have f: "\<exists>fl. free_ok (L \<union> set (p5 @ [c])) ?h F fl" if F: "freelist s = Some F" for F
  proof -
    obtain fl where fl: "free_ok (insert c L \<union> set p5) (bigs s) F fl" using assms(1) F unfolding mp_ok_def by blast
    have "free_ok (insert ?q (insert c L \<union> set p5)) ((bigs s)(?q \<mapsto> ?v)) F fl" by (rule free_ok_update [OF fl]) (use q in auto)
    then have "free_ok (insert c (insert ?q (insert c L \<union> set p5))) ?h F fl" by (rule free_ok_update) simp
    then have "free_ok (L \<union> set (p5 @ [c])) ?h F fl" by (rule free_ok_less) (use q in auto)
    then show ?thesis by blast
  qed
  have bigs: "bigs (put c ?w (put ?q ?v s)) = ?h" by (simp add: put_def)
  have "mp_ok calloc (insert c L) p5 s \<Longrightarrow> (\<forall>p b. ?h p = Some b \<longrightarrow> obj_ok b)" using o by (auto simp: mp_ok_def)
  then show ?thesis
    using assms(1,2) c nz d(1) chain dom f unfolding mp_ok_def bigs by (auto simp: put_simps(2-4))
qed

lemma pow5_next:
  assumes "mp_ok calloc L p5 s" "fresh_calloc calloc" "avail calloc 2 s" "powers s p5" "i < length p5" "i + 1 < Kmax"
  shows "\<exists>p5' s'. do {
       v \<leftarrow> bigs s (p5 ! i);
       if bnext v = 0 then do {
            (p51, s) \<leftarrow> multiply True calloc (p5 ! i) (p5 ! i) s;
            v \<leftarrow> bigs s (p5 ! i);
            let s = put (p5 ! i) (v\<lparr>bnext := p51\<rparr>) s;
            v1 \<leftarrow> bigs s p51;
            Some (p51, put p51 (v1\<lparr>bnext := 0\<rparr>) s) }
       else Some (bnext v, s) } = Some (p5' ! (i + 1), s')
    \<and> mp_ok calloc L p5' s' \<and> powers s' p5' \<and> i + 1 < length p5' \<and> (\<forall>q\<in>L. bigs s' q = bigs s q) \<and> callocs s' \<le> callocs s + 2 \<and> p5s s' = p5s s"
proof -
  have z: "bigs s 0 = None" and chain: "bchain (bigs s) (p5s s) p5" using assms(1) by (simp_all add: mp_ok_def)
  obtain v where v: "bigs s (p5 ! i) = Some v" "bnext v = (if Suc i < length p5 then p5 ! Suc i else 0)"
    using bchain_nth [OF chain assms(5) z] by blast
  show ?thesis
  proof (cases "Suc i < length p5")
    case True
    then have "p5 ! Suc i \<noteq> 0" using mp_okD(7) [OF assms(1)] nth_mem [OF True] by metis
    then show ?thesis using v True assms(1,4) by (intro exI [of _ p5] exI [of _ s]) simp
  next
    case False
    then have i: "Suc i = length p5" using assms(5) by simp
    then have last: "last p5 = p5 ! i" "p5 \<noteq> []" by (cases p5; simp add: last_conv_nth)+
    have pi: "p5 ! i \<in> set p5" using assms(5) by simp
    have ni: "num s (p5 ! i) (625 ^ 2 ^ i)" "cap s (p5 ! i) \<le> i + 1" using assms(4,5) by (auto simp: powers_def)
    obtain c s1 where m: "multiply True calloc (p5 ! i) (p5 ! i) s = Some (c, s1)" "c \<notin> L" "c \<notin> set p5" "mp_ok calloc (insert c L) p5 s1"
      "num s1 c (625 ^ 2 ^ i * 625 ^ 2 ^ i)" "cap s1 c \<le> cap s (p5 ! i) + 1" "same_objs (L \<union> set p5) s s1" "callocs s1 \<le> callocs s + 2"
      using multiply_ok [OF assms(1-3) _ _ ni(1) ni(1)] pi ni(2) assms(6) by (auto simp: yields_def)
    have v1: "bigs s1 (p5 ! i) = Some v" using m(7) v(1) pi by (simp add: same_objs_def)
    obtain w where w: "bigs s1 c = Some w" using m(5) by (auto simp: num_def)
    let ?s = "put c (w\<lparr>bnext := 0\<rparr>) (put (p5 ! i) (v\<lparr>bnext := c\<rparr>) s1)"
    have ok: "mp_ok calloc L (p5 @ [c]) ?s" using mp_ok_snoc [OF m(4,2) last(2) _ w] v1 last(1) by simp
    have cn: "c \<noteq> p5 ! i" using m(3) pi by auto
    have same: "num ?s p n \<longleftrightarrow> num s1 p n" "cap ?s p = cap s1 p" for p n
      using num_next [of "put (p5 ! i) (v\<lparr>bnext := c\<rparr>) s1" c w] num_next [OF v1] w cn by auto
    have "powers s1 p5" using powers_same [OF assms(4)] m(7) by (simp add: same_objs_def)
    moreover have "625 ^ 2 ^ i * 625 ^ 2 ^ i = (625 :: nat) ^ 2 ^ length p5" unfolding i [symmetric] by (simp add: mult_2 flip: power_add)
    moreover have "cap s1 c \<le> length p5 + 1" using m(6) ni(2) i by simp
    ultimately have pw: "powers ?s (p5 @ [c])" using m(5) unfolding powers_def same by (auto simp: nth_append less_Suc_eq)
    have "\<forall>q\<in>L. bigs ?s q = bigs s q" using m(2,7) mp_okD(5) [OF assms(1)] pi by (auto simp: same_objs_def)
    then show ?thesis
      using v i m(1,8) v1 w cn ok pw m(7) by (intro exI [of _ "p5 @ [c]"] exI [of _ ?s]) (auto simp: nth_append same_objs_def)
  qed
qed


text \<open>What the loop achieves: \<open>b\<close> is used up, the list of powers may have grown.\<close>

definition yields5 :: "(nat \<Rightarrow> u32) \<Rightarrow> u32 set \<Rightarrow> mp \<Rightarrow> nat \<Rightarrow> nat \<Rightarrow> nat \<Rightarrow> (u32 \<times> mp) option \<Rightarrow> bool" where
  "yields5 calloc L s n k c res \<longleftrightarrow> (\<exists>p s' p5. res = Some (p, s') \<and> p \<notin> L \<and> p \<notin> set p5 \<and> mp_ok calloc (insert p L) p5 s' \<and> powers s' p5
     \<and> num s' p n \<and> cap s' p \<le> k \<and> (\<forall>q\<in>L. bigs s' q = bigs s q) \<and> callocs s' \<le> callocs s + c)"

lemma yields_5:
  assumes "yields calloc L p5 s n k c res" "powers s p5"
  shows "yields5 calloc L s n k c res"
proof -
  obtain p s' where p: "res = Some (p, s')" "p \<notin> L" "p \<notin> set p5" "mp_ok calloc (insert p L) p5 s'" "num s' p n" "cap s' p \<le> k"
    "same_objs (L \<union> set p5) s s'" "callocs s' \<le> callocs s + c" using assms(1) by (auto simp: yields_def)
  have "powers s' p5" using powers_same [OF assms(2)] p(7) by (simp add: same_objs_def)
  then show ?thesis using p unfolding yields5_def same_objs_def by blast
qed

lemma yields5_step:
  assumes "yields5 calloc L s1 n k c res" "\<forall>q\<in>L. bigs s1 q = bigs s q" "callocs s1 \<le> callocs s + d" "c + d \<le> e" "k \<le> k'"
  shows "yields5 calloc L s n k' e res"
  using assms unfolding yields5_def by fastforce

lemma pow5_mul:
  assumes "mp_ok calloc L p5 s" "fresh_calloc calloc" "avail calloc 2 s" "powers s p5" "i < length p5" "b \<in> L" "num s b n" "0 < n"
    "cap s b \<le> B" "i + 1 \<le> B" "B < Kmax"
  shows "\<exists>c s'. do { (b1, s) \<leftarrow> multiply True calloc b (p5 ! i) s; s \<leftarrow> Bfree b s; Some (b1, s) } = Some (c, s') \<and> c \<notin> L - {b}
    \<and> mp_ok calloc (insert c (L - {b})) p5 s' \<and> powers s' p5 \<and> num s' c (n * 625 ^ 2 ^ i) \<and> cap s' c \<le> B + 1
    \<and> (\<forall>q\<in>L - {b}. bigs s' q = bigs s q) \<and> callocs s' \<le> callocs s + 2 \<and> p5s s' = p5s s"
proof -
  have pi: "p5 ! i \<in> set p5" "num s (p5 ! i) (625 ^ 2 ^ i)" "cap s (p5 ! i) \<le> i + 1" using assms(4,5) by (auto simp: powers_def)
  obtain c s1 where m: "multiply True calloc b (p5 ! i) s = Some (c, s1)" "c \<notin> L" "c \<notin> set p5" "mp_ok calloc (insert c L) p5 s1"
    "num s1 c (n * 625 ^ 2 ^ i)" "cap s1 c \<le> max (cap s b) (cap s (p5 ! i)) + 1" "same_objs (L \<union> set p5) s s1" "callocs s1 \<le> callocs s + 2"
    using multiply_ok [OF assms(1-3) _ _ assms(7) pi(2) assms(8)] pi assms(6,9-11) by (auto simp: yields_def)
  obtain s2 where f: "Bfree b s1 = Some s2" "mp_ok calloc (insert c L - {b}) p5 s2" "same_objs (- {b}) s1 s2" "callocs s2 = callocs s1"
    using Bfree_ok [OF m(4), of b] assms(6) by auto
  have nb: "c \<noteq> b" "b \<notin> set p5" using m(2) assms(6) mp_okD(5) [OF assms(1)] by auto
  have same: "bigs s2 q = bigs s q" if q: "q \<in> L - {b} \<union> set p5" for q
  proof -
    have "q \<noteq> b" using q nb(2) by auto
    then show ?thesis using m(7) f(3) q by (auto simp: same_objs_def)
  qed
  have "powers s2 p5" using powers_same [OF assms(4)] same by simp
  moreover have "num s2 c (n * 625 ^ 2 ^ i)" "cap s2 c = cap s1 c" using num_same [OF m(5) f(3)] cap_same [OF f(3)] nb(1) by auto
  moreover have "insert c L - {b} = insert c (L - {b})" using nb(1) by auto
  ultimately show ?thesis using m f same pi(3) assms(9,10) by (auto simp: same_objs_def)
qed

declare pow5_loop.simps [simp del]

lemma pow5_loop_ok:
  assumes "mp_ok calloc L p5 s" "fresh_calloc calloc" "avail calloc (4 * k) s" "powers s p5" "i < length p5" "b \<in> L" "num s b n" "0 < n"
    "0 < k" "k < 2 ^ t" "cap s b \<le> B" "i + 1 \<le> B" "B + t \<le> Kmax"
  shows "yields5 calloc (L - {b}) s (n * 625 ^ (2 ^ i * k)) (B + t) (4 * k) (pow5_loop True calloc k b (p5 ! i) s)"
  using assms(1,3-13)
proof (induction k arbitrary: L p5 s i b n t B rule: less_induct)
  case (less k)
  have t: "0 < t" using less.prems(8,9) by (cases t) auto
  have av: "avail calloc 2 s" using avail_step [OF less.prems(2), of s 0 2] less.prems(8) by simp
  have Bm: "B < Kmax" using less.prems(12) t by simp
  define n1 where "n1 = n * 625 ^ (2 ^ i * (k mod 2))"
  have "\<exists>c s1. (if odd k then do { (b1, s) \<leftarrow> multiply True calloc b (p5 ! i) s; s \<leftarrow> Bfree b s; Some (b1, s) } else Some (b, s)) = Some (c, s1)
    \<and> c \<notin> L - {b} \<and> mp_ok calloc (insert c (L - {b})) p5 s1 \<and> powers s1 p5 \<and> num s1 c n1 \<and> cap s1 c \<le> B + 1
    \<and> (\<forall>q\<in>L - {b}. bigs s1 q = bigs s q) \<and> callocs s1 \<le> callocs s + 2 \<and> p5s s1 = p5s s"
  proof (cases "odd k")
    case True
    then have "n1 = n * 625 ^ 2 ^ i" by (simp add: n1_def odd_iff_mod_2_eq_one)
    then show ?thesis using pow5_mul [OF less.prems(1) assms(2) av less.prems(3-7,10,11) Bm] True by simp
  next
    case False
    then have "n1 = n" by (simp add: n1_def even_iff_mod_2_eq_zero)
    then show ?thesis using less.prems(1,3,5,6,10) False by (intro exI [of _ b] exI [of _ s]) (auto simp: insert_absorb)
  qed
  then obtain c s1 where c: "(if odd k then do { (b1, s) \<leftarrow> multiply True calloc b (p5 ! i) s; s \<leftarrow> Bfree b s; Some (b1, s) } else Some (b, s)) = Some (c, s1)"
    "c \<notin> L - {b}" "mp_ok calloc (insert c (L - {b})) p5 s1" "powers s1 p5" "num s1 c n1" "cap s1 c \<le> B + 1"
    "\<forall>q\<in>L - {b}. bigs s1 q = bigs s q" "callocs s1 \<le> callocs s + 2" by blast
  have n1: "0 < n1" using less.prems(7) by (simp add: n1_def)
  show ?case
  proof (cases "k div 2 = 0")
    case True
    then have k: "k = 1" using less.prems(8) by auto
    have cp: "c \<notin> set p5" using mp_okD(5) [OF c(3)] by auto
    have "pow5_loop True calloc k b (p5 ! i) s = Some (c, s1)" using c(1) True by (subst pow5_loop.simps) simp
    then show ?thesis using c cp t k unfolding yields5_def n1_def by (intro exI [of _ c] exI [of _ s1] exI [of _ p5]) auto
  next
    case False
    have av1: "avail calloc 2 s1" by (rule avail_step [OF less.prems(2) c(8)]) (use False in linarith)
    let ?next = "do {
       v \<leftarrow> bigs s1 (p5 ! i);
       if bnext v = 0 then do {
            (p51, s) \<leftarrow> multiply True calloc (p5 ! i) (p5 ! i) s1;
            v \<leftarrow> bigs s (p5 ! i);
            let s = put (p5 ! i) (v\<lparr>bnext := p51\<rparr>) s;
            v1 \<leftarrow> bigs s p51;
            Some (p51, put p51 (v1\<lparr>bnext := 0\<rparr>) s) }
       else Some (bnext v, s1) }"
    obtain p5' s2 where x: "?next = Some (p5' ! (i + 1), s2)" "mp_ok calloc (insert c (L - {b})) p5' s2" "powers s2 p5'" "i + 1 < length p5'"
      "\<forall>q\<in>insert c (L - {b}). bigs s2 q = bigs s1 q" "callocs s2 \<le> callocs s1 + 2"
      using pow5_next [OF c(3) assms(2) av1 c(4) less.prems(4)] less.prems(11) Bm by auto
    have step: "pow5_loop True calloc k b (p5 ! i) s = pow5_loop True calloc (k div 2) c (p5' ! (i + 1)) s2"
    proof -
      obtain v where v: "bigs s1 (p5 ! i) = Some v" using x(1) by (cases "bigs s1 (p5 ! i)") auto
      note x1 = x(1) [unfolded v Option.bind.simps]
      show ?thesis by (subst pow5_loop.simps) (simp only: c(1) Option.bind.simps prod.case False if_False v x1)
    qed
    have nc: "num s2 c n1" "cap s2 c = cap s1 c" using c(5) x(5) by (simp_all add: num_def cap_def)
    have "avail calloc (4 * (k div 2)) s2" by (rule avail_step [OF less.prems(2), of _ 4]) (use x(6) c(8) False in linarith)+
    moreover have "k div 2 < 2 ^ (t - 1)" using less.prems(9) t by (cases t) auto
    ultimately have IH: "yields5 calloc (insert c (L - {b}) - {c}) s2 (n1 * 625 ^ (2 ^ (i + 1) * (k div 2))) (B + 1 + (t - 1)) (4 * (k div 2))
      (pow5_loop True calloc (k div 2) c (p5' ! (i + 1)) s2)"
      using less.IH [of "k div 2" "insert c (L - {b})" p5' s2 "i + 1" c n1 "t - 1" "B + 1"] x(2-4) nc c(6) n1 False less.prems(8,11,12) t by simp
    have "(2 :: nat) ^ i * (k mod 2) + 2 ^ (i + 1) * (k div 2) = 2 ^ i * (k mod 2 + 2 * (k div 2))"
      by (simp only: distrib_left power_add power_one_right mult.assoc)
    also have "\<dots> = 2 ^ i * k" by (simp only: mod_mult_div_eq)
    finally have val: "n1 * 625 ^ (2 ^ (i + 1) * (k div 2)) = n * 625 ^ (2 ^ i * k)" by (simp add: n1_def mult.assoc flip: power_add)
    have set: "insert c (L - {b}) - {c} = L - {b}" using c(2) by auto
    show ?thesis
      unfolding step by (rule yields5_step [OF IH [unfolded val set], where d = 4]) (use x(5,6) c(7,8) False t in \<open>auto, linarith?\<close>)
  qed
qed


lemma mp_ok_first:
  assumes "mp_ok calloc (insert c L) [] s" "c \<notin> L" "bigs s c = Some w"
  shows "mp_ok calloc L [c] (put c (w\<lparr>bnext := 0\<rparr>) (s\<lparr>p5s := c\<rparr>))"
proof -
  let ?w = "w\<lparr>bnext := 0\<rparr>"
  have p: "mp_ok calloc (insert c L) [] (put c ?w s)"
    using mp_ok_put(1) [OF assms(1), of c ?w] mp_okD(2) [OF assms(1,3)] by (simp add: obj_ok_def)
  have c: "c \<noteq> 0" using mp_okD(1) [OF assms(1)] assms(3) by auto
  then show ?thesis using p assms(2) unfolding mp_ok_def by (auto simp: put_def Un_commute)
qed

lemma multadd_yields:
  assumes "mp_ok calloc L p5 s" "fresh_calloc calloc" "avail calloc 2 s" "b \<in> L" "num s b n" "0 < unat m" "unat m < 65536" "unat a < 65536" "cap s b < Kmax"
  shows "yields calloc (L - {b}) p5 s (n * unat m + unat a) (cap s b + 1) 2 (multadd calloc b m a s)"
proof (cases "n * unat m + unat a < 2 ^ (32 * 2 ^ cap s b)")
  case True
  obtain s' where s': "multadd calloc b m a s = Some (b, s')" "mp_ok calloc L p5 s'" "num s' b (n * unat m + unat a)"
    "cap s' b = cap s b" "same_objs (- {b}) s s'" "callocs s' = callocs s"
    using multadd_in_place [OF assms(1,4-8) True] by blast
  have "b \<notin> set p5" using mp_okD(5) [OF assms(1)] assms(4) by auto
  then have "same_objs (L - {b} \<union> set p5) s s'" using s'(5) by (auto simp: same_objs_def)
  moreover have "insert b L = L" using assms(4) by auto
  ultimately show ?thesis using s' \<open>b \<notin> set p5\<close> by (simp add: yields_def)
next
  case False
  then show ?thesis using multadd_grown [OF assms(1-8) _ assms(9)] by simp
qed

lemma p05_value:
  assumes "0 < k mod 4"
  shows "unat (p05 ! (k mod 4 - 1)) = 5 ^ (k mod 4)" "unat (p05 ! (k mod 4 - 1)) < 65536"
proof -
  have "k mod 4 = 1 \<or> k mod 4 = 2 \<or> k mod 4 = 3" using assms by auto
  then show "unat (p05 ! (k mod 4 - 1)) = 5 ^ (k mod 4)" "unat (p05 ! (k mod 4 - 1)) < 65536" by (auto simp: p05_def)
qed

text \<open>The start of the list of powers.\<close>

lemma pow5_start:
  assumes "mp_ok calloc L p5 s" "fresh_calloc calloc" "avail calloc 2 s" "powers s p5"
  shows "\<exists>p5' s'. (if p5s s = 0 then do {
       (p5, s) \<leftarrow> i2b calloc 625 s;
       let s = s\<lparr>p5s := p5\<rparr>;
       v \<leftarrow> bigs s p5;
       Some (p5, put p5 (v\<lparr>bnext := 0\<rparr>) s) }
     else Some (p5s s, s)) = Some (p5' ! 0, s')
    \<and> mp_ok calloc L p5' s' \<and> powers s' p5' \<and> 0 < length p5' \<and> (\<forall>q\<in>L. bigs s' q = bigs s q) \<and> callocs s' \<le> callocs s + 2"
proof -
  have chain: "bchain (bigs s) (p5s s) p5" using assms(1) by (simp add: mp_ok_def)
  show ?thesis
  proof (cases "p5s s = 0")
    case True
    then have e: "p5 = []" using chain mp_okD(1) [OF assms(1)] by (cases p5) auto
    obtain c s1 where c: "i2b calloc 625 s = Some (c, s1)" "c \<notin> L" "mp_ok calloc (insert c L) [] s1" "num s1 c 625" "cap s1 c \<le> 1"
      "same_objs L s s1" "callocs s1 \<le> callocs s + 2"
      using i2b_ok [OF assms(1-3), of 625] e by (auto simp: yields_def)
    obtain w where w: "bigs s1 c = Some w" using c(4) by (auto simp: num_def)
    let ?s = "put c (w\<lparr>bnext := 0\<rparr>) (s1\<lparr>p5s := c\<rparr>)"
    have "powers ?s [c]" using c(4,5) w by (simp add: powers_def num_def cap_def words_def)
    moreover have "\<forall>q\<in>L. bigs ?s q = bigs s q" using c(2,6) by (auto simp: same_objs_def)
    ultimately show ?thesis
      using mp_ok_first [OF c(3,2) w] True c(1,7) w by (intro exI [of _ "[c]"] exI [of _ ?s]) simp
  next
    case False
    then have "p5 \<noteq> []" "p5 ! 0 = p5s s" using chain by (cases p5; simp)+
    then show ?thesis using False assms(1,4) by (intro exI [of _ p5] exI [of _ s]) simp
  qed
qed

lemma pow5mult_ok:
  assumes "mp_ok calloc L p5 s" "fresh_calloc calloc" "avail calloc (k + 4) s" "powers s p5" "b \<in> L" "num s b n" "0 < n"
    "k div 4 < 2 ^ t" "cap s b + 1 + t \<le> Kmax"
  shows "yields5 calloc (L - {b}) s (n * 5 ^ k) (cap s b + 1 + t) (k + 4) (pow5mult True calloc b k s)"
proof -
  define n1 where "n1 = n * 5 ^ (k mod 4)"
  have av: "avail calloc 2 s" by (rule avail_step [OF assms(3), of _ 0]) auto
  have "yields calloc (L - {b}) p5 s n1 (cap s b + 1) 2 (if k mod 4 \<noteq> 0 then multadd calloc b (p05 ! (k mod 4 - 1)) 0 s else Some (b, s))"
  proof (cases "k mod 4 = 0")
    case True
    have "b \<notin> set p5" using mp_okD(5) [OF assms(1)] assms(5) by auto
    then show ?thesis using True assms(1,5,6) by (auto simp: yields_def n1_def insert_absorb)
  next
    case False
    then have p: "unat (p05 ! (k mod 4 - 1)) = 5 ^ (k mod 4)" "unat (p05 ! (k mod 4 - 1)) < 65536" using p05_value by auto
    then have "0 < unat (p05 ! (k mod 4 - 1))" by simp
    then show ?thesis using multadd_yields [OF assms(1,2) av assms(5,6) _ p(2), of 0] assms(9) p False by (simp add: n1_def)
  qed
  then obtain c s1 where c: "(if k mod 4 \<noteq> 0 then multadd calloc b (p05 ! (k mod 4 - 1)) 0 s else Some (b, s)) = Some (c, s1)"
    "c \<notin> L - {b}" "c \<notin> set p5" "mp_ok calloc (insert c (L - {b})) p5 s1" "num s1 c n1" "cap s1 c \<le> cap s b + 1"
    "same_objs (L - {b} \<union> set p5) s s1" "callocs s1 \<le> callocs s + 2" unfolding yields_def by blast
  have pw: "powers s1 p5" using powers_same [OF assms(4)] c(7) by (simp add: same_objs_def)
  have old: "\<forall>q\<in>L - {b}. bigs s1 q = bigs s q" using c(7) by (simp add: same_objs_def)
  have val: "n1 * 625 ^ (k div 4) = n * 5 ^ k"
  proof -
    have "n1 * 625 ^ (k div 4) = n * (5 ^ (k mod 4) * 5 ^ (4 * (k div 4)))" by (simp add: n1_def power_mult mult.assoc)
    then have "n1 * 625 ^ (k div 4) = n * 5 ^ (k mod 4 + 4 * (k div 4))" by (simp only: power_add)
    then show ?thesis by (simp only: mod_mult_div_eq)
  qed
  show ?thesis
  proof (cases "k div 4 = 0")
    case True
    have "yields calloc (L - {b}) p5 s n1 (cap s b + 1) 2 (Some (c, s1))" using c unfolding yields_def by blast
    then have "yields5 calloc (L - {b}) s n1 (cap s b + 1) 2 (Some (c, s1))" by (rule yields_5 [OF _ assms(4)])
    from yields5_step [OF this, of s 0 "k + 4" "cap s b + 1 + t"]
    have "yields5 calloc (L - {b}) s (n1 * 625 ^ (k div 4)) (cap s b + 1 + t) (k + 4) (Some (c, s1))" using True by simp
    moreover have "pow5mult True calloc b k s = Some (c, s1)"
      unfolding pow5mult_def Let_def using c(1) by (simp only: Option.bind.simps prod.case True if_True simp_thms)
    ultimately show ?thesis unfolding val by simp
  next
    case False
    have av1: "avail calloc 2 s1" by (rule avail_step [OF assms(3) c(8)]) simp
    obtain p5' s2 where x: "(if p5s s1 = 0 then do { (p5, s) \<leftarrow> i2b calloc 625 s1; let s = s\<lparr>p5s := p5\<rparr>; v \<leftarrow> bigs s p5; Some (p5, put p5 (v\<lparr>bnext := 0\<rparr>) s) }
       else Some (p5s s1, s1)) = Some (p5' ! 0, s2)"
      "mp_ok calloc (insert c (L - {b})) p5' s2" "powers s2 p5'" "0 < length p5'" "\<forall>q\<in>insert c (L - {b}). bigs s2 q = bigs s1 q" "callocs s2 \<le> callocs s1 + 2"
      using pow5_start [OF c(4) assms(2) av1 pw] by blast
    have nc: "num s2 c n1" "cap s2 c = cap s1 c" using c(5) x(5) by (simp_all add: num_def cap_def)
    have av2: "avail calloc (4 * (k div 4)) s2" by (rule avail_step [OF assms(3), of _ 4]) (use x(6) c(8) in auto)
    have "yields5 calloc (insert c (L - {b}) - {c}) s2 (n1 * 625 ^ (2 ^ 0 * (k div 4))) (cap s b + 1 + t) (4 * (k div 4)) (pow5_loop True calloc (k div 4) c (p5' ! 0) s2)"
      by (rule pow5_loop_ok [OF x(2) assms(2) av2 x(3,4) _ nc(1)]) (use assms(7-9) False nc(2) c(6) in \<open>auto simp: n1_def\<close>)
    moreover have "insert c (L - {b}) - {c} = L - {b}" using c(2) by auto
    ultimately have y: "yields5 calloc (L - {b}) s2 (n * 5 ^ k) (cap s b + 1 + t) (4 * (k div 4)) (pow5_loop True calloc (k div 4) c (p5' ! 0) s2)"
      using val by simp
    have "pow5mult True calloc b k s = pow5_loop True calloc (k div 4) c (p5' ! 0) s2"
      unfolding pow5mult_def Let_def using c(1) by (simp only: Option.bind.simps prod.case False if_False x(1) [unfolded Let_def])
    then show ?thesis using yields5_step [OF y, of s 4 "k + 4" "cap s b + 1 + t"] x(5,6) c(8) old by auto
  qed
qed


section \<open>Shift\<close>

lemma shifted_words:
  fixes k :: nat and xs :: "u32 list"
  assumes "normal xs" "0 < bigval xs"
  defines "q \<equiv> k div 32"
  defines "ws \<equiv> replicate q 0 @ (if k mod 32 \<noteq> 0 then shift_loop (k mod 32) 0 xs else xs)"
  defines "n \<equiv> (if k mod 32 \<noteq> 0 \<and> last ws \<noteq> 0 then q + length xs + 1 else q + length xs)"
  shows "bigval (take n ws) = bigval xs * 2 ^ k" "normal (take n ws)" "n \<le> length ws" "length ws \<le> q + length xs + 1"
proof -
  have k: "k = k mod 32 + 32 * q" unfolding q_def by (simp only: mod_mult_div_eq)
  have sl: "bigval (shift_loop (k mod 32) 0 xs) = bigval xs * 2 ^ (k mod 32)" "length (shift_loop (k mod 32) 0 xs) = length xs + 1" if "k mod 32 \<noteq> 0"
    using shift_loop_value [of "k mod 32" 0 xs] that by auto
  have len: "length ws = (if k mod 32 \<noteq> 0 then q + length xs + 1 else q + length xs)" by (simp add: ws_def sl)
  then show "n \<le> length ws" "length ws \<le> q + length xs + 1" by (simp_all add: n_def)
  have "bigval ws = 2 ^ (32 * q) * (bigval xs * 2 ^ (k mod 32))" by (simp add: ws_def bigval_append sl)
  also have "\<dots> = bigval xs * 2 ^ (k mod 32 + 32 * q)" by (simp add: power_add)
  finally have val: "bigval ws = bigval xs * 2 ^ k" using k by simp
  have xs: "xs \<noteq> []" "last xs \<noteq> 0"
  proof -
    show "xs \<noteq> []" using assms(1) by (simp add: normal_def)
    then show "last xs \<noteq> 0" using assms(1,2) by (cases xs) (auto simp: normal_def unsigned_eq_0_iff split: if_splits)
  qed
  have base: "normal (replicate q 0 @ xs)" using xs by (simp add: normal_def)
  have ge: "bigval (replicate q 0 @ xs) \<le> bigval ws"
  proof -
    have "bigval xs * 2 ^ (32 * q) \<le> bigval xs * 2 ^ k" by (intro mult_le_mono2 power_increasing) (use k in auto)
    then show ?thesis using val by (simp add: bigval_append mult.commute)
  qed
  have "bigval (take n ws) = bigval ws \<and> normal (take n ws)"
  proof (cases "k mod 32 \<noteq> 0 \<and> last ws \<noteq> 0")
    case True
    then have "take n ws = ws" "ws \<noteq> []" using len by (auto simp: n_def)
    then show ?thesis using True by (simp add: normal_def)
  next
    case False
    have "bigval (take n ws) = bigval ws"
    proof (cases "k mod 32 = 0")
      case True then show ?thesis using len by (simp add: n_def)
    next
      case nz: False
      then have "n = length ws - 1" "last ws = 0" "ws \<noteq> []" using False len by (auto simp: n_def)
      then have "ws = take n ws @ [0]" by (metis append_butlast_last_id butlast_conv_take)
      then show ?thesis using bigval_snoc [of "take n ws" 0] by simp
    qed
    moreover have "length (take n ws) = length (replicate q (0 :: u32) @ xs)" using False len by (simp add: n_def)
    ultimately show ?thesis using normal_mono [OF base] ge by simp
  qed
  then show "bigval (take n ws) = bigval xs * 2 ^ k" "normal (take n ws)" using val by auto
qed

lemma lshift_ok:
  assumes "mp_ok calloc L p5 s" "fresh_calloc calloc" "avail calloc 2 s" "b \<in> L" "num s b n" "0 < n" "k div 32 + 2 ^ cap s b + 1 \<le> 32768"
  shows "yields calloc (L - {b}) p5 s (n * 2 ^ k) Kmax 2 (lshift calloc b k s)"
proof -
  obtain v where v: "bigs s b = Some v" "normal (words v)" "bigval (words v) = n" using assms(5) by (auto simp: num_def)
  have ok: "obj_ok v" by (rule mp_okD(2) [OF assms(1) v(1)])
  have len: "length (words v) = wds v" "1 \<le> wds v" using words_length [OF ok] normal_length [OF v(2)] by auto
  let ?q = "k div 32"
  let ?n1 = "?q + wds v + 1"
  obtain j where j: "capacity_loop ?n1 (maxwds v) (bk v) = Some (bk v + j)" "?n1 \<le> maxwds v * 2 ^ j" "j = 0 \<or> maxwds v * 2 ^ (j - 1) < ?n1"
    using capacity_loop_ok [of "maxwds v" ?n1 "bk v"] ok by (auto simp: obj_ok_def)
  let ?k1 = "bk v + j"
  have n1: "?n1 \<le> 32768" "?n1 \<le> 2 ^ ?k1" using assms(7) ok j(2) by (auto simp: cap_def v(1) obj_ok_def power_add)
  have "?k1 \<le> Kmax"
  proof (cases "j = 0")
    case True then show ?thesis using ok by (simp add: obj_ok_def)
  next
    case False
    have "(2 :: nat) ^ (bk v + (j - 1)) = maxwds v * 2 ^ (j - 1)" using ok by (simp only: power_add obj_ok_def)
    also have "\<dots> < 32768" using False j(3) n1(1) by linarith
    finally have "(2 :: nat) ^ (bk v + (j - 1)) < 2 ^ 15" by simp
    then have "bk v + (j - 1) < 15" by (rule power_less_imp_less_exp [rotated]) simp
    then show ?thesis using False by simp
  qed
  then obtain c s1 where al0: "Balloc calloc ?k1 s = Some (c, s1)" "allocated calloc L p5 ?k1 s c s1"
    using Balloc_ok [OF assms(1,2) _ assms(3)] by blast
  note al = allocatedD [OF al0(2)]
  obtain w where w: "bigs s1 c = Some w" "bk w = ?k1" "obj_ok w" using al(6) by blast
  have b1: "bigs s1 b = Some v" using al(4) assms(4) v(1) by (simp add: same_objs_def)
  have pos: "0 < bigval (words v)" using v(3) assms(6) by simp
  define ws where "ws = replicate ?q 0 @ (if k mod 32 \<noteq> 0 then shift_loop (k mod 32) 0 (words v) else words v)"
  define m where "m = (if k mod 32 \<noteq> 0 \<and> last ws \<noteq> 0 then ?q + wds v + 1 else ?q + wds v)"
  have sh: "bigval (take m ws) = n * 2 ^ k" "normal (take m ws)" "m \<le> length ws" "length ws \<le> ?n1"
    by (fact shifted_words [OF v(2) pos, of k, unfolded len(1) v(3), folded ws_def, folded m_def])+
  define w' where "w' = w\<lparr>bx := ws @ drop (length ws) (bx w), wds := m\<rparr>"
  have room: "length ws \<le> length (bx w)" using w sh(4) n1(2) by (simp add: obj_ok_def)
  have w': "obj_ok w'" "words w' = take m ws" "bk w' = ?k1" using w sh(3) room by (simp_all add: w'_def obj_ok_def words_def)
  obtain c' s2 where y: "c' = c" "s2 = put c w' s1" "mp_ok calloc (insert c L) p5 s2" "num s2 c (n * 2 ^ k)" "same_objs (L \<union> set p5) s s2" "callocs s2 \<le> callocs s + 2"
    using fill_yields [OF al0(2) w'(1) _ w'(3)] w'(2) sh(1,2) by (auto simp: yields_def)
  obtain s3 where f: "Bfree b s2 = Some s3" "mp_ok calloc (insert c L - {b}) p5 s3" "same_objs (- {b}) s2 s3" "callocs s3 = callocs s2"
    using Bfree_ok [OF y(3), of b] assms(4) by auto
  have nb: "c \<noteq> b" "b \<notin> set p5" using al(1) assms(4) mp_okD(5) [OF assms(1)] by auto
  have set: "insert c L - {b} = insert c (L - {b})" using nb(1) by auto
  have n3: "num s3 c (n * 2 ^ k)" using num_same [OF y(4) f(3)] nb(1) by simp
  have capc: "cap s3 c \<le> Kmax" using mp_okD(2) [OF f(2)] n3 by (auto simp: cap_def num_def obj_ok_def)
  have "same_objs (L - {b} \<union> set p5) s s3" by (rule same_objs_trans [OF y(5) f(3)]) (use nb(2) in auto)
  moreover have ld: "load_words (max 1 (wds v)) v = Some (words v)" using ok len(2) by (simp add: load_words_def obj_ok_def words_def max_def)
  moreover have "lshift calloc b k s = Some (c, s3)"
  proof -
    have e: "(if k mod 32 \<noteq> 0 \<and> last ws \<noteq> 0 then ?n1 + 1 else ?n1) - 1 = m" by (simp add: m_def)
    have st: "store_words ws w = Some (w\<lparr>bx := ws @ drop (length ws) (bx w)\<rparr>)" using room by (simp add: store_words_def)
    show ?thesis unfolding lshift_def Let_def
      by (simp only: v(1) Option.bind.simps j(1) al0(1) prod.case w(1) b1 ld ws_def [symmetric] st e f(1) [unfolded y(2) w'_def])
  qed
  ultimately show ?thesis using al(1,2) f(2,4) n3 capc y(6) set by (auto simp: yields_def)
qed


section \<open>Comparison and difference\<close>

lemma load_own: "obj_ok b \<Longrightarrow> load_words (wds b) b = Some (words b)"
  by (simp add: load_words_def obj_ok_def words_def)

lemma mcmp_ok:
  assumes "mp_ok calloc L p5 s" "num s a x" "num s b y"
  shows "\<exists>r. mcmp a b s = Some r \<and> sgn r = sgn (int x - int y)"
proof -
  obtain va vb where v: "bigs s a = Some va" "normal (words va)" "bigval (words va) = x" "bigs s b = Some vb" "normal (words vb)" "bigval (words vb) = y"
    using assms(2,3) by (auto simp: num_def)
  have ok: "obj_ok va" "obj_ok vb" using mp_okD(2) [OF assms(1)] v(1,4) by auto
  have len: "length (words va) = wds va" "length (words vb) = wds vb" using ok words_length by auto
  have ne: "words va \<noteq> []" "words vb \<noteq> []" using v(2,5) by (auto simp: normal_def)
  consider "wds va < wds vb" | "wds vb < wds va" | "wds va = wds vb" by linarith
  then show ?thesis
  proof cases
    case 1
    then have "x < y" using normal_longer [OF v(5) _ ne(1)] len v by simp
    then show ?thesis using 1 v(1,4) by (simp add: mcmp_def)
  next
    case 2
    then have "y < x" using normal_longer [OF v(2) _ ne(2)] len v by simp
    then show ?thesis using 2 v(1,4) by (simp add: mcmp_def)
  next
    case 3
    have "wds vb \<noteq> 0" using len(2) ne(2) by (metis length_0_conv)
    then have "mcmp a b s = Some (cmp_loop (rev (words va)) (rev (words vb)))"
      using 3 v(1,4) load_own [OF ok(1)] load_own [OF ok(2)] by (simp add: mcmp_def)
    then show ?thesis using cmp_loop_sign [of "rev (words va)" "rev (words vb)"] 3 len v by simp
  qed
qed

lemma mdiff_greater:
  assumes "mp_ok calloc L p5 s" "fresh_calloc calloc" "avail calloc 2 s" "a \<in> L" "b \<in> L" "num s a x" "num s b y" "y < x"
  shows "\<exists>c s' v. do {
       va \<leftarrow> bigs s a;
       vb \<leftarrow> bigs s b;
       (c, s) \<leftarrow> Balloc calloc (bk va) s;
       v \<leftarrow> bigs s c;
       va \<leftarrow> bigs s a;
       vb \<leftarrow> bigs s b;
       xs \<leftarrow> load_words (wds va) va;
       ys \<leftarrow> load_words (max 1 (wds vb)) vb;
       let ws = diff_loop True 0 xs ys;
       v \<leftarrow> store_words ws (v\<lparr>bsign := sg\<rparr>);
       if used ws = 0 then None else Some (c, put c (v\<lparr>wds := used ws\<rparr>) s) } = Some (c, s')
    \<and> c \<notin> L \<and> c \<notin> set p5 \<and> mp_ok calloc (insert c L) p5 s' \<and> num s' c (x - y) \<and> same_objs (L \<union> set p5) s s' \<and> callocs s' \<le> callocs s + 2
    \<and> bigs s' c = Some v \<and> bsign v = sg"
proof -
  obtain va vb where v: "bigs s a = Some va" "normal (words va)" "bigval (words va) = x" "bigs s b = Some vb" "normal (words vb)" "bigval (words vb) = y"
    using assms(6,7) by (auto simp: num_def)
  have ok: "obj_ok va" "obj_ok vb" using mp_okD(2) [OF assms(1)] v(1,4) by auto
  have len: "length (words va) = wds va" "length (words vb) = wds vb" using ok words_length by auto
  have ne: "words va \<noteq> []" "1 \<le> wds vb" using v(2) normal_length [OF v(5)] len(2) by (auto simp: normal_def)
  have "bk va \<le> Kmax" using ok(1) by (simp add: obj_ok_def)
  then obtain c s1 where al0: "Balloc calloc (bk va) s = Some (c, s1)" "allocated calloc L p5 (bk va) s c s1"
    using Balloc_ok [OF assms(1,2) _ assms(3)] by blast
  note al = allocatedD [OF al0(2)]
  obtain w where w: "bigs s1 c = Some w" "bk w = bk va" "obj_ok w" using al(6) by blast
  have ab: "bigs s1 a = Some va" "bigs s1 b = Some vb" using al(4) assms(4,5) v(1,4) by (simp_all add: same_objs_def)
  have le: "length (words vb) \<le> length (words va)"
  proof (rule ccontr)
    assume "\<not> length (words vb) \<le> length (words va)"
    then have "x < y" using normal_longer [OF v(5) _ ne(1)] v by simp
    then show False using assms(8) by simp
  qed
  define ws where "ws = diff_loop True 0 (words va) (words vb)"
  have "int (bigval ws) = (int x - int y) mod 2 ^ (32 * wds va)" "length ws = wds va"
    using diff_loop_value [of 0 "words vb" "words va"] le v len by (simp_all add: ws_def)
  moreover have "int x < 2 ^ (32 * wds va)"
  proof -
    have "int (bigval (words va)) < int (2 ^ (32 * length (words va)))" using bigval_less [of "words va"] by linarith
    then show ?thesis using v(3) len(1) by simp
  qed
  ultimately have ws: "bigval ws = x - y" "length ws = wds va" using assms(8) by auto
  then have u: "used ws \<noteq> 0" "normal (take (used ws) ws)" using used_0 [of ws] used_normal [of ws] assms(8) by auto
  define w' where "w' = w\<lparr>bsign := sg, bx := ws @ drop (length ws) (bx w), wds := used ws\<rparr>"
  have room: "length ws \<le> length (bx w)" using w ok(1) ws(2) by (simp add: obj_ok_def)
  have w': "obj_ok w'" "words w' = take (used ws) ws" "bk w' = bk va"
    using w used_le [of ws] room by (simp_all add: w'_def obj_ok_def words_def)
  have y: "yields calloc L p5 s (x - y) (bk va) 2 (Some (c, put c w' s1))"
    using fill_yields [OF al0(2) w'(1) _ w'(3)] w'(2) u(2) bigval_used [of ws] ws(1) by simp
  have st: "store_words ws (w\<lparr>bsign := sg\<rparr>) = Some (w\<lparr>bsign := sg, bx := ws @ drop (length ws) (bx w)\<rparr>)" using room by (simp add: store_words_def)
  have ld: "load_words (max 1 (wds vb)) vb = Some (words vb)" using load_own [OF ok(2)] ne(2) by (simp add: max_def)
  show ?thesis
    unfolding Let_def using y u(1)
    by (intro exI [of _ c] exI [of _ "put c w' s1"] exI [of _ w'])
      (simp only: v(1,4) Option.bind.simps al0(1) prod.case w(1) ab load_own [OF ok(1)] ld ws_def [symmetric] st if_False, auto simp: w'_def yields_def)
qed

lemma mdiff_ok:
  assumes "mp_ok calloc L p5 s" "fresh_calloc calloc" "avail calloc 2 s" "a \<in> L" "b \<in> L" "num s a x" "num s b y"
  shows "\<exists>c s' v. mdiff True calloc a b s = Some (c, s') \<and> c \<notin> L \<and> c \<notin> set p5 \<and> mp_ok calloc (insert c L) p5 s'
    \<and> num s' c (if y < x then x - y else y - x) \<and> same_objs (L \<union> set p5) s s' \<and> callocs s' \<le> callocs s + 2 \<and> bigs s' c = Some v \<and> bsign v = (if x < y then 1 else 0)"
proof -
  obtain r where r: "mcmp a b s = Some r" "sgn r = sgn (int x - int y)" using mcmp_ok [OF assms(1,6,7)] by blast
  consider "x = y" | "y < x" | "x < y" by linarith
  then show ?thesis
  proof cases
    case 1
    then have r0: "r = 0" using r(2) by (simp add: sgn_if split: if_splits)
    obtain c s1 where al0: "Balloc calloc 0 s = Some (c, s1)" "allocated calloc L p5 0 s c s1"
      using Balloc_ok [OF assms(1,2) _ assms(3), of 0] by auto
    note al = allocatedD [OF al0(2)]
    obtain w where w: "bigs s1 c = Some w" "bk w = 0" "obj_ok w" "bsign w = 0" using al(6) by blast
    let ?w = "w\<lparr>wds := 1, bx := [0] @ drop 1 (bx w)\<rparr>"
    have m: "length (bx w) = 1" "maxwds w = 1" using w(2,3) by (simp_all add: obj_ok_def)
    have w': "obj_ok ?w" "words ?w = [0]" "normal [0]" "bk ?w = 0" using w(2) m by (simp_all add: obj_ok_def words_def normal_def)
    have "yields calloc L p5 s (bigval (words ?w)) 0 2 (Some (c, put c ?w s1))"
      using fill_yields [OF al0(2) w'(1) _ w'(4)] w'(2,3) by simp
    moreover have "mdiff True calloc a b s = Some (c, put c ?w s1)" using r r0 al0(1) w m by (simp add: mdiff_def store_words_def)
    ultimately show ?thesis using 1 w(4) w'(2) by (auto simp: yields_def)
  next
    case 2
    then have "0 < r" using r(2) by (simp add: sgn_if split: if_splits)
    then have i: "r \<noteq> 0" "\<not> r < 0" by auto
    have ifs: "(if y < x then x - y else y - x) = x - y" "(if x < y then 1 else 0) = (0 :: nat)" using 2 by auto
    show ?thesis unfolding mdiff_def r(1) ifs
      using mdiff_greater [OF assms(1-7) 2, of 0] by (simp only: Option.bind.simps i if_False Let_def prod.case)
  next
    case 3
    then have "r < 0" using r(2) by (simp add: sgn_if split: if_splits)
    then have i: "r \<noteq> 0" by auto
    have ifs: "(if y < x then x - y else y - x) = y - x" "(if x < y then 1 else 0) = (1 :: nat)" using 3 by auto
    show ?thesis unfolding mdiff_def r(1) ifs
      using mdiff_greater [OF assms(1-3,5,4,7,6) 3, of 1] \<open>r < 0\<close> by (simp only: Option.bind.simps i if_True if_False Let_def prod.case)
  qed
qed

end
