(* ===== verification/LibcMprecProps.thy ===== *)
theory LibcMprecProps
  imports LibcMprecOps
begin

text \<open>
  The conversion of a double to a number and the properties of the multiple-precision routines.
\<close>

section \<open>Conversion of a double\<close>

text \<open>A double is given by its two words. The mantissa as an integer and the exponent that belongs to it.\<close>

definition dbl_ef :: "u32 \<times> u32 \<Rightarrow> nat" where
  "dbl_ef d = unat (fst d) div 2 ^ 20 mod 2 ^ 11"

definition dbl_mant :: "u32 \<times> u32 \<Rightarrow> nat" where
  "dbl_mant d = (if dbl_ef d = 0 then 0 else 2 ^ 52) + unat (fst d) mod 2 ^ 20 * 2 ^ 32 + unat (snd d)"

definition dbl_exp :: "u32 \<times> u32 \<Rightarrow> int" where
  "dbl_exp d = int (max 1 (dbl_ef d)) - 1075"

lemma unat_mask: "unat (x AND mask n) = unat x mod 2 ^ n" for x :: u32
proof -
  have "x AND mask n = take_bit n x" by (simp add: take_bit_eq_mask)
  then show ?thesis by (simp only: unsigned_take_bit_eq) (simp add: take_bit_eq_mod)
qed

lemma d2b_fields:
  "unat (d0 AND Frac_mask) = unat d0 mod 2 ^ 20" "unat (drop_bit Exp_shift (d0 AND 0x7fffffff)) = dbl_ef (d0, d1)"
  "unat ((d0 AND Frac_mask) OR Exp_msk1) = unat d0 mod 2 ^ 20 + 2 ^ 20"
proof -
  have m: "Frac_mask = mask 20" "(0x7fffffff :: u32) = mask 31" by (simp_all add: Frac_mask_def mask_eq_exp_minus_1)
  have e: "bit Exp_msk1 n \<longleftrightarrow> n = 20" for n
  proof -
    have m: "Exp_msk1 = push_bit 20 1" by (simp add: Exp_msk1_def)
    show ?thesis unfolding m by (subst bit_push_bit_iff) (auto simp: bit_1_iff)
  qed
  show f: "unat (d0 AND Frac_mask) = unat d0 mod 2 ^ 20" unfolding m by (rule unat_mask)
  have "unat (drop_bit Exp_shift (d0 AND 0x7fffffff)) = unat d0 mod 2 ^ 31 div 2 ^ 20" unfolding m unat_drop unat_mask Exp_shift_def ..
  also have "\<dots> = unat d0 div 2 ^ 20 mod 2 ^ 11" using mod_mult2_eq [of "unat d0" "2 ^ 20" "2 ^ 11"] by simp
  finally show "unat (drop_bit Exp_shift (d0 AND 0x7fffffff)) = dbl_ef (d0, d1)" by (simp add: dbl_ef_def)
  have "(d0 AND Frac_mask) OR Exp_msk1 = (d0 AND Frac_mask) + Exp_msk1"
    by (rule disjunctive_add [symmetric])
      (auto simp: m e bit_simps simp flip: take_bit_eq_mask)
  moreover have "unat (d0 AND Frac_mask) + unat Exp_msk1 < 2 ^ LENGTH(32)" unfolding f by (simp add: Exp_msk1_def)
  ultimately have "unat ((d0 AND Frac_mask) OR Exp_msk1) = unat (d0 AND Frac_mask) + unat Exp_msk1"
    using unat_add_lem [of "d0 AND Frac_mask" Exp_msk1] by simp
  then show "unat ((d0 AND Frac_mask) OR Exp_msk1) = unat d0 mod 2 ^ 20 + 2 ^ 20" unfolding f by (simp add: Exp_msk1_def)
qed


text \<open>The words and the shift count that are computed from the fields.\<close>

definition d2b_words :: "u32 \<Rightarrow> u32 \<Rightarrow> u32 list \<times> nat \<times> nat" where
  "d2b_words d1 z =
     (if d1 \<noteq> 0 then
        let (k, y) = lo0bits d1;
            (x0, z) = (if k \<noteq> 0 then (y OR push_bit (32 - k) z, drop_bit k z) else (y, z))
        in ([x0, z], if z \<noteq> 0 then 2 else 1, k)
      else let (k, z) = lo0bits z in ([z], 1, k + 32))"

lemma d2b_words_value:
  assumes "unat z * 4294967296 + unat d1 \<noteq> 0" "d2b_words d1 z = (x, i, k)"
  shows "bigval (take i x) * 2 ^ k = unat z * 4294967296 + unat d1" "odd (bigval (take i x))" "normal (take i x)"
    "1 \<le> i" "i \<le> length x" "length x \<le> 2" "x ! (i - 1) \<noteq> 0"
proof -
  have "bigval (take i x) * 2 ^ k = unat z * 4294967296 + unat d1 \<and> odd (bigval (take i x)) \<and> normal (take i x)
    \<and> 1 \<le> i \<and> i \<le> length x \<and> length x \<le> 2 \<and> x ! (i - 1) \<noteq> 0"
  proof (cases "d1 = 0")
    case True
    then have "z \<noteq> 0" using assms(1) by auto
    note lo = lo0bits_value [OF this]
    have x: "x = [snd (lo0bits z)]" "i = 1" "k = fst (lo0bits z) + 32" using assms(2) True by (auto simp: d2b_words_def case_prod_beta)
    have "snd (lo0bits z) \<noteq> 0" using lo(2) by auto
    then show ?thesis using lo True by (simp add: x normal_def power_add flip: mult.assoc)
  next
    case False
    obtain j y where jy: "lo0bits d1 = (j, y)" by fastforce
    have lo: "unat y * 2 ^ j = unat d1" "odd (unat y)" "j < 32" using lo0bits_value [OF False] jy by auto
    define x0 z1 where "x0 = (if j \<noteq> 0 then y OR push_bit (32 - j) z else y)" "z1 = (if j \<noteq> 0 then drop_bit j z else z)"
    have x: "x = [x0, z1]" "i = (if z1 \<noteq> 0 then 2 else 1)" "k = j"
      using assms(2) False jy by (auto simp: d2b_words_def Let_def x0_z1_def split: if_splits)
    have v: "unat x0 + 4294967296 * unat z1 = unat z * 2 ^ (32 - j) + unat y"
    proof (cases "j = 0")
      case False
      have "unat y * 2 ^ j < 2 ^ (32 - j) * 2 ^ j" using lo(1,3) u32_less [of d1] by (simp flip: power_add)
      then have "unat y < 2 ^ (32 - j)" by simp
      then show ?thesis using shift_word(1) [of "32 - j" y z] False lo(3) by (simp add: x0_z1_def or.commute)
    qed (simp add: x0_z1_def)
    have odd: "odd (unat x0 + 4294967296 * unat z1)" unfolding v using lo(2,3) by simp
    then have x0: "x0 \<noteq> 0" by auto
    have "(unat z * 2 ^ (32 - j) + unat y) * 2 ^ j = unat z * (2 ^ (32 - j) * 2 ^ j) + unat y * 2 ^ j" by (simp add: algebra_simps)
    also have "(2 :: nat) ^ (32 - j) * 2 ^ j = 4294967296" using lo(3) by (simp flip: power_add)
    finally have "(unat x0 + 4294967296 * unat z1) * 2 ^ k = unat z * 4294967296 + unat d1" unfolding v x(3) lo(1) .
    then show ?thesis using odd x0 by (cases "z1 = 0") (simp_all add: x normal_def)
  qed
  then show "bigval (take i x) * 2 ^ k = unat z * 4294967296 + unat d1" "odd (bigval (take i x))" "normal (take i x)"
    "1 \<le> i" "i \<le> length x" "length x \<le> 2" "x ! (i - 1) \<noteq> 0" by auto
qed

text \<open>The length of a number in bits.\<close>

definition bit_length :: "nat \<Rightarrow> nat \<Rightarrow> bool" where
  "bit_length n b \<longleftrightarrow> 2 ^ b \<le> 2 * n \<and> n < 2 ^ b"

lemma bits_of_words:
  assumes "1 \<le> i" "i \<le> length x" "x ! (i - 1) \<noteq> 0"
  shows "hi0bits (x ! (i - 1)) < 32 * i \<and> bit_length (bigval (take i x)) (32 * i - hi0bits (x ! (i - 1)))"
proof -
  define t h lo where "t = x ! (i - 1)" "h = hi0bits t" "lo = bigval (take (i - 1) x)"
  have hv: "2147483648 \<le> unat t * 2 ^ h" "unat t * 2 ^ h < 4294967296" using hi0bits_value [of t] assms(3) by (auto simp: t_h_lo_def)
  have "1 \<le> unat t" using assms(3) by (simp add: t_h_lo_def Suc_leI unat_gt_0)
  then have "1 * 2 ^ h \<le> unat t * 2 ^ h" by (rule mult_le_mono1)
  also note hv(2)
  finally have "(2 :: nat) ^ h < 2 ^ 32" by simp
  then have h: "h < 32" by (rule power_less_imp_less_exp [rotated]) simp
  obtain j where j: "i = Suc j" using assms(1) by (cases i) auto
  have "take i x = take j x @ [t]" using assms(2) j by (simp add: t_h_lo_def take_Suc_conv_app_nth)
  then have v: "bigval (take i x) = lo + 2 ^ (32 * j) * unat t" using j assms(2) by (simp add: bigval_snoc t_h_lo_def)
  have lo: "lo < 2 ^ (32 * j)" using bigval_less [of "take j x"] assms(2) j by (simp add: t_h_lo_def)
  have e: "(2 :: nat) ^ (32 * i - h) * 2 ^ h = 2 ^ (32 * j) * 4294967296" using h j by (simp flip: power_add) (simp add: power_add)
  have "2 ^ (32 * j) * 4294967296 \<le> 2 ^ (32 * j) * (2 * (unat t * 2 ^ h))" using hv(1) by (intro mult_le_mono2) simp
  also have "\<dots> \<le> 2 * bigval (take i x) * 2 ^ h" unfolding v by (simp add: algebra_simps)
  finally have "2 ^ (32 * i - h) * 2 ^ h \<le> 2 * bigval (take i x) * 2 ^ h" unfolding e .
  then have 1: "2 ^ (32 * i - h) \<le> 2 * bigval (take i x)" by simp
  have "bigval (take i x) * 2 ^ h < 2 ^ (32 * j) * (unat t + 1) * 2 ^ h" unfolding v using lo by simp
  also have "\<dots> \<le> 2 ^ (32 * j) * 4294967296"
  proof -
    have "(2 :: nat) ^ h dvd 2 ^ 32" using h by (intro le_imp_power_dvd) simp
    then obtain m where m: "(2 :: nat) ^ 32 = 2 ^ h * m" by (auto simp: dvd_def)
    then have "unat t * 2 ^ h < m * 2 ^ h" using hv(2) by (simp add: mult.commute)
    then have "unat t < m" by simp
    then have "(unat t + 1) * 2 ^ h \<le> m * 2 ^ h" by (intro mult_le_mono1) simp
    then have "2 ^ (32 * j) * ((unat t + 1) * 2 ^ h) \<le> 2 ^ (32 * j) * (2 ^ h * m)"
      unfolding mult.commute [of _ m] by (rule mult_le_mono2)
    then show ?thesis unfolding m [symmetric] by (simp only: mult.assoc) simp
  qed
  also have "\<dots> = 2 ^ (32 * i - h) * 2 ^ h" using e by simp
  finally have 2: "bigval (take i x) < 2 ^ (32 * i - h)" by simp
  show ?thesis using 1 2 h j by (simp add: bit_length_def t_h_lo_def)
qed

lemma d2b_eq:
  "d2b calloc (d0, d1) s = do {
     (b, s) \<leftarrow> Balloc calloc 1 s;
     v \<leftarrow> bigs s b;
     let de = drop_bit Exp_shift (d0 AND 0x7fffffff);
     let (x, i, k) = d2b_words d1 (if de \<noteq> 0 then (d0 AND Frac_mask) OR Exp_msk1 else d0 AND Frac_mask);
     v \<leftarrow> store_words x v;
     Some ((b, if de \<noteq> 0 then (uint de - Bias - (dbl_P - 1) + int k, dbl_P - int k)
               else (uint de - Bias - (dbl_P - 1) + 1 + int k, 32 * int i - int (hi0bits (x ! (i - 1))))), put b (v\<lparr>wds := i\<rparr>) s) }"
  unfolding d2b_def d2b_words_def Let_def by simp

lemma bit_length_shift:
  assumes "bit_length (m * 2 ^ k) b" "0 < m"
  shows "k \<le> b \<and> bit_length m (b - k)"
proof -
  have "(2 :: nat) ^ k \<le> m * 2 ^ k" using assms(2) by simp
  also have "\<dots> < 2 ^ b" using assms(1) by (simp add: bit_length_def)
  finally have k: "k \<le> b" by simp
  then have "(2 :: nat) ^ b = 2 ^ (b - k) * 2 ^ k" by (simp flip: power_add)
  then show ?thesis using assms(1) k by (simp add: bit_length_def flip: mult.assoc)
qed

lemma dbl_mant_fields:
  defines "z d0 \<equiv> (if drop_bit Exp_shift (d0 AND 0x7fffffff) \<noteq> 0 then (d0 AND Frac_mask) OR Exp_msk1 else d0 AND Frac_mask)"
  shows "unat (z d0) * 4294967296 + unat d1 = dbl_mant (d0, d1)"
    "dbl_ef (d0, d1) \<noteq> 0 \<Longrightarrow> bit_length (dbl_mant (d0, d1)) 53"
proof -
  have "(drop_bit Exp_shift (d0 AND 0x7fffffff) \<noteq> 0) \<longleftrightarrow> dbl_ef (d0, d1) \<noteq> 0"
    using d2b_fields(2) [of d0 d1] by (metis unat_eq_zero unsigned_0)
  then show "unat (z d0) * 4294967296 + unat d1 = dbl_mant (d0, d1)"
    by (auto simp: z_def dbl_mant_def d2b_fields(1,3) [simplified] algebra_simps)
  have "unat d0 mod 2 ^ 20 < 2 ^ 20" "unat d1 < 2 ^ 32" using u32_less [of d1] by simp_all
  then show "dbl_ef (d0, d1) \<noteq> 0 \<Longrightarrow> bit_length (dbl_mant (d0, d1)) 53"
    unfolding bit_length_def dbl_mant_def fst_conv snd_conv by simp
qed

lemma d2b_ok:
  assumes "mp_ok calloc L p5 s" "fresh_calloc calloc" "avail calloc 2 s" "0 < dbl_mant d"
  shows "\<exists>b s' m k bits. d2b calloc d s = Some ((b, dbl_exp d + int k, int bits), s')
    \<and> yields calloc L p5 s m 1 2 (Some (b, s')) \<and> m * 2 ^ k = dbl_mant d \<and> odd m \<and> bit_length m bits"
proof -
  obtain d0 d1 where d: "d = (d0, d1)" by fastforce
  obtain p s' where a: "Balloc calloc 1 s = Some (p, s')" "allocated calloc L p5 1 s p s'"
    using Balloc_ok [OF assms(1,2) _ assms(3), of 1] by auto
  obtain v where v: "bigs s' p = Some v" "bk v = 1" "obj_ok v" using allocatedD(6) [OF a(2)] by blast
  have mx: "maxwds v = 2" "length (bx v) = 2" using v by (simp_all add: obj_ok_def)
  define de where "de = drop_bit Exp_shift (d0 AND 0x7fffffff)"
  define z where "z = (if de \<noteq> 0 then (d0 AND Frac_mask) OR Exp_msk1 else d0 AND Frac_mask)"
  have de: "unat de = dbl_ef d" unfolding de_def d by (rule d2b_fields(2))
  have z: "unat z * 4294967296 + unat d1 = dbl_mant d" unfolding z_def de_def d by (rule dbl_mant_fields(1))
  obtain x i k where w: "d2b_words d1 z = (x, i, k)" using prod_cases3 by blast
  note wv = d2b_words_value [OF _ w, unfolded z]
  have x: "bigval (take i x) * 2 ^ k = dbl_mant d" "odd (bigval (take i x))" "normal (take i x)" "1 \<le> i" "i \<le> length x" "length x \<le> 2" "x ! (i - 1) \<noteq> 0"
    using wv assms(4) by auto
  let ?v = "v\<lparr>bx := x @ drop (length x) (bx v), wds := i\<rparr>"
  have words: "words ?v = take i x" using x by (simp add: words_def)
  have "yields calloc L p5 s (bigval (words ?v)) 1 2 (Some (p, put p ?v s'))"
    by (rule fill_yields [OF a(2)]) (use v mx x words in \<open>auto simp: obj_ok_def\<close>)
  then have y: "yields calloc L p5 s (bigval (take i x)) 1 2 (Some (p, put p ?v s'))" unfolding words .
  define bits where "bits = (if de \<noteq> 0 then 53 - k else 32 * i - hi0bits (x ! (i - 1)))"
  have bits: "bit_length (bigval (take i x)) bits \<and> (if de \<noteq> 0 then int bits = 53 - int k else int bits = 32 * int i - int (hi0bits (x ! (i - 1))))"
  proof (cases "de = 0")
    case True
    then show ?thesis using bits_of_words [OF x(4,5,7)] by (simp add: bits_def)
  next
    case False
    then have "dbl_ef (d0, d1) \<noteq> 0" using de d by (metis unat_eq_zero)
    then have "bit_length (bigval (take i x) * 2 ^ k) 53" unfolding x(1) d by (rule dbl_mant_fields(2))
    then show ?thesis using bit_length_shift [of "bigval (take i x)" k 53] False x(2) odd_pos by (auto simp: bits_def of_nat_diff)
  qed
  have e: "uint de - Bias - (dbl_P - 1) + (if de \<noteq> 0 then 0 else 1) = dbl_exp d"
  proof -
    have "uint de = int (dbl_ef d)" using de by (simp flip: de)
    moreover have "de = 0 \<longleftrightarrow> dbl_ef d = 0" using de by (metis unat_eq_zero)
    ultimately show ?thesis by (simp add: dbl_exp_def Bias_def dbl_P_def)
  qed
  have "d2b calloc d s = Some ((p, dbl_exp d + int k, int bits), put p ?v s')"
    unfolding d d2b_eq a(1) de_def [symmetric] z_def [symmetric] Let_def w using v(1) mx x(6) bits e
    by (auto simp: w store_words_def dbl_P_def d)
  then show ?thesis using y x(1,2) bits by blast
qed


section \<open>Exhausted memory\<close>

text \<open>Without an assumption on the memory, an allocation either gives an object that is not in use, or null and
  then all objects are as they were.\<close>

lemma Balloc_or_null:
  assumes "mp_ok calloc L p5 s" "fresh_calloc calloc" "k \<le> Kmax"
  shows "\<exists>p s'. Balloc calloc k s = Some (p, s') \<and>
    (if p = 0 then mp_ok calloc L p5 s' \<and> bigs s' = bigs s \<and> p5s s' = p5s s else allocated calloc L p5 k s p s')"
proof (cases "freelist s")
  case None
  then have e: "bigs s = Map.empty" "L = {}" "p5 = []" "p5s s = 0" using assms(1) by (cases p5; auto simp: mp_ok_def)+
  let ?s = "s\<lparr>callocs := callocs s + 1, freelist := Some (replicate (Kmax + 1) 0)\<rparr>"
  have fl: "free_ok ({} \<union> set []) Map.empty (replicate (Kmax + 1) 0) (\<lambda>_. [])" by (simp add: free_ok_def)
  have ok: "mp_ok calloc L p5 ?s" using e fl by (auto simp: mp_ok_def)
  consider "calloc (callocs s) = 0" | "calloc (callocs s) \<noteq> 0" "calloc (callocs s + 1) = 0" | "calloc (callocs s) \<noteq> 0" "calloc (callocs s + 1) \<noteq> 0"
    by blast
  then show ?thesis
  proof cases
    case 1
    then show ?thesis using None e by (simp add: Balloc_def calloc_r_def mp_ok_def)
  next
    case 2
    then have "Balloc calloc k s = Some (0, ?s\<lparr>callocs := callocs s + 2\<rparr>)"
      using None assms(3) by (simp add: Balloc_def calloc_r_def Let_def nth_replicate del: replicate_Suc replicate.simps)
    moreover have "mp_ok calloc L p5 (?s\<lparr>callocs := callocs s + 2\<rparr>)" using e fl by (auto simp: mp_ok_def)
    ultimately show ?thesis by simp
  next
    case 3
    have "Balloc calloc k s = Balloc calloc k ?s" using None 3 by (simp add: Balloc_def calloc_r_def)
    moreover obtain s' where "Balloc calloc k ?s = Some (calloc (callocs ?s), s')" "allocated calloc L p5 k ?s (calloc (callocs ?s)) s'" "callocs s' = callocs ?s + 1"
      using Balloc_new [OF ok assms(2), of "replicate (Kmax + 1) 0" k] 3 assms(3) by auto
    ultimately show ?thesis using 3 by (auto simp: allocated_def same_objs_def)
  qed
next
  case (Some F)
  obtain fl where fl: "free_ok (L \<union> set p5) (bigs s) F fl" using assms(1) Some unfolding mp_ok_def by blast
  then have F: "k < length F" using assms(3) by (simp add: free_ok_def)
  consider "F ! k \<noteq> 0" | "F ! k = 0" "calloc (callocs s) \<noteq> 0" | "F ! k = 0" "calloc (callocs s) = 0" by blast
  then show ?thesis
  proof cases
    case 1
    then show ?thesis using Balloc_reuse [OF assms(1) Some, of k] assms(3) by auto
  next
    case 2
    then show ?thesis using Balloc_new [OF assms(1,2) Some, of k] assms(3) by auto
  next
    case 3
    then have "Balloc calloc k s = Some (0, s\<lparr>callocs := callocs s + 1\<rparr>)"
      using Some F by (simp add: Balloc_def calloc_r_def Let_def)
    moreover have "mp_ok calloc L p5 (s\<lparr>callocs := callocs s + 1\<rparr>)" using assms(1) by (auto simp: mp_ok_def)
    ultimately show ?thesis by simp
  qed
qed

text \<open>The callers do not test the result: they access the null pointer.\<close>

lemma null_result_used:
  assumes "mp_ok calloc L p5 s" "bigs s' = bigs s"
  shows "Balloc calloc 1 s = Some (0, s') \<Longrightarrow> i2b calloc i s = None"
    "Balloc calloc 1 s = Some (0, s') \<Longrightarrow> d2b calloc d s = None"
  using mp_okD(1) [OF assms(1)] assms(2) by (simp_all add: i2b_def d2b_def split: prod.split)

section \<open>A memory and numbers in it\<close>

definition heap_calloc :: "nat \<Rightarrow> u32" where
  "heap_calloc i = (if i < 1000 then 0x2000000 + of_nat i * 0x1000 else 0)"

definition empty_mp :: mp where
  "empty_mp = \<lparr>bigs = Map.empty, freelist = None, p5s = 0, callocs = 0\<rparr>"

lemma unat_heap_calloc: "i < 1000 \<Longrightarrow> unat (heap_calloc i) = 0x2000000 + i * 0x1000"
proof -
  assume i: "i < 1000"
  have "heap_calloc i = of_nat (0x2000000 + i * 0x1000)" using i by (simp add: heap_calloc_def)
  then show ?thesis using i by (simp only: unat_of_nat) simp
qed

lemma heap_calloc_fresh: "fresh_calloc heap_calloc"
  unfolding fresh_calloc_def
proof (intro allI impI)
  fix i j assume ij: "heap_calloc i = heap_calloc j \<and> heap_calloc i \<noteq> 0"
  then have l: "i < 1000" "j < 1000" by (metis heap_calloc_def)+
  have "unat (heap_calloc i) = unat (heap_calloc j)" using ij by (simp only:)
  then show "i = j" unfolding l [THEN unat_heap_calloc] by simp
qed

lemma heap_calloc_avail: "callocs s + n \<le> 1000 \<Longrightarrow> avail heap_calloc n s"
  unfolding avail_def
proof (intro allI impI)
  fix i assume "callocs s + n \<le> 1000" "i < callocs s + n"
  then show "heap_calloc i \<noteq> 0" using unat_heap_calloc [of i] by auto
qed

lemma empty_mp_ok: "mp_ok heap_calloc {} [] empty_mp" "callocs empty_mp = 0" "powers empty_mp []"
  by (simp_all add: mp_ok_def empty_mp_def powers_def)

lemma one_number:
  obtains a s where "i2b heap_calloc x empty_mp = Some (a, s)" "mp_ok heap_calloc {a} [] s" "num s a (unat x)" "cap s a \<le> 1"
    "callocs s \<le> 2" "powers s []"
  using i2b_ok [OF empty_mp_ok(1) heap_calloc_fresh heap_calloc_avail, of x] by (auto simp: yields_def empty_mp_ok powers_def)

lemma two_numbers:
  obtains a b s1 s where "i2b heap_calloc x empty_mp = Some (a, s1)" "i2b heap_calloc y s1 = Some (b, s)" "mp_ok heap_calloc {a, b} [] s"
    "num s a (unat x)" "num s b (unat y)" "cap s a \<le> 1" "cap s b \<le> 1" "callocs s \<le> 4" "a \<noteq> b"
proof -
  obtain a s1 where a: "i2b heap_calloc x empty_mp = Some (a, s1)" "mp_ok heap_calloc {a} [] s1" "num s1 a (unat x)" "cap s1 a \<le> 1"
    "callocs s1 \<le> 2" using one_number by blast
  obtain b s where b: "i2b heap_calloc y s1 = Some (b, s)" "b \<noteq> a" "mp_ok heap_calloc {b, a} [] s" "num s b (unat y)" "cap s b \<le> 1"
    "same_objs {a} s1 s" "callocs s \<le> callocs s1 + 2"
    using i2b_ok [OF a(2) heap_calloc_fresh heap_calloc_avail, of y] a(5) by (auto simp: yields_def)
  have "num s a (unat x)" "cap s a \<le> 1" using num_same [OF a(3) b(6)] cap_same [OF b(6), of a] a(4) by auto
  then show thesis using that [OF a(1) b(1)] a b by (simp add: insert_commute)
qed

section \<open>Properties\<close>







text \<open>Shifting a number that is not zero to the left by \<open>k\<close> bits multiplies it by \<open>2\<^sup>k\<close>; the old object is
  returned to the store and nothing else changes. The search for a capacity ends.\<close>

theorem lshift_shifts:
  assumes "mp_ok calloc L p5 s" "fresh_calloc calloc" "avail calloc 2 s" "b \<in> L" "num s b n" "0 < n" "k div 32 + 2 ^ cap s b + 1 \<le> 32768"
  shows "\<exists>c s'. lshift calloc b k s = Some (c, s') \<and> num s' c (n * 2 ^ k) \<and> c \<notin> L - {b} \<union> set p5
    \<and> mp_ok calloc (insert c (L - {b})) p5 s' \<and> (\<forall>q\<in>L - {b} \<union> set p5. bigs s' q = bigs s q)"
  using lshift_ok [OF assms] by (auto simp: yields_def same_objs_def)

theorem lshift_shifts_witness:
  "\<exists>c s'. do { (b, s) \<leftarrow> i2b heap_calloc 0xdeadbeef empty_mp; lshift heap_calloc b 100 s } = Some (c, s') \<and> num s' c (0xdeadbeef * 2 ^ 100)"
proof -
  obtain b s where n: "i2b heap_calloc 0xdeadbeef empty_mp = Some (b, s)" "mp_ok heap_calloc {b} [] s" "num s b (unat (0xdeadbeef :: u32))" "cap s b \<le> 1"
    "callocs s \<le> 2" using one_number by blast
  have "(2 :: nat) ^ cap s b \<le> 2 ^ 1" using n(4) by (intro power_increasing) auto
  then show ?thesis
    using lshift_shifts [OF n(2) heap_calloc_fresh heap_calloc_avail _ n(3), of 100] n(1,5) by auto
qed

text \<open>Comparison gives the sign of the difference of two numbers, and subtraction a new number with the absolute value of
  the difference and the sign, also for equal numbers; other numbers stay as they are.\<close>

theorem mdiff_difference:
  assumes "mp_ok calloc L p5 s" "fresh_calloc calloc" "avail calloc 2 s" "a \<in> L" "b \<in> L" "num s a x" "num s b y"
  shows "\<exists>r c s' v. mcmp a b s = Some r \<and> sgn r = sgn (int x - int y)
    \<and> mdiff True calloc a b s = Some (c, s') \<and> c \<notin> L \<union> set p5 \<and> bigs s' c = Some v
    \<and> num s' c (nat \<bar>int x - int y\<bar>) \<and> (bsign v = 1 \<longleftrightarrow> x < y) \<and> mp_ok calloc (insert c L) p5 s'
    \<and> (\<forall>q\<in>L \<union> set p5. bigs s' q = bigs s q)"
proof -
  have n: "(if y < x then x - y else y - x) = nat \<bar>int x - int y\<bar>" by auto
  obtain r where r: "mcmp a b s = Some r" "sgn r = sgn (int x - int y)" using mcmp_ok [OF assms(1,6,7)] by blast
  obtain c s' v where c: "mdiff True calloc a b s = Some (c, s')" "c \<notin> L" "c \<notin> set p5" "mp_ok calloc (insert c L) p5 s'"
    "num s' c (nat \<bar>int x - int y\<bar>)" "same_objs (L \<union> set p5) s s'" "bigs s' c = Some v" "bsign v = (if x < y then 1 else 0)"
    using mdiff_ok [OF assms] unfolding n by blast
  then show ?thesis using r by (intro exI [of _ r] exI [of _ c] exI [of _ s'] exI [of _ v]) (auto simp: same_objs_def)
qed

theorem mdiff_difference_witness:
  "\<exists>c s'. do { (a, s) \<leftarrow> i2b heap_calloc 5 empty_mp; (b, s) \<leftarrow> i2b heap_calloc 0x10000 s; mdiff True heap_calloc a b s } = Some (c, s')
    \<and> num s' c 65531"
proof -
  obtain a b s1 s where n: "i2b heap_calloc 5 empty_mp = Some (a, s1)" "i2b heap_calloc 0x10000 s1 = Some (b, s)" "mp_ok heap_calloc {a, b} [] s"
    "num s a (unat (5 :: u32))" "num s b (unat (0x10000 :: u32))" "cap s a \<le> 1" "cap s b \<le> 1" "callocs s \<le> 4" "a \<noteq> b"
    using two_numbers by metis
  then show ?thesis
    using mdiff_difference [OF n(3) heap_calloc_fresh heap_calloc_avail _ _ n(4,5)] by auto
qed

text \<open>C28. A double that is not zero is taken apart exactly: the number returned is odd, times two to the returned exponent it
  is the mantissa at the double's exponent, and the third result is the length of the number in bits. This
  covers denormalised doubles too.\<close>

theorem d2b_exact:
  assumes "mp_ok calloc L p5 s" "fresh_calloc calloc" "avail calloc 2 s" "0 < dbl_mant d"
  shows "\<exists>b s' m k bits. d2b calloc d s = Some ((b, dbl_exp d + int k, int bits), s') \<and> num s' b m
    \<and> m * 2 ^ k = dbl_mant d \<and> odd m \<and> bit_length m bits
    \<and> b \<notin> L \<union> set p5 \<and> mp_ok calloc (insert b L) p5 s' \<and> (\<forall>q\<in>L \<union> set p5. bigs s' q = bigs s q)"
proof -
  obtain b s' m k bits where "d2b calloc d s = Some ((b, dbl_exp d + int k, int bits), s')" "yields calloc L p5 s m 1 2 (Some (b, s'))"
    "m * 2 ^ k = dbl_mant d" "odd m" "bit_length m bits" using d2b_ok [OF assms] by blast
  then show ?thesis
    by (intro exI [of _ b] exI [of _ s'] exI [of _ m] exI [of _ k] exI [of _ bits]) (auto simp: yields_def same_objs_def)
qed

text \<open>The double 6.5 is 13 times a half.\<close>

theorem d2b_exact_witness:
  "\<exists>b s' m k. d2b heap_calloc (0x401a0000, 0) empty_mp = Some ((b, int k - 50, 4), s') \<and> num s' b m \<and> odd m \<and> m * 2 ^ k = 13 * 2 ^ 49"
proof -
  have m: "dbl_mant (0x401a0000, 0) = 13 * 2 ^ 49" "dbl_exp (0x401a0000, 0) = - 50" by (simp_all add: dbl_mant_def dbl_exp_def dbl_ef_def)
  have "avail heap_calloc 2 empty_mp" by (rule heap_calloc_avail) (simp add: empty_mp_ok)
  from d2b_exact [OF empty_mp_ok(1) heap_calloc_fresh this, of "(0x401a0000, 0)"]
  obtain b s' m k bits where b: "d2b heap_calloc (0x401a0000, 0) empty_mp = Some ((b, - 50 + int k, int bits), s')" "num s' b m"
    "m * 2 ^ k = 13 * 2 ^ 49" "odd m" "bit_length m bits" by (auto simp: m)
  have "snd (snd (fst (the (d2b heap_calloc (0x401a0000, 0) empty_mp)))) = 4"
    by (simp add: d2b_def Balloc_def calloc_r_def empty_mp_def heap_calloc_def Let_def Exp_shift_def Frac_mask_def Exp_msk1_def
        lo0bits_def store_words_def dbl_P_def)
  then show ?thesis using b by auto
qed




end
