(* ===== verification/LibcInt.thy ===== *)
theory LibcInt
  imports Prelude
begin

text \<open>
  Values of the C types \<^verbatim>\<open>int\<close> and \<^verbatim>\<open>long\<close> as integers. Where a result may leave the range from \<open>-2\<^sup>3\<^sup>1\<close> to
  \<open>2\<^sup>3\<^sup>1 - 1\<close>, the wrap-around is written out.
\<close>

definition cint :: "int \<Rightarrow> int" where
  "cint x = signed_take_bit 31 x"

lemma cint_id: "- (2 ^ 31) \<le> x \<Longrightarrow> x < 2 ^ 31 \<Longrightarrow> cint x = x"
  by (simp add: cint_def signed_take_bit_int_eq_self)

lemma cint_range: "- (2 ^ 31) \<le> cint x \<and> cint x < 2 ^ 31"
  unfolding cint_def using signed_take_bit_int_greater_eq_minus_exp [of 31 x] signed_take_bit_int_less_exp [of 31 x] by simp

lemma cint_add_cint: "cint (x + cint y) = cint (x + y)"
proof -
  have "take_bit 32 (x + signed_take_bit 31 y) = take_bit 32 (take_bit 32 x + take_bit 32 (signed_take_bit 31 y))" by (simp only: take_bit_add)
  also have "take_bit 32 (signed_take_bit 31 y) = take_bit 32 y" by (simp add: take_bit_signed_take_bit)
  also have "take_bit 32 (take_bit 32 x + take_bit 32 y) = take_bit 32 (x + y)" by (rule take_bit_add)
  finally have "take_bit (Suc 31) (x + signed_take_bit 31 y) = take_bit (Suc 31) (x + y)" by simp
  then show ?thesis unfolding cint_def by (simp only: signed_take_bit_eq_iff_take_bit_eq)
qed

end
