(* ===== verification/LibcTime.thy ===== *)
theory LibcTime
  imports LibcInt "HOL-Library.Signed_Division" "HOL-Library.Monad_Syntax"
begin

text \<open>
  The calendar of the C library: \<^verbatim>\<open>localtime_r\<close>, \<^verbatim>\<open>gmtime_r\<close>, \<^verbatim>\<open>mktime\<close> of \<^verbatim>\<open>src/libc/time/\<close> and the divisions
  \<^verbatim>\<open>div\<close> and \<^verbatim>\<open>ldiv\<close> of \<^verbatim>\<open>src/libc/stdlib/\<close>.

  An \<^verbatim>\<open>int\<close> or \<^verbatim>\<open>long\<close> is an integer from \<open>-2\<^sup>3\<^sup>1\<close> to \<open>2\<^sup>3\<^sup>1 - 1\<close>; where a result may leave this range the
  wrap-around is written out (\<open>cint\<close>). The operators \<^verbatim>\<open>/\<close> and \<^verbatim>\<open>%\<close> of C round towards zero. An access
  outside a table and a division by zero are \<open>None\<close>. The time zone is always UTC.
\<close>

section \<open>Division\<close>

definition div_c :: "int \<Rightarrow> int \<Rightarrow> (int \<times> int) option" where
  "div_c num denom =
     (if denom = 0 then None
      else let quot = cint (num sdiv denom); rem = num smod denom in
        if num \<ge> 0 \<and> rem < 0 then Some (cint (quot + 1), cint (rem - denom))
        else if num < 0 \<and> rem > 0 then Some (cint (quot - 1), cint (rem + denom))
        else Some (quot, rem))"

definition ldiv :: "int \<Rightarrow> int \<Rightarrow> (int \<times> int) option" where
  "ldiv num denom =
     (if denom = 0 then None
      else let quot = cint (num sdiv denom); rem = num smod denom in
        if num \<ge> 0 \<and> rem < 0 then Some (cint (quot + 1), cint (rem - denom))
        else if num < 0 \<and> rem > 0 then Some (cint (quot - 1), cint (rem + denom))
        else Some (quot, rem))"

section \<open>Broken-down time\<close>

record tm =
  tm_sec :: int
  tm_min :: int
  tm_hour :: int
  tm_mday :: int
  tm_mon :: int
  tm_year :: int
  tm_wday :: int
  tm_yday :: int
  tm_isdst :: int

section \<open>From calendar time\<close>

definition SECSPERMIN :: int where "SECSPERMIN = 60"
definition MINSPERHOUR :: int where "MINSPERHOUR = 60"
definition HOURSPERDAY :: int where "HOURSPERDAY = 24"
definition SECSPERHOUR :: int where "SECSPERHOUR = SECSPERMIN * MINSPERHOUR"
definition SECSPERDAY :: int where "SECSPERDAY = SECSPERHOUR * HOURSPERDAY"
definition DAYSPERWEEK :: int where "DAYSPERWEEK = 7"
definition YEAR_BASE :: int where "YEAR_BASE = 1900"
definition EPOCH_YEAR :: int where "EPOCH_YEAR = 1970"
definition EPOCH_WDAY :: int where "EPOCH_WDAY = 4"

definition isleap :: "int \<Rightarrow> bool" where
  "isleap y \<longleftrightarrow> y smod 4 = 0 \<and> y smod 100 \<noteq> 0 \<or> y smod 400 = 0"

definition mon_lengths :: "bool \<Rightarrow> int list" where
  "mon_lengths yleap = (if yleap then [31, 29, 31, 30, 31, 30, 31, 31, 30, 31, 30, 31] else [31, 28, 31, 30, 31, 30, 31, 31, 30, 31, 30, 31])"

definition year_lengths :: "bool \<Rightarrow> int" where
  "year_lengths yleap = (if yleap then 366 else 365)"

text \<open>The two loops that bring the remainder into range.\<close>

function rem_up :: "int \<Rightarrow> int \<Rightarrow> int \<times> int" where
  "rem_up days rem = (if rem < 0 then rem_up (days - 1) (rem + SECSPERDAY) else (days, rem))"
  by pat_completeness auto
termination by (relation "measure (\<lambda>(_, rem). nat (- rem))") (auto simp: SECSPERDAY_def SECSPERHOUR_def SECSPERMIN_def MINSPERHOUR_def HOURSPERDAY_def)

function rem_down :: "int \<Rightarrow> int \<Rightarrow> int \<times> int" where
  "rem_down days rem = (if rem \<ge> SECSPERDAY then rem_down (days + 1) (rem - SECSPERDAY) else (days, rem))"
  by pat_completeness auto
termination by (relation "measure (\<lambda>(_, rem). nat rem)") (auto simp: SECSPERDAY_def SECSPERHOUR_def SECSPERMIN_def MINSPERHOUR_def HOURSPERDAY_def)

text \<open>The years after and before 1970; the third result is \<^verbatim>\<open>yleap\<close> for the year that was reached.\<close>

function year_up :: "int \<Rightarrow> int \<Rightarrow> int \<times> int \<times> bool" where
  "year_up y days =
     (let yleap = isleap y in
      if days < year_lengths yleap then (y, days, yleap) else year_up (y + 1) (days - year_lengths yleap))"
  by pat_completeness auto
termination by (relation "measure (\<lambda>(_, days). nat days)") (auto simp: year_lengths_def split: if_splits)

function year_down :: "int \<Rightarrow> int \<Rightarrow> int \<times> int \<times> bool" where
  "year_down y days =
     (let y = y - 1; yleap = isleap y; days = days + year_lengths yleap in
      if days < 0 then year_down y days else (y, days, yleap))"
  by pat_completeness auto
termination by (relation "measure (\<lambda>(_, days). nat (- days))") (auto simp: year_lengths_def split: if_splits)

fun month_loop :: "int list \<Rightarrow> int \<Rightarrow> int \<Rightarrow> (int \<times> int) option" where
  "month_loop [] mon days = None"
| "month_loop (l # ip) mon days = (if days \<ge> l then month_loop ip (mon + 1) (days - l) else Some (mon, days))"

declare rem_up.simps [simp del] rem_down.simps [simp del] year_up.simps [simp del] year_down.simps [simp del]

text \<open>All members of the result are set. The argument is the time that \<^verbatim>\<open>tim_p\<close> points to.\<close>

definition localtime_r :: "int \<Rightarrow> tm option" where
  "localtime_r tim =
     (let (days, rem) = rem_up (tim sdiv SECSPERDAY) (tim smod SECSPERDAY);
          (days, rem) = rem_down days rem;
          hour = rem sdiv SECSPERHOUR;
          rem = rem smod SECSPERHOUR;
          min = rem sdiv SECSPERMIN;
          sec = rem smod SECSPERMIN;
          wday = (EPOCH_WDAY + days) smod DAYSPERWEEK;
          wday = (if wday < 0 then wday + DAYSPERWEEK else wday);
          y = EPOCH_YEAR;
          (y, days, yleap) = (if days \<ge> 0 then year_up y days else year_down y days);
          year = y - YEAR_BASE;
          yday = days
      in do {
        (mon, days) \<leftarrow> month_loop (mon_lengths yleap) 0 days;
        Some \<lparr>tm_sec = sec, tm_min = min, tm_hour = hour, tm_mday = days + 1, tm_mon = mon, tm_year = year,
              tm_wday = wday, tm_yday = yday, tm_isdst = - 1\<rparr> })"

definition GMT_OFFSET :: int where "GMT_OFFSET = 0"

definition gmtime_r :: "int \<Rightarrow> tm option" where
  "gmtime_r tim = localtime_r (cint (tim + GMT_OFFSET))"

section \<open>To calendar time\<close>

definition SEC_IN_MINUTE :: int where "SEC_IN_MINUTE = 60"
definition SEC_IN_HOUR :: int where "SEC_IN_HOUR = 3600"
definition SEC_IN_DAY :: int where "SEC_IN_DAY = 86400"

definition DAYS_IN_MONTH_table :: "int list" where
  "DAYS_IN_MONTH_table = [31, 28, 31, 30, 31, 30, 31, 31, 30, 31, 30, 31]"

definition DAYS_IN_MONTH :: "int \<Rightarrow> int \<Rightarrow> int option" where
  "DAYS_IN_MONTH days_in_feb x =
     (if x = 1 then Some days_in_feb else if 0 \<le> x \<and> x < 12 then Some (DAYS_IN_MONTH_table ! nat x) else None)"

definition DAYS_BEFORE_MONTH :: "int \<Rightarrow> int option" where
  "DAYS_BEFORE_MONTH x =
     (if 0 \<le> x \<and> x < 12 then Some ([0, 31, 59, 90, 120, 151, 181, 212, 243, 273, 304, 334] ! nat x) else None)"

definition ISLEAP :: "int \<Rightarrow> bool" where
  "ISLEAP y \<longleftrightarrow> y smod 4 = 0 \<and> (y smod 100 \<noteq> 0 \<or> cint (y + 1900) smod 400 = 0)"

definition DAYS_IN_YEAR :: "int \<Rightarrow> int" where
  "DAYS_IN_YEAR year = (if ISLEAP year then 366 else 365)"

text \<open>The steps that carry a quotient into the next member.\<close>

definition carry_sec :: "tm \<Rightarrow> tm option" where
  "carry_sec t =
     (if tm_sec t < 0 \<or> tm_sec t > 59 then do {
        (quot, rem) \<leftarrow> div_c (tm_sec t) 60;
        let t = t\<lparr>tm_min := cint (tm_min t + quot), tm_sec := rem\<rparr>;
        Some (if rem < 0 then t\<lparr>tm_sec := rem + 60, tm_min := cint (tm_min t - 1)\<rparr> else t) }
      else Some t)"

definition carry_min :: "tm \<Rightarrow> tm option" where
  "carry_min t =
     (if tm_min t < 0 \<or> tm_min t > 59 then do {
        (quot, rem) \<leftarrow> div_c (tm_min t) 60;
        let t = t\<lparr>tm_hour := cint (tm_hour t + quot), tm_min := rem\<rparr>;
        Some (if rem < 0 then t\<lparr>tm_min := rem + 60, tm_hour := cint (tm_hour t - 1)\<rparr> else t) }
      else Some t)"

definition carry_hour :: "tm \<Rightarrow> tm option" where
  "carry_hour t =
     (if tm_hour t < 0 \<or> tm_hour t > 23 then do {
        (quot, rem) \<leftarrow> div_c (tm_hour t) 24;
        let t = t\<lparr>tm_mday := cint (tm_mday t + quot), tm_hour := rem\<rparr>;
        Some (if rem < 0 then t\<lparr>tm_hour := rem + 24, tm_mday := cint (tm_mday t - 1)\<rparr> else t) }
      else Some t)"

definition carry_mon :: "tm \<Rightarrow> tm option" where
  "carry_mon t =
     (if tm_mon t > 11 then do {
        (quot, rem) \<leftarrow> div_c (tm_mon t) 12;
        let t = t\<lparr>tm_year := cint (tm_year t + quot), tm_mon := rem\<rparr>;
        Some (if rem < 0 then t\<lparr>tm_mon := rem + 12, tm_year := cint (tm_year t - 1)\<rparr> else t) }
      else Some t)"

partial_function (option) mday_down :: "int \<Rightarrow> tm \<Rightarrow> tm option" where
  "mday_down days_in_feb t =
     (if tm_mday t \<le> 0 then
        let t = t\<lparr>tm_mon := cint (tm_mon t - 1)\<rparr>;
            (days_in_feb, t) =
              (if tm_mon t = - 1 then
                 let t = t\<lparr>tm_year := cint (tm_year t - 1), tm_mon := 11\<rparr> in (if DAYS_IN_YEAR (tm_year t) = 366 then 29 else 28, t)
               else (days_in_feb, t))
        in do {
          d \<leftarrow> DAYS_IN_MONTH days_in_feb (tm_mon t);
          mday_down days_in_feb (t\<lparr>tm_mday := cint (tm_mday t + d)\<rparr>) }
      else Some t)"

partial_function (option) mday_up :: "int \<Rightarrow> tm \<Rightarrow> tm option" where
  "mday_up days_in_feb t = do {
     d \<leftarrow> DAYS_IN_MONTH days_in_feb (tm_mon t);
     if tm_mday t > d then
       let t = t\<lparr>tm_mday := cint (tm_mday t - d), tm_mon := cint (tm_mon t + 1)\<rparr>;
           (days_in_feb, t) =
             (if tm_mon t = 12 then
                let t = t\<lparr>tm_year := cint (tm_year t + 1), tm_mon := 0\<rparr> in (if DAYS_IN_YEAR (tm_year t) = 366 then 29 else 28, t)
              else (days_in_feb, t))
       in mday_up days_in_feb t
     else Some t }"

definition validate_structure :: "tm \<Rightarrow> tm option" where
  "validate_structure t = do {
     t \<leftarrow> carry_sec t;
     t \<leftarrow> carry_min t;
     t \<leftarrow> carry_hour t;
     t \<leftarrow> carry_mon t;
     let days_in_feb = (if DAYS_IN_YEAR (tm_year t) = 366 then 29 else 28);
     if tm_mday t \<le> 0 then mday_down days_in_feb t else mday_up days_in_feb t }"

text \<open>The sums over the years from 1970, in both directions.\<close>

function add_years :: "int \<Rightarrow> int \<Rightarrow> int \<Rightarrow> int" where
  "add_years end_year year days = (if year < end_year then add_years end_year (year + 1) (cint (days + DAYS_IN_YEAR year)) else days)"
  by pat_completeness auto
termination by (relation "measure (\<lambda>(e, y, _). nat (e - y))") auto

function sub_years :: "int \<Rightarrow> int \<Rightarrow> int \<Rightarrow> int" where
  "sub_years end_year year days =
     (if year > end_year then sub_years end_year (year - 1) (cint (days - DAYS_IN_YEAR year)) else cint (days - DAYS_IN_YEAR year))"
  by pat_completeness auto
termination by (relation "measure (\<lambda>(e, y, _). nat (y - e))") auto

declare add_years.simps [simp del] sub_years.simps [simp del]

text \<open>The results are the time and the structure that \<^verbatim>\<open>tim_p\<close> points to afterwards.\<close>

definition mktime :: "tm \<Rightarrow> (int \<times> tm) option" where
  "mktime t = do {
     t \<leftarrow> validate_structure t;
     let tim = tm_sec t + tm_min t * SEC_IN_MINUTE + tm_hour t * SEC_IN_HOUR;
     before \<leftarrow> DAYS_BEFORE_MONTH (tm_mon t);
     let days = tm_mday t - 1 + before;
     let days = (if tm_mon t > 1 \<and> DAYS_IN_YEAR (tm_year t) = 366 then days + 1 else days);
     let t = t\<lparr>tm_yday := days\<rparr>;
     if tm_year t > 10000 \<or> tm_year t < - 10000 then Some (- 1, t)
     else
       let days = (if tm_year t > 70 then add_years (tm_year t) 70 days
                   else if tm_year t < 70 then sub_years (tm_year t) 69 days
                   else days);
           wday = cint (days + 4) smod 7;
           t = t\<lparr>tm_wday := (if wday < 0 then wday + 7 else wday)\<rparr>
       in Some (cint (tim + cint (days * SEC_IN_DAY)), t) }"

end
