(* ===== verification/LibcTimeCorrect.thy ===== *)
theory LibcTimeCorrect
  imports LibcTime
begin

text \<open>
  Correctness of the calendar functions against the Gregorian calendar, given by a closed formula for
  the number of days before a year.
\<close>

section \<open>Signed division\<close>

lemma smod_eq_0_iff: "x smod c = 0 \<longleftrightarrow> c dvd x" for x c :: int
  by (auto simp: smod_int_alt_def sgn_eq_0_iff dvd_eq_mod_eq_0 [symmetric])

lemma sdiv_div: "0 \<le> x \<Longrightarrow> 0 < c \<Longrightarrow> x sdiv c = x div c" "0 \<le> x \<Longrightarrow> 0 < c \<Longrightarrow> x smod c = x mod c" for x c :: int
  by (simp_all add: signed_divide_int_eq_divide_int signed_modulo_int_eq_modulo_int zdiv_int sgn_if)

text \<open>The quotient and remainder with the correction for a negative remainder are those that round down.\<close>

lemma floor_div:
  fixes x c :: int
  assumes "0 < c"
  shows "x sdiv c - (if x smod c < 0 then 1 else 0) = x div c" "x smod c + (if x smod c < 0 then c else 0) = x mod c"
    "\<bar>x smod c\<bar> < c" "x < 0 \<Longrightarrow> x smod c \<le> 0" "0 \<le> x \<Longrightarrow> 0 \<le> x smod c"
proof -
  have e: "x sdiv c * c + x smod c = x" by (rule sdiv_mult_smod_eq)
  show b: "\<bar>x smod c\<bar> < c" using assms smod_int_range [of c x] by auto
  show "x < 0 \<Longrightarrow> x smod c \<le> 0" "0 \<le> x \<Longrightarrow> 0 \<le> x smod c" using smod_int_compares [of x c] assms by auto
  let ?q = "x sdiv c - (if x smod c < 0 then 1 else 0)" and ?r = "x smod c + (if x smod c < 0 then c else 0)"
  have r: "0 \<le> ?r" "?r < c" using b by auto
  have x: "x = ?q * c + ?r" using e by (auto simp: algebra_simps)
  show "?q = x div c" using r by (subst (3) x) simp
  show "?r = x mod c" using r by (subst (3) x) simp
qed

section \<open>The Gregorian calendar\<close>

definition leap :: "int \<Rightarrow> bool" where
  "leap y \<longleftrightarrow> 4 dvd y \<and> \<not> 100 dvd y \<or> 400 dvd y"

text \<open>Days from 1 January 1970 to 1 January of a year.\<close>

definition year_day :: "int \<Rightarrow> int" where
  "year_day y = 365 * (y - 1970) + (y - 1) div 4 - (y - 1) div 100 + (y - 1) div 400 - 477"

lemma isleap_leap: "isleap y = leap y"
  by (simp add: isleap_def leap_def smod_eq_0_iff)

lemma div_step: "y div c - (y - 1) div c = (if c dvd y then 1 else 0)" if "0 < c" for y c :: int
proof (cases "c dvd y")
  case True
  then obtain k where y: "y = c * k" by auto
  have "(c * k - 1) div c = k - 1" using that by (simp add: int_div_pos_eq [of _ c "k - 1" "c - 1"] algebra_simps)
  then show ?thesis using y that by simp
next
  case False
  then have "y mod c \<noteq> 0" by (simp add: dvd_eq_mod_eq_0)
  then have "0 < y mod c" using pos_mod_sign [OF that, of y] by linarith
  then have "(y - 1) div c = y div c"
    using that div_mult_mod_eq [of y c] pos_mod_sign [of c y] pos_mod_bound [OF that, of y]
    by (intro int_div_pos_eq [of _ c "y div c" "y mod c - 1"]) (auto simp: algebra_simps intro: order.strict_trans)
  then show ?thesis using False by simp
qed

lemma year_day_next: "year_day (y + 1) = year_day y + (if leap y then 366 else 365)"
proof -
  have d: "100 dvd y \<Longrightarrow> 4 dvd y" "400 dvd y \<Longrightarrow> 100 dvd y"
    using dvd_trans [of 4 100 y] dvd_trans [of 100 400 y] by simp_all
  have "year_day (y + 1) - year_day y = 365 + (y div 4 - (y - 1) div 4) - (y div 100 - (y - 1) div 100) + (y div 400 - (y - 1) div 400)"
    by (simp add: year_day_def)
  also have "\<dots> = (if leap y then 366 else 365)" using d by (auto simp: div_step leap_def)
  finally show ?thesis by simp
qed

lemma year_day_mono: "x \<le> y \<Longrightarrow> 365 * (y - x) \<le> year_day y - year_day x \<and> year_day y - year_day x \<le> 366 * (y - x)" for x y :: int
proof (induction "nat (y - x)" arbitrary: y)
  case (Suc n)
  have "365 * (y - 1 - x) \<le> year_day (y - 1) - year_day x \<and> year_day (y - 1) - year_day x \<le> 366 * (y - 1 - x)"
    using Suc by (intro Suc.hyps(1)) auto
  then show ?case using year_day_next [of "y - 1"] by (simp split: if_splits)
qed simp

text \<open>Days of a year before a month.\<close>

definition month_day :: "bool \<Rightarrow> int \<Rightarrow> int" where
  "month_day l m = sum_list (take (nat m) (mon_lengths l))"

definition month_length :: "bool \<Rightarrow> int \<Rightarrow> int" where
  "month_length l m = mon_lengths l ! nat m"

lemma twelve: "0 \<le> m \<Longrightarrow> m < 12 \<Longrightarrow> m = 0 \<or> m = 1 \<or> m = 2 \<or> m = 3 \<or> m = 4 \<or> m = 5 \<or> m = 6 \<or> m = 7 \<or> m = 8 \<or> m = 9 \<or> m = 10 \<or> m = 11" for m :: int
  by arith

lemma month_day_next: "0 \<le> m \<Longrightarrow> m < 12 \<Longrightarrow> month_day l (m + 1) = month_day l m + month_length l m"
proof -
  assume m: "0 \<le> m" "m < 12"
  then have "nat (m + 1) = Suc (nat m)" "nat m < length (mon_lengths l)" by (auto simp: mon_lengths_def)
  then show ?thesis by (simp add: month_day_def month_length_def take_Suc_conv_app_nth)
qed

lemma month_day_ends: "month_day l 0 = 0" "month_day l 12 = year_lengths l"
  by (simp_all add: month_day_def mon_lengths_def year_lengths_def)

lemma month_length_bounds: "0 \<le> m \<Longrightarrow> m < 12 \<Longrightarrow> 28 \<le> month_length l m \<and> month_length l m \<le> 31"
  by (drule (1) twelve) (auto simp: month_length_def mon_lengths_def)

text \<open>The day number of a date and the seconds of a broken-down time, whose members may be out of range.\<close>

definition day_number :: "int \<Rightarrow> int \<Rightarrow> int \<Rightarrow> int" where
  "day_number y m d = year_day y + month_day (leap y) m + d - 1"

definition tm_day :: "tm \<Rightarrow> int" where
  "tm_day t = day_number (1900 + tm_year t + tm_mon t div 12) (tm_mon t mod 12) (tm_mday t)"

definition seconds :: "tm \<Rightarrow> int" where
  "seconds t = tm_day t * 86400 + tm_hour t * 3600 + tm_min t * 60 + tm_sec t"

text \<open>A date, and a structure, that are in range and consistent.\<close>

definition valid_date :: "tm \<Rightarrow> bool" where
  "valid_date t \<longleftrightarrow> 0 \<le> tm_mon t \<and> tm_mon t < 12 \<and> 1 \<le> tm_mday t \<and> tm_mday t \<le> month_length (leap (1900 + tm_year t)) (tm_mon t)"

definition valid_time :: "tm \<Rightarrow> bool" where
  "valid_time t \<longleftrightarrow> 0 \<le> tm_sec t \<and> tm_sec t < 60 \<and> 0 \<le> tm_min t \<and> tm_min t < 60 \<and> 0 \<le> tm_hour t \<and> tm_hour t < 24"

definition year_offset :: "tm \<Rightarrow> int" where
  "year_offset t = month_day (leap (1900 + tm_year t)) (tm_mon t) + tm_mday t - 1"

section \<open>From calendar time\<close>

lemma rem_up_value: "- SECSPERDAY < r \<Longrightarrow> rem_up d r = (if r < 0 then (d - 1, r + SECSPERDAY) else (d, r))"
  by (subst rem_up.simps, subst rem_up.simps) simp

lemma SECSPER: "SECSPERDAY = 86400" "SECSPERHOUR = 3600" "SECSPERMIN = 60"
  by (simp_all add: SECSPERDAY_def SECSPERHOUR_def SECSPERMIN_def MINSPERHOUR_def HOURSPERDAY_def)

lemma split_days: "rem_up (t sdiv SECSPERDAY) (t smod SECSPERDAY) = (t div 86400, t mod 86400)"
  using floor_div [of 86400 t, simplified] by (subst rem_up_value) (auto simp: SECSPER split: if_splits)

lemma rem_down_id: "r < 86400 \<Longrightarrow> rem_down d r = (d, r)"
  by (subst rem_down.simps) (simp add: SECSPER)

lemma year_up_value:
  "0 \<le> d \<Longrightarrow> \<exists>y' d'. year_up y d = (y', d', leap y') \<and> 0 \<le> d' \<and> d' < year_lengths (leap y') \<and> year_day y' + d' = year_day y + d"
proof (induction y d rule: year_up.induct)
  case (1 y d)
  show ?case
  proof (cases "d < year_lengths (isleap y)")
    case True
    then show ?thesis using 1(2) by (subst year_up.simps) (simp add: isleap_leap)
  next
    case False
    then obtain y' d' where "year_up (y + 1) (d - year_lengths (isleap y)) = (y', d', leap y')" "0 \<le> d'" "d' < year_lengths (leap y')"
      "year_day y' + d' = year_day (y + 1) + (d - year_lengths (isleap y))" using 1 by auto
    moreover have "year_up y d = year_up (y + 1) (d - year_lengths (isleap y))" using False by (subst year_up.simps) simp
    moreover have "year_day (y + 1) - year_lengths (isleap y) = year_day y" by (simp add: year_day_next isleap_leap year_lengths_def)
    ultimately show ?thesis by simp
  qed
qed

lemma year_down_value:
  "d < 0 \<Longrightarrow> \<exists>y' d'. year_down y d = (y', d', leap y') \<and> 0 \<le> d' \<and> d' < year_lengths (leap y') \<and> year_day y' + d' = year_day y + d"
proof (induction y d rule: year_down.induct)
  case (1 y d)
  let ?d = "d + year_lengths (isleap (y - 1))"
  have e: "year_day (y - 1) + ?d = year_day y + d" using year_day_next [of "y - 1"] by (simp add: isleap_leap year_lengths_def)
  show ?case
  proof (cases "?d < 0")
    case True
    then have "year_down y d = year_down (y - 1) ?d" by (subst year_down.simps) (simp add: Let_def)
    then show ?thesis using 1(1) [OF refl refl refl True] True e by simp
  next
    case False
    then have "year_down y d = (y - 1, ?d, leap (y - 1))" by (subst year_down.simps) (simp add: Let_def isleap_leap)
    then show ?thesis using False 1(2) e by (simp add: isleap_leap)
  qed
qed

lemma month_loop_value:
  "0 \<le> d \<Longrightarrow> d < sum_list ls \<Longrightarrow> \<exists>k<length ls. month_loop ls m d = Some (m + int k, d - sum_list (take k ls))
    \<and> 0 \<le> d - sum_list (take k ls) \<and> d - sum_list (take k ls) < ls ! k"
proof (induction ls arbitrary: m d)
  case (Cons l ls)
  show ?case
  proof (cases "l \<le> d")
    case True
    then obtain k where k: "k < length ls" "month_loop ls (m + 1) (d - l) = Some (m + 1 + int k, d - l - sum_list (take k ls))"
      "0 \<le> d - l - sum_list (take k ls)" "d - l - sum_list (take k ls) < ls ! k"
      using Cons.IH [of "d - l" "m + 1"] Cons.prems by auto
    then show ?thesis using True by (intro exI [of _ "Suc k"]) (simp add: algebra_simps)
  next
    case False
    then show ?thesis using Cons.prems by (intro exI [of _ 0]) simp
  qed
qed simp

lemma month_of_day:
  assumes "0 \<le> d" "d < year_lengths l"
  shows "\<exists>m. month_loop (mon_lengths l) 0 d = Some (m, d - month_day l m) \<and> 0 \<le> m \<and> m < 12 \<and> 0 \<le> d - month_day l m \<and> d - month_day l m < month_length l m"
proof -
  have l: "length (mon_lengths l) = 12" "sum_list (mon_lengths l) = year_lengths l" by (simp_all add: mon_lengths_def year_lengths_def)
  obtain k where "k < 12" "month_loop (mon_lengths l) 0 d = Some (int k, d - sum_list (take k (mon_lengths l)))"
    "0 \<le> d - sum_list (take k (mon_lengths l))" "d - sum_list (take k (mon_lengths l)) < mon_lengths l ! k"
    using month_loop_value [of d "mon_lengths l" 0] assms unfolding l by auto
  then show ?thesis by (intro exI [of _ "int k"]) (simp add: month_day_def month_length_def)
qed

lemma localtime_r_ok:
  "\<exists>t. localtime_r tim = Some t \<and> valid_date t \<and> valid_time t \<and> seconds t = tim \<and> tm_wday t = (tim div 86400 + 4) mod 7
    \<and> tm_yday t = year_offset t \<and> tm_isdst t = - 1"
proof -
  define days rem where "days = tim div 86400" "rem = tim mod 86400"
  have rem: "0 \<le> rem" "rem < 86400" by (simp_all add: days_rem_def)
  obtain y d where y: "(if days \<ge> 0 then year_up EPOCH_YEAR days else year_down EPOCH_YEAR days) = (y, d, leap y)"
    "0 \<le> d" "d < year_lengths (leap y)" "year_day y + d = days"
    using year_up_value [of days EPOCH_YEAR] year_down_value [of days EPOCH_YEAR] by (cases "days \<ge> 0") (auto simp: EPOCH_YEAR_def year_day_def)
  obtain m where m: "month_loop (mon_lengths (leap y)) 0 d = Some (m, d - month_day (leap y) m)" "0 \<le> m" "m < 12"
    "0 \<le> d - month_day (leap y) m" "d - month_day (leap y) m < month_length (leap y) m" using month_of_day [OF y(2,3)] by blast
  let ?wd = "(EPOCH_WDAY + days) smod DAYSPERWEEK"
  have wd: "(if ?wd < 0 then ?wd + DAYSPERWEEK else ?wd) = (days + 4) mod 7"
    using floor_div(2) [of 7 "4 + days"] by (auto simp: EPOCH_WDAY_def DAYSPERWEEK_def add.commute split: if_splits)
  let ?t = "\<lparr>tm_sec = rem mod 3600 mod 60, tm_min = rem mod 3600 div 60, tm_hour = rem div 3600, tm_mday = d - month_day (leap y) m + 1,
    tm_mon = m, tm_year = y - 1900, tm_wday = (days + 4) mod 7, tm_yday = d, tm_isdst = - 1\<rparr>"
  have "localtime_r tim = Some ?t"
    unfolding localtime_r_def Let_def split_days days_rem_def [symmetric] prod.case rem_down_id [OF rem(2)] y(1) m(1) wd
    using rem by (simp add: SECSPER sdiv_div YEAR_BASE_def)
  moreover have "valid_date ?t" "valid_time ?t" using m rem by (auto simp: valid_date_def valid_time_def)
  moreover have "seconds ?t = tim"
  proof -
    have "seconds ?t = days * 86400 + (rem div 3600 * 3600 + (rem mod 3600 div 60 * 60 + rem mod 3600 mod 60))"
      using m(2,3) y(4) by (simp add: seconds_def tm_day_def day_number_def)
    also have "\<dots> = days * 86400 + rem" by (simp only: div_mult_mod_eq)
    also have "\<dots> = tim" unfolding days_rem_def by (rule div_mult_mod_eq)
    finally show ?thesis .
  qed
  moreover have "tm_yday ?t = year_offset ?t" by (simp add: year_offset_def)
  ultimately show ?thesis unfolding days_rem_def(1) [symmetric] by (intro exI [of _ ?t]) (simp only: tm.simps simp_thms)
qed


section \<open>Uniqueness\<close>

lemma year_offset_range: "valid_date t \<Longrightarrow> 0 \<le> year_offset t \<and> year_offset t < year_lengths (leap (1900 + tm_year t))"
proof -
  assume v: "valid_date t"
  let ?l = "leap (1900 + tm_year t)"
  have mono: "0 \<le> month_day ?l m" "m \<le> 12 \<Longrightarrow> month_day ?l m \<le> year_lengths ?l" if "0 \<le> m" for m
  proof -
    have nn: "\<forall>x\<in>set (mon_lengths ?l). 0 \<le> x" by (auto simp: mon_lengths_def)
    have "sum_list (take k (mon_lengths ?l)) \<le> sum_list (take k (mon_lengths ?l)) + sum_list (drop k (mon_lengths ?l))" for k
      using sum_list_nonneg [of "drop k (mon_lengths ?l)"] nn in_set_dropD by fastforce
    then have "sum_list (take k (mon_lengths ?l)) \<le> sum_list (mon_lengths ?l)" for k
      by (simp flip: sum_list.append)
    moreover have "sum_list (mon_lengths ?l) = year_lengths ?l" by (simp add: mon_lengths_def year_lengths_def)
    ultimately show "month_day ?l m \<le> year_lengths ?l" by (simp add: month_day_def)
    show "0 \<le> month_day ?l m" unfolding month_day_def using nn by (intro sum_list_nonneg) (auto dest: in_set_takeD)
  qed
  have "month_day ?l (tm_mon t + 1) = month_day ?l (tm_mon t) + month_length ?l (tm_mon t)" using v by (intro month_day_next) (auto simp: valid_date_def)
  then show ?thesis using v mono(1) [of "tm_mon t"] mono(2) [of "tm_mon t + 1"] by (auto simp: valid_date_def year_offset_def)
qed

lemma month_day_less: "0 \<le> m \<Longrightarrow> m < n \<Longrightarrow> n \<le> 12 \<Longrightarrow> month_day l m + month_length l m \<le> month_day l n" for m n :: int
proof (induction "nat (n - m)" arbitrary: n)
  case (Suc k)
  show ?case
  proof (cases "n = m + 1")
    case True
    then show ?thesis using Suc.prems month_day_next [of m l] by simp
  next
    case False
    then have "month_day l m + month_length l m \<le> month_day l (n - 1)" using Suc by (intro Suc.hyps(1)) auto
    then show ?thesis using month_day_next [of "n - 1" l] month_length_bounds [of "n - 1" l] Suc.prems by simp
  qed
qed simp

lemma tm_day_valid: "valid_date t \<Longrightarrow> tm_day t = year_day (1900 + tm_year t) + year_offset t"
  by (simp add: tm_day_def valid_date_def day_number_def year_offset_def)

lemma year_day_split:
  assumes "year_day y + d = year_day y' + d'" "0 \<le> d" "d < year_lengths (leap y)" "0 \<le> d'" "d' < year_lengths (leap y')"
  shows "y = y'" "d = d'"
proof -
  have "\<not> x < z" if "year_day x + a = year_day z + b" "a < year_lengths (leap x)" "0 \<le> b" for x z a b
  proof
    assume "x < z"
    then have "year_day (x + 1) \<le> year_day z" using year_day_mono [of "x + 1" z] by auto
    then show False using that year_day_next [of x] by (simp add: year_lengths_def split: if_splits)
  qed
  from this [OF assms(1,3,4)] this [OF assms(1) [symmetric] assms(5,2)] show "y = y'" by simp
  then show "d = d'" using assms(1) by simp
qed

lemma valid_date_unique:
  assumes "valid_date t" "valid_date u" "tm_day t = tm_day u"
  shows "tm_year t = tm_year u" "tm_mon t = tm_mon u" "tm_mday t = tm_mday u"
proof -
  have e: "year_day (1900 + tm_year t) + year_offset t = year_day (1900 + tm_year u) + year_offset u"
    using assms by (simp add: tm_day_valid)
  note r = year_day_split [OF e] year_offset_range [OF assms(1)] year_offset_range [OF assms(2)]
  show y: "tm_year t = tm_year u" using r by simp
  have o: "year_offset t = year_offset u" using r by simp
  have less: "\<not> tm_mon a < tm_mon b" if "valid_date a" "valid_date b" "year_offset a = year_offset b" "tm_year a = tm_year b" for a b
  proof
    assume "tm_mon a < tm_mon b"
    then have "month_day (leap (1900 + tm_year a)) (tm_mon a) + month_length (leap (1900 + tm_year a)) (tm_mon a) \<le> month_day (leap (1900 + tm_year a)) (tm_mon b)"
      using that(1,2) by (intro month_day_less) (auto simp: valid_date_def)
    then show False using that by (auto simp: valid_date_def year_offset_def)
  qed
  from less [OF assms(1,2) o y] less [OF assms(2,1) o [symmetric] y [symmetric]] show m: "tm_mon t = tm_mon u" by simp
  show "tm_mday t = tm_mday u" using o y m by (simp add: year_offset_def)
qed

lemma digit_unique: "a * c + r = b * c + s \<Longrightarrow> 0 \<le> r \<Longrightarrow> r < c \<Longrightarrow> 0 \<le> s \<Longrightarrow> s < c \<Longrightarrow> a = b \<and> r = s" for a b c r s :: int
proof -
  assume e: "a * c + r = b * c + s" and r: "0 \<le> r" "r < c" "0 \<le> s" "s < c"
  have "(a * c + r) div c = a" "(b * c + s) div c = b" using r by simp_all
  then show ?thesis using e by simp
qed

lemma valid_unique:
  assumes "valid_date t" "valid_date u" "valid_time t" "valid_time u" "seconds t = seconds u"
  shows "tm_sec t = tm_sec u" "tm_min t = tm_min u" "tm_hour t = tm_hour u" "tm_day t = tm_day u"
proof -
  have s: "seconds x = ((tm_day x * 24 + tm_hour x) * 60 + tm_min x) * 60 + tm_sec x" for x by (simp add: seconds_def)
  note v = assms(3,4) [unfolded valid_time_def]
  have 1: "(tm_day t * 24 + tm_hour t) * 60 + tm_min t = (tm_day u * 24 + tm_hour u) * 60 + tm_min u \<and> tm_sec t = tm_sec u"
    using v assms(5) unfolding s by (intro digit_unique) auto
  have 2: "tm_day t * 24 + tm_hour t = tm_day u * 24 + tm_hour u \<and> tm_min t = tm_min u" using v 1 by (intro digit_unique) auto
  have 3: "tm_day t = tm_day u \<and> tm_hour t = tm_hour u" using v 2 by (intro digit_unique) auto
  from 1 2 3 show "tm_sec t = tm_sec u" "tm_min t = tm_min u" "tm_hour t = tm_hour u" "tm_day t = tm_day u" by auto
qed

section \<open>To calendar time\<close>

lemma div_small:
  fixes x c :: int
  assumes "12 \<le> c" "\<bar>x\<bar> \<le> 2 ^ 30 + 2 ^ 29"
  shows "\<bar>x div c\<bar> \<le> 2 ^ 28"
proof -
  have e: "x div c * c + x mod c = x" "0 \<le> x mod c" "x mod c < c" using assms(1) by simp_all
  have b: "x \<le> 1610612736" "- 1610612736 \<le> x" using assms(2) by simp_all
  have "x div c \<le> 2 ^ 28"
  proof (rule ccontr)
    assume "\<not> ?thesis"
    then have "2 ^ 28 * 12 \<le> x div c * c" using assms(1) by (intro mult_mono) auto
    then have "3221225472 \<le> x div c * c" by (simp only: power_numeral) simp
    then show False using e(1,2) b by linarith
  qed
  moreover have "- (2 ^ 28) \<le> x div c"
  proof (rule ccontr)
    assume "\<not> ?thesis"
    then have "2 ^ 28 * 12 \<le> (- (x div c) - 1) * c" using assms(1) by (intro mult_mono) auto
    then have "3221225472 \<le> - (x div c * c) - c" by (simp add: algebra_simps)
    then show False using e b by linarith
  qed
  ultimately show ?thesis by simp
qed

lemma carry_div:
  assumes "12 \<le> c" "\<bar>x\<bar> \<le> 2 ^ 30 + 2 ^ 29" "\<bar>y\<bar> \<le> 2 ^ 30"
  obtains q r where "div_c x c = Some (q, r)" "cint (y + q) = y + q" "cint (y + q - 1) = y + q - 1"
    "r < 0 \<Longrightarrow> x mod c = r + c \<and> x div c = q - 1" "\<not> r < 0 \<Longrightarrow> x mod c = r \<and> x div c = q"
proof -
  have c: "0 < c" using assms(1) by simp
  note f = floor_div [OF c, of x]
  have d: "\<bar>x div c\<bar> \<le> 2 ^ 28" by (rule div_small [OF assms(1,2)])
  have q: "\<bar>x sdiv c\<bar> \<le> 2 ^ 28 + 1" using f(1) d by (cases "x smod c < 0") auto
  then have "cint (x sdiv c) = x sdiv c" by (intro cint_id) auto
  then have "div_c x c = Some (x sdiv c, x smod c)" using c f(4,5) by (auto simp: div_c_def Let_def)
  moreover have "cint (y + x sdiv c) = y + x sdiv c" "cint (y + x sdiv c - 1) = y + x sdiv c - 1" by (rule cint_id; use q assms(3) in auto)+
  moreover have "x smod c < 0 \<Longrightarrow> x mod c = x smod c + c \<and> x div c = x sdiv c - 1" "\<not> x smod c < 0 \<Longrightarrow> x mod c = x smod c \<and> x div c = x sdiv c"
    using f(1,2) by auto
  ultimately show thesis by (rule that)
qed

lemma carry_sec_value:
  assumes "\<bar>tm_sec t\<bar> \<le> 2 ^ 30 + 2 ^ 29" "\<bar>tm_min t\<bar> \<le> 2 ^ 30"
  shows "carry_sec t = Some (t\<lparr>tm_sec := tm_sec t mod 60, tm_min := tm_min t + tm_sec t div 60\<rparr>)"
proof (cases "tm_sec t < 0 \<or> tm_sec t > 59")
  case True
  obtain q r where q: "div_c (tm_sec t) 60 = Some (q, r)" "cint (tm_min t + q) = tm_min t + q" "cint (tm_min t + q - 1) = tm_min t + q - 1"
    "r < 0 \<Longrightarrow> tm_sec t mod 60 = r + 60 \<and> tm_sec t div 60 = q - 1" "\<not> r < 0 \<Longrightarrow> tm_sec t mod 60 = r \<and> tm_sec t div 60 = q"
    by (rule carry_div [of 60 "tm_sec t" "tm_min t"]) (use assms in auto)
  show ?thesis using True q by (cases "r < 0") (auto simp: carry_sec_def Let_def)
next
  case False
  then have "tm_sec t div 60 = 0" "tm_sec t mod 60 = tm_sec t" by auto
  then show ?thesis using False by (simp add: carry_sec_def)
qed

lemma carry_min_value:
  assumes "\<bar>tm_min t\<bar> \<le> 2 ^ 30 + 2 ^ 29" "\<bar>tm_hour t\<bar> \<le> 2 ^ 30"
  shows "carry_min t = Some (t\<lparr>tm_min := tm_min t mod 60, tm_hour := tm_hour t + tm_min t div 60\<rparr>)"
proof (cases "tm_min t < 0 \<or> tm_min t > 59")
  case True
  obtain q r where q: "div_c (tm_min t) 60 = Some (q, r)" "cint (tm_hour t + q) = tm_hour t + q" "cint (tm_hour t + q - 1) = tm_hour t + q - 1"
    "r < 0 \<Longrightarrow> tm_min t mod 60 = r + 60 \<and> tm_min t div 60 = q - 1" "\<not> r < 0 \<Longrightarrow> tm_min t mod 60 = r \<and> tm_min t div 60 = q"
    by (rule carry_div [of 60 "tm_min t" "tm_hour t"]) (use assms in auto)
  show ?thesis using True q by (cases "r < 0") (auto simp: carry_min_def Let_def)
next
  case False
  then have "tm_min t div 60 = 0" "tm_min t mod 60 = tm_min t" by auto
  then show ?thesis using False by (simp add: carry_min_def)
qed

lemma carry_hour_value:
  assumes "\<bar>tm_hour t\<bar> \<le> 2 ^ 30 + 2 ^ 29" "\<bar>tm_mday t\<bar> \<le> 2 ^ 30"
  shows "carry_hour t = Some (t\<lparr>tm_hour := tm_hour t mod 24, tm_mday := tm_mday t + tm_hour t div 24\<rparr>)"
proof (cases "tm_hour t < 0 \<or> tm_hour t > 23")
  case True
  obtain q r where q: "div_c (tm_hour t) 24 = Some (q, r)" "cint (tm_mday t + q) = tm_mday t + q" "cint (tm_mday t + q - 1) = tm_mday t + q - 1"
    "r < 0 \<Longrightarrow> tm_hour t mod 24 = r + 24 \<and> tm_hour t div 24 = q - 1" "\<not> r < 0 \<Longrightarrow> tm_hour t mod 24 = r \<and> tm_hour t div 24 = q"
    by (rule carry_div [of 24 "tm_hour t" "tm_mday t"]) (use assms in auto)
  show ?thesis using True q by (cases "r < 0") (auto simp: carry_hour_def Let_def)
next
  case False
  then have "tm_hour t div 24 = 0" "tm_hour t mod 24 = tm_hour t" by auto
  then show ?thesis using False by (simp add: carry_hour_def)
qed

lemma carry_mon_value:
  assumes "\<bar>tm_mon t\<bar> \<le> 2 ^ 30 + 2 ^ 29" "\<bar>tm_year t\<bar> \<le> 2 ^ 30" "0 \<le> tm_mon t"
  shows "carry_mon t = Some (t\<lparr>tm_mon := tm_mon t mod 12, tm_year := tm_year t + tm_mon t div 12\<rparr>)"
proof (cases "tm_mon t > 11")
  case True
  obtain q r where q: "div_c (tm_mon t) 12 = Some (q, r)" "cint (tm_year t + q) = tm_year t + q" "cint (tm_year t + q - 1) = tm_year t + q - 1"
    "r < 0 \<Longrightarrow> tm_mon t mod 12 = r + 12 \<and> tm_mon t div 12 = q - 1" "\<not> r < 0 \<Longrightarrow> tm_mon t mod 12 = r \<and> tm_mon t div 12 = q"
    by (rule carry_div [of 12 "tm_mon t" "tm_year t"]) (use assms in auto)
  show ?thesis using True q by (cases "r < 0") (auto simp: carry_mon_def Let_def)
next
  case False
  then have "tm_mon t div 12 = 0" "tm_mon t mod 12 = tm_mon t" using assms(3) by auto
  then show ?thesis using False by (simp add: carry_mon_def)
qed

lemma ISLEAP_leap: "- (2 ^ 31) \<le> y \<Longrightarrow> y + 1900 < 2 ^ 31 \<Longrightarrow> ISLEAP y = leap (1900 + y)"
proof -
  assume y: "- (2 ^ 31) \<le> y" "y + 1900 < 2 ^ 31"
  then have c: "cint (y + 1900) = 1900 + y" by (subst cint_id) auto
  have d: "4 dvd 1900 + y \<longleftrightarrow> 4 dvd y" "100 dvd 1900 + y \<longleftrightarrow> 100 dvd y"
    using dvd_add_right_iff [of 4 1900 y] dvd_add_right_iff [of 100 1900 y] by simp_all
  have "400 dvd 1900 + y \<Longrightarrow> 4 dvd 1900 + y" using dvd_trans [of 4 400 "1900 + y"] by simp
  then show ?thesis unfolding ISLEAP_def c smod_eq_0_iff leap_def d by auto
qed

lemma DAYS_IN_YEAR_lengths: "- (2 ^ 31) \<le> y \<Longrightarrow> y + 1900 < 2 ^ 31 \<Longrightarrow> DAYS_IN_YEAR y = year_lengths (leap (1900 + y))"
  by (simp add: DAYS_IN_YEAR_def ISLEAP_leap year_lengths_def)

definition feb :: "int \<Rightarrow> int" where
  "feb y = (if leap (1900 + y) then 29 else 28)"

lemma feb_value: "- (2 ^ 31) \<le> y \<Longrightarrow> y + 1900 < 2 ^ 31 \<Longrightarrow> (if DAYS_IN_YEAR y = 366 then 29 else 28) = feb y"
  by (simp add: DAYS_IN_YEAR_lengths feb_def year_lengths_def)

lemma DAYS_IN_MONTH_length: "0 \<le> m \<Longrightarrow> m < 12 \<Longrightarrow> DAYS_IN_MONTH (feb y) m = Some (month_length (leap (1900 + y)) m)"
  by (drule (1) twelve) (auto simp: DAYS_IN_MONTH_def month_length_def mon_lengths_def DAYS_IN_MONTH_table_def feb_def)

text \<open>A structure with a month in range; the day number with the month before and after.\<close>

lemma day_number_prev:
  assumes "0 \<le> m" "m < 12"
  shows "day_number y m d = (if m = 0 then day_number (y - 1) 11 (d + month_length (leap (y - 1)) 11) else day_number y (m - 1) (d + month_length (leap y) (m - 1)))"
proof (cases "m = 0")
  case True
  have "month_day (leap (y - 1)) 11 + month_length (leap (y - 1)) 11 = year_lengths (leap (y - 1))"
    using month_day_next [of 11 "leap (y - 1)"] month_day_ends(2) by simp
  then show ?thesis using year_day_next [of "y - 1"] True by (simp add: day_number_def month_day_ends year_lengths_def)
next
  case False
  then show ?thesis using month_day_next [of "m - 1" "leap y"] assms by (simp add: day_number_def)
qed

lemma tm_day_month: "0 \<le> tm_mon t \<Longrightarrow> tm_mon t < 12 \<Longrightarrow> tm_day t = day_number (1900 + tm_year t) (tm_mon t) (tm_mday t)"
  by (simp add: tm_day_def)

text \<open>What normalising the day keeps.\<close>

definition same_time :: "tm \<Rightarrow> tm \<Rightarrow> bool" where
  "same_time t u \<longleftrightarrow> (\<exists>d m y. u = t\<lparr>tm_mday := d, tm_mon := m, tm_year := y\<rparr>)"

lemma same_time_refl [simp]: "same_time t t"
  unfolding same_time_def by (intro exI [of _ "tm_mday t"] exI [of _ "tm_mon t"] exI [of _ "tm_year t"]) simp

lemma same_time_upd: "same_time (t\<lparr>tm_mday := d, tm_mon := m, tm_year := y\<rparr>) u \<Longrightarrow> same_time t u"
  by (auto simp: same_time_def)

lemma tm_update_order: "t\<lparr>tm_mon := m, tm_mday := d\<rparr> = t\<lparr>tm_mday := d, tm_mon := m\<rparr>" "t\<lparr>tm_year := y, tm_mon := m\<rparr> = t\<lparr>tm_mon := m, tm_year := y\<rparr>"
  "t\<lparr>tm_year := y, tm_mday := d\<rparr> = t\<lparr>tm_mday := d, tm_year := y\<rparr>" for t :: tm
  by (cases t, simp)+

lemma mday_down_ok:
  assumes "0 \<le> tm_mon t" "tm_mon t < 12" "tm_mday t \<le> 31" "- (2 ^ 31) + 1 \<le> tm_year t + tm_mday t - 31" "tm_year t + 1900 < 2 ^ 31" "- (2 ^ 31) \<le> tm_mday t"
    "0 < tm_mday t \<Longrightarrow> valid_date t"
  shows "\<exists>u. mday_down (feb (tm_year t)) t = Some u \<and> valid_date u \<and> tm_day u = tm_day t \<and> same_time t u \<and> - (2 ^ 31) \<le> tm_year u \<and> tm_year u + 1900 < 2 ^ 31"
  using assms
proof (induction "nat (1 - tm_mday t)" arbitrary: t rule: less_induct)
  case less
  show ?case
  proof (cases "tm_mday t \<le> 0")
    case False
    then have "mday_down (feb (tm_year t)) t = Some t" by (subst mday_down.simps) simp
    then show ?thesis using less.prems(3-5,7) False by simp
  next
    case True
    define m y where "m = (if tm_mon t = 0 then 11 else tm_mon t - 1)" "y = (if tm_mon t = 0 then tm_year t - 1 else tm_year t)"
    define d where "d = tm_mday t + month_length (leap (1900 + y)) m"
    let ?u = "t\<lparr>tm_mday := d, tm_mon := m, tm_year := y\<rparr>"
    have m: "0 \<le> m" "m < 12" using less.prems(1,2) by (auto simp: m_y_def)
    have ml: "28 \<le> month_length (leap (1900 + y)) m" "month_length (leap (1900 + y)) m \<le> 31" using month_length_bounds [OF m] by auto
    have yb: "tm_year t - 1 \<le> y" by (simp add: m_y_def)
    have y: "- (2 ^ 31) + 1 \<le> tm_year t" using less.prems(4) True by simp
    have c: "cint (tm_mon t - 1) = tm_mon t - 1" "cint (tm_year t - 1) = tm_year t - 1" "cint d = d"
      using less.prems(1,2,5,6) y ml True by (auto intro!: cint_id simp: d_def)
    have "mday_down (feb (tm_year t)) t = mday_down (feb y) ?u"
    proof (cases "tm_mon t = 0")
      case z: True
      have "(if DAYS_IN_YEAR (tm_year t - 1) = 366 then 29 else 28) = feb (tm_year t - 1)" using less.prems(5) y by (intro feb_value) auto
      then show ?thesis using True z c DAYS_IN_MONTH_length [of 11 "tm_year t - 1"]
        by (subst mday_down.simps) (simp add: Let_def m_y_def d_def tm_update_order)
    next
      case nz: False
      then show ?thesis using True c DAYS_IN_MONTH_length [of "tm_mon t - 1" "tm_year t"] less.prems(1,2)
        by (subst mday_down.simps) (simp add: Let_def m_y_def d_def tm_update_order)
    qed
    moreover have "\<exists>v. mday_down (feb (tm_year ?u)) ?u = Some v \<and> valid_date v \<and> tm_day v = tm_day ?u \<and> same_time ?u v \<and> - (2 ^ 31) \<le> tm_year v \<and> tm_year v + 1900 < 2 ^ 31"
    proof (rule less.hyps)
      show "nat (1 - tm_mday ?u) < nat (1 - tm_mday t)" using ml True by (simp add: d_def)
      show "- (2 ^ 31) + 1 \<le> tm_year ?u + tm_mday ?u - 31" using less.prems(4) ml yb by (simp add: d_def)
      show "0 < tm_mday ?u \<Longrightarrow> valid_date ?u" using True m ml by (simp add: valid_date_def d_def)
    qed (use less.prems m ml True in \<open>auto simp: d_def m_y_def\<close>)
    moreover have "tm_day ?u = tm_day t"
      using day_number_prev [OF less.prems(1,2), of "1900 + tm_year t" "tm_mday t"] m less.prems(1,2)
      by (simp add: tm_day_month d_def m_y_def split: if_splits)
    ultimately show ?thesis using same_time_upd by auto
  qed
qed

lemma mday_up_ok:
  assumes "0 \<le> tm_mon t" "tm_mon t < 12" "0 < tm_mday t" "tm_year t + tm_mday t + 1900 < 2 ^ 31" "- (2 ^ 31) \<le> tm_year t" "tm_mday t < 2 ^ 31"
  shows "\<exists>u. mday_up (feb (tm_year t)) t = Some u \<and> valid_date u \<and> tm_day u = tm_day t \<and> same_time t u \<and> - (2 ^ 31) \<le> tm_year u \<and> tm_year u + 1900 < 2 ^ 31"
  using assms
proof (induction "nat (tm_mday t)" arbitrary: t rule: less_induct)
  case less
  let ?l = "month_length (leap (1900 + tm_year t)) (tm_mon t)"
  have ml: "28 \<le> ?l" "?l \<le> 31" using month_length_bounds [OF less.prems(1,2)] by auto
  have dm: "DAYS_IN_MONTH (feb (tm_year t)) (tm_mon t) = Some ?l" by (rule DAYS_IN_MONTH_length [OF less.prems(1,2)])
  show ?case
  proof (cases "tm_mday t > ?l")
    case False
    then have "mday_up (feb (tm_year t)) t = Some t" using dm by (subst mday_up.simps) simp
    then show ?thesis using less.prems False by (simp add: valid_date_def)
  next
    case True
    define m y where "m = (if tm_mon t = 11 then 0 else tm_mon t + 1)" "y = (if tm_mon t = 11 then tm_year t + 1 else tm_year t)"
    define d where "d = tm_mday t - ?l"
    let ?u = "t\<lparr>tm_mday := d, tm_mon := m, tm_year := y\<rparr>"
    have m: "0 \<le> m" "m < 12" using less.prems(1,2) by (auto simp: m_y_def)
    have c: "cint (tm_mon t + 1) = tm_mon t + 1" "cint (tm_year t + 1) = tm_year t + 1" "cint d = d"
      using less.prems ml True by (auto intro!: cint_id simp: d_def)
    have "mday_up (feb (tm_year t)) t = mday_up (feb y) ?u"
    proof (cases "tm_mon t = 11")
      case z: True
      have "(if DAYS_IN_YEAR (tm_year t + 1) = 366 then 29 else 28) = feb (tm_year t + 1)" using less.prems ml True by (intro feb_value) auto
      then show ?thesis using True z c dm by (subst mday_up.simps) (simp add: Let_def m_y_def d_def tm_update_order)
    next
      case nz: False
      then show ?thesis using True c dm by (subst mday_up.simps) (simp add: Let_def m_y_def d_def)
    qed
    moreover have "\<exists>v. mday_up (feb (tm_year ?u)) ?u = Some v \<and> valid_date v \<and> tm_day v = tm_day ?u \<and> same_time ?u v \<and> - (2 ^ 31) \<le> tm_year v \<and> tm_year v + 1900 < 2 ^ 31"
      by (rule less.hyps) (use less.prems m ml True in \<open>auto simp: d_def m_y_def\<close>)
    moreover have "tm_day ?u = tm_day t"
      using day_number_prev [OF m, of "1900 + y" d] m less.prems(1,2) by (auto simp: tm_day_month d_def m_y_def split: if_splits)
    ultimately show ?thesis using same_time_upd by auto
  qed
qed

section \<open>The sums over the years\<close>

lemma add_years_value:
  "a \<le> e \<Longrightarrow> e \<le> 10000 \<Longrightarrow> - 10000 \<le> a \<Longrightarrow> 0 \<le> d \<Longrightarrow> d + year_day (1900 + e) - year_day (1900 + a) < 2 ^ 31
    \<Longrightarrow> add_years e a d = d + year_day (1900 + e) - year_day (1900 + a)"
proof (induction e a d rule: add_years.induct)
  case (1 e a d)
  show ?case
  proof (cases "a < e")
    case True
    have s: "year_day (1900 + (a + 1)) = year_day (1900 + a) + DAYS_IN_YEAR a"
      using year_day_next [of "1900 + a"] DAYS_IN_YEAR_lengths [of a] "1.prems" by (simp add: year_lengths_def add.assoc)
    have l: "0 \<le> DAYS_IN_YEAR a" by (simp add: DAYS_IN_YEAR_def)
    have "year_day (1900 + (a + 1)) \<le> year_day (1900 + e)" using year_day_mono [of "1900 + (a + 1)" "1900 + e"] True by auto
    then have c: "cint (d + DAYS_IN_YEAR a) = d + DAYS_IN_YEAR a" using s l "1.prems" by (intro cint_id) auto
    have "add_years e (a + 1) (cint (d + DAYS_IN_YEAR a)) = cint (d + DAYS_IN_YEAR a) + year_day (1900 + e) - year_day (1900 + (a + 1))"
      by (rule "1.IH") (use True "1.prems" c s l in auto)
    then show ?thesis using True c s by (subst add_years.simps) simp
  next
    case False
    then show ?thesis using "1.prems" by (subst add_years.simps) simp
  qed
qed

lemma sub_years_value:
  "e \<le> a \<Longrightarrow> - 10000 \<le> e \<Longrightarrow> a \<le> 10000 \<Longrightarrow> d < 2 ^ 31 \<Longrightarrow> - (2 ^ 31) \<le> d - (year_day (1900 + (a + 1)) - year_day (1900 + e))
    \<Longrightarrow> sub_years e a d = d - (year_day (1900 + (a + 1)) - year_day (1900 + e))"
proof (induction e a d rule: sub_years.induct)
  case (1 e a d)
  have s: "year_day (1900 + (a + 1)) = year_day (1900 + a) + DAYS_IN_YEAR a"
    using year_day_next [of "1900 + a"] DAYS_IN_YEAR_lengths [of a] "1.prems" by (simp add: year_lengths_def add.assoc)
  have l: "0 \<le> DAYS_IN_YEAR a" by (simp add: DAYS_IN_YEAR_def)
  have "year_day (1900 + e) \<le> year_day (1900 + a)" using year_day_mono [of "1900 + e" "1900 + a"] "1.prems" by auto
  then have c: "cint (d - DAYS_IN_YEAR a) = d - DAYS_IN_YEAR a" using s l "1.prems" by (intro cint_id) auto
  show ?case
  proof (cases "a > e")
    case True
    have "sub_years e (a - 1) (cint (d - DAYS_IN_YEAR a)) = cint (d - DAYS_IN_YEAR a) - (year_day (1900 + (a - 1 + 1)) - year_day (1900 + e))"
      by (rule "1.IH") (use True "1.prems" c s l in auto)
    then show ?thesis using True c s by (subst sub_years.simps) simp
  next
    case False
    then have "a = e" using "1.prems" by simp
    then show ?thesis using c s by (subst sub_years.simps) simp
  qed
qed

section \<open>Normalisation and result\<close>

definition moderate :: "tm \<Rightarrow> bool" where
  "moderate t \<longleftrightarrow> \<bar>tm_sec t\<bar> \<le> 1000000000 \<and> \<bar>tm_min t\<bar> \<le> 1000000000 \<and> \<bar>tm_hour t\<bar> \<le> 1000000000 \<and> \<bar>tm_mday t\<bar> \<le> 1000000000
     \<and> 0 \<le> tm_mon t \<and> tm_mon t \<le> 1000000000 \<and> \<bar>tm_year t\<bar> \<le> 1000000000"

lemma validate_structure_ok:
  assumes "moderate t"
  shows "\<exists>u. validate_structure t = Some u \<and> valid_date u \<and> valid_time u \<and> seconds u = seconds t
    \<and> tm_wday u = tm_wday t \<and> tm_yday u = tm_yday t \<and> tm_isdst u = tm_isdst t \<and> - (2 ^ 31) \<le> tm_year u \<and> tm_year u + 1900 < 2 ^ 31"
proof -
  define mi where "mi = tm_min t + tm_sec t div 60"
  define h where "h = tm_hour t + mi div 60"
  define d where "d = tm_mday t + h div 24"
  define y where "y = tm_year t + tm_mon t div 12"
  note b = assms [unfolded moderate_def]
  have mi: "\<bar>mi\<bar> \<le> 1016666668" using b unfolding mi_def by linarith
  have h: "\<bar>h\<bar> \<le> 1016944447" using b mi unfolding h_def by linarith
  have d: "\<bar>d\<bar> \<le> 1042372689" using b h unfolding d_def by linarith
  have y: "\<bar>y\<bar> \<le> 1083333334" using b unfolding y_def by linarith
  let ?t1 = "t\<lparr>tm_sec := tm_sec t mod 60, tm_min := mi\<rparr>"
  let ?t2 = "t\<lparr>tm_sec := tm_sec t mod 60, tm_min := mi mod 60, tm_hour := h\<rparr>"
  let ?t3 = "t\<lparr>tm_sec := tm_sec t mod 60, tm_min := mi mod 60, tm_hour := h mod 24, tm_mday := d\<rparr>"
  let ?t4 = "t\<lparr>tm_sec := tm_sec t mod 60, tm_min := mi mod 60, tm_hour := h mod 24, tm_mday := d, tm_mon := tm_mon t mod 12, tm_year := y\<rparr>"
  have 1: "carry_sec t = Some ?t1" using carry_sec_value [of t] b by (simp add: mi_def)
  have 2: "carry_min ?t1 = Some ?t2" using carry_min_value [of ?t1] b mi by (simp add: h_def)
  have 3: "carry_hour ?t2 = Some ?t3" using carry_hour_value [of ?t2] b h by (simp add: d_def)
  have 4: "carry_mon ?t3 = Some ?t4" using carry_mon_value [of ?t3] b by (simp add: y_def)
  have f: "(if DAYS_IN_YEAR (tm_year ?t4) = 366 then 29 else 28) = feb (tm_year ?t4)" by (rule feb_value) (use y in auto)
  have e: "validate_structure t = (if tm_mday ?t4 \<le> 0 then mday_down (feb (tm_year ?t4)) ?t4 else mday_up (feb (tm_year ?t4)) ?t4)"
    unfolding validate_structure_def 1 2 3 4 bind.simps Let_def f ..
  have "\<exists>u. (if tm_mday ?t4 \<le> 0 then mday_down (feb (tm_year ?t4)) ?t4 else mday_up (feb (tm_year ?t4)) ?t4) = Some u
    \<and> valid_date u \<and> tm_day u = tm_day ?t4 \<and> same_time ?t4 u \<and> - (2 ^ 31) \<le> tm_year u \<and> tm_year u + 1900 < 2 ^ 31"
  proof (cases "tm_mday ?t4 \<le> 0")
    case True
    have "\<exists>u. mday_down (feb (tm_year ?t4)) ?t4 = Some u \<and> valid_date u \<and> tm_day u = tm_day ?t4 \<and> same_time ?t4 u \<and> - (2 ^ 31) \<le> tm_year u \<and> tm_year u + 1900 < 2 ^ 31"
      by (rule mday_down_ok) (use True d y in auto)
    then show ?thesis unfolding if_P [OF True] .
  next
    case False
    have "\<exists>u. mday_up (feb (tm_year ?t4)) ?t4 = Some u \<and> valid_date u \<and> tm_day u = tm_day ?t4 \<and> same_time ?t4 u \<and> - (2 ^ 31) \<le> tm_year u \<and> tm_year u + 1900 < 2 ^ 31"
      by (rule mday_up_ok) (use False d y in auto)
    then show ?thesis unfolding if_not_P [OF False] .
  qed
  then obtain u where u: "validate_structure t = Some u" "valid_date u" "tm_day u = tm_day ?t4" "same_time ?t4 u" "- (2 ^ 31) \<le> tm_year u" "tm_year u + 1900 < 2 ^ 31" unfolding e by blast
  obtain d' m' y' where u': "u = ?t4\<lparr>tm_mday := d', tm_mon := m', tm_year := y'\<rparr>" using u(4) unfolding same_time_def by blast
  have ring1: "(a + q) * 86400 + r * 3600 + x + z = a * 86400 + (q * 24 + r) * 3600 + x + z" for a q r x z :: int by simp
  have ring2: "a + (b + q) * 3600 + r * 60 + z = a + b * 3600 + (q * 60 + r) * 60 + z" for a b q r z :: int by simp
  have ring3: "a + (b + q) * 60 + r = a + b * 60 + (q * 60 + r)" for a b q r :: int by simp
  have v: "valid_time u" unfolding u' valid_time_def by simp
  have td: "tm_day ?t4 = tm_day t + h div 24" by (simp add: tm_day_def day_number_def y_def d_def add.assoc)
  have "seconds u = (tm_day t + h div 24) * 86400 + h mod 24 * 3600 + mi mod 60 * 60 + tm_sec t mod 60"
    unfolding seconds_def u(3) td unfolding u' by simp
  also have "\<dots> = tm_day t * 86400 + (h div 24 * 24 + h mod 24) * 3600 + mi mod 60 * 60 + tm_sec t mod 60" by (rule ring1)
  also have "h div 24 * 24 + h mod 24 = tm_hour t + mi div 60" unfolding div_mult_mod_eq h_def ..
  also have "tm_day t * 86400 + (tm_hour t + mi div 60) * 3600 + mi mod 60 * 60 + tm_sec t mod 60
    = tm_day t * 86400 + tm_hour t * 3600 + (mi div 60 * 60 + mi mod 60) * 60 + tm_sec t mod 60" by (rule ring2)
  also have "mi div 60 * 60 + mi mod 60 = tm_min t + tm_sec t div 60" unfolding div_mult_mod_eq mi_def ..
  also have "tm_day t * 86400 + tm_hour t * 3600 + (tm_min t + tm_sec t div 60) * 60 + tm_sec t mod 60
    = tm_day t * 86400 + tm_hour t * 3600 + tm_min t * 60 + (tm_sec t div 60 * 60 + tm_sec t mod 60)" by (rule ring3)
  also have "\<dots> = seconds t" by (simp add: seconds_def)
  finally have s: "seconds u = seconds t" .
  have "tm_wday u = tm_wday t \<and> tm_yday u = tm_yday t \<and> tm_isdst u = tm_isdst t" unfolding u' by simp
  then show ?thesis using u(1,2,5,6) v s by blast
qed

lemma DAYS_BEFORE_MONTH_value:
  "0 \<le> m \<Longrightarrow> m < 12 \<Longrightarrow> \<exists>b. DAYS_BEFORE_MONTH m = Some b \<and> b + (if m > 1 \<and> l then 1 else 0) = month_day l m"
  by (drule (1) twelve) (auto simp: DAYS_BEFORE_MONTH_def month_day_def mon_lengths_def)

lemma mktime_ok:
  assumes "moderate t"
  shows "\<exists>r u. mktime t = Some (r, u) \<and> valid_date u \<and> valid_time u \<and> seconds u = seconds t \<and> tm_yday u = year_offset u \<and> tm_isdst u = tm_isdst t
    \<and> (if \<bar>tm_year u\<bar> \<le> 10000 then r = cint (seconds t) \<and> tm_wday u = (tm_day u + 4) mod 7 else r = - 1)"
proof -
  obtain v where v: "validate_structure t = Some v" "valid_date v" "valid_time v" "seconds v = seconds t" "tm_isdst v = tm_isdst t"
    "- (2 ^ 31) \<le> tm_year v" "tm_year v + 1900 < 2 ^ 31" using validate_structure_ok [OF assms] by blast
  let ?l = "leap (1900 + tm_year v)"
  obtain b where b: "DAYS_BEFORE_MONTH (tm_mon v) = Some b" "b + (if tm_mon v > 1 \<and> ?l then 1 else 0) = month_day ?l (tm_mon v)"
    using DAYS_BEFORE_MONTH_value v(2) unfolding valid_date_def by blast
  define off where "off = year_offset v"
  have off: "0 \<le> off" "off < 366" using year_offset_range [OF v(2)] by (auto simp: off_def year_lengths_def split: if_splits)
  have days: "(if tm_mon v > 1 \<and> DAYS_IN_YEAR (tm_year v) = 366 then tm_mday v - 1 + b + 1 else tm_mday v - 1 + b) = off"
    using b(2) DAYS_IN_YEAR_lengths [OF v(6,7)] by (auto simp: off_def year_offset_def year_lengths_def split: if_splits)
  let ?u = "v\<lparr>tm_yday := off\<rparr>"
  have same: "valid_date (v\<lparr>tm_yday := off, tm_wday := w\<rparr>) = valid_date v" "valid_time (v\<lparr>tm_yday := off, tm_wday := w\<rparr>) = valid_time v"
    "seconds (v\<lparr>tm_yday := off, tm_wday := w\<rparr>) = seconds v" "year_offset (v\<lparr>tm_yday := off, tm_wday := w\<rparr>) = off" "tm_day (v\<lparr>tm_yday := off, tm_wday := w\<rparr>) = tm_day v" for w
    by (simp_all add: valid_date_def valid_time_def seconds_def year_offset_def tm_day_def off_def)
  have same1: "valid_date ?u = valid_date v" "valid_time ?u = valid_time v" "seconds ?u = seconds v" "year_offset ?u = off" "tm_day ?u = tm_day v"
    by (simp_all add: valid_date_def valid_time_def seconds_def year_offset_def tm_day_def off_def)
  have same0: "?u = v\<lparr>tm_yday := off, tm_wday := tm_wday v\<rparr>" by simp
  have e: "mktime t = (if tm_year v > 10000 \<or> tm_year v < - 10000 then Some (- 1, ?u)
    else let days = (if tm_year v > 70 then add_years (tm_year v) 70 off else if tm_year v < 70 then sub_years (tm_year v) 69 off else off);
           wday = cint (days + 4) smod 7
       in Some (cint (tm_sec v + tm_min v * SEC_IN_MINUTE + tm_hour v * SEC_IN_HOUR + cint (days * SEC_IN_DAY)), ?u\<lparr>tm_wday := (if wday < 0 then wday + 7 else wday)\<rparr>))"
    unfolding mktime_def v(1) b(1) Option.bind.simps Let_def days by simp
  show ?thesis
  proof (cases "\<bar>tm_year v\<bar> \<le> 10000")
    case False
    then have "mktime t = Some (- 1, v\<lparr>tm_yday := off, tm_wday := tm_wday v\<rparr>)" using e same0 by auto
    then show ?thesis using v False by (intro exI [of _ "- 1"] exI [of _ "v\<lparr>tm_yday := off, tm_wday := tm_wday v\<rparr>"]) (auto simp: same same1)
  next
    case True
    define days where "days = (if tm_year v > 70 then add_years (tm_year v) 70 off else if tm_year v < 70 then sub_years (tm_year v) 69 off else off)"
    have day: "tm_day v = year_day (1900 + tm_year v) + off" using tm_day_valid [OF v(2)] by (simp add: off_def)
    have y70: "year_day 1970 = 0" by (simp add: year_day_def)
    have yd: "\<bar>year_day (1900 + tm_year v)\<bar> \<le> 366 * 11930"
      using year_day_mono [of "1900 + tm_year v" 1970] year_day_mono [of 1970 "1900 + tm_year v"] y70 True by (cases "1900 + tm_year v \<le> 1970") auto
    have days_eq: "days = tm_day v"
    proof -
      have "tm_year v > 70 \<Longrightarrow> add_years (tm_year v) 70 off = off + year_day (1900 + tm_year v) - year_day (1900 + 70)"
        by (rule add_years_value) (use True off yd y70 in auto)
      moreover have "tm_year v < 70 \<Longrightarrow> sub_years (tm_year v) 69 off = off - (year_day (1900 + (69 + 1)) - year_day (1900 + tm_year v))"
        by (rule sub_years_value) (use True off yd y70 in auto)
      moreover have "\<not> tm_year v > 70 \<Longrightarrow> \<not> tm_year v < 70 \<Longrightarrow> tm_year v = 70" by simp
      ultimately show ?thesis using y70 unfolding days_def day by (auto split: if_splits)
    qed
    have "cint (tm_day v + 4) = tm_day v + 4" using yd off by (intro cint_id) (auto simp: day)
    then have w: "(if cint (days + 4) smod 7 < 0 then cint (days + 4) smod 7 + 7 else cint (days + 4) smod 7) = (tm_day v + 4) mod 7"
      using floor_div(2) [of 7 "tm_day v + 4"] by (simp add: days_eq split: if_splits)
    have r: "cint (tm_sec v + tm_min v * SEC_IN_MINUTE + tm_hour v * SEC_IN_HOUR + cint (days * SEC_IN_DAY)) = cint (seconds t)"
      unfolding cint_add_cint v(4) [symmetric] by (simp add: seconds_def days_eq SEC_IN_MINUTE_def SEC_IN_HOUR_def SEC_IN_DAY_def algebra_simps)
    have "mktime t = Some (cint (seconds t), v\<lparr>tm_yday := off, tm_wday := (tm_day v + 4) mod 7\<rparr>)"
      unfolding e Let_def days_def [symmetric] r w using True by auto
    then show ?thesis using v True
      by (intro exI [of _ "cint (seconds t)"] exI [of _ "v\<lparr>tm_yday := off, tm_wday := (tm_day v + 4) mod 7\<rparr>"]) (auto simp: same same1)
  qed
qed

section \<open>Properties\<close>

text \<open>Two structures that are in range and name the same second agree.\<close>

lemma valid_equal:
  assumes "valid_date t" "valid_date u" "valid_time t" "valid_time u" "seconds t = seconds u" "tm_wday t = tm_wday u" "tm_yday t = tm_yday u" "tm_isdst t = tm_isdst u"
  shows "t = u"
  using valid_unique [OF assms(1-5)] valid_date_unique [OF assms(1,2)] assms(6-8) by (intro tm.equality) auto

lemma seconds_div: "valid_time t \<Longrightarrow> seconds t div 86400 = tm_day t"
proof -
  assume v: "valid_time t"
  have s: "seconds t = tm_day t * 86400 + (tm_hour t * 3600 + tm_min t * 60 + tm_sec t)" by (simp add: seconds_def)
  have "0 \<le> tm_hour t * 3600 + tm_min t * 60 + tm_sec t" "tm_hour t * 3600 + tm_min t * 60 + tm_sec t < 86400"
    using v by (auto simp: valid_time_def)
  then show ?thesis unfolding s by simp
qed

text \<open>The years of 32-bit times.\<close>

lemma year_range:
  assumes "valid_date t" "valid_time t" "- (2 ^ 31) \<le> seconds t" "seconds t < 2 ^ 31"
  shows "\<bar>tm_year t - 70\<bar> \<le> 70"
proof -
  have d: "\<bar>tm_day t\<bar> \<le> 24856" using assms(3,4) unfolding seconds_div [OF assms(2), symmetric] by auto
  have o: "0 \<le> year_offset t" "year_offset t < 366" using year_offset_range [OF assms(1)] by (auto simp: year_lengths_def split: if_splits)
  have e: "tm_day t = year_day (1900 + tm_year t) + year_offset t" by (rule tm_day_valid [OF assms(1)])
  have y70: "year_day 1970 = 0" by (simp add: year_day_def)
  show ?thesis
    using year_day_mono [of "1900 + tm_year t" 1970] year_day_mono [of 1970 "1900 + tm_year t"] d o e y70
    by (cases "1900 + tm_year t \<le> 1970") auto
qed



text \<open>C32. \<^verbatim>\<open>mktime\<close> is the inverse of \<^verbatim>\<open>localtime_r\<close>: for every 32-bit time it gives back that time and leaves the structure as it is.\<close>

theorem mktime_localtime_r:
  assumes "- (2 ^ 31) \<le> tim" "tim < 2 ^ 31"
  shows "\<exists>t. localtime_r tim = Some t \<and> mktime t = Some (tim, t)"
proof -
  obtain t where t: "localtime_r tim = Some t" "valid_date t" "valid_time t" "seconds t = tim" "tm_wday t = (tim div 86400 + 4) mod 7" "tm_yday t = year_offset t"
    using localtime_r_ok by blast
  have y: "\<bar>tm_year t - 70\<bar> \<le> 70" by (rule year_range) (use t assms in auto)
  have "tm_mday t \<le> 31" using t(2) month_length_bounds [of "tm_mon t" "leap (1900 + tm_year t)"] by (simp add: valid_date_def)
  then have m: "moderate t" using t(2,3) y by (simp add: moderate_def valid_date_def valid_time_def)
  obtain r u where u: "mktime t = Some (r, u)" "valid_date u" "valid_time u" "seconds u = seconds t" "tm_yday u = year_offset u" "tm_isdst u = tm_isdst t"
    "if \<bar>tm_year u\<bar> \<le> 10000 then r = cint (seconds t) \<and> tm_wday u = (tm_day u + 4) mod 7 else r = - 1"
    using mktime_ok [OF m] by blast
  note eq = valid_unique [OF u(2) t(2) u(3) t(3) u(4)]
  note eqd = valid_date_unique [OF u(2) t(2) eq(4)]
  have "cint tim = tim" using assms by (intro cint_id) auto
  then have r: "r = tim" "tm_wday u = (tm_day t + 4) mod 7" using u(7) y eqd(1) eq(4) t(4) by (auto split: if_splits)
  then have "tm_wday u = tm_wday t" using t(4,5) seconds_div [OF t(3)] by simp
  moreover have "tm_yday u = tm_yday t" using u(5) t(6) eqd by (simp add: year_offset_def)
  ultimately have "u = t" using valid_equal [OF u(2) t(2) u(3) t(3) u(4)] u(6) by blast
  then show ?thesis using t(1) u(1) r(1) by blast
qed

theorem mktime_localtime_r_witness: "\<exists>t. localtime_r (- 1) = Some t \<and> mktime t = Some (- 1, t)"
  using mktime_localtime_r [of "- 1"] by simp

text \<open>C33. \<^verbatim>\<open>mktime\<close> normalises a structure whose members are out of range, as long as the month is not negative: it returns, and afterwards the
  members are in range and name the same second of the calendar; the result is that second, and the
  structure is what \<^verbatim>\<open>localtime_r\<close> gives for it.\<close>

theorem mktime_normalises:
  assumes "moderate t" "- (2 ^ 31) \<le> seconds t" "seconds t < 2 ^ 31"
  shows "\<exists>u. mktime t = Some (seconds t, u) \<and> valid_date u \<and> valid_time u \<and> seconds u = seconds t
    \<and> localtime_r (seconds t) = Some (u\<lparr>tm_isdst := - 1\<rparr>) \<and> tm_isdst u = tm_isdst t"
proof -
  obtain r u where u: "mktime t = Some (r, u)" "valid_date u" "valid_time u" "seconds u = seconds t" "tm_yday u = year_offset u" "tm_isdst u = tm_isdst t"
    "if \<bar>tm_year u\<bar> \<le> 10000 then r = cint (seconds t) \<and> tm_wday u = (tm_day u + 4) mod 7 else r = - 1"
    using mktime_ok [OF assms(1)] by blast
  have y: "\<bar>tm_year u - 70\<bar> \<le> 70" by (rule year_range) (use u assms in auto)
  have "cint (seconds t) = seconds t" using assms by (intro cint_id) auto
  then have r: "r = seconds t" "tm_wday u = (tm_day u + 4) mod 7" using u(7) y by (auto split: if_splits)
  obtain v where v: "localtime_r (seconds t) = Some v" "valid_date v" "valid_time v" "seconds v = seconds t" "tm_wday v = (seconds t div 86400 + 4) mod 7"
    "tm_yday v = year_offset v" "tm_isdst v = - 1" using localtime_r_ok by blast
  have sv: "seconds v = seconds u" using v(4) u(4) by simp
  note eq = valid_unique [OF v(2) u(2) v(3) u(3) sv]
  note eqd = valid_date_unique [OF v(2) u(2) eq(4)]
  have "v = u\<lparr>tm_isdst := - 1\<rparr>"
    using eq eqd v(5-7) u(4,5) r(2) seconds_div [OF u(3)] by (intro tm.equality) (auto simp: year_offset_def)
  then show ?thesis using u r v(1) by auto
qed

text \<open>The 366th day of 2023, at 25 hours and minus one second.\<close>

theorem mktime_normalises_witness:
  "\<exists>u. mktime \<lparr>tm_sec = - 1, tm_min = 0, tm_hour = 25, tm_mday = 366, tm_mon = 0, tm_year = 123, tm_wday = 0, tm_yday = 0, tm_isdst = 0\<rparr> = Some (1704157199, u)
    \<and> valid_date u"
proof -
  let ?t = "\<lparr>tm_sec = - 1, tm_min = 0, tm_hour = 25, tm_mday = 366, tm_mon = 0, tm_year = 123, tm_wday = 0, tm_yday = 0, tm_isdst = 0\<rparr>"
  have "moderate ?t \<and> seconds ?t = 1704157199" by code_simp
  then show ?thesis using mktime_normalises [of ?t] by auto
qed

text \<open>C34. A negative month is not normalised: whatever the other members are, \<^verbatim>\<open>mktime\<close> reads outside its tables of month lengths.\<close>

theorem mktime_negative_month:
  assumes "tm_mon t < 0" "- (2 ^ 31) \<le> tm_mon t"
  shows "mktime t = None"
proof -
  have c: "\<exists>u. carry_sec t = Some u \<and> tm_mon u = tm_mon t" "\<exists>u. carry_min t = Some u \<and> tm_mon u = tm_mon t" "\<exists>u. carry_hour t = Some u \<and> tm_mon u = tm_mon t" for t
    by (simp_all add: carry_sec_def carry_min_def carry_hour_def div_c_def Let_def)
  obtain u where u: "carry_sec t = Some u" "tm_mon u = tm_mon t" using c(1) by blast
  obtain v where v: "carry_min u = Some v" "tm_mon v = tm_mon u" using c(2) by blast
  obtain w where w: "carry_hour v = Some w" "tm_mon w = tm_mon v" using c(3) by blast
  have n: "tm_mon w < 0" "- (2 ^ 31) \<le> tm_mon w" using assms u v w by auto
  have "DAYS_IN_MONTH f (tm_mon w) = None" for f using n by (simp add: DAYS_IN_MONTH_def)
  then have up: "mday_up f w = None" for f by (subst mday_up.simps) simp
  have out: "\<not> (0 \<le> cint (tm_mon w - 1) \<and> cint (tm_mon w - 1) < 12)" "cint (tm_mon w - 1) \<noteq> - 1"
  proof -
    have "cint (tm_mon w - 1) = (if tm_mon w = - (2 ^ 31) then 2 ^ 31 - 1 else tm_mon w - 1)"
      using n by (auto simp: cint_id) (simp add: cint_def signed_take_bit_int_eq_self_iff signed_take_bit_eq_if_negative)
    then show "\<not> (0 \<le> cint (tm_mon w - 1) \<and> cint (tm_mon w - 1) < 12)" "cint (tm_mon w - 1) \<noteq> - 1" using n by (auto split: if_splits)
  qed
  then have "DAYS_IN_MONTH f (cint (tm_mon w - 1)) = None" for f by (auto simp: DAYS_IN_MONTH_def)
  then have down: "mday_down f w = None" if "tm_mday w \<le> 0" for f using that out(2) by (subst mday_down.simps) (simp add: Let_def)
  have "carry_mon w = Some w" using n by (simp add: carry_mon_def)
  then have "validate_structure t = None" using u v w up down by (simp add: validate_structure_def)
  then show ?thesis by (simp add: mktime_def)
qed

theorem mktime_negative_month_witness:
  "mktime \<lparr>tm_sec = 0, tm_min = 0, tm_hour = 0, tm_mday = 15, tm_mon = - 1, tm_year = 100, tm_wday = 0, tm_yday = 0, tm_isdst = 0\<rparr> = None"
  by (rule mktime_negative_month) simp_all

end
