(* ===== verification/LibcPrintf.thy ===== *)
theory LibcPrintf
  imports LibcInt LibcString "HOL-Library.Monad_Syntax" "HOL-Library.Sublist"
begin

text \<open>
  Formatted output to a string: \<^verbatim>\<open>src/libc/stdio/vfprintf.c\<close> in the configuration \<^verbatim>\<open>INTEGER_ONLY\<close> (\<^verbatim>\<open>vfiprintf\<close>), the
  part of \<^verbatim>\<open>__sfvwrite\<close> (\<^verbatim>\<open>fvwrite.c\<close>) for strings, and \<^verbatim>\<open>siprintf\<close>. For formats without floating-point
  conversions \<^verbatim>\<open>sprintf\<close> runs the same code.

  The format is the list of its bytes before the terminating null byte; in the locale of this library every
  byte is a character (\<^verbatim>\<open>_mbtowc_r\<close>). Arguments are the 32-bit words on the stack; taking one that is
  not there is \<open>None\<close>, as is an overrun of the conversion buffer. Each of the flag bits is a Boolean. What is printed
  is first collected in up to eight vectors; a vector is either a piece of memory of the call itself
  (or of the format) or a string argument, which is read only when the vectors are copied out.
\<close>

section \<open>Output vectors\<close>

datatype iov = Own "u8 list" | Arg u32 nat

fun iov_len :: "iov \<Rightarrow> nat" where
  "iov_len (Own bs) = length bs"
| "iov_len (Arg a n) = n"

record uio =
  uio_iov :: "iov list"
  uio_resid :: int

text \<open>A string file: memory, position and remaining space; the space is never negative.\<close>

record sfile =
  smem :: bytemem
  s_p :: u32
  s_w :: int

fun put_bytes :: "u32 \<Rightarrow> u8 list \<Rightarrow> bytemem \<Rightarrow> bytemem" where
  "put_bytes a [] m = m"
| "put_bytes a (c # cs) m = put_bytes (a + 1) cs (m(a := c))"

fun COPY :: "iov \<Rightarrow> int \<Rightarrow> sfile \<Rightarrow> sfile option" where
  "COPY (Own bs) w f = Some (f\<lparr>smem := put_bytes (s_p f) (take (nat w) bs) (smem f)\<rparr>)"
| "COPY (Arg a n) w f = do { (_, m) \<leftarrow> memmove (s_p f) a (of_int w) (smem f); Some (f\<lparr>smem := m\<rparr>) }"

text \<open>The loop for strings: vectors of length 0 are skipped, and the loop ends when nothing is left. The space may end before
  the text; then the rest is dropped.\<close>

fun sfvwrite_loop :: "iov list \<Rightarrow> int \<Rightarrow> sfile \<Rightarrow> sfile option" where
  "sfvwrite_loop [] resid f = None"
| "sfvwrite_loop (v # vs) resid f =
     (if iov_len v = 0 then sfvwrite_loop vs resid f
      else do {
        let len = int (iov_len v);
        let w = (if len < s_w f then len else s_w f);
        f \<leftarrow> COPY v w f;
        let f = f\<lparr>s_w := s_w f - w, s_p := s_p f + of_int w\<rparr>;
        if resid - len \<noteq> 0 then sfvwrite_loop vs (resid - len) f else Some f })"

definition sfvwrite :: "uio \<Rightarrow> sfile \<Rightarrow> sfile option" where
  "sfvwrite u f = (if uio_resid u = 0 then Some f else sfvwrite_loop (uio_iov u) (uio_resid u) f)"

text \<open>\<^verbatim>\<open>__sprint\<close> empties the vectors; for strings it does not fail.\<close>

definition no_vecs :: uio where "no_vecs = \<lparr>uio_iov = [], uio_resid = 0\<rparr>"

definition sprint :: "uio \<Rightarrow> sfile \<Rightarrow> (uio \<times> sfile) option" where
  "sprint u f = (if uio_resid u = 0 then Some (u\<lparr>uio_iov := []\<rparr>, f) else do { f \<leftarrow> sfvwrite u f; Some (no_vecs, f) })"

abbreviation (input) NIOV :: nat where "NIOV \<equiv> 8"
abbreviation (input) PADSIZE :: nat where "PADSIZE \<equiv> 16"
abbreviation (input) BUF :: nat where "BUF \<equiv> 40"

definition PRINT :: "iov \<Rightarrow> uio \<Rightarrow> sfile \<Rightarrow> (uio \<times> sfile) option" where
  "PRINT v u f =
     (let u = \<lparr>uio_iov = uio_iov u @ [v], uio_resid = cint (uio_resid u + int (iov_len v))\<rparr> in
      if length (uio_iov u) \<ge> NIOV then sprint u f else Some (u, f))"

function PAD_loop :: "int \<Rightarrow> u8 \<Rightarrow> uio \<Rightarrow> sfile \<Rightarrow> (uio \<times> sfile) option" where
  "PAD_loop n c u f =
     (if n > int PADSIZE then do { (u, f) \<leftarrow> PRINT (Own (replicate PADSIZE c)) u f; PAD_loop (n - int PADSIZE) c u f }
      else PRINT (Own (replicate (nat n) c)) u f)"
  by pat_completeness auto
termination by (relation "measure (\<lambda>(n, _). nat n)") auto

declare PAD_loop.simps [simp del]

definition PAD :: "int \<Rightarrow> u8 \<Rightarrow> uio \<Rightarrow> sfile \<Rightarrow> (uio \<times> sfile) option" where
  "PAD howmany c u f = (if howmany > 0 then PAD_loop howmany c u f else Some (u, f))"

definition FLUSH :: "uio \<Rightarrow> sfile \<Rightarrow> (uio \<times> sfile) option" where
  "FLUSH u f = (if uio_resid u \<noteq> 0 then sprint u f else Some (u\<lparr>uio_iov := []\<rparr>, f))"

section \<open>The flags of a conversion\<close>

record pflags =
  ALT :: bool
  HEXPREFIX :: bool
  LADJUST :: bool
  LONGINT :: bool
  QUADINT :: bool
  SHORTINT :: bool
  ZEROPAD :: bool
  width :: int
  prec :: int
  sign :: u8

definition no_flags :: pflags where
  "no_flags = \<lparr>ALT = False, HEXPREFIX = False, LADJUST = False, LONGINT = False, QUADINT = False, SHORTINT = False,
     ZEROPAD = False, width = 0, prec = - 1, sign = 0\<rparr>"

definition va_arg :: "u32 list \<Rightarrow> (u32 \<times> u32 list) option" where
  "va_arg ap = (case ap of [] \<Rightarrow> None | x # ap \<Rightarrow> Some (x, ap))"

text \<open>The next character; behind the last one there is the null byte.\<close>

fun next_char :: "u8 list \<Rightarrow> u8 \<times> u8 list" where
  "next_char [] = (0, [])"
| "next_char (c # cs) = (c, cs)"

definition is_digit_ch :: "u8 \<Rightarrow> bool" where "is_digit_ch c \<longleftrightarrow> 48 \<le> c \<and> c \<le> 57"
definition to_digit :: "u8 \<Rightarrow> int" where "to_digit c = uint c - 48"

text \<open>The loops that read a decimal number; the results are the number and the first character behind it.\<close>

fun digits_loop :: "int \<Rightarrow> u8 \<Rightarrow> u8 list \<Rightarrow> int \<times> u8 \<times> u8 list" where
  "digits_loop n ch [] = (if is_digit_ch ch then (cint (10 * n + to_digit ch), 0, []) else (n, ch, []))"
| "digits_loop n ch (c # cs) = (if is_digit_ch ch then digits_loop (cint (10 * n + to_digit ch)) c cs else (n, ch, c # cs))"

lemma digits_loop_length:
  "digits_loop n ch cs = (n', ch', cs') \<Longrightarrow> length cs' + (if ch' = 0 then 0 else 1) \<le> length cs + (if ch = 0 then 0 else 1)
     \<and> (is_digit_ch ch \<longrightarrow> length cs' + (if ch' = 0 then 0 else 1) \<le> length cs)"
  by (induction n ch cs rule: digits_loop.induct) (auto simp: is_digit_ch_def split: if_splits)

text \<open>From the label \<^verbatim>\<open>reswitch\<close>: the flags, width and precision, up to the conversion character. Going to \<^verbatim>\<open>rflag\<close> is
  going on with the next character.\<close>

function reswitch :: "u8 \<Rightarrow> pflags \<Rightarrow> u8 list \<Rightarrow> u32 list \<Rightarrow> (u8 \<times> pflags \<times> u8 list \<times> u32 list) option" where
  "reswitch ch s fmt ap =
     (let (c, rest) = next_char fmt in
      if ch = 32 then reswitch c (if sign s = 0 then s\<lparr>sign := 32\<rparr> else s) rest ap
      else if ch = 35 then reswitch c (s\<lparr>ALT := True\<rparr>) rest ap
      else if ch = 42 then do {
        (x, ap) \<leftarrow> va_arg ap;
        if sint x \<ge> 0 then reswitch c (s\<lparr>width := sint x\<rparr>) rest ap
        else reswitch c (s\<lparr>width := cint (- sint x), LADJUST := True\<rparr>) rest ap }
      else if ch = 45 then reswitch c (s\<lparr>LADJUST := True\<rparr>) rest ap
      else if ch = 43 then reswitch c (s\<lparr>sign := 43\<rparr>) rest ap
      else if ch = 46 then
        if c = 42 then do {
          (x, ap) \<leftarrow> va_arg ap;
          let s = s\<lparr>prec := (if sint x < 0 then - 1 else sint x)\<rparr>;
          let (c, rest) = next_char rest;
          reswitch c s rest ap }
        else
          let (n, c, rest) = digits_loop 0 c rest
          in reswitch c (s\<lparr>prec := (if n < 0 then - 1 else n)\<rparr>) rest ap
      else if ch = 48 then reswitch c (s\<lparr>ZEROPAD := True\<rparr>) rest ap
      else if is_digit_ch ch then
        let (n, c, rest) = digits_loop 0 ch fmt in reswitch c (s\<lparr>width := n\<rparr>) rest ap
      else if ch = 104 then reswitch c (s\<lparr>SHORTINT := True\<rparr>) rest ap
      else if ch = 108 then
        if c = 108 then let (c, rest) = next_char rest in reswitch c (s\<lparr>QUADINT := True\<rparr>) rest ap
        else reswitch c (s\<lparr>LONGINT := True\<rparr>) rest ap
      else if ch = 113 then reswitch c (s\<lparr>QUADINT := True\<rparr>) rest ap
      else Some (ch, s, fmt, ap))"
  by pat_completeness auto
termination
proof -
  have 1: "length rest + (if c = 0 then 0 else 1) \<le> length fmt" if "(c, rest) = next_char fmt" for c rest and fmt :: "u8 list"
    using that by (cases fmt) auto
  have 2: "length cs' + (if ch' = 0 then 0 else 1) < Suc (length fmt)"
    if "(c, rest) = next_char fmt" "(n, y) = digits_loop 0 c rest" "(ch', cs') = y" for c rest n y ch' cs' and fmt :: "u8 list"
    using 1 [OF that(1)] digits_loop_length [of 0 c rest n ch' cs'] that(2,3) by auto
  have 3: "length cs' + (if ch' = 0 then 0 else 1) < Suc (length fmt)"
    if "is_digit_ch ch" "(n, y) = digits_loop 0 ch fmt" "(ch', cs') = y" for ch n y ch' cs' and fmt :: "u8 list"
    using digits_loop_length [of 0 ch fmt n ch' cs'] that by auto
  have 4: "length rest' + (if c' = 0 then 0 else 1) < Suc (length fmt)"
    if "(c, rest) = next_char fmt" "(c', rest') = next_char rest" for c rest c' rest' and fmt :: "u8 list"
    using 1 [OF that(1)] 1 [OF that(2)] by (auto split: if_splits)
  show ?thesis
    apply (relation "measure (\<lambda>(ch, _, fmt, _). length fmt + (if ch = 0 then 0 else 1))")
    apply (simp_all only: wf_measure in_measure prod.case)
    apply (use 1 2 3 4 in \<open>fastforce simp: is_digit_ch_def less_Suc_eq_le split: if_splits\<close>)+
    done
qed

declare reswitch.simps [simp del]

definition rflag :: "pflags \<Rightarrow> u8 list \<Rightarrow> u32 list \<Rightarrow> (u8 \<times> pflags \<times> u8 list \<times> u32 list) option" where
  "rflag s fmt ap = (let (ch, fmt) = next_char fmt in reswitch ch s fmt ap)"

section \<open>Numbers\<close>

datatype base = OCT | DEC | HEX

definition to_char :: "u32 \<Rightarrow> u8" where "to_char n = ucast (n + 48)"

definition SARG :: "pflags \<Rightarrow> u32 \<Rightarrow> u32" where
  "SARG s x = (if LONGINT s then x else if SHORTINT s then scast (ucast x :: 16 word) else x)"

definition UARG :: "pflags \<Rightarrow> u32 \<Rightarrow> u32" where
  "UARG s x = (if LONGINT s then x else if SHORTINT s then ucast (ucast x :: 16 word) else x)"

lemma unat_drop_bit_less: "0 < k \<Longrightarrow> x \<noteq> 0 \<Longrightarrow> unat (drop_bit k x) < unat x" for x :: u32
proof -
  assume k: "0 < k" and x: "x \<noteq> 0"
  have "unat (drop_bit k x) = unat x div 2 ^ k" 
    using unsigned_less [of x, where 'a = nat] by (simp only: unsigned_drop_bit_eq) (simp add: drop_bit_eq_div take_bit_nat_eq_self)
  moreover have "0 < unat x" using x by (simp add: unat_gt_0)
  moreover have "1 < (2 :: nat) ^ k" using k by (rule one_less_power [rotated]) simp
  ultimately show ?thesis by simp
qed

text \<open>The digits are stored from the end of the buffer backwards; \<open>cp\<close> is what has been stored so far.\<close>

function oct_loop :: "u32 \<Rightarrow> u8 list \<Rightarrow> u8 list" where
  "oct_loop u cp = (let cp = to_char (u AND 7) # cp; u = drop_bit 3 u in if u \<noteq> 0 then oct_loop u cp else cp)"
  by pat_completeness auto
termination
proof (relation "measure (\<lambda>(u, _). unat u)")
  fix u x xa :: u32 and cp :: "u8 list"
  assume x: "x = drop_bit 3 u" "x \<noteq> 0"
  then have "u \<noteq> 0" by auto
  then show "((x, cp'), u, cp) \<in> measure (\<lambda>(u, _). unat u)" for cp' using unat_drop_bit_less [of 3 u] x by simp
qed simp

function hex_loop :: "u8 list \<Rightarrow> u32 \<Rightarrow> u8 list \<Rightarrow> u8 list" where
  "hex_loop xdigs u cp = (let cp = xdigs ! unat (u AND 15) # cp; u = drop_bit 4 u in if u \<noteq> 0 then hex_loop xdigs u cp else cp)"
  by pat_completeness auto
termination
proof (relation "measure (\<lambda>(_, u, _). unat u)")
  fix u x :: u32 and cp xdigs :: "u8 list"
  assume x: "x = drop_bit 4 u" "x \<noteq> 0"
  then have "u \<noteq> 0" by auto
  then show "((xdigs, x, cp'), xdigs, u, cp) \<in> measure (\<lambda>(_, u, _). unat u)" for cp' using unat_drop_bit_less [of 4 u] x by simp
qed simp

function dec_loop :: "u32 \<Rightarrow> u8 list \<Rightarrow> u8 list" where
  "dec_loop u cp = (if u \<ge> 10 then dec_loop (u div 10) (to_char (u mod 10) # cp) else to_char u # cp)"
  by pat_completeness auto
termination
proof (relation "measure (\<lambda>(u, _). unat u)")
  fix u :: u32 and cp :: "u8 list"
  assume "10 \<le> u"
  then have "0 < unat u" by (simp add: word_le_nat_alt)
  then show "((u div 10, cp'), u, cp) \<in> measure (\<lambda>(u, _). unat u)" for cp' by (simp add: unat_div)
qed simp

declare oct_loop.simps [simp del] hex_loop.simps [simp del] dec_loop.simps [simp del]

definition number_digits :: "base \<Rightarrow> u8 list \<Rightarrow> pflags \<Rightarrow> u32 \<Rightarrow> u8 list" where
  "number_digits b xdigs s u =
     (if u \<noteq> 0 \<or> prec s \<noteq> 0 then
        case b of
          OCT \<Rightarrow> let cp = oct_loop u [] in if ALT s \<and> hd cp \<noteq> 48 then 48 # cp else cp
        | DEC \<Rightarrow> dec_loop u []
        | HEX \<Rightarrow> hex_loop xdigs u []
      else [])"

section \<open>Conversions\<close>

text \<open>What a conversion asks for: the end of the format, nothing, or a field with contents, flags, decimal precision and the
  character for a prefix.\<close>

datatype action = Finish | NoOutput | Field iov pflags int u8

definition lower_digits :: "u8 list" where "lower_digits = [48, 49, 50, 51, 52, 53, 54, 55, 56, 57, 97, 98, 99, 100, 101, 102]"
definition upper_digits :: "u8 list" where "upper_digits = [48, 49, 50, 51, 52, 53, 54, 55, 56, 57, 65, 66, 67, 68, 69, 70]"
definition null_text :: "u8 list" where "null_text = [40, 110, 117, 108, 108, 41]"

definition number :: "base \<Rightarrow> u8 list \<Rightarrow> pflags \<Rightarrow> u8 \<Rightarrow> u32 \<Rightarrow> action option" where
  "number b xdigs s ch u =
     (let s = (if prec s \<ge> 0 then s\<lparr>ZEROPAD := False\<rparr> else s);
          cp = number_digits b xdigs s u
      in if length cp \<le> BUF then Some (Field (Own cp) s (prec s) ch) else None)"

definition nosign :: "base \<Rightarrow> u8 list \<Rightarrow> pflags \<Rightarrow> u8 \<Rightarrow> u32 \<Rightarrow> action option" where
  "nosign b xdigs s ch u = number b xdigs (s\<lparr>sign := 0\<rparr>) ch u"

definition conv_signed :: "pflags \<Rightarrow> u8 \<Rightarrow> u32 list \<Rightarrow> (action \<times> u32 list) option" where
  "conv_signed s ch ap = do {
     (x, ap) \<leftarrow> va_arg ap;
     let u = SARG s x;
     a \<leftarrow> (if sint u < 0 then number DEC [] (s\<lparr>sign := 45\<rparr>) ch (- u) else number DEC [] s ch u);
     Some (a, ap) }"

definition conv_unsigned :: "base \<Rightarrow> pflags \<Rightarrow> u8 \<Rightarrow> u32 list \<Rightarrow> (action \<times> u32 list) option" where
  "conv_unsigned b s ch ap = do { (x, ap) \<leftarrow> va_arg ap; a \<leftarrow> nosign b [] s ch (UARG s x); Some (a, ap) }"

definition conv_hex :: "u8 list \<Rightarrow> pflags \<Rightarrow> u8 \<Rightarrow> u32 list \<Rightarrow> (action \<times> u32 list) option" where
  "conv_hex xdigs s ch ap = do {
     (x, ap) \<leftarrow> va_arg ap;
     let u = UARG s x;
     a \<leftarrow> nosign HEX xdigs (if ALT s \<and> u \<noteq> 0 then s\<lparr>HEXPREFIX := True\<rparr> else s) ch u;
     Some (a, ap) }"

definition conv_string :: "pflags \<Rightarrow> u8 \<Rightarrow> u32 list \<Rightarrow> bytemem \<Rightarrow> (action \<times> u32 list) option" where
  "conv_string s ch ap m = do {
     (cp, ap) \<leftarrow> va_arg ap;
     v \<leftarrow> (if cp = 0 then Some (Own (if prec s \<ge> 0 then take (nat (prec s)) null_text else null_text))
           else if prec s \<ge> 0 then do {
             p \<leftarrow> memchr cp 0 (of_int (prec s)) m;
             let size = (if p \<noteq> 0 then let size = sint (p - cp) in if size > prec s then prec s else size else prec s);
             Some (Arg cp (nat size)) }
           else do { n \<leftarrow> strlen cp m; Some (Arg cp (nat (sint n))) });
     Some (Field v (s\<lparr>sign := 0\<rparr>) 0 ch, ap) }"

definition store_count :: "pflags \<Rightarrow> int \<Rightarrow> u32 \<Rightarrow> bytemem \<Rightarrow> bytemem" where
  "store_count s ret p m =
     (let x = of_int ret :: u32 in
      if \<not> LONGINT s \<and> SHORTINT s then m(p := ucast x, p + 1 := ucast (drop_bit 8 x)) else st32 p x m)"

definition conversion :: "u8 \<Rightarrow> pflags \<Rightarrow> int \<Rightarrow> u32 list \<Rightarrow> sfile \<Rightarrow> (action \<times> u32 list \<times> sfile) option" where
  "conversion ch s ret ap f =
     (if ch = 99 then do { (x, ap) \<leftarrow> va_arg ap; Some (Field (Own [ucast x]) (s\<lparr>sign := 0\<rparr>) 0 ch, ap, f) }
      else if ch = 68 then do { (a, ap) \<leftarrow> conv_signed (s\<lparr>LONGINT := True\<rparr>) ch ap; Some (a, ap, f) }
      else if ch = 100 \<or> ch = 105 then do { (a, ap) \<leftarrow> conv_signed s ch ap; Some (a, ap, f) }
      else if ch = 110 then do { (p, ap) \<leftarrow> va_arg ap; Some (NoOutput, ap, f\<lparr>smem := store_count s ret p (smem f)\<rparr>) }
      else if ch = 79 then do { (a, ap) \<leftarrow> conv_unsigned OCT (s\<lparr>LONGINT := True\<rparr>) ch ap; Some (a, ap, f) }
      else if ch = 111 then do { (a, ap) \<leftarrow> conv_unsigned OCT s ch ap; Some (a, ap, f) }
      else if ch = 112 then do {
        (x, ap) \<leftarrow> va_arg ap;
        a \<leftarrow> nosign HEX lower_digits (s\<lparr>HEXPREFIX := True\<rparr>) 120 x;
        Some (a, ap, f) }
      else if ch = 115 then do { (a, ap) \<leftarrow> conv_string s ch ap (smem f); Some (a, ap, f) }
      else if ch = 85 then do { (a, ap) \<leftarrow> conv_unsigned DEC (s\<lparr>LONGINT := True\<rparr>) ch ap; Some (a, ap, f) }
      else if ch = 117 then do { (a, ap) \<leftarrow> conv_unsigned DEC s ch ap; Some (a, ap, f) }
      else if ch = 88 then do { (a, ap) \<leftarrow> conv_hex upper_digits s ch ap; Some (a, ap, f) }
      else if ch = 120 then do { (a, ap) \<leftarrow> conv_hex lower_digits s ch ap; Some (a, ap, f) }
      else if ch = 0 then Some (Finish, ap, f)
      else Some (Field (Own [ch]) (s\<lparr>sign := 0\<rparr>) 0 ch, ap, f))"

text \<open>Padding, prefix, precision and contents of a field.\<close>

definition real_size :: "iov \<Rightarrow> pflags \<Rightarrow> int \<Rightarrow> int" where
  "real_size cp s dprec =
     (let size = int (iov_len cp); realsz = (if dprec > size then dprec else size)
      in if sign s \<noteq> 0 then cint (realsz + 1) else if HEXPREFIX s then cint (realsz + 2) else realsz)"

definition emit :: "iov \<Rightarrow> pflags \<Rightarrow> int \<Rightarrow> u8 \<Rightarrow> int \<Rightarrow> uio \<Rightarrow> sfile \<Rightarrow> (int \<times> uio \<times> sfile) option" where
  "emit cp s dprec ch ret u f = do {
     let realsz = real_size cp s dprec;
     let room = cint (width s - realsz);
     (u, f) \<leftarrow> (if \<not> LADJUST s \<and> \<not> ZEROPAD s then PAD room 32 u f else Some (u, f));
     (u, f) \<leftarrow> (if sign s \<noteq> 0 then PRINT (Own [sign s]) u f else if HEXPREFIX s then PRINT (Own [48, ch]) u f else Some (u, f));
     (u, f) \<leftarrow> (if \<not> LADJUST s \<and> ZEROPAD s then PAD room 48 u f else Some (u, f));
     (u, f) \<leftarrow> PAD (cint (dprec - int (iov_len cp))) 48 u f;
     (u, f) \<leftarrow> PRINT cp u f;
     (u, f) \<leftarrow> (if LADJUST s then PAD room 32 u f else Some (u, f));
     (u, f) \<leftarrow> FLUSH u f;
     Some (cint (ret + (if width s > realsz then width s else realsz)), u, f) }"

section \<open>The loop over the format\<close>

definition chars_left :: "u8 \<Rightarrow> u8 list \<Rightarrow> nat" where
  "chars_left ch fmt = length fmt + (if ch = 0 then 0 else 1)"

text \<open>One flag, width or precision: it takes at least one character and at most as many arguments.\<close>

definition spec_step :: "u8 \<Rightarrow> u8 list \<Rightarrow> u32 list \<Rightarrow> u8 \<Rightarrow> u8 list \<Rightarrow> u32 list \<Rightarrow> bool" where
  "spec_step ch fmt ap c rest ap' \<longleftrightarrow> chars_left c rest < chars_left ch fmt \<and> length rest \<le> length fmt
     \<and> length ap + chars_left c rest \<le> length ap' + chars_left ch fmt \<and> suffix ap' ap \<and> suffix rest fmt"

lemma next_char_left: "next_char fmt = (c, rest) \<Longrightarrow> chars_left c rest \<le> length fmt \<and> length rest \<le> length fmt \<and> suffix rest fmt"
  by (cases fmt) (auto simp: chars_left_def suffix_def)

lemma digits_loop_suffix: "digits_loop n ch cs = (n', ch', cs') \<Longrightarrow> suffix cs' cs"
  by (induction n ch cs rule: digits_loop.induct) (auto simp: suffix_ConsI split: if_splits)

lemma digits_left:
  "digits_loop n ch cs = (n', ch', cs') \<Longrightarrow> chars_left ch' cs' \<le> chars_left ch cs \<and> (is_digit_ch ch \<longrightarrow> chars_left ch' cs' \<le> length cs)
     \<and> length cs' \<le> length cs \<and> suffix cs' cs"
  using digits_loop_length [of n ch cs n' ch' cs'] digits_loop_suffix [of n ch cs n' ch' cs'] by (auto simp: chars_left_def suffix_length_le)

lemma reswitch_step:
  "reswitch ch s fmt ap = None \<and> ap = [] \<or> reswitch ch s fmt ap = Some (ch, s, fmt, ap)
   \<or> (\<exists>c s' rest ap'. reswitch ch s fmt ap = reswitch c s' rest ap' \<and> spec_step ch fmt ap c rest ap')"
proof -
  obtain c rest where nc: "next_char fmt = (c, rest)" by fastforce
  obtain c1 rest1 where nc1: "next_char rest = (c1, rest1)" by fastforce
  obtain n2 c2 rest2 where d2: "digits_loop 0 c rest = (n2, c2, rest2)" using prod_cases3 by blast
  obtain n3 c3 rest3 where d3: "digits_loop 0 ch fmt = (n3, c3, rest3)" using prod_cases3 by blast
  note l = next_char_left [OF nc] next_char_left [OF nc1] digits_left [OF d2] digits_left [OF d3]
  have st: "spec_step ch fmt ap c rest ap" "spec_step ch fmt ap c1 rest1 ap" "spec_step ch fmt ap c2 rest2 ap" "is_digit_ch ch \<Longrightarrow> spec_step ch fmt ap c3 rest3 ap"
    "ap = x # ap' \<Longrightarrow> spec_step ch fmt ap c rest ap'" "ap = x # ap' \<Longrightarrow> spec_step ch fmt ap c1 rest1 ap'" if "ch \<noteq> 0" for x ap'
  proof -
    have "chars_left ch fmt = Suc (length fmt)" using that by (simp add: chars_left_def)
    then show "spec_step ch fmt ap c rest ap" "spec_step ch fmt ap c1 rest1 ap" "spec_step ch fmt ap c2 rest2 ap" "is_digit_ch ch \<Longrightarrow> spec_step ch fmt ap c3 rest3 ap"
      "ap = x # ap' \<Longrightarrow> spec_step ch fmt ap c rest ap'" "ap = x # ap' \<Longrightarrow> spec_step ch fmt ap c1 rest1 ap'"
      using l unfolding spec_step_def by (auto simp: suffix_ConsI intro: suffix_order.trans)
  qed
  note u = reswitch.simps [of ch s fmt ap, unfolded nc Let_def prod.case nc1 d2 d3]
  have simple: "\<exists>s'. reswitch ch s fmt ap = reswitch c s' rest ap" if "ch \<in> {32, 35, 45, 43, 48, 104, 113}"
    unfolding u using that by (elim insertE emptyE; simp add: is_digit_ch_def; blast)
  have star: "ap = x # ap' \<Longrightarrow> \<exists>s'. reswitch ch s fmt ap = reswitch c s' rest ap'" "ap = [] \<Longrightarrow> reswitch ch s fmt ap = None" if "ch = 42" for x ap'
  proof -
    show "ap = x # ap' \<Longrightarrow> \<exists>s'. reswitch ch s fmt ap = reswitch c s' rest ap'" unfolding u using that by (simp add: va_arg_def) blast
    show "ap = [] \<Longrightarrow> reswitch ch s fmt ap = None" unfolding u using that by (simp add: va_arg_def)
  qed
  have dot: "c = 42 \<Longrightarrow> ap = x # ap' \<Longrightarrow> \<exists>s'. reswitch ch s fmt ap = reswitch c1 s' rest1 ap'" "c = 42 \<Longrightarrow> ap = [] \<Longrightarrow> reswitch ch s fmt ap = None"
    "c \<noteq> 42 \<Longrightarrow> \<exists>s'. reswitch ch s fmt ap = reswitch c2 s' rest2 ap" if "ch = 46" for x ap'
  proof -
    show "c = 42 \<Longrightarrow> ap = x # ap' \<Longrightarrow> \<exists>s'. reswitch ch s fmt ap = reswitch c1 s' rest1 ap'" unfolding u using that by (simp add: va_arg_def) blast
    show "c = 42 \<Longrightarrow> ap = [] \<Longrightarrow> reswitch ch s fmt ap = None" unfolding u using that by (simp add: va_arg_def)
    show "c \<noteq> 42 \<Longrightarrow> \<exists>s'. reswitch ch s fmt ap = reswitch c2 s' rest2 ap" unfolding u using that by simp blast
  qed
  have ell: "(\<exists>s'. reswitch ch s fmt ap = reswitch c1 s' rest1 ap) \<or> (\<exists>s'. reswitch ch s fmt ap = reswitch c s' rest ap)" if "ch = 108"
    unfolding u using that by (cases "c = 108"; simp add: is_digit_ch_def; blast)
  have wid: "\<exists>s'. reswitch ch s fmt ap = reswitch c3 s' rest3 ap" if "is_digit_ch ch" "ch \<noteq> 48"
  proof -
    have "ch \<notin> {32, 35, 42, 45, 43, 46, 48}" using that by (auto simp: is_digit_ch_def)
    then show ?thesis unfolding u using that by simp blast
  qed
  show ?thesis
  proof (cases "ch = 0 \<or> ch \<notin> {32, 35, 42, 45, 43, 46, 48, 104, 108, 113} \<and> \<not> is_digit_ch ch")
    case True
    then have "reswitch ch s fmt ap = Some (ch, s, fmt, ap)" unfolding u by (auto simp: is_digit_ch_def)
    then show ?thesis by blast
  next
    case False
    then have nz: "ch \<noteq> 0" and k: "ch = 42 \<or> ch = 46 \<or> ch = 108 \<or> is_digit_ch ch \<and> ch \<noteq> 48 \<or> ch \<in> {32, 35, 45, 43, 48, 104, 113}" by auto
    note s = st [OF nz]
    from k consider "ch = 42" | "ch = 46" | "ch = 108" | "is_digit_ch ch" "ch \<noteq> 48" | "ch \<in> {32, 35, 45, 43, 48, 104, 113}" by blast
    then show ?thesis
    proof cases
      case 1
      show ?thesis
      proof (cases ap)
        case Nil
        then show ?thesis using star(2) [OF 1] by simp
      next
        case (Cons x ap')
        then show ?thesis using star(1) [OF 1 Cons] s(5) [OF Cons] by metis
      qed
    next
      case 2
      show ?thesis
      proof (cases "c = 42")
        case False
        then show ?thesis using dot(3) [OF 2] s(3) by metis
      next
        case True
        then show ?thesis using dot(1,2) [OF 2 True] s(6) by (cases ap) (simp, metis)
      qed
    next
      case 3
      then show ?thesis using ell s(1,2) by metis
    next
      case 4
      then show ?thesis using wid s(4) by metis
    next
      case 5
      then show ?thesis using simple s(1) by metis
    qed
  qed
qed

lemma reswitch_length: "reswitch ch s fmt ap = Some (ch', s', fmt', ap') \<Longrightarrow> length fmt' \<le> length fmt"
proof (induction "chars_left ch fmt" arbitrary: ch s fmt ap rule: less_induct)
  case less
  from reswitch_step [of ch s fmt ap] less.prems
  consider "(ch', s', fmt', ap') = (ch, s, fmt, ap)" | c s1 rest ap1 where "reswitch c s1 rest ap1 = Some (ch', s', fmt', ap')" "spec_step ch fmt ap c rest ap1"
    by (metis option.distinct(1) option.inject)
  then show ?case
  proof cases
    case 2
    then have "length fmt' \<le> length rest" using less.hyps [OF _ 2(1)] by (simp add: spec_step_def)
    then show ?thesis using 2(2) by (simp add: spec_step_def)
  qed simp
qed

lemma rflag_length: "rflag s fmt ap = Some (ch', s', fmt', ap') \<Longrightarrow> length fmt' \<le> length fmt"
  using reswitch_length by (cases fmt) (fastforce simp: rflag_def)+

function vfiprintf_loop :: "u8 list \<Rightarrow> u32 list \<Rightarrow> int \<Rightarrow> uio \<Rightarrow> sfile \<Rightarrow> (int \<times> sfile) option" where
  "vfiprintf_loop fmt ap ret u f = do {
     let lit = takeWhile (\<lambda>c. c \<noteq> 37) fmt;
     (u, f) \<leftarrow> (if lit \<noteq> [] then PRINT (Own lit) u f else Some (u, f));
     let ret = cint (ret + int (length lit));
     case dropWhile (\<lambda>c. c \<noteq> 37) fmt of
       [] \<Rightarrow> do { (u, f) \<leftarrow> FLUSH u f; Some (ret, f) }
     | _ # fmt \<Rightarrow> do {
         (ch, s, fmt, ap) \<leftarrow> rflag no_flags fmt ap;
         (a, ap, f) \<leftarrow> conversion ch s ret ap f;
         case a of
           Finish \<Rightarrow> do { (u, f) \<leftarrow> FLUSH u f; Some (ret, f) }
         | NoOutput \<Rightarrow> vfiprintf_loop fmt ap ret u f
         | Field cp s dprec ch \<Rightarrow> do { (ret, u, f) \<leftarrow> emit cp s dprec ch ret u f; vfiprintf_loop fmt ap ret u f } } }"
  by pat_completeness auto
termination
proof -
  have d: "length fmt' < length fmt" if "dropWhile (\<lambda>c. c \<noteq> 37) fmt = c # r" "length fmt' \<le> length r" for fmt fmt' r :: "u8 list" and c
    using that length_dropWhile_le [of "\<lambda>c. c \<noteq> 37" fmt] by simp
  show ?thesis
    by (relation "measure (\<lambda>(fmt, _). length fmt)") (use d rflag_length in \<open>fastforce simp: in_measure\<close>)+
qed

declare vfiprintf_loop.simps [simp del]

definition vfiprintf :: "sfile \<Rightarrow> u8 list \<Rightarrow> u32 list \<Rightarrow> (int \<times> sfile) option" where
  "vfiprintf f fmt ap = vfiprintf_loop fmt ap 0 no_vecs f"

definition siprintf :: "u32 \<Rightarrow> u8 list \<Rightarrow> u32 list \<Rightarrow> bytemem \<Rightarrow> (int \<times> bytemem) option" where
  "siprintf str fmt ap m = do {
     (ret, f) \<leftarrow> vfiprintf \<lparr>smem = m, s_p = str, s_w = 2 ^ 31 - 1\<rparr> fmt ap;
     Some (ret, (smem f)(s_p f := 0)) }"

end
