(* ===== verification/LibcPrintfCorrect.thy ===== *)
theory LibcPrintfCorrect
  imports LibcPrintf LibcStdlibCorrect
begin

text \<open>
  Correctness of formatted output: collecting the text in vectors and copying them out when there are eight is the same
  as writing the text directly, and the text of a number is the number.
\<close>

section \<open>Text in memory\<close>

lemma put_bytes_append: "put_bytes a (xs @ ys) m = put_bytes (a + of_nat (length xs)) ys (put_bytes a xs m)"
  by (induction xs arbitrary: a m) (auto simp: add.assoc)

lemma put_bytes_outside: "(\<And>i. i < length xs \<Longrightarrow> q \<noteq> a + of_nat i) \<Longrightarrow> put_bytes a xs m q = m q"
proof (induction xs arbitrary: a m)
  case (Cons x xs)
  have "put_bytes (a + 1) xs (m(a := x)) q = (m(a := x)) q"
  proof (rule Cons.IH)
    fix i assume "i < length xs"
    then show "q \<noteq> a + 1 + of_nat i" using Cons.prems [of "Suc i"] by (simp add: add.assoc)
  qed
  moreover have "q \<noteq> a" using Cons.prems [of 0] by simp
  ultimately show ?case by simp
qed simp

lemma put_bytes_before: "length xs < 2 ^ 32 \<Longrightarrow> put_bytes (a + 1) xs m a = m a"
proof (rule put_bytes_outside)
  fix i assume l: "length xs < 2 ^ 32" "i < length xs"
  show "a \<noteq> a + 1 + of_nat i"
  proof
    assume "a = a + 1 + of_nat i"
    then have "(of_nat (Suc i) :: u32) = 0" by (simp add: add.assoc)
    then have "unat (of_nat (Suc i) :: u32) = 0" by simp
    then show False using l by (simp only: unat_of_nat) (simp add: mod_less)
  qed
qed

lemma bytes_at_put: "length xs \<le> 2 ^ 32 \<Longrightarrow> bytes_at (put_bytes a xs m) a xs"
proof (induction xs arbitrary: a m)
  case (Cons x xs)
  then show ?case using put_bytes_before [of xs a "m(a := x)"] by simp
qed simp

section \<open>Vectors\<close>

fun own_bytes :: "iov \<Rightarrow> u8 list" where
  "own_bytes (Own bs) = bs"
| "own_bytes (Arg a n) = []"

fun is_own :: "iov \<Rightarrow> bool" where
  "is_own (Own bs) \<longleftrightarrow> True"
| "is_own (Arg a n) \<longleftrightarrow> False"

lemma own_length: "is_own v \<Longrightarrow> iov_len v = length (own_bytes v)"
  by (cases v) auto

text \<open>The file after text has been copied to it.\<close>

definition printed :: "bytemem \<Rightarrow> u32 \<Rightarrow> u8 list \<Rightarrow> sfile" where
  "printed m p bs = \<lparr>smem = put_bytes p bs m, s_p = p + of_nat (length bs), s_w = 2 ^ 31 - 1 - int (length bs)\<rparr>"

definition text_of :: "iov list \<Rightarrow> u8 list" where
  "text_of vs = concat (map own_bytes vs)"

lemma sfvwrite_loop_text:
  "list_all is_own vs \<Longrightarrow> text_of vs \<noteq> [] \<Longrightarrow> length (bs @ text_of vs) < 2 ^ 31
    \<Longrightarrow> sfvwrite_loop vs (int (length (text_of vs))) (printed m p bs) = Some (printed m p (bs @ text_of vs))"
proof (induction vs arbitrary: bs)
  case (Cons v vs)
  obtain cs where v: "v = Own cs" using Cons.prems(1) by (cases v) auto
  have t: "text_of (v # vs) = cs @ text_of vs" by (simp add: text_of_def v)
  have all: "list_all is_own vs" using Cons.prems(1) by simp
  show ?case
  proof (cases "cs = []")
    case True
    then show ?thesis using Cons t v by simp
  next
    case False
    have c: "(let w = if int (length cs) < s_w (printed m p bs) then int (length cs) else s_w (printed m p bs) in w) = int (length cs)"
      using Cons.prems(3) by (simp add: printed_def t)
    have s: "(printed m p bs)\<lparr>smem := put_bytes (s_p (printed m p bs)) cs (smem (printed m p bs)), s_w := s_w (printed m p bs) - int (length cs),
      s_p := s_p (printed m p bs) + of_int (int (length cs))\<rparr> = printed m p (bs @ cs)"
      by (simp add: printed_def put_bytes_append algebra_simps)
    show ?thesis
    proof (cases "text_of vs = []")
      case True
      then show ?thesis using False c s t v by (simp add: Let_def)
    next
      case nn: False
      have "sfvwrite_loop vs (int (length (text_of vs))) (printed m p (bs @ cs)) = Some (printed m p ((bs @ cs) @ text_of vs))"
        by (rule Cons.IH [OF all nn]) (use Cons.prems(3) t in simp)
      then show ?thesis using False c s t v nn by (simp add: Let_def)
    qed
  qed
qed (simp add: text_of_def)

text \<open>The state while text is being collected.\<close>

definition collected :: "bytemem \<Rightarrow> u32 \<Rightarrow> u8 list \<Rightarrow> uio \<Rightarrow> sfile \<Rightarrow> bool" where
  "collected m p bs u f \<longleftrightarrow> (\<exists>done. f = printed m p done \<and> done @ text_of (uio_iov u) = bs \<and> list_all is_own (uio_iov u)
     \<and> uio_resid u = int (length (text_of (uio_iov u))) \<and> length (uio_iov u) < NIOV)"

lemma sprint_text:
  assumes "list_all is_own (uio_iov u)" "uio_resid u = int (length (text_of (uio_iov u)))" "length (bs @ text_of (uio_iov u)) < 2 ^ 31"
  shows "sprint u (printed m p bs) = Some (no_vecs, printed m p (bs @ text_of (uio_iov u)))"
proof (cases "text_of (uio_iov u) = []")
  case True
  then show ?thesis using assms(2) by (simp add: sprint_def no_vecs_def)
next
  case False
  then show ?thesis using sfvwrite_loop_text [OF assms(1) False assms(3)] assms(2) by (simp add: sprint_def sfvwrite_def)
qed

lemma collected_no_vecs [simp]: "collected m p bs no_vecs (printed m p bs)"
  by (simp add: collected_def no_vecs_def text_of_def)

lemma PRINT_text:
  assumes "collected m p bs u f" "length (bs @ cs) < 2 ^ 31"
  shows "\<exists>u' f'. PRINT (Own cs) u f = Some (u', f') \<and> collected m p (bs @ cs) u' f'"
proof -
  obtain d where d: "f = printed m p d" "d @ text_of (uio_iov u) = bs" "list_all is_own (uio_iov u)" "uio_resid u = int (length (text_of (uio_iov u)))"
    "length (uio_iov u) < NIOV" using assms(1) unfolding collected_def by blast
  let ?u = "\<lparr>uio_iov = uio_iov u @ [Own cs], uio_resid = cint (uio_resid u + int (length cs))\<rparr>"
  have t: "text_of (uio_iov ?u) = text_of (uio_iov u) @ cs" by (simp add: text_of_def)
  have t': "text_of (uio_iov u @ [Own cs]) = text_of (uio_iov u) @ cs" by (simp add: text_of_def)
  have l: "length (text_of (uio_iov u)) + length cs < 2 ^ 31" using assms(2) d(2) by auto
  then have r: "uio_resid ?u = int (length (text_of (uio_iov ?u)))" using d(4) by (simp add: t' cint_id)
  have own: "list_all is_own (uio_iov ?u)" using d(3) by simp
  show ?thesis
  proof (cases "length (uio_iov ?u) \<ge> NIOV")
    case True
    have "sprint ?u (printed m p d) = Some (no_vecs, printed m p (d @ text_of (uio_iov ?u)))"
      by (rule sprint_text [OF own r]) (use assms(2) d(2) t in auto)
    moreover have "d @ text_of (uio_iov ?u) = bs @ cs" using d(2) t by auto
    ultimately show ?thesis using True d(1) by (simp add: PRINT_def Let_def)
  next
    case False
    then have "collected m p (bs @ cs) ?u f" using d own r t unfolding collected_def by auto
    then show ?thesis using False by (auto simp: PRINT_def Let_def)
  qed
qed

lemma PAD_loop_text:
  "collected m p bs u f \<Longrightarrow> 0 < n \<Longrightarrow> length bs + nat n < 2 ^ 31 \<Longrightarrow> \<exists>u' f'. PAD_loop n c u f = Some (u', f') \<and> collected m p (bs @ replicate (nat n) c) u' f'"
proof (induction "nat n" arbitrary: n bs u f rule: less_induct)
  case less
  show ?case
  proof (cases "n > int PADSIZE")
    case True
    obtain u1 f1 where 1: "PRINT (Own (replicate PADSIZE c)) u f = Some (u1, f1)" "collected m p (bs @ replicate PADSIZE c) u1 f1"
    proof -
      have "16 < nat n" using True by simp
      then have "length (bs @ replicate PADSIZE c) < 2 ^ 31" using less.prems(3) by simp
      from PRINT_text [OF less.prems(1) this] show thesis using that by blast
    qed
    obtain u2 f2 where 2: "PAD_loop (n - int PADSIZE) c u1 f1 = Some (u2, f2)" "collected m p ((bs @ replicate PADSIZE c) @ replicate (nat (n - int PADSIZE)) c) u2 f2"
    proof -
      have "nat (n - int PADSIZE) < nat n" "0 < n - int PADSIZE" "length (bs @ replicate PADSIZE c) + nat (n - int PADSIZE) < 2 ^ 31"
        using True less.prems(3) by (simp_all add: nat_diff_distrib)
      from less.hyps [OF this(1) 1(2) this(2,3)] show thesis using that by blast
    qed
    have "replicate PADSIZE c @ replicate (nat (n - int PADSIZE)) c = replicate (nat n) c" using True by (simp add: replicate_add [symmetric])
    then show ?thesis using 1 2 True by (subst PAD_loop.simps) (simp)
  next
    case False
    then show ?thesis using PRINT_text [OF less.prems(1), of "replicate (nat n) c"] less.prems(3) by (subst PAD_loop.simps) simp
  qed
qed

lemma PAD_text:
  assumes "collected m p bs u f" "length bs + nat n < 2 ^ 31"
  shows "\<exists>u' f'. PAD n c u f = Some (u', f') \<and> collected m p (bs @ replicate (nat n) c) u' f'"
  using PAD_loop_text [OF assms(1) _ assms(2)] assms(1) by (cases "0 < n") (auto simp: PAD_def)

lemma FLUSH_text:
  assumes "collected m p bs u f" "length bs < 2 ^ 31"
  shows "FLUSH u f = Some (no_vecs, printed m p bs)"
proof -
  obtain d where d: "f = printed m p d" "d @ text_of (uio_iov u) = bs" "list_all is_own (uio_iov u)" "uio_resid u = int (length (text_of (uio_iov u)))"
    using assms(1) unfolding collected_def by blast
  have "sprint u (printed m p d) = Some (no_vecs, printed m p (d @ text_of (uio_iov u)))" by (rule sprint_text) (use d assms(2) in auto)
  then show ?thesis using d by (auto simp: FLUSH_def sprint_def no_vecs_def)
qed

section \<open>Fields\<close>

text \<open>The text of a field: contents with precision, prefix and padding.\<close>

definition field_prefix :: "pflags \<Rightarrow> u8 \<Rightarrow> u8 list" where
  "field_prefix s ch = (if sign s \<noteq> 0 then [sign s] else if HEXPREFIX s then [48, ch] else [])"

definition field_body :: "u8 list \<Rightarrow> int \<Rightarrow> u8 list" where
  "field_body cs dprec = replicate (nat dprec - length cs) 48 @ cs"

definition field_text :: "u8 list \<Rightarrow> pflags \<Rightarrow> int \<Rightarrow> u8 \<Rightarrow> u8 list" where
  "field_text cs s dprec ch =
     (let pre = field_prefix s ch; body = field_body cs dprec; pad = replicate (nat (width s) - length (pre @ body)) in
      if LADJUST s then pre @ body @ pad 32 else if ZEROPAD s then pre @ pad 48 @ body else pad 32 @ pre @ body)"

lemma field_text_length: "length (field_text cs s dprec ch) = max (nat (width s)) (length (field_prefix s ch @ field_body cs dprec))"
  by (auto simp: field_text_def Let_def max_def)

lemma length_field_body: "length (field_body cs dprec) = max (nat dprec) (length cs)"
  by (simp add: field_body_def)

lemma real_size_value:
  assumes "length (field_prefix s ch @ field_body cs dprec) < 2 ^ 31"
  shows "real_size (Own cs) s dprec = int (length (field_prefix s ch @ field_body cs dprec))"
  using assms by (auto simp: real_size_def Let_def field_prefix_def field_body_def cint_id)

lemma PAD_if_text:
  assumes "collected m p bs u f" "length (bs @ (if b then replicate (nat n) c else [])) < 2 ^ 31"
  shows "\<exists>u' f'. (if b then PAD n c u f else Some (u, f)) = Some (u', f') \<and> collected m p (bs @ (if b then replicate (nat n) c else [])) u' f'"
  using PAD_text [OF assms(1), of n c] assms by (cases b) auto

lemma prefix_text:
  assumes "collected m p bs u f" "length (bs @ field_prefix s ch) < 2 ^ 31"
  shows "\<exists>u' f'. (if sign s \<noteq> 0 then PRINT (Own [sign s]) u f else if HEXPREFIX s then PRINT (Own [48, ch]) u f else Some (u, f)) = Some (u', f')
    \<and> collected m p (bs @ field_prefix s ch) u' f'"
  using PRINT_text [OF assms(1), of "field_prefix s ch"] assms by (auto simp: field_prefix_def split: if_splits)

lemma emit_text:
  assumes "collected m p bs u f" "0 \<le> width s" "- 1 \<le> dprec" "length (bs @ field_text cs s dprec ch) < 2 ^ 31" "ret = int (length bs)"
  shows "emit (Own cs) s dprec ch ret u f = Some (int (length (bs @ field_text cs s dprec ch)), no_vecs, printed m p (bs @ field_text cs s dprec ch))"
proof -
  let ?pre = "field_prefix s ch" and ?body = "field_body cs dprec"
  define k where "k = nat (width s) - length (?pre @ ?body)"
  define z where "z = nat dprec - length cs"
  have l: "length bs + max (nat (width s)) (length (?pre @ ?body)) < 2 ^ 31" using assms(4) field_text_length [of cs s dprec ch] by simp
  then have l': "length bs + length (?pre @ ?body) + k < 2 ^ 31" "length (?pre @ ?body) < 2 ^ 31" "nat (width s) < 2 ^ 31" by (auto simp: k_def)
  have rs: "real_size (Own cs) s dprec = int (length (?pre @ ?body))" by (rule real_size_value [OF l'(2)])
  have room: "cint (width s - int (length (?pre @ ?body))) = width s - int (length (?pre @ ?body))"
    using l' assms(2) by (intro cint_id) auto
  have nroom: "nat (width s - int (length (?pre @ ?body))) = k" using assms(2) by (simp add: k_def nat_diff_distrib)
  have body: "length ?body = z + length cs" "?body = replicate z 48 @ cs" by (simp_all add: field_body_def z_def)
  have zr: "cint (dprec - int (length cs)) = dprec - int (length cs)" using l' assms(3) body by (intro cint_id) (auto simp: z_def)
  have nz: "nat (dprec - int (length cs)) = z" by (simp add: z_def nat_diff_distrib')
  let ?a = "if \<not> LADJUST s \<and> \<not> ZEROPAD s then replicate k 32 else []" and ?b = "if \<not> LADJUST s \<and> ZEROPAD s then replicate k 48 else []"
  let ?c = "if LADJUST s then replicate k 32 else []"
  have t: "field_text cs s dprec ch = ?a @ ?pre @ ?b @ replicate z 48 @ cs @ ?c"
    by (simp add: field_text_def Let_def k_def body(2))
  have tl: "length (bs @ ?a @ ?pre @ ?b @ replicate z 48 @ cs @ ?c) < 2 ^ 31" using assms(4) unfolding t .
  let ?room = "width s - int (length (?pre @ ?body))"
  obtain u1 f1 where 1: "(if \<not> LADJUST s \<and> \<not> ZEROPAD s then PAD ?room 32 u f else Some (u, f)) = Some (u1, f1)" "collected m p (bs @ ?a) u1 f1"
    using PAD_if_text [OF assms(1), of "\<not> LADJUST s \<and> \<not> ZEROPAD s" ?room 32] tl unfolding nroom by (auto simp del: replicate.simps)
  obtain u2 f2 where 2: "(if sign s \<noteq> 0 then PRINT (Own [sign s]) u1 f1 else if HEXPREFIX s then PRINT (Own [48, ch]) u1 f1 else Some (u1, f1)) = Some (u2, f2)"
    "collected m p ((bs @ ?a) @ ?pre) u2 f2" using prefix_text [OF 1(2), of s ch] tl by fastforce
  obtain u3 f3 where 3: "(if \<not> LADJUST s \<and> ZEROPAD s then PAD ?room 48 u2 f2 else Some (u2, f2)) = Some (u3, f3)" "collected m p (((bs @ ?a) @ ?pre) @ ?b) u3 f3"
    using PAD_if_text [OF 2(2), of "\<not> LADJUST s \<and> ZEROPAD s" ?room 48] tl unfolding nroom by fastforce
  obtain u4 f4 where 4: "PAD (dprec - int (length cs)) 48 u3 f3 = Some (u4, f4)" "collected m p ((((bs @ ?a) @ ?pre) @ ?b) @ replicate z 48) u4 f4"
    using PAD_text [OF 3(2), of "dprec - int (length cs)" 48] tl unfolding nz by fastforce
  obtain u5 f5 where 5: "PRINT (Own cs) u4 f4 = Some (u5, f5)" "collected m p (((((bs @ ?a) @ ?pre) @ ?b) @ replicate z 48) @ cs) u5 f5"
    using PRINT_text [OF 4(2), of cs] tl by fastforce
  obtain u6 f6 where 6: "(if LADJUST s then PAD ?room 32 u5 f5 else Some (u5, f5)) = Some (u6, f6)" "collected m p ((((((bs @ ?a) @ ?pre) @ ?b) @ replicate z 48) @ cs) @ ?c) u6 f6"
    using PAD_if_text [OF 5(2), of "LADJUST s" ?room 32] tl unfolding nroom by fastforce
  have 7: "FLUSH u6 f6 = Some (no_vecs, printed m p (bs @ field_text cs s dprec ch))"
    using FLUSH_text [OF 6(2)] tl t by (simp only: append_assoc)
  have w: "(if width s > int (length (?pre @ ?body)) then width s else int (length (?pre @ ?body))) = int (length (field_text cs s dprec ch))"
    unfolding field_text_length using assms(2) by auto
  have r: "cint (ret + int (length (field_text cs s dprec ch))) = int (length (bs @ field_text cs s dprec ch))"
    using assms(4,5) by (subst cint_id) auto
  show ?thesis
    unfolding emit_def Let_def rs room iov_len.simps zr 1(1) 2(1) 3(1) 4(1) 5(1) 6(1) 7 w r Option.bind.simps prod.case ..
qed

section \<open>Formats\<close>

text \<open>The text of a format with its arguments, written directly: literal text and one field after the other. Formats with
  \<^verbatim>\<open>%s\<close> or \<^verbatim>\<open>%n\<close>, with too few arguments or with a field width that overflows have none.\<close>

definition no_file :: sfile where "no_file = \<lparr>smem = (\<lambda>_. 0), s_p = 0, s_w = 0\<rparr>"

function format_text :: "u8 list \<Rightarrow> u32 list \<Rightarrow> u8 list option" where
  "format_text fmt ap =
     (let lit = takeWhile (\<lambda>c. c \<noteq> 37) fmt in
      case dropWhile (\<lambda>c. c \<noteq> 37) fmt of
        [] \<Rightarrow> Some lit
      | _ # fmt \<Rightarrow> do {
          (ch, s, fmt, ap) \<leftarrow> rflag no_flags fmt ap;
          if ch = 110 \<or> ch = 115 then None
          else do {
            (a, ap, _) \<leftarrow> conversion ch s 0 ap no_file;
            case a of
              Finish \<Rightarrow> Some lit
            | Field (Own cs) s dprec ch \<Rightarrow>
                if 0 \<le> width s \<and> - 1 \<le> dprec then do { rest \<leftarrow> format_text fmt ap; Some (lit @ field_text cs s dprec ch @ rest) } else None
            | _ \<Rightarrow> None } })"
  by pat_completeness auto
termination
proof -
  have d: "length fmt' < length fmt" if "dropWhile (\<lambda>c. c \<noteq> 37) fmt = c # r" "length fmt' \<le> length r" for fmt fmt' r :: "u8 list" and c
    using that length_dropWhile_le [of "\<lambda>c. c \<noteq> 37" fmt] by simp
  show ?thesis
    by (relation "measure (\<lambda>(fmt, _). length fmt)") (use d rflag_length in \<open>fastforce simp: in_measure\<close>)+
qed

declare format_text.simps [simp del]

text \<open>Apart from \<^verbatim>\<open>%s\<close> and \<^verbatim>\<open>%n\<close> a conversion does not look at the file.\<close>

lemma conversion_no_file:
  assumes "ch \<noteq> 110" "ch \<noteq> 115" "conversion ch s 0 ap no_file = Some (a, ap', f0)"
  shows "conversion ch s ret ap f = Some (a, ap', f)"
  using assms unfolding conversion_def by (auto split: if_splits option.splits prod.splits simp: bind_eq_Some_conv)

lemma format_text_cases:
  assumes "format_text fmt ap = Some ts"
  obtains (plain) "dropWhile (\<lambda>c. c \<noteq> 37) fmt = []" "ts = takeWhile (\<lambda>c. c \<noteq> 37) fmt"
  | (finish) c rest ch s fmt1 ap1 ap2 f0 where "dropWhile (\<lambda>c. c \<noteq> 37) fmt = c # rest" "rflag no_flags rest ap = Some (ch, s, fmt1, ap1)"
      "ch \<noteq> 110" "ch \<noteq> 115" "conversion ch s 0 ap1 no_file = Some (Finish, ap2, f0)" "ts = takeWhile (\<lambda>c. c \<noteq> 37) fmt"
  | (field) c rest ch s fmt1 ap1 cs s1 dprec ch1 ap2 f0 r where "dropWhile (\<lambda>c. c \<noteq> 37) fmt = c # rest" "rflag no_flags rest ap = Some (ch, s, fmt1, ap1)"
      "ch \<noteq> 110" "ch \<noteq> 115" "conversion ch s 0 ap1 no_file = Some (Field (Own cs) s1 dprec ch1, ap2, f0)" "0 \<le> width s1" "- 1 \<le> dprec"
      "format_text fmt1 ap2 = Some r" "ts = takeWhile (\<lambda>c. c \<noteq> 37) fmt @ field_text cs s1 dprec ch1 @ r"
proof (cases "dropWhile (\<lambda>c. c \<noteq> 37) fmt")
  case Nil
  have "ts = takeWhile (\<lambda>c. c \<noteq> 37) fmt" using assms unfolding format_text.simps [of fmt ap] Let_def Nil list.case by simp
  then show thesis using plain [OF Nil] by blast
next
  case (Cons c rest)
  define lit where "lit = takeWhile (\<lambda>c. c \<noteq> 37) fmt"
  have ft: "do {
        (ch, s, fmt, ap) \<leftarrow> rflag no_flags rest ap;
        if ch = 110 \<or> ch = 115 then None
        else do {
          (a, ap, _) \<leftarrow> conversion ch s 0 ap no_file;
          case a of
            Finish \<Rightarrow> Some lit
          | Field (Own cs) s dprec ch \<Rightarrow>
              if 0 \<le> width s \<and> - 1 \<le> dprec then do { rest \<leftarrow> format_text fmt ap; Some (lit @ field_text cs s dprec ch @ rest) } else None
          | _ \<Rightarrow> None } } = Some ts"
    using assms unfolding format_text.simps [of fmt ap] Let_def Cons list.case lit_def [symmetric] .
  then obtain ch s fmt1 ap1 where rf: "rflag no_flags rest ap = Some (ch, s, fmt1, ap1)" "ch \<noteq> 110" "ch \<noteq> 115"
    by (auto simp: bind_eq_Some_conv split: if_splits)
  obtain a ap2 f0 where cv: "conversion ch s 0 ap1 no_file = Some (a, ap2, f0)" using ft rf by (auto simp: bind_eq_Some_conv)
  show thesis
  proof (cases a)
    case Finish
    then show thesis using finish [OF Cons rf cv [unfolded Finish]] ft rf cv by (simp add: lit_def)
  next
    case NoOutput
    then show thesis using ft rf cv by simp
  next
    case (Field cp s1 dprec ch1)
    then obtain cs where cs: "cp = Own cs" using ft rf cv by (cases cp) auto
    then obtain r where r: "0 \<le> width s1" "- 1 \<le> dprec" "format_text fmt1 ap2 = Some r" "ts = lit @ field_text cs s1 dprec ch1 @ r"
      using ft rf cv Field by (auto simp: bind_eq_Some_conv split: if_splits)
    then show thesis using field [OF Cons rf cv [unfolded Field cs]] by (simp add: lit_def)
  qed
qed

lemma vfiprintf_loop_text:
  "collected m p bs u f \<Longrightarrow> format_text fmt ap = Some ts \<Longrightarrow> length (bs @ ts) < 2 ^ 31
    \<Longrightarrow> vfiprintf_loop fmt ap (int (length bs)) u f = Some (int (length (bs @ ts)), printed m p (bs @ ts))"
proof (induction "length fmt" arbitrary: fmt ap bs u f ts rule: less_induct)
  case less
  define lit where "lit = takeWhile (\<lambda>c. c \<noteq> 37) fmt"
  have pre: "\<exists>r. ts = lit @ r" using less.prems(2) by (rule format_text_cases) (auto simp: lit_def)
  then have l: "length (bs @ lit) < 2 ^ 31" using less.prems(3) by auto
  obtain u1 f1 where 1: "(if lit \<noteq> [] then PRINT (Own lit) u f else Some (u, f)) = Some (u1, f1)" "collected m p (bs @ lit) u1 f1"
    using PRINT_text [OF less.prems(1) l] less.prems(1) by (cases "lit = []") auto
  have ret: "cint (int (length bs) + int (length lit)) = int (length (bs @ lit))" using l by (subst cint_id) auto
  have fl: "FLUSH u1 f1 = Some (no_vecs, printed m p (bs @ lit))" by (rule FLUSH_text [OF 1(2) l])
  note unfold = vfiprintf_loop.simps [of fmt ap "int (length bs)" u f, unfolded lit_def [symmetric] Let_def 1(1) ret Option.bind.simps prod.case]
  from less.prems(2) show ?case
  proof (cases rule: format_text_cases)
    case plain
    then have ts: "ts = lit" by (simp add: lit_def)
    show ?thesis unfolding unfold plain(1) list.case fl ts Option.bind.simps prod.case ..
  next
    case (finish c rest ch s fmt1 ap1 ap2 f0)
    then have ts: "ts = lit" by (simp add: lit_def)
    show ?thesis unfolding unfold finish(1) list.case finish(2) Option.bind.simps prod.case conversion_no_file [OF finish(3-5)] action.case fl ts ..
  next
    case (field c rest ch s fmt1 ap1 cs s1 dprec ch1 ap2 f0 r)
    let ?bs = "(bs @ lit) @ field_text cs s1 dprec ch1"
    have ts: "bs @ ts = ?bs @ r" using field(9) by (simp add: lit_def)
    have em: "emit (Own cs) s1 dprec ch1 (int (length (bs @ lit))) u1 f1 = Some (int (length ?bs), no_vecs, printed m p ?bs)"
      by (rule emit_text [OF 1(2) field(6,7)]) (use less.prems(3) ts in auto)
    have "length fmt1 < length fmt" using rflag_length [OF field(2)] field(1) length_dropWhile_le [of "\<lambda>c. c \<noteq> 37" fmt] by simp
    then have "vfiprintf_loop fmt1 ap2 (int (length ?bs)) no_vecs (printed m p ?bs) = Some (int (length (?bs @ r)), printed m p (?bs @ r))"
      by (rule less.hyps [OF _ _ field(8)]) (use less.prems(3) ts in auto)
    then show ?thesis
      unfolding unfold ts field(1) list.case field(2) Option.bind.simps prod.case conversion_no_file [OF field(3-5)] action.case em .
  qed
qed

lemma siprintf_text:
  assumes "format_text fmt ap = Some ts" "length ts < 2 ^ 31"
  shows "siprintf str fmt ap m = Some (int (length ts), put_bytes str (ts @ [0]) m)"
proof -
  have p: "\<lparr>smem = m, s_p = str, s_w = 2 ^ 31 - 1\<rparr> = printed m str []" by (simp add: printed_def)
  have "vfiprintf_loop fmt ap (int (length ([] :: u8 list))) no_vecs (printed m str []) = Some (int (length ([] @ ts)), printed m str ([] @ ts))"
    by (rule vfiprintf_loop_text) (use assms in auto)
  then show ?thesis unfolding siprintf_def vfiprintf_def p by (simp add: printed_def put_bytes_append)
qed

section \<open>Numerals\<close>

text \<open>The digits of a number, most significant first.\<close>

function numeral_text :: "nat \<Rightarrow> (nat \<Rightarrow> u8) \<Rightarrow> nat \<Rightarrow> u8 list" where
  "numeral_text b dig n = (if n < b \<or> b < 2 then [dig n] else numeral_text b dig (n div b) @ [dig (n mod b)])"
  by pat_completeness auto
termination by (relation "measure (\<lambda>(_, _, n). n)") auto

declare numeral_text.simps [simp del]

lemma numeral_step: "n < b \<Longrightarrow> numeral_text b dig n = [dig n]"
  "\<not> n < b \<Longrightarrow> 2 \<le> b \<Longrightarrow> numeral_text b dig n = numeral_text b dig (n div b) @ [dig (n mod b)]"
  by (subst numeral_text.simps, simp)+

lemma u32_bound: "unat u < 2 ^ 32" for u :: u32
  using unsigned_less [of u, where 'a = nat] by simp

lemma to_char_nat: "unat u < 10 \<Longrightarrow> to_char u = of_nat (48 + unat u)"
proof -
  assume u: "unat u < 10"
  have "to_char (of_nat k) = of_nat (48 + k)" if "k < 10" for k
  proof -
    have "k = 0 \<or> k = 1 \<or> k = 2 \<or> k = 3 \<or> k = 4 \<or> k = 5 \<or> k = 6 \<or> k = 7 \<or> k = 8 \<or> k = 9" using that by arith
    then show ?thesis by (auto simp: to_char_def)
  qed
  from this [OF u] show ?thesis by simp
qed

lemma dec_loop_text: "dec_loop u cp = numeral_text 10 (\<lambda>d. of_nat (48 + d)) (unat u) @ cp"
proof (induction u cp rule: dec_loop.induct)
  case (1 u cp)
  show ?case
  proof (cases "10 \<le> u")
    case True
    have "unat (u div 10) = unat u div 10" "unat (u mod 10) = unat u mod 10" by (simp_all add: unat_div unat_mod)
    moreover have "\<not> unat u < 10" using True by (simp add: word_le_nat_alt)
    ultimately show ?thesis using 1 True to_char_nat [of "u mod 10"] by (subst dec_loop.simps) (simp add: numeral_step)
  next
    case False
    then have "unat u < 10" by (simp add: word_le_nat_alt)
    then show ?thesis using False to_char_nat [of u] by (subst dec_loop.simps) (simp add: numeral_step)
  qed
qed

lemma unat_drop_u32: "unat (drop_bit k u) = unat u div 2 ^ k" for u :: u32
  using u32_bound [of u] by (simp only: unsigned_drop_bit_eq) (simp add: drop_bit_eq_div take_bit_nat_eq_self)

lemma unat_and_low: "unat (u AND 7) = unat u mod 8" "unat (u AND 15) = unat u mod 16" for u :: u32
proof -
  have m: "(7 :: u32) = mask 3" "(15 :: u32) = mask 4" by (simp_all add: mask_eq_exp_minus_1)
  have "unat (u AND mask k) = unat u mod 2 ^ k" for k
  proof -
    have "u AND mask k = take_bit k u" by (simp add: take_bit_eq_mask)
    then show ?thesis by (simp only: unsigned_take_bit_eq) (simp add: take_bit_eq_mod)
  qed
  from this [of 3] this [of 4] show "unat (u AND 7) = unat u mod 8" "unat (u AND 15) = unat u mod 16" unfolding m by simp_all
qed

lemma oct_loop_text: "oct_loop u cp = numeral_text 8 (\<lambda>d. of_nat (48 + d)) (unat u) @ cp"
proof (induction u cp rule: oct_loop.induct)
  case (1 u cp)
  have d: "unat (drop_bit 3 u) = unat u div 8" using unat_drop_u32 [of 3 u] by simp
  have t: "to_char (u AND 7) = of_nat (48 + unat u mod 8)" using to_char_nat [of "u AND 7"] unat_and_low(1) [of u] by simp
  show ?case
  proof (cases "drop_bit 3 u = 0")
    case True
    then have "unat u div 8 = 0" using d by simp
    then have "unat u < 8" by simp
    then show ?thesis using True t by (subst oct_loop.simps) (simp add: Let_def numeral_step)
  next
    case False
    then have "unat u div 8 \<noteq> 0" using d by (metis unat_eq_zero)
    then have "\<not> unat u < 8" by simp
    then show ?thesis using 1 [OF refl refl False] False t d by (subst oct_loop.simps) (simp add: Let_def numeral_step)
  qed
qed

lemma hex_loop_text: "hex_loop xdigs u cp = numeral_text 16 (\<lambda>d. xdigs ! d) (unat u) @ cp"
proof (induction xdigs u cp rule: hex_loop.induct)
  case (1 xdigs u cp)
  have d: "unat (drop_bit 4 u) = unat u div 16" using unat_drop_u32 [of 4 u] by simp
  note t = unat_and_low(2) [of u]
  show ?case
  proof (cases "drop_bit 4 u = 0")
    case True
    then have "unat u div 16 = 0" using d by simp
    then have "unat u < 16" by simp
    then show ?thesis using True t by (subst hex_loop.simps) (simp add: Let_def numeral_step)
  next
    case False
    then have "unat u div 16 \<noteq> 0" using d by (metis unat_eq_zero)
    then have "\<not> unat u < 16" by simp
    then show ?thesis using 1 [OF refl refl False] False t d by (subst hex_loop.simps) (simp add: Let_def numeral_step)
  qed
qed

text \<open>The digits denote the number.\<close>

lemma numeral_digits:
  assumes "2 \<le> b" "\<And>d. d < b \<Longrightarrow> char_digit (dig d) = Some d"
  shows "digits_value b (numeral_text b dig n) = n \<and> list_all (is_digit b) (numeral_text b dig n) \<and> numeral_text b dig n \<noteq> []"
proof (induction n rule: less_induct)
  case (less n)
  show ?case
  proof (cases "n < b")
    case True
    then show ?thesis using assms by (subst (1 2 3) numeral_text.simps) (simp add: digits_value_def add_digit_def is_digit_def)
  next
    case False
    have "n div b < n" using False assms(1) by simp
    note ih = less.IH [OF this]
    have m: "n mod b < b" using assms(1) by simp
    have "numeral_text b dig n = numeral_text b dig (n div b) @ [dig (n mod b)]" using False assms(1) by (subst numeral_text.simps) simp
    then show ?thesis using ih assms(2) [OF m] m by (simp add: digits_value_def add_digit_def is_digit_def)
  qed
qed

lemma numeral_length: "2 \<le> b \<Longrightarrow> 0 < k \<Longrightarrow> n < b ^ k \<Longrightarrow> length (numeral_text b dig n) \<le> k"
proof (induction k arbitrary: n)
  case (Suc k)
  show ?case
  proof (cases "n < b")
    case True
    then show ?thesis by (subst numeral_text.simps) simp
  next
    case False
    then have "0 < k" using Suc.prems by (cases k) auto
    moreover have "n div b < b ^ k" using Suc.prems by (simp add: less_mult_imp_div_less mult.commute)
    ultimately have "length (numeral_text b dig (n div b)) \<le> k" using Suc by blast
    then show ?thesis using False Suc.prems(1) by (subst numeral_text.simps) simp
  qed
qed simp

lemma number_digits_length: "length (number_digits b xdigs s u) \<le> BUF"
proof -
  have "length (numeral_text 10 d (unat u)) \<le> 10" "length (numeral_text 8 d (unat u)) \<le> 11" "length (numeral_text 16 d (unat u)) \<le> 8" for d
    using u32_bound [of u] by (intro numeral_length; simp)+
  from this(1) [of "\<lambda>d. of_nat (48 + d)"] this(2) [of "\<lambda>d. of_nat (48 + d)"] this(3) [of "\<lambda>d. xdigs ! d"]
  show ?thesis by (cases b) (simp_all add: number_digits_def dec_loop_text oct_loop_text hex_loop_text Let_def)
qed

text \<open>The conversion buffer is never overrun.\<close>

lemma number_fits: "number b xdigs s ch u = (let s = (if prec s \<ge> 0 then s\<lparr>ZEROPAD := False\<rparr> else s) in Some (Field (Own (number_digits b xdigs s u)) s (prec s) ch))"
  by (simp add: number_def Let_def number_digits_length)

section \<open>Single conversions\<close>

lemma reswitch_end: "ch \<notin> {32, 35, 42, 45, 43, 46, 48, 104, 108, 113} \<Longrightarrow> \<not> is_digit_ch ch \<Longrightarrow> reswitch ch s fmt ap = Some (ch, s, fmt, ap)"
  by (subst reswitch.simps) (auto simp: Let_def split: prod.split)

lemma format_text_field:
  assumes "rflag no_flags rest ap = Some (ch, s, fmt1, ap1)" "ch \<noteq> 110" "ch \<noteq> 115"
    "conversion ch s 0 ap1 no_file = Some (Field (Own cs) s1 dprec ch1, ap2, f0)" "0 \<le> width s1" "- 1 \<le> dprec"
  shows "format_text (37 # rest) ap = map_option (\<lambda>r. field_text cs s1 dprec ch1 @ r) (format_text fmt1 ap2)"
  using assms by (subst format_text.simps) (simp add: map_option_case split: option.split)

lemma format_text_Nil [simp]: "format_text [] ap = Some []"
  by (subst format_text.simps) simp

lemma plain_field: "field_text cs (no_flags\<lparr>sign := c\<rparr>) (- 1) ch = (if c = 0 then cs else c # cs)" "field_text cs no_flags (- 1) ch = cs"
  by (simp_all add: field_text_def field_prefix_def field_body_def no_flags_def Let_def)

lemma unat_minus: "sint u < 0 \<Longrightarrow> unat (- u) = nat (- sint u)" "0 \<le> sint u \<Longrightarrow> unat u = nat (sint u)" for u :: u32
proof -
  show "unat (- u) = nat (- sint u)" if s: "sint u < 0"
  proof -
    have "- sint u \<le> 2 ^ 31" using sint_greater_eq [of u] by simp
    then have b: "0 \<le> - sint u" "- sint u < 2 ^ 32" using s by auto
    have "- u = word_of_int (- sint u)" by simp
    then have "uint (- u) = - sint u" using b by (simp only: uint_word_of_int) (simp add: take_bit_int_eq_self)
    then show ?thesis by (simp add: unat_eq_nat_uint)
  qed
  show "unat u = nat (sint u)" if s: "0 \<le> sint u"
  proof -
    have b: "sint u < 2 ^ 32" using sint_less [of u] by simp
    have "uint (word_of_int (sint u) :: u32) = sint u" using b s by (simp only: uint_word_of_int) (simp add: take_bit_int_eq_self)
    then have "uint u = sint u" by simp
    then show ?thesis by (simp add: unat_eq_nat_uint)
  qed
qed

abbreviation decimal :: "nat \<Rightarrow> u8 list" where "decimal \<equiv> numeral_text 10 (\<lambda>d. of_nat (48 + d))"

lemma format_d: "format_text [37, 100] [x] = Some ((if sint x < 0 then [45] else []) @ decimal (nat \<bar>sint x\<bar>))"
proof -
  have r: "rflag no_flags [100] [x] = Some (100, no_flags, [], [x])" by (simp add: rflag_def reswitch_end is_digit_ch_def)
  show ?thesis
  proof (cases "sint x < 0")
    case True
    have "conversion 100 no_flags 0 [x] no_file = Some (Field (Own (dec_loop (- x) [])) (no_flags\<lparr>sign := 45\<rparr>) (- 1) 100, [], no_file)"
      using True by (simp add: conversion_def conv_signed_def va_arg_def SARG_def number_fits number_digits_def no_flags_def Let_def)
    from format_text_field [OF r _ _ this] show ?thesis using True unat_minus(1) [of x]
      by (simp add: plain_field dec_loop_text) (simp add: no_flags_def)
  next
    case False
    have "conversion 100 no_flags 0 [x] no_file = Some (Field (Own (dec_loop x [])) no_flags (- 1) 100, [], no_file)"
      using False by (simp add: conversion_def conv_signed_def va_arg_def SARG_def number_fits number_digits_def no_flags_def Let_def)
    from format_text_field [OF r _ _ this] show ?thesis using False unat_minus(2) [of x]
      by (simp add: plain_field dec_loop_text) (simp add: no_flags_def)
  qed
qed

lemma format_unsigned:
  "format_text [37, 117] [x] = Some (decimal (unat x))"
  "format_text [37, 111] [x] = Some (numeral_text 8 (\<lambda>d. of_nat (48 + d)) (unat x))"
  "format_text [37, 120] [x] = Some (numeral_text 16 ((!) lower_digits) (unat x))"
proof -
  have r: "rflag no_flags [c] [x] = Some (c, no_flags, [], [x])" if "c \<in> {117, 111, 120}" for c
    using that by (auto simp: rflag_def reswitch_end is_digit_ch_def)
  have 0: "no_flags\<lparr>sign := 0\<rparr> = no_flags" by (simp add: no_flags_def)
  have "conversion 117 no_flags 0 [x] no_file = Some (Field (Own (dec_loop x [])) no_flags (- 1) 117, [], no_file)"
    "conversion 111 no_flags 0 [x] no_file = Some (Field (Own (oct_loop x [])) no_flags (- 1) 111, [], no_file)"
    "conversion 120 no_flags 0 [x] no_file = Some (Field (Own (hex_loop lower_digits x [])) no_flags (- 1) 120, [], no_file)"
    by (simp_all add: conversion_def conv_unsigned_def conv_hex_def nosign_def va_arg_def UARG_def number_fits number_digits_def no_flags_def Let_def)
  from format_text_field [OF r _ _ this(1)] format_text_field [OF r _ _ this(2)] format_text_field [OF r _ _ this(3)]
  show "format_text [37, 117] [x] = Some (decimal (unat x))"
    "format_text [37, 111] [x] = Some (numeral_text 8 (\<lambda>d. of_nat (48 + d)) (unat x))"
    "format_text [37, 120] [x] = Some (numeral_text 16 ((!) lower_digits) (unat x))"
    by (simp_all add: plain_field dec_loop_text oct_loop_text hex_loop_text) (simp_all add: no_flags_def)
qed

lemma numeral_number_at:
  assumes "2 \<le> b" "b \<le> 16" "list_all (is_digit b) ds" "ds \<noteq> []" "sg = [] \<or> sg = [45]" "bytes_at m a (sg @ ds @ [0])"
  shows "number_at m a b [] sg [] b ds 0"
proof -
  have d: "\<not> is_space c \<and> c \<notin> {43, 45, 120, 88}" if "is_digit b c" for c
    using that assms(2) by (auto simp: is_digit_def is_space_def char_digit_def Let_def split: if_splits option.splits)
  have 1: "is_digit b (hd ds)" using assms(3,4) by (cases ds) auto
  have 2: "hd (tl (ds @ [0])) \<notin> {120, 88}"
  proof (cases "tl ds")
    case Nil
    then show ?thesis using assms(4) by (cases ds) auto
  next
    case (Cons c cs)
    then have "is_digit b c" using assms(3) by (cases ds) auto
    then show ?thesis using d [of c] Cons assms(4) by (cases ds) auto
  qed
  have 3: "\<not> is_digit b 0" by (simp add: is_digit_def char_digit_def)
  have 4: "\<not> is_space 45" by (simp add: is_space_def)
  show ?thesis
    using assms d [OF 1] 2 3 4 unfolding number_at_def base_prefix_def by auto
qed

lemma decimal_digit: "d < 10 \<Longrightarrow> char_digit (of_nat (48 + d)) = Some d"
proof -
  assume d: "d < 10"
  then have "unat (of_nat (48 + d) :: u8) = 48 + d" by (simp only: unat_of_nat) simp
  then show ?thesis using d by (simp add: char_digit_def Let_def del: of_nat_add)
qed

lemma hex_digit: "d < 16 \<Longrightarrow> char_digit (lower_digits ! d) = Some d"
proof -
  assume "d < 16"
  then have "d = 0 \<or> d = 1 \<or> d = 2 \<or> d = 3 \<or> d = 4 \<or> d = 5 \<or> d = 6 \<or> d = 7 \<or> d = 8 \<or> d = 9 \<or> d = 10 \<or> d = 11 \<or> d = 12 \<or> d = 13 \<or> d = 14 \<or> d = 15" by arith
  then show ?thesis by (auto simp: lower_digits_def char_digit_def)
qed

lemma numeral_fits:
  assumes "8 \<le> b" "n < 2 ^ 32"
  shows "length (numeral_text b dig n) \<le> 11"
proof (rule numeral_length)
  have "(2 :: nat) ^ 32 \<le> 8 ^ 11" by simp
  also have "\<dots> \<le> b ^ 11" using assms(1) by (rule power_mono) simp
  finally show "n < b ^ 11" using assms(2) by simp
qed (use assms in auto)

lemma print_strtoul:
  assumes "format_text fmt [x] = Some (numeral_text b dig (unat x))" "8 \<le> b" "b \<le> 16" "\<And>d. d < b \<Longrightarrow> char_digit (dig d) = Some d"
  shows "\<exists>n m'. siprintf str fmt [x] m = Some (n, m') \<and> strtoul str 0 (of_nat b) errno m' = Some (x, errno, m')"
proof -
  let ?ds = "numeral_text b dig (unat x)"
  have l: "length ?ds \<le> 11" by (rule numeral_fits [OF assms(2) u32_bound])
  have b2: "2 \<le> b" using assms(2) by simp
  note nd = numeral_digits [OF b2 assms(4), of "unat x"]
  have p: "siprintf str fmt [x] m = Some (int (length ?ds), put_bytes str (?ds @ [0]) m)" by (rule siprintf_text [OF assms(1)]) (use l in simp)
  have at: "bytes_at (put_bytes str (?ds @ [0]) m) str (?ds @ [0])" by (rule bytes_at_put) (use l in simp)
  have "number_at (put_bytes str (?ds @ [0]) m) str b [] [] [] b ?ds 0" by (rule numeral_number_at) (use b2 assms(3) nd at in auto)
  from strtoul_result [OF this, of 0 errno] show ?thesis
    using nd u32_bound [of x] p by (simp add: store_end_def)
qed

section \<open>Properties\<close>



text \<open>C36. Printing a number and reading it back gives the number: \<^verbatim>\<open>%d\<close> with \<^verbatim>\<open>atoi\<close> for every \<^verbatim>\<open>int\<close>, and \<^verbatim>\<open>%u\<close>, \<^verbatim>\<open>%o\<close> and \<^verbatim>\<open>%x\<close> with \<^verbatim>\<open>strtoul\<close> in
  base 10, 8 and 16 for every \<^verbatim>\<open>unsigned long\<close>, wherever the string is.\<close>

theorem print_read_back:
  "(\<exists>n m'. siprintf str [37, 100] [x] m = Some (n, m') \<and> atoi str errno m' = Some (x, errno, m'))
   \<and> (\<exists>n m'. siprintf str [37, 117] [x] m = Some (n, m') \<and> strtoul str 0 10 errno m' = Some (x, errno, m'))
   \<and> (\<exists>n m'. siprintf str [37, 111] [x] m = Some (n, m') \<and> strtoul str 0 8 errno m' = Some (x, errno, m'))
   \<and> (\<exists>n m'. siprintf str [37, 120] [x] m = Some (n, m') \<and> strtoul str 0 16 errno m' = Some (x, errno, m'))"
proof (intro conjI)
  let ?sg = "if sint x < 0 then [45] else [] :: u8 list" and ?ds = "decimal (nat \<bar>sint x\<bar>)"
  have s: "\<bar>sint x\<bar> \<le> 2 ^ 31" using sint_greater_eq [of x] sint_less [of x] by auto
  have l: "length ?ds \<le> 11" by (rule numeral_fits) (use s in auto)
  note nd = numeral_digits [of 10, OF _ decimal_digit, of "nat \<bar>sint x\<bar>", simplified]
  have p: "siprintf str [37, 100] [x] m = Some (int (length (?sg @ ?ds)), put_bytes str ((?sg @ ?ds) @ [0]) m)"
    by (rule siprintf_text [OF format_d]) (use l in auto)
  let ?m = "put_bytes str ((?sg @ ?ds) @ [0]) m"
  have at: "bytes_at ?m str ((?sg @ ?ds) @ [0])" by (rule bytes_at_put) (use l in auto)
  have na: "number_at ?m str 10 [] ?sg [] 10 ?ds 0" by (rule numeral_number_at) (use nd at in auto)
  obtain r where r: "strtol str 0 (of_nat 10) errno ?m = Some (r, errno, ?m)" "sint r = sint x"
    using strtol_result [OF na, of 0 errno] nd s sint_less [of x] by (auto simp: store_end_def split: if_splits)
  have "r = x" using arg_cong [OF r(2), of "word_of_int :: int \<Rightarrow> u32"] by simp
  then show "\<exists>n m'. siprintf str [37, 100] [x] m = Some (n, m') \<and> atoi str errno m' = Some (x, errno, m')"
    using p r(1) by (simp add: atoi_def atol_def)
  show "\<exists>n m'. siprintf str [37, 117] [x] m = Some (n, m') \<and> strtoul str 0 10 errno m' = Some (x, errno, m')"
    using print_strtoul [OF format_unsigned(1) _ _ decimal_digit] by simp
  show "\<exists>n m'. siprintf str [37, 111] [x] m = Some (n, m') \<and> strtoul str 0 8 errno m' = Some (x, errno, m')"
    using print_strtoul [OF format_unsigned(2) _ _ decimal_digit] by simp
  show "\<exists>n m'. siprintf str [37, 120] [x] m = Some (n, m') \<and> strtoul str 0 16 errno m' = Some (x, errno, m')"
    using print_strtoul [OF format_unsigned(3) _ _ hex_digit] by simp
qed

end
