(* ===== verification/LibcStrftime.thy ===== *)
theory LibcStrftime
  imports LibcTime LibcPrintf
begin

text \<open>
  Formatting a calendar time: \<^verbatim>\<open>src/libc/time/strftime.c\<close>. The theory brings together the broken-down time of the calendar
  and formatted printing; \<^verbatim>\<open>sprintf\<close> is called with formats for integers only, for which it is \<open>siprintf\<close>.

  The format is the list of its bytes before the null byte. The result \<open>Stop\<close> of a step stands for \<^verbatim>\<open>return 0\<close>;
  an index outside the tables of names is \<open>None\<close>. Sizes are 32-bit words and wrap around.
\<close>

section \<open>The code\<close>

definition bytes_of :: "string \<Rightarrow> u8 list" where
  "bytes_of cs = map of_char cs"

definition dname_len :: "nat list" where
  "dname_len = [6, 6, 7, 9, 8, 6, 8]"

definition dname :: "u8 list list" where
  "dname = map bytes_of [''Sunday'', ''Monday'', ''Tuesday'', ''Wednesday'', ''Thursday'', ''Friday'', ''Saturday'']"

definition mname_len :: "nat list" where
  "mname_len = [7, 8, 5, 5, 3, 4, 4, 6, 9, 7, 8, 8]"

definition mname :: "u8 list list" where
  "mname = map bytes_of [''January'', ''February'', ''March'', ''April'', ''May'', ''June'', ''July'', ''August'', ''September'',
     ''October'', ''November'', ''December'']"

text \<open>A table at an index, and the first characters of a name, which ends with a null byte.\<close>

definition table_at :: "'a list \<Rightarrow> int \<Rightarrow> 'a option" where
  "table_at xs i = (if 0 \<le> i \<and> i < int (length xs) then Some (xs ! nat i) else None)"

definition name_chars :: "u8 list \<Rightarrow> nat \<Rightarrow> u8 list" where
  "name_chars name n = map ((!) (name @ [0])) [0..<n]"

datatype progress = Stop bytemem | Go u32 bytemem

fun put_chars :: "u32 \<Rightarrow> u32 \<Rightarrow> u8 list \<Rightarrow> u32 \<Rightarrow> bytemem \<Rightarrow> progress" where
  "put_chars s maxsize [] count m = Go count m"
| "put_chars s maxsize (c # cs) count m =
     (if count < maxsize - 1 then put_chars s maxsize cs (count + 1) (m(s + count := c)) else Stop m)"

text \<open>The loops over a name test for space before they read the table.\<close>

definition put_name :: "u32 \<Rightarrow> u32 \<Rightarrow> u8 list option \<Rightarrow> nat \<Rightarrow> u32 \<Rightarrow> bytemem \<Rightarrow> progress option" where
  "put_name s maxsize name n count m =
     (if count < maxsize - 1 then do { name \<leftarrow> name; Some (put_chars s maxsize (name_chars name n) count m) } else Some (Stop m))"

definition print_at :: "u32 \<Rightarrow> string \<Rightarrow> int list \<Rightarrow> u32 \<Rightarrow> u32 \<Rightarrow> bytemem \<Rightarrow> progress option" where
  "print_at s fmt args n count m = do {
     (_, m) \<leftarrow> siprintf (s + count) (bytes_of fmt) (map of_int args) m;
     Some (Go (count + n) m) }"

definition strftime_conv :: "u32 \<Rightarrow> u32 \<Rightarrow> tm \<Rightarrow> char \<Rightarrow> u32 \<Rightarrow> bytemem \<Rightarrow> progress option" where
  "strftime_conv s maxsize t ch count m =
     (if ch = CHR ''a'' then put_name s maxsize (table_at dname (tm_wday t)) 3 count m
      else if ch = CHR ''A'' then do { n \<leftarrow> table_at dname_len (tm_wday t); put_name s maxsize (table_at dname (tm_wday t)) n count m }
      else if ch = CHR ''b'' then put_name s maxsize (table_at mname (tm_mon t)) 3 count m
      else if ch = CHR ''B'' then do { n \<leftarrow> table_at mname_len (tm_mon t); put_name s maxsize (table_at mname (tm_mon t)) n count m }
      else if ch = CHR ''c'' then
        if count < maxsize - 24 then do {
          d \<leftarrow> table_at dname (tm_wday t);
          b \<leftarrow> table_at mname (tm_mon t);
          print_at s '' %.2d %2.2d:%2.2d:%2.2d %.4d'' [tm_mday t, tm_hour t, tm_min t, tm_sec t, 1900 + tm_year t] 17 (count + 7)
            (put_bytes (s + count) (name_chars d 3 @ [32] @ name_chars b 3) m) }
        else Some (Stop m)
      else if ch = CHR ''d'' then if count < maxsize - 2 then print_at s ''%.2d'' [tm_mday t] 2 count m else Some (Stop m)
      else if ch = CHR ''H'' then if count < maxsize - 2 then print_at s ''%2.2d'' [tm_hour t] 2 count m else Some (Stop m)
      else if ch = CHR ''I'' then
        if count < maxsize - 2 then
          if tm_hour t = 0 \<or> tm_hour t = 12 then Some (Go (count + 2) (put_bytes (s + count) [49, 50] m))
          else print_at s ''%.2d'' [tm_hour t smod 12] 2 count m
        else Some (Stop m)
      else if ch = CHR ''j'' then if count < maxsize - 3 then print_at s ''%.3d'' [tm_yday t + 1] 3 count m else Some (Stop m)
      else if ch = CHR ''m'' then if count < maxsize - 2 then print_at s ''%.2d'' [tm_mon t + 1] 2 count m else Some (Stop m)
      else if ch = CHR ''M'' then if count < maxsize - 2 then print_at s ''%2.2d'' [tm_min t] 2 count m else Some (Stop m)
      else if ch = CHR ''p'' then
        if count < maxsize - 2 then Some (Go (count + 2) (put_bytes (s + count) [if tm_hour t < 12 then 65 else 80, 77] m)) else Some (Stop m)
      else if ch = CHR ''S'' then if count < maxsize - 2 then print_at s ''%2.2d'' [tm_sec t] 2 count m else Some (Stop m)
      else if ch = CHR ''U'' then
        if count < maxsize - 2 then print_at s ''%2.2d'' [cint (tm_yday t + 7 - tm_wday t) sdiv 7] 2 count m else Some (Stop m)
      else if ch = CHR ''w'' then if count < maxsize - 1 then print_at s ''%1.1d'' [tm_wday t] 1 count m else Some (Stop m)
      else if ch = CHR ''W'' then
        if count < maxsize - 2 then print_at s ''%2.2d'' [cint (tm_yday t + cint (8 - tm_wday t) smod 7) sdiv 7] 2 count m else Some (Stop m)
      else if ch = CHR ''x'' then
        if count < maxsize - 15 then do {
          d \<leftarrow> table_at dname (tm_wday t);
          b \<leftarrow> table_at mname (tm_mon t);
          print_at s '' %.2d %.4d'' [tm_mday t, 1900 + tm_year t] 8 (count + 7)
            (put_bytes (s + count) (name_chars d 3 @ [32] @ name_chars b 3) m) }
        else Some (Stop m)
      else if ch = CHR ''X'' then
        if count < maxsize - 8 then print_at s ''%2.2d:%2.2d:%2.2d'' [tm_hour t, tm_min t, tm_sec t] 8 count m else Some (Stop m)
      else if ch = CHR ''y'' then
        if count < maxsize - 2 then print_at s ''%2.2d'' [(tm_year t smod 100 + 100) smod 100] 2 count m else Some (Stop m)
      else if ch = CHR ''Y'' then if count < maxsize - 4 then print_at s ''%.4d'' [1900 + tm_year t] 4 count m else Some (Stop m)
      else if ch = CHR ''%'' then Some (put_chars s maxsize [37] count m)
      else Some (Go count m))"

fun strftime_loop :: "u32 \<Rightarrow> u32 \<Rightarrow> tm \<Rightarrow> string \<Rightarrow> u32 \<Rightarrow> bytemem \<Rightarrow> progress option" where
  "strftime_loop s maxsize t [] count m = Some (Go count m)"
| "strftime_loop s maxsize t (c # cs) count m =
     (if c \<noteq> CHR ''%'' then
        if count < maxsize - 1 then strftime_loop s maxsize t cs (count + 1) (m(s + count := of_char c)) else Some (Stop m)
      else case cs of
        [] \<Rightarrow> Some (Go count m)
      | d # ds \<Rightarrow> do {
          r \<leftarrow> strftime_conv s maxsize t d count m;
          case r of Stop m \<Rightarrow> Some (Stop m) | Go count m \<Rightarrow> strftime_loop s maxsize t ds count m })"

definition strftime :: "u32 \<Rightarrow> u32 \<Rightarrow> string \<Rightarrow> tm \<Rightarrow> bytemem \<Rightarrow> (u32 \<times> bytemem) option" where
  "strftime s maxsize fmt t m = do {
     r \<leftarrow> strftime_loop s maxsize t fmt 0 m;
     case r of Stop m \<Rightarrow> Some (0, m) | Go count m \<Rightarrow> Some (count, m(s + count := 0)) }"

end
