(* ===== verification/LibcStrftimeCorrect.thy ===== *)
theory LibcStrftimeCorrect
  imports LibcStrftime LibcTimeCorrect LibcPrintfCorrect
begin

text \<open>
  What \<^verbatim>\<open>strftime\<close> writes: the text that a format stands for, as far as it fits, and what happens when the size of the buffer
  is smaller than a conversion.
\<close>

section \<open>Printing numbers with a fixed number of digits\<close>

fun digits :: "nat \<Rightarrow> nat \<Rightarrow> u8 list" where
  "digits 0 n = []"
| "digits (Suc k) n = digits k (n div 10) @ [of_nat (48 + n mod 10)]"

lemma length_digits [simp]: "length (digits k n) = k"
  by (induction k arbitrary: n) auto

lemma digits_0: "digits k 0 = replicate k 48"
  by (induction k) (auto simp: replicate_append_same)

lemma decimal_digits: "0 < k \<Longrightarrow> n < 10 ^ k \<Longrightarrow> replicate (k - length (decimal n)) 48 @ decimal n = digits k n"
proof (induction k arbitrary: n)
  case (Suc k)
  show ?case
  proof (cases "n < 10")
    case True
    then show ?thesis by (simp add: numeral_step digits_0 replicate_append_same)
  next
    case False
    then have "k \<noteq> 0" using Suc.prems by (cases k) auto
    moreover have "n div 10 < 10 ^ k" using Suc.prems by (simp add: less_mult_imp_div_less mult.commute)
    ultimately show ?thesis using Suc.IH [of "n div 10"] False by (simp add: numeral_step)
  qed
qed simp

definition field_rest :: "u8 list \<Rightarrow> u8 list \<Rightarrow> u32 list \<Rightarrow> action \<Rightarrow> u8 list option" where
  "field_rest lit fmt ap a =
     (case a of
        Finish \<Rightarrow> Some lit
      | Field (Own cs) s dprec ch \<Rightarrow>
          if 0 \<le> width s \<and> - 1 \<le> dprec then do { rest \<leftarrow> format_text fmt ap; Some (lit @ field_text cs s dprec ch @ rest) } else None
      | _ \<Rightarrow> None)"

lemma field_rest_Cons: "field_rest (c # lit) fmt ap a = map_option (Cons c) (field_rest lit fmt ap a)"
  by (cases a) (auto simp: field_rest_def split: iov.split Option.bind_split)

declare digits.simps [simp del]

lemma format_text_literal: "c \<noteq> 37 \<Longrightarrow> format_text (c # fmt) ap = map_option (Cons c) (format_text fmt ap)"
proof -
  assume "c \<noteq> 37"
  then have e: "dropWhile (\<lambda>c. c \<noteq> 37) (c # fmt) = dropWhile (\<lambda>c. c \<noteq> 37) fmt" "takeWhile (\<lambda>c. c \<noteq> 37) (c # fmt) = c # takeWhile (\<lambda>c. c \<noteq> 37) fmt" by auto
  show ?thesis
  proof (cases "dropWhile (\<lambda>c. c \<noteq> 37) fmt")
    case Nil
    show ?thesis by (subst (1 2) format_text.simps) (simp only: e Nil Let_def list.case option.map)
  next
    case (Cons d r)
    show ?thesis
    proof (cases "rflag no_flags r ap")
      case None
      then show ?thesis by (subst (1 2) format_text.simps) (simp only: e Cons Let_def list.case option.map Option.bind.simps)
    next
      case (Some x)
      obtain ch s fmt1 ap1 where x: "x = (ch, s, fmt1, ap1)" by (cases x)
      have "map_option (Cons c) (format_text fmt ap)
          = map_option (Cons c) (if ch = 110 \<or> ch = 115 then None else conversion ch s 0 ap1 no_file \<bind> (\<lambda>(a, ap, _). field_rest (takeWhile (\<lambda>c. c \<noteq> 37) fmt) fmt1 ap a))"
        by (subst format_text.simps) (simp only: Cons Some x Let_def list.case Option.bind.simps prod.case field_rest_def)
      moreover have "format_text (c # fmt) ap
          = (if ch = 110 \<or> ch = 115 then None else conversion ch s 0 ap1 no_file \<bind> (\<lambda>(a, ap, _). field_rest (c # takeWhile (\<lambda>c. c \<noteq> 37) fmt) fmt1 ap a))"
        by (subst format_text.simps) (simp only: e Cons Some x Let_def list.case Option.bind.simps prod.case field_rest_def)
      ultimately show ?thesis by (auto simp: field_rest_Cons split: Option.bind_split)
    qed
  qed
qed

definition fixed_flags :: "int \<Rightarrow> int \<Rightarrow> pflags" where
  "fixed_flags w p = no_flags\<lparr>width := w, prec := p\<rparr>"

lemma digits_loop_end: "\<not> is_digit_ch ch \<Longrightarrow> digits_loop n ch cs = (n, ch, cs)"
  by (cases cs) auto

lemma reswitch_prec:
  assumes "d \<in> {49, 50, 51, 52}"
  shows "reswitch 46 s (d # 100 # fmt) ap = Some (100, s\<lparr>prec := to_digit d\<rparr>, fmt, ap)"
  using assms by (subst reswitch.simps) (auto simp: is_digit_ch_def to_digit_def digits_loop_end reswitch_end cint_id)

lemma reswitch_width:
  assumes "d \<in> {49, 50}"
  shows "reswitch d s (46 # fmt) ap = reswitch 46 (s\<lparr>width := to_digit d\<rparr>) fmt ap"
  using assms by (subst reswitch.simps) (auto simp: is_digit_ch_def to_digit_def digits_loop_end cint_id)

lemma fixed_rflag:
  "rflag no_flags (bytes_of ''.2d'' @ fmt) ap = Some (100, fixed_flags 0 2, fmt, ap)"
  "rflag no_flags (bytes_of ''.3d'' @ fmt) ap = Some (100, fixed_flags 0 3, fmt, ap)"
  "rflag no_flags (bytes_of ''.4d'' @ fmt) ap = Some (100, fixed_flags 0 4, fmt, ap)"
  "rflag no_flags (bytes_of ''2.2d'' @ fmt) ap = Some (100, fixed_flags 2 2, fmt, ap)"
  "rflag no_flags (bytes_of ''1.1d'' @ fmt) ap = Some (100, fixed_flags 1 1, fmt, ap)"
  by (simp_all add: rflag_def bytes_of_def fixed_flags_def reswitch_prec reswitch_width to_digit_def no_flags_def)

lemma small_arg: "0 \<le> x \<Longrightarrow> x < 2 ^ 31 \<Longrightarrow> sint (of_int x :: u32) = x \<and> unat (of_int x :: u32) = nat x"
proof -
  assume x: "0 \<le> x" "x < 2 ^ 31"
  then have "sint (of_int x :: u32) = x" by (simp add: signed_of_int signed_take_bit_int_eq_self)
  then show ?thesis using unat_minus(2) [of "of_int x"] x by simp
qed

lemma fixed_field:
  assumes "0 < k" "n < 10 ^ k" "w \<le> int k"
  shows "field_text (decimal n) (fixed_flags w (int k)) (int k) 100 = digits k n"
proof -
  have "length (decimal n) \<le> k" by (rule numeral_length) (use assms in auto)
  then have "field_text (decimal n) (fixed_flags w (int k)) (int k) 100 = replicate (k - length (decimal n)) 48 @ decimal n"
    using assms(3) by (simp add: field_text_def field_prefix_def field_body_def fixed_flags_def no_flags_def Let_def)
  then show ?thesis using decimal_digits [OF assms(1,2)] by simp
qed

lemma fixed_conversion:
  assumes "0 < k" "0 \<le> x" "x < 2 ^ 31"
  shows "conversion 100 (fixed_flags w (int k)) 0 (of_int x # ap) no_file = Some (Field (Own (decimal (nat x))) (fixed_flags w (int k)) (int k) 100, ap, no_file)"
  using assms small_arg [OF assms(2,3)]
  by (simp add: conversion_def conv_signed_def va_arg_def SARG_def number_fits number_digits_def fixed_flags_def no_flags_def Let_def dec_loop_text)

lemma format_fixed:
  assumes "rflag no_flags fmt (of_int x # ap) = Some (100, fixed_flags w (int k), fmt', of_int x # ap)" "0 < k" "0 \<le> x" "x < 10 ^ k" "k \<le> 9" "0 \<le> w" "w \<le> int k"
  shows "format_text (37 # fmt) (of_int x # ap) = map_option (\<lambda>r. digits k (nat x) @ r) (format_text fmt' ap)"
proof -
  have "(10 :: int) ^ k \<le> 10 ^ 9" using assms(5) by (intro power_increasing) auto
  then have x: "x < 2 ^ 31" using assms(4) by simp
  have n: "nat x < 10 ^ k" using assms(3,4) by (simp add: nat_less_iff)
  have "format_text (37 # fmt) (of_int x # ap) = map_option (\<lambda>r. field_text (decimal (nat x)) (fixed_flags w (int k)) (int k) 100 @ r) (format_text fmt' ap)"
    by (rule format_text_field [OF assms(1) _ _ fixed_conversion [OF assms(2,3) x]]) (use assms in \<open>auto simp: fixed_flags_def\<close>)
  then show ?thesis by (simp only: fixed_field [OF assms(2) n assms(7)])
qed

lemma format_specs:
  "0 \<le> x \<Longrightarrow> x < 100 \<Longrightarrow> format_text (bytes_of ''%.2d'' @ fmt) (of_int x # ap) = map_option (\<lambda>r. digits 2 (nat x) @ r) (format_text fmt ap)"
  "0 \<le> x \<Longrightarrow> x < 1000 \<Longrightarrow> format_text (bytes_of ''%.3d'' @ fmt) (of_int x # ap) = map_option (\<lambda>r. digits 3 (nat x) @ r) (format_text fmt ap)"
  "0 \<le> x \<Longrightarrow> x < 10000 \<Longrightarrow> format_text (bytes_of ''%.4d'' @ fmt) (of_int x # ap) = map_option (\<lambda>r. digits 4 (nat x) @ r) (format_text fmt ap)"
  "0 \<le> x \<Longrightarrow> x < 100 \<Longrightarrow> format_text (bytes_of ''%2.2d'' @ fmt) (of_int x # ap) = map_option (\<lambda>r. digits 2 (nat x) @ r) (format_text fmt ap)"
  "0 \<le> x \<Longrightarrow> x < 10 \<Longrightarrow> format_text (bytes_of ''%1.1d'' @ fmt) (of_int x # ap) = map_option (\<lambda>r. digits 1 (nat x) @ r) (format_text fmt ap)"
  using format_fixed [where k = 2, simplified, OF fixed_rflag(1)] format_fixed [where k = 3, simplified, OF fixed_rflag(2)]
    format_fixed [where k = 4, simplified, OF fixed_rflag(3)] format_fixed [where k = 2, simplified, OF fixed_rflag(4)] format_fixed [where k = 1, simplified, OF fixed_rflag(5)]
  by (simp_all add: bytes_of_def)

section \<open>The text of a format\<close>

text \<open>The number of days of the year up to and including the present one that fall on a given day of the week. The first such day
  begins week 1.\<close>

definition week_number :: "int \<Rightarrow> tm \<Rightarrow> nat" where
  "week_number first t = length (filter (\<lambda>d. (tm_wday t - (tm_yday t - d)) mod 7 = first) [0..tm_yday t])"

definition expand_date :: "tm \<Rightarrow> u8 list" where
  "expand_date t = take 3 (dname ! nat (tm_wday t)) @ [32] @ take 3 (mname ! nat (tm_mon t)) @ [32] @ digits 2 (nat (tm_mday t)) @ [32]"

definition expand_clock :: "tm \<Rightarrow> u8 list" where
  "expand_clock t = digits 2 (nat (tm_hour t)) @ [58] @ digits 2 (nat (tm_min t)) @ [58] @ digits 2 (nat (tm_sec t))"

definition expand :: "tm \<Rightarrow> char \<Rightarrow> u8 list" where
  "expand t ch =
     (if ch = CHR ''a'' then take 3 (dname ! nat (tm_wday t))
      else if ch = CHR ''A'' then dname ! nat (tm_wday t)
      else if ch = CHR ''b'' then take 3 (mname ! nat (tm_mon t))
      else if ch = CHR ''B'' then mname ! nat (tm_mon t)
      else if ch = CHR ''c'' then expand_date t @ expand_clock t @ [32] @ digits 4 (nat (1900 + tm_year t))
      else if ch = CHR ''d'' then digits 2 (nat (tm_mday t))
      else if ch = CHR ''H'' then digits 2 (nat (tm_hour t))
      else if ch = CHR ''I'' then digits 2 (if tm_hour t mod 12 = 0 then 12 else nat (tm_hour t mod 12))
      else if ch = CHR ''j'' then digits 3 (nat (tm_yday t + 1))
      else if ch = CHR ''m'' then digits 2 (nat (tm_mon t + 1))
      else if ch = CHR ''M'' then digits 2 (nat (tm_min t))
      else if ch = CHR ''p'' then bytes_of (if tm_hour t < 12 then ''AM'' else ''PM'')
      else if ch = CHR ''S'' then digits 2 (nat (tm_sec t))
      else if ch = CHR ''U'' then digits 2 (week_number 0 t)
      else if ch = CHR ''w'' then digits 1 (nat (tm_wday t))
      else if ch = CHR ''W'' then digits 2 (if tm_wday t = 1 then week_number 1 t - 1 else week_number 1 t)
      else if ch = CHR ''x'' then expand_date t @ digits 4 (nat (1900 + tm_year t))
      else if ch = CHR ''X'' then expand_clock t
      else if ch = CHR ''y'' then digits 2 (nat (tm_year t mod 100))
      else if ch = CHR ''Y'' then digits 4 (nat (1900 + tm_year t))
      else if ch = CHR ''%'' then [37]
      else [])"

fun expansion :: "tm \<Rightarrow> string \<Rightarrow> u8 list" where
  "expansion t [] = []"
| "expansion t (c # cs) = (if c \<noteq> CHR ''%'' then of_char c # expansion t cs else case cs of [] \<Rightarrow> [] | d # ds \<Rightarrow> expand t d @ expansion t ds)"

text \<open>A broken-down time as \<^verbatim>\<open>localtime_r\<close> gives it, with a year of at most four digits.\<close>

definition formattable :: "tm \<Rightarrow> bool" where
  "formattable t \<longleftrightarrow> valid_time t \<and> 0 \<le> tm_mon t \<and> tm_mon t < 12 \<and> 1 \<le> tm_mday t \<and> tm_mday t \<le> 31 \<and> 0 \<le> tm_wday t \<and> tm_wday t < 7
     \<and> 0 \<le> tm_yday t \<and> tm_yday t < 366 \<and> - 1900 \<le> tm_year t \<and> tm_year t < 8100"

lemma div_mod_step: "(x + 1) div 7 = x div 7 + (if (x + 1) mod 7 = 0 then 1 else 0)" for x :: int
  by presburger

lemma residue_count:
  assumes "0 \<le> g" "g < 7"
  shows "int (length (filter (\<lambda>d. d mod 7 = g) [0..int n])) = (int n + 7 - g) div 7"
proof (induction n)
  case 0
  show ?case using assms by (auto simp: div_pos_pos_trivial)
next
  case (Suc n)
  have "[0..int (Suc n)] = [0..int n] @ [int n + 1]" using upto_rec2 [of 0 "int (Suc n)"] by simp
  moreover have "(int (Suc n) + 7 - g) div 7 = (int n + 7 - g) div 7 + (if (int n + 1) mod 7 = g then 1 else 0)"
  proof -
    have "(int n + 1) mod 7 = g \<longleftrightarrow> 7 dvd (int n + 1 - g)" using mod_eq_dvd_iff [of "int n + 1" 7 g] assms by simp
    also have "\<dots> \<longleftrightarrow> (int n + 7 - g + 1) mod 7 = 0" by presburger
    finally show ?thesis using div_mod_step [of "int n + 7 - g"] by (simp add: algebra_simps)
  qed
  ultimately show ?case using Suc.IH by simp
qed

lemma week_shift: "(y + 7 - (y - w) mod 7) div 7 = (y + 7 - w) div 7" if "0 \<le> w" "w < 7" for y w :: int
proof -
  define q r where "q = (y - w) div 7" and "r = (y - w) mod 7"
  have "y - w = 7 * q + r" "0 \<le> r" "r < 7" by (simp_all add: q_def r_def)
  then have "y + 7 - r = w + 7 * (q + 1)" "y + 7 - w = r + 7 * (q + 1)" by auto
  then show ?thesis using that \<open>0 \<le> r\<close> \<open>r < 7\<close> by (simp only: r_def [symmetric] div_mult_self2) (simp add: div_pos_pos_trivial)
qed

lemma week_number_value:
  assumes "formattable t"
  shows "int (week_number 0 t) = (tm_yday t + 7 - tm_wday t) div 7"
    and "int (week_number 1 t) = (tm_yday t + (8 - tm_wday t) mod 7) div 7 + (if tm_wday t = 1 then 1 else 0)"
proof -
  define y w where "y = tm_yday t" and "w = tm_wday t"
  have r: "0 \<le> y" "0 \<le> w" "w < 7" using assms by (auto simp: formattable_def y_def w_def)
  have c: "int (week_number f t) = (y + 7 - (y - w + f) mod 7) div 7" if "0 \<le> f" "f < 7" for f
  proof -
    have "(w - (y - d)) mod 7 = f \<longleftrightarrow> d mod 7 = (y - w + f) mod 7" for d
      using mod_eq_dvd_iff [of "w - (y - d)" 7 f] mod_eq_dvd_iff [of d 7 "y - w + f"] that by (simp add: algebra_simps)
    then show ?thesis using residue_count [of "(y - w + f) mod 7" "nat y"] r(1) by (simp add: week_number_def y_def w_def)
  qed
  show "int (week_number 0 t) = (tm_yday t + 7 - tm_wday t) div 7"
    using c [of 0] r week_shift [of w y] unfolding y_def [symmetric] w_def [symmetric] by simp
  have "int (week_number 1 t) = (y + 7 - (w - 1) mod 7) div 7"
    using c [of 1] week_shift [of "(w - 1) mod 7" y] by (simp add: mod_diff_right_eq diff_diff_eq2 diff_add_eq)
  moreover have "7 - (w - 1) mod 7 = (8 - w) mod 7 + (if w = 1 then 7 else 0)"
  proof -
    have "w = 0 \<or> w = 1 \<or> w = 2 \<or> w = 3 \<or> w = 4 \<or> w = 5 \<or> w = 6" using r by arith
    then show ?thesis by auto
  qed
  ultimately have "int (week_number 1 t) = (y + (8 - w) mod 7 + (if w = 1 then 7 else 0)) div 7" by (simp add: algebra_simps)
  then show "int (week_number 1 t) = (tm_yday t + (8 - tm_wday t) mod 7) div 7 + (if tm_wday t = 1 then 1 else 0)"
    using div_add_self2 [of 7 y] unfolding y_def [symmetric] w_def [symmetric] by simp
qed

section \<open>One conversion\<close>

text \<open>The result of a step that writes a text behind the first \<open>n\<close> characters: it goes on when the text and a null byte fit, possibly with one
  byte written behind the text; otherwise it stops, having written within the buffer only.\<close>

definition step_ok :: "u32 \<Rightarrow> u32 \<Rightarrow> nat \<Rightarrow> bytemem \<Rightarrow> u8 list \<Rightarrow> progress option \<Rightarrow> bool" where
  "step_ok s maxsize n m txt r \<longleftrightarrow>
     (if n + length txt < unat maxsize then \<exists>z. length z \<le> 1 \<and> r = Some (Go (of_nat (n + length txt)) (put_bytes (s + of_nat n) (txt @ z) m))
      else \<exists>ts. n + length ts < unat maxsize \<and> r = Some (Stop (put_bytes (s + of_nat n) ts m)))"

lemma room:
  assumes "n < unat (maxsize :: u32)" "k \<le> unat maxsize"
  shows "of_nat n < maxsize - of_nat k \<longleftrightarrow> n + k < unat maxsize"
proof -
  have b: "unat (of_nat n :: u32) = n" "unat (of_nat k :: u32) = k"
    using assms u32_bound [of maxsize] by (auto simp: unat_of_nat)
  then have "(of_nat k :: u32) \<le> maxsize" using assms(2) by (simp add: word_le_nat_alt)
  then have "unat (maxsize - of_nat k) = unat maxsize - k" using b by (simp add: unat_sub)
  then show ?thesis using b assms(2) by (auto simp: word_less_nat_alt)
qed

lemma step_text:
  "n + length txt < unat maxsize \<Longrightarrow> length z \<le> 1 \<Longrightarrow> c = of_nat (n + length txt)
    \<Longrightarrow> m' = put_bytes (s + of_nat n) (txt @ z) m \<Longrightarrow> step_ok s maxsize n m txt (Some (Go c m'))"
  by (auto simp: step_ok_def)

lemma step_stop: "n < unat maxsize \<Longrightarrow> unat maxsize \<le> n + length txt \<Longrightarrow> step_ok s maxsize n m txt (Some (Stop m))"
  by (auto simp: step_ok_def intro: exI [of _ "[]"])

lemma put_chars_ok: "n < unat maxsize \<Longrightarrow> step_ok s maxsize n m cs (Some (put_chars s maxsize cs (of_nat n) m))"
proof (induction cs arbitrary: n m)
  case Nil
  then show ?case by (intro step_text [where z = "[]"] | simp)+
next
  case (Cons c cs)
  have r: "of_nat n < maxsize - 1 \<longleftrightarrow> n + 1 < unat maxsize" using room [of n maxsize 1] Cons.prems by simp
  show ?case
  proof (cases "n + 1 < unat maxsize")
    case True
    then have "step_ok s maxsize (n + 1) (m(s + of_nat n := c)) cs (Some (put_chars s maxsize cs (of_nat (n + 1)) (m(s + of_nat n := c))))"
      by (rule Cons.IH)
    moreover have "put_chars s maxsize (c # cs) (of_nat n) m = put_chars s maxsize cs (of_nat (n + 1)) (m(s + of_nat n := c))"
      using True r by (simp add: add.commute)
    moreover have "put_bytes (s + of_nat n) (c # ts) m = put_bytes (s + of_nat (n + 1)) ts (m(s + of_nat n := c))" for ts
      by (simp add: ac_simps)
    ultimately show ?thesis by (auto simp: step_ok_def simp del: put_bytes.simps intro!: exI [of _ "c # _"] split: if_splits)
  next
    case False
    then show ?thesis using r Cons.prems by (simp add: step_stop)
  qed
qed

lemma print_ok:
  assumes "format_text (bytes_of fmt) (map of_int args) = Some ts" "length ts = k" "k \<le> unat maxsize" "n < unat maxsize" "k < 2 ^ 31" "w = of_nat k"
  shows "step_ok s maxsize n m ts (if of_nat n < maxsize - w then print_at s fmt args w (of_nat n) m else Some (Stop m))"
proof (cases "n + k < unat maxsize")
  case True
  have "siprintf (s + of_nat n) (bytes_of fmt) (map of_int args) m = Some (int (length ts), put_bytes (s + of_nat n) (ts @ [0]) m)"
    by (rule siprintf_text [OF assms(1)]) (use assms in simp)
  then show ?thesis using True room [OF assms(4,3)] assms(2,6) by (auto simp: print_at_def intro!: step_text [where z = "[0]"])
next
  case False
  then show ?thesis using room [OF assms(4,3)] assms(2,4,6) by (simp add: step_stop)
qed

lemma name_facts:
  "0 \<le> i \<Longrightarrow> i < 7 \<Longrightarrow> table_at dname i = Some (dname ! nat i) \<and> table_at dname_len i = Some (length (dname ! nat i)) \<and> 3 \<le> length (dname ! nat i)"
  "0 \<le> i \<Longrightarrow> i < 12 \<Longrightarrow> table_at mname i = Some (mname ! nat i) \<and> table_at mname_len i = Some (length (mname ! nat i)) \<and> 3 \<le> length (mname ! nat i)"
proof -
  have "i = 0 \<or> i = 1 \<or> i = 2 \<or> i = 3 \<or> i = 4 \<or> i = 5 \<or> i = 6" if "0 \<le> i" "i < 7" using that by arith
  then show "0 \<le> i \<Longrightarrow> i < 7 \<Longrightarrow> table_at dname i = Some (dname ! nat i) \<and> table_at dname_len i = Some (length (dname ! nat i)) \<and> 3 \<le> length (dname ! nat i)"
    by (auto simp: table_at_def dname_def dname_len_def bytes_of_def)
  have "i = 0 \<or> i = 1 \<or> i = 2 \<or> i = 3 \<or> i = 4 \<or> i = 5 \<or> i = 6 \<or> i = 7 \<or> i = 8 \<or> i = 9 \<or> i = 10 \<or> i = 11" if "0 \<le> i" "i < 12" using that by arith
  then show "0 \<le> i \<Longrightarrow> i < 12 \<Longrightarrow> table_at mname i = Some (mname ! nat i) \<and> table_at mname_len i = Some (length (mname ! nat i)) \<and> 3 \<le> length (mname ! nat i)"
    by (auto simp: table_at_def mname_def mname_len_def bytes_of_def)
qed

lemma name_chars_take: "n \<le> length name \<Longrightarrow> name_chars name n = take n name"
  by (rule nth_equalityI) (auto simp: name_chars_def nth_append)

lemma put_name_ok:
  assumes "n < unat maxsize" "k \<le> length name" "0 < k"
  shows "step_ok s maxsize n m (take k name) (put_name s maxsize (Some name) k (of_nat n) m)"
proof (cases "n + 1 < unat maxsize")
  case True
  then show ?thesis using put_chars_ok [OF assms(1), of s m "take k name"] room [of n maxsize 1] assms by (simp add: put_name_def name_chars_take)
next
  case False
  then show ?thesis using room [of n maxsize 1] assms by (simp add: put_name_def step_stop)
qed

lemma formattable_ranges:
  assumes "formattable t"
  shows "0 \<le> tm_sec t" "tm_sec t < 60" "0 \<le> tm_min t" "tm_min t < 60" "0 \<le> tm_hour t" "tm_hour t < 24" "0 \<le> tm_mon t" "tm_mon t < 12"
    "1 \<le> tm_mday t" "tm_mday t \<le> 31" "0 \<le> tm_wday t" "tm_wday t < 7" "0 \<le> tm_yday t" "tm_yday t < 366" "- 1900 \<le> tm_year t" "tm_year t < 8100"
  using assms by (auto simp: formattable_def valid_time_def)

lemma format_one:
  "0 \<le> x \<Longrightarrow> x < 100 \<Longrightarrow> format_text (bytes_of ''%.2d'') (map of_int [x]) = Some (digits 2 (nat x))"
  "0 \<le> x \<Longrightarrow> x < 1000 \<Longrightarrow> format_text (bytes_of ''%.3d'') (map of_int [x]) = Some (digits 3 (nat x))"
  "0 \<le> x \<Longrightarrow> x < 10000 \<Longrightarrow> format_text (bytes_of ''%.4d'') (map of_int [x]) = Some (digits 4 (nat x))"
  "0 \<le> x \<Longrightarrow> x < 100 \<Longrightarrow> format_text (bytes_of ''%2.2d'') (map of_int [x]) = Some (digits 2 (nat x))"
  "0 \<le> x \<Longrightarrow> x < 10 \<Longrightarrow> format_text (bytes_of ''%1.1d'') (map of_int [x]) = Some (digits 1 (nat x))"
  using format_specs [where fmt = "[]" and ap = "[]", of x] by simp_all

lemma format_clock:
  assumes "0 \<le> h" "h < 100" "0 \<le> i" "i < 100" "0 \<le> j" "j < 100"
  shows "format_text (bytes_of ''%2.2d:%2.2d:%2.2d'' @ fmt) (of_int h # of_int i # of_int j # ap)
    = map_option (\<lambda>r. digits 2 (nat h) @ [58] @ digits 2 (nat i) @ [58] @ digits 2 (nat j) @ r) (format_text fmt ap)"
proof -
  have e: "bytes_of ''%2.2d:%2.2d:%2.2d'' @ fmt = bytes_of ''%2.2d'' @ 58 # bytes_of ''%2.2d'' @ 58 # bytes_of ''%2.2d'' @ fmt"
    by (simp add: bytes_of_def)
  show ?thesis unfolding e using assms by (simp add: format_specs format_text_literal option.map_comp o_def)
qed

lemma format_date:
  assumes "0 \<le> d" "d < 100"
  shows "format_text (bytes_of '' %.2d '' @ fmt) (of_int d # ap) = map_option (\<lambda>r. [32] @ digits 2 (nat d) @ [32] @ r) (format_text fmt ap)"
proof -
  have e: "bytes_of '' %.2d '' @ fmt = 32 # bytes_of ''%.2d'' @ 32 # fmt" by (simp add: bytes_of_def)
  show ?thesis unfolding e using assms by (simp add: format_specs format_text_literal option.map_comp o_def)
qed

lemma format_many:
  assumes "formattable t"
  shows "format_text (bytes_of ''%2.2d:%2.2d:%2.2d'') (map of_int [tm_hour t, tm_min t, tm_sec t]) = Some (expand_clock t)"
    "format_text (bytes_of '' %.2d %.4d'') (map of_int [tm_mday t, 1900 + tm_year t]) = Some ([32] @ digits 2 (nat (tm_mday t)) @ [32] @ digits 4 (nat (1900 + tm_year t)))"
    "format_text (bytes_of '' %.2d %2.2d:%2.2d:%2.2d %.4d'') (map of_int [tm_mday t, tm_hour t, tm_min t, tm_sec t, 1900 + tm_year t])
      = Some ([32] @ digits 2 (nat (tm_mday t)) @ [32] @ expand_clock t @ [32] @ digits 4 (nat (1900 + tm_year t)))"
proof -
  note r = formattable_ranges [OF assms]
  show "format_text (bytes_of ''%2.2d:%2.2d:%2.2d'') (map of_int [tm_hour t, tm_min t, tm_sec t]) = Some (expand_clock t)"
    using format_clock [of "tm_hour t" "tm_min t" "tm_sec t" "[]" "[]"] r by (simp add: expand_clock_def)
  have y: "format_text (bytes_of ''%.4d'') [of_int (1900 + tm_year t)] = Some (digits 4 (nat (1900 + tm_year t)))"
    using format_one(3) [of "1900 + tm_year t"] r by simp
  have 1: "bytes_of '' %.2d %.4d'' = bytes_of '' %.2d '' @ bytes_of ''%.4d''" by (simp add: bytes_of_def)
  show "format_text (bytes_of '' %.2d %.4d'') (map of_int [tm_mday t, 1900 + tm_year t]) = Some ([32] @ digits 2 (nat (tm_mday t)) @ [32] @ digits 4 (nat (1900 + tm_year t)))"
    unfolding 1 using format_date [of "tm_mday t" "bytes_of ''%.4d''" "[of_int (1900 + tm_year t)]"] y r by simp
  have 2: "bytes_of '' %.2d %2.2d:%2.2d:%2.2d %.4d'' = bytes_of '' %.2d '' @ bytes_of ''%2.2d:%2.2d:%2.2d'' @ 32 # bytes_of ''%.4d''" by (simp add: bytes_of_def)
  show "format_text (bytes_of '' %.2d %2.2d:%2.2d:%2.2d %.4d'') (map of_int [tm_mday t, tm_hour t, tm_min t, tm_sec t, 1900 + tm_year t])
      = Some ([32] @ digits 2 (nat (tm_mday t)) @ [32] @ expand_clock t @ [32] @ digits 4 (nat (1900 + tm_year t)))"
    unfolding 2 using y r by (simp add: format_date format_clock format_text_literal expand_clock_def)
qed

lemma dated_ok:
  assumes "format_text (bytes_of fmt) (map of_int args) = Some ts" "length pre = 7" "length ts = k" "7 + k \<le> unat maxsize" "n < unat maxsize" "k < 2 ^ 31" "w = of_nat k" "v = of_nat (7 + k)"
  shows "step_ok s maxsize n m (pre @ ts)
    (if of_nat n < maxsize - v then print_at s fmt args w (of_nat n + 7) (put_bytes (s + of_nat n) pre m) else Some (Stop m))"
proof (cases "n + (7 + k) < unat maxsize")
  case True
  let ?m = "put_bytes (s + of_nat n) pre m"
  have "siprintf (s + (of_nat n + 7)) (bytes_of fmt) (map of_int args) ?m = Some (int (length ts), put_bytes (s + (of_nat n + 7)) (ts @ [0]) ?m)"
    by (rule siprintf_text [OF assms(1)]) (use assms in simp)
  moreover have "put_bytes (s + (of_nat n + 7)) (ts @ [0]) ?m = put_bytes (s + of_nat n) ((pre @ ts) @ [0]) m"
    using assms(2) by (simp add: put_bytes_append add.assoc)
  moreover have "of_nat n + 7 + of_nat k = (of_nat (n + length (pre @ ts)) :: u32)" using assms(2,3) by simp
  ultimately have "print_at s fmt args (of_nat k) (of_nat n + 7) ?m = Some (Go (of_nat (n + length (pre @ ts))) (put_bytes (s + of_nat n) ((pre @ ts) @ [0]) m))"
    by (simp add: print_at_def)
  then show ?thesis using True room [OF assms(5,4)] assms(2,3) by (simp only: if_True assms(7,8)) (intro step_text [where z = "[0]"], auto)
next
  case False
  then show ?thesis using room [OF assms(5,4)] assms(2,3,5,8) by (simp add: step_stop)
qed

lemma both_ok:
  assumes "length cs = 2" "n < unat maxsize" "2 \<le> unat maxsize"
  shows "step_ok s maxsize n m cs (if of_nat n < maxsize - 2 then Some (Go (of_nat n + 2) (put_bytes (s + of_nat n) cs m)) else Some (Stop m))"
  using room [OF assms(2,3)] assms by (auto intro!: step_text [where z = "[]"] step_stop)

lemma week_args:
  assumes "formattable t"
  shows "cint (tm_yday t + 7 - tm_wday t) sdiv 7 = int (week_number 0 t)" "week_number 0 t < 100"
    and "cint (tm_yday t + cint (8 - tm_wday t) smod 7) sdiv 7 = int (if tm_wday t = 1 then week_number 1 t - 1 else week_number 1 t)" "week_number 1 t < 100"
proof -
  note r = formattable_ranges [OF assms] and v = week_number_value [OF assms]
  have m: "0 \<le> (8 - tm_wday t) mod 7" "(8 - tm_wday t) mod 7 < 7" by simp_all
  show "cint (tm_yday t + 7 - tm_wday t) sdiv 7 = int (week_number 0 t)"
    using r v(1) by (simp add: cint_id sdiv_div)
  have "cint (8 - tm_wday t) smod 7 = (8 - tm_wday t) mod 7" using r by (simp add: cint_id sdiv_div)
  moreover have "cint (tm_yday t + (8 - tm_wday t) mod 7) sdiv 7 = (tm_yday t + (8 - tm_wday t) mod 7) div 7" using r m by (simp add: cint_id sdiv_div)
  moreover have "0 \<le> (tm_yday t + (8 - tm_wday t) mod 7) div 7" using r m by simp
  ultimately show "cint (tm_yday t + cint (8 - tm_wday t) smod 7) sdiv 7 = int (if tm_wday t = 1 then week_number 1 t - 1 else week_number 1 t)"
    using v(2) by auto
  have "(tm_yday t + 7 - tm_wday t) div 7 \<le> 372 div 7" "(tm_yday t + (8 - tm_wday t) mod 7) div 7 \<le> 371 div 7" by (rule zdiv_mono1; use r m in simp)+
  then show "week_number 0 t < 100" "week_number 1 t < 100" using v by (auto split: if_splits)
qed

lemma year_arg: "(y smod 100 + 100) smod 100 = y mod 100" for y :: int
proof -
  have "(y smod 100 + 100) smod 100 = (y smod 100 + 100) mod 100" using floor_div(3) [of 100 y] by (intro sdiv_div(2)) auto
  also have "\<dots> = (y smod 100 + (if y smod 100 < 0 then 100 else 0)) mod 100" by (simp add: mod_add_right_eq)
  also have "\<dots> = y mod 100" by (simp add: floor_div(2))
  finally show ?thesis .
qed

text \<open>The conversions that print one number: the format, the number and the number of digits.\<close>

definition number_convs :: "tm \<Rightarrow> (char \<times> string \<times> int \<times> nat) list" where
  "number_convs t =
     [(CHR ''d'', ''%.2d'', tm_mday t, 2), (CHR ''H'', ''%2.2d'', tm_hour t, 2), (CHR ''j'', ''%.3d'', tm_yday t + 1, 3),
      (CHR ''m'', ''%.2d'', tm_mon t + 1, 2), (CHR ''M'', ''%2.2d'', tm_min t, 2), (CHR ''S'', ''%2.2d'', tm_sec t, 2),
      (CHR ''U'', ''%2.2d'', int (week_number 0 t), 2), (CHR ''w'', ''%1.1d'', tm_wday t, 1),
      (CHR ''W'', ''%2.2d'', int (if tm_wday t = 1 then week_number 1 t - 1 else week_number 1 t), 2),
      (CHR ''y'', ''%2.2d'', tm_year t mod 100, 2), (CHR ''Y'', ''%.4d'', 1900 + tm_year t, 4)]"

lemma number_convs_text:
  assumes "formattable t"
  shows "list_all (\<lambda>(ch, fmt, x, k). k \<le> 4 \<and> format_text (bytes_of fmt) (map of_int [x]) = Some (digits k (nat x))) (number_convs t)"
proof -
  note r = formattable_ranges [OF assms] and w = week_args(2,4) [OF assms]
  have w1: "week_number 1 t - 1 < 100" using w(2) by (rule less_imp_diff_less)
  show ?thesis unfolding number_convs_def list.pred_inject prod.case
    by (intro conjI TrueI format_one) (use r w w1 in auto)
qed

lemma number_convs_expand: "list_all (\<lambda>(ch, fmt, x, k). expand t ch = digits k (nat x)) (number_convs t)"
  by (simp add: number_convs_def expand_def)

lemma number_convs_code:
  assumes "formattable t"
  shows "list_all (\<lambda>(ch, fmt, x, k). strftime_conv s maxsize t ch count m
    = (if count < maxsize - of_nat k then print_at s fmt [x] (of_nat k) count m else Some (Stop m))) (number_convs t)"
  unfolding number_convs_def list.pred_inject prod.case
  by (intro conjI TrueI; simp add: strftime_conv_def year_arg week_args(1,3) [OF assms, symmetric])

lemma numbers_ok:
  assumes "formattable t" "n < unat maxsize" "24 \<le> unat maxsize" "(ch, fmt, x, k) \<in> set (number_convs t)"
  shows "step_ok s maxsize n m (expand t ch) (strftime_conv s maxsize t ch (of_nat n) m)"
proof -
  have f: "k \<le> 4" "format_text (bytes_of fmt) (map of_int [x]) = Some (digits k (nat x))"
    using number_convs_text [OF assms(1)] assms(4) by (auto simp only: list_all_iff prod.case)
  have "expand t ch = digits k (nat x)" using number_convs_expand [of t] assms(4) by (auto simp only: list_all_iff prod.case)
  moreover have "strftime_conv s maxsize t ch (of_nat n) m = (if of_nat n < maxsize - of_nat k then print_at s fmt [x] (of_nat k) (of_nat n) m else Some (Stop m))"
    using number_convs_code [OF assms(1), of s maxsize "of_nat n" m] assms(4) by (auto simp only: list_all_iff prod.case)
  ultimately show ?thesis using print_ok [OF f(2), of k maxsize n "of_nat k" s m] f(1) assms(2,3) by simp
qed

lemma names_ok:
  assumes "formattable t" "n < unat maxsize" "ch \<in> set ''aAbB''"
  shows "step_ok s maxsize n m (expand t ch) (strftime_conv s maxsize t ch (of_nat n) m)"
proof -
  note r = formattable_ranges [OF assms(1)]
  note d = name_facts(1) [OF r(11,12)] and b = name_facts(2) [OF r(7,8)]
  have "0 < length (dname ! nat (tm_wday t))" "0 < length (mname ! nat (tm_mon t))" using d b by linarith+
  then have "step_ok s maxsize n m (dname ! nat (tm_wday t)) (put_name s maxsize (Some (dname ! nat (tm_wday t))) (length (dname ! nat (tm_wday t))) (of_nat n) m)"
    "step_ok s maxsize n m (mname ! nat (tm_mon t)) (put_name s maxsize (Some (mname ! nat (tm_mon t))) (length (mname ! nat (tm_mon t))) (of_nat n) m)"
    using put_name_ok [OF assms(2) le_refl] by (metis take_all_iff le_refl)+
  moreover have "step_ok s maxsize n m (take 3 (dname ! nat (tm_wday t))) (put_name s maxsize (Some (dname ! nat (tm_wday t))) 3 (of_nat n) m)"
    "step_ok s maxsize n m (take 3 (mname ! nat (tm_mon t))) (put_name s maxsize (Some (mname ! nat (tm_mon t))) 3 (of_nat n) m)"
    by (rule put_name_ok [OF assms(2)]; use d b in simp)+
  moreover have "ch = CHR ''a'' \<or> ch = CHR ''A'' \<or> ch = CHR ''b'' \<or> ch = CHR ''B''" using assms(3) by simp
  ultimately show ?thesis using d b by (elim disjE) (simp_all add: strftime_conv_def expand_def)
qed

lemma dates_ok:
  assumes "formattable t" "n < unat maxsize" "24 \<le> unat maxsize" "ch \<in> set ''cxX''"
  shows "step_ok s maxsize n m (expand t ch) (strftime_conv s maxsize t ch (of_nat n) m)"
proof -
  note r = formattable_ranges [OF assms(1)] and f = format_many [OF assms(1)]
  note d = name_facts(1) [OF r(11,12)] and b = name_facts(2) [OF r(7,8)]
  let ?pre = "name_chars (dname ! nat (tm_wday t)) 3 @ [32] @ name_chars (mname ! nat (tm_mon t)) 3"
  have pre: "length ?pre = 7" by (simp add: name_chars_def)
  consider "ch = CHR ''c''" | "ch = CHR ''x''" | "ch = CHR ''X''" using assms(4) by auto
  then show ?thesis
  proof cases
    case 1
    then show ?thesis using dated_ok [OF f(3) pre, of 17 maxsize n 17 24 s m] d b assms(2,3)
      by (simp add: strftime_conv_def expand_def expand_date_def expand_clock_def name_chars_take cong: if_cong split del: if_split)
  next
    case 2
    then show ?thesis using dated_ok [OF f(2) pre, of 8 maxsize n 8 15 s m] d b assms(2,3)
      by (simp add: strftime_conv_def expand_def expand_date_def name_chars_take cong: if_cong split del: if_split)
  next
    case 3
    then show ?thesis using print_ok [OF f(1), of 8 maxsize n 8 s m] assms(2,3) by (simp add: strftime_conv_def expand_def expand_clock_def)
  qed
qed

lemma others_ok:
  assumes "formattable t" "n < unat maxsize" "24 \<le> unat maxsize" "ch \<notin> set ''aAbBcxXdHjmMSUwWyY''"
  shows "step_ok s maxsize n m (expand t ch) (strftime_conv s maxsize t ch (of_nat n) m)"
proof -
  note r = formattable_ranges [OF assms(1)]
  consider "ch = CHR ''I''" | "ch = CHR ''p''" | "ch = CHR ''%''" | "ch \<notin> set ''aAbBcxXdHjmMSUwWyYIp%''"
    using assms(4) by auto
  then show ?thesis
  proof cases
    case 1
    have h: "tm_hour t smod 12 = tm_hour t mod 12" "tm_hour t mod 12 = 0 \<longleftrightarrow> tm_hour t = 0 \<or> tm_hour t = 12" using r(5,6) by (auto simp: sdiv_div)
    have d: "digits 2 12 = [49, 50]" by (simp add: numeral_2_eq_2 digits.simps)
    have "tm_hour t mod 12 < 100" using pos_mod_bound [of 12 "tm_hour t"] by linarith
    then show ?thesis using 1 print_ok [OF format_one(1) [of "tm_hour t mod 12"], of 2 maxsize n 2 s m] both_ok [of "[49, 50]" n maxsize s m] assms(2,3) h d
      by (cases "tm_hour t = 0 \<or> tm_hour t = 12") (simp_all add: strftime_conv_def expand_def cong: if_cong split del: if_split)
  next
    case 2
    then show ?thesis using both_ok [of "[65, 77]" n maxsize s m] both_ok [of "[80, 77]" n maxsize s m] assms(2,3)
      by (cases "tm_hour t < 12") (simp_all add: strftime_conv_def expand_def bytes_of_def cong: if_cong split del: if_split)
  next
    case 3
    then show ?thesis using put_chars_ok [OF assms(2), of s m "[37]"] by (simp add: strftime_conv_def expand_def)
  next
    case 4
    then have "strftime_conv s maxsize t ch (of_nat n) m = Some (Go (of_nat n) m)" "expand t ch = []" by (simp_all add: strftime_conv_def expand_def)
    then show ?thesis using step_text [of n "[]" maxsize "[]"] assms(2) by simp
  qed
qed

lemma strftime_conv_ok:
  assumes "formattable t" "n < unat maxsize" "24 \<le> unat maxsize"
  shows "step_ok s maxsize n m (expand t ch) (strftime_conv s maxsize t ch (of_nat n) m)"
proof (cases "ch \<in> set (map fst (number_convs t))")
  case True
  then obtain c where "(ch, c) \<in> set (number_convs t)" by auto
  then show ?thesis using numbers_ok [OF assms] by (cases c) auto
next
  case False
  then have "ch \<notin> set ''dHjmMSUwWyY''" by (simp add: number_convs_def)
  then consider "ch \<in> set ''aAbB''" | "ch \<in> set ''cxX''" | "ch \<notin> set ''aAbBcxXdHjmMSUwWyY''" by auto
  then show ?thesis by cases (rule names_ok [OF assms(1,2)] dates_ok [OF assms] others_ok [OF assms], assumption)+
qed

section \<open>The whole format\<close>

text \<open>Bytes at a distance from an address.\<close>

lemma distance: "n < 2 ^ 32 \<Longrightarrow> unat (s + of_nat n - s) = n" for s :: u32
  by (simp add: unat_of_nat)

lemma bytes_at_cong: "(\<And>i. i < length bs \<Longrightarrow> m' (a + of_nat i) = m (a + of_nat i)) \<Longrightarrow> bytes_at m' a bs = bytes_at m a bs"
proof (induction bs arbitrary: a)
  case (Cons b bs)
  have "m' (a + 1 + of_nat i) = m (a + 1 + of_nat i)" if "i < length bs" for i using Cons.prems [of "Suc i"] that by (simp add: add.assoc)
  then show ?case using Cons.IH [of "a + 1"] Cons.prems [of 0] by simp
qed simp

lemma put_bytes_elsewhere:
  assumes "n + length xs \<le> 2 ^ 32" "unat (q - s) < n \<or> n + length xs \<le> unat (q - s)"
  shows "put_bytes (s + of_nat n) xs m q = m q"
proof (rule put_bytes_outside)
  fix i assume i: "i < length xs"
  have "unat (s + of_nat (n + i) - s) = n + i" by (rule distance) (use i assms(1) in simp)
  then show "q \<noteq> s + of_nat n + of_nat i" using assms(2) i by (auto simp: add.assoc)
qed

lemma put_bytes_behind:
  assumes "bytes_at m s bs" "length bs + length xs \<le> 2 ^ 32"
  shows "bytes_at (put_bytes (s + of_nat (length bs)) xs m) s (bs @ xs)"
proof -
  have "put_bytes (s + of_nat (length bs)) xs m (s + of_nat i) = m (s + of_nat i)" if i: "i < length bs" for i
  proof (rule put_bytes_elsewhere)
    have "i < 2 ^ 32" using i assms(2) by linarith
    then show "unat (s + of_nat i - s) < length bs \<or> length bs + length xs \<le> unat (s + of_nat i - s)" using distance [of i s] i by simp
  qed (rule assms(2))
  then have "bytes_at (put_bytes (s + of_nat (length bs)) xs m) s bs" using bytes_at_cong [of bs _ s m] assms(1) by blast
  moreover have "bytes_at (put_bytes (s + of_nat (length bs)) xs m) (s + of_nat (length bs)) xs" by (rule bytes_at_put) (use assms(2) in linarith)
  ultimately show ?thesis by (simp only: bytes_at_append)
qed

lemma step_effect:
  assumes "step_ok s maxsize n m txt r" "bytes_at m s bs" "length bs = n"
  shows "\<exists>m'. (if n + length txt < unat maxsize then r = Some (Go (of_nat (n + length txt)) m') \<and> bytes_at m' s (bs @ txt) else r = Some (Stop m'))
    \<and> (\<forall>q. unat maxsize \<le> unat (q - s) \<longrightarrow> m' q = m q)"
proof (cases "n + length txt < unat maxsize")
  case True
  then obtain z where z: "length z \<le> 1" "r = Some (Go (of_nat (n + length txt)) (put_bytes (s + of_nat n) (txt @ z) m))"
    using assms(1) by (auto simp: step_ok_def)
  have l: "n + length (txt @ z) \<le> unat maxsize" "unat maxsize < 2 ^ 32" using True z(1) u32_bound by auto
  then have "bytes_at (put_bytes (s + of_nat n) (txt @ z) m) s (bs @ txt @ z)" using put_bytes_behind [OF assms(2), of "txt @ z"] assms(3) by simp
  moreover have "put_bytes (s + of_nat n) (txt @ z) m q = m q" if "unat maxsize \<le> unat (q - s)" for q
    by (rule put_bytes_elsewhere) (use that l in auto)
  ultimately show ?thesis using True z(2) by auto
next
  case False
  then obtain ts where ts: "n + length ts < unat maxsize" "r = Some (Stop (put_bytes (s + of_nat n) ts m))"
    using assms(1) by (auto simp: step_ok_def)
  have "put_bytes (s + of_nat n) ts m q = m q" if "unat maxsize \<le> unat (q - s)" for q
    by (rule put_bytes_elsewhere) (use that ts(1) u32_bound [of maxsize] in auto)
  then show ?thesis using False ts(2) by auto
qed

lemma strftime_loop_text:
  assumes "formattable t" "24 \<le> unat maxsize"
  shows "length bs < unat maxsize \<Longrightarrow> bytes_at m s bs \<Longrightarrow>
    \<exists>m'. (if length (bs @ expansion t fmt) < unat maxsize
          then strftime_loop s maxsize t fmt (of_nat (length bs)) m = Some (Go (of_nat (length (bs @ expansion t fmt))) m') \<and> bytes_at m' s (bs @ expansion t fmt)
          else strftime_loop s maxsize t fmt (of_nat (length bs)) m = Some (Stop m'))
      \<and> (\<forall>q. unat maxsize \<le> unat (q - s) \<longrightarrow> m' q = m q)"
proof (induction "length fmt" arbitrary: fmt bs m rule: less_induct)
  case less
  have go: ?case
    if st: "step_ok s maxsize (length bs) m tx r" and e: "expansion t fmt = tx @ expansion t fmt'" "length fmt' < length fmt"
    "strftime_loop s maxsize t fmt (of_nat (length bs)) m = do { r \<leftarrow> r; case r of Stop m \<Rightarrow> Some (Stop m) | Go count m \<Rightarrow> strftime_loop s maxsize t fmt' count m }"
    for tx r fmt'
  proof -
    obtain m1 where m1: "if length bs + length tx < unat maxsize then r = Some (Go (of_nat (length bs + length tx)) m1) \<and> bytes_at m1 s (bs @ tx) else r = Some (Stop m1)"
      "\<forall>q. unat maxsize \<le> unat (q - s) \<longrightarrow> m1 q = m q" using step_effect [OF st less.prems(2) refl] by blast
    show ?thesis
    proof (cases "length bs + length tx < unat maxsize")
      case True
      then show ?thesis using less.hyps [OF e(2), of "bs @ tx" m1] m1 e(1,3) by (auto split: if_splits)
    next
      case False
      then show ?thesis using m1 e(1,3) by (auto intro!: exI [of _ m1])
    qed
  qed
  show ?case
  proof (cases fmt)
    case Nil
    then show ?thesis using less.prems by auto
  next
    case (Cons c cs)
    show ?thesis
    proof (cases "c = CHR ''%''")
      case False
      show ?thesis
        by (rule go [OF put_chars_ok [OF less.prems(1), of s m "[of_char c]"], of cs]) (use Cons False in auto)
    next
      case c: True
      show ?thesis
      proof (cases cs)
        case Nil
        then show ?thesis using less.prems Cons c by auto
      next
        case d: (Cons d ds)
        show ?thesis
          by (rule go [OF strftime_conv_ok [OF assms(1) less.prems(1) assms(2), of s m d], of ds]) (use Cons c d in auto)
      qed
    qed
  qed
qed

section \<open>Properties\<close>

text \<open>The library's own broken-down times have the form that formatting needs.\<close>

lemma localtime_r_formattable:
  assumes "- (2 ^ 31) \<le> tim" "tim < 2 ^ 31"
  shows "\<exists>t. localtime_r tim = Some t \<and> seconds t = tim \<and> formattable t"
proof -
  obtain t where t: "localtime_r tim = Some t" "valid_date t" "valid_time t" "seconds t = tim" "tm_wday t = (tim div 86400 + 4) mod 7" "tm_yday t = year_offset t"
    using localtime_r_ok by blast
  have y: "\<bar>tm_year t - 70\<bar> \<le> 70" by (rule year_range) (use t assms in auto)
  have d: "tm_mday t \<le> 31" using t(2) month_length_bounds [of "tm_mon t" "leap (1900 + tm_year t)"] by (simp add: valid_date_def)
  have "0 \<le> tm_yday t \<and> tm_yday t < 366" using year_offset_range [OF t(2)] t(6) by (auto simp: year_lengths_def split: if_splits)
  then show ?thesis using t y d by (auto simp: formattable_def valid_date_def)
qed



text \<open>C38. When the buffer is smaller than the text of a date, the test for space wraps around: \<^verbatim>\<open>%c\<close> writes all its 24 characters and a null
  byte, behind the end of the buffer.\<close>

theorem strftime_small_buffer:
  assumes "formattable t" "unat maxsize < 24"
  shows "\<exists>m'. strftime s maxsize ''%c'' t m = Some (24, m') \<and> bytes_at m' s (expand t CHR ''c'' @ [0]) \<and> length (expand t CHR ''c'') = 24"
proof -
  note r = formattable_ranges [OF assms(1)]
  note d = name_facts(1) [OF r(11,12)] and b = name_facts(2) [OF r(7,8)]
  define pre where "pre = name_chars (dname ! nat (tm_wday t)) 3 @ [32] @ name_chars (mname ! nat (tm_mon t)) 3"
  define ts where "ts = [32] @ digits 2 (nat (tm_mday t)) @ [32] @ expand_clock t @ [32] @ digits 4 (nat (1900 + tm_year t))"
  have e: "expand t CHR ''c'' = pre @ ts" using d b by (simp add: expand_def expand_date_def name_chars_take pre_def ts_def)
  have l: "length pre = 7" "length ts = 17" by (simp_all add: name_chars_def expand_clock_def pre_def ts_def)
  let ?m = "put_bytes s (pre @ ts @ [0]) m"
  have "maxsize \<noteq> 24" using assms(2) by auto
  then have "0 < maxsize - 24" by (simp add: word_gt_0)
  moreover have "siprintf (s + 7) (bytes_of '' %.2d %2.2d:%2.2d:%2.2d %.4d'') (map of_int [tm_mday t, tm_hour t, tm_min t, tm_sec t, 1900 + tm_year t]) (put_bytes s pre m)
      = Some (int (length ts), put_bytes (s + 7) (ts @ [0]) (put_bytes s pre m))"
    unfolding ts_def by (rule siprintf_text [OF format_many(3) [OF assms(1)]]) (simp add: expand_clock_def)
  moreover have "put_bytes (s + 7) (ts @ [0]) (put_bytes s pre m) = ?m" using l(1) by (simp only: put_bytes_append) simp
  ultimately have c: "strftime_conv s maxsize t CHR ''c'' 0 m = Some (Go 24 ?m)"
    using d b by (simp add: strftime_conv_def print_at_def pre_def)
  have at: "bytes_at ?m s (pre @ ts @ [0])" by (rule bytes_at_put) (use l in simp)
  then have "?m (s + 24) = 0" using l by (simp add: add.assoc)
  then have "?m(s + 24 := 0) = ?m" by (simp add: fun_upd_idem)
  then have "strftime s maxsize ''%c'' t m = Some (24, ?m)" using c by (simp add: strftime_def)
  then show ?thesis unfolding e using l at by auto
qed

theorem strftime_small_buffer_witness:
  "\<exists>m'. strftime 0x2000 10 ''%c'' \<lparr>tm_sec = 40, tm_min = 46, tm_hour = 1, tm_mday = 9, tm_mon = 8, tm_year = 101, tm_wday = 0, tm_yday = 251, tm_isdst = - 1\<rparr> (\<lambda>_. 0)
    = Some (24, m') \<and> bytes_at m' 0x2000 (bytes_of ''Sun Sep 09 01:46:40 2001'' @ [0])"
proof -
  let ?t = "\<lparr>tm_sec = 40, tm_min = 46, tm_hour = 1, tm_mday = 9, tm_mon = 8, tm_year = 101, tm_wday = 0, tm_yday = 251, tm_isdst = - 1\<rparr>"
  have f: "formattable ?t" by code_simp
  have e: "expand ?t CHR ''c'' = bytes_of ''Sun Sep 09 01:46:40 2001''" by code_simp
  show ?thesis using strftime_small_buffer [OF f, of 10 "0x2000" "\<lambda>_. 0", unfolded e] by auto
qed

end
