(* ===== verification/LibGcc.thy ===== *)
theory LibGcc
  imports Prelude "HOL-Library.Monad_Syntax"
begin

text \<open>
  Arithmetic on 64-bit integers for a processor that has none: the integer functions of \<^verbatim>\<open>src/libgcc/libgcc2.c\<close> with the macros
  of \<^verbatim>\<open>longlong.h\<close>. The compiler calls them for operations on \<^verbatim>\<open>long long\<close>.

  A 64-bit value is taken apart into a low and a high word (\<^verbatim>\<open>DIunion\<close>). What C leaves undefined is \<open>None\<close>: a shift of a 32-bit
  value by less than 0 or more than 31 places, and a division by zero. \<^verbatim>\<open>__udiv_w_sdiv\<close> is only its dummy version, because
  \<^verbatim>\<open>sdiv_qrnnd\<close> is not defined; nothing calls it.
\<close>

type_synonym u64 = "64 word"

section \<open>Words and their halves\<close>

definition di_low :: "u64 \<Rightarrow> u32" where "di_low x = ucast x"
definition di_high :: "u64 \<Rightarrow> u32" where "di_high x = ucast (drop_bit 32 x)"
definition di_pack :: "u32 \<Rightarrow> u32 \<Rightarrow> u64" where "di_pack high low = push_bit 32 (ucast high) OR ucast low"

definition SI_TYPE_SIZE :: int where "SI_TYPE_SIZE = 32"

definition shl :: "u32 \<Rightarrow> int \<Rightarrow> u32 option" where
  "shl x n = (if 0 \<le> n \<and> n < SI_TYPE_SIZE then Some (push_bit (nat n) x) else None)"

definition shr :: "u32 \<Rightarrow> int \<Rightarrow> u32 option" where
  "shr x n = (if 0 \<le> n \<and> n < SI_TYPE_SIZE then Some (drop_bit (nat n) x) else None)"

definition sar :: "u32 \<Rightarrow> int \<Rightarrow> u32 option" where
  "sar x n = (if 0 \<le> n \<and> n < SI_TYPE_SIZE then Some (signed_drop_bit (nat n) x) else None)"

definition udiv :: "u32 \<Rightarrow> u32 \<Rightarrow> (u32 \<times> u32) option" where
  "udiv n d = (if d = 0 then None else Some (n div d, n mod d))"

section \<open>Macros for double words\<close>

definition ll_B :: u32 where "ll_B = push_bit 16 1"
definition ll_lowpart :: "u32 \<Rightarrow> u32" where "ll_lowpart t = t mod ll_B"
definition ll_highpart :: "u32 \<Rightarrow> u32" where "ll_highpart t = t div ll_B"

definition sub_ddmmss :: "u32 \<Rightarrow> u32 \<Rightarrow> u32 \<Rightarrow> u32 \<Rightarrow> u32 \<times> u32" where
  "sub_ddmmss ah al bh bl = (let x = al - bl in (ah - bh - (if x > al then 1 else 0), x))"

definition umul_ppmm :: "u32 \<Rightarrow> u32 \<Rightarrow> u32 \<times> u32" where
  "umul_ppmm u v =
     (let ul = ll_lowpart u; uh = ll_highpart u; vl = ll_lowpart v; vh = ll_highpart v;
          x0 = ul * vl; x1 = ul * vh; x2 = uh * vl; x3 = uh * vh;
          x1 = x1 + ll_highpart x0;
          x1 = x1 + x2;
          x3 = (if x1 < x2 then x3 + ll_B else x3)
      in (x3 + ll_highpart x1, ll_lowpart x1 * ll_B + ll_lowpart x0))"

definition umulsidi3 :: "u32 \<Rightarrow> u32 \<Rightarrow> u64" where
  "umulsidi3 u v = (let (w1, w0) = umul_ppmm u v in di_pack w1 w0)"

text \<open>One half of \<^verbatim>\<open>udiv_qrnnd\<close>: the next half-word \<open>h\<close> of the numerator is brought down. The two halves of the macro are the same.\<close>

definition div_half :: "u32 \<Rightarrow> u32 \<Rightarrow> u32 \<Rightarrow> (u32 \<times> u32) option" where
  "div_half n h d = do {
     let d1 = ll_highpart d;
     let d0 = ll_lowpart d;
     (q, r) \<leftarrow> udiv n d1;
     let m = q * d0;
     let r = r * ll_B OR h;
     let (q, r) =
       (if r < m then
          let q = q - 1; r = r + d
          in if r \<ge> d \<and> r < m then (q - 1, r + d) else (q, r)
        else (q, r));
     Some (q, r - m) }"

definition udiv_qrnnd :: "u32 \<Rightarrow> u32 \<Rightarrow> u32 \<Rightarrow> (u32 \<times> u32) option" where
  "udiv_qrnnd n1 n0 d = do {
     (q1, r1) \<leftarrow> div_half n1 (ll_highpart n0) d;
     (q0, r0) \<leftarrow> div_half r1 (ll_lowpart n0) d;
     Some (q1 * ll_B OR q0, r0) }"

definition clz_tab :: "int list" where
  "clz_tab = [0, 1, 2, 2] @ replicate 4 3 @ replicate 8 4 @ replicate 16 5 @ replicate 32 6 @ replicate 64 7 @ replicate 128 8"

definition count_leading_zeros :: "u32 \<Rightarrow> int" where
  "count_leading_zeros x =
     (let a = (if x < push_bit 16 1 then if x < push_bit 8 1 then 0 else 8 else if x < push_bit 24 1 then 16 else 24)
      in SI_TYPE_SIZE - (clz_tab ! unat (drop_bit a x) + int a))"

section \<open>Negation, shifts, comparison and product\<close>

definition negdi2 :: "u64 \<Rightarrow> u64" where
  "negdi2 u = (let low = - di_low u in di_pack (- di_high u - (if low > 0 then 1 else 0)) low)"

definition lshrdi3 :: "u64 \<Rightarrow> int \<Rightarrow> u64 option" where
  "lshrdi3 u b =
     (if b = 0 then Some u
      else let bm = SI_TYPE_SIZE - b in
        if bm \<le> 0 then do { low \<leftarrow> shr (di_high u) (- bm); Some (di_pack 0 low) }
        else do {
          carries \<leftarrow> shl (di_high u) bm;
          high \<leftarrow> shr (di_high u) b;
          low \<leftarrow> shr (di_low u) b;
          Some (di_pack high (low OR carries)) })"

definition ashldi3 :: "u64 \<Rightarrow> int \<Rightarrow> u64 option" where
  "ashldi3 u b =
     (if b = 0 then Some u
      else let bm = SI_TYPE_SIZE - b in
        if bm \<le> 0 then do { high \<leftarrow> shl (di_low u) (- bm); Some (di_pack high 0) }
        else do {
          carries \<leftarrow> shr (di_low u) bm;
          low \<leftarrow> shl (di_low u) b;
          high \<leftarrow> shl (di_high u) b;
          Some (di_pack (high OR carries) low) })"

definition ashrdi3 :: "u64 \<Rightarrow> int \<Rightarrow> u64 option" where
  "ashrdi3 u b =
     (if b = 0 then Some u
      else let bm = SI_TYPE_SIZE - b in
        if bm \<le> 0 then do {
          high \<leftarrow> sar (di_high u) (SI_TYPE_SIZE - 1);
          low \<leftarrow> sar (di_high u) (- bm);
          Some (di_pack high low) }
        else do {
          carries \<leftarrow> shl (di_high u) bm;
          high \<leftarrow> sar (di_high u) b;
          low \<leftarrow> shr (di_low u) b;
          Some (di_pack high (low OR carries)) })"

text \<open>The function \<^verbatim>\<open>ffs\<close> for words comes from outside the library.\<close>

definition ffsdi2 :: "(u32 \<Rightarrow> u32) \<Rightarrow> u64 \<Rightarrow> u64" where
  "ffsdi2 ffs u =
     (let low = ffs (di_low u) in
      if low \<noteq> 0 then di_pack 0 low
      else
        let low = ffs (di_high u) in
        if low \<noteq> 0 then di_pack 0 (low + 32) else di_pack 0 low)"

definition muldi3 :: "u64 \<Rightarrow> u64 \<Rightarrow> u64" where
  "muldi3 u v =
     (let w = umulsidi3 (di_low u) (di_low v)
      in di_pack (di_high w + (di_low u * di_high v + di_high u * di_low v)) (di_low w))"

definition cmpdi2 :: "u64 \<Rightarrow> u64 \<Rightarrow> int" where
  "cmpdi2 a b =
     (if sint (di_high a) < sint (di_high b) then 0
      else if sint (di_high a) > sint (di_high b) then 2
      else if di_low a < di_low b then 0
      else if di_low a > di_low b then 2
      else 1)"

definition ucmpdi2 :: "u64 \<Rightarrow> u64 \<Rightarrow> int" where
  "ucmpdi2 a b =
     (if di_high a < di_high b then 0
      else if di_high a > di_high b then 2
      else if di_low a < di_low b then 0
      else if di_low a > di_low b then 2
      else 1)"

section \<open>Division\<close>

text \<open>The parts of \<^verbatim>\<open>__udivmoddi4\<close> for a divisor of one word and of two words. The results are the two words of the quotient and
  the remainder, which the code stores only if it is asked for.\<close>

definition udivmod_short :: "u32 \<Rightarrow> u32 \<Rightarrow> u32 \<Rightarrow> (u32 \<times> u32 \<times> u64) option" where
  "udivmod_short n1 n0 d0 =
     (if d0 > n1 then do {
        let bm = count_leading_zeros d0;
        (d0, n1, n0) \<leftarrow>
          (if bm \<noteq> 0 then do {
             d0 \<leftarrow> shl d0 bm;
             h \<leftarrow> shl n1 bm;
             l \<leftarrow> shr n0 (SI_TYPE_SIZE - bm);
             n0 \<leftarrow> shl n0 bm;
             Some (d0, h OR l, n0) }
           else Some (d0, n1, n0));
        (q0, n0) \<leftarrow> udiv_qrnnd n1 n0 d0;
        low \<leftarrow> shr n0 bm;
        Some (0, q0, di_pack 0 low) }
      else do {
        d0 \<leftarrow> (if d0 = 0 then map_option fst (udiv 1 d0) else Some d0);
        let bm = count_leading_zeros d0;
        (q1, d0, n1, n0) \<leftarrow>
          (if bm = 0 then Some (1, d0, n1 - d0, n0)
           else do {
             let b = SI_TYPE_SIZE - bm;
             d0 \<leftarrow> shl d0 bm;
             n2 \<leftarrow> shr n1 b;
             h \<leftarrow> shl n1 bm;
             l \<leftarrow> shr n0 b;
             n0 \<leftarrow> shl n0 bm;
             (q1, n1) \<leftarrow> udiv_qrnnd n2 (h OR l) d0;
             Some (q1, d0, n1, n0) });
        (q0, n0) \<leftarrow> udiv_qrnnd n1 n0 d0;
        low \<leftarrow> shr n0 bm;
        Some (q1, q0, di_pack 0 low) })"

definition udivmod_long :: "u32 \<Rightarrow> u32 \<Rightarrow> u32 \<Rightarrow> u32 \<Rightarrow> (u32 \<times> u32 \<times> u64) option" where
  "udivmod_long n1 n0 d1 d0 =
     (if d1 > n1 then Some (0, 0, di_pack n1 n0)
      else
        let bm = count_leading_zeros d1 in
        if bm = 0 then
          if n1 > d1 \<or> n0 \<ge> d0 then let (n1, n0) = sub_ddmmss n1 n0 d1 d0 in Some (0, 1, di_pack n1 n0)
          else Some (0, 0, di_pack n1 n0)
        else do {
          let b = SI_TYPE_SIZE - bm;
          h \<leftarrow> shl d1 bm;
          l \<leftarrow> shr d0 b;
          let d1 = h OR l;
          d0 \<leftarrow> shl d0 bm;
          n2 \<leftarrow> shr n1 b;
          h \<leftarrow> shl n1 bm;
          l \<leftarrow> shr n0 b;
          n0 \<leftarrow> shl n0 bm;
          (q0, n1) \<leftarrow> udiv_qrnnd n2 (h OR l) d1;
          let (m1, m0) = umul_ppmm q0 d0;
          let (q0, m1, m0) =
            (if m1 > n1 \<or> m1 = n1 \<and> m0 > n0 then let (m1, m0) = sub_ddmmss m1 m0 d1 d0 in (q0 - 1, m1, m0) else (q0, m1, m0));
          let (n1, n0) = sub_ddmmss n1 n0 m1 m0;
          h \<leftarrow> shl n1 b;
          l \<leftarrow> shr n0 bm;
          high \<leftarrow> shr n1 bm;
          Some (0, q0, di_pack high (h OR l)) })"

definition udivmoddi4 :: "u64 \<Rightarrow> u64 \<Rightarrow> (u64 \<times> u64) option" where
  "udivmoddi4 n d = do {
     (q1, q0, r) \<leftarrow>
       (if di_high d = 0 then udivmod_short (di_high n) (di_low n) (di_low d)
        else udivmod_long (di_high n) (di_low n) (di_high d) (di_low d));
     Some (di_pack q1 q0, r) }"

definition divdi3 :: "u64 \<Rightarrow> u64 \<Rightarrow> u64 option" where
  "divdi3 u v = do {
     let (c, u) = (if sint (di_high u) < 0 then (True, negdi2 u) else (False, u));
     let (c, v) = (if sint (di_high v) < 0 then (\<not> c, negdi2 v) else (c, v));
     (w, _) \<leftarrow> udivmoddi4 u v;
     Some (if c then negdi2 w else w) }"

definition moddi3 :: "u64 \<Rightarrow> u64 \<Rightarrow> u64 option" where
  "moddi3 u v = do {
     let (c, u) = (if sint (di_high u) < 0 then (True, negdi2 u) else (False, u));
     let v = (if sint (di_high v) < 0 then negdi2 v else v);
     (_, w) \<leftarrow> udivmoddi4 u v;
     Some (if c then negdi2 w else w) }"

definition umoddi3 :: "u64 \<Rightarrow> u64 \<Rightarrow> u64 option" where
  "umoddi3 u v = do { (_, w) \<leftarrow> udivmoddi4 u v; Some w }"

definition udivdi3 :: "u64 \<Rightarrow> u64 \<Rightarrow> u64 option" where
  "udivdi3 n d = do { (q, _) \<leftarrow> udivmoddi4 n d; Some q }"

end
