(* ===== verification/LibGccCorrect.thy ===== *)
theory LibGccCorrect
  imports LibGcc "HOL-Library.Signed_Division"
begin

text \<open>
  The functions on two words compute what the operations on 64-bit words are. The proofs read every word as a natural number;
  a pair of words is a number with two digits in base \<open>2\<^sup>3\<^sup>2\<close>.
\<close>

section \<open>Words as numbers\<close>

lemma u32_lt: "unat x < 2 ^ 32" for x :: u32
  using unsigned_less [of x, where 'a = nat] by simp

lemma u64_lt: "unat x < 2 ^ 64" for x :: u64
  using unsigned_less [of x, where 'a = nat] by simp

lemma unat_add: "unat (x + y) = (unat x + unat y) mod 2 ^ 32" for x y :: u32
  by (simp add: unat_word_ariths)

lemma unat_mult: "unat (x * y) = unat x * unat y mod 2 ^ 32" for x y :: u32
  by (simp add: unat_word_ariths)

lemma unat_diff: "unat (x - y) = (if unat y \<le> unat x then unat x - unat y else unat x + 2 ^ 32 - unat y)" for x y :: u32
  by (simp add: unat_sub_if')

lemma unat_shiftl: "unat (push_bit k x) = unat x * 2 ^ k mod 2 ^ 32" for x :: u32
  by (simp only: unsigned_push_bit_eq) (simp add: push_bit_eq_mult take_bit_eq_mod)

lemma unat_shiftr: "unat (drop_bit k x) = unat x div 2 ^ k" for x :: u32
  using u32_lt [of x] by (simp only: unsigned_drop_bit_eq) (simp add: drop_bit_eq_div take_bit_nat_eq_self)

text \<open>Bits below a multiple of a power of two.\<close>

lemma or_nat: "y < 2 ^ k \<Longrightarrow> 2 ^ k dvd x \<Longrightarrow> x OR y = x + y" for x y :: nat
proof -
  assume y: "y < 2 ^ k" and x: "2 ^ k dvd x"
  have "\<not> bit x n \<or> \<not> bit y n" for n
  proof (cases "n < k")
    case True
    obtain z where "x = 2 ^ k * z" using x by auto
    then have "x = push_bit k z" by (simp add: push_bit_eq_mult)
    then show ?thesis using True by (simp add: bit_push_bit_iff)
  next
    case False
    then have "(2 :: nat) ^ k \<le> 2 ^ n" by (intro power_increasing) auto
    then have "y < 2 ^ n" using y by linarith
    then show ?thesis by (simp add: bit_iff_odd)
  qed
  then show ?thesis by (simp add: disjunctive_add)
qed

lemma unat_or: "unat y < 2 ^ k \<Longrightarrow> 2 ^ k dvd unat x \<Longrightarrow> unat (x OR y) = unat x + unat y" for x y :: "'a :: len word"
  by (simp add: unsigned_or_eq or_nat)

lemma unat_pack: "unat (di_pack h l) = unat h * 2 ^ 32 + unat l"
proof -
  have c: "unat (ucast x :: u64) = unat x" for x :: u32 using u32_lt [of x] by (simp add: unsigned_ucast_eq take_bit_eq_mod)
  have "unat (push_bit 32 (ucast h) :: u64) = unat h * 2 ^ 32"
    using u32_lt [of h] by (simp only: unsigned_push_bit_eq c) (simp add: push_bit_eq_mult take_bit_eq_mod)
  then show ?thesis unfolding di_pack_def using unat_or [of "ucast l :: u64" 32 "push_bit 32 (ucast h)"] u32_lt [of l] by (simp add: c)
qed

lemma unat_di_low: "unat (di_low x) = unat x mod 2 ^ 32"
  by (simp add: di_low_def unsigned_ucast_eq take_bit_eq_mod)

lemma unat_di_high: "unat (di_high x) = unat x div 2 ^ 32"
proof -
  have "unat (drop_bit 32 x) = unat x div 2 ^ 32"
    using u64_lt [of x] by (simp only: unsigned_drop_bit_eq) (simp add: drop_bit_eq_div take_bit_nat_eq_self)
  moreover have "unat x div 2 ^ 32 < 2 ^ 32" using u64_lt [of x] by (simp add: less_mult_imp_div_less)
  ultimately show ?thesis by (simp add: di_high_def unsigned_ucast_eq take_bit_eq_mod)
qed

lemma low_pack [simp]: "di_low (di_pack h l) = l"
  by (rule word_unat_eq_iff [THEN iffD2]) (use u32_lt [of l] in \<open>simp add: unat_di_low unat_pack\<close>)

lemma high_pack [simp]: "di_high (di_pack h l) = h"
  by (rule word_unat_eq_iff [THEN iffD2]) (use u32_lt [of l] in \<open>simp add: unat_di_high unat_pack\<close>)

lemma pack_split [simp]: "di_pack (di_high x) (di_low x) = x"
  by (rule word_unat_eq_iff [THEN iffD2]) (simp add: unat_di_high unat_di_low unat_pack)

lemma two_digits: "unat x = unat (di_high x) * 2 ^ 32 + unat (di_low x)"
  by (simp add: unat_di_high unat_di_low)

text \<open>Shifts by constants below 32 are defined.\<close>

lemma shift_defined [simp]:
  "n < 32 \<Longrightarrow> shl x (int n) = Some (push_bit n x)" "n < 32 \<Longrightarrow> shr x (int n) = Some (drop_bit n x)" "n < 32 \<Longrightarrow> sar x (int n) = Some (signed_drop_bit n x)"
  by (simp_all add: shl_def shr_def sar_def SI_TYPE_SIZE_def)

text \<open>The word that holds the upper part of a number of two digits shifted to the left.\<close>

lemma unat_shift_in: "0 < k \<Longrightarrow> k < 32 \<Longrightarrow> unat (push_bit k x OR drop_bit (32 - k) y) = (unat x * 2 ^ k + unat y div 2 ^ (32 - k)) mod 2 ^ 32" for x y :: u32
proof -
  assume k: "0 < k" "k < 32"
  have e: "(2 :: nat) ^ 32 = 2 ^ k * 2 ^ (32 - k)" using k by (simp flip: power_add)
  have "unat y < 2 ^ k * 2 ^ (32 - k)" using u32_lt [of y] unfolding e .
  then have y: "unat y div 2 ^ (32 - k) < 2 ^ k" by (simp add: less_mult_imp_div_less)
  have m: "unat x * 2 ^ k mod 2 ^ 32 = 2 ^ k * (unat x mod 2 ^ (32 - k))" unfolding e by (simp add: mult.commute mod_mult_mult1)
  have "unat (push_bit k x OR drop_bit (32 - k) y) = unat (push_bit k x) + unat (drop_bit (32 - k) y)"
    by (rule unat_or [where k = k]) (use y m in \<open>simp_all add: unat_shiftl unat_shiftr\<close>)
  also have "\<dots> = 2 ^ k * (unat x mod 2 ^ (32 - k)) + unat y div 2 ^ (32 - k)" by (simp only: unat_shiftl unat_shiftr m)
  also have "\<dots> = (unat x * 2 ^ k + unat y div 2 ^ (32 - k)) mod 2 ^ 32"
  proof -
    have "unat x mod 2 ^ (32 - k) < 2 ^ (32 - k)" by simp
    then have "2 ^ k * (unat x mod 2 ^ (32 - k)) + 2 ^ k \<le> 2 ^ k * 2 ^ (32 - k)" by (metis Suc_leI mult_Suc_right mult_le_mono2 add.commute)
    then have "2 ^ k * (unat x mod 2 ^ (32 - k)) + unat y div 2 ^ (32 - k) < 2 ^ 32" using y e by linarith
    moreover have "(unat x * 2 ^ k + unat y div 2 ^ (32 - k)) mod 2 ^ 32 = (2 ^ k * (unat x mod 2 ^ (32 - k)) + unat y div 2 ^ (32 - k)) mod 2 ^ 32"
      using m by (metis mod_add_left_eq)
    ultimately show ?thesis by (simp only: mod_less)
  qed
  finally show ?thesis .
qed

section \<open>Half-words\<close>

lemma unat_ll_B: "unat ll_B = 2 ^ 16"
  by (simp add: ll_B_def)

lemma unat_parts: "unat (ll_lowpart t) = unat t mod 2 ^ 16" "unat (ll_highpart t) = unat t div 2 ^ 16"
  by (simp_all add: ll_lowpart_def ll_highpart_def unat_mod unat_div unat_ll_B)

lemma parts_sum: "unat t = unat (ll_highpart t) * 2 ^ 16 + unat (ll_lowpart t)"
  by (simp add: unat_parts)

lemma parts_lt: "unat (ll_lowpart t) < 2 ^ 16" "unat (ll_highpart t) < 2 ^ 16"
proof -
  show "unat (ll_lowpart t) < 2 ^ 16" by (simp add: unat_parts)
  show "unat (ll_highpart t) < 2 ^ 16" using u32_lt [of t] by (simp add: unat_parts less_mult_imp_div_less)
qed

section \<open>Upper words\<close>

text \<open>The value of a word in the upper place. Multiples of \<open>2\<^sup>6\<^sup>4\<close> vanish, so sums and products of upper words need no carry.\<close>

definition upper :: "u32 \<Rightarrow> u64" where
  "upper h = of_int (uint h) * 2 ^ 32"

lemma two_64: "(18446744073709551616 :: u64) = 0"
  by code_simp

lemma upper_of_int: "upper (of_int x) = of_int x * 2 ^ 32"
proof -
  have "of_int (x mod 2 ^ 32) * 2 ^ 32 = (of_int (x mod 2 ^ 32) + 2 ^ 32 * of_int (x div 2 ^ 32)) * (2 ^ 32 :: u64)"
    by (simp add: algebra_simps two_64)
  also have "\<dots> = of_int (x mod 2 ^ 32 + 2 ^ 32 * (x div 2 ^ 32)) * 2 ^ 32" by (simp only: of_int_add of_int_mult of_int_power of_int_numeral)
  also have "\<dots> = of_int x * 2 ^ 32" by (simp only: mod_mult_div_eq)
  finally show ?thesis by (simp add: upper_def uint_word_of_int take_bit_eq_mod)
qed

lemma upper_hom: "upper (x + y) = upper x + upper y" "upper (x - y) = upper x - upper y" "upper (- x) = - upper x" "upper 1 = 2 ^ 32" "upper 0 = 0"
    "upper (x * y) = of_int (uint x * uint y) * 2 ^ 32"
proof -
  have e: "x + y = of_int (uint x + uint y)" "x - y = of_int (uint x - uint y)" "- x = of_int (- uint x)" "x * y = of_int (uint x * uint y)" by simp_all
  show "upper (x + y) = upper x + upper y" "upper (x - y) = upper x - upper y" "upper (- x) = - upper x" "upper (x * y) = of_int (uint x * uint y) * 2 ^ 32"
    unfolding e upper_of_int by (simp_all add: upper_def algebra_simps)
  show "upper 1 = 2 ^ 32" "upper 0 = 0" by (simp_all add: upper_def)
qed

lemma pack_upper: "di_pack h l = upper h + of_int (uint l)"
proof -
  have "di_pack h l = of_nat (unat (di_pack h l))" by simp
  also have "\<dots> = of_nat (unat h) * 2 ^ 32 + of_nat (unat l)" by (simp only: unat_pack of_nat_add of_nat_mult of_nat_power of_nat_numeral)
  finally show ?thesis by (simp add: upper_def)
qed

lemma uint_diff: "uint (x - y) = uint x - uint y + (if y \<le> x then 0 else 2 ^ 32)" for x y :: u32
  by (simp add: uint_sub_if' word_le_def)

text \<open>Subtraction of numbers of two digits; a borrow out of the upper digit is lost.\<close>

lemma sub_ddmmss_eq: "sub_ddmmss ah al bh bl = (h, l) \<Longrightarrow> di_pack h l = di_pack ah al - di_pack bh bl"
proof -
  assume "sub_ddmmss ah al bh bl = (h, l)"
  then have l: "l = al - bl" and h: "h = ah - bh - (if al - bl > al then 1 else 0)" by (auto simp: sub_ddmmss_def Let_def)
  have "al - bl > al \<longleftrightarrow> \<not> bl \<le> al" using uint_diff [of al bl] uint_lt2p [of bl] uint_ge_0 [of bl]
    by (auto simp: word_less_def word_le_def split: if_splits)
  then show ?thesis unfolding l h pack_upper by (simp add: upper_hom uint_diff)
qed

lemma negdi2_eq: "negdi2 u = - u"
proof -
  let ?l = "di_low u"
  have "negdi2 u = - (upper (di_high u) + of_int (uint ?l))"
  proof (cases "?l = 0")
    case True
    then show ?thesis by (simp add: negdi2_def pack_upper upper_hom)
  next
    case False
    then have "- ?l > 0" by (simp add: word_gt_0)
    moreover have "uint (- ?l) = 2 ^ 32 - uint ?l" using uint_diff [of 0 ?l] False by (simp add: word_le_def uint_0_iff)
    ultimately show ?thesis by (simp only: negdi2_def pack_upper upper_hom Let_def if_True) simp
  qed
  then show ?thesis by (simp only: pack_upper [symmetric] pack_split)
qed

section \<open>Product\<close>

text \<open>The schoolbook product of two half-words each.\<close>

lemma product_nat:
  fixes ul uh vl vh b :: nat
  assumes "ul < b" "uh < b" "vl < b" "vh < b"
  defines "x1 \<equiv> ul * vh + ul * vl div b"
  shows "x1 < b * b"
    and "(uh * b + ul) * (vh * b + vl) = (uh * vh + (x1 + uh * vl) div b) * (b * b) + (x1 + uh * vl) mod b * b + ul * vl mod b"
proof -
  have "ul * vl < b * b" using assms by (intro mult_strict_mono) auto
  then have "ul * vl div b < b" by (simp add: less_mult_imp_div_less)
  moreover have "ul * vh \<le> (b - 1) * (b - 1)" using assms by (intro mult_mono) auto
  moreover have "(b - 1) * (b - 1) + b \<le> b * b" using assms(1) by (cases b) auto
  ultimately show "x1 < b * b" unfolding x1_def by linarith
  have c: "ul * vl = ul * vl div b * b + ul * vl mod b" by simp
  have s: "x1 + uh * vl = (x1 + uh * vl) div b * b + (x1 + uh * vl) mod b" by (rule div_mult_mod_eq [symmetric])
  have "(uh * b + ul) * (vh * b + vl) = uh * vh * (b * b) + (x1 + uh * vl) * b + ul * vl mod b"
    unfolding x1_def by (subst c) (simp add: algebra_simps)
  also have "(x1 + uh * vl) * b = (x1 + uh * vl) div b * (b * b) + (x1 + uh * vl) mod b * b"
    using arg_cong [OF s, of "\<lambda>x. x * b"] by (simp only: distrib_right mult.assoc)
  finally show "(uh * b + ul) * (vh * b + vl) = (uh * vh + (x1 + uh * vl) div b) * (b * b) + (x1 + uh * vl) mod b * b + ul * vl mod b"
    by (simp add: algebra_simps)
qed

lemma carry_split:
  fixes S :: nat
  assumes S: "S < 2 * 2 ^ 32"
  shows "S div 2 ^ 16 = S mod 2 ^ 32 div 2 ^ 16 + (if 2 ^ 32 \<le> S then 2 ^ 16 else 0)"
proof (cases "2 ^ 32 \<le> S")
  case True
  then obtain T where T: "S = 2 ^ 32 + T" using le_Suc_ex by blast
  then have "S mod 2 ^ 32 = T" using S by simp
  moreover have "(2 ^ 16 * 2 ^ 16 + T) div 2 ^ 16 = 2 ^ 16 + T div 2 ^ 16" by (rule div_mult_self3) simp
  ultimately show ?thesis using True T by simp
next
  case False
  then show ?thesis by simp
qed

lemma umul_ppmm_exact:
  assumes "umul_ppmm u v = (w1, w0)"
  shows "unat w1 * 2 ^ 32 + unat w0 = unat u * unat v"
proof -
  define ul uh vl vh where "ul = unat (ll_lowpart u)" and "uh = unat (ll_highpart u)" and "vl = unat (ll_lowpart v)" and "vh = unat (ll_highpart v)"
  note d = ul_def uh_def vl_def vh_def
  have lt: "ul < 2 ^ 16" "uh < 2 ^ 16" "vl < 2 ^ 16" "vh < 2 ^ 16" unfolding d by (rule parts_lt)+
  have p: "x * y < 2 ^ 32" if "x < 2 ^ 16" "y < 2 ^ 16" for x y :: nat
    using mult_strict_mono [OF that(1) that(2)] by simp
  define x0 where "x0 = ll_lowpart u * ll_lowpart v"
  define x1 where "x1 = ll_lowpart u * ll_highpart v + ll_highpart x0"
  define x2 where "x2 = ll_highpart u * ll_lowpart v"
  define x3 where "x3 = (if x1 + x2 < x2 then ll_highpart u * ll_highpart v + ll_B else ll_highpart u * ll_highpart v)"
  have w: "w1 = x3 + ll_highpart (x1 + x2)" "w0 = ll_lowpart (x1 + x2) * ll_B + ll_lowpart x0"
    using assms by (simp_all add: umul_ppmm_def Let_def x0_def x1_def x2_def x3_def)
  let ?x1 = "ul * vh + ul * vl div 2 ^ 16" and ?S = "ul * vh + ul * vl div 2 ^ 16 + uh * vl"
  note pn = product_nat [OF lt]
  have 0: "unat x0 = ul * vl" using p [OF lt(1) lt(3)] by (simp add: x0_def unat_mult d)
  have 1: "unat x1 = ?x1" using pn(1) p [OF lt(1) lt(4)] by (simp add: x1_def unat_add unat_mult unat_parts 0 d)
  have 2: "unat x2 = uh * vl" using p [OF lt(2) lt(3)] by (simp add: x2_def unat_mult d)
  define S where "S = ?S"
  have S: "S < 2 * 2 ^ 32" using pn(1) p [OF lt(2) lt(3)] unfolding S_def by simp
  have 12: "unat (x1 + x2) = S mod 2 ^ 32" by (simp add: unat_add 1 2 S_def)
  have c: "x1 + x2 < x2 \<longleftrightarrow> 2 ^ 32 \<le> S"
  proof (cases "2 ^ 32 \<le> S")
    case True
    then have "S mod 2 ^ 32 = S - 2 ^ 32" using S by (simp add: le_mod_geq)
    then show ?thesis using True pn(1) by (simp add: word_less_nat_alt 12 2 S_def)
  next
    case False
    then show ?thesis by (simp add: word_less_nat_alt 12 2) (simp add: S_def)
  qed
  note q = carry_split [OF S]
  have parts: "unat (ll_highpart (x1 + x2)) = S mod 2 ^ 32 div 2 ^ 16" "unat (ll_lowpart (x1 + x2)) = S mod 2 ^ 32 mod 2 ^ 16" "unat (ll_lowpart x0) = ul * vl mod 2 ^ 16"
    by (simp_all only: unat_parts 12 0)
  have uv: "unat u * unat v = (uh * vh + S div 2 ^ 16) * 2 ^ 32 + S mod 2 ^ 16 * 2 ^ 16 + ul * vl mod 2 ^ 16"
    using pn(2) parts_sum [of u] parts_sum [of v] by (simp add: d S_def)
  have "unat u * unat v < 2 ^ 32 * 2 ^ 32" by (rule mult_strict_mono) (use u32_lt in auto)
  moreover have "(uh * vh + S div 2 ^ 16) * 2 ^ 32 \<le> unat u * unat v" unfolding uv by (simp only: add.assoc le_add1)
  ultimately have "(uh * vh + S div 2 ^ 16) * 2 ^ 32 < 2 ^ 32 * 2 ^ 32" by (rule le_less_trans [rotated])
  then have h: "uh * vh + S div 2 ^ 16 < 2 ^ 32" by (simp only: mult_less_cancel2)
  have "unat w1 = (uh * vh + (if 2 ^ 32 \<le> S then 2 ^ 16 else 0) + S mod 2 ^ 32 div 2 ^ 16) mod 2 ^ 32"
    unfolding w x3_def c by (simp add: unat_add unat_mult unat_ll_B parts d mod_simps)
  also have "\<dots> = uh * vh + S div 2 ^ 16" using h unfolding q by (simp add: ac_simps)
  finally have w1: "unat w1 = uh * vh + S div 2 ^ 16" .
  have "S mod 2 ^ 32 mod 2 ^ 16 = S mod 2 ^ 16" by (simp add: mod_mod_cancel)
  moreover have "S mod 2 ^ 16 * 2 ^ 16 + ul * vl mod 2 ^ 16 < 2 ^ 32"
  proof -
    have "S mod 2 ^ 16 \<le> 2 ^ 16 - 1" "ul * vl mod 2 ^ 16 < 2 ^ 16" by simp_all
    then show ?thesis by (simp add: nat_less_le) linarith
  qed
  ultimately have "unat w0 = S mod 2 ^ 16 * 2 ^ 16 + ul * vl mod 2 ^ 16"
    unfolding w by (simp add: unat_add unat_mult unat_ll_B parts mod_simps)
  with uv w1 show ?thesis by simp
qed

lemma umulsidi3_eq: "umulsidi3 u v = of_nat (unat u * unat v)"
proof -
  obtain w1 w0 where w: "umul_ppmm u v = (w1, w0)" by fastforce
  have "di_pack w1 w0 = of_nat (unat (di_pack w1 w0))" by simp
  then show ?thesis using umul_ppmm_exact [OF w] by (simp only: umulsidi3_def w prod.case Let_def unat_pack)
qed

lemma muldi3_eq: "muldi3 u v = u * v"
proof -
  let ?w = "umulsidi3 (di_low u) (di_low v)"
  have z: "2 ^ 32 * 2 ^ 32 = (0 :: u64)" using two_64 by simp
  have "muldi3 u v = ?w + of_int (uint (di_low u) * uint (di_high v)) * 2 ^ 32 + of_int (uint (di_high u) * uint (di_low v)) * 2 ^ 32"
    unfolding muldi3_def Let_def pack_upper upper_hom by (subst (5) pack_split [symmetric]) (simp only: pack_upper ac_simps)
  also have "?w = of_int (uint (di_low u)) * of_int (uint (di_low v))" by (simp add: umulsidi3_eq)
  finally have "muldi3 u v = (upper (di_high u) + of_int (uint (di_low u))) * (upper (di_high v) + of_int (uint (di_low v)))"
    by (simp only: upper_def distrib_left distrib_right of_int_mult ac_simps z mult_zero_right mult_zero_left add_0_right add_0_left)
  then show ?thesis by (simp only: pack_upper [symmetric] pack_split)
qed

section \<open>Division of two digits by one\<close>

text \<open>An estimate from the upper half of a divisor whose top bit is set is too large by at most two.\<close>

lemma estimate:
  fixes n h d1 d0 :: nat
  assumes "n < d1 * 2 ^ 16 + d0" "h < 2 ^ 16" "2 ^ 15 \<le> d1" "d1 < 2 ^ 16" "d0 < 2 ^ 16"
  defines "d \<equiv> d1 * 2 ^ 16 + d0" and "q \<equiv> n div d1" and "r \<equiv> n mod d1 * 2 ^ 16 + h"
  shows "n * 2 ^ 16 + h + q * d0 = q * d + r" "r < d1 * 2 ^ 16" "q * d0 < 2 ^ 32" "q * d0 \<le> r + 2 * d"
proof -
  have n: "n = q * d1 + n mod d1" by (simp add: q_def)
  show "n * 2 ^ 16 + h + q * d0 = q * d + r" unfolding d_def r_def by (subst n) (simp add: algebra_simps)
  have "n mod d1 < d1" using assms(3) by simp
  then have "n mod d1 + 1 \<le> d1" by simp
  then have "(n mod d1 + 1) * 2 ^ 16 \<le> d1 * 2 ^ 16" by (rule mult_le_mono1)
  then show "r < d1 * 2 ^ 16" using assms(2) unfolding r_def by simp
  have "n < (2 ^ 16 + 2) * d1" using assms(1,3,5) by simp
  then have "q < 2 ^ 16 + 2" unfolding q_def by (rule less_mult_imp_div_less)
  then have "q * d0 \<le> (2 ^ 16 + 1) * (2 ^ 16 - 1)" using assms(5) by (intro mult_mono) auto
  then show "q * d0 < 2 ^ 32" "q * d0 \<le> r + 2 * d" using assms(3) unfolding d_def by simp_all
qed

lemma correct_estimate:
  fixes q r m d :: u32
  assumes N: "N + unat m = unat q * unat d + unat r" and r: "unat r < unat d" and m: "unat m \<le> unat r + 2 * unat d" and d: "2 ^ 31 \<le> unat d"
    and c: "(q', r') = (if r < m then let q = q - 1; r = r + d in if r \<ge> d \<and> r < m then (q - 1, r + d) else (q, r) else (q, r))"
  shows "N = unat q' * unat d + unat (r' - m) \<and> unat (r' - m) < unat d"
proof -
  note lt = u32_lt [of m] u32_lt [of d] u32_lt [of r] u32_lt [of q]
  consider "unat m \<le> unat r" | "unat r < unat m" "unat m \<le> unat r + unat d" | "unat r + unat d < unat m" by linarith
  then show ?thesis
  proof cases
    case 1
    then have "q' = q" "r' = r" using c by (auto simp: word_less_nat_alt)
    moreover have "unat (r - m) = unat r - unat m" using 1 by (simp add: unat_diff)
    ultimately show ?thesis using 1 N r by auto
  next
    case 2
    have q: "1 \<le> unat q" using N 2 by (cases "unat q") auto
    have s: "unat (r + d) = (if unat r + unat d < 2 ^ 32 then unat r + unat d else unat r + unat d - 2 ^ 32)"
      using lt by (simp add: unat_add le_mod_geq)
    have "\<not> (r + d \<ge> d \<and> r + d < m)" using 2 s lt by (auto simp: word_le_nat_alt word_less_nat_alt split: if_splits)
    then have e: "q' = q - 1" "r' = r + d" using c 2 by (auto simp: word_less_nat_alt Let_def split: if_splits)
    have a1: "unat (q - 1) = unat q - 1" using q by (simp add: unat_diff)
    have a2: "unat (r + d - m) = unat r + unat d - unat m" using 2 s lt by (auto simp: unat_diff split: if_splits)
    have a3: "unat q * unat d = (unat q - 1) * unat d + unat d" using q by (simp add: diff_mult_distrib)
    show ?thesis unfolding e a1 a2 using a3 N 2 by linarith
  next
    case 3
    have q: "2 \<le> unat q"
    proof (rule ccontr)
      assume "\<not> 2 \<le> unat q"
      then have "unat q = 0 \<or> unat q = 1" by linarith
      then show False using N 3 by auto
    qed
    have s: "unat (r + d) = unat r + unat d" using 3 lt by (simp add: unat_add)
    then have "r + d \<ge> d" "r + d < m" "r < m" using 3 by (auto simp: word_le_nat_alt word_less_nat_alt)
    then have e: "q' = q - 1 - 1" "r' = r + d + d" using c by (auto simp: Let_def)
    have "unat (r + d + d) = (unat r + unat d + unat d) mod 2 ^ 32" by (simp only: unat_add [of "r + d" d] s)
    also have "\<dots> = unat r + unat d + unat d - 2 ^ 32" using lt 3 d by (simp add: le_mod_geq)
    finally have a2: "unat (r + d + d - m) = unat r + 2 * unat d - unat m" using 3 lt d m unfolding unat_diff [of "r + d + d" m] by auto
    have a1: "unat (q - 1 - 1) = unat q - 2" using q by (simp add: unat_diff)
    have a3: "unat q * unat d = (unat q - 2) * unat d + 2 * unat d" using q by (simp add: diff_mult_distrib)
    show ?thesis unfolding e a1 a2 using a3 N 3 m by linarith
  qed
qed

lemma div_half_exact:
  assumes "unat n < unat d" "2 ^ 31 \<le> unat d" "unat h < 2 ^ 16"
  shows "\<exists>q r. div_half n h d = Some (q, r) \<and> unat n * 2 ^ 16 + unat h = unat q * unat d + unat r \<and> unat r < unat d \<and> unat q < 2 ^ 16"
proof -
  define d1 d0 q r where "d1 = unat (ll_highpart d)" and "d0 = unat (ll_lowpart d)" and "q = unat n div d1" and "r = unat n mod d1 * 2 ^ 16 + unat h"
  have d: "unat d = d1 * 2 ^ 16 + d0" "d1 < 2 ^ 16" "d0 < 2 ^ 16" unfolding d1_def d0_def by (rule parts_sum, rule parts_lt, rule parts_lt)
  then have d1: "2 ^ 15 \<le> d1" using assms(2) by simp
  have n: "unat n < d1 * 2 ^ 16 + d0" using assms(1) d(1) by simp
  note e = estimate [OF n assms(3) d1 d(2,3), folded q_def r_def, folded d(1)]
  let ?q = "n div ll_highpart d" and ?r = "(n mod ll_highpart d) * ll_B OR h" and ?m = "(n div ll_highpart d) * ll_lowpart d"
  have z: "ll_highpart d \<noteq> 0" using d1 by (auto simp: d1_def)
  have q: "unat ?q = q" by (simp add: unat_div q_def d1_def)
  have m: "unat ?m = q * d0" using e(3) by (simp add: unat_mult q d0_def)
  have r: "unat ?r = r"
  proof -
    have "unat (n mod ll_highpart d * ll_B) = unat n mod d1 * 2 ^ 16" using e(2) d(2) unfolding r_def
      by (simp add: unat_mult unat_mod unat_ll_B d1_def)
    moreover from this have "unat ?r = unat (n mod ll_highpart d * ll_B) + unat h" by (intro unat_or [where k = 16]) (use assms(3) in simp_all)
    ultimately show ?thesis by (simp add: r_def)
  qed
  obtain q' r' where c: "(q', r') = (if ?r < ?m then let q = ?q - 1; r = ?r + d in if r \<ge> d \<and> r < ?m then (q - 1, r + d) else (q, r) else (?q, ?r))"
    by (metis surj_pair)
  have h: "div_half n h d = Some (q', r' - ?m)" using c z by (simp add: div_half_def udiv_def Let_def split: if_splits)
  have N: "unat n * 2 ^ 16 + unat h = unat q' * unat d + unat (r' - ?m) \<and> unat (r' - ?m) < unat d"
    by (rule correct_estimate [OF _ _ _ assms(2) c]) (use e d(1) in \<open>simp_all only: q r m\<close>)
  have "unat q' * unat d < 2 ^ 16 * unat d"
  proof -
    have "(unat n + 1) * 2 ^ 16 \<le> unat d * 2 ^ 16" using assms(1) by (intro mult_le_mono1) simp
    then have "unat n * 2 ^ 16 + unat h < 2 ^ 16 * unat d" using assms(3) by simp
    then show ?thesis using N by linarith
  qed
  then have "unat q' < 2 ^ 16" by (simp only: mult_less_cancel2)
  with h N show ?thesis by blast
qed

text \<open>A two-digit number is divided in two half steps.\<close>

lemma udiv_qrnnd_exact:
  assumes "unat n1 < unat d" "2 ^ 31 \<le> unat d"
  shows "\<exists>q r. udiv_qrnnd n1 n0 d = Some (q, r) \<and> unat n1 * 2 ^ 32 + unat n0 = unat q * unat d + unat r \<and> unat r < unat d"
proof -
  obtain q1 r1 where 1: "div_half n1 (ll_highpart n0) d = Some (q1, r1)" "unat n1 * 2 ^ 16 + unat (ll_highpart n0) = unat q1 * unat d + unat r1" "unat r1 < unat d" "unat q1 < 2 ^ 16"
    using div_half_exact [OF assms parts_lt(2)] by blast
  obtain q0 r0 where 0: "div_half r1 (ll_lowpart n0) d = Some (q0, r0)" "unat r1 * 2 ^ 16 + unat (ll_lowpart n0) = unat q0 * unat d + unat r0" "unat r0 < unat d" "unat q0 < 2 ^ 16"
    using div_half_exact [OF 1(3) assms(2) parts_lt(1)] by blast
  have m: "unat (q1 * ll_B) = unat q1 * 2 ^ 16" using 1(4) by (simp add: unat_mult unat_ll_B)
  have q: "unat (q1 * ll_B OR q0) = unat q1 * 2 ^ 16 + unat q0" using unat_or [of q0 16 "q1 * ll_B"] 0(4) by (simp add: m)
  have "unat n1 * 2 ^ 32 + unat n0 = (unat n1 * 2 ^ 16 + unat (ll_highpart n0)) * 2 ^ 16 + unat (ll_lowpart n0)" using parts_sum [of n0] by simp
  also have "\<dots> = unat q1 * 2 ^ 16 * unat d + (unat r1 * 2 ^ 16 + unat (ll_lowpart n0))" unfolding 1(2) by simp
  also have "\<dots> = (unat q1 * 2 ^ 16 + unat q0) * unat d + unat r0" unfolding 0(2) by (simp add: algebra_simps)
  finally show ?thesis using 0(3) q by (simp add: udiv_qrnnd_def 1(1) 0(1))
qed

section \<open>Normalisation\<close>

lemma clz_table: "list_all (\<lambda>i. 0 \<le> clz_tab ! i \<and> clz_tab ! i \<le> 8 \<and> i < 2 ^ nat (clz_tab ! i) \<and> (i \<noteq> 0 \<longrightarrow> clz_tab ! i \<noteq> 0 \<and> 2 ^ nat (clz_tab ! i - 1) \<le> i)) [0..<256]"
  by code_simp

lemma clz_tab_length: "i < 256 \<Longrightarrow> i \<noteq> 0 \<Longrightarrow> \<exists>t. clz_tab ! i = int t \<and> 0 < t \<and> t \<le> 8 \<and> 2 ^ (t - 1) \<le> i \<and> i < 2 ^ t"
proof -
  assume i: "i < 256" "i \<noteq> 0"
  then have c: "0 \<le> clz_tab ! i" "clz_tab ! i \<le> 8" "i < 2 ^ nat (clz_tab ! i)" "clz_tab ! i \<noteq> 0" "2 ^ nat (clz_tab ! i - 1) \<le> i"
    using clz_table by (auto simp: list_all_iff)
  then show ?thesis by (intro exI [of _ "nat (clz_tab ! i)"]) (auto simp: nat_diff_distrib)
qed

lemma count_leading_zeros_normal:
  assumes "x \<noteq> 0"
  shows "\<exists>k<32. count_leading_zeros x = int k \<and> 2 ^ 31 \<le> unat x * 2 ^ k \<and> unat x * 2 ^ k < 2 ^ 32"
proof -
  let ?a = "if x < push_bit 16 1 then if x < push_bit 8 1 then 0 else 8 else if x < push_bit 24 1 then 16 else 24 :: nat"
  have a: "?a \<le> 24" "unat x div 2 ^ ?a < 256" "unat x div 2 ^ ?a \<noteq> 0"
    using assms u32_lt [of x] by (auto simp: word_less_nat_alt unat_gt_0 div_eq_0_iff less_mult_imp_div_less)
  then obtain t where t: "clz_tab ! (unat x div 2 ^ ?a) = int t" "0 < t" "t \<le> 8" "2 ^ (t - 1) \<le> unat x div 2 ^ ?a" "unat x div 2 ^ ?a < 2 ^ t"
    using clz_tab_length by blast
  define k where "k = 32 - (t + ?a)"
  have k: "t + ?a + k = 32" "t - 1 + ?a + k = 31" using t(2,3) a(1) unfolding k_def by linarith+
  have c: "count_leading_zeros x = int k"
    using t(1) k(1) by (simp only: count_leading_zeros_def Let_def unat_shiftr SI_TYPE_SIZE_def)
  have "2 ^ (t - 1) * 2 ^ ?a \<le> unat x" using t(4) by (simp only: less_eq_div_iff_mult_less_eq zero_less_power zero_less_numeral)
  then have "2 ^ (t - 1) * 2 ^ ?a * 2 ^ k \<le> unat x * 2 ^ k" by (rule mult_le_mono1)
  then have l: "2 ^ 31 \<le> unat x * 2 ^ k" unfolding k(2) [symmetric] by (simp only: power_add)
  have "unat x < 2 ^ t * 2 ^ ?a" using t(5) by (simp only: div_less_iff_less_mult zero_less_power zero_less_numeral)
  then have "unat x * 2 ^ k < 2 ^ t * 2 ^ ?a * 2 ^ k" by simp
  then have u: "unat x * 2 ^ k < 2 ^ 32" unfolding k(1) [symmetric] by (simp only: power_add)
  show ?thesis using c l u t(2) k(1) by (intro exI [of _ k]) auto
qed

end
