(* ===== verification/LibGccDivision.thy ===== *)
theory LibGccDivision
  imports LibGccCorrect
begin

text \<open>
  The division of 64-bit integers: normalisation of the divisor, the cases of a divisor of one and of two words, and the functions
  for signed and unsigned quotients and remainders.
\<close>

section \<open>What comparison and search for a bit return\<close>

text \<open>The sign of a comparison: 0, 1 or 2.\<close>

definition sign_code :: "int \<Rightarrow> int \<Rightarrow> int" where
  "sign_code x y = (if x < y then 0 else if x = y then 1 else 2)"

text \<open>The place of the lowest bit that is set, counted from 1, and 0 for the number 0: what \<^verbatim>\<open>ffs\<close> returns.\<close>

definition lowest_bit :: "'a :: len word \<Rightarrow> nat" where
  "lowest_bit x = (case filter (bit x) [0..<LENGTH('a)] of [] \<Rightarrow> 0 | i # js \<Rightarrow> Suc i)"

section \<open>Shifted numbers\<close>

lemma scale_digits: "n0 * K = c * B + l \<Longrightarrow> (n1 * B + n0) * K = (n1 * K + c) * B + l" for n0 n1 B K c l :: nat
  by (simp only: distrib_right) (simp add: ac_simps)

lemma shift_digits:
  fixes n0 n1 :: nat
  assumes "0 < k" "k < 32"
  shows "(n1 * 2 ^ 32 + n0) * 2 ^ k = (n1 * 2 ^ k + n0 div 2 ^ (32 - k)) * 2 ^ 32 + n0 * 2 ^ k mod 2 ^ 32"
    and "n0 < 2 ^ 32 \<Longrightarrow> (n1 * 2 ^ k + n0 div 2 ^ (32 - k)) div 2 ^ 32 = n1 div 2 ^ (32 - k)"
proof -
  have e: "(2 :: nat) ^ 32 = 2 ^ k * 2 ^ (32 - k)" using assms by (simp flip: power_add)
  have "n0 * 2 ^ k div 2 ^ 32 = n0 div 2 ^ (32 - k)" unfolding e by (simp add: mult.commute)
  then have "n0 * 2 ^ k = n0 div 2 ^ (32 - k) * 2 ^ 32 + n0 * 2 ^ k mod 2 ^ 32" using div_mult_mod_eq [of "n0 * 2 ^ k" "2 ^ 32"] by simp
  then show "(n1 * 2 ^ 32 + n0) * 2 ^ k = (n1 * 2 ^ k + n0 div 2 ^ (32 - k)) * 2 ^ 32 + n0 * 2 ^ k mod 2 ^ 32"
    using scale_digits by blast
  assume "n0 < 2 ^ 32"
  then have c: "n0 div 2 ^ (32 - k) < 2 ^ k" unfolding e by (simp add: less_mult_imp_div_less)
  have "(n1 * 2 ^ k + n0 div 2 ^ (32 - k)) div 2 ^ 32 = (n1 * 2 ^ k + n0 div 2 ^ (32 - k)) div 2 ^ k div 2 ^ (32 - k)" unfolding e by (rule div_mult2_eq)
  also have "(n1 * 2 ^ k + n0 div 2 ^ (32 - k)) div 2 ^ k = n1" using c by simp
  finally show "(n1 * 2 ^ k + n0 div 2 ^ (32 - k)) div 2 ^ 32 = n1 div 2 ^ (32 - k)" .
qed

text \<open>The three digits of a number of two digits that is shifted to the left.\<close>

lemma normal_digits:
  assumes "0 < k" "k < 32"
  shows "(unat (drop_bit (32 - k) (n1 :: u32)) * 2 ^ 32 + unat (push_bit k n1 OR drop_bit (32 - k) n0)) * 2 ^ 32 + unat (push_bit k n0) = (unat n1 * 2 ^ 32 + unat n0) * 2 ^ k"

proof -
  let ?x = "unat n1 * 2 ^ k + unat n0 div 2 ^ (32 - k)"
  have "unat (drop_bit (32 - k) n1) * 2 ^ 32 + unat (push_bit k n1 OR drop_bit (32 - k) n0) = ?x div 2 ^ 32 * 2 ^ 32 + ?x mod 2 ^ 32"
    using shift_digits(2) [OF assms u32_lt, of "unat n1" n0] unat_shift_in [OF assms, of n1 n0] by (simp add: unat_shiftr)
  then show ?thesis using shift_digits(1) [OF assms, of "unat n1" "unat n0"] by (simp only: div_mult_mod_eq unat_shiftl)
qed

text \<open>A common power of two in dividend and divisor comes off the remainder.\<close>

lemma unscale:
  fixes n q d r :: nat
  assumes "n * 2 ^ k = q * (d * 2 ^ k) + r" "r < d * 2 ^ k"
  shows "n = q * d + r div 2 ^ k \<and> r div 2 ^ k < d"
proof -
  have "q * d * 2 ^ k \<le> n * 2 ^ k" using assms(1) by simp
  then have "q * d \<le> n" by simp
  then obtain t where t: "n = q * d + t" using le_Suc_ex by blast
  then have "r = t * 2 ^ k" using assms(1) by (simp add: distrib_right)
  then show ?thesis using t assms(2) by simp
qed

lemma scaled_unat: "unat d * 2 ^ k < 2 ^ 32 \<Longrightarrow> unat (push_bit k d) = unat d * 2 ^ k" for d :: u32
  by (simp add: unat_shiftl)

lemma complement_shift:
  "0 < k \<Longrightarrow> k < 32 \<Longrightarrow> shr x (SI_TYPE_SIZE - int k) = Some (drop_bit (32 - k) x)" "0 < k \<Longrightarrow> k < 32 \<Longrightarrow> shl x (SI_TYPE_SIZE - int k) = Some (push_bit (32 - k) x)"
  "shr x 0 = Some x"
  using shift_defined [of "32 - k" x] shift_defined(2) [of 0 x] by (simp_all add: SI_TYPE_SIZE_def of_nat_diff)

lemma udivmod_short_small:
  assumes "unat n1 < unat d0"
  shows "\<exists>q0 r. udivmod_short n1 n0 d0 = Some (0, q0, di_pack 0 r) \<and> unat n1 * 2 ^ 32 + unat n0 = unat q0 * unat d0 + unat r \<and> unat r < unat d0"
proof -
  have "d0 \<noteq> 0" using assms by auto
  then obtain k where k: "k < 32" "count_leading_zeros d0 = int k" "2 ^ 31 \<le> unat d0 * 2 ^ k" "unat d0 * 2 ^ k < 2 ^ 32"
    using count_leading_zeros_normal by blast
  have g: "d0 > n1" using assms by (simp add: word_less_nat_alt)
  define n1' n0' where "n1' = (if k = 0 then n1 else push_bit k n1 OR drop_bit (32 - k) n0)" and "n0' = push_bit k n0"
  have s: "unat n1' * 2 ^ 32 + unat n0' = (unat n1 * 2 ^ 32 + unat n0) * 2 ^ k"
  proof (cases "k = 0")
    case False
    have "unat n1 * 2 ^ k < 2 ^ k * 2 ^ (32 - k)"
    proof -
      have "unat n1 * 2 ^ k < unat d0 * 2 ^ k" using assms by simp
      also have "\<dots> < 2 ^ 32" by (rule k)
      finally show ?thesis using k(1) by (simp flip: power_add)
    qed
    then have "unat (drop_bit (32 - k) n1) = 0" by (simp add: unat_shiftr)
    then show ?thesis using normal_digits [of k n1 n0] False k(1) by (simp add: n1'_def n0'_def)
  qed (simp add: n1'_def n0'_def)
  have "unat n1' * 2 ^ 32 < unat d0 * 2 ^ k * 2 ^ 32"
  proof -
    have "(unat n1 + 1) * 2 ^ 32 \<le> unat d0 * 2 ^ 32" using assms by (intro mult_le_mono1) simp
    then have "unat n1 * 2 ^ 32 + unat n0 < unat d0 * 2 ^ 32" using u32_lt [of n0] by simp
    then have "(unat n1 * 2 ^ 32 + unat n0) * 2 ^ k < unat d0 * 2 ^ 32 * 2 ^ k" by simp
    then show ?thesis using s by (simp only: ac_simps)
  qed
  then have "unat n1' < unat (push_bit k d0)" using scaled_unat [OF k(4)] by simp
  then obtain q r where q: "udiv_qrnnd n1' n0' (push_bit k d0) = Some (q, r)" "unat n1' * 2 ^ 32 + unat n0' = unat q * (unat d0 * 2 ^ k) + unat r" "unat r < unat d0 * 2 ^ k"
    using udiv_qrnnd_exact [of n1' "push_bit k d0" n0'] k(3) scaled_unat [OF k(4)] by auto
  have "udivmod_short n1 n0 d0 = Some (0, q, di_pack 0 (drop_bit k r))"
    using g k(1) q(1) by (cases "k = 0") (simp_all add: udivmod_short_def k(2) complement_shift n1'_def n0'_def Let_def)
  moreover have "unat n1 * 2 ^ 32 + unat n0 = unat q * unat d0 + unat (drop_bit k r) \<and> unat (drop_bit k r) < unat d0"
    using unscale [of "unat n1 * 2 ^ 32 + unat n0" k "unat q" "unat d0" "unat r"] s q(2,3) by (simp add: unat_shiftr)
  ultimately show ?thesis by blast
qed

lemma udivmod_short_large:
  assumes "unat d0 \<le> unat n1" "d0 \<noteq> 0"
  shows "\<exists>q1 q0 r. udivmod_short n1 n0 d0 = Some (q1, q0, di_pack 0 r)
    \<and> unat n1 * 2 ^ 32 + unat n0 = (unat q1 * 2 ^ 32 + unat q0) * unat d0 + unat r \<and> unat r < unat d0"
proof -
  obtain k where k: "k < 32" "count_leading_zeros d0 = int k" "2 ^ 31 \<le> unat d0 * 2 ^ k" "unat d0 * 2 ^ k < 2 ^ 32"
    using count_leading_zeros_normal [OF assms(2)] by blast
  define d where "d = push_bit k d0"
  have d: "unat d = unat d0 * 2 ^ k" "2 ^ 31 \<le> unat d" using scaled_unat [OF k(4)] k(3) by (simp_all add: d_def)
  have g: "\<not> d0 > n1" using assms(1) by (simp add: word_less_nat_alt)
  let ?first = "if k = 0 then Some (1, n1 - d0) else udiv_qrnnd (drop_bit (32 - k) n1) (push_bit k n1 OR drop_bit (32 - k) n0) d"
  have "\<exists>q1 r1. ?first = Some (q1, r1) \<and> (unat n1 * 2 ^ 32 + unat n0) * 2 ^ k = (unat q1 * unat d + unat r1) * 2 ^ 32 + unat (push_bit k n0) \<and> unat r1 < unat d"
  proof (cases "k = 0")
    case True
    have "unat (n1 - d0) = unat n1 - unat d0" using assms(1) by (simp add: unat_diff)
    then show ?thesis using True assms(1) d u32_lt [of n1] by (auto simp: diff_mult_distrib)
  next
    case False
    have "unat n1 < 2 ^ k * 2 ^ (32 - k)" using u32_lt [of n1] k(1) by (simp flip: power_add)
    then have "unat n1 div 2 ^ (32 - k) < 2 ^ k" by (rule less_mult_imp_div_less)
    also have "(2 :: nat) ^ k \<le> 2 ^ 31" using k(1) by (intro power_increasing) auto
    finally have "unat (drop_bit (32 - k) n1) < unat d" using d(2) by (simp add: unat_shiftr)
    from udiv_qrnnd_exact [OF this d(2), of "push_bit k n1 OR drop_bit (32 - k) n0"] show ?thesis
      using False normal_digits [of k n1 n0] k(1) by auto
  qed
  then obtain q1 r1 where 1: "?first = Some (q1, r1)" "(unat n1 * 2 ^ 32 + unat n0) * 2 ^ k = (unat q1 * unat d + unat r1) * 2 ^ 32 + unat (push_bit k n0)" "unat r1 < unat d"
    by blast
  obtain q0 r where 0: "udiv_qrnnd r1 (push_bit k n0) d = Some (q0, r)" "unat r1 * 2 ^ 32 + unat (push_bit k n0) = unat q0 * unat d + unat r" "unat r < unat d"
    using udiv_qrnnd_exact [OF 1(3) d(2)] by blast
  have "udivmod_short n1 n0 d0 = Some (q1, q0, di_pack 0 (drop_bit k r))"
    using g assms(2) k(1) 1(1) 0(1) by (cases "k = 0") (simp_all add: udivmod_short_def k(2) complement_shift Let_def d_def)
  moreover have "(unat n1 * 2 ^ 32 + unat n0) * 2 ^ k = (unat q1 * 2 ^ 32 + unat q0) * (unat d0 * 2 ^ k) + unat r"
    using 1(2) 0(2) d(1) by (simp only: distrib_right) (simp add: ac_simps)
  then have "unat n1 * 2 ^ 32 + unat n0 = (unat q1 * 2 ^ 32 + unat q0) * unat d0 + unat (drop_bit k r) \<and> unat (drop_bit k r) < unat d0"
    using unscale 0(3) d(1) by (simp only: unat_shiftr)
  ultimately show ?thesis by blast
qed

section \<open>A divisor of two words\<close>

lemma unat_diff64: "unat y \<le> unat x \<Longrightarrow> unat (x - y) = unat x - unat y" for x y :: u64
  by (simp add: unat_sub_if')

text \<open>A pair of words is shifted to the right the way the remainder is.\<close>

lemma shift_down:
  assumes "0 < k" "k < 32"
  shows "unat (di_pack (drop_bit k h) (push_bit (32 - k) h OR drop_bit k l)) = unat (di_pack h l) div 2 ^ k"
proof -
  let ?x = "unat (di_pack (drop_bit k h) (push_bit (32 - k) h OR drop_bit k l))" and ?y = "unat (push_bit (32 - k) l)"
  have e: "?x * 2 ^ 32 + ?y = unat (di_pack h l) * 2 ^ (32 - k)"
    using normal_digits [of "32 - k" h l] assms by (simp add: unat_pack)
  have "?x = (?x * 2 ^ 32 + ?y) div 2 ^ 32" using u32_lt [of "push_bit (32 - k) l"] by simp
  also have "\<dots> = unat (di_pack h l) * 2 ^ (32 - k) div (2 ^ k * 2 ^ (32 - k))" unfolding e using assms by (simp flip: power_add)
  also have "\<dots> = unat (di_pack h l) div 2 ^ k" by simp
  finally show ?thesis .
qed

text \<open>The estimate from the upper word of a normalised divisor is too large by at most one.\<close>

lemma long_estimate:
  fixes n0 d :: nat
  assumes "n2 * 2 ^ 32 + n1 = q * d1 + r1" "r1 < d1" "2 ^ 31 \<le> d1" "n0 < 2 ^ 32" "n2 < 2 ^ k" "n1 < 2 ^ 32" "k < 32"
    "d0 < 2 ^ 32" "k = 31 \<Longrightarrow> d0 \<le> 2 ^ 31" "q < 2 ^ 32"
  defines "d \<equiv> d1 * 2 ^ 32 + d0"
  shows "(n2 * 2 ^ 32 + n1) * 2 ^ 32 + n0 + q * d0 = q * d + (r1 * 2 ^ 32 + n0)" "r1 * 2 ^ 32 + n0 < d" "q * d0 \<le> d"
proof -
  show "(n2 * 2 ^ 32 + n1) * 2 ^ 32 + n0 + q * d0 = q * d + (r1 * 2 ^ 32 + n0)" unfolding assms(1) d_def by (simp add: algebra_simps)
  have "(r1 + 1) * 2 ^ 32 \<le> d1 * 2 ^ 32" using assms(2) by (intro mult_le_mono1) simp
  then show "r1 * 2 ^ 32 + n0 < d" using assms(4) unfolding d_def by simp
  have m: "q * d0 \<le> 2 ^ 31 * 2 ^ 32"
  proof (cases "k = 31")
    case True
    have "q * d0 \<le> 2 ^ 32 * 2 ^ 31" using assms(9) [OF True] assms(10) by (intro mult_mono) auto
    then show ?thesis by simp
  next
    case False
    then have "(2 :: nat) ^ k \<le> 2 ^ 30" using assms(7) by (intro power_increasing) auto
    then have "(n2 + 1) * 2 ^ 32 \<le> 2 ^ 30 * 2 ^ 32" using assms(5) by (intro mult_le_mono1) simp
    then have "q * d1 < 2 ^ 62" using assms(1,6) by simp
    moreover have "q * 2 ^ 31 \<le> q * d1" using assms(3) by (rule mult_le_mono2)
    ultimately have "q * 2 ^ 31 < 2 ^ 62" by (rule le_less_trans [rotated])
    then have "q \<le> 2 ^ 31" by simp
    then show ?thesis using assms(8) by (intro mult_mono) auto
  qed
  have "2 ^ 31 * 2 ^ 32 \<le> d1 * 2 ^ 32" using assms(3) by (rule mult_le_mono1)
  with m show "q * d0 \<le> d" unfolding d_def by linarith
qed

lemma pair_less: "l < 2 ^ 32 \<Longrightarrow> m0 < 2 ^ 32 \<Longrightarrow> m1 * 2 ^ 32 + m0 > r1 * 2 ^ 32 + l \<longleftrightarrow> m1 > r1 \<or> m1 = r1 \<and> m0 > l" for l m0 m1 r1 :: nat
  by (cases m1 r1 rule: linorder_cases) auto

text \<open>The last correction, in words.\<close>

lemma long_correction:
  fixes q :: u32 and r m d :: u64
  assumes N: "N + unat m = unat q * unat d + unat r" and r: "unat r < unat d" and m: "unat m \<le> unat d"
  defines "c \<equiv> unat r < unat m"
  shows "N = unat (if c then q - 1 else q) * unat d + unat (r - (if c then m - d else m)) \<and> unat (r - (if c then m - d else m)) < unat d"
proof (cases c)
  case True
  have q: "unat q \<noteq> 0" using N True by (cases "unat q") (auto simp: c_def)
  then have a1: "unat (q - 1) = unat q - 1" by (simp add: unat_diff)
  have dm: "unat (d - m) = unat d - unat m" using m by (rule unat_diff64)
  have "unat (d - m) + unat r < 2 ^ 64" using True m u64_lt [of d] by (simp add: dm c_def)
  then have "unat ((d - m) + r) = unat (d - m) + unat r" by (intro unat_add_lem [THEN iffD1]) simp
  moreover have "r - (m - d) = (d - m) + r" by simp
  ultimately have a2: "unat (r - (m - d)) = unat r + unat d - unat m" using m by (simp only: dm)
  have a3: "unat q * unat d = (unat q - 1) * unat d + unat d" using q by (simp add: diff_mult_distrib)
  show ?thesis using True N m a3 unfolding c_def by (simp only: if_True a1 a2) linarith
next
  case False
  then have "unat (r - m) = unat r - unat m" by (intro unat_diff64) (simp add: c_def)
  then show ?thesis using False N r by (simp add: c_def) linarith
qed

lemma top_bit_only: "x * 2 ^ 31 mod 2 ^ 32 \<le> 2 ^ 31" for x :: nat
proof -
  have "x * 2 ^ 31 mod (2 * 2 ^ 31) = x mod 2 * 2 ^ 31" by (rule mod_mult_mult2)
  moreover have "x mod 2 * 2 ^ 31 \<le> 1 * 2 ^ 31" by (rule mult_le_mono1) simp
  ultimately show ?thesis by simp
qed

lemma long_normal:
  assumes "n1 \<ge> d1" "count_leading_zeros d1 = int k" "0 < k" "k < 32" "2 ^ 31 \<le> unat d1 * 2 ^ k" "unat d1 * 2 ^ k < 2 ^ 32"
  shows "\<exists>q0 r. udivmod_long n1 n0 d1 d0 = Some (0, q0, r) \<and> unat (di_pack n1 n0) = unat q0 * unat (di_pack d1 d0) + unat r \<and> unat r < unat (di_pack d1 d0)"
proof -
  define e1 e0 where "e1 = push_bit k d1 OR drop_bit (32 - k) d0" and "e0 = push_bit k d0"
  define m2 m1 m0 where "m2 = drop_bit (32 - k) n1" and "m1 = push_bit k n1 OR drop_bit (32 - k) n0" and "m0 = push_bit k n0"
  have e32: "(2 :: nat) ^ 32 = 2 ^ k * 2 ^ (32 - k)" using assms(4) by (simp flip: power_add)
  have N: "(unat m2 * 2 ^ 32 + unat m1) * 2 ^ 32 + unat m0 = unat (di_pack n1 n0) * 2 ^ k"
    using normal_digits [OF assms(3,4), of n1 n0] by (simp only: m2_def m1_def m0_def unat_pack)
  have "unat d1 div 2 ^ (32 - k) = 0" using assms(6) unfolding e32 by simp
  then have D: "unat (di_pack e1 e0) = unat (di_pack d1 d0) * 2 ^ k"
    using normal_digits [OF assms(3,4), of d1 d0] by (simp add: e1_def e0_def unat_pack unat_shiftr)
  have e1: "2 ^ 31 \<le> unat e1"
  proof -
    have "2 ^ 31 * 2 ^ 32 \<le> unat d1 * 2 ^ k * 2 ^ 32" using assms(5) by (rule mult_le_mono1)
    also have "\<dots> = unat d1 * 2 ^ 32 * 2 ^ k" by (simp only: ac_simps)
    also have "\<dots> \<le> unat (di_pack d1 d0) * 2 ^ k" by (rule mult_le_mono1) (simp only: unat_pack le_add1)
    also have "\<dots> = unat e1 * 2 ^ 32 + unat e0" using D by (simp only: unat_pack)
    finally show ?thesis using u32_lt [of e0] by simp
  qed
  have "unat n1 div 2 ^ (32 - k) < 2 ^ k" using u32_lt [of n1] unfolding e32 by (rule less_mult_imp_div_less)
  then have m2: "unat m2 < 2 ^ k" by (simp add: m2_def unat_shiftr)
  moreover have "(2 :: nat) ^ k \<le> 2 ^ 31" using assms(4) by (intro power_increasing) auto
  ultimately have "unat m2 < unat e1" using e1 by linarith
  from udiv_qrnnd_exact [OF this e1, of m1] obtain q r1 where q: "udiv_qrnnd m2 m1 e1 = Some (q, r1)"
    "unat m2 * 2 ^ 32 + unat m1 = unat q * unat e1 + unat r1" "unat r1 < unat e1" by blast
  have e0: "k = 31 \<Longrightarrow> unat e0 \<le> 2 ^ 31" using top_bit_only [of "unat d0"] by (simp add: e0_def unat_shiftl)
  note es = long_estimate [OF q(2,3) e1 u32_lt [of m0] m2 u32_lt assms(4) u32_lt [of e0] e0 u32_lt, folded unat_pack]
  obtain p1 p0 where p: "umul_ppmm q e0 = (p1, p0)" by fastforce
  have P: "unat (di_pack p1 p0) = unat q * unat e0" using umul_ppmm_exact [OF p] by (simp add: unat_pack)
  define c where "c \<longleftrightarrow> unat (di_pack r1 m0) < unat (di_pack p1 p0)"
  have c: "p1 > r1 \<or> p1 = r1 \<and> p0 > m0 \<longleftrightarrow> c" unfolding c_def unat_pack pair_less [OF u32_lt u32_lt] by (simp add: word_less_nat_alt word_unat_eq_iff)
  obtain s1 s0 where s: "sub_ddmmss p1 p0 e1 e0 = (s1, s0)" by fastforce
  obtain t1 t0 where t: "sub_ddmmss r1 m0 (if c then s1 else p1) (if c then s0 else p0) = (t1, t0)" by fastforce
  have T: "di_pack t1 t0 = di_pack r1 m0 - (if c then di_pack p1 p0 - di_pack e1 e0 else di_pack p1 p0)"
    using sub_ddmmss_eq [OF t] sub_ddmmss_eq [OF s] by (cases c) simp_all
  have "unat (di_pack n1 n0) * 2 ^ k = unat (if c then q - 1 else q) * (unat (di_pack d1 d0) * 2 ^ k) + unat (di_pack t1 t0) \<and> unat (di_pack t1 t0) < unat (di_pack d1 d0) * 2 ^ k"
    unfolding T c_def D [symmetric] N [symmetric] by (rule long_correction) (use es P in \<open>simp_all only: unat_pack [of m2 m1] P\<close>)
  then have "unat (di_pack n1 n0) = unat (if c then q - 1 else q) * unat (di_pack d1 d0) + unat (di_pack t1 t0) div 2 ^ k \<and> unat (di_pack t1 t0) div 2 ^ k < unat (di_pack d1 d0)"
    using unscale by blast
  moreover have "udivmod_long n1 n0 d1 d0 = Some (0, if c then q - 1 else q, di_pack (drop_bit k t1) (push_bit (32 - k) t1 OR drop_bit k t0))"
    using leD [OF assms(1)] assms(3,4) q(1) p s t
    by (cases c) (simp_all add: udivmod_long_def assms(2) complement_shift Let_def c flip: e1_def e0_def m2_def m1_def m0_def)
  ultimately show ?thesis using shift_down [OF assms(3,4), of t1 t0] by auto
qed

lemma udivmod_long_exact:
  assumes "d1 \<noteq> 0"
  shows "\<exists>q0 r. udivmod_long n1 n0 d1 d0 = Some (0, q0, r) \<and> unat (di_pack n1 n0) = unat q0 * unat (di_pack d1 d0) + unat r \<and> unat r < unat (di_pack d1 d0)"
proof -
  obtain k where k: "k < 32" "count_leading_zeros d1 = int k" "2 ^ 31 \<le> unat d1 * 2 ^ k" "unat d1 * 2 ^ k < 2 ^ 32"
    using count_leading_zeros_normal [OF assms] by blast
  have lt: "unat (di_pack n1 n0) < unat (di_pack d1 d0) \<longleftrightarrow> n1 < d1 \<or> n1 = d1 \<and> n0 < d0"
    unfolding unat_pack pair_less [OF u32_lt u32_lt] by (auto simp: word_less_nat_alt word_unat_eq_iff)
  consider "n1 < d1" | "d1 \<le> n1" "k = 0" | "d1 \<le> n1" "0 < k" using not_less [of n1 d1] by blast
  then show ?thesis
  proof cases
    case 1
    then show ?thesis using lt by (simp add: udivmod_long_def)
  next
    case 2
    have d: "2 ^ 63 \<le> unat (di_pack d1 d0)" using k(3) 2(2) by (simp add: unat_pack)
    show ?thesis
    proof (cases "unat (di_pack n1 n0) < unat (di_pack d1 d0)")
      case True
      then have "\<not> (n1 > d1 \<or> n0 \<ge> d0)" using lt 2(1) by auto
      then show ?thesis using True 2 k(2) by (simp add: udivmod_long_def Let_def not_less)
    next
      case False
      then have c: "n1 > d1 \<or> n0 \<ge> d0" using lt 2(1) by auto
      obtain s1 s0 where s: "sub_ddmmss n1 n0 d1 d0 = (s1, s0)" by fastforce
      have "unat (di_pack s1 s0) = unat (di_pack n1 n0) - unat (di_pack d1 d0)"
        using sub_ddmmss_eq [OF s] False by (simp add: unat_diff64)
      then show ?thesis using c s False 2 k(2) d u64_lt [of "di_pack n1 n0"] by (simp add: udivmod_long_def Let_def not_less)
    qed
  next
    case 3
    then show ?thesis using long_normal [OF _ k(2) _ k(1,3,4)] by simp
  qed
qed

section \<open>Quotients and remainders\<close>

lemma udivmoddi4_eq:
  assumes "d \<noteq> 0"
  shows "udivmoddi4 n d = Some (n div d, n mod d)"
proof -
  obtain q1 q0 r where u: "(if di_high d = 0 then udivmod_short (di_high n) (di_low n) (di_low d) else udivmod_long (di_high n) (di_low n) (di_high d) (di_low d)) = Some (q1, q0, r)"
    "unat n = unat (di_pack q1 q0) * unat d + unat r" "unat r < unat d"
  proof (cases "di_high d = 0")
    case True
    then have d: "unat d = unat (di_low d)" using two_digits [of d] by simp
    then have "di_low d \<noteq> 0" using assms by (auto simp: unat_eq_0)
    have n: "unat n = unat (di_high n) * 2 ^ 32 + unat (di_low n)" by (rule two_digits)
    show ?thesis
    proof (cases "unat (di_high n) < unat (di_low d)")
      case less: True
      then show ?thesis using that True d n udivmod_short_small [OF less, of "di_low n"] by (auto simp: unat_pack)
    next
      case False
      then show ?thesis using that True d n udivmod_short_large [of "di_low d" "di_high n" "di_low n"] \<open>di_low d \<noteq> 0\<close> by (auto simp: unat_pack)
    qed
  next
    case False
    then show ?thesis using that udivmod_long_exact [OF False, of "di_high n" "di_low n" "di_low d"] by (auto simp: unat_pack)
  qed
  have "unat (di_pack q1 q0) = unat n div unat d" "unat r = unat n mod unat d" using u(2,3) by (simp_all add: div_mult_self3)
  then have "di_pack q1 q0 = n div d" "r = n mod d" by (simp_all add: word_unat_eq_iff unat_div unat_mod)
  then show ?thesis using u(1) by (simp add: udivmoddi4_def)
qed

lemma udivmoddi4_zero: "udivmoddi4 n 0 = None"
  by (simp add: udivmoddi4_def udivmod_short_def di_high_def di_low_def udiv_def)

lemma negative_iff: "sint x < 0 \<longleftrightarrow> bit x (LENGTH('a) - 1)" for x :: "'a :: len word"
  by (simp add: sint_uint signed_take_bit_negative_iff bit_uint_iff)

lemma bit_high: "bit (di_high u) n \<longleftrightarrow> n < 32 \<and> bit u (n + 32)"
  by (simp only: di_high_def bit_ucast_iff bit_drop_bit_eq o_def) (auto simp: add.commute)

lemma bit_low: "bit (di_low u) n \<longleftrightarrow> n < 32 \<and> bit u n"
  by (simp add: di_low_def bit_ucast_iff)

lemma high_negative: "sint (di_high u) < 0 \<longleftrightarrow> sint u < 0"
  by (simp add: negative_iff bit_high)

text \<open>The absolute value of a signed number, as an unsigned one.\<close>

lemma uint_magnitude: "uint (if sint u < 0 then - u else u) = \<bar>sint u\<bar>" for u :: u64
proof -
  have "- (2 ^ 63) \<le> sint u" "sint u < 2 ^ 63" using sint_greater_eq [of u] sint_less [of u] by simp_all
  then have "\<bar>sint u\<bar> mod 2 ^ 64 = \<bar>sint u\<bar>" by (intro mod_pos_pos_trivial) auto
  moreover have "(if sint u < 0 then - u else u) = word_of_int \<bar>sint u\<bar>" by (simp add: abs_if)
  ultimately show ?thesis by (simp only: uint_word_of_int) simp
qed

lemma magnitude_nonzero: "v \<noteq> 0 \<Longrightarrow> (if sint v < 0 then - v else v) \<noteq> 0" for v :: u64
  by auto

lemma divdi3_eq:
  assumes "v \<noteq> 0"
  shows "divdi3 u v = Some (of_int (sint u sdiv sint v))"
proof -
  let ?a = "if sint u < 0 then - u else u" and ?b = "if sint v < 0 then - v else v"
  have q: "?a div ?b = of_int (\<bar>sint u\<bar> div \<bar>sint v\<bar>)" unfolding word_div_def uint_magnitude by simp
  have "divdi3 u v = Some (if (sint u < 0) \<noteq> (sint v < 0) then - (?a div ?b) else ?a div ?b)"
    using udivmoddi4_eq [OF magnitude_nonzero [OF assms], of ?a]
    by (auto simp: divdi3_def high_negative negdi2_eq Let_def split: if_splits)
  also have "\<dots> = Some (of_int (sint u sdiv sint v))" unfolding q
    by (auto simp: signed_divide_int_def sgn_if)
  finally show ?thesis .
qed

lemma moddi3_eq:
  assumes "v \<noteq> 0"
  shows "moddi3 u v = Some (of_int (sint u smod sint v))"
proof -
  let ?a = "if sint u < 0 then - u else u" and ?b = "if sint v < 0 then - v else v"
  have q: "?a mod ?b = of_int (\<bar>sint u\<bar> mod \<bar>sint v\<bar>)" unfolding word_mod_def uint_magnitude by simp
  have "moddi3 u v = Some (if sint u < 0 then - (?a mod ?b) else ?a mod ?b)"
    using udivmoddi4_eq [OF magnitude_nonzero [OF assms], of ?a]
    by (auto simp: moddi3_def high_negative negdi2_eq Let_def split: if_splits)
  also have "\<dots> = Some (of_int (sint u smod sint v))" unfolding q
    by (auto simp: smod_int_alt_def sgn_if)
  finally show ?thesis .
qed

section \<open>Shifts and comparison\<close>

lemma bit_pack: "bit (di_pack h l) n \<longleftrightarrow> (if n < 32 then bit l n else bit h (n - 32))"
  by (auto simp: di_pack_def bit_or_iff bit_push_bit_iff bit_ucast_iff dest: bit_imp_le_length)

lemma bit64_lt: "bit u n \<Longrightarrow> n < 64" for u :: u64
  by (auto dest: bit_imp_le_length)

lemmas shift_bits = bit_pack bit_drop_bit_eq bit_or_iff bit_push_bit_iff bit_signed_drop_bit_iff bit_high bit_low

lemma drop_words:
  assumes "0 < b" "b < 32"
  shows "di_pack (drop_bit b (di_high u)) (drop_bit b (di_low u) OR push_bit (32 - b) (di_high u)) = drop_bit b u"
  by (rule bit_eqI) (use assms in \<open>auto simp: shift_bits add.commute dest: bit64_lt\<close>)

lemma push_words:
  assumes "0 < b" "b < 32"
  shows "di_pack (push_bit b (di_high u) OR drop_bit (32 - b) (di_low u)) (push_bit b (di_low u)) = push_bit b u"
  by (rule bit_eqI) (use assms in \<open>auto simp: shift_bits add.commute dest: bit64_lt\<close>)

lemma signed_drop_words:
  assumes "0 < b" "b < 32"
  shows "di_pack (signed_drop_bit b (di_high u)) (drop_bit b (di_low u) OR push_bit (32 - b) (di_high u)) = signed_drop_bit b u"
proof (rule bit_word_eqI)
  fix n
  assume "n < LENGTH(64)"
  then show "bit (di_pack (signed_drop_bit b (di_high u)) (drop_bit b (di_low u) OR push_bit (32 - b) (di_high u))) n \<longleftrightarrow> bit (signed_drop_bit b u) n"
    using assms by (auto simp: shift_bits add.commute [of n b])
qed

lemma drop_words_far:
  assumes "32 \<le> b" "b < 64"
  shows "di_pack 0 (drop_bit (b - 32) (di_high u)) = drop_bit b u"
  by (rule bit_eqI) (use assms in \<open>auto simp: shift_bits add.commute dest: bit64_lt\<close>)

lemma push_words_far:
  assumes "32 \<le> b" "b < 64"
  shows "di_pack (push_bit (b - 32) (di_low u)) 0 = push_bit b u"
  by (rule bit_eqI) (use assms in \<open>auto simp: shift_bits add.commute dest: bit64_lt\<close>)

lemma signed_drop_words_far:
  assumes "32 \<le> b" "b < 64"
  shows "di_pack (signed_drop_bit 31 (di_high u)) (signed_drop_bit (b - 32) (di_high u)) = signed_drop_bit b u"
proof (rule bit_word_eqI)
  fix n
  assume "n < LENGTH(64)"
  then show "bit (di_pack (signed_drop_bit 31 (di_high u)) (signed_drop_bit (b - 32) (di_high u))) n \<longleftrightarrow> bit (signed_drop_bit b u) n"
    using assms by (cases "n = 32") (auto simp: shift_bits)
qed

lemma far_shift:
  assumes "32 \<le> b" "b < 64"
  shows "shr x (int b - SI_TYPE_SIZE) = Some (drop_bit (b - 32) x)" "shl x (int b - SI_TYPE_SIZE) = Some (push_bit (b - 32) x)"
    "sar x (int b - SI_TYPE_SIZE) = Some (signed_drop_bit (b - 32) x)" "sar x (SI_TYPE_SIZE - 1) = Some (signed_drop_bit 31 x)"
proof -
  have "int b - SI_TYPE_SIZE = int (b - 32)" "SI_TYPE_SIZE - 1 = int 31" using assms by (simp_all add: SI_TYPE_SIZE_def)
  then show "shr x (int b - SI_TYPE_SIZE) = Some (drop_bit (b - 32) x)" "shl x (int b - SI_TYPE_SIZE) = Some (push_bit (b - 32) x)"
    "sar x (int b - SI_TYPE_SIZE) = Some (signed_drop_bit (b - 32) x)" "sar x (SI_TYPE_SIZE - 1) = Some (signed_drop_bit 31 x)"
    using assms by (simp_all only: shift_defined)
qed

lemma far_iff: "SI_TYPE_SIZE \<le> int b \<longleftrightarrow> 32 \<le> b"
  by (auto simp: SI_TYPE_SIZE_def)

lemma lshrdi3_eq: "b < 64 \<Longrightarrow> lshrdi3 u (int b) = Some (drop_bit b u)"
  using drop_words [of b u] drop_words_far [of b u]
  by (cases "b = 0"; cases "32 \<le> b") (simp_all add: lshrdi3_def far_iff far_shift complement_shift Let_def)

lemma ashldi3_eq: "b < 64 \<Longrightarrow> ashldi3 u (int b) = Some (push_bit b u)"
  using push_words [of b u] push_words_far [of b u]
  by (cases "b = 0"; cases "32 \<le> b") (simp_all add: ashldi3_def far_iff far_shift complement_shift Let_def)

lemma ashrdi3_eq: "b < 64 \<Longrightarrow> ashrdi3 u (int b) = Some (signed_drop_bit b u)"
  using signed_drop_words [of b u] signed_drop_words_far [of b u]
  by (cases "b = 0"; cases "32 \<le> b") (simp_all add: ashrdi3_def far_iff far_shift complement_shift Let_def)

lemma sign_code_digits:
  assumes "0 \<le> l" "l < 2 ^ 32" "0 \<le> m" "m < 2 ^ 32"
  shows "sign_code (h * 2 ^ 32 + l) (g * 2 ^ 32 + m) = (if h < g then 0 else if h > g then 2 else sign_code l m)"
  using assms by (auto simp: sign_code_def)

lemma uint_digits: "uint x = uint (di_high x) * 2 ^ 32 + uint (di_low x)"
proof -
  have "int (unat x) = int (unat (di_high x)) * 2 ^ 32 + int (unat (di_low x))" using two_digits [of x] by simp
  then show ?thesis by (simp only: uint_nat)
qed

lemma sint_eq_uint: "sint x = uint x - 2 ^ LENGTH('a) * of_bool (sint x < 0)" for x :: "'a :: len word"
  unfolding negative_iff sint_uint signed_take_bit_eq_take_bit_minus by (simp add: bit_uint_iff take_bit_eq_mod flip: bit_iff_odd)

lemma sint_digits: "sint x = sint (di_high x) * 2 ^ 32 + uint (di_low x)"
  using uint_digits [of x] sint_eq_uint [of x] sint_eq_uint [of "di_high x"] high_negative [of x] by (simp split: if_splits)

lemma uint_word_lt: "0 \<le> uint x" "uint x < 2 ^ 32" for x :: u32
  using uint_lt2p [of x] by simp_all

lemma ucmpdi2_eq: "ucmpdi2 a b = sign_code (uint a) (uint b)"
  unfolding uint_digits [of a] uint_digits [of b] sign_code_digits [OF uint_word_lt uint_word_lt]
  unfolding ucmpdi2_def sign_code_def word_less_def by simp

lemma cmpdi2_eq: "cmpdi2 a b = sign_code (sint a) (sint b)"
  unfolding sint_digits [of a] sint_digits [of b] sign_code_digits [OF uint_word_lt uint_word_lt]
  unfolding cmpdi2_def sign_code_def word_less_def by simp

lemma bits_of_halves: "filter (bit u) [0..<64] = filter (bit (di_low u)) [0..<32] @ map (\<lambda>i. i + 32) (filter (bit (di_high u)) [0..<32])" for u :: u64
proof -
  have "[0..<64] = [0..<32] @ [32..<64]" using upt_add_eq_append [of 0 32 32] by (simp del: upt_rec_numeral)
  also have "[32..<64] = map (\<lambda>i. i + 32) [0..<32]" using map_add_upt [of 32 32] by (simp del: upt_rec_numeral)
  finally have "filter (bit u) [0..<64] = filter (bit u) [0..<32] @ map (\<lambda>i. i + 32) (filter (bit u \<circ> (\<lambda>i. i + 32)) [0..<32])"
    by (simp only: filter_append filter_map)
  moreover have "filter (bit u) [0..<32] = filter (bit (di_low u)) [0..<32]" by (rule filter_cong) (simp_all add: bit_low)
  moreover have "filter (bit u \<circ> (\<lambda>i. i + 32)) [0..<32] = filter (bit (di_high u)) [0..<32]" by (rule filter_cong) (simp_all add: bit_high add.commute)
  ultimately show ?thesis by simp
qed

lemma lowest_bit_le: "lowest_bit (x :: u32) \<le> 32"
proof (cases "filter (bit x) [0..<32]")
  case (Cons i js)
  then have "i \<in> set (filter (bit x) [0..<32])" by (simp only: list.set_intros)
  then have "i < 32" by (simp only: set_filter set_upt) simp
  then show ?thesis using Cons by (simp add: lowest_bit_def)
qed (simp add: lowest_bit_def)

lemma ffsdi2_lowest_bit:
  assumes "\<And>x. unat (ffs x) = lowest_bit x"
  shows "unat (ffsdi2 ffs u) = lowest_bit u"
proof -
  have *: "lowest_bit u = (if lowest_bit (di_low u) \<noteq> 0 then lowest_bit (di_low u)
     else if lowest_bit (di_high u) \<noteq> 0 then lowest_bit (di_high u) + 32 else 0)"
    using bits_of_halves [of u] by (simp add: lowest_bit_def split: list.splits)
  have "unat (ffs (di_high u) + 32) = lowest_bit (di_high u) + 32" 
    using assms [of "di_high u"] lowest_bit_le [of "di_high u"] by (simp add: unat_add)
  moreover have "ffs x = 0 \<longleftrightarrow> lowest_bit x = 0" for x using assms [of x] by (simp flip: unat_eq_0)
  ultimately show ?thesis using assms by (simp add: * ffsdi2_def unat_pack Let_def)
qed

section \<open>The compiler's view\<close>

text \<open>
  C39. Division of 64-bit integers gives, for a divisor other than zero, the quotient and the remainder that C defines: of the
  unsigned numbers, and of the signed numbers with rounding towards zero, where the remainder has the sign of the dividend. The
  smallest number divided by -1 wraps around. No shift on the way is out of range and no estimate of a digit is wrong by more than
  the corrections in the macro allow. A divisor of zero divides by zero in the code.
\<close>

theorem division64:
  assumes "v \<noteq> 0"
  shows "udivdi3 u v = Some (u div v) \<and> umoddi3 u v = Some (u mod v)
    \<and> divdi3 u v = Some (word_of_int (sint u sdiv sint v)) \<and> moddi3 u v = Some (word_of_int (sint u smod sint v))
    \<and> udivdi3 u 0 = None \<and> umoddi3 u 0 = None \<and> divdi3 u 0 = None \<and> moddi3 u 0 = None"
proof -
  have "\<not> sint (di_high 0) < 0" by (simp add: high_negative)
  then show ?thesis using udivmoddi4_eq [OF assms, of u] divdi3_eq [OF assms] moddi3_eq [OF assms]
    by (simp add: udivdi3_def umoddi3_def divdi3_def [of u 0] moddi3_def [of u 0] udivmoddi4_zero Let_def)
qed

theorem division64_witness:
  "udivdi3 100000000000 7000000007 = Some 14 \<and> moddi3 (- 100000000000) 7000000007 = Some (- 1999999902)"
proof -
  have "sint (- 100000000000 :: u64) = - 100000000000" "sint (7000000007 :: u64) = 7000000007" by code_simp+
  then show ?thesis using division64 [of 7000000007 100000000000] division64 [of 7000000007 "- 100000000000"]
    by (simp add: smod_int_alt_def)
qed

text \<open>
  C40. The other operations on 64-bit integers agree with those of the processor's words at twice the width: product and negation
  modulo 2 to the 64th, the three shifts by every distance below 64 (none shifts a half by its whole width), and the two comparisons,
  whose result is 0, 1 or 2 for less, equal and greater. The location of the lowest bit set is right if it is for one word.
\<close>

theorem arithmetic64:
  assumes "b < 64" "\<And>x. unat (ffs x) = lowest_bit x"
  shows "muldi3 u v = u * v \<and> negdi2 u = - u
    \<and> ashldi3 u (int b) = Some (push_bit b u) \<and> lshrdi3 u (int b) = Some (drop_bit b u) \<and> ashrdi3 u (int b) = Some (signed_drop_bit b u)
    \<and> ucmpdi2 u v = sign_code (uint u) (uint v) \<and> cmpdi2 u v = sign_code (sint u) (sint v)
    \<and> unat (ffsdi2 ffs u) = lowest_bit u"
  using assms by (simp add: muldi3_eq negdi2_eq ashldi3_eq lshrdi3_eq ashrdi3_eq ucmpdi2_eq cmpdi2_eq ffsdi2_lowest_bit)

lemma lowest_bit_word: "unat (of_nat (lowest_bit x) :: u32) = lowest_bit x" for x :: u32
  using lowest_bit_le [of x] by (simp add: unat_of_nat)

theorem arithmetic64_witness:
  "ashrdi3 (- 256) 4 = Some (- 16) \<and> ashldi3 3 40 = Some 3298534883328 \<and> muldi3 5000000000 (- 2) = - 10000000000
   \<and> cmpdi2 (- 1) 0 = 0 \<and> ucmpdi2 (- 1) 0 = 2 \<and> unat (ffsdi2 (\<lambda>x. of_nat (lowest_bit x)) 3298534883328) = 41"
proof -
  note law = arithmetic64 [where ffs = "\<lambda>x. of_nat (lowest_bit x)", OF _ lowest_bit_word]
  have "signed_drop_bit 4 (- 256 :: u64) = - 16" "push_bit 40 (3 :: u64) = 3298534883328" "lowest_bit (3298534883328 :: u64) = 41"
    "sint (- 1 :: u64) = - 1" "uint (- 1 :: u64) = 18446744073709551615"
    by code_simp+
  then show ?thesis using law [of 4 "- 256"] law [of 40 3] law [of 0 5000000000 "- 2"] law [of 0 "- 1" 0] law [of 0 3298534883328]
    by (simp add: sign_code_def)
qed

end
