(* ===== verification/Spec2Isabelle.thy ===== *)
theory Spec2Isabelle
  imports Siirtc FlashCorrect StwiCorrect AgbPrint M4aCommands LibcStdlibCorrect LibcSortCorrect LibcMprecProps
    LibcTimeCorrect LibcPrintfCorrect LibcStrftimeCorrect LibGccDivision
begin

text \<open>
  A verification development of the Game Boy Advance runtime libraries of this repository.

  The repository is a tool chain (a C compiler, assembler and linker taken from GNU) together
  with the C libraries that are linked into a game. The development is about the libraries:
  the drivers for the devices of a cartridge and console, the music player, the memory, string,
  conversion, sorting, multiple-precision, calendar and formatting functions of the C library,
  and the 64-bit arithmetic that the compiler calls.

  \<^bold>\<open>The parts and their theories.\<close>

  \<^item> \<^verbatim>\<open>Prelude\<close>: the integer types of \<^verbatim>\<open>ginclude/gba/types.h\<close> as words, little-endian loads and
    stores, and the lemmas on folds, bits and bytes that the components share.
  \<^item> \<^verbatim>\<open>GbaIo\<close>: addresses and bits of the I/O registers (\<^verbatim>\<open>ginclude/gba/io_reg.h\<close>).
  \<^item> \<^verbatim>\<open>Siirtc\<close>: the real-time clock driver, \<^verbatim>\<open>siirtc/siirtc.c\<close>. The state is the lock byte and the
    list of accesses to the GPIO port; every function of the source is a definition of the
    same name. What the chip sees of the accesses is the function \<^verbatim>\<open>wire\<close>. Theorems: only
    complete frames reach the chip, values written are the values read back, a locked driver
    refuses, the probe reports the resets it made.
  \<^item> \<^verbatim>\<open>AgbFlash\<close>, \<^verbatim>\<open>FlashProtocol\<close>, \<^verbatim>\<open>FlashCorrect\<close>: the flash memory driver, \<^verbatim>\<open>agb_flash/\<close>. The first
    holds the driver (static variables, registers, caller's memory and the accesses on the
    bus); the second what a chip with the documented command set does with those accesses and
    which cells each operation can touch; the third the theorems: a write that reports success
    has written the sector, no call damages another sector, waiting always ends, what is saved
    is loaded.
  \<^item> \<^verbatim>\<open>Stwi\<close>, \<^verbatim>\<open>StwiCorrect\<close>: the serial layer of the wireless adapter, \<^verbatim>\<open>librfu/librfu_stwi.c\<close>.
    State: the driver struct, the packet buffers, the registers and the list of register
    writes. Theorems: what a request sends and when it is refused, that a command is sent at
    most three times whatever sequence of timeouts occurs (a step relation and its reachable
    states), the size limit of data packets, that the polling loops return.
  \<^item> \<^verbatim>\<open>AgbPrint\<close>: the debug output, \<^verbatim>\<open>libisagbprn/\<close>. The ring buffer in cartridge memory refines a
    queue of characters.
  \<^item> \<^verbatim>\<open>M4aTables\<close>, \<^verbatim>\<open>M4a\<close>, \<^verbatim>\<open>M4aControl\<close>, \<^verbatim>\<open>M4aCorrect\<close>, \<^verbatim>\<open>M4aCommands\<close>: the music player, \<^verbatim>\<open>m4a/\<close>. The
    tables of \<^verbatim>\<open>m4a_tables.c\<close> and the key to frequency conversions; the functions of \<^verbatim>\<open>m4a_2.c\<close>
    (players, tracks, channels, fading, volume and pitch, sound hardware) with the assembly
    routines they call; those of \<^verbatim>\<open>m4a_4.c\<close> (control requests, extended commands, cries). The
    state has players, tracks, channels and the sound info struct as maps from addresses to
    records, song data as bytes, and the list of hardware accesses. Theorems: starting,
    stopping and fading silence the right channels and touch nothing else, no request disturbs
    a locked player, control requests change exactly the selected tracks, computed volumes,
    pitches and frequencies stay in range.
  \<^item> \<^verbatim>\<open>LibcString\<close>, \<^verbatim>\<open>LibcStringCorrect\<close>: the functions of \<^verbatim>\<open>libc/string/\<close> that have a fast body
    working on words and a plain one working on bytes. Theorems: the two bodies agree on every
    input; the plain bodies move, fill, compare and concatenate as documented.
  \<^item> \<^verbatim>\<open>LibcStdlib\<close>, \<^verbatim>\<open>LibcStdlibCorrect\<close>: the character classes of \<^verbatim>\<open>libc/ctype/\<close>, the number
    conversions and the binary search of \<^verbatim>\<open>libc/stdlib/\<close>. Theorems: the value, the end pointer and
    the range error of \<^verbatim>\<open>strtol\<close> and \<^verbatim>\<open>strtoul\<close> in every base; the search of a sorted array ends
    with an equal element when there is one.
  \<^item> \<^verbatim>\<open>LibcSort\<close>, \<^verbatim>\<open>LibcSortCorrect\<close>: \<^verbatim>\<open>libc/stdlib/qsort.c\<close> on the bytes of memory. Theorem: sorting
    returns for every total comparison, permutes the elements into ascending order and changes
    no other byte, for every element size and alignment.
  \<^item> \<^verbatim>\<open>LibcMprec\<close>, \<^verbatim>\<open>LibcMprecCorrect\<close>, \<^verbatim>\<open>LibcMprecHeap\<close>, \<^verbatim>\<open>LibcMprecOps\<close>, \<^verbatim>\<open>LibcMprecProps\<close>: the
    multiple-precision integers of \<^verbatim>\<open>libc/stdlib/mprec.c\<close>. The state is the store of numbers with
    the lists of free objects and of powers of five; requests for memory are answered by a
    parameter. The second theory shows what the loops over the words of a number compute, the
    third the invariant of the store and allocation, the fourth each operation on the store, the
    fifth holds the properties: every operation is exact and disturbs no other number, an
    object in use is never handed out, and what goes wrong in the library's configuration.
  \<^item> \<^verbatim>\<open>LibcInt\<close>, \<^verbatim>\<open>LibcTime\<close>, \<^verbatim>\<open>LibcTimeCorrect\<close>: the calendar of \<^verbatim>\<open>libc/time/\<close>. The first has C's
    signed arithmetic, in which an overflow is \<^verbatim>\<open>None\<close>; the second \<^verbatim>\<open>gmtime_r\<close>, \<^verbatim>\<open>localtime_r\<close> and \<^verbatim>\<open>mktime\<close>
    with the loops that carry from one member of the structure to the next; the third counts
    days from first principles and shows that the conversions are the Gregorian calendar for
    every 32-bit time, that they are inverse to each other, that structures out of range are
    normalised, and where \<^verbatim>\<open>mktime\<close> leaves its tables.
  \<^item> \<^verbatim>\<open>LibcPrintf\<close>, \<^verbatim>\<open>LibcPrintfCorrect\<close>: formatted output to a string, \<^verbatim>\<open>libc/stdio/vfprintf.c\<close> with
    \<^verbatim>\<open>INTEGER_ONLY\<close>, \<^verbatim>\<open>fvwrite.c\<close> and \<^verbatim>\<open>siprintf.c\<close>. The output vectors, the chunks of padding and the
    counting of space are modelled as in the code; the specification \<^verbatim>\<open>format_text\<close> is the text a
    format denotes. Theorems: the text is printed and nothing else is written; a number printed
    and read with \<^verbatim>\<open>atoi\<close> or \<^verbatim>\<open>strtoul\<close> is the same number.
  \<^item> \<^verbatim>\<open>LibcStrftime\<close>, \<^verbatim>\<open>LibcStrftimeCorrect\<close>: \<^verbatim>\<open>libc/time/strftime.c\<close>, composed with the printing above.
    Theorems: the text of the format is written if it fits, never more than the buffer when that
    has at least 24 bytes, and what happens with a smaller one.
  \<^item> \<^verbatim>\<open>LibGcc\<close>, \<^verbatim>\<open>LibGccCorrect\<close>, \<^verbatim>\<open>LibGccDivision\<close>: the functions on 64-bit integers of
    \<^verbatim>\<open>libgcc/libgcc2.c\<close> with the macros of \<^verbatim>\<open>longlong.h\<close>. An undefined shift or a division by zero is
    \<^verbatim>\<open>None\<close>. Theorems: product, negation, shifts and comparisons are those of 64-bit words, and
    division, with its estimates of digits and their corrections, gives quotient and remainder.

  \<^bold>\<open>How the parts interact.\<close> The drivers are independent of each other; each is called by the game
  and talks to one device through registers or a bus. The music player is called by the game
  once per frame and by song data; its two C files share the state of the players. The device
  is never part of the model: it answers through a parameter (\<^verbatim>\<open>port_in\<close>, \<^verbatim>\<open>chip\<close>, \<^verbatim>\<open>hw\<close>) that may
  depend on everything that happened before, and every theorem that needs a well-behaved
  device says so in a hypothesis. Interrupts are parameters too: the number of timer
  interrupts between two polls for the flash driver, the effect of everything that runs
  between two polls for the serial layer, a step relation for its timeouts. In the C library
  \<^verbatim>\<open>strftime\<close> calls \<^verbatim>\<open>siprintf\<close>, and both write to the memory of bytes that the string functions
  use; what is printed is read back by the number conversions.

  \<^bold>\<open>Conventions.\<close> A C function is a function of the same name from arguments and state to result
  and new state. A fallible or possibly endless function returns an option: \<^verbatim>\<open>None\<close> stands for a
  call that does not return (an endless loop, a jump through a null pointer, a write past a
  local buffer) or whose meaning C leaves open (a signed overflow, a shift too far, a division
  by zero, a read outside a table). Loops with a counter are structural recursion or folds; loops that wait for
  the outside are partial functions or \<^verbatim>\<open>while_option\<close>. No fuel is used, so no bound has to be
  chosen: that a waiting loop ends is always a theorem with the assumption on the outside
  that makes it end. Integers have their C width and wrap around; conversions are written out.
  Uninitialised variables that the source reads are arguments (\<^verbatim>\<open>junk\<close>, \<^verbatim>\<open>stack_byte\<close>).

  \<^bold>\<open>Interfaces.\<close> Contracts that several operations share are locales, interpreted for the
  definitions of the model in the theory that provides them: the operations that touch only a
  region of the flash chip, the write-and-verify loop, requests of the serial layer, the
  bounded queue, tables of pitches, operations that stop tracks, operations on a player, and
  loops that take several steps of another loop at once.

  \<^bold>\<open>Not modelled.\<close> The tool chain (\<^verbatim>\<open>gcc\<close>, \<^verbatim>\<open>gas\<close>, \<^verbatim>\<open>ld\<close>, \<^verbatim>\<open>bfd\<close>, \<^verbatim>\<open>binutils\<close>, \<^verbatim>\<open>libiberty\<close>), which is not
  part of a game and comes from elsewhere; code that exists only in assembly (the mixer and the
  note commands of the music player, the interrupt handler and upper layer of the wireless
  library, BIOS call stubs, multiboot client). Of the C library: open files and what reads from
  or scans them, the heap, floating-point conversion and arithmetic, system calls, string
  functions that have only one body of bytes, \<^verbatim>\<open>asctime\<close> and the variants with a static buffer.
  Of \<^verbatim>\<open>libgcc\<close>: software floating point and the conversions from and to it, for which the
  library of theories used here has no model of IEEE numbers. Timing is modelled only as far as
  code waits for it.
\<close>

end
